(* ===== verification/Upf_Prelude.thy ===== *)
theory Upf_Prelude
  imports Main "HOL-Library.Word"
begin

text \<open>
  Shared vocabulary of the development: the machine-integer types of the C sources, the
  byte-order primitives of DPDK and of the C library (as used on the little-endian x86
  targets the build scripts support), the collections of facts the component proofs use,
  and generic lemmas on words and lists.
\<close>

unbundle bit_operations_syntax

type_synonym u8 = "8 word"
type_synonym u16 = "16 word"
type_synonym u32 = "32 word"
type_synonym u64 = "64 word"
type_synonym u128 = "128 word"

named_theorems upf_simps "rewrite rules shared by the component proofs"
named_theorems upf_inv "every operation keeps the invariant of its component"

text \<open>The status codes of \<^verbatim>\<open>utlt_debug.h\<close> (\<^verbatim>\<open>Status\<close>).\<close>

datatype Status = STATUS_ERROR | STATUS_OK | STATUS_EAGAIN

subsection \<open>Packet metadata\<close>

text \<open>A packet buffer as queues and rings hold it: its address.\<close>

type_synonym mbuf = nat

text \<open>The ONVM actions and the metadata word an NF leaves on a packet for the manager.\<close>

abbreviation ONVM_NF_ACTION_DROP :: u8 where "ONVM_NF_ACTION_DROP \<equiv> 0"
abbreviation ONVM_NF_ACTION_NEXT :: u8 where "ONVM_NF_ACTION_NEXT \<equiv> 1"
abbreviation ONVM_NF_ACTION_TONF :: u8 where "ONVM_NF_ACTION_TONF \<equiv> 2"
abbreviation ONVM_NF_ACTION_OUT :: u8 where "ONVM_NF_ACTION_OUT \<equiv> 3"

record onvm_pkt_meta =
  m_action :: u8
  m_destination :: u16
  m_src :: u16
  m_chain_index :: u8
  m_flags :: u8

subsection \<open>Byte order\<close>

definition rte_bswap16 :: "u16 \<Rightarrow> u16" where
  "rte_bswap16 x = push_bit 8 x OR drop_bit 8 x"

definition rte_bswap32 :: "u32 \<Rightarrow> u32" where
  "rte_bswap32 x =
     push_bit 24 (x AND 0xFF) OR push_bit 8 (x AND 0xFF00) OR
     (drop_bit 8 x AND 0xFF00) OR (drop_bit 24 x AND 0xFF)"

text \<open>On a little-endian machine the four conversions are all the byte swap.\<close>

abbreviation rte_be_to_cpu_32 :: "u32 \<Rightarrow> u32" where
  "rte_be_to_cpu_32 \<equiv> rte_bswap32"

abbreviation rte_cpu_to_be_32 :: "u32 \<Rightarrow> u32" where
  "rte_cpu_to_be_32 \<equiv> rte_bswap32"

abbreviation rte_be_to_cpu_16 :: "u16 \<Rightarrow> u16" where
  "rte_be_to_cpu_16 \<equiv> rte_bswap16"

abbreviation rte_cpu_to_be_16 :: "u16 \<Rightarrow> u16" where
  "rte_cpu_to_be_16 \<equiv> rte_bswap16"

lemma rte_bswap16_invol [simp]: "rte_bswap16 (rte_bswap16 x) = x"
  by (rule bit_eqI)
    (auto simp: rte_bswap16_def bit_or_iff bit_push_bit_iff bit_drop_bit_eq
      dest: bit_imp_le_length)

subsection \<open>Words as natural numbers\<close>

lemma u8_less: "unat (x :: u8) < 256"
  using unsigned_less [of x] by simp

lemma u16_less: "unat (x :: u16) < 65536"
  using unsigned_less [of x] by simp

lemma u32_less: "unat (x :: u32) < 4294967296"
  using unsigned_less [of x] by simp

lemma u64_less: "unat (x :: u64) < 18446744073709551616"
  using unsigned_less [of x] by simp

lemma u128_less: "unat (x :: u128) < 2 ^ 128"
  using unsigned_less [of x] by simp

lemma unat_ucast_up:
  fixes x :: "'a::len word"
  assumes "LENGTH('a) \<le> LENGTH('b::len)"
  shows "unat (ucast x :: 'b word) = unat x"
proof -
  have "unat x < 2 ^ LENGTH('a)" by (rule unsigned_less)
  also have "\<dots> \<le> 2 ^ LENGTH('b)" using assms by (rule power_increasing) simp
  finally show ?thesis by (simp add: unsigned_ucast_eq take_bit_nat_eq_self)
qed

lemma unat_ucast_64_128 [simp]: "unat (ucast (x :: u64) :: u128) = unat x"
  by (rule unat_ucast_up) simp

lemma unat_ucast_32_64 [simp]: "unat (ucast (x :: u32) :: u64) = unat x"
  by (rule unat_ucast_up) simp

lemma unat_ucast_16_32 [simp]: "unat (ucast (x :: u16) :: u32) = unat x"
  by (rule unat_ucast_up) simp

lemma unat_ucast_8_16 [simp]: "unat (ucast (x :: u8) :: u16) = unat x"
  by (rule unat_ucast_up) simp

lemma unat_ucast_8_32 [simp]: "unat (ucast (x :: u8) :: u32) = unat x"
  by (rule unat_ucast_up) simp

lemma unat_ucast_128_64:
  "unat (x :: u128) < 2 ^ 64 \<Longrightarrow> unat (ucast x :: u64) = unat x"
  by (simp add: unsigned_ucast_eq take_bit_nat_eq_self)

lemma unat_mult_128:
  fixes a b :: u128
  shows "unat a * unat b < 2 ^ 128 \<Longrightarrow> unat (a * b) = unat a * unat b"
  using unat_mult_lem [of a b] by simp

lemma unat_minus_le:
  fixes a b :: "'a::len word"
  shows "b \<le> a \<Longrightarrow> unat (a - b) = unat a - unat b"
  by (simp add: unat_sub word_le_nat_alt)

lemma bit_rte_bswap32:
  "bit (rte_bswap32 x) n \<longleftrightarrow>
     (if n < 8 then bit x (n + 24) else if n < 16 then bit x (n + 8)
      else if n < 24 then bit x (n - 8) else n < 32 \<and> bit x (n - 24))"
proof -
  have m: "(0xFF :: u32) = mask 8" "(0xFF00 :: u32) = push_bit 8 (mask 8)"
    by (simp_all add: mask_eq_exp_minus_1 push_bit_eq_mult)
  show ?thesis
    unfolding rte_bswap32_def m
    by (auto simp: bit_or_iff bit_and_iff bit_push_bit_iff bit_drop_bit_eq bit_mask_iff
        ac_simps dest: bit_imp_le_length)
qed

lemma rte_bswap32_invol [simp]: "rte_bswap32 (rte_bswap32 x) = x"
  by (rule bit_eqI) (auto simp: bit_rte_bswap32)

subsection \<open>Array scans\<close>

text \<open>The loop \<^verbatim>\<open>for (i = 0; i < n; i++) if (P(a[i])) break;\<close> of many operations.\<close>

fun find_index :: "('a \<Rightarrow> bool) \<Rightarrow> 'a list \<Rightarrow> nat option" where
  "find_index P [] = None"
| "find_index P (x # xs) = (if P x then Some 0 else map_option Suc (find_index P xs))"

lemma find_index_None: "find_index P xs = None \<longleftrightarrow> (\<forall>x\<in>set xs. \<not> P x)"
  by (induction xs) auto

lemma find_index_SomeD:
  "find_index P xs = Some i \<Longrightarrow> i < length xs \<and> P (xs ! i) \<and> (\<forall>j<i. \<not> P (xs ! j))"
proof (induction xs arbitrary: i)
  case (Cons x xs)
  then show ?case
    by (auto split: if_splits simp: less_Suc_eq_0_disj)
qed simp

lemma find_index_nth:
  assumes "i < length xs" "P (xs ! i)"
  obtains j where "find_index P xs = Some j" "j \<le> i"
proof -
  have "find_index P xs \<noteq> None" using assms nth_mem by (auto simp: find_index_None)
  then obtain j where j: "find_index P xs = Some j" by blast
  then have "j \<le> i" using assms(2) find_index_SomeD [OF j] by (meson not_le)
  with j show thesis by (rule that)
qed

lemma find_index_replicate [simp]:
  "find_index P (replicate n x) = (if P x \<and> 0 < n then Some 0 else None)"
  by (cases n) (auto simp: find_index_None)

lemma find_index_update:
  "(j < length xs \<Longrightarrow> P y = P (xs ! j)) \<Longrightarrow> find_index P (xs[j := y]) = find_index P xs"
  by (induction xs arbitrary: j) (auto split: nat.splits)

end
