(* ===== verification/Probe_Table.thy ===== *)
theory Probe_Table
  imports Upf_Prelude
begin

text \<open>
  Open addressing with linear probing. The data plane keeps four fixed-size arrays that are
  searched this way: the trTCM flow table and the UE hash of \<^verbatim>\<open>upf_u_trtcm.c\<close>, the
  neighbour table of \<^verbatim>\<open>upf_u_arp.c\<close> and, with a different stop rule, the flows of a UE
  shaper. The two probe loops are defined here once, over a slot predicate; the locale
  \<open>probe_table\<close> states what such a table needs (a hash into the array) and proves that
  it behaves as a map from keys to slots.
\<close>

subsection \<open>The probe loops\<close>

lemma probe_step_less:
  assumes "start < N" and "(idx + 1) mod N \<noteq> start"
  shows "nat ((int start - int ((idx + 1) mod N) - 1) mod int N)
       < nat ((int start - int idx - 1) mod int N)"
proof -
  let ?a = "(int start - int idx - 1) mod int N"
  have N: "0 < int N" using assms(1) by simp
  have "?a \<noteq> 0"
  proof
    assume "?a = 0"
    then have "(int idx + 1) mod int N = int start mod int N"
      by (metis mod_eq_dvd_iff mod_0_imp_dvd diff_diff_eq dvd_minus_iff minus_diff_eq)
    then have "int ((idx + 1) mod N) = int start"
      using assms(1) by (simp add: zmod_int add.commute)
    with assms(2) show False by simp
  qed
  moreover have "0 \<le> ?a" "?a < int N" using N by simp_all
  ultimately have a: "1 \<le> ?a" "?a < int N" by linarith+
  have "int ((idx + 1) mod N) = (int idx + 1) mod int N"
    by (simp add: zmod_int add.commute)
  moreover have "(int start - x mod int N - 1) mod int N = (int start - x - 1) mod int N" for x
    using mod_diff_right_eq [of "int start - 1" x "int N"] by (simp add: algebra_simps)
  ultimately have "(int start - int ((idx + 1) mod N) - 1) mod int N
      = (int start - (int idx + 1) - 1) mod int N"
    by simp
  also have "\<dots> = (?a - 1) mod int N"
    by (simp add: mod_diff_left_eq algebra_simps)
  also have "\<dots> = ?a - 1" using a by (simp add: mod_pos_pos_trivial)
  finally show ?thesis using a by simp
qed

text \<open>
  The lookup loop: walk from \<open>start\<close> while the slots are in use, stop at the key, at a free
  slot or when the walk is back at \<open>start\<close>. The disjunct \<open>N \<le> start\<close> only makes the function
  total; every caller starts at a hash value below \<open>N\<close>.
\<close>

function probe_search ::
  "nat \<Rightarrow> (nat \<Rightarrow> bool) \<Rightarrow> (nat \<Rightarrow> bool) \<Rightarrow> nat \<Rightarrow> nat \<Rightarrow> nat option" where
  "probe_search N used hit start idx =
     (if \<not> used idx then None
      else if hit idx then Some idx
      else if (idx + 1) mod N = start \<or> N \<le> start then None
      else probe_search N used hit start ((idx + 1) mod N))"
  by pat_completeness auto
termination
  by (relation "measure (\<lambda>(N, used, hit, start, idx). nat ((int start - int idx - 1) mod int N))")
    (simp_all only: wf_measure in_measure case_prod_conv, rule probe_step_less, auto)

text \<open>The insertion loop: the first free slot of the walk, if there is one.\<close>

function probe_free :: "nat \<Rightarrow> (nat \<Rightarrow> bool) \<Rightarrow> nat \<Rightarrow> nat \<Rightarrow> nat option" where
  "probe_free N used start idx =
     (if \<not> used idx then Some idx
      else if (idx + 1) mod N = start \<or> N \<le> start then None
      else probe_free N used start ((idx + 1) mod N))"
  by pat_completeness auto
termination
  by (relation "measure (\<lambda>(N, used, start, idx). nat ((int start - int idx - 1) mod int N))")
    (simp_all only: wf_measure in_measure case_prod_conv, rule probe_step_less, auto)

declare probe_search.simps [simp del] probe_free.simps [simp del]

subsection \<open>The walk as a sequence of offsets\<close>

definition walk :: "nat \<Rightarrow> nat \<Rightarrow> nat \<Rightarrow> nat" where
  "walk N start j = (start + j) mod N"

lemma walk_less [simp]: "0 < N \<Longrightarrow> walk N start j < N"
  by (simp add: walk_def)

lemma walk_0 [simp]: "start < N \<Longrightarrow> walk N start 0 = start"
  by (simp add: walk_def)

lemma walk_Suc: "(walk N start j + 1) mod N = walk N start (Suc j)"
  by (simp add: walk_def mod_Suc_eq)

lemma walk_inj:
  assumes "j < N" "j' < N" "walk N start j = walk N start j'"
  shows "j = j'"
proof -
  have "(int start + int j) mod int N = (int start + int j') mod int N"
    using assms(3) by (metis walk_def of_nat_add zmod_int)
  then have "int j mod int N = int j' mod int N"
    by (metis add_diff_cancel_left' mod_diff_left_eq)
  then show ?thesis using assms(1,2) by simp
qed

lemma walk_eq_start: "start < N \<Longrightarrow> 0 < j \<Longrightarrow> j < N \<Longrightarrow> walk N start j \<noteq> start"
  using walk_inj [of j N 0 start] by fastforce

lemma walk_N: "start < N \<Longrightarrow> walk N start N = start"
  by (simp add: walk_def)

lemma walk_surj:
  assumes "i < N"
  obtains j where "j < N" "walk N start j = i"
proof -
  have N: "0 < N" using assms by simp
  have "inj_on (walk N start) {..<N}" by (auto intro!: inj_onI dest: walk_inj)
  then have "card (walk N start ` {..<N}) = card {..<N}" by (rule card_image)
  moreover have "walk N start ` {..<N} \<subseteq> {..<N}" using N by auto
  ultimately have "walk N start ` {..<N} = {..<N}" by (intro card_subset_eq) auto
  with assms obtain j where "j < N" "walk N start j = i"
    by (metis image_iff lessThan_iff)
  then show thesis by (rule that)
qed

lemma first_from_Suc:
  fixes k N :: nat
  assumes "R k" "\<not> Q k"
  shows "(\<exists>j\<ge>k. j < N \<and> Q j \<and> (\<forall>j'. k \<le> j' \<and> j' < j \<longrightarrow> R j'))
     \<longleftrightarrow> (\<exists>j\<ge>Suc k. j < N \<and> Q j \<and> (\<forall>j'. Suc k \<le> j' \<and> j' < j \<longrightarrow> R j'))"
proof -
  have "(k \<le> j \<and> j < N \<and> Q j \<and> (\<forall>j'. k \<le> j' \<and> j' < j \<longrightarrow> R j'))
     \<longleftrightarrow> (Suc k \<le> j \<and> j < N \<and> Q j \<and> (\<forall>j'. Suc k \<le> j' \<and> j' < j \<longrightarrow> R j'))" for j
    using assms by (metis Suc_leI Suc_leD le_neq_implies_less)
  then show ?thesis by blast
qed

lemma probe_search_from:
  assumes "start < N" "k < N"
  shows "probe_search N used hit start (walk N start k) = Some i \<longleftrightarrow>
    (\<exists>j. k \<le> j \<and> j < N \<and> i = walk N start j \<and> used i \<and> hit i \<and>
      (\<forall>j'. k \<le> j' \<and> j' < j \<longrightarrow> used (walk N start j') \<and> \<not> hit (walk N start j')))"
  using assms(2)
proof (induction "N - k" arbitrary: k rule: less_induct)
  case less
  let ?w = "walk N start"
  show ?case
  proof (cases "used (?w k) \<and> \<not> hit (?w k)")
    case False
    then show ?thesis
      using less.prems
      by (subst probe_search.simps) (auto dest: le_neq_implies_less)
  next
    case True
    show ?thesis
    proof (cases "Suc k < N")
      case True': True
      then have ne: "(?w k + 1) mod N \<noteq> start"
        using walk_eq_start [OF assms(1), of "Suc k"] by (simp only: walk_Suc) simp
      have "probe_search N used hit start (?w k)
          = probe_search N used hit start (?w (Suc k))"
        using True ne assms(1)
        by (subst probe_search.simps) (simp only: walk_Suc, simp)
      then show ?thesis
        using less.hyps [of "Suc k"] less.prems True True'
          first_from_Suc [where k = k and N = N
            and R = "\<lambda>j. used (?w j) \<and> \<not> hit (?w j)"
            and Q = "\<lambda>j. i = ?w j \<and> used i \<and> hit i"]
        by simp
    next
      case False
      then have "Suc k = N" using less.prems by simp
      then have "(?w k + 1) mod N = start"
        using walk_N [OF assms(1)] by (simp only: walk_Suc)
      then have "probe_search N used hit start (?w k) = None"
        using True by (subst probe_search.simps) simp
      moreover have "j = k" if "k \<le> j" "j < N" for j
        using that \<open>Suc k = N\<close> by simp
      ultimately show ?thesis using True by auto
    qed
  qed
qed

lemma probe_free_from:
  assumes "start < N" "k < N"
  shows "probe_free N used start (walk N start k) = Some i \<longleftrightarrow>
    (\<exists>j. k \<le> j \<and> j < N \<and> i = walk N start j \<and> \<not> used i \<and>
      (\<forall>j'. k \<le> j' \<and> j' < j \<longrightarrow> used (walk N start j')))"
  using assms(2)
proof (induction "N - k" arbitrary: k rule: less_induct)
  case less
  let ?w = "walk N start"
  show ?case
  proof (cases "used (?w k)")
    case False
    then show ?thesis
      using less.prems
      by (subst probe_free.simps) (auto dest: le_neq_implies_less)
  next
    case True
    show ?thesis
    proof (cases "Suc k < N")
      case True': True
      then have ne: "(?w k + 1) mod N \<noteq> start"
        using walk_eq_start [OF assms(1), of "Suc k"] by (simp only: walk_Suc) simp
      have "probe_free N used start (?w k) = probe_free N used start (?w (Suc k))"
        using True ne assms(1)
        by (subst probe_free.simps) (simp only: walk_Suc, simp)
      then show ?thesis
        using less.hyps [of "Suc k"] less.prems True True'
          first_from_Suc [where k = k and N = N and R = "\<lambda>j. used (?w j)"
            and Q = "\<lambda>j. i = ?w j \<and> \<not> used i"]
        by simp
    next
      case False
      then have "Suc k = N" using less.prems by simp
      then have "(?w k + 1) mod N = start"
        using walk_N [OF assms(1)] by (simp only: walk_Suc)
      then have "probe_free N used start (?w k) = None"
        using True by (subst probe_free.simps) simp
      moreover have "j = k" if "k \<le> j" "j < N" for j
        using that \<open>Suc k = N\<close> by simp
      ultimately show ?thesis using True by auto
    qed
  qed
qed

lemma probe_search_Some:
  assumes "start < N"
  shows "probe_search N used hit start start = Some i \<longleftrightarrow>
    (\<exists>j<N. i = walk N start j \<and> used i \<and> hit i \<and>
      (\<forall>j'<j. used (walk N start j') \<and> \<not> hit (walk N start j')))"
  using probe_search_from [of start N 0 used hit i] assms by simp

lemma probe_free_Some:
  assumes "start < N"
  shows "probe_free N used start start = Some i \<longleftrightarrow>
    (\<exists>j<N. i = walk N start j \<and> \<not> used i \<and> (\<forall>j'<j. used (walk N start j')))"
  using probe_free_from [of start N 0 used i] assms by simp

subsection \<open>A table searched by probing\<close>

definition tbl_search ::
  "nat \<Rightarrow> ('k \<Rightarrow> nat) \<Rightarrow> ('e \<Rightarrow> bool) \<Rightarrow> ('e \<Rightarrow> 'k) \<Rightarrow> 'e list \<Rightarrow> 'k \<Rightarrow> nat option" where
  "tbl_search N hash used key T k =
     probe_search N (\<lambda>i. used (T ! i)) (\<lambda>i. key (T ! i) = k) (hash k) (hash k)"

definition tbl_free ::
  "nat \<Rightarrow> ('k \<Rightarrow> nat) \<Rightarrow> ('e \<Rightarrow> bool) \<Rightarrow> 'e list \<Rightarrow> 'k \<Rightarrow> nat option" where
  "tbl_free N hash used T k = probe_free N (\<lambda>i. used (T ! i)) (hash k) (hash k)"

text \<open>
  The invariant of such a table: it has its full length, and a search for the key of a slot
  in use ends at that slot. So no key is stored twice and no used slot is unreachable.
\<close>

definition probe_inv ::
  "nat \<Rightarrow> ('k \<Rightarrow> nat) \<Rightarrow> ('e \<Rightarrow> bool) \<Rightarrow> ('e \<Rightarrow> 'k) \<Rightarrow> 'e list \<Rightarrow> bool" where
  "probe_inv N hash used key T \<longleftrightarrow> length T = N \<and>
     (\<forall>i<N. used (T ! i) \<longrightarrow> tbl_search N hash used key T (key (T ! i)) = Some i)"

locale probe_table =
  fixes N :: nat
    and hash :: "'k \<Rightarrow> nat"
    and used :: "'e \<Rightarrow> bool"
    and key :: "'e \<Rightarrow> 'k"
  assumes hash_less: "hash k < N"
begin

lemma search_Some_iff:
  "tbl_search N hash used key T k = Some i \<longleftrightarrow>
     (\<exists>j<N. i = walk N (hash k) j \<and> used (T ! i) \<and> key (T ! i) = k \<and>
       (\<forall>j'<j. used (T ! walk N (hash k) j') \<and> key (T ! walk N (hash k) j') \<noteq> k))"
  unfolding tbl_search_def probe_search_Some [OF hash_less] ..

lemma N_pos: "0 < N"
  using hash_less [of undefined] by simp

lemma search_sound:
  assumes "tbl_search N hash used key T k = Some i"
  shows "i < N \<and> used (T ! i) \<and> key (T ! i) = k"
  using assms N_pos by (auto simp: search_Some_iff)

lemma inv_search:
  assumes "probe_inv N hash used key T"
  shows "tbl_search N hash used key T k = Some i \<longleftrightarrow> i < N \<and> used (T ! i) \<and> key (T ! i) = k"
  using assms search_sound unfolding probe_inv_def by blast

lemma inv_search_None:
  assumes "probe_inv N hash used key T"
  shows "tbl_search N hash used key T k = None \<longleftrightarrow>
    (\<forall>i<N. used (T ! i) \<longrightarrow> key (T ! i) \<noteq> k)"
  using inv_search [OF assms, of k] by (metis not_None_eq)

lemma inv_unused:
  assumes "length T = N" "\<And>i. i < N \<Longrightarrow> \<not> used (T ! i)"
  shows "probe_inv N hash used key T"
  using assms by (simp add: probe_inv_def)

lemma free_Some_iff:
  "tbl_free N hash used T k = Some i \<longleftrightarrow>
     (\<exists>j<N. i = walk N (hash k) j \<and> \<not> used (T ! i) \<and>
       (\<forall>j'<j. used (T ! walk N (hash k) j')))"
  unfolding tbl_free_def probe_free_Some [OF hash_less] ..

lemma free_sound:
  assumes "tbl_free N hash used T k = Some i"
  shows "i < N \<and> \<not> used (T ! i)"
  using assms N_pos by (auto simp: free_Some_iff)

lemma free_None_iff:
  "tbl_free N hash used T k = None \<longleftrightarrow> (\<forall>i<N. used (T ! i))"
proof
  assume None: "tbl_free N hash used T k = None"
  show "\<forall>i<N. used (T ! i)"
  proof (rule ccontr)
    assume "\<not> ?thesis"
    then obtain i where "i < N" "\<not> used (T ! i)" by blast
    then obtain j where j: "j < N" "\<not> used (T ! walk N (hash k) j)"
      by (metis walk_surj)
    define m where "m = (LEAST j. \<not> used (T ! walk N (hash k) j))"
    have "\<not> used (T ! walk N (hash k) m)" unfolding m_def using j(2) by (rule LeastI)
    moreover have "m \<le> j" unfolding m_def using j(2) by (rule Least_le)
    moreover have "\<forall>j'<m. used (T ! walk N (hash k) j')"
      unfolding m_def using not_less_Least by blast
    ultimately have "tbl_free N hash used T k = Some (walk N (hash k) m)"
      using j(1) unfolding free_Some_iff by (intro exI [of _ m]) auto
    with None show False by simp
  qed
next
  assume "\<forall>i<N. used (T ! i)"
  then show "tbl_free N hash used T k = None"
    using free_sound [of T k] by (metis not_None_eq)
qed

text \<open>
  Writing one slot of the walk. It covers the three writes of the sources: filling the first
  free slot, overwriting the slot of the key itself, and evicting another key from the
  first slot of a full walk.
\<close>

lemma update_inv:
  assumes inv: "probe_inv N hash used key T"
    and j: "j < N" "f = walk N (hash k) j"
    and before: "\<forall>j'<j. used (T ! walk N (hash k) j') \<and> key (T ! walk N (hash k) j') \<noteq> k"
    and e: "used e" "key e = k"
    and uniq: "\<forall>i<N. i \<noteq> f \<longrightarrow> used (T ! i) \<longrightarrow> key (T ! i) \<noteq> k"
  shows "probe_inv N hash used key (T[f := e])"
proof -
  have len: "length T = N" using inv by (simp add: probe_inv_def)
  have f: "f < N" using j N_pos by simp
  have ne: "walk N (hash k) j' \<noteq> f" if "j' < j" for j'
    using that j walk_inj [of j' N j "hash k"] by auto
  have "tbl_search N hash used key (T[f := e]) k = Some f"
    unfolding search_Some_iff
  proof (intro exI [of _ j] conjI allI impI)
    fix j' assume j': "j' < j"
    have "T[f := e] ! walk N (hash k) j' = T ! walk N (hash k) j'"
      using ne [OF j'] by (metis nth_list_update_neq)
    then show "used (T[f := e] ! walk N (hash k) j')"
      and "key (T[f := e] ! walk N (hash k) j') \<noteq> k"
      using before j' by simp_all
  qed (use j e f len in simp_all)
  moreover have "tbl_search N hash used key (T[f := e]) (key (T ! i)) = Some i"
    if i: "i < N" "i \<noteq> f" "used (T ! i)" for i
  proof -
    have "key (T ! i) \<noteq> k" using uniq i by blast
    moreover have "tbl_search N hash used key T (key (T ! i)) = Some i"
      using inv i by (simp add: probe_inv_def)
    ultimately show ?thesis
      unfolding search_Some_iff using e f len i by (auto simp: nth_list_update)
  qed
  ultimately show ?thesis
    using len e f by (auto simp: probe_inv_def nth_list_update)
qed

lemma update_search:
  assumes inv: "probe_inv N hash used key T"
    and "j < N" "f = walk N (hash k) j"
    and "\<forall>j'<j. used (T ! walk N (hash k) j') \<and> key (T ! walk N (hash k) j') \<noteq> k"
    and e: "used e" "key e = k"
    and uniq: "\<forall>i<N. i \<noteq> f \<longrightarrow> used (T ! i) \<longrightarrow> key (T ! i) \<noteq> k"
  shows "tbl_search N hash used key (T[f := e]) k' =
    (if k' = k then Some f
     else if tbl_search N hash used key T k' = Some f then None
     else tbl_search N hash used key T k')" (is "?l = ?r")
proof -
  have inv': "probe_inv N hash used key (T[f := e])" using assms by (rule update_inv)
  have len: "length T = N" using inv by (simp add: probe_inv_def)
  have f: "f < N" using assms(2,3) N_pos by simp
  have same: "i = f" if "i < N" "used (T ! i)" "used (T ! f)" "key (T ! i) = key (T ! f)" for i
    using that f inv by (metis option.inject probe_inv_def)
  have "?l = Some i \<longleftrightarrow> ?r = Some i" for i
    using e f len uniq same [of i]
    by (auto simp: inv_search [OF inv'] inv_search [OF inv] nth_list_update)
  then show ?thesis by (metis not_None_eq)
qed

text \<open>Filling the slot the insertion loop ends at.\<close>

lemma fill_free:
  assumes inv: "probe_inv N hash used key T"
    and new: "tbl_search N hash used key T k = None"
    and free: "tbl_free N hash used T k = Some f"
    and e: "used e" "key e = k"
  shows fill_free_inv: "probe_inv N hash used key (T[f := e])"
    and fill_free_search: "tbl_search N hash used key (T[f := e]) k' =
      (if k' = k then Some f else tbl_search N hash used key T k')"
proof -
  from free obtain j where j: "j < N" "f = walk N (hash k) j" "\<not> used (T ! f)"
    "\<forall>j'<j. used (T ! walk N (hash k) j')"
    by (auto simp: free_Some_iff)
  have none: "\<forall>i<N. used (T ! i) \<longrightarrow> key (T ! i) \<noteq> k"
    using new inv_search_None [OF inv] by blast
  then have before: "\<forall>j'<j. used (T ! walk N (hash k) j') \<and> key (T ! walk N (hash k) j') \<noteq> k"
    using j N_pos by simp
  show "probe_inv N hash used key (T[f := e])"
    by (rule update_inv [OF inv j(1,2) before e]) (use none in blast)
  have "tbl_search N hash used key T k' \<noteq> Some f"
    using j(3) search_sound [of T k' f] by blast
  then show "tbl_search N hash used key (T[f := e]) k' =
      (if k' = k then Some f else tbl_search N hash used key T k')"
    using none by (subst update_search [OF inv j(1,2) before e]) auto
qed

text \<open>Overwriting the slot the search ends at.\<close>

lemma overwrite:
  assumes inv: "probe_inv N hash used key T"
    and found: "tbl_search N hash used key T k = Some f"
    and e: "used e" "key e = k"
  shows overwrite_inv: "probe_inv N hash used key (T[f := e])"
    and overwrite_search:
      "tbl_search N hash used key (T[f := e]) k' = tbl_search N hash used key T k'"
proof -
  from found obtain j where j: "j < N" "f = walk N (hash k) j"
    and before: "\<forall>j'<j. used (T ! walk N (hash k) j') \<and> key (T ! walk N (hash k) j') \<noteq> k"
    by (auto simp: search_Some_iff)
  have uniq: "\<forall>i<N. i \<noteq> f \<longrightarrow> used (T ! i) \<longrightarrow> key (T ! i) \<noteq> k"
    using found inv_search [OF inv, of k] by (metis option.inject)
  show "probe_inv N hash used key (T[f := e])"
    by (rule update_inv [OF inv j before e uniq])
  have "tbl_search N hash used key T k' = Some f \<longleftrightarrow> k' = k"
    using found search_sound [of T k' f] search_sound [of T k f] by auto
  then show "tbl_search N hash used key (T[f := e]) k' = tbl_search N hash used key T k'"
    by (subst update_search [OF inv j before e uniq]) (simp add: found)
qed

end

end
