(* ===== verification/Token_Bucket.thy ===== *)
theory Token_Bucket
  imports Upf_Prelude
begin

text \<open>
  The token buckets of \<^verbatim>\<open>5gc/upf_u/upf_u_trtcm.c\<close>: depth of a bucket, the refill
  \<^verbatim>\<open>shaper_update_bucket_tokens\<close>, and the withdrawal the three consume operations share.
  The arithmetic is kept at the widths of the source (64-bit counters, 128-bit
  intermediates). The clock \<^verbatim>\<open>rte_get_tsc_cycles()\<close> and its frequency
  \<^verbatim>\<open>rte_get_tsc_hz()\<close> are arguments.

  The locale \<open>rate_limiter\<close> states what the clients of a bucket rely on; its main lemma
  bounds the bytes a bucket can ever grant, and the buckets of the source interpret it.
\<close>

abbreviation UINT64_MAX :: u128 where
  "UINT64_MAX \<equiv> 0xFFFFFFFFFFFFFFFF"

abbreviation MIN_TOKEN_BUCKET_DEPTH :: nat where
  "MIN_TOKEN_BUCKET_DEPTH \<equiv> 2048"

record tb_config =
  tb_rate :: u64
  tb_depth :: u64
  tb_tokens :: u64
  last_cycle :: u64
  cur_cycles :: u64
  tb_used :: u16

definition shaper_bucket_depth :: "u64 \<Rightarrow> u64" where
  "shaper_bucket_depth rate_kbps =
     (if rate_kbps = 0 then 0
      else let depth_bytes = (ucast rate_kbps * 100 + 7) div (8 :: u128) in
        if depth_bytes < 2048 then 2048
        else if depth_bytes > UINT64_MAX then ucast UINT64_MAX
        else ucast depth_bytes)"

definition trtcm_bucket_depth :: "u64 \<Rightarrow> u64" where
  "trtcm_bucket_depth rate_kbps =
     (if rate_kbps = 0 then 2048
      else let depth_bytes = (ucast rate_kbps * 100 + 7) div (8 :: u128) in
        if depth_bytes < 2048 then 2048
        else if depth_bytes > UINT64_MAX then ucast UINT64_MAX
        else ucast depth_bytes)"

definition shaper_update_bucket_tokens :: "u64 \<Rightarrow> tb_config \<Rightarrow> u64 \<Rightarrow> tb_config" where
  "shaper_update_bucket_tokens tsc_hz tb now =
     (if tb_rate tb = 0 \<or> tb_depth tb = 0 then
        tb \<lparr>tb_tokens := 0, last_cycle := now\<rparr>
      else if tb_tokens tb \<ge> tb_depth tb then
        tb \<lparr>tb_tokens := tb_depth tb, last_cycle := now\<rparr>
      else
        let elapsed_cycles = now - last_cycle tb;
            byte_rate = (ucast (tb_rate tb) * 125 :: u128);
            produced = (ucast elapsed_cycles * byte_rate) div ucast tsc_hz;
            tokens_produced =
              (if produced > UINT64_MAX then ucast UINT64_MAX else ucast produced :: u64)
        in
        if tokens_produced = 0 then tb
        else if tokens_produced \<ge> tb_depth tb - tb_tokens tb then
          tb \<lparr>tb_tokens := tb_depth tb, last_cycle := now\<rparr>
        else
          let cycles_used = (ucast ((ucast tokens_produced * ucast tsc_hz) div byte_rate) :: u64);
              cycles_used = (if cycles_used = 0 then 1 else cycles_used)
          in tb \<lparr>tb_tokens := tb_tokens tb + tokens_produced,
                 last_cycle := last_cycle tb + cycles_used\<rparr>)"

definition initBucket :: "tb_config \<Rightarrow> u64 \<Rightarrow> u64 \<Rightarrow> tb_config" where
  "initBucket tb rate now =
     tb \<lparr>tb_rate := rate, tb_depth := shaper_bucket_depth rate,
        tb_tokens := shaper_bucket_depth rate, last_cycle := now, cur_cycles := now\<rparr>"

definition bucketCanFitPacket :: "tb_config \<Rightarrow> u32 \<Rightarrow> bool" where
  "bucketCanFitPacket tb pkt_len \<longleftrightarrow> tb_depth tb > 0 \<and> ucast pkt_len \<le> tb_depth tb"

text \<open>
  The body of \<^verbatim>\<open>consume_session_ambr\<close> on its bucket: refill, then withdraw if the tokens
  are there.
\<close>

definition consume_tb :: "u64 \<Rightarrow> tb_config \<Rightarrow> u64 \<Rightarrow> u32 \<Rightarrow> tb_config \<times> bool" where
  "consume_tb tsc_hz tb now pkt_len =
     (let tb = shaper_update_bucket_tokens tsc_hz tb now in
      if tb_tokens tb \<ge> ucast pkt_len
      then (tb \<lparr>tb_tokens := tb_tokens tb - ucast pkt_len\<rparr>, True)
      else (tb, False))"

subsection \<open>Depths\<close>

lemma burst_bytes:
  fixes r :: u64
  shows "unat ((ucast r * 100 + 7) div (8 :: u128)) = (unat r * 100 + 7) div 8"
proof -
  have b: "unat r * 100 + 7 < 2 ^ 128" using u64_less [of r] by simp
  then have "unat (ucast r * 100 :: u128) = unat r * 100"
    by (subst unat_mult_128) simp_all
  with b have "unat (ucast r * 100 + 7 :: u128) = unat r * 100 + 7"
    using unat_add_lem [of "ucast r * 100 :: u128" 7] by simp
  then show ?thesis by (simp add: unat_div)
qed

lemma clamp_64:
  "unat (if x > UINT64_MAX then ucast UINT64_MAX else ucast x :: u64) = min (unat x) (2 ^ 64 - 1)"
proof (cases "x > UINT64_MAX")
  case True
  then have "2 ^ 64 - 1 < unat x" by (simp add: word_less_nat_alt)
  then show ?thesis using True by simp
next
  case False
  then have "unat x \<le> 2 ^ 64 - 1" by (simp add: word_less_nat_alt)
  then show ?thesis using False by (simp add: unat_ucast_128_64)
qed

lemma unat_shaper_bucket_depth:
  "unat (shaper_bucket_depth r) =
     (if r = 0 then 0
      else max MIN_TOKEN_BUCKET_DEPTH (min ((unat r * 100 + 7) div 8) (2 ^ 64 - 1)))"
proof (cases "r = 0")
  case False
  let ?d = "(ucast r * 100 + 7) div (8 :: u128)"
  have "unat (shaper_bucket_depth r) =
      (if unat ?d < 2048 then 2048 else min (unat ?d) (2 ^ 64 - 1))"
    using False clamp_64 [of ?d] by (simp add: shaper_bucket_depth_def Let_def word_less_nat_alt)
  then show ?thesis using False by (simp only: burst_bytes) auto
qed (simp add: shaper_bucket_depth_def)

lemma shaper_bucket_depth_pos: "r \<noteq> 0 \<Longrightarrow> 0 < shaper_bucket_depth r"
  by (simp add: word_less_nat_alt unat_shaper_bucket_depth)

lemma trtcm_bucket_depth_eq:
  "trtcm_bucket_depth r = (if r = 0 then 2048 else shaper_bucket_depth r)"
  by (simp add: trtcm_bucket_depth_def shaper_bucket_depth_def)

subsection \<open>The refill over the natural numbers\<close>

text \<open>
  What the refill means when no intermediate overflows: \<open>T\<close> whole bytes have accrued since
  the last refill, and the clock is moved by the whole cycles these bytes account for.
\<close>

definition refill_nat :: "nat \<Rightarrow> nat \<Rightarrow> nat \<Rightarrow> nat \<Rightarrow> nat \<Rightarrow> nat \<Rightarrow> nat \<times> nat" where
  "refill_nat hz R depth tokens lst now =
     (if tokens \<ge> depth then (depth, now)
      else let T = (now - lst) * R div hz in
        if T = 0 then (tokens, lst)
        else if T \<ge> depth - tokens then (depth, now)
        else (tokens + T, lst + max 1 (T * hz div R)))"

lemma refill_cycles_le:
  fixes e R hz :: nat
  assumes "0 < R" "e * R div hz \<noteq> 0"
  shows "max 1 (e * R div hz * hz div R) \<le> e"
proof -
  have "e * R div hz * hz \<le> e * R" by (simp add: div_times_less_eq_dividend)
  then have "e * R div hz * hz div R \<le> e"
    using assms(1) by (metis div_le_mono div_mult_self_is_m)
  moreover have "e \<noteq> 0" using assms(2) by (intro notI) simp
  ultimately show ?thesis by simp
qed

lemma refill_nat_cases:
  assumes "refill_nat hz R depth tokens lst now = (tokens', lst')"
  obtains (full) "depth \<le> tokens" "tokens' = depth" "lst' = now"
  | (none) "tokens < depth" "tokens' = tokens" "lst' = lst"
  | (cap) "tokens < depth" "depth - tokens \<le> (now - lst) * R div hz"
      "tokens' = depth" "lst' = now"
  | (part) "tokens < depth" "(now - lst) * R div hz \<noteq> 0"
      "(now - lst) * R div hz < depth - tokens"
      "tokens' = tokens + (now - lst) * R div hz"
      "lst' = lst + max 1 ((now - lst) * R div hz * hz div R)"
  using assms unfolding refill_nat_def Let_def
  by (simp only: split: if_splits) (simp_all add: not_le)

lemma refill_nat_range:
  assumes "0 < R" "lst \<le> now" "tokens \<le> depth"
    and "refill_nat hz R depth tokens lst now = (tokens', lst')"
  shows "tokens \<le> tokens' \<and> tokens' \<le> depth \<and> lst \<le> lst' \<and> lst' \<le> now"
  using assms(4)
proof (cases rule: refill_nat_cases)
  case part
  then have "lst' \<le> now"
    using refill_cycles_le [OF assms(1) part(2)] assms(2) by linarith
  then show ?thesis using part by linarith
qed (use assms in auto)

lemma refill_nat_bound:
  assumes "0 < R" "lst \<le> now" "tokens \<le> depth"
    and "refill_nat hz R depth tokens lst now = (tokens', lst')"
  shows "tokens' * hz \<le> tokens * hz + (lst' - lst + 1) * R"
  using assms(4)
proof (cases rule: refill_nat_cases)
  case cap
  have "(depth - tokens) * hz \<le> (now - lst) * R div hz * hz"
    by (rule mult_le_mono1 [OF cap(2)])
  also have "\<dots> \<le> (now - lst) * R" by (simp add: div_times_less_eq_dividend)
  finally have "depth * hz - tokens * hz \<le> (now - lst) * R" by (simp only: diff_mult_distrib)
  moreover have "(now - lst + 1) * R = (now - lst) * R + R" by simp
  ultimately show ?thesis unfolding cap(3,4) by linarith
next
  case part
  define T where "T = (now - lst) * R div hz"
  have "T * hz = T * hz div R * R + T * hz mod R" by (simp only: div_mult_mod_eq)
  moreover have "T * hz mod R < R" using assms(1) by simp
  moreover have "(T * hz div R + 1) * R = T * hz div R * R + R" by simp
  ultimately have "T * hz \<le> (T * hz div R + 1) * R" by linarith
  also have "\<dots> \<le> (max 1 (T * hz div R) + 1) * R" by (rule mult_le_mono1) simp
  finally show ?thesis
    using part(4,5) by (simp only: T_def [symmetric] add_mult_distrib) simp
qed (use assms in auto)

subsection \<open>The 64-bit refill computes the exact one\<close>

definition tb_sane :: "u64 \<Rightarrow> tb_config \<Rightarrow> bool" where
  "tb_sane hz tb \<longleftrightarrow> hz \<noteq> 0 \<and> tb_rate tb \<noteq> 0 \<and> unat (tb_rate tb) < 2 ^ 57 \<and>
     tb_tokens tb \<le> tb_depth tb \<and> tb_depth tb \<noteq> 0"

lemma byte_rate_exact:
  fixes r :: u64
  assumes "unat r < 2 ^ 57"
  shows "unat (ucast r * 125 :: u128) = unat r * 125"
  using assms by (subst unat_mult_128) simp_all

lemma produced_exact:
  fixes e r hz :: u64
  assumes "unat r < 2 ^ 57"
  shows "unat (ucast e * (ucast r * 125) div ucast hz :: u128)
       = unat e * (unat r * 125) div unat hz"
proof -
  have "unat r * 125 \<le> 2 ^ 64" using assms by simp
  then have "unat e * (unat r * 125) < 2 ^ 64 * 2 ^ 64"
    using u64_less [of e] le_less_trans [OF mult_le_mono2] by force
  then have "unat e * (unat r * 125) < 2 ^ 128" by simp
  then have "unat (ucast e * (ucast r * 125) :: u128) = unat e * (unat r * 125)"
    using byte_rate_exact [OF assms] by (subst unat_mult_128) simp_all
  then show ?thesis by (simp add: unat_div)
qed

lemma cycles_exact:
  fixes t hz r :: u64
  assumes "unat r < 2 ^ 57" "unat t * unat hz div (unat r * 125) < 2 ^ 64"
  shows "unat (ucast (ucast t * ucast hz div (ucast r * 125) :: u128) :: u64)
       = unat t * unat hz div (unat r * 125)"
proof -
  have "unat t * unat hz < 2 ^ 64 * 2 ^ 64"
    using u64_less [of t] u64_less [of hz] by (intro mult_strict_mono) simp_all
  then have "unat t * unat hz < 2 ^ 128" by simp
  then have "unat (ucast t * ucast hz div (ucast r * 125) :: u128)
      = unat t * unat hz div (unat r * 125)"
    using byte_rate_exact [OF assms(1)] by (simp add: unat_div unat_mult_128)
  then show ?thesis using assms(2) by (simp add: unat_ucast_128_64)
qed

lemma update_rate_depth [simp]:
  "tb_rate (shaper_update_bucket_tokens hz tb now) = tb_rate tb"
  "tb_depth (shaper_update_bucket_tokens hz tb now) = tb_depth tb"
  by (simp_all add: shaper_update_bucket_tokens_def Let_def)

text \<open>The two intermediate values of the refill, named so that each has its own lemma.\<close>

definition accrued :: "u64 \<Rightarrow> tb_config \<Rightarrow> u64 \<Rightarrow> u64" where
  "accrued hz tb now =
     (let p = (ucast (now - last_cycle tb) * (ucast (tb_rate tb) * 125) div ucast hz :: u128)
      in if p > UINT64_MAX then ucast UINT64_MAX else ucast p)"

definition charged :: "u64 \<Rightarrow> tb_config \<Rightarrow> u64 \<Rightarrow> u64" where
  "charged hz tb t =
     (let c = ucast (ucast t * ucast hz div (ucast (tb_rate tb) * 125 :: u128))
      in if c = 0 then 1 else c)"

lemma update_alt:
  assumes "tb_sane hz tb"
  shows "shaper_update_bucket_tokens hz tb now =
    (if tb_tokens tb \<ge> tb_depth tb then tb \<lparr>tb_tokens := tb_depth tb, last_cycle := now\<rparr>
     else if accrued hz tb now = 0 then tb
     else if accrued hz tb now \<ge> tb_depth tb - tb_tokens tb
     then tb \<lparr>tb_tokens := tb_depth tb, last_cycle := now\<rparr>
     else tb \<lparr>tb_tokens := tb_tokens tb + accrued hz tb now,
             last_cycle := last_cycle tb + charged hz tb (accrued hz tb now)\<rparr>)"
  using assms unfolding shaper_update_bucket_tokens_def tb_sane_def accrued_def charged_def Let_def
  by (simp only: simp_thms if_False)

lemma unat_accrued:
  assumes "tb_sane hz tb" "last_cycle tb \<le> now"
  shows "unat (accrued hz tb now) =
    min ((unat now - unat (last_cycle tb)) * (unat (tb_rate tb) * 125) div unat hz) (2 ^ 64 - 1)"
  using assms unfolding accrued_def Let_def clamp_64
  by (subst produced_exact) (simp_all add: tb_sane_def unat_minus_le)

lemma unat_charged:
  fixes R :: nat and tb :: tb_config
  defines "R \<equiv> unat (tb_rate tb) * 125"
  assumes "tb_sane hz tb" "max 1 (unat t * unat hz div R) < 2 ^ 64"
  shows "unat (charged hz tb t) = max 1 (unat t * unat hz div R)"
proof -
  let ?c = "ucast (ucast t * ucast hz div (ucast (tb_rate tb) * 125 :: u128)) :: u64"
  have "unat ?c = unat t * unat hz div R"
    unfolding R_def by (rule cycles_exact) (use assms in \<open>auto simp: tb_sane_def\<close>)
  then show ?thesis
    using unat_gt_0 [of ?c] by (auto simp: charged_def Let_def unat_0_iff)
qed

lemma update_part_exact:
  fixes T R :: nat and tb :: tb_config and now hz :: u64
  defines "R \<equiv> unat (tb_rate tb) * 125"
  defines "T \<equiv> (unat now - unat (last_cycle tb)) * R div unat hz"
  assumes sane: "tb_sane hz tb" and le: "last_cycle tb \<le> now"
    and T: "T \<noteq> 0" "T < unat (tb_depth tb) - unat (tb_tokens tb)"
  shows "unat (tb_tokens tb + accrued hz tb now) = unat (tb_tokens tb) + T"
    and "unat (last_cycle tb + charged hz tb (accrued hz tb now))
       = unat (last_cycle tb) + max 1 (T * unat hz div R)"
proof -
  note d = u64_less [of "tb_depth tb"]
  have R: "0 < R" using sane by (simp add: R_def tb_sane_def unat_gt_0)
  have t: "unat (accrued hz tb now) = T"
    using unat_accrued [OF sane le] T(2) d unfolding T_def R_def by simp
  show "unat (tb_tokens tb + accrued hz tb now) = unat (tb_tokens tb) + T"
    unfolding t [symmetric] using T(2) t d by (intro unat_add_lem [THEN iffD1]) simp
  have cyc: "max 1 (T * unat hz div R) \<le> unat now - unat (last_cycle tb)"
    unfolding T_def by (rule refill_cycles_le [OF R]) (use T(1) in \<open>simp add: T_def\<close>)
  then have "max 1 (T * unat hz div R) < 2 ^ 64" using u64_less [of now] by auto
  then have "unat (charged hz tb (accrued hz tb now)) = max 1 (T * unat hz div R)"
    using unat_charged [OF sane, of "accrued hz tb now"] unfolding t R_def by simp
  moreover have "unat (last_cycle tb) + max 1 (T * unat hz div R) < 18446744073709551616"
    using cyc le [unfolded word_le_nat_alt] u64_less [of now] by linarith
  ultimately show "unat (last_cycle tb + charged hz tb (accrued hz tb now))
      = unat (last_cycle tb) + max 1 (T * unat hz div R)"
    by (subst unat_add_lem [THEN iffD1]) simp_all
qed

lemma update_refines:
  assumes "tb_sane hz tb" "last_cycle tb \<le> now"
  shows "(unat (tb_tokens (shaper_update_bucket_tokens hz tb now)),
          unat (last_cycle (shaper_update_bucket_tokens hz tb now))) =
    refill_nat (unat hz) (unat (tb_rate tb) * 125) (unat (tb_depth tb)) (unat (tb_tokens tb))
      (unat (last_cycle tb)) (unat now)"
proof (cases "tb_tokens tb \<ge> tb_depth tb")
  case True
  then show ?thesis by (simp add: update_alt [OF assms(1)] refill_nat_def word_le_nat_alt)
next
  case False
  let ?T = "(unat now - unat (last_cycle tb)) * (unat (tb_rate tb) * 125) div unat hz"
  have lt: "unat (tb_tokens tb) < unat (tb_depth tb)" using False by (simp add: word_le_nat_alt)
  have room: "unat (tb_depth tb - tb_tokens tb) = unat (tb_depth tb) - unat (tb_tokens tb)"
    using False by (intro unat_minus_le) simp
  have t0: "accrued hz tb now = 0 \<longleftrightarrow> ?T = 0"
    unfolding unat_0_iff [symmetric] unat_accrued [OF assms] by (simp add: min_def)
  have tcap: "accrued hz tb now \<ge> tb_depth tb - tb_tokens tb \<longleftrightarrow>
      ?T \<ge> unat (tb_depth tb) - unat (tb_tokens tb)"
    unfolding word_le_nat_alt room unat_accrued [OF assms]
    using u64_less [of "tb_depth tb"] lt by (simp add: min_def) linarith
  show ?thesis
  proof (cases "?T = 0 \<or> ?T \<ge> unat (tb_depth tb) - unat (tb_tokens tb)")
    case True
    then show ?thesis
      unfolding update_alt [OF assms(1)] refill_nat_def Let_def t0 tcap
      using False lt by auto
  next
    case no: False
    then show ?thesis
      unfolding update_alt [OF assms(1)] refill_nat_def Let_def t0 tcap
      using False lt update_part_exact [OF assms] by simp
  qed
qed

subsection \<open>Rate limiting as an interface\<close>

text \<open>
  Serving a sequence of requests, each a time and an item; the items that were granted
  are collected in order.
\<close>

fun serve_run :: "('s \<Rightarrow> 't \<Rightarrow> 'p \<Rightarrow> 's \<times> bool) \<Rightarrow> ('t \<times> 'p) list \<Rightarrow> 's \<Rightarrow> 's \<times> 'p list" where
  "serve_run f [] s = (s, [])"
| "serve_run f ((t, p) # reqs) s =
     (let (s', granted) = f s t p; (s'', ps) = serve_run f reqs s'
      in (s'', if granted then p # ps else ps))"

locale rate_limiter =
  fixes ok :: "'h \<Rightarrow> 's \<Rightarrow> bool"
    and freq :: "'h \<Rightarrow> nat"
    and tokens depth rate clock :: "'h \<Rightarrow> 's \<Rightarrow> nat"
    and serve :: "'h \<Rightarrow> 's \<Rightarrow> 't \<Rightarrow> 'p \<Rightarrow> 's \<times> bool"
    and time :: "'t \<Rightarrow> nat"
    and bytes :: "'p \<Rightarrow> nat"
  assumes tokens_le: "ok h s \<Longrightarrow> tokens h s \<le> depth h s"
    and serve_ok: "ok h s \<Longrightarrow> clock h s \<le> time t \<Longrightarrow> serve h s t p = (s', g) \<Longrightarrow>
      ok h s' \<and> rate h s' = rate h s \<and> depth h s' = depth h s \<and> clock h s \<le> clock h s' \<and> clock h s' \<le> time t"
    and serve_bound: "ok h s \<Longrightarrow> clock h s \<le> time t \<Longrightarrow> serve h s t p = (s', g) \<Longrightarrow>
      (tokens h s' + (if g then bytes p else 0)) * freq h
        \<le> tokens h s * freq h + (clock h s' - clock h s + 1) * rate h s"
begin

lemma run_ok:
  assumes "ok h s" "sorted (clock h s # map (time \<circ> fst) reqs)"
    and "serve_run (serve h) reqs s = (s', ps)"
  shows "ok h s' \<and> rate h s' = rate h s \<and> depth h s' = depth h s \<and> clock h s \<le> clock h s' \<and>
    clock h s' \<le> last (clock h s # map (time \<circ> fst) reqs)"
  using assms
proof (induction "serve h" reqs s arbitrary: s' ps rule: serve_run.induct)
  case (2 t p reqs s)
  obtain s1 g where 1: "serve h s t p = (s1, g)" by fastforce
  obtain ps' where 2: "serve_run (serve h) reqs s1 = (s', ps')"
    using "2.prems"(3) 1 by (auto split: prod.splits)
  have s1: "ok h s1" "rate h s1 = rate h s" "depth h s1 = depth h s" "clock h s \<le> clock h s1" "clock h s1 \<le> time t"
    using serve_ok [OF "2.prems"(1) _ 1] "2.prems"(2) by auto
  have "sorted (clock h s1 # map (time \<circ> fst) reqs)"
    using "2.prems"(2) s1(5) by auto
  from "2.hyps" [OF 1 [symmetric] _ s1(1) this 2] show ?case
    using s1 by (auto split: if_splits)
qed simp

lemma run_bound:
  assumes "ok h s" "sorted (clock h s # map (time \<circ> fst) reqs)"
    and "serve_run (serve h) reqs s = (s', ps)"
  shows "(tokens h s' + sum_list (map bytes ps)) * freq h
    \<le> tokens h s * freq h + (clock h s' - clock h s + length reqs) * rate h s"
  using assms
proof (induction "serve h" reqs s arbitrary: s' ps rule: serve_run.induct)
  case (2 t p reqs s)
  obtain s1 g where 1: "serve h s t p = (s1, g)" by fastforce
  obtain ps' where 2: "serve_run (serve h) reqs s1 = (s', ps')" "ps = (if g then p # ps' else ps')"
    using "2.prems"(3) 1 by (auto split: prod.splits)
  have t: "clock h s \<le> time t" using "2.prems"(2) by simp
  have s1: "ok h s1" "rate h s1 = rate h s" "clock h s \<le> clock h s1" "clock h s1 \<le> time t"
    using serve_ok [OF "2.prems"(1) t 1] by auto
  have srt: "sorted (clock h s1 # map (time \<circ> fst) reqs)"
    using "2.prems"(2) s1(4) by auto
  have mono: "clock h s1 \<le> clock h s'" using run_ok [OF s1(1) srt 2(1)] by simp
  let ?b = "if g then bytes p else 0"
  have "(tokens h s' + sum_list (map bytes ps)) * freq h
      = (tokens h s' + sum_list (map bytes ps')) * freq h + ?b * freq h"
    using 2(2) by (simp add: algebra_simps)
  also have "\<dots> \<le> tokens h s1 * freq h + (clock h s' - clock h s1 + length reqs) * rate h s + ?b * freq h"
    using "2.hyps" [OF 1 [symmetric] _ s1(1) srt 2(1)] s1(2) by simp
  also have "\<dots> = (tokens h s1 + ?b) * freq h + (clock h s' - clock h s1 + length reqs) * rate h s"
    by (simp add: algebra_simps)
  also have "\<dots> \<le> tokens h s * freq h + (clock h s1 - clock h s + 1) * rate h s
      + (clock h s' - clock h s1 + length reqs) * rate h s"
    using serve_bound [OF "2.prems"(1) t 1] by simp
  also have "\<dots> = tokens h s * freq h
      + ((clock h s1 - clock h s + 1) + (clock h s' - clock h s1 + length reqs)) * rate h s"
    by (simp only: add_mult_distrib add.assoc)
  also have "(clock h s1 - clock h s + 1) + (clock h s' - clock h s1 + length reqs)
      = clock h s' - clock h s + length ((t, p) # reqs)"
    using s1(3) mono by simp
  finally show ?case .
qed simp

lemma run_granted:
  assumes "ok h s" "sorted (clock h s # map (time \<circ> fst) reqs)"
    and "serve_run (serve h) reqs s = (s', ps)"
  shows "sum_list (map bytes ps) * freq h
    \<le> depth h s * freq h
      + (last (clock h s # map (time \<circ> fst) reqs) - clock h s + length reqs) * rate h s"
proof -
  have "sum_list (map bytes ps) * freq h \<le> (tokens h s' + sum_list (map bytes ps)) * freq h"
    by simp
  also have "\<dots> \<le> tokens h s * freq h + (clock h s' - clock h s + length reqs) * rate h s"
    by (rule run_bound [OF assms])
  also have "\<dots> \<le> depth h s * freq h
      + (last (clock h s # map (time \<circ> fst) reqs) - clock h s + length reqs) * rate h s"
    using run_ok [OF assms] tokens_le [OF assms(1)]
    by (intro add_mono mult_le_mono1 diff_le_mono) auto
  finally show ?thesis .
qed

end

subsection \<open>The buckets of the source are rate limiters\<close>

lemma update_sane [upf_inv]:
  assumes "tb_sane hz tb" "last_cycle tb \<le> now"
  shows "tb_sane hz (shaper_update_bucket_tokens hz tb now)"
proof -
  have "unat (tb_tokens (shaper_update_bucket_tokens hz tb now)) \<le> unat (tb_depth tb)"
    using refill_nat_range [OF _ _ _ update_refines [OF assms, symmetric]] assms
    by (simp add: tb_sane_def word_le_nat_alt unat_gt_0)
  then show ?thesis using assms(1) by (simp add: tb_sane_def word_le_nat_alt)
qed

text \<open>A refill, followed by a withdrawal or not; every consume operation does one of these.\<close>

definition withdrawn :: "u64 \<Rightarrow> tb_config \<Rightarrow> u64 \<Rightarrow> u32 \<Rightarrow> bool \<Rightarrow> tb_config \<Rightarrow> bool" where
  "withdrawn hz tb now len g tb' \<longleftrightarrow>
     (let u = shaper_update_bucket_tokens hz tb now in
      if g then ucast len \<le> tb_tokens u \<and> tb' = u \<lparr>tb_tokens := tb_tokens u - ucast len\<rparr>
      else tb' = u)"

lemma consume_tb_withdrawn: "consume_tb hz tb now len = (tb', g) \<Longrightarrow> withdrawn hz tb now len g tb'"
  by (auto simp: consume_tb_def withdrawn_def Let_def split: if_splits)

lemma withdrawn_laws:
  assumes sane: "tb_sane hz tb" and le: "unat (last_cycle tb) \<le> unat now"
    and run: "withdrawn hz tb now len g tb'"
  shows withdrawn_ok: "tb_sane hz tb' \<and> tb_rate tb' = tb_rate tb \<and> tb_depth tb' = tb_depth tb \<and>
      unat (last_cycle tb) \<le> unat (last_cycle tb') \<and> unat (last_cycle tb') \<le> unat now"
    and withdrawn_bound: "(unat (tb_tokens tb') + (if g then unat len else 0)) * unat hz
      \<le> unat (tb_tokens tb) * unat hz
        + (unat (last_cycle tb') - unat (last_cycle tb) + 1) * (unat (tb_rate tb) * 125)"
proof -
  let ?u = "shaper_update_bucket_tokens hz tb now"
  have le': "last_cycle tb \<le> now" using le by (simp add: word_le_nat_alt)
  have R: "0 < unat (tb_rate tb) * 125" "unat (tb_tokens tb) \<le> unat (tb_depth tb)"
    using sane by (simp_all add: tb_sane_def word_le_nat_alt unat_gt_0)
  note ref = update_refines [OF sane le', symmetric]
  note rng = refill_nat_range [OF R(1) le R(2) ref] and bnd = refill_nat_bound [OF R(1) le R(2) ref]
  have tb': "last_cycle tb' = last_cycle ?u" "tb_rate tb' = tb_rate tb" "tb_depth tb' = tb_depth tb"
    using run by (auto simp: withdrawn_def Let_def split: if_splits)
  have split: "unat (tb_tokens tb') + (if g then unat len else 0) = unat (tb_tokens ?u)"
    using run by (auto simp: withdrawn_def Let_def unat_minus_le word_le_nat_alt split: if_splits)
  then show "(unat (tb_tokens tb') + (if g then unat len else 0)) * unat hz
      \<le> unat (tb_tokens tb) * unat hz
        + (unat (last_cycle tb') - unat (last_cycle tb) + 1) * (unat (tb_rate tb) * 125)"
    using bnd tb'(1) by simp
  have "tb_tokens tb' \<le> tb_depth tb" using split rng by (simp add: word_le_nat_alt)
  then show "tb_sane hz tb' \<and> tb_rate tb' = tb_rate tb \<and> tb_depth tb' = tb_depth tb \<and>
      unat (last_cycle tb) \<le> unat (last_cycle tb') \<and> unat (last_cycle tb') \<le> unat now"
    using sane rng tb' by (simp add: tb_sane_def)
qed

lemma initBucket_sane [upf_inv]:
  "hz \<noteq> 0 \<Longrightarrow> rate \<noteq> 0 \<Longrightarrow> unat rate < 2 ^ 57 \<Longrightarrow> tb_sane hz (initBucket tb rate now)"
  using shaper_bucket_depth_pos [of rate] by (auto simp: tb_sane_def initBucket_def)

text \<open>A granted packet always fits the depth, so \<^verbatim>\<open>bucketCanFitPacket\<close> never rejects
  what a withdrawal could still grant.\<close>

lemma consume_tb_can_fit:
  assumes "tb_sane hz tb" "last_cycle tb \<le> now" "consume_tb hz tb now len = (tb', True)"
  shows "bucketCanFitPacket tb len"
  using update_sane [OF assms(1,2)] assms(1,3)
  by (auto simp: consume_tb_def Let_def tb_sane_def bucketCanFitPacket_def word_gt_0
      split: if_splits)

text \<open>The fill level never exceeds the depth, whatever the clock does.\<close>

definition tb_le :: "tb_config \<Rightarrow> bool" where
  "tb_le tb \<longleftrightarrow> tb_tokens tb \<le> tb_depth tb"

lemma update_tb_le [upf_inv]: "tb_le (shaper_update_bucket_tokens hz tb now)"
proof -
  have "tb_tokens tb + t \<le> tb_depth tb"
    if "\<not> tb_depth tb \<le> tb_tokens tb" "\<not> tb_depth tb - tb_tokens tb \<le> t" for t
  proof -
    have "unat (tb_depth tb - tb_tokens tb) = unat (tb_depth tb) - unat (tb_tokens tb)"
      using that(1) by (intro unat_minus_le) simp
    then have "unat (tb_tokens tb) + unat t < unat (tb_depth tb)"
      using that by (simp add: word_le_nat_alt)
    moreover from this have "unat (tb_tokens tb + t) = unat (tb_tokens tb) + unat t"
      using u64_less [of "tb_depth tb"] by (intro unat_add_lem [THEN iffD1]) simp
    ultimately show ?thesis by (simp add: word_le_nat_alt)
  qed
  then show ?thesis
    unfolding tb_le_def shaper_update_bucket_tokens_def Let_def by (auto simp: not_le less_imp_le)
qed

lemma withdrawn_tb_le [upf_inv]: "withdrawn hz tb now len g tb' \<Longrightarrow> tb_le tb'"
  using update_tb_le [of hz tb now]
  by (auto simp: withdrawn_def Let_def tb_le_def word_le_nat_alt unat_minus_le split: if_splits)

lemma initBucket_tb_le [simp]: "tb_le (initBucket tb rate now)"
  by (simp add: tb_le_def initBucket_def)

text \<open>Once the depth has accrued, whatever fits the bucket is granted.\<close>

lemma refill_full:
  assumes sane: "tb_sane hz tb" and le: "last_cycle tb \<le> now"
    and time: "unat (tb_depth tb) * unat hz
      \<le> (unat now - unat (last_cycle tb)) * (unat (tb_rate tb) * 125)"
  shows "tb_tokens (shaper_update_bucket_tokens hz tb now) = tb_depth tb"
proof -
  let ?T = "(unat now - unat (last_cycle tb)) * (unat (tb_rate tb) * 125) div unat hz"
  have "0 < unat hz" using sane by (simp add: tb_sane_def unat_gt_0)
  then have T: "unat (tb_depth tb) \<le> ?T" using time by (simp add: less_eq_div_iff_mult_less_eq)
  have d: "0 < unat (tb_depth tb)" using sane by (simp add: tb_sane_def unat_gt_0)
  show ?thesis
    using update_refines [OF sane le, symmetric]
  proof (cases rule: refill_nat_cases)
    case none
    have "fst (refill_nat (unat hz) (unat (tb_rate tb) * 125) (unat (tb_depth tb))
        (unat (tb_tokens tb)) (unat (last_cycle tb)) (unat now)) = unat (tb_depth tb)"
      using T d none(1) by (simp add: refill_nat_def Let_def)
    then show ?thesis using update_refines [OF sane le] by (metis fst_conv unsigned_word_eqI)
  next
    case part
    then show ?thesis using T d by linarith
  qed (simp_all add: unsigned_word_eqI)
qed

end
