(* ===== verification/Ue_Table.thy ===== *)
theory Ue_Table
  imports Probe_Table Token_Bucket
begin

text \<open>
  The UE table of \<^verbatim>\<open>5gc/upf_u/upf_u_trtcm.c\<close>: per UE the Session-AMBR bucket and up to
  sixteen GBR QERs with a GFBR and an MFBR bucket each, found through an open-addressing
  hash on the UE address. The bodies that the source runs under
  \<^verbatim>\<open>ue_table_lock\<close> and \<^verbatim>\<open>ue_tb_locks[i]\<close> are single operations on the state; logging is
  left out. Theorems: the table refines a map from UE address to UE record, and the buckets
  of a GBR QER bound its guaranteed and its total traffic.
\<close>

abbreviation MAX_UE :: nat where "MAX_UE \<equiv> 256"
abbreviation SHAPER_MAX_GBR_QERS_PER_UE :: nat where "SHAPER_MAX_GBR_QERS_PER_UE \<equiv> 16"

subsection \<open>Data\<close>

record ue_hash_entry =
  h_ue_ip :: u32
  h_ue_idx :: int
  h_in_use :: bool

record gbr_qer_tb =
  gq_used :: bool
  gq_qer_id :: u32
  gq_qfi :: u8
  gq_gfbr :: u64
  gq_mfbr :: u64
  gfbr_tb :: tb_config
  mfbr_tb :: tb_config

record ue_tb =
  ue_ip :: u32
  session_ambr :: u64
  session_ambr_conflict :: bool
  session_ambr_tb :: tb_config
  gbr_qers :: "gbr_qer_tb list"

record ue_state =
  ue_hash :: "ue_hash_entry list"
  ue_table :: "ue_tb list"

text \<open>The all-zero values that \<^verbatim>\<open>memset\<close> and static initialisation give.\<close>

definition zero_tb :: tb_config where
  "zero_tb = \<lparr>tb_rate = 0, tb_depth = 0, tb_tokens = 0, last_cycle = 0, cur_cycles = 0, tb_used = 0\<rparr>"

definition zero_gbr_qer :: gbr_qer_tb where
  "zero_gbr_qer = \<lparr>gq_used = False, gq_qer_id = 0, gq_qfi = 0, gq_gfbr = 0, gq_mfbr = 0,
     gfbr_tb = zero_tb, mfbr_tb = zero_tb\<rparr>"

definition zero_ue :: ue_tb where
  "zero_ue = \<lparr>ue_ip = 0, session_ambr = 0, session_ambr_conflict = False,
     session_ambr_tb = zero_tb,
     gbr_qers = replicate SHAPER_MAX_GBR_QERS_PER_UE zero_gbr_qer\<rparr>"

definition zero_ue_state :: ue_state where
  "zero_ue_state = \<lparr>ue_hash = replicate MAX_UE \<lparr>h_ue_ip = 0, h_ue_idx = 0, h_in_use = False\<rparr>,
     ue_table = replicate MAX_UE zero_ue\<rparr>"

subsection \<open>The hash\<close>

definition ueHashFunc :: "u32 \<Rightarrow> nat" where
  "ueHashFunc ip = unat (ip mod 256)"

definition ueHashSlotInUse :: "ue_hash_entry list \<Rightarrow> nat \<Rightarrow> bool" where
  "ueHashSlotInUse H idx = h_in_use (H ! idx)"

definition ueHashSetInUse :: "ue_hash_entry list \<Rightarrow> nat \<Rightarrow> bool \<Rightarrow> ue_hash_entry list" where
  "ueHashSetInUse H idx b = H[idx := (H ! idx) \<lparr>h_in_use := b\<rparr>]"

definition ueHashInit :: "ue_hash_entry list \<Rightarrow> ue_hash_entry list" where
  "ueHashInit H = fold (\<lambda>i H. ueHashSetInUse H i False) [0..<MAX_UE] H"

definition ueHashSearch :: "ue_hash_entry list \<Rightarrow> u32 \<Rightarrow> int" where
  "ueHashSearch H ip =
     (case probe_search MAX_UE (ueHashSlotInUse H) (\<lambda>idx. h_ue_ip (H ! idx) = ip)
        (ueHashFunc ip) (ueHashFunc ip) of
        Some idx \<Rightarrow> h_ue_idx (H ! idx)
      | None \<Rightarrow> -1)"

definition ueHashInsert :: "ue_hash_entry list \<Rightarrow> u32 \<Rightarrow> int \<Rightarrow> ue_hash_entry list \<times> bool" where
  "ueHashInsert H ip ue_idx =
     (if ueHashSearch H ip \<ge> 0 then (H, False)
      else case probe_free MAX_UE (ueHashSlotInUse H) (ueHashFunc ip) (ueHashFunc ip) of
        None \<Rightarrow> (H, False)
      | Some idx \<Rightarrow>
          (let H = H[idx := (H ! idx) \<lparr>h_ue_ip := ip, h_ue_idx := ue_idx\<rparr>]
           in (ueHashSetInUse H idx True, True)))"

definition findIndexByUeIpAddress :: "ue_state \<Rightarrow> u32 \<Rightarrow> int" where
  "findIndexByUeIpAddress s ip = ueHashSearch (ue_hash s) ip"

subsection \<open>Operations on the UE table\<close>

text \<open>\<open>now i\<close> is the clock value the \<open>i\<close>-th iteration reads.\<close>

definition initUeTable :: "(nat \<Rightarrow> u64) \<Rightarrow> ue_state \<Rightarrow> ue_state" where
  "initUeTable now s = s \<lparr>ue_table :=
     map (\<lambda>i. zero_ue
           \<lparr>session_ambr_tb := zero_tb \<lparr>last_cycle := now i, cur_cycles := now i\<rparr>,
            gbr_qers := map (\<lambda>_. zero_gbr_qer
              \<lparr>gfbr_tb := zero_tb \<lparr>last_cycle := now i, cur_cycles := now i\<rparr>,
               mfbr_tb := zero_tb \<lparr>last_cycle := now i, cur_cycles := now i\<rparr>\<rparr>)
              [0..<SHAPER_MAX_GBR_QERS_PER_UE]\<rparr>)
       [0..<MAX_UE]\<rparr>"

definition ueTokenIndexValid :: "ue_state \<Rightarrow> int \<Rightarrow> bool" where
  "ueTokenIndexValid s index \<longleftrightarrow>
     index > -1 \<and> index < int MAX_UE \<and> ue_ip (ue_table s ! nat index) \<noteq> 0"

definition findGbrQerLocked :: "ue_tb \<Rightarrow> u32 \<Rightarrow> nat option" where
  "findGbrQerLocked ue qer_id =
     find_index (\<lambda>qer. gq_used qer \<and> gq_qer_id qer = qer_id) (gbr_qers ue)"

definition upd_ue :: "ue_state \<Rightarrow> int \<Rightarrow> (ue_tb \<Rightarrow> ue_tb) \<Rightarrow> ue_state" where
  "upd_ue s index f =
     s \<lparr>ue_table := (ue_table s)[nat index := f (ue_table s ! nat index)]\<rparr>"

definition upd_qer :: "ue_state \<Rightarrow> int \<Rightarrow> nat \<Rightarrow> (gbr_qer_tb \<Rightarrow> gbr_qer_tb) \<Rightarrow> ue_state" where
  "upd_qer s index j f =
     upd_ue s index (\<lambda>ue. ue \<lparr>gbr_qers := (gbr_qers ue)[j := f (gbr_qers ue ! j)]\<rparr>)"

definition refreshUeSessionAmbr ::
  "u64 \<Rightarrow> ue_state \<Rightarrow> int \<Rightarrow> u64 \<Rightarrow> bool \<Rightarrow> ue_state \<times> bool" where
  "refreshUeSessionAmbr now s index ambr conflicting_rates =
     (if index < 0 \<or> index \<ge> int MAX_UE then (s, False)
      else if \<not> ueTokenIndexValid s index then (s, False)
      else
        (let rate_changed = session_ambr (ue_table s ! nat index) \<noteq> ambr;
             s = (if rate_changed
                  then upd_ue s index (\<lambda>ue. ue \<lparr>session_ambr := ambr,
                         session_ambr_tb := initBucket (session_ambr_tb ue) ambr now\<rparr>)
                  else s)
         in (upd_ue s index (\<lambda>ue. ue \<lparr>session_ambr_conflict := conflicting_rates\<rparr>), True)))"

text \<open>The part of \<^verbatim>\<open>refreshUeGbrQer\<close> for a QER that is already there.\<close>

definition change_qer :: "u64 \<Rightarrow> u8 \<Rightarrow> u64 \<Rightarrow> u64 \<Rightarrow> gbr_qer_tb \<Rightarrow> gbr_qer_tb" where
  "change_qer now qfi gfbr mfbr qer =
     (let qer = (if gq_qfi qer \<noteq> qfi then qer \<lparr>gq_qfi := qfi\<rparr> else qer)
      in if gq_gfbr qer \<noteq> gfbr \<or> gq_mfbr qer \<noteq> mfbr
         then qer \<lparr>gq_gfbr := gfbr, gq_mfbr := mfbr,
                   gfbr_tb := initBucket (gfbr_tb qer) gfbr now,
                   mfbr_tb := initBucket (mfbr_tb qer) mfbr now\<rparr>
         else qer)"

definition refreshUeGbrQer ::
  "u64 \<Rightarrow> ue_state \<Rightarrow> int \<Rightarrow> u32 \<Rightarrow> u8 \<Rightarrow> u64 \<Rightarrow> u64 \<Rightarrow> ue_state \<times> bool" where
  "refreshUeGbrQer now s index qer_id qfi gfbr mfbr =
     (if index < 0 \<or> index \<ge> int MAX_UE \<or> qer_id = 0 \<or> gfbr = 0 \<or> mfbr = 0 then (s, False)
      else if \<not> ueTokenIndexValid s index then (s, False)
      else
        case findGbrQerLocked (ue_table s ! nat index) qer_id of
          None \<Rightarrow>
            (case find_index (\<lambda>qer. \<not> gq_used qer) (gbr_qers (ue_table s ! nat index)) of
               None \<Rightarrow> (s, False)
             | Some j \<Rightarrow>
                 (upd_qer s index j (\<lambda>_. zero_gbr_qer
                    \<lparr>gq_used := True, gq_qer_id := qer_id, gq_qfi := qfi,
                     gq_gfbr := gfbr, gq_mfbr := mfbr,
                     gfbr_tb := initBucket zero_tb gfbr now,
                     mfbr_tb := initBucket zero_tb mfbr now\<rparr>), True))
        | Some j \<Rightarrow>
            (upd_qer s index j (change_qer now qfi gfbr mfbr), True))"

definition addEntrybyUeIp :: "u64 \<Rightarrow> ue_state \<Rightarrow> u32 \<Rightarrow> u64 \<Rightarrow> bool \<Rightarrow> ue_state \<times> int" where
  "addEntrybyUeIp now s ip ambr conflicting_rates =
     (let existing_idx = ueHashSearch (ue_hash s) ip in
      if existing_idx \<ge> 0
      then (fst (refreshUeSessionAmbr now s existing_idx ambr conflicting_rates), existing_idx)
      else case find_index (\<lambda>ue. ue_ip ue = 0) (ue_table s) of
        None \<Rightarrow> (s, -1)
      | Some i \<Rightarrow>
          (let s1 = upd_ue s (int i) (\<lambda>_. zero_ue
                 \<lparr>session_ambr := ambr, session_ambr_conflict := conflicting_rates,
                  session_ambr_tb := initBucket zero_tb ambr now, ue_ip := ip\<rparr>)
           in case ueHashInsert (ue_hash s1) ip (int i) of
                (H, True) \<Rightarrow> (s1 \<lparr>ue_hash := H\<rparr>, int i)
              | (H, False) \<Rightarrow> (upd_ue s1 (int i) (\<lambda>_. zero_ue) \<lparr>ue_hash := H\<rparr>, ueHashSearch H ip)))"

text \<open>The rebuild loop of \<^verbatim>\<open>removeEntrybyUeIp\<close>; a failed insertion is only logged.\<close>

definition ueHashRebuild :: "ue_tb list \<Rightarrow> ue_hash_entry list \<Rightarrow> ue_hash_entry list" where
  "ueHashRebuild tbl H =
     fold (\<lambda>i H. if ue_ip (tbl ! i) \<noteq> 0 then fst (ueHashInsert H (ue_ip (tbl ! i)) (int i)) else H)
       [0..<MAX_UE] H"

definition removeEntrybyUeIp :: "ue_state \<Rightarrow> u32 \<Rightarrow> ue_state \<times> bool" where
  "removeEntrybyUeIp s ip =
     (let removed_idx = ueHashSearch (ue_hash s) ip in
      if removed_idx < 0 then (s, False)
      else
        (let s1 = upd_ue s removed_idx (\<lambda>_. zero_ue);
             H = fold (\<lambda>i H. ueHashSetInUse H i False) [0..<MAX_UE] (ue_hash s1)
         in (s1 \<lparr>ue_hash := ueHashRebuild (ue_table s1) H\<rparr>, True)))"

subsection \<open>Admission and withdrawal\<close>

definition sessionAmbrCanFitPacket :: "ue_state \<Rightarrow> int \<Rightarrow> u32 \<Rightarrow> bool" where
  "sessionAmbrCanFitPacket s index pkt_len =
     (if index < 0 \<or> index \<ge> int MAX_UE then False
      else if \<not> ueTokenIndexValid s index then False
      else bucketCanFitPacket (session_ambr_tb (ue_table s ! nat index)) pkt_len)"

definition gbrGuaranteedCanFitPacket :: "ue_state \<Rightarrow> int \<Rightarrow> u32 \<Rightarrow> u32 \<Rightarrow> bool" where
  "gbrGuaranteedCanFitPacket s index qer_id pkt_len =
     (if index < 0 \<or> index \<ge> int MAX_UE then False
      else if \<not> ueTokenIndexValid s index then False
      else case findGbrQerLocked (ue_table s ! nat index) qer_id of
        None \<Rightarrow> False
      | Some j \<Rightarrow>
          (let qer = gbr_qers (ue_table s ! nat index) ! j
           in bucketCanFitPacket (gfbr_tb qer) pkt_len \<and> bucketCanFitPacket (mfbr_tb qer) pkt_len))"

definition gbrExcessCanFitPacket :: "ue_state \<Rightarrow> int \<Rightarrow> u32 \<Rightarrow> u32 \<Rightarrow> bool" where
  "gbrExcessCanFitPacket s index qer_id pkt_len =
     (if index < 0 \<or> index \<ge> int MAX_UE then False
      else if \<not> ueTokenIndexValid s index then False
      else case findGbrQerLocked (ue_table s ! nat index) qer_id of
        None \<Rightarrow> False
      | Some j \<Rightarrow> bucketCanFitPacket (mfbr_tb (gbr_qers (ue_table s ! nat index) ! j)) pkt_len)"

definition consume_session_ambr ::
  "u64 \<Rightarrow> u64 \<Rightarrow> ue_state \<Rightarrow> int \<Rightarrow> u32 \<Rightarrow> ue_state \<times> bool" where
  "consume_session_ambr hz now s index pkt_len =
     (if index < 0 \<or> index \<ge> int MAX_UE then (s, False)
      else if \<not> ueTokenIndexValid s index then (s, False)
      else
        (let (tb, consumed) = consume_tb hz (session_ambr_tb (ue_table s ! nat index)) now pkt_len
         in (upd_ue s index (\<lambda>ue. ue \<lparr>session_ambr_tb := tb\<rparr>), consumed)))"

text \<open>The two withdrawals on the QER itself, inside the lock.\<close>

definition consume_guaranteed_qer ::
  "u64 \<Rightarrow> gbr_qer_tb \<Rightarrow> u64 \<Rightarrow> u32 \<Rightarrow> gbr_qer_tb \<times> bool" where
  "consume_guaranteed_qer hz qer now pkt_len =
     (let qer = qer \<lparr>gfbr_tb := shaper_update_bucket_tokens hz (gfbr_tb qer) now\<rparr>;
          qer = qer \<lparr>mfbr_tb := shaper_update_bucket_tokens hz (mfbr_tb qer) now\<rparr>
      in if tb_tokens (gfbr_tb qer) \<ge> ucast pkt_len \<and> tb_tokens (mfbr_tb qer) \<ge> ucast pkt_len
         then (qer \<lparr>gfbr_tb := (gfbr_tb qer) \<lparr>tb_tokens := tb_tokens (gfbr_tb qer) - ucast pkt_len\<rparr>,
                    mfbr_tb := (mfbr_tb qer) \<lparr>tb_tokens := tb_tokens (mfbr_tb qer) - ucast pkt_len\<rparr>\<rparr>,
               True)
         else (qer, False))"

definition consume_excess_qer ::
  "u64 \<Rightarrow> gbr_qer_tb \<Rightarrow> u64 \<Rightarrow> u32 \<Rightarrow> gbr_qer_tb \<times> bool" where
  "consume_excess_qer hz qer now pkt_len =
     (let qer = qer \<lparr>mfbr_tb := shaper_update_bucket_tokens hz (mfbr_tb qer) now\<rparr>
      in if tb_tokens (mfbr_tb qer) \<ge> ucast pkt_len
         then (qer \<lparr>mfbr_tb := (mfbr_tb qer) \<lparr>tb_tokens := tb_tokens (mfbr_tb qer) - ucast pkt_len\<rparr>\<rparr>,
               True)
         else (qer, False))"

definition consume_gbr_guaranteed ::
  "u64 \<Rightarrow> u64 \<Rightarrow> ue_state \<Rightarrow> int \<Rightarrow> u32 \<Rightarrow> u32 \<Rightarrow> ue_state \<times> bool" where
  "consume_gbr_guaranteed hz now s index qer_id pkt_len =
     (if index < 0 \<or> index \<ge> int MAX_UE then (s, False)
      else if \<not> ueTokenIndexValid s index then (s, False)
      else case findGbrQerLocked (ue_table s ! nat index) qer_id of
        None \<Rightarrow> (s, False)
      | Some j \<Rightarrow>
          (let (qer, consumed) =
             consume_guaranteed_qer hz (gbr_qers (ue_table s ! nat index) ! j) now pkt_len
           in (upd_qer s index j (\<lambda>_. qer), consumed)))"

definition consume_gbr_excess ::
  "u64 \<Rightarrow> u64 \<Rightarrow> ue_state \<Rightarrow> int \<Rightarrow> u32 \<Rightarrow> u32 \<Rightarrow> ue_state \<times> bool" where
  "consume_gbr_excess hz now s index qer_id pkt_len =
     (if index < 0 \<or> index \<ge> int MAX_UE then (s, False)
      else if \<not> ueTokenIndexValid s index then (s, False)
      else case findGbrQerLocked (ue_table s ! nat index) qer_id of
        None \<Rightarrow> (s, False)
      | Some j \<Rightarrow>
          (let (qer, consumed) =
             consume_excess_qer hz (gbr_qers (ue_table s ! nat index) ! j) now pkt_len
           in (upd_qer s index j (\<lambda>_. qer), consumed)))"

subsection \<open>The hash is a probed table\<close>

lemma ueHashFunc_less [simp]: "ueHashFunc ip < MAX_UE"
  by (simp add: ueHashFunc_def unat_mod)

interpretation ueh: probe_table MAX_UE ueHashFunc h_in_use h_ue_ip
  by unfold_locales simp

lemma ueHashSearch_tbl:
  "ueHashSearch H ip =
     (case tbl_search MAX_UE ueHashFunc h_in_use h_ue_ip H ip of
        Some idx \<Rightarrow> h_ue_idx (H ! idx) | None \<Rightarrow> -1)"
  by (simp add: ueHashSearch_def tbl_search_def ueHashSlotInUse_def [abs_def])

lemma ueHashInsert_tbl:
  "ueHashInsert H ip i =
     (if ueHashSearch H ip \<ge> 0 then (H, False)
      else case tbl_free MAX_UE ueHashFunc h_in_use H ip of
        None \<Rightarrow> (H, False)
      | Some idx \<Rightarrow> (H[idx := \<lparr>h_ue_ip = ip, h_ue_idx = i, h_in_use = True\<rparr>], True))"
proof -
  have "ueHashSetInUse (H[idx := (H ! idx) \<lparr>h_ue_ip := ip, h_ue_idx := i\<rparr>]) idx True
      = H[idx := \<lparr>h_ue_ip = ip, h_ue_idx = i, h_in_use = True\<rparr>]" for idx
    by (cases "H ! idx", cases "idx < length H")
      (simp_all add: ueHashSetInUse_def not_less list_update_beyond)
  then show ?thesis
    by (simp add: ueHashInsert_def tbl_free_def ueHashSlotInUse_def [abs_def] Let_def
        cong: option.case_cong)
qed

text \<open>
  \<open>hash_ok H tbl A\<close>: the slots of \<open>H\<close> in use are exactly the rows \<open>A\<close> of the table, each
  under its address.
\<close>

definition hash_ok :: "ue_hash_entry list \<Rightarrow> ue_tb list \<Rightarrow> nat set \<Rightarrow> bool" where
  "hash_ok H tbl A \<longleftrightarrow> probe_inv MAX_UE ueHashFunc h_in_use h_ue_ip H \<and>
     (\<forall>sl<MAX_UE. h_in_use (H ! sl) \<longrightarrow>
        (\<exists>i\<in>A. h_ue_idx (H ! sl) = int i \<and> h_ue_ip (H ! sl) = ue_ip (tbl ! i))) \<and>
     (\<forall>i\<in>A. \<exists>sl<MAX_UE. h_in_use (H ! sl) \<and>
        h_ue_idx (H ! sl) = int i \<and> h_ue_ip (H ! sl) = ue_ip (tbl ! i))"

lemma hash_ok_search:
  assumes "hash_ok H tbl A"
  shows "ueHashSearch H ip = int i \<longleftrightarrow> i \<in> A \<and> ue_ip (tbl ! i) = ip"
proof (cases "tbl_search MAX_UE ueHashFunc h_in_use h_ue_ip H ip")
  case None
  then have "ueHashSearch H ip = -1" by (simp add: ueHashSearch_tbl)
  moreover have "ue_ip (tbl ! i) \<noteq> ip" if "i \<in> A"
    using assms that None unfolding hash_ok_def by (metis ueh.inv_search_None)
  ultimately show ?thesis by auto
next
  case (Some sl)
  have inv: "probe_inv MAX_UE ueHashFunc h_in_use h_ue_ip H" using assms by (simp add: hash_ok_def)
  have sl: "sl < MAX_UE" "h_in_use (H ! sl)" "h_ue_ip (H ! sl) = ip"
    using ueh.search_sound [OF Some] by auto
  have "h_ue_idx (H ! sl) = int i" if i: "i \<in> A" "ue_ip (tbl ! i) = ip"
  proof -
    obtain sl' where sl': "sl' < MAX_UE" "h_in_use (H ! sl')" "h_ue_idx (H ! sl') = int i"
      "h_ue_ip (H ! sl') = ue_ip (tbl ! i)"
      using assms i unfolding hash_ok_def by blast
    then have "tbl_search MAX_UE ueHashFunc h_in_use h_ue_ip H ip = Some sl'"
      using i by (simp add: ueh.inv_search [OF inv])
    then show ?thesis using Some sl' by simp
  qed
  then show ?thesis
    using assms sl Some unfolding hash_ok_def ueHashSearch_tbl by auto
qed

lemma hash_ok_search_neg:
  assumes "hash_ok H tbl A"
  shows "ueHashSearch H ip < 0 \<longleftrightarrow> (\<forall>i\<in>A. ue_ip (tbl ! i) \<noteq> ip)"
    and "ueHashSearch H ip < 0 \<Longrightarrow> ueHashSearch H ip = -1"
proof -
  have neg: "ueHashSearch H ip = -1" if "ueHashSearch H ip < 0"
  proof (cases "tbl_search MAX_UE ueHashFunc h_in_use h_ue_ip H ip")
    case (Some sl)
    then show ?thesis
      using that assms ueh.search_sound [OF Some]
      unfolding hash_ok_def ueHashSearch_tbl by auto
  qed (simp add: ueHashSearch_tbl)
  then show "ueHashSearch H ip < 0 \<Longrightarrow> ueHashSearch H ip = -1" .
  show "ueHashSearch H ip < 0 \<longleftrightarrow> (\<forall>i\<in>A. ue_ip (tbl ! i) \<noteq> ip)"
    using hash_ok_search [OF assms, of ip]
    by (metis int_nat_eq linorder_not_less of_nat_0_le_iff)
qed

text \<open>A row outside \<open>A\<close> leaves room in the hash: it has as many slots as the table has rows.\<close>

lemma hash_ok_room:
  assumes ok: "hash_ok H tbl A" and A: "A \<subset> {..<MAX_UE}"
  obtains sl where "tbl_free MAX_UE ueHashFunc h_in_use H ip = Some sl"
proof (cases "tbl_free MAX_UE ueHashFunc h_in_use H ip")
  case None
  then have all: "\<forall>sl<MAX_UE. h_in_use (H ! sl)" by (simp add: ueh.free_None_iff)
  let ?f = "\<lambda>sl. nat (h_ue_idx (H ! sl))"
  have inv: "probe_inv MAX_UE ueHashFunc h_in_use h_ue_ip H" using ok by (simp add: hash_ok_def)
  have f: "?f sl \<in> A \<and> h_ue_ip (H ! sl) = ue_ip (tbl ! ?f sl)" if "sl < MAX_UE" for sl
    using ok all that unfolding hash_ok_def by (metis nat_int)
  have "inj_on ?f {..<MAX_UE}"
  proof (rule inj_onI)
    fix a b assume "a \<in> {..<MAX_UE}" "b \<in> {..<MAX_UE}" "?f a = ?f b"
    then have "a < MAX_UE" "b < MAX_UE" "h_ue_ip (H ! a) = h_ue_ip (H ! b)"
      using f by auto
    then show "a = b"
      using inv all unfolding probe_inv_def by (metis option.inject)
  qed
  moreover have "?f ` {..<MAX_UE} \<subseteq> A" using f by auto
  ultimately have "card {..<MAX_UE} \<le> card A"
    using A by (metis card_inj_on_le finite_lessThan finite_subset psubset_imp_subset)
  moreover have "card A < card {..<MAX_UE}" using A by (intro psubset_card_mono) simp_all
  ultimately show thesis by simp
qed (rule that)

lemma hash_ok_insert:
  assumes ok: "hash_ok H tbl A" and A: "A \<subseteq> {..<MAX_UE}" and i: "i < MAX_UE" "i \<notin> A"
    and new: "\<forall>j\<in>A. ue_ip (tbl ! j) \<noteq> ue_ip (tbl ! i)"
  obtains H' where "ueHashInsert H (ue_ip (tbl ! i)) (int i) = (H', True)"
    and "hash_ok H' tbl (insert i A)"
proof -
  let ?ip = "ue_ip (tbl ! i)"
  let ?e = "\<lparr>h_ue_ip = ?ip, h_ue_idx = int i, h_in_use = True\<rparr>"
  have inv: "probe_inv MAX_UE ueHashFunc h_in_use h_ue_ip H" using ok by (simp add: hash_ok_def)
  have "A \<subset> {..<MAX_UE}" using A i by auto
  then obtain sl where sl: "tbl_free MAX_UE ueHashFunc h_in_use H ?ip = Some sl"
    using hash_ok_room [OF ok] by blast
  have neg: "ueHashSearch H ?ip < 0" using hash_ok_search_neg(1) [OF ok] new by blast
  have none: "tbl_search MAX_UE ueHashFunc h_in_use h_ue_ip H ?ip = None"
    using ok new by (auto simp: ueh.inv_search_None [OF inv] hash_ok_def)
  have free: "sl < MAX_UE" "\<not> h_in_use (H ! sl)" using ueh.free_sound [OF sl] by auto
  have "probe_inv MAX_UE ueHashFunc h_in_use h_ue_ip (H[sl := ?e])"
    by (rule ueh.fill_free_inv [OF inv none sl]) simp_all
  moreover have len: "length H = MAX_UE" using inv by (simp add: probe_inv_def)
  have "\<exists>j\<in>insert i A. h_ue_idx (H[sl := ?e] ! sl') = int j \<and>
      h_ue_ip (H[sl := ?e] ! sl') = ue_ip (tbl ! j)"
    if "sl' < MAX_UE" "h_in_use (H[sl := ?e] ! sl')" for sl'
    using ok that len unfolding hash_ok_def by (cases "sl' = sl") auto
  moreover have "\<exists>sl'<MAX_UE. h_in_use (H[sl := ?e] ! sl') \<and>
      h_ue_idx (H[sl := ?e] ! sl') = int j \<and> h_ue_ip (H[sl := ?e] ! sl') = ue_ip (tbl ! j)"
    if "j \<in> insert i A" for j
  proof (cases "j = i")
    case True
    then show ?thesis using free len by (intro exI [of _ sl]) simp
  next
    case False
    then show ?thesis
      using ok that free unfolding hash_ok_def by (metis insertE nth_list_update_neq)
  qed
  ultimately have "hash_ok (H[sl := ?e]) tbl (insert i A)"
    unfolding hash_ok_def by blast
  then show thesis
    using neg sl by (intro that [of "H[sl := ?e]"]) (simp_all add: ueHashInsert_tbl)
qed

lemma hash_ok_cong:
  "(\<And>i. i \<in> A \<Longrightarrow> ue_ip (tbl' ! i) = ue_ip (tbl ! i)) \<Longrightarrow> hash_ok H tbl' A = hash_ok H tbl A"
  by (simp add: hash_ok_def cong: bex_cong ball_cong)

lemma hash_ok_inj:
  assumes "hash_ok H tbl A" "i \<in> A" "j \<in> A" "ue_ip (tbl ! i) = ue_ip (tbl ! j)"
  shows "i = j"
  using hash_ok_search [OF assms(1), of "ue_ip (tbl ! i)"] assms(2-4) by (metis of_nat_eq_iff)

lemma clear_slots:
  "length (fold (\<lambda>i H. ueHashSetInUse H i False) [0..<n] H) = length H \<and>
   (\<forall>i<length H. i < n \<longrightarrow> \<not> h_in_use (fold (\<lambda>i H. ueHashSetInUse H i False) [0..<n] H ! i))"
  by (induction n) (auto simp: ueHashSetInUse_def nth_list_update less_Suc_eq)

lemma clear_hash_ok:
  assumes "length H = MAX_UE"
  shows "hash_ok (fold (\<lambda>i H. ueHashSetInUse H i False) [0..<MAX_UE] H) tbl {}"
  using clear_slots [of MAX_UE H] assms unfolding hash_ok_def
  by (intro conjI ueh.inv_unused) simp_all

lemma rebuild_ok:
  assumes ok: "hash_ok H tbl {}" and "n \<le> MAX_UE"
    and inj: "\<And>i j. i < MAX_UE \<Longrightarrow> j < MAX_UE \<Longrightarrow> ue_ip (tbl ! i) \<noteq> 0 \<Longrightarrow>
      ue_ip (tbl ! i) = ue_ip (tbl ! j) \<Longrightarrow> i = j"
  shows "hash_ok (fold (\<lambda>i H. if ue_ip (tbl ! i) \<noteq> 0
            then fst (ueHashInsert H (ue_ip (tbl ! i)) (int i)) else H) [0..<n] H)
          tbl {i. i < n \<and> ue_ip (tbl ! i) \<noteq> 0}"
  using assms(2)
proof (induction n)
  case 0
  then show ?case using ok by simp
next
  case (Suc n)
  define H1 where "H1 = fold (\<lambda>i H. if ue_ip (tbl ! i) \<noteq> 0
      then fst (ueHashInsert H (ue_ip (tbl ! i)) (int i)) else H) [0..<n] H"
  let ?A = "{i. i < n \<and> ue_ip (tbl ! i) \<noteq> 0}"
  have H1: "hash_ok H1 tbl ?A" unfolding H1_def using Suc by simp
  have sub: "?A \<subseteq> {..<MAX_UE}" using Suc.prems by auto
  show ?case
  proof (cases "ue_ip (tbl ! n) = 0")
    case True
    then have "{i. i < Suc n \<and> ue_ip (tbl ! i) \<noteq> 0} = ?A" by (auto simp: less_Suc_eq)
    then show ?thesis using H1 True by (simp add: H1_def)
  next
    case False
    then have "{i. i < Suc n \<and> ue_ip (tbl ! i) \<noteq> 0} = insert n ?A" by (auto simp: less_Suc_eq)
    moreover have "\<forall>j\<in>?A. ue_ip (tbl ! j) \<noteq> ue_ip (tbl ! n)"
    proof (intro ballI notI)
      fix j assume j: "j \<in> ?A" "ue_ip (tbl ! j) = ue_ip (tbl ! n)"
      then have "j = n" using inj [of j n] Suc.prems by simp
      with j show False by simp
    qed
    then obtain H' where "ueHashInsert H1 (ue_ip (tbl ! n)) (int n) = (H', True)"
      "hash_ok H' tbl (insert n ?A)"
      using hash_ok_insert [OF H1 sub, of n] Suc.prems by auto
    ultimately show ?thesis using False by (simp add: H1_def)
  qed
qed

subsection \<open>The table as a map from UE address to UE record\<close>

definition qers_ok :: "gbr_qer_tb list \<Rightarrow> bool" where
  "qers_ok qs \<longleftrightarrow> length qs = SHAPER_MAX_GBR_QERS_PER_UE \<and>
     (\<forall>j<length qs. \<forall>k<length qs. gq_used (qs ! j) \<longrightarrow> gq_used (qs ! k) \<longrightarrow>
        gq_qer_id (qs ! j) = gq_qer_id (qs ! k) \<longrightarrow> j = k) \<and>
     (\<forall>q \<in> set qs. tb_le (gfbr_tb q) \<and> tb_le (mfbr_tb q))"

definition ue_ok :: "ue_tb \<Rightarrow> bool" where
  "ue_ok ue \<longleftrightarrow> qers_ok (gbr_qers ue) \<and> tb_le (session_ambr_tb ue)"

definition live :: "ue_tb list \<Rightarrow> nat set" where
  "live tbl = {i. i < MAX_UE \<and> ue_ip (tbl ! i) \<noteq> 0}"

definition ue_inv :: "ue_state \<Rightarrow> bool" where
  "ue_inv s \<longleftrightarrow> length (ue_table s) = MAX_UE \<and>
     (\<forall>ue \<in> set (ue_table s). ue_ok ue) \<and>
     hash_ok (ue_hash s) (ue_table s) (live (ue_table s))"

definition ue_map :: "ue_state \<Rightarrow> u32 \<Rightarrow> ue_tb option" where
  "ue_map s ip =
     (let i = findIndexByUeIpAddress s ip in if i < 0 then None else Some (ue_table s ! nat i))"

lemma ue_find:
  assumes "ue_inv s"
  shows "findIndexByUeIpAddress s ip = int i \<longleftrightarrow>
    i < MAX_UE \<and> ue_ip (ue_table s ! i) = ip \<and> ip \<noteq> 0"
  using assms hash_ok_search [of "ue_hash s" "ue_table s" _ ip i]
  by (auto simp: ue_inv_def findIndexByUeIpAddress_def live_def)

lemma ue_find_cases:
  assumes "ue_inv s"
  obtains (absent) "findIndexByUeIpAddress s ip = -1" "ue_map s ip = None"
      "\<And>i. i < MAX_UE \<Longrightarrow> ip \<noteq> 0 \<Longrightarrow> ue_ip (ue_table s ! i) \<noteq> ip"
  | (present) i where "findIndexByUeIpAddress s ip = int i" "i < MAX_UE"
      "ue_ip (ue_table s ! i) = ip" "ip \<noteq> 0" "ue_map s ip = Some (ue_table s ! i)"
proof (cases "findIndexByUeIpAddress s ip < 0")
  case True
  have ok: "hash_ok (ue_hash s) (ue_table s) (live (ue_table s))"
    using assms by (simp add: ue_inv_def)
  show thesis
    using True hash_ok_search_neg [OF ok, of ip]
    by (intro absent) (auto simp: findIndexByUeIpAddress_def ue_map_def live_def)
next
  case False
  then obtain i where i: "findIndexByUeIpAddress s ip = int i"
    by (metis int_nat_eq linorder_not_less)
  then show thesis
    using ue_find [OF assms, of ip i] by (intro present) (auto simp: ue_map_def)
qed

lemma ue_map_Some:
  assumes "ue_inv s"
  shows "ue_map s ip = Some ue \<longleftrightarrow>
    (\<exists>i<MAX_UE. ue_ip (ue_table s ! i) = ip \<and> ip \<noteq> 0 \<and> ue = ue_table s ! i)"
proof (cases rule: ue_find_cases [OF assms, of ip])
  case (2 i)
  then show ?thesis using ue_find [OF assms, of ip] by (metis of_nat_eq_iff option.inject)
qed auto

text \<open>A write to one row that keeps its address.\<close>

lemma upd_ue_row:
  assumes inv: "ue_inv s" and i: "i < MAX_UE"
    and ip: "ue_ip (f (ue_table s ! i)) = ue_ip (ue_table s ! i)"
    and q: "ue_ok (f (ue_table s ! i))"
  shows "ue_inv (upd_ue s (int i) f)"
    and "findIndexByUeIpAddress (upd_ue s (int i) f) = findIndexByUeIpAddress s"
    and "ue_ip (ue_table s ! i) \<noteq> 0 \<Longrightarrow>
      ue_map (upd_ue s (int i) f) = (ue_map s)(ue_ip (ue_table s ! i) \<mapsto> f (ue_table s ! i))"
proof -
  let ?t = "(ue_table s)[i := f (ue_table s ! i)]"
  have len: "length (ue_table s) = MAX_UE" using inv by (simp add: ue_inv_def)
  have tbl: "ue_table (upd_ue s (int i) f) = ?t" by (simp add: upd_ue_def)
  have same: "ue_ip (?t ! j) = ue_ip (ue_table s ! j)" for j
    using ip by (cases "j = i") (simp_all add: i len)
  have "hash_ok (ue_hash s) ?t (live ?t)"
    using inv same by (simp add: ue_inv_def live_def hash_ok_cong [of _ ?t "ue_table s"])
  moreover have "\<forall>ue\<in>set ?t. ue_ok ue"
    using inv q set_update_subset_insert [of "ue_table s" i "f (ue_table s ! i)"]
    unfolding ue_inv_def by auto
  ultimately show "ue_inv (upd_ue s (int i) f)"
    using len by (simp add: ue_inv_def upd_ue_def)
  show find: "findIndexByUeIpAddress (upd_ue s (int i) f) = findIndexByUeIpAddress s"
    by (rule ext) (simp add: findIndexByUeIpAddress_def upd_ue_def)
  assume nz: "ue_ip (ue_table s ! i) \<noteq> 0"
  show "ue_map (upd_ue s (int i) f) = (ue_map s)(ue_ip (ue_table s ! i) \<mapsto> f (ue_table s ! i))"
  proof
    fix ip
    show "ue_map (upd_ue s (int i) f) ip
        = ((ue_map s)(ue_ip (ue_table s ! i) \<mapsto> f (ue_table s ! i))) ip"
    proof (cases rule: ue_find_cases [OF inv, of ip])
      case 1
      then show ?thesis using nz i by (auto simp: ue_map_def find)
    next
      case (2 j)
      have "ue_map (upd_ue s (int i) f) ip = Some (?t ! j)"
        using 2(1) unfolding ue_map_def find tbl by simp
      moreover have "ip = ue_ip (ue_table s ! i) \<longleftrightarrow> i = j"
        using 2 ue_find [OF inv, of ip i] i by auto
      ultimately show ?thesis
        using 2(2,5) i len by (simp add: nth_list_update)
    qed
  qed
qed

lemma zero_tb_le [simp]: "tb_le zero_tb"
  by (simp add: tb_le_def zero_tb_def)

lemma zero_ue_ok [simp]: "ue_ok zero_ue"
  by (simp add: ue_ok_def qers_ok_def zero_ue_def zero_gbr_qer_def)

lemma zero_ue_ip [simp]: "ue_ip zero_ue = 0"
  by (simp add: zero_ue_def)

text \<open>The abstract effect of a refresh on one UE record.\<close>

definition refresh_ambr :: "u64 \<Rightarrow> u64 \<Rightarrow> bool \<Rightarrow> ue_tb \<Rightarrow> ue_tb" where
  "refresh_ambr now ambr conflict ue =
     (if session_ambr ue = ambr then ue \<lparr>session_ambr_conflict := conflict\<rparr>
      else ue \<lparr>session_ambr := ambr, session_ambr_tb := initBucket (session_ambr_tb ue) ambr now,
               session_ambr_conflict := conflict\<rparr>)"

definition fresh_ue :: "u64 \<Rightarrow> u32 \<Rightarrow> u64 \<Rightarrow> bool \<Rightarrow> ue_tb" where
  "fresh_ue now ip ambr conflict =
     zero_ue \<lparr>session_ambr := ambr, session_ambr_conflict := conflict,
              session_ambr_tb := initBucket zero_tb ambr now, ue_ip := ip\<rparr>"

lemma refreshUeSessionAmbr_row:
  assumes "i < length (ue_table s)" "i < MAX_UE" "ue_ip (ue_table s ! i) \<noteq> 0"
  shows "refreshUeSessionAmbr now s (int i) ambr c = (upd_ue s (int i) (refresh_ambr now ambr c), True)"
  using assms
  by (simp add: refreshUeSessionAmbr_def ueTokenIndexValid_def Let_def upd_ue_def refresh_ambr_def)

lemma refresh_ambr_ip [simp]: "ue_ip (refresh_ambr now ambr c ue) = ue_ip ue"
  by (simp add: refresh_ambr_def)

lemma refresh_ambr_ok [simp]: "ue_ok ue \<Longrightarrow> ue_ok (refresh_ambr now ambr c ue)"
  by (simp add: refresh_ambr_def ue_ok_def)

lemma ue_inv_row: "ue_inv s \<Longrightarrow> i < MAX_UE \<Longrightarrow> ue_ok (ue_table s ! i)"
  by (simp add: ue_inv_def)

lemma add_existing:
  assumes inv: "ue_inv s" and ue: "ue_map s ip = Some ue"
    and add: "addEntrybyUeIp now s ip ambr c = (s', r)"
  shows "ue_inv s' \<and> ue_map s' = (ue_map s)(ip \<mapsto> refresh_ambr now ambr c ue) \<and>
    r = findIndexByUeIpAddress s' ip \<and> r \<ge> 0"
proof (cases rule: ue_find_cases [OF inv, of ip])
  case (2 i)
  have "s' = upd_ue s (int i) (refresh_ambr now ambr c)" "r = int i"
    using add 2 inv refreshUeSessionAmbr_row [of i s now ambr c]
    by (auto simp: addEntrybyUeIp_def findIndexByUeIpAddress_def Let_def ue_inv_def)
  then show ?thesis
    using upd_ue_row [OF inv 2(2), of "refresh_ambr now ambr c"] 2 ue ue_inv_row [OF inv 2(2)]
    by simp
qed (use ue in simp)

lemma add_full:
  assumes inv: "ue_inv s" and absent: "ue_map s ip = None"
    and full: "\<forall>i<MAX_UE. ue_ip (ue_table s ! i) \<noteq> 0"
  shows "addEntrybyUeIp now s ip ambr c = (s, -1)"
proof (cases rule: ue_find_cases [OF inv, of ip])
  case 1
  have "find_index (\<lambda>ue. ue_ip ue = 0) (ue_table s) = None"
    using full inv by (auto simp: find_index_None ue_inv_def in_set_conv_nth)
  then show ?thesis
    using 1 by (simp add: addEntrybyUeIp_def findIndexByUeIpAddress_def Let_def)
qed (use absent in simp)

text \<open>The map of a state is determined by its live rows.\<close>

lemma ue_map_eqI:
  assumes inv: "ue_inv s"
    and rows: "\<And>i. i < MAX_UE \<Longrightarrow> ue_ip (ue_table s ! i) \<noteq> 0 \<Longrightarrow>
      m (ue_ip (ue_table s ! i)) = Some (ue_table s ! i)"
    and conv: "\<And>ip ue. m ip = Some ue \<Longrightarrow>
      ip \<noteq> 0 \<and> (\<exists>i<MAX_UE. ue = ue_table s ! i \<and> ue_ip ue = ip)"
  shows "ue_map s = m"
proof
  fix ip
  have "ue_map s ip = Some ue \<longleftrightarrow> m ip = Some ue" for ue
  proof
    assume "ue_map s ip = Some ue"
    then show "m ip = Some ue" using rows unfolding ue_map_Some [OF inv] by auto
  next
    assume "m ip = Some ue"
    then show "ue_map s ip = Some ue" using conv unfolding ue_map_Some [OF inv] by fastforce
  qed
  then show "ue_map s ip = m ip" by (metis not_None_eq)
qed

lemma add_fresh:
  assumes inv: "ue_inv s" and absent: "ue_map s ip = None" and ip: "ip \<noteq> 0"
    and room: "i < MAX_UE" "ue_ip (ue_table s ! i) = 0"
    and add: "addEntrybyUeIp now s ip ambr c = (s', r)"
  shows "ue_inv s' \<and> ue_map s' = (ue_map s)(ip \<mapsto> fresh_ue now ip ambr c) \<and>
    r = findIndexByUeIpAddress s' ip \<and> r \<ge> 0"
proof (cases rule: ue_find_cases [OF inv, of ip])
  case 1
  have len: "length (ue_table s) = MAX_UE" using inv by (simp add: ue_inv_def)
  obtain j where j: "find_index (\<lambda>ue. ue_ip ue = 0) (ue_table s) = Some j"
    using find_index_nth [of i "ue_table s"] room len by metis
  then have j': "j < MAX_UE" "ue_ip (ue_table s ! j) = 0"
    using find_index_SomeD [OF j] len by auto
  let ?e = "fresh_ue now ip ambr c" and ?A = "live (ue_table s)"
  let ?t = "(ue_table s)[j := ?e]"
  have e: "ue_ip ?e = ip" "ue_ok ?e"
    using zero_ue_ok by (simp_all add: fresh_ue_def ue_ok_def)
  have tj: "?t ! j = ?e" using j' len by simp
  have rows: "?t ! k = ue_table s ! k" if "k \<in> ?A" for k
    using that j'(2) by (cases "k = j") (auto simp: live_def)
  have "hash_ok (ue_hash s) ?t ?A"
    using inv rows by (subst hash_ok_cong [of ?A ?t "ue_table s"]) (simp_all add: ue_inv_def)
  moreover have "\<forall>k\<in>?A. ue_ip (?t ! k) \<noteq> ue_ip (?t ! j)"
    using 1(3) ip rows tj e by (simp add: live_def)
  ultimately obtain H where H: "ueHashInsert (ue_hash s) ip (int j) = (H, True)"
    "hash_ok H ?t (insert j ?A)"
    using hash_ok_insert [of "ue_hash s" ?t ?A j] j' tj e by (auto simp: live_def)
  have res: "s' = s \<lparr>ue_table := ?t, ue_hash := H\<rparr>" "r = int j"
    using add 1(1) j H(1)
    by (auto simp: addEntrybyUeIp_def findIndexByUeIpAddress_def Let_def upd_ue_def fresh_ue_def)
  have "live ?t = insert j ?A"
    using j' ip e len by (auto simp: live_def nth_list_update)
  moreover have "\<forall>ue\<in>set ?t. ue_ok ue"
    using inv e(2) set_update_subset_insert [of "ue_table s" j ?e] unfolding ue_inv_def by auto
  ultimately have inv': "ue_inv s'"
    using H(2) len res(1) by (simp add: ue_inv_def)
  have "ue_map s' = (ue_map s)(ip \<mapsto> ?e)"
  proof (rule ue_map_eqI [OF inv'])
    show "ip' \<noteq> 0 \<and> (\<exists>i<MAX_UE. ue = ue_table s' ! i \<and> ue_ip ue = ip')"
      if "((ue_map s)(ip \<mapsto> ?e)) ip' = Some ue" for ip' ue
    proof (cases "ip' = ip")
      case True
      then show ?thesis using that ip e(1) tj j'(1) by (auto simp: res(1) intro!: exI [of _ j])
    next
      case False
      then show ?thesis
        using that j'(2) unfolding res(1) by (auto simp: ue_map_Some [OF inv]) (metis nth_list_update_neq)
    qed
  next
    show "((ue_map s)(ip \<mapsto> ?e)) (ue_ip (ue_table s' ! k)) = Some (ue_table s' ! k)"
      if "k < MAX_UE" "ue_ip (ue_table s' ! k) \<noteq> 0" for k
      using that 1(3) ip len e(1) unfolding res(1)
      by (cases "k = j") (auto simp: ue_map_Some [OF inv])
  qed
  then show ?thesis
    using inv' res(2) ue_find [OF inv', of ip j] j'(1) tj e(1) ip by (simp add: res(1))
qed (use absent in simp)

lemma remove_absent:
  assumes "ue_inv s" "ue_map s ip = None"
  shows "removeEntrybyUeIp s ip = (s, False)"
  using assms(2)
  by (cases rule: ue_find_cases [OF assms(1), of ip])
    (auto simp: removeEntrybyUeIp_def findIndexByUeIpAddress_def)

lemma remove_present:
  assumes inv: "ue_inv s" and ue: "ue_map s ip = Some ue"
    and rem: "removeEntrybyUeIp s ip = (s', b)"
  shows "b \<and> ue_inv s' \<and> ue_map s' = (ue_map s)(ip := None)"
proof (cases rule: ue_find_cases [OF inv, of ip])
  case (2 i)
  let ?t = "(ue_table s)[i := zero_ue]"
  let ?H = "fold (\<lambda>i H. ueHashSetInUse H i False) [0..<MAX_UE] (ue_hash s)"
  have len: "length (ue_table s) = MAX_UE" "length (ue_hash s) = MAX_UE"
    using inv by (auto simp: ue_inv_def hash_ok_def probe_inv_def)
  have ok: "hash_ok (ue_hash s) (ue_table s) (live (ue_table s))" using inv by (simp add: ue_inv_def)
  have res: "b" "s' = s \<lparr>ue_table := ?t, ue_hash := ueHashRebuild ?t ?H\<rparr>"
    using rem 2(1) by (auto simp: removeEntrybyUeIp_def findIndexByUeIpAddress_def Let_def upd_ue_def)
  have ips: "ue_ip (?t ! k) = (if k = i then 0 else ue_ip (ue_table s ! k))" for k
    using 2(2) len by (cases "k = i") auto
  have "hash_ok (ueHashRebuild ?t ?H) ?t {k. k < MAX_UE \<and> ue_ip (?t ! k) \<noteq> 0}"
    unfolding ueHashRebuild_def
  proof (rule rebuild_ok [OF clear_hash_ok [OF len(2)]])
    fix a b assume "a < MAX_UE" "b < MAX_UE" "ue_ip (?t ! a) \<noteq> 0" "ue_ip (?t ! a) = ue_ip (?t ! b)"
    then show "a = b"
      using hash_ok_inj [OF ok, of a b] by (simp add: ips live_def split: if_splits)
  qed simp
  moreover have "\<forall>ue\<in>set ?t. ue_ok ue"
    using inv set_update_subset_insert [of "ue_table s" i zero_ue] unfolding ue_inv_def by auto
  ultimately have inv': "ue_inv s'" using len by (simp add: res(2) ue_inv_def live_def)
  have uniq: "ue_ip (ue_table s ! k) = ip \<longleftrightarrow> k = i" if "k < MAX_UE" for k
    using that 2 ue_find [OF inv, of ip k] by auto
  have "ue_map s' = (ue_map s)(ip := None)"
  proof (rule ue_map_eqI [OF inv'])
    show "ip' \<noteq> 0 \<and> (\<exists>i<MAX_UE. ue = ue_table s' ! i \<and> ue_ip ue = ip')"
      if "((ue_map s)(ip := None)) ip' = Some ue" for ip' ue
      using that 2(3) unfolding res(2)
      by (auto simp: ue_map_Some [OF inv] split: if_splits) (metis nth_list_update_neq)
  next
    show "((ue_map s)(ip := None)) (ue_ip (ue_table s' ! k)) = Some (ue_table s' ! k)"
      if "k < MAX_UE" "ue_ip (ue_table s' ! k) \<noteq> 0" for k
      using that uniq [OF that(1)] len 2(2) unfolding res(2)
      by (cases "k = i") (auto simp: ue_map_Some [OF inv])
  qed
  then show ?thesis using inv' res(1) by simp
qed (use ue in simp)

subsection \<open>The buckets of a UE as rate limiters\<close>

definition ambr_ready :: "u64 \<times> int \<Rightarrow> ue_state \<Rightarrow> bool" where
  "ambr_ready h s \<longleftrightarrow> (case h of (hz, index) \<Rightarrow>
     length (ue_table s) = MAX_UE \<and> ueTokenIndexValid s index \<and>
     tb_sane hz (session_ambr_tb (ue_table s ! nat index)))"

abbreviation ambr_tb :: "u64 \<times> int \<Rightarrow> ue_state \<Rightarrow> tb_config" where
  "ambr_tb h s \<equiv> session_ambr_tb (ue_table s ! nat (snd h))"

definition ambr_serve :: "u64 \<times> int \<Rightarrow> ue_state \<Rightarrow> u64 \<Rightarrow> u32 \<Rightarrow> ue_state \<times> bool" where
  "ambr_serve h s now len = consume_session_ambr (fst h) now s (snd h) len"

lemma ambr_serve_withdrawn:
  assumes "ambr_ready h s" "ambr_serve h s now len = (s', g)"
  shows "withdrawn (fst h) (ambr_tb h s) now len g (ambr_tb h s') \<and>
    length (ue_table s') = length (ue_table s) \<and>
    ue_ip (ue_table s' ! nat (snd h)) = ue_ip (ue_table s ! nat (snd h))"
proof -
  obtain hz index where h: "h = (hz, index)" by force
  obtain tb c where tb: "consume_tb hz (ambr_tb h s) now len = (tb, c)" by fastforce
  have "s' = upd_ue s index (\<lambda>ue. ue \<lparr>session_ambr_tb := tb\<rparr>)" "g = c"
    using assms tb
    by (auto simp: h ambr_ready_def ambr_serve_def consume_session_ambr_def ueTokenIndexValid_def)
  then show ?thesis
    using assms(1) consume_tb_withdrawn [OF tb]
    by (simp add: h ambr_ready_def ueTokenIndexValid_def upd_ue_def nat_less_iff)
qed

lemma ambr_serve_laws:
  assumes "ambr_ready h s" "unat (last_cycle (ambr_tb h s)) \<le> unat now"
    and "ambr_serve h s now len = (s', g)"
  shows "ambr_ready h s' \<and> tb_rate (ambr_tb h s') = tb_rate (ambr_tb h s) \<and>
    tb_depth (ambr_tb h s') = tb_depth (ambr_tb h s) \<and>
    unat (last_cycle (ambr_tb h s)) \<le> unat (last_cycle (ambr_tb h s')) \<and>
    unat (last_cycle (ambr_tb h s')) \<le> unat now"
    and "(unat (tb_tokens (ambr_tb h s')) + (if g then unat len else 0)) * unat (fst h)
      \<le> unat (tb_tokens (ambr_tb h s)) * unat (fst h)
        + (unat (last_cycle (ambr_tb h s')) - unat (last_cycle (ambr_tb h s)) + 1)
          * (unat (tb_rate (ambr_tb h s)) * 125)"
proof -
  note w = ambr_serve_withdrawn [OF assms(1,3)]
  have sane: "tb_sane (fst h) (ambr_tb h s)" using assms(1) by (auto simp: ambr_ready_def)
  show "ambr_ready h s' \<and> tb_rate (ambr_tb h s') = tb_rate (ambr_tb h s) \<and>
    tb_depth (ambr_tb h s') = tb_depth (ambr_tb h s) \<and>
    unat (last_cycle (ambr_tb h s)) \<le> unat (last_cycle (ambr_tb h s')) \<and>
    unat (last_cycle (ambr_tb h s')) \<le> unat now"
    using withdrawn_ok [OF sane assms(2) conjunct1 [OF w]] w assms(1)
    by (cases h) (simp add: ambr_ready_def ueTokenIndexValid_def)
  show "(unat (tb_tokens (ambr_tb h s')) + (if g then unat len else 0)) * unat (fst h)
      \<le> unat (tb_tokens (ambr_tb h s)) * unat (fst h)
        + (unat (last_cycle (ambr_tb h s')) - unat (last_cycle (ambr_tb h s)) + 1)
          * (unat (tb_rate (ambr_tb h s)) * 125)"
    using withdrawn_bound [OF sane assms(2)] w by blast
qed

interpretation ambr: rate_limiter ambr_ready "\<lambda>h. unat (fst h)"
  "\<lambda>h s. unat (tb_tokens (ambr_tb h s))" "\<lambda>h s. unat (tb_depth (ambr_tb h s))"
  "\<lambda>h s. unat (tb_rate (ambr_tb h s)) * 125" "\<lambda>h s. unat (last_cycle (ambr_tb h s))"
  ambr_serve unat unat
proof (unfold_locales, goal_cases)
  case (1 h s)
  then show ?case by (auto simp: ambr_ready_def tb_sane_def word_le_nat_alt)
next
  case (2 h s t p s' g)
  from ambr_serve_laws(1) [OF 2] show ?case by simp
next
  case (3 h s t p s' g)
  then show ?case by (rule ambr_serve_laws(2))
qed

text \<open>
  The MFBR bucket of a GBR QER is drawn from by guaranteed and by excess service; a request
  is a pair of the kind of service and a length.
\<close>

type_synonym gbr_handle = "u64 \<times> int \<times> u32"

definition qer_slot :: "gbr_handle \<Rightarrow> ue_state \<Rightarrow> nat option" where
  "qer_slot h s = (case h of (hz, index, qid) \<Rightarrow> findGbrQerLocked (ue_table s ! nat index) qid)"

definition qer_of :: "gbr_handle \<Rightarrow> ue_state \<Rightarrow> gbr_qer_tb" where
  "qer_of h s = (case h of (hz, index, qid) \<Rightarrow>
     gbr_qers (ue_table s ! nat index) ! the (qer_slot h s))"

definition gbr_ready :: "gbr_handle \<Rightarrow> ue_state \<Rightarrow> bool" where
  "gbr_ready h s \<longleftrightarrow> (case h of (hz, index, qid) \<Rightarrow>
     length (ue_table s) = MAX_UE \<and> ueTokenIndexValid s index \<and> qer_slot h s \<noteq> None)"

definition gbr_serve :: "gbr_handle \<Rightarrow> ue_state \<Rightarrow> u64 \<Rightarrow> bool \<times> u32 \<Rightarrow> ue_state \<times> bool" where
  "gbr_serve h s now p = (case h of (hz, index, qid) \<Rightarrow>
     if fst p then consume_gbr_guaranteed hz now s index qid (snd p)
     else consume_gbr_excess hz now s index qid (snd p))"

lemma qer_write:
  assumes ready: "gbr_ready h s" and h: "h = (hz, index, qid)" and j: "qer_slot h s = Some j"
    and q: "gq_used q = gq_used (qer_of h s)" "gq_qer_id q = gq_qer_id (qer_of h s)"
  shows "qer_slot h (upd_qer s index j (\<lambda>_. q)) = Some j"
    and "qer_of h (upd_qer s index j (\<lambda>_. q)) = q"
    and "length (ue_table (upd_qer s index j (\<lambda>_. q))) = length (ue_table s)"
    and "ueTokenIndexValid (upd_qer s index j (\<lambda>_. q)) index"
proof -
  let ?s = "upd_qer s index j (\<lambda>_. q)"
  let ?qs = "gbr_qers (ue_table s ! nat index)"
  let ?P = "\<lambda>qer. gq_used qer \<and> gq_qer_id qer = qid"
  have i: "nat index < length (ue_table s)" "0 \<le> index"
    using ready by (auto simp: gbr_ready_def h ueTokenIndexValid_def nat_less_iff)
  have find: "find_index ?P ?qs = Some j" using j by (simp add: qer_slot_def h findGbrQerLocked_def)
  note jq = find_index_SomeD [OF find]
  have of: "qer_of h s = ?qs ! j" using j by (simp add: qer_of_def h)
  have qs: "gbr_qers (ue_table ?s ! nat index) = ?qs[j := q]"
    using i by (simp add: upd_qer_def upd_ue_def)
  have "find_index ?P (?qs[j := q]) = find_index ?P ?qs"
    by (rule find_index_update) (use q of in simp)
  then show slot: "qer_slot h ?s = Some j"
    using find qs by (simp add: qer_slot_def h findGbrQerLocked_def)
  then show "qer_of h ?s = q" using qs jq by (simp add: qer_of_def h)
  show "length (ue_table ?s) = length (ue_table s)" by (simp add: upd_qer_def upd_ue_def)
  show "ueTokenIndexValid ?s index"
    using ready i by (simp add: gbr_ready_def h ueTokenIndexValid_def upd_qer_def upd_ue_def)
qed

lemma consume_guaranteed_withdrawn:
  assumes "consume_guaranteed_qer hz q now len = (q', g)"
  shows "withdrawn hz (gfbr_tb q) now len g (gfbr_tb q') \<and>
    withdrawn hz (mfbr_tb q) now len g (mfbr_tb q') \<and>
    gq_used q' = gq_used q \<and> gq_qer_id q' = gq_qer_id q"
  using assms by (auto simp: consume_guaranteed_qer_def withdrawn_def Let_def split: if_splits)

lemma consume_excess_withdrawn:
  assumes "consume_excess_qer hz q now len = (q', g)"
  shows "gfbr_tb q' = gfbr_tb q \<and> withdrawn hz (mfbr_tb q) now len g (mfbr_tb q') \<and>
    gq_used q' = gq_used q \<and> gq_qer_id q' = gq_qer_id q"
  using assms by (auto simp: consume_excess_qer_def withdrawn_def Let_def split: if_splits)

lemma gbr_serve_frame:
  assumes ready: "gbr_ready h s" and serve: "gbr_serve h s now p = (s', g)"
  shows "length (ue_table s') = length (ue_table s) \<and> ueTokenIndexValid s' (fst (snd h)) \<and>
    qer_slot h s' \<noteq> None \<and>
    withdrawn (fst h) (mfbr_tb (qer_of h s)) now (snd p) g (mfbr_tb (qer_of h s')) \<and>
    (if fst p then withdrawn (fst h) (gfbr_tb (qer_of h s)) now (snd p) g (gfbr_tb (qer_of h s'))
     else gfbr_tb (qer_of h s') = gfbr_tb (qer_of h s))"
proof -
  obtain hz index qid where h: "h = (hz, index, qid)" by (cases h)
  obtain j where j: "qer_slot h s = Some j" using ready by (auto simp: gbr_ready_def)
  have find: "findGbrQerLocked (ue_table s ! nat index) qid = Some j"
    using j by (simp add: qer_slot_def h)
  have of: "qer_of h s = gbr_qers (ue_table s ! nat index) ! j" using j by (simp add: qer_of_def h)
  have valid: "\<not> (index < 0 \<or> index \<ge> int MAX_UE)" "ueTokenIndexValid s index"
    using ready by (auto simp: gbr_ready_def h ueTokenIndexValid_def)
  show ?thesis
  proof (cases "fst p")
    case True
    obtain q c where q: "consume_guaranteed_qer hz (qer_of h s) now (snd p) = (q, c)" by fastforce
    then have s': "s' = upd_qer s index j (\<lambda>_. q)" "g = c"
      using serve True valid find of by (auto simp: gbr_serve_def h consume_gbr_guaranteed_def)
    note w = consume_guaranteed_withdrawn [OF q]
    from qer_write [OF ready h j, of q] w show ?thesis using True s' by (simp add: h)
  next
    case False
    obtain q c where q: "consume_excess_qer hz (qer_of h s) now (snd p) = (q, c)" by fastforce
    then have s': "s' = upd_qer s index j (\<lambda>_. q)" "g = c"
      using serve False valid find of by (auto simp: gbr_serve_def h consume_gbr_excess_def)
    note w = consume_excess_withdrawn [OF q]
    from qer_write [OF ready h j, of q] w show ?thesis using False s' by (simp add: h)
  qed
qed

lemma gbr_serve_eq:
  "gbr_serve (hz, index, qid) = (\<lambda>s now (guaranteed, len).
     if guaranteed then consume_gbr_guaranteed hz now s index qid len
     else consume_gbr_excess hz now s index qid len)"
  by (intro ext) (simp add: gbr_serve_def split: prod.splits)

lemma gbr_serve_ready:
  "gbr_ready h s \<Longrightarrow> gbr_serve h s now p = (s', g) \<Longrightarrow> gbr_ready h s'"
  using gbr_serve_frame [of h s now p s' g] by (cases h) (simp add: gbr_ready_def)

interpretation mfbr: rate_limiter
  "\<lambda>h s. gbr_ready h s \<and> tb_sane (fst h) (mfbr_tb (qer_of h s))" "\<lambda>h. unat (fst h)"
  "\<lambda>h s. unat (tb_tokens (mfbr_tb (qer_of h s)))" "\<lambda>h s. unat (tb_depth (mfbr_tb (qer_of h s)))"
  "\<lambda>h s. unat (tb_rate (mfbr_tb (qer_of h s))) * 125"
  "\<lambda>h s. unat (last_cycle (mfbr_tb (qer_of h s)))"
  gbr_serve unat "\<lambda>p. unat (snd p)"
proof (unfold_locales, goal_cases)
  case (1 h s)
  then show ?case by (simp add: tb_sane_def word_le_nat_alt)
next
  case (2 h s t p s' g)
  then have w: "withdrawn (fst h) (mfbr_tb (qer_of h s)) t (snd p) g (mfbr_tb (qer_of h s'))"
    using gbr_serve_frame by blast
  from withdrawn_ok [OF _ 2(2) w] show ?case using 2(1) gbr_serve_ready [OF _ 2(3)] by simp
next
  case (3 h s t p s' g)
  then have w: "withdrawn (fst h) (mfbr_tb (qer_of h s)) t (snd p) g (mfbr_tb (qer_of h s'))"
    using gbr_serve_frame by blast
  from 3(1) show ?case using withdrawn_bound [OF _ 3(2) w] by blast
qed

text \<open>The GFBR bucket pays for the guaranteed service only.\<close>

interpretation gfbr: rate_limiter
  "\<lambda>h s. gbr_ready h s \<and> tb_sane (fst h) (gfbr_tb (qer_of h s))" "\<lambda>h. unat (fst h)"
  "\<lambda>h s. unat (tb_tokens (gfbr_tb (qer_of h s)))" "\<lambda>h s. unat (tb_depth (gfbr_tb (qer_of h s)))"
  "\<lambda>h s. unat (tb_rate (gfbr_tb (qer_of h s))) * 125"
  "\<lambda>h s. unat (last_cycle (gfbr_tb (qer_of h s)))"
  gbr_serve unat "\<lambda>p. if fst p then unat (snd p) else 0"
proof (unfold_locales, goal_cases)
  case (1 h s)
  then show ?case by (simp add: tb_sane_def word_le_nat_alt)
next
  case (2 h s t p s' g)
  note f = gbr_serve_frame [OF conjunct1 [OF 2(1)] 2(3)]
  show ?case
  proof (cases "fst p")
    case True
    then have w: "withdrawn (fst h) (gfbr_tb (qer_of h s)) t (snd p) g (gfbr_tb (qer_of h s'))"
      using f by simp
    from withdrawn_ok [OF _ 2(2) w] show ?thesis using 2(1) gbr_serve_ready [OF _ 2(3)] by simp
  next
    case False
    then show ?thesis using f 2 gbr_serve_ready [OF _ 2(3)] by simp
  qed
next
  case (3 h s t p s' g)
  note f = gbr_serve_frame [OF conjunct1 [OF 3(1)] 3(3)]
  show ?case
  proof (cases "fst p")
    case True
    then have w: "withdrawn (fst h) (gfbr_tb (qer_of h s)) t (snd p) g (gfbr_tb (qer_of h s'))"
      using f by simp
    from 3(1) withdrawn_bound [OF _ 3(2) w] True show ?thesis by (simp split: if_splits)
  next
    case False
    then show ?thesis using f by simp
  qed
qed

subsection \<open>Every operation keeps the invariant\<close>

lemma upd_qer_inv:
  assumes inv: "ue_inv s" and i: "i < MAX_UE"
    and q: "tb_le (gfbr_tb (f (gbr_qers (ue_table s ! i) ! j)))"
      "tb_le (mfbr_tb (f (gbr_qers (ue_table s ! i) ! j)))"
    and uniq: "\<And>k. k < SHAPER_MAX_GBR_QERS_PER_UE \<Longrightarrow> k \<noteq> j \<Longrightarrow>
      gq_used (gbr_qers (ue_table s ! i) ! k) \<Longrightarrow>
      gq_used (f (gbr_qers (ue_table s ! i) ! j)) \<Longrightarrow>
      gq_qer_id (gbr_qers (ue_table s ! i) ! k) \<noteq> gq_qer_id (f (gbr_qers (ue_table s ! i) ! j))"
  shows "ue_inv (upd_qer s (int i) j f)"
proof -
  let ?qs = "gbr_qers (ue_table s ! i)"
  have ok: "qers_ok ?qs" "tb_le (session_ambr_tb (ue_table s ! i))"
    using ue_inv_row [OF inv i] by (simp_all add: ue_ok_def)
  have "qers_ok (?qs[j := f (?qs ! j)])"
    unfolding qers_ok_def
  proof (intro conjI allI impI)
    fix k l
    assume "k < length (?qs[j := f (?qs ! j)])" "l < length (?qs[j := f (?qs ! j)])"
      "gq_used (?qs[j := f (?qs ! j)] ! k)" "gq_used (?qs[j := f (?qs ! j)] ! l)"
      "gq_qer_id (?qs[j := f (?qs ! j)] ! k) = gq_qer_id (?qs[j := f (?qs ! j)] ! l)"
    then show "k = l"
      using ok(1) uniq [of k] uniq [of l] unfolding qers_ok_def
      by (cases "k = j"; cases "l = j") auto
  next
    show "\<forall>q\<in>set (?qs[j := f (?qs ! j)]). tb_le (gfbr_tb q) \<and> tb_le (mfbr_tb q)"
      using ok(1) q set_update_subset_insert [of ?qs j "f (?qs ! j)"] unfolding qers_ok_def by auto
  qed (use ok in \<open>simp add: qers_ok_def\<close>)
  then show ?thesis
    unfolding upd_qer_def using ok(2) by (intro upd_ue_row(1) [OF inv i]) (simp_all add: ue_ok_def)
qed

lemma findGbrQer_uniq:
  assumes "ue_inv s" "i < MAX_UE" "findGbrQerLocked (ue_table s ! i) qid = Some j"
    and "k < SHAPER_MAX_GBR_QERS_PER_UE" "k \<noteq> j" "gq_used (gbr_qers (ue_table s ! i) ! k)"
  shows "gq_qer_id (gbr_qers (ue_table s ! i) ! k) \<noteq> gq_qer_id (gbr_qers (ue_table s ! i) ! j)"
  using ue_inv_row [OF assms(1,2)] find_index_SomeD [OF assms(3) [unfolded findGbrQerLocked_def]]
    assms(4-6)
  unfolding ue_ok_def qers_ok_def by metis

lemma validE:
  assumes "ueTokenIndexValid s index"
  obtains i where "index = int i" "i < MAX_UE" "ue_ip (ue_table s ! i) \<noteq> 0"
  using assms by (cases index rule: int_cases4) (auto simp: ueTokenIndexValid_def)

lemma refreshUeSessionAmbr_inv [upf_inv]:
  assumes "ue_inv s"
  shows "ue_inv (fst (refreshUeSessionAmbr now s index ambr c))"
proof (cases "ueTokenIndexValid s index")
  case True
  then obtain i where i: "index = int i" "i < MAX_UE" "ue_ip (ue_table s ! i) \<noteq> 0" by (rule validE)
  then show ?thesis
    using assms upd_ue_row(1) [OF assms i(2), of "refresh_ambr now ambr c"] ue_inv_row [OF assms i(2)]
      refreshUeSessionAmbr_row [of i s]
    by (simp add: ue_inv_def)
qed (simp add: refreshUeSessionAmbr_def assms)

lemma change_qer_frame [simp]:
  "gq_used (change_qer now qfi gfbr mfbr q) = gq_used q"
  "gq_qer_id (change_qer now qfi gfbr mfbr q) = gq_qer_id q"
  "tb_le (gfbr_tb q) \<Longrightarrow> tb_le (gfbr_tb (change_qer now qfi gfbr mfbr q))"
  "tb_le (mfbr_tb q) \<Longrightarrow> tb_le (mfbr_tb (change_qer now qfi gfbr mfbr q))"
  by (simp_all add: change_qer_def Let_def)

lemma refreshUeGbrQer_inv [upf_inv]:
  assumes inv: "ue_inv s"
  shows "ue_inv (fst (refreshUeGbrQer now s index qid qfi gfbr mfbr))"
proof (cases "(index < 0 \<or> index \<ge> int MAX_UE \<or> qid = 0 \<or> gfbr = 0 \<or> mfbr = 0) \<or>
    \<not> ueTokenIndexValid s index")
  case True
  then show ?thesis using inv by (auto simp: refreshUeGbrQer_def)
next
  case False
  then obtain i where i: "index = int i" "i < MAX_UE" by (metis validE)
  have len: "length (gbr_qers (ue_table s ! i)) = SHAPER_MAX_GBR_QERS_PER_UE"
    and le: "\<And>j. j < SHAPER_MAX_GBR_QERS_PER_UE \<Longrightarrow>
      tb_le (gfbr_tb (gbr_qers (ue_table s ! i) ! j)) \<and> tb_le (mfbr_tb (gbr_qers (ue_table s ! i) ! j))"
    using ue_inv_row [OF inv i(2)] by (auto simp: ue_ok_def qers_ok_def)
  show ?thesis
  proof (cases "findGbrQerLocked (ue_table s ! i) qid")
    case (Some j)
    note j = find_index_SomeD [OF Some [unfolded findGbrQerLocked_def]]
    show ?thesis
      using False Some i j len le [of j] findGbrQer_uniq [OF inv i(2) Some]
      by (auto simp: refreshUeGbrQer_def intro!: upd_qer_inv [OF inv i(2)])
  next
    case None
    then have new: "gq_qer_id (gbr_qers (ue_table s ! i) ! k) \<noteq> qid"
      if "k < SHAPER_MAX_GBR_QERS_PER_UE" "gq_used (gbr_qers (ue_table s ! i) ! k)" for k
      using that len nth_mem [of k "gbr_qers (ue_table s ! i)"]
      by (auto simp: findGbrQerLocked_def find_index_None)
    show ?thesis
      using False None i new inv
      by (auto simp: refreshUeGbrQer_def zero_gbr_qer_def split: option.splits
          intro!: upd_qer_inv [OF inv i(2)])
  qed
qed

lemma consume_session_ambr_inv [upf_inv]:
  assumes inv: "ue_inv s"
  shows "ue_inv (fst (consume_session_ambr hz now s index len))"
proof (cases "ueTokenIndexValid s index")
  case True
  then obtain i where i: "index = int i" "i < MAX_UE" by (rule validE)
  obtain tb c where tb: "consume_tb hz (session_ambr_tb (ue_table s ! i)) now len = (tb, c)"
    by fastforce
  have "ue_inv (upd_ue s (int i) (\<lambda>ue. ue \<lparr>session_ambr_tb := tb\<rparr>))"
    using ue_inv_row [OF inv i(2)] withdrawn_tb_le [OF consume_tb_withdrawn [OF tb]]
    by (intro upd_ue_row(1) [OF inv i(2)]) (simp_all add: ue_ok_def)
  then show ?thesis using True i tb by (simp add: consume_session_ambr_def)
qed (simp add: consume_session_ambr_def inv)

lemma consume_gbr_inv [upf_inv]:
  assumes inv: "ue_inv s"
  shows "ue_inv (fst (consume_gbr_guaranteed hz now s index qid len))"
    and "ue_inv (fst (consume_gbr_excess hz now s index qid len))"
proof -
  have put: "ue_inv (upd_qer s (int i) j (\<lambda>_. q))"
    if i: "i < MAX_UE" and j: "findGbrQerLocked (ue_table s ! i) qid = Some j"
      and q: "tb_le (gfbr_tb q)" "tb_le (mfbr_tb q)"
        "gq_qer_id q = gq_qer_id (gbr_qers (ue_table s ! i) ! j)" for i j q
    using q findGbrQer_uniq [OF inv i j] by (intro upd_qer_inv [OF inv i]) simp_all
  have le: "tb_le (gfbr_tb (gbr_qers (ue_table s ! i) ! j))"
    if "i < MAX_UE" "findGbrQerLocked (ue_table s ! i) qid = Some j" for i j
    using ue_inv_row [OF inv that(1)] find_index_SomeD [OF that(2) [unfolded findGbrQerLocked_def]]
    by (auto simp: ue_ok_def qers_ok_def)
  show "ue_inv (fst (consume_gbr_guaranteed hz now s index qid len))"
    using inv
    by (auto simp: consume_gbr_guaranteed_def split: option.splits prod.splits elim!: validE
        dest!: consume_guaranteed_withdrawn intro!: put intro: withdrawn_tb_le)
  show "ue_inv (fst (consume_gbr_excess hz now s index qid len))"
    using inv le
    by (auto simp: consume_gbr_excess_def split: option.splits prod.splits elim!: validE
        dest!: consume_excess_withdrawn intro!: put intro: withdrawn_tb_le)
qed

lemma addEntrybyUeIp_inv [upf_inv]:
  assumes inv: "ue_inv s" and ip: "ip \<noteq> 0"
  shows "ue_inv (fst (addEntrybyUeIp now s ip ambr c))"
proof (cases "ue_map s ip")
  case None
  show ?thesis
  proof (cases "\<forall>i<MAX_UE. ue_ip (ue_table s ! i) \<noteq> 0")
    case True
    then show ?thesis using add_full [OF inv None] inv by simp
  next
    case False
    then obtain i where "i < MAX_UE" "ue_ip (ue_table s ! i) = 0" by blast
    from add_fresh [OF inv None ip this] show ?thesis by (metis prod.collapse)
  qed
next
  case (Some ue)
  from add_existing [OF inv this] show ?thesis by (metis prod.collapse)
qed

lemma removeEntrybyUeIp_inv [upf_inv]:
  assumes inv: "ue_inv s"
  shows "ue_inv (fst (removeEntrybyUeIp s ip))"
  using remove_absent [OF inv, of ip] remove_present [OF inv, of ip] inv
  by (cases "ue_map s ip") (auto, metis prod.collapse)

text \<open>The state after \<^verbatim>\<open>initUeTable\<close> and \<^verbatim>\<open>ueHashInit\<close> on zeroed memory.\<close>

definition ue_boot :: "(nat \<Rightarrow> u64) \<Rightarrow> ue_state" where
  "ue_boot now =
     (let s = initUeTable now zero_ue_state in s \<lparr>ue_hash := ueHashInit (ue_hash s)\<rparr>)"

lemma ue_boot_inv: "ue_inv (ue_boot now)"
proof -
  let ?t = "ue_table (ue_boot now)"
  have ips: "ue_ip (?t ! i) = 0" if "i < MAX_UE" for i
    using that by (simp add: ue_boot_def Let_def initUeTable_def)
  then have "live ?t = {}" by (auto simp: live_def)
  moreover have "hash_ok (ue_hash (ue_boot now)) ?t {}"
    unfolding ue_boot_def Let_def ueHashInit_def
    using clear_hash_ok [of "ue_hash (initUeTable now zero_ue_state)"]
    by (simp add: initUeTable_def zero_ue_state_def)
  ultimately show ?thesis
    by (auto simp: ue_inv_def ue_boot_def Let_def initUeTable_def ue_ok_def qers_ok_def
        zero_gbr_qer_def zero_tb_def tb_le_def)
qed

text \<open>Runs of the UE table: any sequence of the operations the data plane calls.\<close>

inductive ue_reach :: "ue_state \<Rightarrow> bool" where
  boot: "ue_reach (ue_boot now)"
| add: "ue_reach s \<Longrightarrow> ip \<noteq> 0 \<Longrightarrow> ue_reach (fst (addEntrybyUeIp now s ip ambr c))"
| remove: "ue_reach s \<Longrightarrow> ue_reach (fst (removeEntrybyUeIp s ip))"
| refresh: "ue_reach s \<Longrightarrow> ue_reach (fst (refreshUeSessionAmbr now s index ambr c))"
| refresh_gbr: "ue_reach s \<Longrightarrow> ue_reach (fst (refreshUeGbrQer now s index qid qfi gfbr mfbr))"
| consume: "ue_reach s \<Longrightarrow> ue_reach (fst (consume_session_ambr hz now s index len))"
| consume_g: "ue_reach s \<Longrightarrow> ue_reach (fst (consume_gbr_guaranteed hz now s index qid len))"
| consume_e: "ue_reach s \<Longrightarrow> ue_reach (fst (consume_gbr_excess hz now s index qid len))"

lemma ue_reach_inv: "ue_reach s \<Longrightarrow> ue_inv s"
  by (induction rule: ue_reach.induct) (auto intro: ue_boot_inv upf_inv)

subsection \<open>Properties\<close>

text \<open>
  C3. Session-AMBR conformance. Over any sequence of withdrawals at non-decreasing clock
  values, the bytes \<^verbatim>\<open>consume_session_ambr\<close> grants for one UE are at most the depth of its
  bucket plus what the configured rate yields over the elapsed time, plus the bytes of one
  clock cycle per request (the rounding of \<^verbatim>\<open>cycles_used\<close>). Bytes are scaled by the clock
  frequency so that the statement has no division.
\<close>

theorem session_ambr_conformance:
  fixes s :: ue_state and hz :: u64 and index :: int
  defines "tb \<equiv> session_ambr_tb (ue_table s ! nat index)"
  assumes "length (ue_table s) = MAX_UE" "ueTokenIndexValid s index" "tb_sane hz tb"
    and "sorted (unat (last_cycle tb) # map (unat \<circ> fst) reqs)"
    and "serve_run (\<lambda>s now len. consume_session_ambr hz now s index len) reqs s = (s', granted)"
  shows "sum_list (map unat granted) * unat hz
    \<le> unat (tb_depth tb) * unat hz
      + (last (unat (last_cycle tb) # map (unat \<circ> fst) reqs) - unat (last_cycle tb) + length reqs)
        * (unat (tb_rate tb) * 125)"
proof -
  have "ambr_serve (hz, index) = (\<lambda>s now len. consume_session_ambr hz now s index len)"
    by (intro ext) (simp add: ambr_serve_def)
  then show ?thesis
    using ambr.run_granted [of "(hz, index)" s reqs s' granted] assms by (simp add: ambr_ready_def)
qed

text \<open>One UE with address 7 and a Session-AMBR of 8 Mbps, configured at clock value 0.\<close>

definition one_ue :: ue_state where
  "one_ue = zero_ue_state \<lparr>ue_table := (replicate MAX_UE zero_ue)[0 := fresh_ue 0 7 8000 False]\<rparr>"

lemma one_ue_simps [simp]:
  "length (ue_table one_ue) = MAX_UE" "ue_table one_ue ! 0 = fresh_ue 0 7 8000 False"
  by (simp_all add: one_ue_def)

lemma fresh_ue_simps [simp]:
  "ue_ip (fresh_ue now ip ambr c) = ip"
  "session_ambr_tb (fresh_ue now ip ambr c) = initBucket zero_tb ambr now"
  by (simp_all add: fresh_ue_def)

lemma session_ambr_conformance_witness:
  "sum_list (map unat (snd (serve_run
      (\<lambda>s now len. consume_session_ambr 1000000000 now s 0 len) [(5, 1500), (9, 1500)] one_ue)))
     * 1000000000
   \<le> unat (shaper_bucket_depth 8000) * 1000000000 + 11 * 1000000"
  using session_ambr_conformance [of one_ue 0 1000000000 "[(5, 1500), (9, 1500)]",
      OF _ _ _ _ prod.collapse [symmetric]]
  by (simp add: ueTokenIndexValid_def initBucket_sane) (simp add: initBucket_def)

text \<open>
  C5. MFBR is the aggregate hard limit of a GBR QER: over any interleaving of guaranteed and
  excess withdrawals, the bytes granted by \<^verbatim>\<open>consume_gbr_guaranteed\<close> and
  \<^verbatim>\<open>consume_gbr_excess\<close> together stay within the depth of the MFBR bucket plus the bytes the
  MFBR yields over the elapsed time (and one cycle's worth per request).
\<close>

theorem mfbr_hard_limit:
  fixes s :: ue_state and hz :: u64 and index :: int and qid :: u32 and j :: nat
  defines "tb \<equiv> mfbr_tb (gbr_qers (ue_table s ! nat index) ! j)"
  assumes "length (ue_table s) = MAX_UE" "ueTokenIndexValid s index"
    and "findGbrQerLocked (ue_table s ! nat index) qid = Some j" "tb_sane hz tb"
    and "sorted (unat (last_cycle tb) # map (unat \<circ> fst) reqs)"
    and "serve_run (\<lambda>s now (guaranteed, len).
        if guaranteed then consume_gbr_guaranteed hz now s index qid len
        else consume_gbr_excess hz now s index qid len) reqs s = (s', granted)"
  shows "sum_list (map (unat \<circ> snd) granted) * unat hz
    \<le> unat (tb_depth tb) * unat hz
      + (last (unat (last_cycle tb) # map (unat \<circ> fst) reqs) - unat (last_cycle tb) + length reqs)
        * (unat (tb_rate tb) * 125)"
proof -
  let ?h = "(hz, index, qid)"
  have "qer_of ?h s = gbr_qers (ue_table s ! nat index) ! j" "gbr_ready ?h s"
    using assms by (simp_all add: qer_of_def qer_slot_def gbr_ready_def)
  then show ?thesis
    using mfbr.run_granted [of ?h s reqs s' granted] assms by (simp add: comp_def gbr_serve_eq)
qed

text \<open>The same UE with one GBR QER: GFBR 4 Mbps, MFBR 8 Mbps.\<close>

definition one_qer :: gbr_qer_tb where
  "one_qer = zero_gbr_qer \<lparr>gq_used := True, gq_qer_id := 3, gq_qfi := 1, gq_gfbr := 4000,
     gq_mfbr := 8000, gfbr_tb := initBucket zero_tb 4000 0, mfbr_tb := initBucket zero_tb 8000 0\<rparr>"

definition one_gbr_ue :: ue_state where
  "one_gbr_ue = zero_ue_state \<lparr>ue_table := (replicate MAX_UE zero_ue)
     [0 := (fresh_ue 0 7 8000 False) \<lparr>gbr_qers := (gbr_qers zero_ue)[0 := one_qer]\<rparr>]\<rparr>"

lemma one_gbr_ue_simps [simp]:
  "length (ue_table one_gbr_ue) = MAX_UE"
  "ue_table one_gbr_ue ! 0 = (fresh_ue 0 7 8000 False) \<lparr>gbr_qers := (gbr_qers zero_ue)[0 := one_qer]\<rparr>"
  "gbr_qers zero_ue ! 0 = zero_gbr_qer" "length (gbr_qers zero_ue) = SHAPER_MAX_GBR_QERS_PER_UE"
  by (simp_all add: one_gbr_ue_def zero_ue_def)

lemma one_gbr_find [simp]:
  "findGbrQerLocked ((fresh_ue 0 7 8000 False) \<lparr>gbr_qers := (gbr_qers zero_ue)[0 := one_qer]\<rparr>) 3 = Some 0"
  by (simp add: findGbrQerLocked_def zero_ue_def one_qer_def numeral_eq_Suc)

lemma one_qer_simps [simp]:
  "gfbr_tb one_qer = initBucket zero_tb 4000 0" "mfbr_tb one_qer = initBucket zero_tb 8000 0"
  by (simp_all add: one_qer_def)

lemma mfbr_hard_limit_witness:
  "sum_list (map (unat \<circ> snd) (snd (serve_run (\<lambda>s now (guaranteed, len).
      if guaranteed then consume_gbr_guaranteed 1000000000 now s 0 3 len
      else consume_gbr_excess 1000000000 now s 0 3 len)
      [(5, True, 1500), (9, False, 1500)] one_gbr_ue))) * 1000000000
   \<le> unat (shaper_bucket_depth 8000) * 1000000000 + 11 * 1000000"
  using mfbr_hard_limit [of one_gbr_ue 0 3 0 1000000000 "[(5, True, 1500), (9, False, 1500)]",
      OF _ _ _ _ _ prod.collapse [symmetric]]
  by (simp add: ueTokenIndexValid_def initBucket_sane) (simp add: initBucket_def)

text \<open>
  The guaranteed service of a GBR QER stays within its GFBR bucket, whatever excess
  service is interleaved with it: excess withdrawals never touch that bucket.
\<close>

theorem gfbr_limit:
  fixes s :: ue_state and hz :: u64 and index :: int and qid :: u32 and j :: nat
  defines "tb \<equiv> gfbr_tb (gbr_qers (ue_table s ! nat index) ! j)"
  assumes "length (ue_table s) = MAX_UE" "ueTokenIndexValid s index"
    and "findGbrQerLocked (ue_table s ! nat index) qid = Some j" "tb_sane hz tb"
    and "sorted (unat (last_cycle tb) # map (unat \<circ> fst) reqs)"
    and "serve_run (\<lambda>s now (guaranteed, len).
        if guaranteed then consume_gbr_guaranteed hz now s index qid len
        else consume_gbr_excess hz now s index qid len) reqs s = (s', granted)"
  shows "sum_list (map (\<lambda>p. if fst p then unat (snd p) else 0) granted) * unat hz
    \<le> unat (tb_depth tb) * unat hz
      + (last (unat (last_cycle tb) # map (unat \<circ> fst) reqs) - unat (last_cycle tb) + length reqs)
        * (unat (tb_rate tb) * 125)"
proof -
  let ?h = "(hz, index, qid)"
  have "qer_of ?h s = gbr_qers (ue_table s ! nat index) ! j" "gbr_ready ?h s"
    using assms by (simp_all add: qer_of_def qer_slot_def gbr_ready_def)
  then show ?thesis
    using gfbr.run_granted [of ?h s reqs s' granted] assms by (simp add: comp_def gbr_serve_eq)
qed

lemma gfbr_limit_witness:
  "sum_list (map (\<lambda>p. if fst p then unat (snd p) else 0)
      (snd (serve_run (\<lambda>s now (guaranteed, len).
        if guaranteed then consume_gbr_guaranteed 1000000000 now s 0 3 len
        else consume_gbr_excess 1000000000 now s 0 3 len)
        [(5, True, 1500), (9, False, 1500)] one_gbr_ue))) * 1000000000
   \<le> unat (shaper_bucket_depth 4000) * 1000000000 + 11 * 500000"
  using gfbr_limit [of one_gbr_ue 0 3 0 1000000000 "[(5, True, 1500), (9, False, 1500)]",
      OF _ _ _ _ _ prod.collapse [symmetric]]
  by (simp add: ueTokenIndexValid_def initBucket_sane) (simp add: initBucket_def)

text \<open>
  C24. No starvation by the bucket: when the time since the last refill is enough for the rate
  to fill the bucket, \<^verbatim>\<open>consume_session_ambr\<close> grants every packet that
  \<^verbatim>\<open>sessionAmbrCanFitPacket\<close> admits.
\<close>

theorem session_ambr_progress:
  assumes "length (ue_table s) = MAX_UE" "sessionAmbrCanFitPacket s index len"
    and "tb_sane hz (session_ambr_tb (ue_table s ! nat index))"
    and "last_cycle (session_ambr_tb (ue_table s ! nat index)) \<le> now"
    and "unat (tb_depth (session_ambr_tb (ue_table s ! nat index))) * unat hz
      \<le> (unat now - unat (last_cycle (session_ambr_tb (ue_table s ! nat index))))
        * (unat (tb_rate (session_ambr_tb (ue_table s ! nat index))) * 125)"
  shows "snd (consume_session_ambr hz now s index len)"
proof -
  have "tb_tokens (shaper_update_bucket_tokens hz (session_ambr_tb (ue_table s ! nat index)) now)
      = tb_depth (session_ambr_tb (ue_table s ! nat index))"
    by (rule refill_full [OF assms(3-5)])
  then show ?thesis
    using assms(2)
    by (auto simp: sessionAmbrCanFitPacket_def bucketCanFitPacket_def consume_session_ambr_def
        consume_tb_def Let_def split: if_splits)
qed

lemma session_ambr_progress_witness:
  "sessionAmbrCanFitPacket one_ue 0 1500 \<and>
   snd (consume_session_ambr 1000000000 200000000 one_ue 0 1500)"
proof -
  have d: "shaper_bucket_depth 8000 = 100000" by (simp add: shaper_bucket_depth_def)
  then have "sessionAmbrCanFitPacket one_ue 0 1500"
    by (simp add: sessionAmbrCanFitPacket_def ueTokenIndexValid_def bucketCanFitPacket_def
        initBucket_def)
  moreover from this have "snd (consume_session_ambr 1000000000 200000000 one_ue 0 1500)"
    by (rule session_ambr_progress [rotated])
      (simp_all add: initBucket_sane, simp_all add: initBucket_def d)
  ultimately show ?thesis by simp
qed

text \<open>
  C26. The UE table refines a map from UE address to UE record. \<^verbatim>\<open>addEntrybyUeIp\<close> on an
  address that is known refreshes its Session-AMBR, on a new one it binds a fresh record
  unless all rows are taken, and it returns the index under which
  \<^verbatim>\<open>findIndexByUeIpAddress\<close> finds the address from then on (or -1). No other address is
  affected.
\<close>

theorem addEntrybyUeIp_refines:
  assumes "ue_inv s" "ip \<noteq> 0"
  shows "ue_inv (fst (addEntrybyUeIp now s ip ambr c)) \<and>
    snd (addEntrybyUeIp now s ip ambr c)
      = findIndexByUeIpAddress (fst (addEntrybyUeIp now s ip ambr c)) ip \<and>
    ue_map (fst (addEntrybyUeIp now s ip ambr c)) =
      (case ue_map s ip of
         Some ue \<Rightarrow> (ue_map s)(ip \<mapsto> refresh_ambr now ambr c ue)
       | None \<Rightarrow> if \<forall>i<MAX_UE. ue_ip (ue_table s ! i) \<noteq> 0 then ue_map s
                 else (ue_map s)(ip \<mapsto> fresh_ue now ip ambr c))"
proof -
  obtain s' r where add: "addEntrybyUeIp now s ip ambr c = (s', r)" by fastforce
  show ?thesis
  proof (cases "ue_map s ip")
    case (Some ue)
    then show ?thesis using add_existing [OF assms(1) Some add] add by simp
  next
    case None
    have neg: "findIndexByUeIpAddress s ip = -1"
      using None by (cases rule: ue_find_cases [OF assms(1), of ip]) auto
    show ?thesis
    proof (cases "\<forall>i<MAX_UE. ue_ip (ue_table s ! i) \<noteq> 0")
      case True
      then show ?thesis using add_full [OF assms(1) None] None neg assms(1) by simp
    next
      case False
      then obtain i where "i < MAX_UE" "ue_ip (ue_table s ! i) = 0" by blast
      from add_fresh [OF assms(1) None assms(2) this add] False None show ?thesis
        by (auto simp: add)
    qed
  qed
qed

lemma addEntrybyUeIp_refines_witness:
  "ue_inv (ue_boot (\<lambda>_. 0)) \<and>
   ue_inv (fst (addEntrybyUeIp 5 (ue_boot (\<lambda>_. 0)) 7 8000 False)) \<and>
   ue_map (fst (addEntrybyUeIp 5 (ue_boot (\<lambda>_. 0)) 7 8000 False)) 7 = Some (fresh_ue 5 7 8000 False)"
proof -
  let ?s = "ue_boot (\<lambda>_. 0)"
  have zero: "ue_ip (ue_table ?s ! i) = 0" if "i < MAX_UE" for i
    using that by (simp add: ue_boot_def Let_def initUeTable_def)
  have none: "ue_map ?s 7 = None"
  proof (rule ccontr)
    assume "ue_map ?s 7 \<noteq> None"
    then obtain ue where "ue_map ?s 7 = Some ue" by blast
    then show False unfolding ue_map_Some [OF ue_boot_inv] using zero by auto
  qed
  have room: "\<not> (\<forall>i<MAX_UE. ue_ip (ue_table ?s ! i) \<noteq> 0)" using zero [of 0] by (metis zero_less_numeral)
  show ?thesis
    using addEntrybyUeIp_refines [of ?s 7 5 8000 False] ue_boot_inv
    unfolding none if_not_P [OF room] option.case by simp
qed

text \<open>
  C27. \<^verbatim>\<open>removeEntrybyUeIp\<close> unbinds exactly the given address and reports whether it was
  bound. Rebuilding the hash in place keeps every other UE reachable, which clearing the one
  slot would not.
\<close>

theorem removeEntrybyUeIp_refines:
  assumes "ue_inv s"
  shows "ue_inv (fst (removeEntrybyUeIp s ip)) \<and>
    ue_map (fst (removeEntrybyUeIp s ip)) = (ue_map s)(ip := None) \<and>
    (snd (removeEntrybyUeIp s ip) \<longleftrightarrow> ue_map s ip \<noteq> None)"
proof (cases "ue_map s ip")
  case None
  then show ?thesis using assms remove_absent [OF assms None] by (auto simp: fun_upd_idem)
next
  case (Some ue)
  obtain s' b where "removeEntrybyUeIp s ip = (s', b)" by fastforce
  then show ?thesis using remove_present [OF assms Some] Some by simp
qed

lemma removeEntrybyUeIp_refines_witness:
  "ue_inv (ue_boot (\<lambda>_. 0)) \<and> ue_inv (fst (removeEntrybyUeIp (ue_boot (\<lambda>_. 0)) 7)) \<and>
   ue_map (fst (removeEntrybyUeIp (ue_boot (\<lambda>_. 0)) 7)) 7 = None"
  using removeEntrybyUeIp_refines [OF ue_boot_inv, of "\<lambda>_. 0" 7] ue_boot_inv by simp

text \<open>
  C25. In every state the operations of \<^verbatim>\<open>upf_u_trtcm.c\<close> can reach from initialisation (with
  non-zero UE addresses), the hash finds exactly the rows of the table, and no bucket holds
  more tokens than its depth.
\<close>

theorem ue_table_safe:
  assumes "ue_reach s"
  shows "(findIndexByUeIpAddress s ip = int i \<longleftrightarrow>
      i < MAX_UE \<and> ue_ip (ue_table s ! i) = ip \<and> ip \<noteq> 0) \<and>
    (i < MAX_UE \<longrightarrow> tb_le (session_ambr_tb (ue_table s ! i)) \<and>
      (\<forall>q\<in>set (gbr_qers (ue_table s ! i)). tb_le (gfbr_tb q) \<and> tb_le (mfbr_tb q)))"
  using ue_find [OF ue_reach_inv [OF assms], of ip i] ue_inv_row [OF ue_reach_inv [OF assms], of i]
  by (simp add: ue_ok_def qers_ok_def)

lemma ue_table_safe_witness:
  "ue_reach (ue_boot (\<lambda>_. 3)) \<and> findIndexByUeIpAddress (ue_boot (\<lambda>_. 3)) 7 \<noteq> 0 \<and>
   tb_le (session_ambr_tb (ue_table (ue_boot (\<lambda>_. 3)) ! 0))"
proof -
  have "ue_ip (ue_table (ue_boot (\<lambda>_. 3)) ! 0) = 0"
    by (simp add: ue_boot_def Let_def initUeTable_def del: upt_Suc upt_rec_numeral)
  then show ?thesis
    using ue_table_safe [OF ue_reach.boot, of "\<lambda>_. 3" 7 0] by (simp add: ue_reach.boot)
qed

end
