(* ===== verification/Shaper.thy ===== *)
theory Shaper
  imports Ue_Table
begin

text \<open>
  The downlink shaper queues of one UE, \<^verbatim>\<open>struct ue_shaper\<close> of \<^verbatim>\<open>5gc/upf_u/upf_u.c\<close>: up to
  64 flows with a FIFO of packets each, three active lists served by the scheduler, and the
  flow lookup, (de)activation, policy change and enqueue operations.

  A flow is addressed by its index in \<^verbatim>\<open>flows[]\<close>. The chain \<^verbatim>\<open>head..tail\<close> of entries is the
  list \<open>entries\<close>, a \<^verbatim>\<open>TAILQ\<close> of flows is a list of flow indices. A packet is named by the
  address of its mbuf. The spinlock of a UE makes each operation atomic.
\<close>

abbreviation SHAPER_MAX_FLOWS_PER_UE :: nat where "SHAPER_MAX_FLOWS_PER_UE \<equiv> 64"
abbreviation SHAPER_MAX_PKTS_PER_FLOW :: nat where "SHAPER_MAX_PKTS_PER_FLOW \<equiv> 512"
abbreviation SHAPER_MAX_PKTS_PER_UE :: nat where "SHAPER_MAX_PKTS_PER_UE \<equiv> 2048"

datatype shaper_decision = SHAPER_PASS | SHAPER_QUEUED | SHAPER_DROP

datatype shaper_pkt_color = SHAPER_COLOR_NQOS | SHAPER_COLOR_GREEN | SHAPER_COLOR_YELLOW

datatype shaper_active_list_id =
    SHAPER_ACTIVE_NONE
  | SHAPER_ACTIVE_GBR_QOS
  | SHAPER_ACTIVE_NON_GBR_QOS
  | SHAPER_ACTIVE_DEFAULT_NON_GBR
  | SHAPER_ACTIVE_COUNT

datatype shaper_service =
    SHAPER_SERVICE_SESSION_AMBR
  | SHAPER_SERVICE_GBR_GUARANTEED
  | SHAPER_SERVICE_GBR_EXCESS
  | SHAPER_SERVICE_COUNT

record shaper_flow_key =
  k_ue_ip :: u32
  k_src_ip :: u32
  k_dst_ip :: u32
  k_src_port :: u16
  k_dst_port :: u16
  k_proto :: u8
  k_qfi :: u8
  k_is_qos :: u8

record shaper_entry =
  e_pkt :: mbuf
  e_pkt_len :: u32
  e_destination :: u16
  e_color :: shaper_pkt_color

record shaper_flow =
  in_use :: bool
  f_key :: shaper_flow_key
  entries :: "shaper_entry list"
  queued_pkts :: u32
  queued_bytes :: u32
  has_gbr :: bool
  qer_id :: u32
  active_list :: shaper_active_list_id
  last_active_tsc :: u64

record ue_shaper =
  flows :: "shaper_flow list"
  active :: "shaper_active_list_id \<Rightarrow> nat list"
  active_count :: "shaper_active_list_id \<Rightarrow> u32"
  ue_queued_pkts :: u32
  next_excess_list :: shaper_active_list_id

definition zero_flow_key :: shaper_flow_key where
  "zero_flow_key = \<lparr>k_ue_ip = 0, k_src_ip = 0, k_dst_ip = 0, k_src_port = 0, k_dst_port = 0,
     k_proto = 0, k_qfi = 0, k_is_qos = 0\<rparr>"

definition zero_flow :: shaper_flow where
  "zero_flow = \<lparr>in_use = False, f_key = zero_flow_key, entries = [], queued_pkts = 0,
     queued_bytes = 0, has_gbr = False, qer_id = 0, active_list = SHAPER_ACTIVE_NONE,
     last_active_tsc = 0\<rparr>"

definition zero_ue_shaper :: ue_shaper where
  "zero_ue_shaper = \<lparr>flows = replicate SHAPER_MAX_FLOWS_PER_UE zero_flow, active = (\<lambda>_. []),
     active_count = (\<lambda>_. 0), ue_queued_pkts = 0, next_excess_list = SHAPER_ACTIVE_NONE\<rparr>"

subsection \<open>Flow lookup\<close>

definition shaper_flow_key_equal :: "shaper_flow_key \<Rightarrow> shaper_flow_key \<Rightarrow> bool" where
  "shaper_flow_key_equal a b \<longleftrightarrow>
     k_ue_ip a = k_ue_ip b \<and> k_src_ip a = k_src_ip b \<and> k_dst_ip a = k_dst_ip b \<and>
     k_src_port a = k_src_port b \<and> k_dst_port a = k_dst_port b \<and> k_proto a = k_proto b \<and>
     k_qfi a = k_qfi b \<and> k_is_qos a = k_is_qos b"

definition shaper_flow_hash :: "shaper_flow_key \<Rightarrow> u32" where
  "shaper_flow_hash k =
     (let h = 2166136261;
          h = (h XOR k_ue_ip k) * 16777619;
          h = (h XOR k_src_ip k) * 16777619;
          h = (h XOR k_dst_ip k) * 16777619;
          h = (h XOR (push_bit 16 (ucast (k_src_port k)) OR ucast (k_dst_port k))) * 16777619;
          h = (h XOR (push_bit 16 (ucast (k_proto k)) OR push_bit 8 (ucast (k_qfi k)) OR
                      ucast (k_is_qos k))) * 16777619
      in h)"

text \<open>
  The probe loop of \<^verbatim>\<open>shaper_lookup_flow\<close>. It visits all slots from the hash on; the result is
  the slot of the key, or the first free slot seen.
\<close>

fun lookup_probe ::
  "shaper_flow list \<Rightarrow> shaper_flow_key \<Rightarrow> nat list \<Rightarrow> nat option \<Rightarrow> nat option \<times> nat option" where
  "lookup_probe fs k [] free_idx = (None, free_idx)"
| "lookup_probe fs k (idx # rest) free_idx =
     (if in_use (fs ! idx) then
        if shaper_flow_key_equal (f_key (fs ! idx)) k then (Some idx, free_idx)
        else lookup_probe fs k rest free_idx
      else lookup_probe fs k rest (if free_idx = None then Some idx else free_idx))"

definition probe_order :: "shaper_flow_key \<Rightarrow> nat list" where
  "probe_order k =
     map (\<lambda>probe. (unat (shaper_flow_hash k mod 64) + probe) mod SHAPER_MAX_FLOWS_PER_UE)
       [0..<SHAPER_MAX_FLOWS_PER_UE]"

definition shaper_lookup_flow ::
  "ue_shaper \<Rightarrow> shaper_flow_key \<Rightarrow> bool \<Rightarrow> ue_shaper \<times> nat option" where
  "shaper_lookup_flow ue k create =
     (case lookup_probe (flows ue) k (probe_order k) None of
        (Some idx, _) \<Rightarrow> (ue, Some idx)
      | (None, None) \<Rightarrow> (ue, None)
      | (None, Some free_idx) \<Rightarrow>
          if \<not> create then (ue, None)
          else (ue \<lparr>flows := (flows ue)[free_idx := zero_flow
                   \<lparr>in_use := True, f_key := k, active_list := SHAPER_ACTIVE_NONE\<rparr>]\<rparr>,
                Some free_idx))"

subsection \<open>Active lists\<close>

definition shaper_active_list_for_head :: "shaper_flow \<Rightarrow> shaper_active_list_id" where
  "shaper_active_list_for_head flow =
     (if entries flow = [] then SHAPER_ACTIVE_NONE
      else if has_gbr flow then SHAPER_ACTIVE_GBR_QOS
      else if k_is_qos (f_key flow) = 0 then SHAPER_ACTIVE_DEFAULT_NON_GBR
      else SHAPER_ACTIVE_NON_GBR_QOS)"

definition upd_flow :: "ue_shaper \<Rightarrow> nat \<Rightarrow> (shaper_flow \<Rightarrow> shaper_flow) \<Rightarrow> ue_shaper" where
  "upd_flow ue i f = ue \<lparr>flows := (flows ue)[i := f (flows ue ! i)]\<rparr>"

text \<open>\<^verbatim>\<open>TAILQ_REMOVE\<close> and \<^verbatim>\<open>TAILQ_INSERT_TAIL\<close> with the count of the list.\<close>

definition tailq_remove :: "ue_shaper \<Rightarrow> shaper_active_list_id \<Rightarrow> nat \<Rightarrow> ue_shaper" where
  "tailq_remove ue l i = ue \<lparr>active := (active ue)(l := remove1 i (active ue l)),
     active_count := (active_count ue)(l := active_count ue l - 1)\<rparr>"

definition tailq_insert_tail :: "ue_shaper \<Rightarrow> shaper_active_list_id \<Rightarrow> nat \<Rightarrow> ue_shaper" where
  "tailq_insert_tail ue l i = ue \<lparr>active := (active ue)(l := active ue l @ [i]),
     active_count := (active_count ue)(l := active_count ue l + 1)\<rparr>"

definition shaper_activate_flow :: "u64 \<Rightarrow> ue_shaper \<Rightarrow> nat \<Rightarrow> ue_shaper" where
  "shaper_activate_flow now ue i =
     (let list_id = shaper_active_list_for_head (flows ue ! i) in
      if list_id = SHAPER_ACTIVE_NONE then ue
      else
        (let cur = active_list (flows ue ! i);
             ue = (if cur \<noteq> SHAPER_ACTIVE_NONE then tailq_remove ue cur i else ue);
             ue = tailq_insert_tail ue list_id i
         in upd_flow ue i (\<lambda>flow. flow \<lparr>active_list := list_id, last_active_tsc := now\<rparr>)))"

definition shaper_deactivate_flow :: "ue_shaper \<Rightarrow> nat \<Rightarrow> ue_shaper" where
  "shaper_deactivate_flow ue i =
     (let cur = active_list (flows ue ! i) in
      if cur = SHAPER_ACTIVE_NONE then ue
      else upd_flow (tailq_remove ue cur i) i
             (\<lambda>flow. flow \<lparr>active_list := SHAPER_ACTIVE_NONE\<rparr>))"

definition shaper_update_flow_policy ::
  "u64 \<Rightarrow> ue_shaper \<Rightarrow> nat \<Rightarrow> bool \<Rightarrow> u32 \<Rightarrow> ue_shaper" where
  "shaper_update_flow_policy now ue i gbr qid =
     (if has_gbr (flows ue ! i) = gbr \<and> qer_id (flows ue ! i) = qid then ue
      else
        (let was_active = active_list (flows ue ! i) \<noteq> SHAPER_ACTIVE_NONE;
             ue = (if was_active then shaper_deactivate_flow ue i else ue);
             ue = upd_flow ue i (\<lambda>flow. flow \<lparr>has_gbr := gbr, qer_id := qid\<rparr>)
         in if was_active then shaper_activate_flow now ue i else ue))"

definition shaper_release_empty_flow :: "ue_shaper \<Rightarrow> nat \<Rightarrow> ue_shaper" where
  "shaper_release_empty_flow ue i =
     upd_flow (shaper_deactivate_flow ue i) i (\<lambda>_. zero_flow)"

text \<open>Linking a new entry at the tail of a flow, and unlinking the head entry.\<close>

definition append_entry :: "ue_shaper \<Rightarrow> nat \<Rightarrow> shaper_entry \<Rightarrow> ue_shaper" where
  "append_entry ue i e =
     (upd_flow ue i (\<lambda>flow. flow \<lparr>entries := entries flow @ [e], queued_pkts := queued_pkts flow + 1,
        queued_bytes := queued_bytes flow + e_pkt_len e\<rparr>))
     \<lparr>ue_queued_pkts := ue_queued_pkts ue + 1\<rparr>"

definition unlink_head :: "ue_shaper \<Rightarrow> nat \<Rightarrow> ue_shaper" where
  "unlink_head ue i =
     (upd_flow ue i (\<lambda>flow. flow \<lparr>entries := tl (entries flow), queued_pkts := queued_pkts flow - 1,
        queued_bytes := queued_bytes flow - e_pkt_len (hd (entries flow))\<rparr>))
     \<lparr>ue_queued_pkts := ue_queued_pkts ue - 1\<rparr>"

subsection \<open>Invariant\<close>

text \<open>
  \<open>lists_ok\<close>: every flow is on the active list its field \<open>active_list\<close> names, once, and on no
  other, and the counts are the lengths. \<open>flow_ok\<close>: the counters of a flow describe its queue,
  which respects the per-flow limit, and a free slot is zeroed. A flow is \<open>settled\<close> when it is
  in use exactly if it holds packets and is on the list its head packet asks for.
  \<open>shaper_inv X\<close> says all this of a UE, except that the flows of \<open>X\<close> need not be settled; the
  operations of the scheduler take a flow out of the settled state and put it back.
\<close>

definition lists_ok :: "ue_shaper \<Rightarrow> bool" where
  "lists_ok u \<longleftrightarrow>
     (\<forall>l. distinct (active u l) \<and> active_count u l = of_nat (length (active u l)) \<and>
        set (active u l) = (if l = SHAPER_ACTIVE_NONE then {}
          else {i. i < length (flows u) \<and> active_list (flows u ! i) = l}))"

definition flow_ok :: "shaper_flow \<Rightarrow> bool" where
  "flow_ok f \<longleftrightarrow>
     queued_pkts f = of_nat (length (entries f)) \<and> length (entries f) \<le> SHAPER_MAX_PKTS_PER_FLOW \<and>
     queued_bytes f = sum_list (map e_pkt_len (entries f)) \<and> (\<not> in_use f \<longrightarrow> f = zero_flow)"

definition settled :: "shaper_flow \<Rightarrow> bool" where
  "settled f \<longleftrightarrow> (in_use f \<longleftrightarrow> entries f \<noteq> []) \<and> active_list f = shaper_active_list_for_head f"

definition backlog :: "ue_shaper \<Rightarrow> nat" where
  "backlog u = sum_list (map (\<lambda>f. length (entries f)) (flows u))"

definition keys_distinct :: "ue_shaper \<Rightarrow> bool" where
  "keys_distinct u \<longleftrightarrow> (\<forall>i<length (flows u). \<forall>j<length (flows u).
     in_use (flows u ! i) \<longrightarrow> in_use (flows u ! j) \<longrightarrow> f_key (flows u ! i) = f_key (flows u ! j) \<longrightarrow> i = j)"

definition shaper_inv :: "nat set \<Rightarrow> ue_shaper \<Rightarrow> bool" where
  "shaper_inv X u \<longleftrightarrow> length (flows u) = SHAPER_MAX_FLOWS_PER_UE \<and> lists_ok u \<and>
     (\<forall>i<length (flows u). flow_ok (flows u ! i) \<and> (i \<notin> X \<longrightarrow> settled (flows u ! i))) \<and>
     keys_distinct u \<and> ue_queued_pkts u = of_nat (backlog u) \<and> backlog u \<le> SHAPER_MAX_PKTS_PER_UE"

lemma shaper_inv_mono: "shaper_inv X u \<Longrightarrow> X \<subseteq> Y \<Longrightarrow> shaper_inv Y u"
  by (auto simp: shaper_inv_def)

lemma shaper_flow_key_equal_iff [simp]: "shaper_flow_key_equal a b \<longleftrightarrow> a = b"
  by (auto simp: shaper_flow_key_equal_def intro: shaper_flow_key.equality)

lemma zero_flow_ok [simp]: "flow_ok zero_flow" "settled zero_flow" "\<not> in_use zero_flow"
  "entries zero_flow = []" "active_list zero_flow = SHAPER_ACTIVE_NONE"
  by (simp_all add: flow_ok_def settled_def zero_flow_def shaper_active_list_for_head_def)

lemma zero_ue_shaper_inv: "shaper_inv {} zero_ue_shaper"
  by (auto simp: shaper_inv_def lists_ok_def zero_ue_shaper_def keys_distinct_def backlog_def
      map_replicate_const sum_list_replicate)

text \<open>A write to flow \<open>i\<close> that keeps the list it is on.\<close>

lemma sum_list_update_nat:
  fixes g :: "'a \<Rightarrow> nat"
  shows "i < length xs \<Longrightarrow>
    sum_list (map g (xs[i := x])) + g (xs ! i) = sum_list (map g xs) + g x"
  by (induction xs arbitrary: i) (auto split: nat.splits)

lemma upd_flow_simps [simp]:
  "flows (upd_flow u i f) = (flows u)[i := f (flows u ! i)]"
  "active (upd_flow u i f) = active u" "active_count (upd_flow u i f) = active_count u"
  "ue_queued_pkts (upd_flow u i f) = ue_queued_pkts u"
  "next_excess_list (upd_flow u i f) = next_excess_list u"
  by (simp_all add: upd_flow_def)

lemma lists_ok_upd:
  assumes "lists_ok u" "i < length (flows u)"
    and "active_list (f (flows u ! i)) = active_list (flows u ! i)"
  shows "lists_ok (upd_flow u i f)"
proof -
  have "active_list ((flows u)[i := f (flows u ! i)] ! j) = active_list (flows u ! j)" for j
    using assms by (cases "j = i") auto
  then show ?thesis using assms(1) by (simp add: lists_ok_def)
qed

lemma backlog_replace:
  assumes "i < length (flows u)" "flows v = (flows u)[i := f']"
  shows "backlog v + length (entries (flows u ! i)) = backlog u + length (entries f')"
  using sum_list_update_nat [OF assms(1), of "\<lambda>f. length (entries f)" f']
  by (simp add: backlog_def assms(2))

text \<open>A state that differs from a good one in flow \<open>i\<close> (and in its lists).\<close>

lemma shaper_inv_replace:
  assumes inv: "shaper_inv X u" and i: "i < SHAPER_MAX_FLOWS_PER_UE"
    and fl: "flows v = (flows u)[i := f']" and lists: "lists_ok v"
    and k: "in_use f' \<Longrightarrow> in_use (flows u ! i) \<and> f_key f' = f_key (flows u ! i)"
    and ok: "flow_ok f'" and st: "i \<notin> Y \<Longrightarrow> settled f'" and XY: "X \<subseteq> insert i Y"
    and q: "ue_queued_pkts v = of_nat (backlog v)" "backlog v \<le> SHAPER_MAX_PKTS_PER_UE"
  shows "shaper_inv Y v"
proof -
  have len: "length (flows u) = SHAPER_MAX_FLOWS_PER_UE" using inv by (simp add: shaper_inv_def)
  have "in_use (flows u ! j) \<and> f_key ((flows u)[i := f'] ! j) = f_key (flows u ! j)"
    if "j < length (flows u)" "in_use ((flows u)[i := f'] ! j)" for j
    using that k by (cases "j = i") auto
  then have "keys_distinct v"
    using inv unfolding shaper_inv_def keys_distinct_def fl length_list_update by metis
  moreover have "flow_ok (flows v ! j) \<and> (j \<notin> Y \<longrightarrow> settled (flows v ! j))"
    if "j < SHAPER_MAX_FLOWS_PER_UE" for j
    using that inv ok st XY len unfolding fl by (cases "j = i") (auto simp: shaper_inv_def)
  ultimately show ?thesis using lists q len by (simp add: shaper_inv_def fl)
qed

text \<open>The same when the queue of the flow is untouched.\<close>

lemma shaper_inv_same_queue:
  assumes inv: "shaper_inv X u" and i: "i < SHAPER_MAX_FLOWS_PER_UE"
    and fl: "flows v = (flows u)[i := f']" and "lists_ok v"
    and "in_use f' \<Longrightarrow> in_use (flows u ! i) \<and> f_key f' = f_key (flows u ! i)"
    and es: "entries f' = entries (flows u ! i)" and uq: "ue_queued_pkts v = ue_queued_pkts u"
    and "flow_ok f'" and "i \<notin> Y \<Longrightarrow> settled f'" and "X \<subseteq> insert i Y"
  shows "shaper_inv Y v"
proof -
  have "i < length (flows u)" using inv i by (simp add: shaper_inv_def)
  from backlog_replace [OF this fl] es have "backlog v = backlog u" by simp
  moreover have "ue_queued_pkts u = of_nat (backlog u)" "backlog u \<le> SHAPER_MAX_PKTS_PER_UE"
    using inv by (simp_all add: shaper_inv_def)
  ultimately show ?thesis
    using uq by (intro shaper_inv_replace [OF inv i fl assms(4,5,8,9,10)]) auto
qed

subsection \<open>The list operations keep it\<close>

lemma tailq_simps [simp]:
  "flows (tailq_remove u l i) = flows u" "ue_queued_pkts (tailq_remove u l i) = ue_queued_pkts u"
  "next_excess_list (tailq_remove u l i) = next_excess_list u"
  "active (tailq_remove u l i) = (active u)(l := remove1 i (active u l))"
  "active_count (tailq_remove u l i) = (active_count u)(l := active_count u l - 1)"
  "flows (tailq_insert_tail u l i) = flows u"
  "ue_queued_pkts (tailq_insert_tail u l i) = ue_queued_pkts u"
  "next_excess_list (tailq_insert_tail u l i) = next_excess_list u"
  "active (tailq_insert_tail u l i) = (active u)(l := active u l @ [i])"
  "active_count (tailq_insert_tail u l i) = (active_count u)(l := active_count u l + 1)"
  by (simp_all add: tailq_remove_def tailq_insert_tail_def)

lemma deactivate_simps [simp]:
  "ue_queued_pkts (shaper_deactivate_flow u i) = ue_queued_pkts u"
  "next_excess_list (shaper_deactivate_flow u i) = next_excess_list u"
  "length (flows (shaper_deactivate_flow u i)) = length (flows u)"
  by (simp_all add: shaper_deactivate_flow_def Let_def)

lemma deactivate_flows:
  assumes "i < length (flows u)"
  shows "flows (shaper_deactivate_flow u i) =
    (flows u)[i := (flows u ! i) \<lparr>active_list := SHAPER_ACTIVE_NONE\<rparr>]"
proof (cases "active_list (flows u ! i) = SHAPER_ACTIVE_NONE")
  case True
  then have "(flows u ! i) \<lparr>active_list := SHAPER_ACTIVE_NONE\<rparr> = flows u ! i" by simp
  then have "(flows u)[i := (flows u ! i) \<lparr>active_list := SHAPER_ACTIVE_NONE\<rparr>] = flows u"
    by (metis list_update_id)
  then show ?thesis using True by (simp only: shaper_deactivate_flow_def Let_def simp_thms if_True)
qed (simp add: shaper_deactivate_flow_def)

lemma lists_ok_deactivate:
  assumes "lists_ok u" "i < length (flows u)"
  shows "lists_ok (shaper_deactivate_flow u i)"
proof (cases "active_list (flows u ! i) = SHAPER_ACTIVE_NONE")
  case True
  then show ?thesis using assms by (simp add: shaper_deactivate_flow_def)
next
  case False
  let ?c = "active_list (flows u ! i)"
  let ?F = "(flows u)[i := (flows u ! i) \<lparr>active_list := SHAPER_ACTIVE_NONE\<rparr>]"
  have mem: "i \<in> set (active u ?c)" and dis: "distinct (active u ?c)"
    and cnt: "active_count u ?c = of_nat (length (active u ?c))"
    using assms False by (auto simp: lists_ok_def)
  have "length (active u ?c) = Suc (length (remove1 i (active u ?c)))"
    using mem length_pos_if_in_set [OF mem] by (simp add: length_remove1)
  then have cnt': "active_count u ?c - 1 = of_nat (length (remove1 i (active u ?c)))"
    using cnt by simp
  have al: "active_list (?F ! j) = (if j = i then SHAPER_ACTIVE_NONE else active_list (flows u ! j))"
    for j using assms(2) by (cases "j = i") auto
  show ?thesis
    using assms(1) False dis cnt'
    unfolding lists_ok_def shaper_deactivate_flow_def Let_def
    by (auto simp: al set_remove1_eq split: if_splits)
qed

lemma lists_ok_insert:
  assumes "lists_ok u" "i < length (flows u)" "active_list (flows u ! i) = SHAPER_ACTIVE_NONE"
    and "l \<noteq> SHAPER_ACTIVE_NONE"
  shows "lists_ok (upd_flow (tailq_insert_tail u l i) i
    (\<lambda>f. f \<lparr>active_list := l, last_active_tsc := now\<rparr>))"
proof -
  let ?F = "(flows u)[i := (flows u ! i) \<lparr>active_list := l, last_active_tsc := now\<rparr>]"
  have al: "active_list (?F ! j) = (if j = i then l else active_list (flows u ! j))" for j
    using assms(2) by (cases "j = i") auto
  have "i \<notin> set (active u l)" using assms by (auto simp: lists_ok_def)
  then show ?thesis
    using assms unfolding lists_ok_def by (auto simp: al split: if_splits)
qed

lemma deactivate_inv [upf_inv]:
  assumes inv: "shaper_inv X u" and i: "i < SHAPER_MAX_FLOWS_PER_UE" and "in_use (flows u ! i)"
  shows "shaper_inv (insert i X) (shaper_deactivate_flow u i)"
proof -
  have len: "i < length (flows u)" and ok: "flow_ok (flows u ! i)"
    using inv i by (auto simp: shaper_inv_def)
  show ?thesis
    using inv ok assms(3)
    by (intro shaper_inv_same_queue [OF inv i deactivate_flows [OF len]] lists_ok_deactivate len)
      (auto simp: shaper_inv_def flow_ok_def)
qed

lemma activate_eq:
  assumes "i < length (flows u)" "shaper_active_list_for_head (flows u ! i) \<noteq> SHAPER_ACTIVE_NONE"
  shows "shaper_activate_flow now u i =
    upd_flow (tailq_insert_tail (shaper_deactivate_flow u i)
      (shaper_active_list_for_head (flows u ! i)) i) i
      (\<lambda>f. f \<lparr>active_list := shaper_active_list_for_head (flows u ! i), last_active_tsc := now\<rparr>)"
  using assms
  by (simp add: shaper_activate_flow_def shaper_deactivate_flow_def Let_def upd_flow_def
      tailq_remove_def tailq_insert_tail_def)

lemma activate_flows:
  assumes "i < length (flows u)" "entries (flows u ! i) \<noteq> []"
  shows "flows (shaper_activate_flow now u i) = (flows u)[i := (flows u ! i)
    \<lparr>active_list := shaper_active_list_for_head (flows u ! i), last_active_tsc := now\<rparr>]"
  using assms
  by (subst activate_eq) (auto simp: shaper_active_list_for_head_def deactivate_flows)

lemma activate_simps [simp]:
  "ue_queued_pkts (shaper_activate_flow now u i) = ue_queued_pkts u"
  "next_excess_list (shaper_activate_flow now u i) = next_excess_list u"
  "length (flows (shaper_activate_flow now u i)) = length (flows u)"
  by (simp_all add: shaper_activate_flow_def Let_def)

lemma for_head_cong:
  "entries f = entries g \<Longrightarrow> has_gbr f = has_gbr g \<Longrightarrow> f_key f = f_key g \<Longrightarrow>
   shaper_active_list_for_head f = shaper_active_list_for_head g"
  by (simp add: shaper_active_list_for_head_def)

lemma activate_inv [upf_inv]:
  assumes inv: "shaper_inv X u" and i: "i < SHAPER_MAX_FLOWS_PER_UE"
    and "in_use (flows u ! i)" "entries (flows u ! i) \<noteq> []"
  shows "shaper_inv (X - {i}) (shaper_activate_flow now u i)"
proof -
  let ?l = "shaper_active_list_for_head (flows u ! i)"
  let ?f = "(flows u ! i) \<lparr>active_list := ?l, last_active_tsc := now\<rparr>"
  have len: "i < length (flows u)" and ok: "flow_ok (flows u ! i)" and lists: "lists_ok u"
    using inv i by (auto simp: shaper_inv_def)
  have l: "?l \<noteq> SHAPER_ACTIVE_NONE" using assms(4) by (simp add: shaper_active_list_for_head_def)
  have "lists_ok (shaper_activate_flow now u i)"
    using len l lists_ok_deactivate [OF lists len]
    by (subst activate_eq) (auto intro!: lists_ok_insert simp: deactivate_flows)
  moreover have "settled ?f"
    using assms(3,4) for_head_cong [of ?f "flows u ! i"] by (simp add: settled_def)
  ultimately show ?thesis
    using ok assms(3)
    by (intro shaper_inv_same_queue [OF inv i activate_flows [OF len assms(4)]])
      (auto simp: flow_ok_def)
qed

lemma policy_inv [upf_inv]:
  assumes inv: "shaper_inv X u" and i: "i < SHAPER_MAX_FLOWS_PER_UE" "in_use (flows u ! i)" "i \<notin> X"
  shows "shaper_inv X (shaper_update_flow_policy now u i gbr qid)"
proof (cases "has_gbr (flows u ! i) = gbr \<and> qer_id (flows u ! i) = qid")
  case True
  then show ?thesis using inv by (simp add: shaper_update_flow_policy_def)
next
  case False
  have len: "i < length (flows u)" and st: "settled (flows u ! i)"
    using inv i by (auto simp: shaper_inv_def)
  then have es: "entries (flows u ! i) \<noteq> []" and act: "active_list (flows u ! i) \<noteq> SHAPER_ACTIVE_NONE"
    using i(2) by (auto simp: settled_def shaper_active_list_for_head_def)
  let ?d = "shaper_deactivate_flow u i"
  let ?v = "upd_flow ?d i (\<lambda>flow. flow \<lparr>has_gbr := gbr, qer_id := qid\<rparr>)"
  have d: "shaper_inv (insert i X) ?d" by (rule deactivate_inv [OF inv i(1,2)])
  have fi: "flows ?d ! i = (flows u ! i) \<lparr>active_list := SHAPER_ACTIVE_NONE\<rparr>"
    using len by (simp add: deactivate_flows)
  have dlen: "i < length (flows ?d)" using len by simp
  have "flow_ok (flows ?d ! i)" "lists_ok ?d" using d i(1) by (auto simp: shaper_inv_def)
  then have v: "shaper_inv (insert i X) ?v"
    using fi i(2) dlen by (intro shaper_inv_same_queue [OF d i(1) upd_flow_simps(1)] lists_ok_upd) (auto simp: flow_ok_def)
  have "shaper_inv (insert i X - {i}) (shaper_activate_flow now ?v i)"
    using fi dlen i(2) es by (intro activate_inv [OF v i(1)]) simp_all
  then show ?thesis
    using act i(3) unfolding shaper_update_flow_policy_def Let_def if_not_P [OF False] by simp
qed

lemma policy_flow:
  assumes "i < length (flows u)"
  shows "entries (flows (shaper_update_flow_policy now u i gbr qid) ! j) = entries (flows u ! j)"
    and "in_use (flows (shaper_update_flow_policy now u i gbr qid) ! j) = in_use (flows u ! j)"
    and "f_key (flows (shaper_update_flow_policy now u i gbr qid) ! j) = f_key (flows u ! j)"
    and "queued_pkts (flows (shaper_update_flow_policy now u i gbr qid) ! j) = queued_pkts (flows u ! j)"
    and "length (flows (shaper_update_flow_policy now u i gbr qid)) = length (flows u)"
    and "ue_queued_pkts (shaper_update_flow_policy now u i gbr qid) = ue_queued_pkts u"
  using assms
  by (cases "j = i"; simp add: shaper_update_flow_policy_def shaper_activate_flow_def
      shaper_deactivate_flow_def Let_def)+

lemma release_inv [upf_inv]:
  assumes inv: "shaper_inv X u" and i: "i < SHAPER_MAX_FLOWS_PER_UE" "in_use (flows u ! i)"
    and es: "entries (flows u ! i) = []"
  shows "shaper_inv (X - {i}) (shaper_release_empty_flow u i)"
proof -
  let ?d = "shaper_deactivate_flow u i"
  have d: "shaper_inv (insert i X) ?d" by (rule deactivate_inv [OF inv i])
  have len: "i < length (flows u)" using inv i by (auto simp: shaper_inv_def)
  then have fi: "flows ?d ! i = (flows u ! i) \<lparr>active_list := SHAPER_ACTIVE_NONE\<rparr>"
    by (simp add: deactivate_flows)
  show ?thesis
    unfolding shaper_release_empty_flow_def
    using fi es d len
    by (intro shaper_inv_same_queue [OF d i(1) upd_flow_simps(1)] lists_ok_upd) (auto simp: shaper_inv_def)
qed

lemma append_inv [upf_inv]:
  assumes inv: "shaper_inv X u" and i: "i < SHAPER_MAX_FLOWS_PER_UE" "in_use (flows u ! i)"
    and room: "length (entries (flows u ! i)) < SHAPER_MAX_PKTS_PER_FLOW"
      "backlog u < SHAPER_MAX_PKTS_PER_UE"
    and Y: "X \<subseteq> insert i Y" "i \<notin> Y \<Longrightarrow> entries (flows u ! i) \<noteq> [] \<and> i \<notin> X"
  shows "shaper_inv Y (append_entry u i e)"
proof -
  let ?f = "(flows u ! i) \<lparr>entries := entries (flows u ! i) @ [e],
     queued_pkts := queued_pkts (flows u ! i) + 1,
     queued_bytes := queued_bytes (flows u ! i) + e_pkt_len e\<rparr>"
  let ?v = "append_entry u i e"
  have len: "i < length (flows u)" and ok: "flow_ok (flows u ! i)"
    and q: "ue_queued_pkts u = of_nat (backlog u)"
    using inv i by (auto simp: shaper_inv_def)
  have fl: "flows ?v = (flows u)[i := ?f]" by (simp add: append_entry_def)
  have "backlog ?v = backlog u + 1" using backlog_replace [OF len fl] by simp
  moreover have "lists_ok ?v"
    using lists_ok_upd [of u i "\<lambda>_. ?f"] inv len by (simp add: lists_ok_def append_entry_def shaper_inv_def)
  moreover have "flow_ok ?f" using ok room(1) i(2) by (simp add: flow_ok_def)
  moreover have "settled ?f" if "i \<notin> Y"
  proof -
    have "settled (flows u ! i)" "entries (flows u ! i) \<noteq> []"
      using inv Y(2) [OF that] i by (auto simp: shaper_inv_def)
    then show ?thesis by (simp add: settled_def shaper_active_list_for_head_def)
  qed
  ultimately show ?thesis
    using room(2) q Y(1) by (intro shaper_inv_replace [OF inv i(1) fl]) (auto simp: append_entry_def)
qed

lemma unlink_inv [upf_inv]:
  assumes inv: "shaper_inv X u" and i: "i < SHAPER_MAX_FLOWS_PER_UE" "in_use (flows u ! i)"
    and es: "entries (flows u ! i) = e # es"
  shows "shaper_inv (insert i X) (unlink_head u i)"
proof -
  let ?f = "(flows u ! i) \<lparr>entries := es, queued_pkts := queued_pkts (flows u ! i) - 1,
     queued_bytes := queued_bytes (flows u ! i) - e_pkt_len e\<rparr>"
  let ?v = "unlink_head u i"
  have len: "i < length (flows u)" and ok: "flow_ok (flows u ! i)"
    and q: "ue_queued_pkts u = of_nat (backlog u)" "backlog u \<le> SHAPER_MAX_PKTS_PER_UE"
    using inv i by (auto simp: shaper_inv_def)
  have fl: "flows ?v = (flows u)[i := ?f]" using es by (simp add: unlink_head_def)
  have bl: "backlog u = Suc (backlog ?v)" using backlog_replace [OF len fl] es by simp
  moreover have "lists_ok ?v"
    using lists_ok_upd [of u i "\<lambda>_. ?f"] inv len es
    by (simp add: lists_ok_def unlink_head_def shaper_inv_def)
  moreover have "flow_ok ?f" using ok es i(2) by (simp add: flow_ok_def)
  moreover have "ue_queued_pkts ?v = of_nat (backlog ?v)"
  proof -
    have "ue_queued_pkts ?v = ue_queued_pkts u - 1" by (simp add: unlink_head_def)
    then show ?thesis unfolding q bl by simp
  qed
  ultimately show ?thesis
    using q i(2) by (intro shaper_inv_replace [OF inv i(1) fl]) auto
qed

subsection \<open>Flow lookup\<close>

lemma set_probe_order: "set (probe_order k) = {..<SHAPER_MAX_FLOWS_PER_UE}"
proof -
  let ?st = "unat (shaper_flow_hash k mod 64)"
  have "i \<in> set (probe_order k)" if i: "i < SHAPER_MAX_FLOWS_PER_UE" for i
  proof -
    obtain j where "j < SHAPER_MAX_FLOWS_PER_UE" "walk SHAPER_MAX_FLOWS_PER_UE ?st j = i"
      using walk_surj [OF i] by blast
    then show ?thesis
      unfolding probe_order_def set_map set_upt by (intro image_eqI [of _ _ j]) (simp_all add: walk_def)
  qed
  then show ?thesis by (auto simp: probe_order_def)
qed

lemma lookup_probe_hit:
  "lookup_probe fs k xs fr = (Some i, r) \<Longrightarrow> i \<in> set xs \<and> in_use (fs ! i) \<and> f_key (fs ! i) = k"
  by (induction xs arbitrary: fr) (auto split: if_splits)

lemma lookup_probe_miss:
  "lookup_probe fs k xs fr = (None, r) \<Longrightarrow> \<forall>i\<in>set xs. in_use (fs ! i) \<longrightarrow> f_key (fs ! i) \<noteq> k"
  by (induction xs arbitrary: fr) (auto split: if_splits)

lemma lookup_probe_free:
  "lookup_probe fs k xs fr = (None, r) \<Longrightarrow>
   (case fr of Some j \<Rightarrow> r = Some j
    | None \<Rightarrow> (case r of Some j \<Rightarrow> j \<in> set xs \<and> \<not> in_use (fs ! j)
              | None \<Rightarrow> \<forall>i\<in>set xs. in_use (fs ! i)))"
proof (induction xs arbitrary: fr)
  case (Cons x xs)
  then show ?case
    by (cases "in_use (fs ! x)"; cases fr) (auto split: if_splits option.splits dest!: Cons.IH)
qed (auto split: option.splits)

lemma lookup_cases:
  assumes "shaper_lookup_flow u k create = (v, r)"
  obtains (found) i where "r = Some i" "v = u" "i < SHAPER_MAX_FLOWS_PER_UE"
      "in_use (flows u ! i)" "f_key (flows u ! i) = k"
  | (fresh) i where "create" "r = Some i" "i < SHAPER_MAX_FLOWS_PER_UE" "\<not> in_use (flows u ! i)"
      "\<And>j. j < SHAPER_MAX_FLOWS_PER_UE \<Longrightarrow> in_use (flows u ! j) \<Longrightarrow> f_key (flows u ! j) \<noteq> k"
      "v = upd_flow u i (\<lambda>_. zero_flow \<lparr>in_use := True, f_key := k, active_list := SHAPER_ACTIVE_NONE\<rparr>)"
  | (none) "r = None" "v = u"
      "\<And>j. j < SHAPER_MAX_FLOWS_PER_UE \<Longrightarrow> in_use (flows u ! j) \<Longrightarrow> f_key (flows u ! j) \<noteq> k"
      "create \<Longrightarrow> \<forall>j<SHAPER_MAX_FLOWS_PER_UE. in_use (flows u ! j)"
proof (cases "lookup_probe (flows u) k (probe_order k) None")
  case (Pair a b)
  show thesis
  proof (cases a)
    case (Some i)
    then show thesis
      using assms Pair lookup_probe_hit [of "flows u" k "probe_order k" None i b] found
      by (auto simp: shaper_lookup_flow_def set_probe_order)
  next
    case None
    note miss = lookup_probe_miss [of "flows u" k "probe_order k" None b]
      and free = lookup_probe_free [of "flows u" k "probe_order k" None b]
    have nokey: "f_key (flows u ! j) \<noteq> k" if "j < SHAPER_MAX_FLOWS_PER_UE" "in_use (flows u ! j)" for j
      using miss Pair None that by (auto simp: set_probe_order)
    show thesis
    proof (cases b)
      case None': None
      have "r = None" "v = u"
        using assms by (simp_all add: shaper_lookup_flow_def Pair None None')
      moreover have "\<forall>j<SHAPER_MAX_FLOWS_PER_UE. in_use (flows u ! j)"
        using free Pair None None' by (simp add: set_probe_order)
      ultimately show thesis using nokey by (intro none) blast+
    next
      case Some': (Some i)
      have i: "i < SHAPER_MAX_FLOWS_PER_UE" "\<not> in_use (flows u ! i)"
        using free Pair None Some' by (simp_all add: set_probe_order)
      show thesis
      proof (cases create)
        case True
        have "r = Some i" "v = upd_flow u i
            (\<lambda>_. zero_flow \<lparr>in_use := True, f_key := k, active_list := SHAPER_ACTIVE_NONE\<rparr>)"
          using assms True by (simp_all add: shaper_lookup_flow_def Pair None Some' upd_flow_def)
        then show thesis using True i nokey by (intro fresh) blast+
      next
        case False
        have "r = None" "v = u"
          using assms False by (simp_all add: shaper_lookup_flow_def Pair None Some')
        then show thesis using False nokey by (intro none) blast+
      qed
    qed
  qed
qed

subsection \<open>The queues as a map from flow key to FIFO\<close>

definition flow_queue :: "ue_shaper \<Rightarrow> shaper_flow_key \<Rightarrow> shaper_entry list" where
  "flow_queue u k =
     (case find_index (\<lambda>f. in_use f \<and> f_key f = k) (flows u) of
        None \<Rightarrow> [] | Some i \<Rightarrow> entries (flows u ! i))"

lemma flow_queue_at:
  assumes "keys_distinct u" "i < length (flows u)" "in_use (flows u ! i)"
  shows "flow_queue u (f_key (flows u ! i)) = entries (flows u ! i)"
proof -
  obtain j where j: "find_index (\<lambda>f. in_use f \<and> f_key f = f_key (flows u ! i)) (flows u) = Some j"
    using find_index_nth [of i "flows u"] assms(2,3) by (metis (mono_tags, lifting))
  then have "j = i" using find_index_SomeD [OF j] assms unfolding keys_distinct_def by blast
  then show ?thesis using j by (simp add: flow_queue_def)
qed

lemma flow_queue_none:
  assumes "\<And>i. i < length (flows u) \<Longrightarrow> in_use (flows u ! i) \<Longrightarrow> f_key (flows u ! i) \<noteq> k"
  shows "flow_queue u k = []"
proof -
  have "find_index (\<lambda>f. in_use f \<and> f_key f = k) (flows u) = None"
    using assms unfolding find_index_None by (metis in_set_conv_nth)
  then show ?thesis by (simp add: flow_queue_def)
qed

text \<open>Two states that agree on the queues of their flows.\<close>

lemma flow_queue_cong:
  assumes "keys_distinct u" "keys_distinct v" "length (flows v) = length (flows u)"
    and "\<And>i. i < length (flows u) \<Longrightarrow> in_use (flows u ! i) = in_use (flows v ! i) \<and>
      (in_use (flows u ! i) \<longrightarrow> f_key (flows u ! i) = f_key (flows v ! i) \<and>
         entries (flows v ! i) = entries (flows u ! i))"
  shows "flow_queue v = flow_queue u"
proof
  fix k
  show "flow_queue v k = flow_queue u k"
  proof (cases "\<exists>i<length (flows u). in_use (flows u ! i) \<and> f_key (flows u ! i) = k")
    case True
    then show ?thesis using flow_queue_at assms by metis
  next
    case False
    then show ?thesis using flow_queue_none [of u k] flow_queue_none [of v k] assms(3,4) by metis
  qed
qed

lemma flow_queue_replace:
  assumes kd: "keys_distinct u" "keys_distinct v" and i: "i < length (flows u)" "in_use (flows u ! i)"
    and fl: "flows v = (flows u)[i := f']" and f': "in_use f'" "f_key f' = f_key (flows u ! i)"
  shows "flow_queue v = (flow_queue u)(f_key (flows u ! i) := entries f')"
proof
  fix k
  have at: "in_use (flows v ! j) = in_use (flows u ! j) \<and> f_key (flows v ! j) = f_key (flows u ! j) \<and>
      entries (flows v ! j) = (if j = i then entries f' else entries (flows u ! j))"
    for j using i f' fl by (cases "j = i") auto
  show "flow_queue v k = ((flow_queue u)(f_key (flows u ! i) := entries f')) k"
  proof (cases "\<exists>j<length (flows u). in_use (flows u ! j) \<and> f_key (flows u ! j) = k")
    case True
    then obtain j where j: "j < length (flows u)" "in_use (flows u ! j)" "f_key (flows u ! j) = k"
      by blast
    then have "flow_queue v k = entries (flows v ! j)"
      using flow_queue_at [OF kd(2), of j] at fl by simp
    moreover have "f_key (flows u ! i) = k \<longleftrightarrow> j = i"
      using kd(1) i j unfolding keys_distinct_def by metis
    ultimately show ?thesis using flow_queue_at [OF kd(1) j(1,2)] j(3) at by auto
  next
    case False
    then have "f_key (flows u ! i) \<noteq> k" using i by blast
    moreover have "flow_queue v k = []" using False at fl by (intro flow_queue_none) auto
    moreover have "flow_queue u k = []" using False by (intro flow_queue_none) auto
    ultimately show ?thesis by simp
  qed
qed

end
