(* ===== verification/Upf_Rules.thy ===== *)
theory Upf_Rules
  imports Upf_Prelude
begin

text \<open>
  The rule records the control plane installs and the data plane reads:
  \<^verbatim>\<open>UPDK_PDR\<close>, \<^verbatim>\<open>UPDK_FAR\<close> and \<^verbatim>\<open>UPDK_QER\<close> of \<^verbatim>\<open>onvm/updk/updk/rule_*.h\<close>, field
  by field. One-bit presence flags are booleans, character arrays are strings, addresses keep
  the width of their C type and the pointers of a PDR to its FAR and its QERs are options:
  the data plane reads through them and never writes. Empty C structs are \<^typ>\<open>unit\<close>. Field
  names carry the name of their struct as a prefix.
\<close>

subsection \<open>QoS enforcement rules\<close>

record UPDK_Bitrate =
  rate_ul :: u64
  rate_dl :: u64

record UPDK_PacketRate =
  prate_ulpr :: bool
  prate_dlpr :: bool
  uplinkTimeUnit :: u8
  maximumUplinkPacketRate :: u16
  downlinkTimeUnit :: u8
  maximumDownlinkPacketRate :: u16

record UPDK_DLFlowLevelMarking =
  mark_ttc :: bool
  mark_sci :: bool
  mark_tosTrafficClass :: u16
  serviceClassIndicator :: u16

record qer_flags =
  qerf_seid :: bool
  qerf_qerId :: bool
  qerf_qerCorrelationId :: bool
  qerf_gateStatus :: bool
  qerf_maximumBitrate :: bool
  qerf_guaranteedBitrate :: bool
  qerf_packetRate :: bool
  qerf_dlFlowLevelMarking :: bool
  qerf_qosFlowIdentifier :: bool
  qerf_reflectiveQos :: bool

record UPDK_QER =
  qer_flags :: qer_flags
  qer_seid :: u64
  qer_qerId :: u32
  qer_qerCorrelationId :: u32
  qer_gateStatus :: u8
  qer_maximumBitrate :: UPDK_Bitrate
  qer_guaranteedBitrate :: UPDK_Bitrate
  qer_packetRate :: UPDK_PacketRate
  qer_dlFlowLevelMarking :: UPDK_DLFlowLevelMarking
  qer_qosFlowIdentifier :: u8
  qer_reflectiveQos :: u8

definition QERGetQFI :: "UPDK_QER \<Rightarrow> u8" where
  "QERGetQFI qer = qer_qosFlowIdentifier qer AND 0x3F"

definition QERGetULGate :: "UPDK_QER \<Rightarrow> u8" where
  "QERGetULGate qer = drop_bit 2 (qer_gateStatus qer AND 0x0F)"

definition QERGetDLGate :: "UPDK_QER \<Rightarrow> u8" where
  "QERGetDLGate qer = qer_gateStatus qer AND 0x03"

subsection \<open>Forwarding action rules\<close>

record UPDK_RedirectInformation =
  redirectAddressType :: u8
  redirectServerAddressLength :: u16
  redirectServerAddress :: string

abbreviation (input) OUTER_HEADER_CREATION_GTPU_UDP_IPV4 :: u16 where
  "OUTER_HEADER_CREATION_GTPU_UDP_IPV4 \<equiv> 1"

record UPDK_OuterHeaderCreation =
  ohc_description :: u16
  ohc_teid :: u32
  ohc_ipv4 :: u32
  ohc_ipv6 :: u128
  ohc_port :: u16

record UPDK_ForwardingPolicy =
  forwardingPolicyIdentifierLength :: u8
  forwardingPolicyIdentifier :: string

record fp_flags =
  fpf_destinationInterface :: bool
  fpf_networkInstance :: bool
  fpf_redirectInformation :: bool
  fpf_outerHeaderCreation :: bool
  fpf_transportLevelMarking :: bool
  fpf_forwardingPolicy :: bool
  fpf_headerEnrichment :: bool
  fpf_trafficEndpointId :: bool
  fpf_proxying :: bool

record UPDK_ForwardingParameters =
  fp_flags :: fp_flags
  fp_destinationInterface :: u8
  fp_networkInstance :: string
  fp_redirectInformation :: UPDK_RedirectInformation
  fp_outerHeaderCreation :: UPDK_OuterHeaderCreation
  fp_transportLevelMarking :: u16
  fp_forwardingPolicy :: UPDK_ForwardingPolicy
  fp_headerEnrichment :: unit
  fp_trafficEndpointId :: u8
  fp_proxying :: u8

text \<open>The bits of \<^verbatim>\<open>applyAction\<close>.\<close>

abbreviation (input) UPDK_FAR_APPLY_ACTION_DROP :: u8 where "UPDK_FAR_APPLY_ACTION_DROP \<equiv> 1"
abbreviation (input) UPDK_FAR_APPLY_ACTION_FORW :: u8 where "UPDK_FAR_APPLY_ACTION_FORW \<equiv> 2"
abbreviation (input) UPDK_FAR_APPLY_ACTION_BUFF :: u8 where "UPDK_FAR_APPLY_ACTION_BUFF \<equiv> 4"
abbreviation (input) UPDK_FAR_APPLY_ACTION_NOCP :: u8 where "UPDK_FAR_APPLY_ACTION_NOCP \<equiv> 8"
abbreviation (input) UPDK_FAR_APPLY_ACTION_DUPL :: u8 where "UPDK_FAR_APPLY_ACTION_DUPL \<equiv> 16"

record far_flags =
  farf_seid :: bool
  farf_farId :: bool
  farf_applyAction :: bool
  farf_forwardingParameters :: bool
  farf_barId :: bool

record UPDK_FAR =
  far_flags :: far_flags
  far_seid :: u64
  far_farId :: u32
  far_applyAction :: u8
  far_forwardingParameters :: UPDK_ForwardingParameters
  far_duplicatingParameters :: unit
  far_barId :: u8

subsection \<open>Packet detection rules\<close>

record UPDK_UEIPAddress =
  ueip_v6 :: bool
  ueip_v4 :: bool
  ueip_sd :: bool
  ueip_ipv6d :: bool
  ueip_ipv4 :: u32
  ueip_ipv6 :: u128
  ueip_ipv6PrefixDelegationBit :: u8

record UPDK_FTEID =
  fteid_v4 :: bool
  fteid_v6 :: bool
  fteid_ch :: bool
  fteid_chid :: bool
  fteid_teid :: u32
  fteid_ipv4 :: u32
  fteid_ipv6 :: u128
  fteid_chooseId :: u8

record UPDK_SDFFilter =
  sdf_fd :: bool
  sdf_ttc :: bool
  sdf_spi :: bool
  sdf_fl :: bool
  sdf_bid :: bool
  sdf_lenOfFlowDescription :: u16
  sdf_flowDescription :: string
  sdf_tosTrafficClass :: u16
  sdf_securityParameterIndex :: u32
  sdf_flowLabel :: string
  sdf_sdfFilterId :: u32

record pdi_flags =
  pdif_sourceInterface :: bool
  pdif_fTeid :: bool
  pdif_networkInstance :: bool
  pdif_ueIpAddress :: bool
  pdif_trafficEndpointId :: bool
  pdif_sdfFilter :: bool
  pdif_applicationId :: bool
  pdif_ethernetPduSessionInformation :: bool
  pdif_ethernetPacketFilter :: bool
  pdif_qfi :: bool
  pdif_framedRoute :: bool
  pdif_framedRouting :: bool
  pdif_framedIpv6Route :: bool

record UPDK_PDI =
  pdi_flags :: pdi_flags
  pdi_sourceInterface :: u8
  pdi_fTeid :: UPDK_FTEID
  pdi_networkInstance :: string
  pdi_ueIpAddress :: UPDK_UEIPAddress
  pdi_trafficEndpointId :: u8
  pdi_sdfFilter :: UPDK_SDFFilter
  pdi_applicationId :: string
  pdi_ethernetPduSessionInformation :: unit
  pdi_ethernetPacketFilter :: unit
  pdi_qfi :: u8
  pdi_framedRoute :: string
  pdi_framedRouting :: u32
  pdi_framedIpv6Route :: string

abbreviation (input) OUTER_HEADER_REMOVAL_GTP_IP4 :: u8 where "OUTER_HEADER_REMOVAL_GTP_IP4 \<equiv> 0"

record pdr_flags =
  pdrf_seid :: bool
  pdrf_pdrId :: bool
  pdrf_precedence :: bool
  pdrf_pdi :: bool
  pdrf_outerHeaderRemoval :: bool
  pdrf_farId :: bool
  pdrf_urrId :: bool
  pdrf_qerId :: bool
  pdrf_activatePredefinedRules :: bool
  pdrf_deactivatePredefinedRules :: bool

record UPDK_PDR =
  pdr_flags :: pdr_flags
  pdr_seid :: u64
  pdr_pdrId :: u16
  pdr_precedence :: u32
  pdr_pdi :: UPDK_PDI
  pdr_outerHeaderRemoval :: u8
  pdr_farId :: u32
  pdr_far :: "UPDK_FAR option"
  pdr_qer :: "UPDK_QER option"
  pdr_qers :: "UPDK_QER option list"
  pdr_qer_count :: u8
  pdr_session_index :: int
  pdr_meter_key :: u32
  pdr_fd_target :: u32
  pdr_has_fd :: u8
  pdr_fd_to_net :: u32
  pdr_fd_to_mask :: u32
  pdr_has_fd_to :: u8
  pdr_urrId :: "u32 list"
  pdr_qerId :: "u32 list"
  pdr_activatePredefinedRules :: string
  pdr_deactivatePredefinedRules :: string

text \<open>
  \<^verbatim>\<open>source_interface_t\<close> of the classifier interface. The PDI stores it as an 8-bit number.
\<close>

abbreviation (input) SRC_IF_ACCESS :: u8 where "SRC_IF_ACCESS \<equiv> 0"
abbreviation (input) SRC_IF_CORE :: u8 where "SRC_IF_CORE \<equiv> 1"
abbreviation (input) SRC_IF_SGI_LAN :: u8 where "SRC_IF_SGI_LAN \<equiv> 2"
abbreviation (input) SRC_IF_CP_FUNC :: u8 where "SRC_IF_CP_FUNC \<equiv> 3"
abbreviation (input) SRC_IF_LI_FUNC :: u8 where "SRC_IF_LI_FUNC \<equiv> 4"

text \<open>The packet view handed to the classifier (\<^verbatim>\<open>ps_packet_t\<close>).\<close>

record ps_packet_t =
  ps_ue_ip :: u32
  ps_src_ip :: u32
  ps_dst_ip :: u32
  ps_src_port :: u16
  ps_dst_port :: u16
  ps_proto :: u8
  ps_tos_tc :: u8
  ps_spi :: u32
  ps_flow_label :: u32
  ps_teid :: u32
  ps_source_if :: u32
  ps_ni_hash :: u32
  ps_qfi :: u8
  ps_is_uplink :: u8

text \<open>The ports and local addresses of \<^verbatim>\<open>upf_u_config.c\<close>; addresses are in network byte order.\<close>

record upf_ports =
  g_n3_port :: u16
  g_n6_port :: u16
  g_sgi_port :: u16
  g_n3_ip_be :: u32
  g_n6_ip_be :: u32

subsection \<open>Empty rules\<close>

text \<open>Rules with every field zero, as \<^verbatim>\<open>memset\<close> leaves them; concrete examples start from these.\<close>

definition zero_qer :: UPDK_QER where
  "zero_qer = \<lparr>qer_flags = \<lparr>qerf_seid = False, qerf_qerId = False, qerf_qerCorrelationId = False,
       qerf_gateStatus = False, qerf_maximumBitrate = False, qerf_guaranteedBitrate = False,
       qerf_packetRate = False, qerf_dlFlowLevelMarking = False, qerf_qosFlowIdentifier = False,
       qerf_reflectiveQos = False\<rparr>,
     qer_seid = 0, qer_qerId = 0, qer_qerCorrelationId = 0, qer_gateStatus = 0,
     qer_maximumBitrate = \<lparr>rate_ul = 0, rate_dl = 0\<rparr>,
     qer_guaranteedBitrate = \<lparr>rate_ul = 0, rate_dl = 0\<rparr>,
     qer_packetRate = \<lparr>prate_ulpr = False, prate_dlpr = False, uplinkTimeUnit = 0,
       maximumUplinkPacketRate = 0, downlinkTimeUnit = 0, maximumDownlinkPacketRate = 0\<rparr>,
     qer_dlFlowLevelMarking = \<lparr>mark_ttc = False, mark_sci = False, mark_tosTrafficClass = 0,
       serviceClassIndicator = 0\<rparr>,
     qer_qosFlowIdentifier = 0, qer_reflectiveQos = 0\<rparr>"

definition zero_far :: UPDK_FAR where
  "zero_far = \<lparr>far_flags = \<lparr>farf_seid = False, farf_farId = False, farf_applyAction = False,
       farf_forwardingParameters = False, farf_barId = False\<rparr>,
     far_seid = 0, far_farId = 0, far_applyAction = 0,
     far_forwardingParameters = \<lparr>fp_flags = \<lparr>fpf_destinationInterface = False,
         fpf_networkInstance = False, fpf_redirectInformation = False,
         fpf_outerHeaderCreation = False, fpf_transportLevelMarking = False,
         fpf_forwardingPolicy = False, fpf_headerEnrichment = False,
         fpf_trafficEndpointId = False, fpf_proxying = False\<rparr>,
       fp_destinationInterface = 0, fp_networkInstance = '''',
       fp_redirectInformation = \<lparr>redirectAddressType = 0, redirectServerAddressLength = 0,
         redirectServerAddress = ''''\<rparr>,
       fp_outerHeaderCreation = \<lparr>ohc_description = 0, ohc_teid = 0, ohc_ipv4 = 0, ohc_ipv6 = 0,
         ohc_port = 0\<rparr>,
       fp_transportLevelMarking = 0,
       fp_forwardingPolicy = \<lparr>forwardingPolicyIdentifierLength = 0,
         forwardingPolicyIdentifier = ''''\<rparr>,
       fp_headerEnrichment = (), fp_trafficEndpointId = 0, fp_proxying = 0\<rparr>,
     far_duplicatingParameters = (), far_barId = 0\<rparr>"

definition zero_pdi :: UPDK_PDI where
  "zero_pdi = \<lparr>pdi_flags = \<lparr>pdif_sourceInterface = False, pdif_fTeid = False,
       pdif_networkInstance = False, pdif_ueIpAddress = False, pdif_trafficEndpointId = False,
       pdif_sdfFilter = False, pdif_applicationId = False,
       pdif_ethernetPduSessionInformation = False, pdif_ethernetPacketFilter = False,
       pdif_qfi = False, pdif_framedRoute = False, pdif_framedRouting = False,
       pdif_framedIpv6Route = False\<rparr>,
     pdi_sourceInterface = 0,
     pdi_fTeid = \<lparr>fteid_v4 = False, fteid_v6 = False, fteid_ch = False, fteid_chid = False,
       fteid_teid = 0, fteid_ipv4 = 0, fteid_ipv6 = 0, fteid_chooseId = 0\<rparr>,
     pdi_networkInstance = '''',
     pdi_ueIpAddress = \<lparr>ueip_v6 = False, ueip_v4 = False, ueip_sd = False, ueip_ipv6d = False,
       ueip_ipv4 = 0, ueip_ipv6 = 0, ueip_ipv6PrefixDelegationBit = 0\<rparr>,
     pdi_trafficEndpointId = 0,
     pdi_sdfFilter = \<lparr>sdf_fd = False, sdf_ttc = False, sdf_spi = False, sdf_fl = False,
       sdf_bid = False, sdf_lenOfFlowDescription = 0, sdf_flowDescription = '''',
       sdf_tosTrafficClass = 0, sdf_securityParameterIndex = 0, sdf_flowLabel = '''',
       sdf_sdfFilterId = 0\<rparr>,
     pdi_applicationId = '''', pdi_ethernetPduSessionInformation = (),
     pdi_ethernetPacketFilter = (), pdi_qfi = 0, pdi_framedRoute = '''',
     pdi_framedRouting = 0, pdi_framedIpv6Route = ''''\<rparr>"

definition zero_pdr :: UPDK_PDR where
  "zero_pdr = \<lparr>pdr_flags = \<lparr>pdrf_seid = False, pdrf_pdrId = False, pdrf_precedence = False,
       pdrf_pdi = False, pdrf_outerHeaderRemoval = False, pdrf_farId = False,
       pdrf_urrId = False, pdrf_qerId = False, pdrf_activatePredefinedRules = False,
       pdrf_deactivatePredefinedRules = False\<rparr>,
     pdr_seid = 0, pdr_pdrId = 0, pdr_precedence = 0, pdr_pdi = zero_pdi,
     pdr_outerHeaderRemoval = 0, pdr_farId = 0, pdr_far = None, pdr_qer = None,
     pdr_qers = [None, None], pdr_qer_count = 0, pdr_session_index = 0, pdr_meter_key = 0,
     pdr_fd_target = 0, pdr_has_fd = 0, pdr_fd_to_net = 0, pdr_fd_to_mask = 0,
     pdr_has_fd_to = 0, pdr_urrId = [0, 0, 0, 0], pdr_qerId = [0, 0],
     pdr_activatePredefinedRules = '''', pdr_deactivatePredefinedRules = ''''\<rparr>"

end
