(* ===== verification/Flow_Meter.thy ===== *)
theory Flow_Meter
  imports Upf_Rules Probe_Table Token_Bucket
begin

text \<open>
  Per-flow policing of \<^verbatim>\<open>5gc/upf_u/upf_u_trtcm.c\<close>: the flow table \<^verbatim>\<open>iPFlows\<close> that maps a meter
  key to the index of a trTCM meter, the meters and their profiles, and their configuration
  from the QER of a PDR. The DPDK meter library is the parameter \<open>lib\<close> of the operations.

  The loop of \<^verbatim>\<open>ftAddEntry\<close> that looks for a free slot has no bound of its own, so it is a
  \<open>partial_function\<close> whose value \<open>None\<close> is not returning; that it always returns rests on the
  entry count and is one of the results.
\<close>

subsection \<open>Data\<close>

abbreviation APP_FLOWS_MAX :: nat where "APP_FLOWS_MAX \<equiv> 256"

record flow_entry =
  fe_subnet :: u32
  fe_flow_idx :: int
  fe_in_use :: bool

text \<open>The types of \<^verbatim>\<open>rte_meter.h\<close> and the functions of the library the code calls.\<close>

datatype rte_color = RTE_COLOR_GREEN | RTE_COLOR_YELLOW | RTE_COLOR_RED

primrec color_code :: "rte_color \<Rightarrow> nat" where
  "color_code RTE_COLOR_GREEN = 0"
| "color_code RTE_COLOR_YELLOW = 1"
| "color_code RTE_COLOR_RED = 2"

record rte_meter_trtcm_params =
  params_cir :: u64
  params_pir :: u64
  params_cbs :: u64
  params_pbs :: u64

record ('p, 'm) rte_meter_lib =
  trtcm_profile_config :: "'p \<Rightarrow> rte_meter_trtcm_params \<Rightarrow> 'p \<times> int"
  trtcm_config :: "'m \<Rightarrow> 'p \<Rightarrow> 'm \<times> int"
  trtcm_color_blind_check :: "'m \<Rightarrow> 'p \<Rightarrow> u64 \<Rightarrow> u32 \<Rightarrow> 'm \<times> rte_color"
  profile_cir_period :: "'p \<Rightarrow> u64"
  profile_pir_period :: "'p \<Rightarrow> u64"
  meter_tc :: "'m \<Rightarrow> u64"

record ('p, 'm) flow_meter =
  iPFlows :: "flow_entry list"
  iPFlowsLen :: u32
  trTCMidx :: u32
  app_trtcm_profile :: 'p
  app_flow_trtcm_profiles :: "'p list"
  app_flows :: "'m list"
  app_flow_has_gbr :: "bool list"

definition app_trtcm_params :: rte_meter_trtcm_params where
  "app_trtcm_params =
     \<lparr>params_cir = 125000, params_pir = 625000, params_cbs = 2048, params_pbs = 2048\<rparr>"

subsection \<open>Operations\<close>

text \<open>The configuration loop stops at the first meter the library refuses.\<close>

primrec config_flow_meters ::
  "('p, 'm) rte_meter_lib \<Rightarrow> nat list \<Rightarrow> ('p, 'm) flow_meter \<Rightarrow> ('p, 'm) flow_meter \<times> int" where
  "config_flow_meters lib [] s = (s, 0)"
| "config_flow_meters lib (i # is) s =
     (let s = s \<lparr>app_flow_trtcm_profiles := (app_flow_trtcm_profiles s)[i := app_trtcm_profile s],
                 app_flow_has_gbr := (app_flow_has_gbr s)[i := True]\<rparr>;
          (flow, rtn) = trtcm_config lib (app_flows s ! i) (app_flow_trtcm_profiles s ! i);
          s = s \<lparr>app_flows := (app_flows s)[i := flow]\<rparr>
      in if rtn \<noteq> 0 then (s, rtn) else config_flow_meters lib is s)"

definition trtcmConfigFlowTables ::
  "('p, 'm) rte_meter_lib \<Rightarrow> ('p, 'm) flow_meter \<Rightarrow> ('p, 'm) flow_meter \<times> int" where
  "trtcmConfigFlowTables lib s =
     (if meter_tc lib (app_flows s ! 0) > 0 then (s, 0)
      else let (profile, rtn) = trtcm_profile_config lib (app_trtcm_profile s) app_trtcm_params;
               s = s \<lparr>app_trtcm_profile := profile\<rparr>
           in if rtn \<noteq> 0 then (s, rtn) else config_flow_meters lib [0..<APP_FLOWS_MAX] s)"

definition trtcmColorHandle ::
  "('p, 'm) rte_meter_lib \<Rightarrow> ('p, 'm) flow_meter \<Rightarrow> u32 \<Rightarrow> u64 \<Rightarrow> int \<Rightarrow> 'p option \<Rightarrow>
     ('p, 'm) flow_meter \<times> int" where
  "trtcmColorHandle lib s pkt_len time flow_idx target_profile =
     (case target_profile of
        None \<Rightarrow> (s, -1)
      | Some profile \<Rightarrow>
          if flow_idx < 0 \<or> flow_idx \<ge> int APP_FLOWS_MAX then (s, -1)
          else if profile_cir_period lib profile = 0 then (s, -1)
          else if profile_pir_period lib profile = 0 then (s, -1)
          else let i = nat flow_idx;
                   (flow, color) =
                     trtcm_color_blind_check lib (app_flows s ! i) profile time pkt_len;
                   s = s \<lparr>app_flows := (app_flows s)[i := flow]\<rparr>;
                   out_color =
                     (if \<not> app_flow_has_gbr s ! i \<and> color = RTE_COLOR_GREEN
                      then RTE_COLOR_YELLOW else color)
               in (s, int (color_code out_color)))"

definition trtcmProfileForFlow :: "('p, 'm) flow_meter \<Rightarrow> int \<Rightarrow> 'p option" where
  "trtcmProfileForFlow s flow_idx =
     (if flow_idx < 0 \<or> flow_idx \<ge> int APP_FLOWS_MAX then None
      else Some (app_flow_trtcm_profiles s ! nat flow_idx))"

definition trtcmPolicer :: "onvm_pkt_meta \<Rightarrow> int \<Rightarrow> onvm_pkt_meta \<times> int" where
  "trtcmPolicer meta color_result =
     (if m_action meta = ONVM_NF_ACTION_DROP then (meta \<lparr>m_flags := 2\<rparr>, 0)
      else if color_result = 2 then
        (meta \<lparr>m_flags := 2, m_action := ONVM_NF_ACTION_DROP\<rparr>, 0)
      else if color_result = 1 then
        (meta \<lparr>m_flags := 1, m_action := ONVM_NF_ACTION_OUT\<rparr>, 0)
      else if color_result = 0 then
        (meta \<lparr>m_flags := 0, m_action := ONVM_NF_ACTION_OUT\<rparr>, 0)
      else (meta, 1))"

definition SourceInterfaceToPort :: "upf_ports \<Rightarrow> u8 \<Rightarrow> u16" where
  "SourceInterfaceToPort ports srcIf =
     (if srcIf = SRC_IF_ACCESS then g_n3_port ports
      else if srcIf = SRC_IF_CORE then g_n6_port ports
      else if srcIf = SRC_IF_SGI_LAN then g_sgi_port ports
      else -1)"

definition hashFunc :: "u32 \<Rightarrow> nat" where
  "hashFunc subnet = unat subnet mod APP_FLOWS_MAX"

definition ftSearch :: "flow_entry list \<Rightarrow> u32 \<Rightarrow> int" where
  "ftSearch T subnet =
     (case probe_search APP_FLOWS_MAX (\<lambda>i. fe_in_use (T ! i)) (\<lambda>i. fe_subnet (T ! i) = subnet)
        (hashFunc subnet) (hashFunc subnet) of
        Some index \<Rightarrow> fe_flow_idx (T ! index)
      | None \<Rightarrow> -1)"

text \<open>The unbounded loop: \<open>None\<close> when it never finds a free slot.\<close>

partial_function (option) ft_free_slot :: "flow_entry list \<Rightarrow> nat \<Rightarrow> nat option" where
  "ft_free_slot T index =
     (if fe_in_use (T ! index) then ft_free_slot T ((index + 1) mod APP_FLOWS_MAX)
      else Some index)"

definition ftAddEntry ::
  "('p, 'm) flow_meter \<Rightarrow> u32 \<Rightarrow> int \<Rightarrow> (('p, 'm) flow_meter \<times> bool) option" where
  "ftAddEntry s subnet flow_idx =
     (if unat (iPFlowsLen s) \<ge> APP_FLOWS_MAX then Some (s, False)
      else if ftSearch (iPFlows s) subnet \<noteq> -1 then Some (s, False)
      else case ft_free_slot (iPFlows s) (hashFunc subnet) of
        None \<Rightarrow> None
      | Some index \<Rightarrow>
          Some (s \<lparr>iPFlows := (iPFlows s)[index :=
                      \<lparr>fe_subnet = subnet, fe_flow_idx = flow_idx, fe_in_use = True\<rparr>],
                   iPFlowsLen := iPFlowsLen s + 1\<rparr>, True))"

text \<open>The key a PDR is metered under and the meter parameters its QER gives.\<close>

definition qer_meter_key :: "upf_ports \<Rightarrow> UPDK_PDR \<Rightarrow> u32" where
  "qer_meter_key ports pdr =
     (if pdr_has_fd pdr \<noteq> 0 then pdr_meter_key pdr
      else ucast (SourceInterfaceToPort ports (pdi_sourceInterface (pdr_pdi pdr))))"

definition qer_trtcm_params :: "UPDK_QER \<Rightarrow> bool \<Rightarrow> rte_meter_trtcm_params" where
  "qer_trtcm_params qer is_uplink =
     (let mbr = (if is_uplink then rate_ul else rate_dl) (qer_maximumBitrate qer);
          params = app_trtcm_params \<lparr>params_pir := mbr * 1000 div 8,
                                     params_pbs := trtcm_bucket_depth mbr\<rparr>
      in if qerf_guaranteedBitrate (qer_flags qer)
         then let gbr = (if is_uplink then rate_ul else rate_dl) (qer_guaranteedBitrate qer)
              in params \<lparr>params_cir := gbr * 1000 div 8, params_cbs := trtcm_bucket_depth gbr\<rparr>
         else params \<lparr>params_cir := 1, params_cbs := 2048\<rparr>)"

text \<open>The part of \<^verbatim>\<open>ConfigureQerFlows\<close> after the guards: fill the next meter, then publish it.\<close>

definition configure_next_meter ::
  "('p, 'm) rte_meter_lib \<Rightarrow> ('p, 'm) flow_meter \<Rightarrow> u32 \<Rightarrow> rte_meter_trtcm_params \<Rightarrow> bool \<Rightarrow>
     ('p, 'm) flow_meter option" where
  "configure_next_meter lib s key params is_gbr =
     (let i = unat (trTCMidx s);
          (profile, rtn) = trtcm_profile_config lib (app_flow_trtcm_profiles s ! i) params;
          s = s \<lparr>app_flow_trtcm_profiles := (app_flow_trtcm_profiles s)[i := profile]\<rparr>
      in if rtn \<noteq> 0 then Some s
         else let (flow, rtn) =
                    trtcm_config lib (app_flows s ! i) (app_flow_trtcm_profiles s ! i);
                  s = s \<lparr>app_flows := (app_flows s)[i := flow]\<rparr>
              in if rtn \<noteq> 0 then Some s
                 else let s = s \<lparr>app_flow_has_gbr := (app_flow_has_gbr s)[i := is_gbr]\<rparr>
                      in case ftAddEntry s key (uint (trTCMidx s)) of
                           None \<Rightarrow> None
                         | Some (s, False) \<Rightarrow> Some s
                         | Some (s, True) \<Rightarrow> Some (s \<lparr>trTCMidx := trTCMidx s + 1\<rparr>))"

definition ConfigureQerFlows ::
  "('p, 'm) rte_meter_lib \<Rightarrow> upf_ports \<Rightarrow> ('p, 'm) flow_meter \<Rightarrow> UPDK_PDR option \<Rightarrow> bool \<Rightarrow>
     ('p, 'm) flow_meter option" where
  "ConfigureQerFlows lib ports s pdr_ptr is_uplink =
     (case pdr_ptr of
        None \<Rightarrow> Some s
      | Some pdr \<Rightarrow>
          (case pdr_qer pdr of
             None \<Rightarrow> Some s
           | Some qer \<Rightarrow>
               if \<not> qerf_maximumBitrate (qer_flags qer) then Some s
               else let key = qer_meter_key ports pdr in
                 if ftSearch (iPFlows s) key \<ge> 0 then Some s
                 else if unat (trTCMidx s) \<ge> APP_FLOWS_MAX then Some s
                 else configure_next_meter lib s key (qer_trtcm_params qer is_uplink)
                        (qerf_guaranteedBitrate (qer_flags qer))))"

subsection \<open>The flow table as a map\<close>

lemma hashFunc_less [simp]: "hashFunc k < APP_FLOWS_MAX"
  by (simp add: hashFunc_def)

interpretation ft: probe_table APP_FLOWS_MAX hashFunc fe_in_use fe_subnet
  by unfold_locales simp

abbreviation ft_search :: "flow_entry list \<Rightarrow> u32 \<Rightarrow> nat option" where
  "ft_search \<equiv> tbl_search APP_FLOWS_MAX hashFunc fe_in_use fe_subnet"

lemma ftSearch_tbl:
  "ftSearch T k = (case ft_search T k of Some i \<Rightarrow> fe_flow_idx (T ! i) | None \<Rightarrow> -1)"
  by (simp add: ftSearch_def tbl_search_def)

text \<open>The unbounded loop follows the bounded one as long as that one finds a slot.\<close>

lemma ft_free_slot_probe:
  "probe_free N used start idx = Some i \<Longrightarrow> N = APP_FLOWS_MAX \<Longrightarrow> used = (\<lambda>i. fe_in_use (T ! i)) \<Longrightarrow>
     ft_free_slot T idx = Some i"
proof (induction N used start idx rule: probe_free.induct)
  case (1 N used start idx)
  show ?case
    using "1.prems"(1) "1.IH" "1.prems"(2,3)
    by (subst (asm) probe_free.simps, subst ft_free_slot.simps) (auto split: if_splits)
qed

definition used_slots :: "flow_entry list \<Rightarrow> nat set" where
  "used_slots T = {i. i < APP_FLOWS_MAX \<and> fe_in_use (T ! i)}"

lemma finite_used_slots [simp]: "finite (used_slots T)"
  by (simp add: used_slots_def)

lemma ft_free_slot_found:
  assumes "card (used_slots T) < APP_FLOWS_MAX"
  obtains i where "ft_free_slot T (hashFunc k) = Some i"
    and "tbl_free APP_FLOWS_MAX hashFunc fe_in_use T k = Some i"
proof (cases "tbl_free APP_FLOWS_MAX hashFunc fe_in_use T k")
  case None
  then have "used_slots T = {..<APP_FLOWS_MAX}"
    by (auto simp: ft.free_None_iff used_slots_def)
  with assms show ?thesis by simp
next
  case (Some i)
  then show ?thesis
    using that [OF ft_free_slot_probe] by (simp add: tbl_free_def)
qed

text \<open>
  The invariant: the table is a probe table with as many entries as meters are handed out,
  and the meter indexes of its entries are below that number and pairwise different.
\<close>

definition fm_inv :: "('p, 'm) flow_meter \<Rightarrow> bool" where
  "fm_inv s \<longleftrightarrow>
     probe_inv APP_FLOWS_MAX hashFunc fe_in_use fe_subnet (iPFlows s) \<and>
     length (app_flow_trtcm_profiles s) = APP_FLOWS_MAX \<and>
     length (app_flows s) = APP_FLOWS_MAX \<and>
     length (app_flow_has_gbr s) = APP_FLOWS_MAX \<and>
     iPFlowsLen s = trTCMidx s \<and>
     unat (trTCMidx s) = card (used_slots (iPFlows s)) \<and>
     (\<forall>i\<in>used_slots (iPFlows s). 0 \<le> fe_flow_idx (iPFlows s ! i) \<and>
        fe_flow_idx (iPFlows s ! i) < uint (trTCMidx s)) \<and>
     inj_on (\<lambda>i. fe_flow_idx (iPFlows s ! i)) (used_slots (iPFlows s))"

lemma card_used_slots: "card (used_slots T) \<le> APP_FLOWS_MAX"
proof -
  have "used_slots T \<subseteq> {..<APP_FLOWS_MAX}" by (auto simp: used_slots_def)
  then show ?thesis by (metis card_lessThan card_mono finite_lessThan)
qed

lemma ft_search_used: "ft_search T k = Some i \<Longrightarrow> i \<in> used_slots T \<and> fe_subnet (T ! i) = k"
  using ft.search_sound [of T k i] by (auto simp: used_slots_def)

lemma fm_inv_search:
  assumes "fm_inv s" "ft_search (iPFlows s) k = Some i"
  shows "ftSearch (iPFlows s) k = fe_flow_idx (iPFlows s ! i)" "0 \<le> ftSearch (iPFlows s) k"
    "ftSearch (iPFlows s) k < uint (trTCMidx s)"
  using assms ft_search_used [OF assms(2)] by (auto simp: fm_inv_def ftSearch_tbl)

lemma fm_inv_miss:
  assumes "fm_inv s"
  shows "ftSearch (iPFlows s) k < 0 \<longleftrightarrow> ft_search (iPFlows s) k = None"
    and "ftSearch (iPFlows s) k = -1 \<longleftrightarrow> ft_search (iPFlows s) k = None"
  using fm_inv_search [OF assms, of k]
  by (cases "ft_search (iPFlows s) k"; simp add: ftSearch_tbl)+

lemma fm_inv_len: "fm_inv s \<Longrightarrow> unat (trTCMidx s) \<le> APP_FLOWS_MAX"
  using card_used_slots by (simp add: fm_inv_def)

lemma used_slots_fill:
  assumes "length T = APP_FLOWS_MAX" "i < APP_FLOWS_MAX" "fe_in_use e"
  shows "used_slots (T[i := e]) = insert i (used_slots T)"
  using assms by (auto simp: used_slots_def nth_list_update)

text \<open>Adding an entry under the invariant of the table returns and adds exactly that entry.\<close>

lemma ftAddEntry_adds:
  assumes inv: "fm_inv s" and new: "ft_search (iPFlows s) k = None"
    and room: "unat (trTCMidx s) < APP_FLOWS_MAX"
  obtains s' where "ftAddEntry s k (uint (trTCMidx s)) = Some (s', True)"
    and "s' = s \<lparr>iPFlows := iPFlows s', iPFlowsLen := iPFlowsLen s + 1\<rparr>"
    and "fm_inv (s' \<lparr>trTCMidx := trTCMidx s + 1\<rparr>)"
    and "\<And>k'. ftSearch (iPFlows s') k' =
      (if k' = k then uint (trTCMidx s) else ftSearch (iPFlows s) k')"
proof -
  let ?T = "iPFlows s" and ?n = "uint (trTCMidx s)"
  let ?e = "\<lparr>fe_subnet = k, fe_flow_idx = ?n, fe_in_use = True\<rparr>"
  have P: "probe_inv APP_FLOWS_MAX hashFunc fe_in_use fe_subnet ?T"
    and len: "iPFlowsLen s = trTCMidx s" "unat (trTCMidx s) = card (used_slots ?T)"
    using inv by (auto simp: fm_inv_def)
  have lenT: "length ?T = APP_FLOWS_MAX" using P by (simp add: probe_inv_def)
  obtain i where i: "ft_free_slot ?T (hashFunc k) = Some i"
      "tbl_free APP_FLOWS_MAX hashFunc fe_in_use ?T k = Some i"
    using room len ft_free_slot_found [of ?T k] by auto
  have iN: "i < APP_FLOWS_MAX" "\<not> fe_in_use (?T ! i)" using ft.free_sound [OF i(2)] by auto
  define s' where "s' = s \<lparr>iPFlows := ?T[i := ?e], iPFlowsLen := iPFlowsLen s + 1\<rparr>"
  have us: "used_slots (?T[i := ?e]) = insert i (used_slots ?T)"
    by (rule used_slots_fill [OF lenT iN(1)]) simp
  have inew: "i \<notin> used_slots ?T" using iN by (simp add: used_slots_def)
  have n1: "unat (trTCMidx s + 1) = Suc (unat (trTCMidx s))"
    using room by (simp add: unat_word_ariths)
  have u1: "uint (trTCMidx s + 1) = uint (trTCMidx s) + 1"
    using n1 by (metis of_nat_Suc add.commute unat_eq_nat_uint uint_nat)
  have fill: "ft_search (?T[i := ?e]) k' = (if k' = k then Some i else ft_search ?T k')" for k'
    by (rule ft.fill_free_search [OF P new i(2)]) simp_all
  have at: "(?T[i := ?e]) ! j = (if j = i then ?e else ?T ! j)" for j
    using iN lenT by (simp add: nth_list_update)
  have "ftSearch (?T[i := ?e]) k' = (if k' = k then ?n else ftSearch ?T k')" for k'
    using inew ft_search_used [of ?T k']
    by (auto simp: ftSearch_tbl fill at split: option.splits)
  moreover have "fm_inv (s' \<lparr>trTCMidx := trTCMidx s + 1\<rparr>)"
  proof -
    have "probe_inv APP_FLOWS_MAX hashFunc fe_in_use fe_subnet (?T[i := ?e])"
      by (rule ft.fill_free_inv [OF P new i(2)]) simp_all
    moreover have "\<forall>j\<in>used_slots (?T[i := ?e]). 0 \<le> fe_flow_idx (?T[i := ?e] ! j) \<and>
        fe_flow_idx (?T[i := ?e] ! j) < uint (trTCMidx s + 1)"
      using inv by (auto simp: us at u1 fm_inv_def)
    moreover have "inj_on (\<lambda>j. fe_flow_idx (?T[i := ?e] ! j)) (used_slots (?T[i := ?e]))"
    proof -
      have "inj_on (\<lambda>j. fe_flow_idx (?T[i := ?e] ! j)) (used_slots ?T)"
        using inv inew by (auto simp: fm_inv_def inj_on_def at)
      moreover have "?n \<notin> (\<lambda>j. fe_flow_idx (?T[i := ?e] ! j)) ` used_slots ?T"
        using inv inew by (auto simp: fm_inv_def at split: if_splits)
      ultimately show ?thesis using inew by (simp add: us at)
    qed
    ultimately show ?thesis
      using inv len inew by (simp add: fm_inv_def s'_def us n1)
  qed
  moreover have "ftAddEntry s k ?n = Some (s', True)"
    using room len i(1) new by (simp add: ftAddEntry_def fm_inv_miss [OF inv] s'_def)
  ultimately show ?thesis using that by (simp add: s'_def)
qed

subsection \<open>Configuring a flow\<close>

text \<open>The library accepts the parameters for the next meter.\<close>

definition meter_accepts ::
  "('p, 'm) rte_meter_lib \<Rightarrow> ('p, 'm) flow_meter \<Rightarrow> rte_meter_trtcm_params \<Rightarrow> bool" where
  "meter_accepts lib s params \<longleftrightarrow>
     (let i = unat (trTCMidx s);
          (profile, rtn) = trtcm_profile_config lib (app_flow_trtcm_profiles s ! i) params
      in rtn = 0 \<and> snd (trtcm_config lib (app_flows s ! i) profile) = 0)"

text \<open>The state with meter \<open>i\<close> rewritten, as a successful configuration leaves it.\<close>

definition set_meter ::
  "('p, 'm) rte_meter_lib \<Rightarrow> ('p, 'm) flow_meter \<Rightarrow> rte_meter_trtcm_params \<Rightarrow> bool \<Rightarrow>
     ('p, 'm) flow_meter" where
  "set_meter lib s params is_gbr =
     (let i = unat (trTCMidx s);
          profile = fst (trtcm_profile_config lib (app_flow_trtcm_profiles s ! i) params);
          flow = fst (trtcm_config lib (app_flows s ! i) profile)
      in s \<lparr>app_flow_trtcm_profiles := (app_flow_trtcm_profiles s)[i := profile],
            app_flows := (app_flows s)[i := flow],
            app_flow_has_gbr := (app_flow_has_gbr s)[i := is_gbr]\<rparr>)"

definition same_meter :: "nat \<Rightarrow> ('p, 'm) flow_meter \<Rightarrow> ('p, 'm) flow_meter \<Rightarrow> bool" where
  "same_meter j s s' \<longleftrightarrow>
     app_flow_trtcm_profiles s' ! j = app_flow_trtcm_profiles s ! j \<and>
     app_flows s' ! j = app_flows s ! j \<and>
     app_flow_has_gbr s' ! j = app_flow_has_gbr s ! j"

lemma same_meter_refl [simp]: "same_meter j s s"
  by (simp add: same_meter_def)

lemma fm_inv_meters:
  assumes "fm_inv s" "iPFlows s' = iPFlows s" "iPFlowsLen s' = iPFlowsLen s"
    "trTCMidx s' = trTCMidx s"
    "length (app_flow_trtcm_profiles s') = length (app_flow_trtcm_profiles s)"
    "length (app_flows s') = length (app_flows s)"
    "length (app_flow_has_gbr s') = length (app_flow_has_gbr s)"
  shows "fm_inv s'"
  using assms by (simp add: fm_inv_def)

lemma fm_inv_set_meter: "fm_inv s \<Longrightarrow> fm_inv (set_meter lib s params g)"
  by (rule fm_inv_meters) (simp_all add: set_meter_def Let_def)

lemma set_meter_simps [simp]:
  "iPFlows (set_meter lib s params g) = iPFlows s"
  "iPFlowsLen (set_meter lib s params g) = iPFlowsLen s"
  "trTCMidx (set_meter lib s params g) = trTCMidx s"
  by (simp_all add: set_meter_def Let_def)

lemma set_meter_other: "j \<noteq> unat (trTCMidx s) \<Longrightarrow> same_meter j s (set_meter lib s params g)"
  by (simp add: same_meter_def set_meter_def Let_def)

lemma configure_next_meter_accepts:
  "meter_accepts lib s params \<Longrightarrow>
     configure_next_meter lib s key params g =
       (case ftAddEntry (set_meter lib s params g) key (uint (trTCMidx s)) of
          None \<Rightarrow> None
        | Some (s, False) \<Rightarrow> Some s
        | Some (s, True) \<Rightarrow> Some (s \<lparr>trTCMidx := trTCMidx s + 1\<rparr>))"
  if "unat (trTCMidx s) < length (app_flow_trtcm_profiles s)"
  using that
  by (simp add: configure_next_meter_def meter_accepts_def set_meter_def Let_def split_beta)

lemma configure_next_meter_refuses:
  assumes "\<not> meter_accepts lib s params" "fm_inv s"
    and "unat (trTCMidx s) < APP_FLOWS_MAX"
  obtains s' where "configure_next_meter lib s key params g = Some s'" "fm_inv s'"
    "iPFlows s' = iPFlows s" "trTCMidx s' = trTCMidx s"
    "\<And>j. j \<noteq> unat (trTCMidx s) \<Longrightarrow> same_meter j s s'"
proof -
  have len: "length (app_flow_trtcm_profiles s) = APP_FLOWS_MAX"
    using assms(2) by (simp add: fm_inv_def)
  define pc where
    "pc = trtcm_profile_config lib (app_flow_trtcm_profiles s ! unat (trTCMidx s)) params"
  define tc where "tc = trtcm_config lib (app_flows s ! unat (trTCMidx s)) (fst pc)"
  define s1 where "s1 = s \<lparr>app_flow_trtcm_profiles :=
    (app_flow_trtcm_profiles s)[unat (trTCMidx s) := fst pc]\<rparr>"
  define s2 where "s2 = s1 \<lparr>app_flows := (app_flows s)[unat (trTCMidx s) := fst tc]\<rparr>"
  have "configure_next_meter lib s key params g = Some (if snd pc \<noteq> 0 then s1 else s2)"
    using assms(1,3) len
    unfolding configure_next_meter_def meter_accepts_def Let_def split_beta pc_def [symmetric]
    by (simp add: s1_def s2_def tc_def)
  then obtain s' where s': "configure_next_meter lib s key params g = Some s'"
      "iPFlows s' = iPFlows s" "iPFlowsLen s' = iPFlowsLen s" "trTCMidx s' = trTCMidx s"
      "length (app_flow_trtcm_profiles s') = length (app_flow_trtcm_profiles s)"
      "length (app_flows s') = length (app_flows s)"
      "length (app_flow_has_gbr s') = length (app_flow_has_gbr s)"
      "\<forall>j. j \<noteq> unat (trTCMidx s) \<longrightarrow> same_meter j s s'"
    by (cases "snd pc = 0") (simp_all add: s1_def s2_def same_meter_def)
  then show ?thesis using that fm_inv_meters [OF assms(2) s'(2-7)] by blast
qed

text \<open>
  The whole operation. \<open>flow_installs\<close> is the condition under which it hands out a meter: the
  PDR has a QER with a maximum bitrate, its key is new, a meter is left and the library
  accepts the parameters.
\<close>

definition flow_installs ::
  "('p, 'm) rte_meter_lib \<Rightarrow> upf_ports \<Rightarrow> ('p, 'm) flow_meter \<Rightarrow> UPDK_PDR option \<Rightarrow> bool \<Rightarrow>
     bool" where
  "flow_installs lib ports s pdr_ptr is_uplink =
     (case pdr_ptr of
        None \<Rightarrow> False
      | Some pdr \<Rightarrow>
          (case pdr_qer pdr of
             None \<Rightarrow> False
           | Some qer \<Rightarrow>
               qerf_maximumBitrate (qer_flags qer) \<and>
               ftSearch (iPFlows s) (qer_meter_key ports pdr) < 0 \<and>
               unat (trTCMidx s) < APP_FLOWS_MAX \<and>
               meter_accepts lib s (qer_trtcm_params qer is_uplink)))"

lemma ConfigureQerFlows_installs:
  assumes inv: "fm_inv s" and pdr: "pdr_qer pdr = Some qer"
    and ins: "flow_installs lib ports s (Some pdr) is_uplink"
  obtains s' where "ConfigureQerFlows lib ports s (Some pdr) is_uplink = Some s'" "fm_inv s'"
    "trTCMidx s' = trTCMidx s + 1"
    "\<And>k. ftSearch (iPFlows s') k =
      (if k = qer_meter_key ports pdr then uint (trTCMidx s) else ftSearch (iPFlows s) k)"
    "\<And>j. same_meter j (set_meter lib s (qer_trtcm_params qer is_uplink)
        (qerf_guaranteedBitrate (qer_flags qer))) s'"
proof -
  let ?k = "qer_meter_key ports pdr" and ?p = "qer_trtcm_params qer is_uplink"
  let ?g = "qerf_guaranteedBitrate (qer_flags qer)"
  let ?s = "set_meter lib s ?p ?g"
  have c: "ftSearch (iPFlows s) ?k < 0" "unat (trTCMidx s) < APP_FLOWS_MAX"
      "meter_accepts lib s ?p" "qerf_maximumBitrate (qer_flags qer)"
    using ins pdr by (auto simp: flow_installs_def)
  have new: "ft_search (iPFlows ?s) ?k = None" using c(1) fm_inv_miss(1) [OF inv] by simp
  have lp: "unat (trTCMidx s) < length (app_flow_trtcm_profiles s)"
    using c(2) inv by (simp add: fm_inv_def)
  obtain t where t: "ftAddEntry ?s ?k (uint (trTCMidx ?s)) = Some (t, True)"
      "t = ?s \<lparr>iPFlows := iPFlows t, iPFlowsLen := iPFlowsLen ?s + 1\<rparr>"
      "fm_inv (t \<lparr>trTCMidx := trTCMidx ?s + 1\<rparr>)"
      "\<And>k'. ftSearch (iPFlows t) k' =
        (if k' = ?k then uint (trTCMidx ?s) else ftSearch (iPFlows ?s) k')"
    by (rule ftAddEntry_adds [OF fm_inv_set_meter [OF inv] new]) (use c(2) in auto)
  have ti: "trTCMidx t = trTCMidx s" by (subst t(2)) simp
  have same: "same_meter j ?s (t \<lparr>trTCMidx := trTCMidx s + 1\<rparr>)" for j
    by (subst t(2)) (simp add: same_meter_def)
  have "ConfigureQerFlows lib ports s (Some pdr) is_uplink = Some (t \<lparr>trTCMidx := trTCMidx s + 1\<rparr>)"
    using c pdr t(1) ti
    by (simp add: ConfigureQerFlows_def configure_next_meter_accepts [OF lp c(3)])
  then show ?thesis by (rule that) (use t(3,4) same in \<open>simp_all\<close>)
qed

lemma ConfigureQerFlows_keeps:
  assumes inv: "fm_inv s" and ins: "\<not> flow_installs lib ports s pdr is_uplink"
  obtains s' where "ConfigureQerFlows lib ports s pdr is_uplink = Some s'" "fm_inv s'"
    "trTCMidx s' = trTCMidx s" "iPFlows s' = iPFlows s"
    "\<And>j. j < unat (trTCMidx s) \<Longrightarrow> same_meter j s s'"
proof (cases "ConfigureQerFlows lib ports s pdr is_uplink = Some s")
  case True
  show ?thesis by (rule that [OF True inv]) simp_all
next
  case False
  then obtain p qer where p: "pdr = Some p" "pdr_qer p = Some qer"
      "qerf_maximumBitrate (qer_flags qer)" "ftSearch (iPFlows s) (qer_meter_key ports p) < 0"
      "unat (trTCMidx s) < APP_FLOWS_MAX"
    by (fastforce simp: ConfigureQerFlows_def Let_def split: option.splits if_splits)
  then have "\<not> meter_accepts lib s (qer_trtcm_params qer is_uplink)"
    using ins by (simp add: flow_installs_def)
  then obtain s' where s': "configure_next_meter lib s (qer_meter_key ports p)
        (qer_trtcm_params qer is_uplink) (qerf_guaranteedBitrate (qer_flags qer)) = Some s'"
      "fm_inv s'" "iPFlows s' = iPFlows s" "trTCMidx s' = trTCMidx s"
      "\<And>j. j \<noteq> unat (trTCMidx s) \<Longrightarrow> same_meter j s s'"
    using configure_next_meter_refuses [OF _ inv p(5)] by metis
  have "ConfigureQerFlows lib ports s pdr is_uplink = Some s'"
    using p s'(1) by (simp add: ConfigureQerFlows_def)
  then show ?thesis by (rule that) (use s' in auto)
qed

subsection \<open>Reachable states\<close>

text \<open>
  The state \<^verbatim>\<open>main\<close> starts from: zeroed arrays, then \<^verbatim>\<open>trtcmConfigFlowTables\<close>, whose result
  \<^verbatim>\<open>main\<close> does not look at. Then every packet may configure a flow and colour a packet.
\<close>

definition zero_meter :: "'p \<Rightarrow> 'm \<Rightarrow> ('p, 'm) flow_meter" where
  "zero_meter p m =
     \<lparr>iPFlows = replicate APP_FLOWS_MAX \<lparr>fe_subnet = 0, fe_flow_idx = 0, fe_in_use = False\<rparr>,
      iPFlowsLen = 0, trTCMidx = 0, app_trtcm_profile = p,
      app_flow_trtcm_profiles = replicate APP_FLOWS_MAX p,
      app_flows = replicate APP_FLOWS_MAX m,
      app_flow_has_gbr = replicate APP_FLOWS_MAX False\<rparr>"

definition init_meter :: "('p, 'm) rte_meter_lib \<Rightarrow> 'p \<Rightarrow> 'm \<Rightarrow> ('p, 'm) flow_meter" where
  "init_meter lib p m = fst (trtcmConfigFlowTables lib (zero_meter p m))"

inductive fm_step ::
  "('p, 'm) rte_meter_lib \<Rightarrow> upf_ports \<Rightarrow> ('p, 'm) flow_meter \<Rightarrow> ('p, 'm) flow_meter \<Rightarrow> bool"
  for lib ports where
  configure: "ConfigureQerFlows lib ports s pdr is_uplink = Some s' \<Longrightarrow> fm_step lib ports s s'"
| color: "trtcmColorHandle lib s pkt_len time flow_idx profile = (s', c) \<Longrightarrow> fm_step lib ports s s'"

inductive fm_reach ::
  "('p, 'm) rte_meter_lib \<Rightarrow> upf_ports \<Rightarrow> ('p, 'm) flow_meter \<Rightarrow> bool" for lib ports where
  start: "fm_reach lib ports (init_meter lib p m)"
| step: "fm_reach lib ports s \<Longrightarrow> fm_step lib ports s s' \<Longrightarrow> fm_reach lib ports s'"

lemma config_flow_meters_frame:
  "config_flow_meters lib is s = (s', r) \<Longrightarrow>
     iPFlows s' = iPFlows s \<and> iPFlowsLen s' = iPFlowsLen s \<and> trTCMidx s' = trTCMidx s \<and>
     length (app_flow_trtcm_profiles s') = length (app_flow_trtcm_profiles s) \<and>
     length (app_flows s') = length (app_flows s) \<and>
     length (app_flow_has_gbr s') = length (app_flow_has_gbr s)"
proof (induction "is" arbitrary: s)
  case (Cons i "is")
  define s1 where "s1 = s \<lparr>app_flow_trtcm_profiles :=
      (app_flow_trtcm_profiles s)[i := app_trtcm_profile s],
    app_flow_has_gbr := (app_flow_has_gbr s)[i := True]\<rparr>"
  define x where "x = trtcm_config lib (app_flows s1 ! i) (app_flow_trtcm_profiles s1 ! i)"
  define s2 where "s2 = s1 \<lparr>app_flows := (app_flows s1)[i := fst x]\<rparr>"
  have "(if snd x \<noteq> 0 then (s2, snd x) else config_flow_meters lib is s2) = (s', r)"
    using Cons.prems
    by (simp only: config_flow_meters.simps Let_def split_beta s1_def [symmetric]
        x_def [symmetric] s2_def [symmetric])
  then show ?case
    using Cons.IH [of s2] by (auto simp: s2_def s1_def split: if_splits)
qed simp

lemma init_meter_frame:
  "iPFlows (init_meter lib p m) = iPFlows (zero_meter p m)"
  "iPFlowsLen (init_meter lib p m) = 0" "trTCMidx (init_meter lib p m) = 0"
  "length (app_flow_trtcm_profiles (init_meter lib p m)) = APP_FLOWS_MAX"
  "length (app_flows (init_meter lib p m)) = APP_FLOWS_MAX"
  "length (app_flow_has_gbr (init_meter lib p m)) = APP_FLOWS_MAX"
proof -
  define s where "s = zero_meter p m"
  define x where "x = trtcm_profile_config lib (app_trtcm_profile s) app_trtcm_params"
  define s1 where "s1 = s \<lparr>app_trtcm_profile := fst x\<rparr>"
  have e: "init_meter lib p m = fst (if meter_tc lib (app_flows s ! 0) > 0 then (s, 0)
      else if snd x \<noteq> 0 then (s1, snd x) else config_flow_meters lib [0..<APP_FLOWS_MAX] s1)"
    unfolding init_meter_def trtcmConfigFlowTables_def Let_def split_beta s_def [symmetric]
      x_def [symmetric] s1_def [symmetric] by simp
  obtain t r where t: "config_flow_meters lib [0..<APP_FLOWS_MAX] s1 = (t, r)"
    by (cases "config_flow_meters lib [0..<APP_FLOWS_MAX] s1")
  note f = config_flow_meters_frame [OF t]
  have z: "iPFlowsLen s = 0" "trTCMidx s = 0"
      "length (app_flow_trtcm_profiles s) = APP_FLOWS_MAX"
      "length (app_flows s) = APP_FLOWS_MAX" "length (app_flow_has_gbr s) = APP_FLOWS_MAX"
    by (simp_all add: s_def zero_meter_def)
  show "iPFlows (init_meter lib p m) = iPFlows (zero_meter p m)"
    "iPFlowsLen (init_meter lib p m) = 0" "trTCMidx (init_meter lib p m) = 0"
    "length (app_flow_trtcm_profiles (init_meter lib p m)) = APP_FLOWS_MAX"
    "length (app_flows (init_meter lib p m)) = APP_FLOWS_MAX"
    "length (app_flow_has_gbr (init_meter lib p m)) = APP_FLOWS_MAX"
    unfolding e t s_def [symmetric] using f z by (simp_all add: s1_def)
qed

lemma zero_meter_unused: "i < APP_FLOWS_MAX \<Longrightarrow> \<not> fe_in_use (iPFlows (zero_meter p m) ! i)"
  by (simp add: zero_meter_def)

lemma init_meter_search [simp]: "ft_search (iPFlows (init_meter lib p m)) k = None"
  using ft.search_sound [of "iPFlows (init_meter lib p m)" k]
  by (cases "ft_search (iPFlows (init_meter lib p m)) k")
    (auto simp: init_meter_frame zero_meter_unused)

lemma fm_inv_init: "fm_inv (init_meter lib p m)"
proof -
  have "used_slots (iPFlows (zero_meter p m)) = {}"
    by (auto simp: used_slots_def zero_meter_unused)
  moreover have "probe_inv APP_FLOWS_MAX hashFunc fe_in_use fe_subnet (iPFlows (zero_meter p m))"
    by (rule ft.inv_unused) (use zero_meter_unused in \<open>auto simp: zero_meter_def\<close>)
  ultimately show ?thesis by (simp add: fm_inv_def init_meter_frame)
qed

lemma trtcmColorHandle_frame:
  assumes "trtcmColorHandle lib s pkt_len time flow_idx profile = (s', c)"
  shows "iPFlows s' = iPFlows s" "iPFlowsLen s' = iPFlowsLen s" "trTCMidx s' = trTCMidx s"
    "app_flow_trtcm_profiles s' = app_flow_trtcm_profiles s"
    "app_flow_has_gbr s' = app_flow_has_gbr s" "length (app_flows s') = length (app_flows s)"
    "\<And>j. int j \<noteq> flow_idx \<Longrightarrow> app_flows s' ! j = app_flows s ! j"
  using assms
  by (auto simp: trtcmColorHandle_def Let_def split_beta split: option.splits if_splits)

text \<open>
  A step keeps the invariant, and an installed flow keeps its meter, its profile and its
  GBR flag.
\<close>

definition keeps_flows :: "('p, 'm) flow_meter \<Rightarrow> ('p, 'm) flow_meter \<Rightarrow> bool" where
  "keeps_flows s s' \<longleftrightarrow>
     (\<forall>k. 0 \<le> ftSearch (iPFlows s) k \<longrightarrow>
       ftSearch (iPFlows s') k = ftSearch (iPFlows s) k \<and>
       app_flow_trtcm_profiles s' ! nat (ftSearch (iPFlows s) k) =
         app_flow_trtcm_profiles s ! nat (ftSearch (iPFlows s) k) \<and>
       app_flow_has_gbr s' ! nat (ftSearch (iPFlows s) k) =
         app_flow_has_gbr s ! nat (ftSearch (iPFlows s) k))"

lemma keeps_flows_trans: "keeps_flows s s' \<Longrightarrow> keeps_flows s' s'' \<Longrightarrow> keeps_flows s s''"
  unfolding keeps_flows_def by metis

lemma fm_inv_idx: "fm_inv s \<Longrightarrow> 0 \<le> ftSearch (iPFlows s) k \<Longrightarrow>
    ftSearch (iPFlows s) k < uint (trTCMidx s)"
  using fm_inv_search(3) [of s k] by (cases "ft_search (iPFlows s) k") (auto simp: ftSearch_tbl)

lemma ConfigureQerFlows_total:
  assumes "fm_inv s"
  obtains s' where "ConfigureQerFlows lib ports s pdr is_uplink = Some s'" "fm_inv s'"
    "\<And>k. ftSearch (iPFlows s') k =
      (if flow_installs lib ports s pdr is_uplink \<and> k = qer_meter_key ports (the pdr)
       then uint (trTCMidx s) else ftSearch (iPFlows s) k)"
    "\<And>j. j < unat (trTCMidx s) \<Longrightarrow> same_meter j s s'"
proof (cases "flow_installs lib ports s pdr is_uplink")
  case True
  then obtain p qer where p: "pdr = Some p" "pdr_qer p = Some qer"
    by (auto simp: flow_installs_def split: option.splits)
  show ?thesis
  proof (rule ConfigureQerFlows_installs [OF assms p(2), of lib ports is_uplink])
    show "flow_installs lib ports s (Some p) is_uplink" using True p by simp
    fix s'
    assume s': "ConfigureQerFlows lib ports s (Some p) is_uplink = Some s'" "fm_inv s'"
      "\<And>k. ftSearch (iPFlows s') k =
        (if k = qer_meter_key ports p then uint (trTCMidx s) else ftSearch (iPFlows s) k)"
      "\<And>j. same_meter j (set_meter lib s (qer_trtcm_params qer is_uplink)
         (qerf_guaranteedBitrate (qer_flags qer))) s'"
    have "same_meter j s s'" if "j < unat (trTCMidx s)" for j
      using s'(4) [of j] set_meter_other [of j s lib] that by (simp add: same_meter_def)
    then show thesis using that [of s'] s' True p(1) by simp
  qed
next
  case False
  show ?thesis
    by (rule ConfigureQerFlows_keeps [OF assms False]) (use that False in simp)
qed

lemma fm_step_inv [upf_inv]: "fm_step lib ports s s' \<Longrightarrow> fm_inv s \<Longrightarrow> fm_inv s' \<and> keeps_flows s s'"
proof (induction rule: fm_step.induct)
  case (configure s pdr is_uplink s')
  show ?case
  proof (rule ConfigureQerFlows_total [OF configure.prems, of lib ports pdr is_uplink])
    fix t assume t: "ConfigureQerFlows lib ports s pdr is_uplink = Some t" "fm_inv t"
      "\<And>k. ftSearch (iPFlows t) k =
        (if flow_installs lib ports s pdr is_uplink \<and> k = qer_meter_key ports (the pdr)
         then uint (trTCMidx s) else ftSearch (iPFlows s) k)"
      "\<And>j. j < unat (trTCMidx s) \<Longrightarrow> same_meter j s t"
    have "flow_installs lib ports s pdr is_uplink \<Longrightarrow>
        \<not> 0 \<le> ftSearch (iPFlows s) (qer_meter_key ports (the pdr))"
      by (auto simp: flow_installs_def split: option.splits)
    moreover have "nat (ftSearch (iPFlows s) k) < unat (trTCMidx s)"
      if "0 \<le> ftSearch (iPFlows s) k" for k
      using fm_inv_idx [OF configure.prems that] that by (simp add: nat_less_iff)
    ultimately have "keeps_flows s t"
      using t(4) by (auto simp: keeps_flows_def t(3) same_meter_def)
    with t configure.hyps show ?thesis by simp
  qed
next
  case (color s pkt_len time flow_idx profile s' c)
  note f = trtcmColorHandle_frame [OF color.hyps]
  have "fm_inv s'" by (rule fm_inv_meters [OF color.prems]) (simp_all add: f)
  then show ?case by (simp add: keeps_flows_def f)
qed

lemma fm_reach_inv: "fm_reach lib ports s \<Longrightarrow> fm_inv s"
  by (induction rule: fm_reach.induct) (auto simp: fm_inv_init dest: fm_step_inv)

lemma fm_steps_keep:
  "(fm_step lib ports)\<^sup>*\<^sup>* s s' \<Longrightarrow> fm_inv s \<Longrightarrow> fm_inv s' \<and> keeps_flows s s'"
proof (induction rule: rtranclp_induct)
  case base
  then show ?case by (simp add: keeps_flows_def)
next
  case (step t u)
  then show ?case using fm_step_inv keeps_flows_trans by blast
qed

subsection \<open>Policing\<close>

text \<open>The colours the data plane can see, and what the policer makes of them.\<close>

lemma color_code_0: "color_code x = 0 \<longleftrightarrow> x = RTE_COLOR_GREEN"
  by (cases x) auto

lemma trtcmColorHandle_cases:
  assumes "trtcmColorHandle lib s pkt_len time flow_idx profile = (s', c)"
  shows "c \<in> {-1, 0, 1, 2}"
    and "0 \<le> c \<Longrightarrow> 0 \<le> flow_idx \<and> flow_idx < int APP_FLOWS_MAX"
    and "0 \<le> c \<Longrightarrow> \<not> app_flow_has_gbr s ! nat flow_idx \<Longrightarrow> c \<noteq> 0"
proof -
  have "c = -1 \<or> c = 1 \<or> (\<exists>x. c = int (color_code x))"
    using assms
    by (auto simp: trtcmColorHandle_def Let_def split_beta split: option.splits if_splits)
  moreover have "int (color_code x) \<in> {-1, 0, 1, 2}" for x by (cases x) auto
  ultimately show "c \<in> {-1, 0, 1, 2}" by (metis insertCI)
  show "0 \<le> c \<Longrightarrow> 0 \<le> flow_idx \<and> flow_idx < int APP_FLOWS_MAX"
    using assms by (auto simp: trtcmColorHandle_def split: option.splits if_splits)
  show "0 \<le> c \<Longrightarrow> \<not> app_flow_has_gbr s ! nat flow_idx \<Longrightarrow> c \<noteq> 0"
    using assms
    by (auto simp: trtcmColorHandle_def Let_def split_beta color_code_0
        split: option.splits if_splits)
qed

text \<open>The meter library of the examples: whole bytes, no refill, the parameter checks of DPDK.\<close>

definition plain_meter_lib :: "(rte_meter_trtcm_params, u64 \<times> u64) rte_meter_lib" where
  "plain_meter_lib =
     \<lparr>trtcm_profile_config = (\<lambda>p params.
        if params_cir params = 0 \<or> params_pir params = 0 \<or> params_pir params < params_cir params \<or>
           params_cbs params = 0 \<or> params_pbs params = 0 then (p, -22) else (params, 0)),
      trtcm_config = (\<lambda>m p. ((params_cbs p, params_pbs p), 0)),
      trtcm_color_blind_check = (\<lambda>(tc, tp) p time len.
        if tp < ucast len then ((tc, tp), RTE_COLOR_RED)
        else if tc < ucast len then ((tc, tp - ucast len), RTE_COLOR_YELLOW)
        else ((tc - ucast len, tp - ucast len), RTE_COLOR_GREEN)),
      profile_cir_period = params_cir, profile_pir_period = params_pir, meter_tc = fst\<rparr>"

definition example_ports :: upf_ports where
  "example_ports = \<lparr>g_n3_port = 0, g_n6_port = 1, g_sgi_port = 1, g_n3_ip_be = 0x0100000A, g_n6_ip_be = 0x0200000A\<rparr>"

text \<open>A best-effort QER of 8 Mbit/s downlink and a PDR that meters it under key 77.\<close>

definition example_mbr_qer :: UPDK_QER where
  "example_mbr_qer = zero_qer \<lparr>qer_flags := (qer_flags zero_qer) \<lparr>qerf_maximumBitrate := True\<rparr>,
     qer_qerId := 5, qer_maximumBitrate := \<lparr>rate_ul = 8000, rate_dl = 8000\<rparr>\<rparr>"

definition example_pdr :: UPDK_PDR where
  "example_pdr = zero_pdr \<lparr>pdr_qer := Some example_mbr_qer, pdr_has_fd := 1,
     pdr_meter_key := 77\<rparr>"

abbreviation example_meter :: "(rte_meter_trtcm_params, u64 \<times> u64) flow_meter" where
  "example_meter \<equiv> init_meter plain_meter_lib app_trtcm_params (0, 0)"

lemma init_meter_miss: "ftSearch (iPFlows (init_meter lib p m)) k = -1"
  by (simp add: ftSearch_tbl)

lemma example_key: "qer_meter_key example_ports example_pdr = 77"
  by (simp add: qer_meter_key_def example_pdr_def zero_pdr_def)

lemma example_qer: "pdr_qer example_pdr = Some example_mbr_qer"
  by (simp add: example_pdr_def)

lemma example_params:
  "qer_trtcm_params example_mbr_qer False =
     \<lparr>params_cir = 1, params_pir = 1000000, params_cbs = 2048, params_pbs = 100000\<rparr>"
  by (simp add: qer_trtcm_params_def example_mbr_qer_def zero_qer_def app_trtcm_params_def
      trtcm_bucket_depth_def)

lemma example_installs:
  "flow_installs plain_meter_lib example_ports example_meter (Some example_pdr) False"
proof -
  have "ftSearch (iPFlows example_meter) 77 < 0" by (simp add: init_meter_miss)
  moreover have "qerf_maximumBitrate (qer_flags example_mbr_qer)"
    by (simp add: example_mbr_qer_def)
  moreover have "meter_accepts plain_meter_lib example_meter
      (qer_trtcm_params example_mbr_qer False)"
    by (simp add: meter_accepts_def example_params plain_meter_lib_def)
  ultimately show ?thesis
    by (simp add: flow_installs_def example_qer example_key init_meter_frame)
qed

text \<open>
  C29. Configuring flows refines insertion into a map. In every reachable state
  \<^verbatim>\<open>ConfigureQerFlows\<close> returns (the unbounded free-slot loop of \<^verbatim>\<open>ftAddEntry\<close> ends), the lookup
  of every key answers as before except that the new key, when one is installed, answers the
  next meter index, and the meter, profile and GBR flag of every flow found before are
  untouched, whatever the meter library does.
\<close>

theorem configure_flows_refines_map:
  assumes "fm_reach lib ports s"
  shows "\<exists>s'. ConfigureQerFlows lib ports s pdr is_uplink = Some s' \<and>
    (\<forall>k. ftSearch (iPFlows s') k =
       (if flow_installs lib ports s pdr is_uplink \<and> k = qer_meter_key ports (the pdr)
        then uint (trTCMidx s) else ftSearch (iPFlows s) k)) \<and>
    (\<forall>k. 0 \<le> ftSearch (iPFlows s) k \<longrightarrow> same_meter (nat (ftSearch (iPFlows s) k)) s s')"
proof -
  have inv: "fm_inv s" using assms by (rule fm_reach_inv)
  have "nat (ftSearch (iPFlows s) k) < unat (trTCMidx s)" if "0 \<le> ftSearch (iPFlows s) k" for k
    using fm_inv_idx [OF inv that] that by (simp add: nat_less_iff)
  then show ?thesis
    by (rule_tac ConfigureQerFlows_total [OF inv, of lib ports pdr is_uplink]) blast
qed

theorem configure_flows_refines_map_witness:
  "\<exists>s'. ConfigureQerFlows plain_meter_lib example_ports example_meter (Some example_pdr) False =
      Some s' \<and> ftSearch (iPFlows s') 77 = 0 \<and> ftSearch (iPFlows s') 78 = -1"
  using configure_flows_refines_map [OF fm_reach.start,
      of plain_meter_lib example_ports app_trtcm_params "(0, 0)" "Some example_pdr" False]
  by (auto simp: example_installs example_key init_meter_frame(3) init_meter_miss)

text \<open>
  Flows do not share meters: in every reachable state two keys that are found have the
  same meter index only if they are the same key, and every index is below the number of
  meters handed out, which never exceeds the size of the meter arrays.
\<close>

theorem flow_meters_not_shared:
  assumes "fm_reach lib ports s" and "0 \<le> ftSearch (iPFlows s) k"
  shows "(ftSearch (iPFlows s) k = ftSearch (iPFlows s) k' \<longleftrightarrow> k = k') \<and>
    ftSearch (iPFlows s) k < uint (trTCMidx s) \<and> unat (trTCMidx s) \<le> APP_FLOWS_MAX"
proof -
  have inv: "fm_inv s" using assms(1) by (rule fm_reach_inv)
  have "k = k'" if e: "ftSearch (iPFlows s) k = ftSearch (iPFlows s) k'"
  proof -
    obtain i i' where i: "ft_search (iPFlows s) k = Some i" "ft_search (iPFlows s) k' = Some i'"
      using assms(2) e by (auto simp: ftSearch_tbl split: option.splits)
    then have "i = i'"
      using e inv ft_search_used [OF i(1)] ft_search_used [OF i(2)]
      by (auto simp: ftSearch_tbl fm_inv_def inj_on_def)
    with i ft_search_used [OF i(1)] ft_search_used [OF i(2)] show ?thesis by simp
  qed
  then show ?thesis using fm_inv_idx [OF inv assms(2)] fm_inv_len [OF inv] by blast
qed

text \<open>The example state after its flow is installed.\<close>

lemma example_configured:
  obtains s' where "ConfigureQerFlows plain_meter_lib example_ports example_meter
      (Some example_pdr) False = Some s'"
    "fm_reach plain_meter_lib example_ports s'" "ftSearch (iPFlows s') 77 = 0"
    "ftSearch (iPFlows s') 78 = -1"
proof (rule ConfigureQerFlows_installs [OF fm_inv_init example_qer example_installs])
  fix s'
  assume c: "ConfigureQerFlows plain_meter_lib example_ports example_meter
      (Some example_pdr) False = Some s'"
    and f: "\<And>k. ftSearch (iPFlows s') k = (if k = qer_meter_key example_ports example_pdr
      then uint (trTCMidx example_meter) else ftSearch (iPFlows example_meter) k)"
  have "fm_reach plain_meter_lib example_ports s'"
    using fm_reach.step [OF fm_reach.start fm_step.configure [OF c]] .
  then show thesis
    by (rule that [OF c]) (simp_all add: f example_key init_meter_frame(3) init_meter_miss)
qed

lemma example_first_meter:
  assumes "ConfigureQerFlows plain_meter_lib example_ports example_meter
      (Some example_pdr) False = Some s'"
  shows "app_flows s' ! 0 = (2048, 100000) \<and> \<not> app_flow_has_gbr s' ! 0"
proof (rule ConfigureQerFlows_installs [OF fm_inv_init example_qer example_installs])
  fix t
  assume c: "ConfigureQerFlows plain_meter_lib example_ports example_meter
      (Some example_pdr) False = Some t"
    and f: "\<And>j. same_meter j (set_meter plain_meter_lib example_meter
      (qer_trtcm_params example_mbr_qer False)
      (qerf_guaranteedBitrate (qer_flags example_mbr_qer))) t"
  have "app_flows t ! 0 = (2048, 100000) \<and> \<not> app_flow_has_gbr t ! 0"
    using f [of 0]
    by (simp add: same_meter_def set_meter_def Let_def example_params init_meter_frame)
      (simp add: plain_meter_lib_def example_mbr_qer_def zero_qer_def)
  with c assms show ?thesis by simp
qed

theorem flow_meters_not_shared_witness:
  "\<exists>s. fm_reach plain_meter_lib example_ports s \<and>
     ftSearch (iPFlows s) 77 \<noteq> ftSearch (iPFlows s) 78 \<and> 0 < trTCMidx s"
proof -
  obtain s where s: "fm_reach plain_meter_lib example_ports s" "ftSearch (iPFlows s) 77 = 0"
    using example_configured by metis
  then show ?thesis
    using flow_meters_not_shared [OF s(1), of 77 78] by (auto simp: word_less_def)
qed

text \<open>
  C28. A flow keeps the contract of the QER it was installed with. After the PDR's flow is
  installed, whatever flows are configured and packets coloured later, the profile the data
  plane meters the key with is the one built from the QER's rates, and when the QER has no
  guaranteed bitrate no packet of the flow is ever policed green: it is refused, best effort
  or red, and a red packet is dropped.
\<close>

theorem non_gbr_flow_never_green:
  assumes "fm_reach lib ports s" and "pdr_qer pdr = Some qer"
    and "flow_installs lib ports s (Some pdr) is_uplink"
    and "ConfigureQerFlows lib ports s (Some pdr) is_uplink = Some s'"
    and "(fm_step lib ports)\<^sup>*\<^sup>* s' t"
    and "idx = ftSearch (iPFlows t) (qer_meter_key ports pdr)"
    and "trtcmColorHandle lib t pkt_len time idx (trtcmProfileForFlow t idx) = (t', c)"
    and "trtcmPolicer meta c = (meta', r)"
  shows "trtcmProfileForFlow t idx = Some (fst (trtcm_profile_config lib
      (app_flow_trtcm_profiles s ! unat (trTCMidx s)) (qer_trtcm_params qer is_uplink))) \<and>
    (\<not> qerf_guaranteedBitrate (qer_flags qer) \<and> c \<noteq> -1 \<longrightarrow>
       m_flags meta' \<in> {1, 2} \<and> (m_flags meta' = 2 \<longrightarrow> m_action meta' = ONVM_NF_ACTION_DROP))"
proof -
  let ?n = "unat (trTCMidx s)"
  have inv: "fm_inv s" using assms(1) by (rule fm_reach_inv)
  have n: "?n < APP_FLOWS_MAX" using assms(2,3) by (simp add: flow_installs_def)
  obtain u where u: "ConfigureQerFlows lib ports s (Some pdr) is_uplink = Some u" "fm_inv u"
      "ftSearch (iPFlows u) (qer_meter_key ports pdr) = uint (trTCMidx s)"
      "same_meter ?n (set_meter lib s (qer_trtcm_params qer is_uplink)
         (qerf_guaranteedBitrate (qer_flags qer))) u"
    using ConfigureQerFlows_installs [OF inv assms(2,3)] by metis
  have us: "u = s'" using u(1) assms(4) by simp
  have idx: "idx = uint (trTCMidx s)"
      "app_flow_trtcm_profiles t ! ?n = app_flow_trtcm_profiles s' ! ?n"
      "app_flow_has_gbr t ! ?n = app_flow_has_gbr s' ! ?n"
    using fm_steps_keep [OF assms(5)] u(2,3) assms(6) us
    by (auto simp: keeps_flows_def dest!: spec [of _ "qer_meter_key ports pdr"])
  have "app_flow_trtcm_profiles s' ! ?n = fst (trtcm_profile_config lib
      (app_flow_trtcm_profiles s ! ?n) (qer_trtcm_params qer is_uplink))"
    "app_flow_has_gbr s' ! ?n = qerf_guaranteedBitrate (qer_flags qer)"
    using u(4) us inv n by (auto simp: same_meter_def set_meter_def Let_def fm_inv_def)
  note s' = this
  have "int ?n < int APP_FLOWS_MAX" using n by (simp only: of_nat_less_iff)
  then have prof: "trtcmProfileForFlow t idx = Some (fst (trtcm_profile_config lib
      (app_flow_trtcm_profiles s ! ?n) (qer_trtcm_params qer is_uplink)))"
    using idx(2) s'(1) by (simp add: trtcmProfileForFlow_def idx(1))
  have "c \<in> {1, 2}" if "\<not> qerf_guaranteedBitrate (qer_flags qer)" "c \<noteq> -1"
    using trtcmColorHandle_cases(1,3) [OF assms(7)] that s'(2) idx(1,3) by auto
  then show ?thesis using prof assms(8) by (auto simp: trtcmPolicer_def split: if_splits)
qed

theorem non_gbr_flow_never_green_witness:
  "\<exists>s' t' c meta' r. ConfigureQerFlows plain_meter_lib example_ports example_meter
       (Some example_pdr) False = Some s' \<and>
     trtcmColorHandle plain_meter_lib s' 1000 9 (ftSearch (iPFlows s') 77)
       (trtcmProfileForFlow s' (ftSearch (iPFlows s') 77)) = (t', c) \<and> c = 1 \<and>
     trtcmPolicer \<lparr>m_action = 3, m_destination = 0, m_src = 0, m_chain_index = 0, m_flags = 0\<rparr> c =
       (meta', r) \<and> m_flags meta' = 1"
proof -
  let ?m = "\<lparr>m_action = 3, m_destination = 0, m_src = 0, m_chain_index = 0, m_flags = 0\<rparr>"
  obtain s' where s': "ConfigureQerFlows plain_meter_lib example_ports example_meter
      (Some example_pdr) False = Some s'" "ftSearch (iPFlows s') 77 = 0"
      "fm_reach plain_meter_lib example_ports s'"
    using example_configured by metis
  obtain t' c where c: "trtcmColorHandle plain_meter_lib s' 1000 9 0 (trtcmProfileForFlow s' 0) =
      (t', c)" by fastforce
  obtain meta' r where m: "trtcmPolicer ?m c = (meta', r)" by fastforce
  have g: "\<not> qerf_guaranteedBitrate (qer_flags example_mbr_qer)"
    by (simp add: example_mbr_qer_def zero_qer_def)
  have p: "fst (trtcm_profile_config plain_meter_lib p (qer_trtcm_params example_mbr_qer False)) =
      \<lparr>params_cir = 1, params_pir = 1000000, params_cbs = 2048, params_pbs = 100000\<rparr>" for p
    by (simp add: plain_meter_lib_def example_params)
  have "trtcmProfileForFlow s' 0 = Some
      \<lparr>params_cir = 1, params_pir = 1000000, params_cbs = 2048, params_pbs = 100000\<rparr> \<and>
    (c \<noteq> -1 \<longrightarrow> m_flags meta' \<in> {1, 2} \<and> (m_flags meta' = 2 \<longrightarrow> m_action meta' = 0))"
    using non_gbr_flow_never_green [OF fm_reach.start example_qer example_installs s'(1)
        rtranclp.rtrancl_refl, of 0 1000 9 t' c ?m meta' r] c m s'(2) g
    by (simp add: example_key p)
  moreover have "c = 1"
    using calculation c example_first_meter [OF s'(1)]
    by (simp add: trtcmColorHandle_def plain_meter_lib_def split_beta)
  ultimately show ?thesis using s' c m by (auto simp: trtcmPolicer_def)
qed

end
