(* ===== verification/Mbuf.thy ===== *)
theory Mbuf
  imports Upf_Prelude
begin

text \<open>
  Packet buffers. A single-segment mbuf is its buffer, a function from positions to bytes,
  with the 16-bit offset and length of the packet data in it; the C code reads header fields
  through pointers into this buffer, so a field is a number of bytes at an offset, loaded in
  the byte order of the machine (little endian). Reading past the data is reading the buffer,
  as in C. The operations of \<^verbatim>\<open>rte_mbuf.h\<close> that move the data window, and the header
  accessors and header writers of \<^verbatim>\<open>onvm/onvm_nflib/onvm_pkt_helper.c\<close> follow.
\<close>

record rte_mbuf =
  mb_buf :: "nat \<Rightarrow> u8"
  mb_buf_len :: u16
  mb_data_off :: u16
  mb_data_len :: u16
  mb_pkt_len :: u32
  mb_port :: u16

subsection \<open>Loads and stores\<close>

text \<open>\<^verbatim>\<open>rte_pktmbuf_mtod_offset\<close> followed by the load of one byte, of 16 and of 32 bits.\<close>

definition ld8 :: "rte_mbuf \<Rightarrow> nat \<Rightarrow> u8" where
  "ld8 m off = mb_buf m (unat (mb_data_off m) + off)"

definition ld16 :: "rte_mbuf \<Rightarrow> nat \<Rightarrow> u16" where
  "ld16 m off = ucast (ld8 m off) OR push_bit 8 (ucast (ld8 m (off + 1)))"

definition ld32 :: "rte_mbuf \<Rightarrow> nat \<Rightarrow> u32" where
  "ld32 m off =
     ucast (ld8 m off) OR push_bit 8 (ucast (ld8 m (off + 1))) OR
     push_bit 16 (ucast (ld8 m (off + 2))) OR push_bit 24 (ucast (ld8 m (off + 3)))"

definition st8 :: "nat \<Rightarrow> u8 \<Rightarrow> rte_mbuf \<Rightarrow> rte_mbuf" where
  "st8 off b m = m \<lparr>mb_buf := (mb_buf m)(unat (mb_data_off m) + off := b)\<rparr>"

definition st16 :: "nat \<Rightarrow> u16 \<Rightarrow> rte_mbuf \<Rightarrow> rte_mbuf" where
  "st16 off v m = st8 (off + 1) (ucast (drop_bit 8 v)) (st8 off (ucast v) m)"

definition st32 :: "nat \<Rightarrow> u32 \<Rightarrow> rte_mbuf \<Rightarrow> rte_mbuf" where
  "st32 off v m =
     st8 (off + 3) (ucast (drop_bit 24 v)) (st8 (off + 2) (ucast (drop_bit 16 v))
       (st8 (off + 1) (ucast (drop_bit 8 v)) (st8 off (ucast v) m)))"

text \<open>The bytes of a region, as a checksum routine reads them.\<close>

definition bytes_at :: "rte_mbuf \<Rightarrow> nat \<Rightarrow> nat \<Rightarrow> u8 list" where
  "bytes_at m off n = map (\<lambda>i. ld8 m (off + i)) [0..<n]"

text \<open>A 6-byte Ethernet address and its copy into a header.\<close>

type_synonym rte_ether_addr = "u8 list"

definition ld_mac :: "rte_mbuf \<Rightarrow> nat \<Rightarrow> rte_ether_addr" where
  "ld_mac m off = bytes_at m off 6"

definition st_mac :: "nat \<Rightarrow> rte_ether_addr \<Rightarrow> rte_mbuf \<Rightarrow> rte_mbuf" where
  "st_mac off a m = fold (\<lambda>i. st8 (off + i) (a ! i)) [0..<6] m"

subsection \<open>The data window\<close>

definition rte_pktmbuf_prepend :: "rte_mbuf \<Rightarrow> u16 \<Rightarrow> rte_mbuf option" where
  "rte_pktmbuf_prepend m len =
     (if len > mb_data_off m then None
      else Some (m \<lparr>mb_data_off := mb_data_off m - len, mb_data_len := mb_data_len m + len,
                    mb_pkt_len := mb_pkt_len m + ucast len\<rparr>))"

definition rte_pktmbuf_adj :: "rte_mbuf \<Rightarrow> u16 \<Rightarrow> rte_mbuf option" where
  "rte_pktmbuf_adj m len =
     (if len > mb_data_len m then None
      else Some (m \<lparr>mb_data_len := mb_data_len m - len, mb_data_off := mb_data_off m + len,
                    mb_pkt_len := mb_pkt_len m - ucast len\<rparr>))"

definition rte_pktmbuf_append :: "rte_mbuf \<Rightarrow> u16 \<Rightarrow> rte_mbuf option" where
  "rte_pktmbuf_append m len =
     (if len > mb_buf_len m - mb_data_off m - mb_data_len m then None
      else Some (m \<lparr>mb_data_len := mb_data_len m + len, mb_pkt_len := mb_pkt_len m + ucast len\<rparr>))"

text \<open>\<^verbatim>\<open>rte_pktmbuf_read\<close> on one segment: the offset itself, when the region is inside.\<close>

definition rte_pktmbuf_read :: "rte_mbuf \<Rightarrow> nat \<Rightarrow> nat \<Rightarrow> nat option" where
  "rte_pktmbuf_read m off len = (if off + len \<le> unat (mb_data_len m) then Some off else None)"

subsection \<open>Header layout\<close>

abbreviation (input) ETHER_HDR :: nat where "ETHER_HDR \<equiv> 14"
abbreviation (input) IPV4_HDR :: nat where "IPV4_HDR \<equiv> 20"
abbreviation (input) UDP_HDR :: nat where "UDP_HDR \<equiv> 8"
abbreviation (input) TCP_HDR :: nat where "TCP_HDR \<equiv> 20"

abbreviation (input) IPPROTO_ICMP :: u8 where "IPPROTO_ICMP \<equiv> 1"
abbreviation (input) IPPROTO_TCP :: u8 where "IPPROTO_TCP \<equiv> 6"
abbreviation (input) IPPROTO_UDP :: u8 where "IPPROTO_UDP \<equiv> 17"

abbreviation (input) RTE_ETHER_TYPE_IPV4 :: u16 where "RTE_ETHER_TYPE_IPV4 \<equiv> 0x0800"
abbreviation (input) RTE_ETHER_TYPE_ARP :: u16 where "RTE_ETHER_TYPE_ARP \<equiv> 0x0806"

text \<open>Fields of the Ethernet header at the front of the data.\<close>

abbreviation (input) eth_dst_addr :: "rte_mbuf \<Rightarrow> rte_ether_addr" where "eth_dst_addr m \<equiv> ld_mac m 0"
abbreviation (input) eth_src_addr :: "rte_mbuf \<Rightarrow> rte_ether_addr" where "eth_src_addr m \<equiv> ld_mac m 6"
abbreviation (input) ether_type :: "rte_mbuf \<Rightarrow> u16" where "ether_type m \<equiv> ld16 m 12"

text \<open>Fields of an IPv4 header at offset \<open>o4\<close> and of a UDP header at offset \<open>ou\<close>.\<close>

abbreviation (input) ip_version_ihl :: "rte_mbuf \<Rightarrow> nat \<Rightarrow> u8" where "ip_version_ihl m o4 \<equiv> ld8 m o4"
abbreviation (input) ip_tos :: "rte_mbuf \<Rightarrow> nat \<Rightarrow> u8" where "ip_tos m o4 \<equiv> ld8 m (o4 + 1)"
abbreviation (input) ip_total_length :: "rte_mbuf \<Rightarrow> nat \<Rightarrow> u16" where "ip_total_length m o4 \<equiv> ld16 m (o4 + 2)"
abbreviation (input) ip_next_proto_id :: "rte_mbuf \<Rightarrow> nat \<Rightarrow> u8" where "ip_next_proto_id m o4 \<equiv> ld8 m (o4 + 9)"
abbreviation (input) ip_src_addr :: "rte_mbuf \<Rightarrow> nat \<Rightarrow> u32" where "ip_src_addr m o4 \<equiv> ld32 m (o4 + 12)"
abbreviation (input) ip_dst_addr :: "rte_mbuf \<Rightarrow> nat \<Rightarrow> u32" where "ip_dst_addr m o4 \<equiv> ld32 m (o4 + 16)"
abbreviation (input) udp_src_port :: "rte_mbuf \<Rightarrow> nat \<Rightarrow> u16" where "udp_src_port m ou \<equiv> ld16 m ou"
abbreviation (input) udp_dst_port :: "rte_mbuf \<Rightarrow> nat \<Rightarrow> u16" where "udp_dst_port m ou \<equiv> ld16 m (ou + 2)"

text \<open>The length the IHL field of an IPv4 header gives.\<close>

definition ihl_len :: "u8 \<Rightarrow> nat" where
  "ihl_len version_ihl = unat (version_ihl AND 0x0F) * 4"

text \<open>The header accessors return the offset of the header, or \<open>None\<close> for \<^verbatim>\<open>NULL\<close>.\<close>

definition onvm_pkt_ether_hdr :: "rte_mbuf option \<Rightarrow> nat option" where
  "onvm_pkt_ether_hdr pkt = (case pkt of None \<Rightarrow> None | Some m \<Rightarrow> Some 0)"

definition onvm_pkt_ipv4_hdr :: "rte_mbuf \<Rightarrow> nat option" where
  "onvm_pkt_ipv4_hdr m =
     (if drop_bit 4 (ip_version_ihl m ETHER_HDR) AND 0xF \<noteq> 4 then None else Some ETHER_HDR)"

definition onvm_pkt_tcp_hdr :: "rte_mbuf \<Rightarrow> nat option" where
  "onvm_pkt_tcp_hdr m =
     (case onvm_pkt_ipv4_hdr m of
        None \<Rightarrow> None
      | Some ipv4 \<Rightarrow>
          if ip_next_proto_id m ipv4 \<noteq> IPPROTO_TCP then None else Some (ETHER_HDR + IPV4_HDR))"

definition onvm_pkt_udp_hdr :: "rte_mbuf \<Rightarrow> nat option" where
  "onvm_pkt_udp_hdr m =
     (case onvm_pkt_ipv4_hdr m of
        None \<Rightarrow> None
      | Some ipv4 \<Rightarrow>
          if ip_next_proto_id m ipv4 \<noteq> IPPROTO_UDP then None else Some (ETHER_HDR + IPV4_HDR))"

definition onvm_pkt_is_tcp :: "rte_mbuf \<Rightarrow> bool" where
  "onvm_pkt_is_tcp m = (onvm_pkt_tcp_hdr m \<noteq> None)"

definition onvm_pkt_is_udp :: "rte_mbuf \<Rightarrow> bool" where
  "onvm_pkt_is_udp m = (onvm_pkt_udp_hdr m \<noteq> None)"

definition onvm_pkt_is_ipv4 :: "rte_mbuf \<Rightarrow> bool" where
  "onvm_pkt_is_ipv4 m = (onvm_pkt_ipv4_hdr m \<noteq> None)"

text \<open>The header writers, on a header at the given offset.\<close>

definition onvm_pkt_fill_udp :: "nat \<Rightarrow> u16 \<Rightarrow> u16 \<Rightarrow> u16 \<Rightarrow> rte_mbuf \<Rightarrow> rte_mbuf" where
  "onvm_pkt_fill_udp udp_hdr src_port dst_port payload_len m =
     (let m = st16 udp_hdr (rte_cpu_to_be_16 src_port) m;
          m = st16 (udp_hdr + 2) (rte_cpu_to_be_16 dst_port) m;
          m = st16 (udp_hdr + 6) 0 m
      in st16 (udp_hdr + 4) (rte_cpu_to_be_16 (payload_len + 8)) m)"

definition onvm_pkt_fill_ipv4 :: "nat \<Rightarrow> u32 \<Rightarrow> u32 \<Rightarrow> u8 \<Rightarrow> rte_mbuf \<Rightarrow> rte_mbuf" where
  "onvm_pkt_fill_ipv4 iph src dst l4_proto m =
     (let m = st32 (iph + 12) (rte_cpu_to_be_32 src) m;
          m = st32 (iph + 16) (rte_cpu_to_be_32 dst) m;
          m = st8 (iph + 9) l4_proto m;
          m = st8 iph 69 m;
          m = st8 (iph + 8) 64 m
      in st16 (iph + 10) 0 m)"

definition onvm_pkt_swap_ether_hdr :: "rte_mbuf \<Rightarrow> rte_mbuf" where
  "onvm_pkt_swap_ether_hdr m =
     (let temp = eth_src_addr m
      in st_mac 0 temp (st_mac 6 (eth_dst_addr m) m))"

definition onvm_pkt_swap_ip_hdr :: "nat \<Rightarrow> rte_mbuf \<Rightarrow> rte_mbuf" where
  "onvm_pkt_swap_ip_hdr iph m =
     (let temp_ip = ip_src_addr m iph;
          m = st32 (iph + 12) (ip_dst_addr m iph) m
      in st32 (iph + 16) temp_ip m)"

definition onvm_pkt_swap_tcp_hdr :: "nat \<Rightarrow> rte_mbuf \<Rightarrow> rte_mbuf" where
  "onvm_pkt_swap_tcp_hdr tcp m =
     (let temp_port = ld16 m tcp;
          m = st16 tcp (ld16 m (tcp + 2)) m
      in st16 (tcp + 2) temp_port m)"

subsection \<open>What a load sees after a store\<close>

lemma st_frame [simp]:
  "mb_data_off (st8 i b m) = mb_data_off m" "mb_data_len (st8 i b m) = mb_data_len m"
  "mb_pkt_len (st8 i b m) = mb_pkt_len m" "mb_port (st8 i b m) = mb_port m"
  "mb_buf_len (st8 i b m) = mb_buf_len m"
  by (simp_all add: st8_def)

lemma st16_frame [simp]:
  "mb_data_off (st16 i v m) = mb_data_off m" "mb_data_len (st16 i v m) = mb_data_len m"
  "mb_pkt_len (st16 i v m) = mb_pkt_len m" "mb_port (st16 i v m) = mb_port m"
  "mb_buf_len (st16 i v m) = mb_buf_len m"
  by (simp_all add: st16_def)

lemma st32_frame [simp]:
  "mb_data_off (st32 i w m) = mb_data_off m" "mb_data_len (st32 i w m) = mb_data_len m"
  "mb_pkt_len (st32 i w m) = mb_pkt_len m" "mb_port (st32 i w m) = mb_port m"
  "mb_buf_len (st32 i w m) = mb_buf_len m"
  by (simp_all add: st32_def)

lemma ld8_st8 [simp]: "ld8 (st8 i b m) j = (if j = i then b else ld8 m j)"
  by (simp add: ld8_def st8_def)

lemma ld8_st16 [simp]:
  "ld8 (st16 i v m) j =
     (if j = i then ucast v else if j = i + 1 then ucast (drop_bit 8 v) else ld8 m j)"
  by (simp add: st16_def)

lemma ld8_st32 [simp]:
  "ld8 (st32 i v m) j =
     (if j = i then ucast v else if j = i + 1 then ucast (drop_bit 8 v)
      else if j = i + 2 then ucast (drop_bit 16 v)
      else if j = i + 3 then ucast (drop_bit 24 v) else ld8 m j)"
  by (simp add: st32_def)

lemma join16: "ucast (ucast v :: u8) OR push_bit 8 (ucast (ucast (drop_bit 8 v) :: u8)) = (v :: u16)"
  by (rule bit_eqI)
    (auto simp: bit_or_iff bit_push_bit_iff bit_ucast_iff bit_drop_bit_eq dest: bit_imp_le_length)

lemma join32:
  "ucast (ucast v :: u8) OR push_bit 8 (ucast (ucast (drop_bit 8 v) :: u8)) OR
     push_bit 16 (ucast (ucast (drop_bit 16 v) :: u8)) OR
     push_bit 24 (ucast (ucast (drop_bit 24 v) :: u8)) = (v :: u32)"
proof (rule bit_eqI)
  fix n assume "possible_bit TYPE(u32) n"
  then consider "n < 8" | "8 \<le> n" "n < 16" | "16 \<le> n" "n < 24" | "24 \<le> n" "n < 32"
    by (simp, linarith)
  then show "bit (ucast (ucast v :: u8) OR push_bit 8 (ucast (ucast (drop_bit 8 v) :: u8)) OR
     push_bit 16 (ucast (ucast (drop_bit 16 v) :: u8)) OR
     push_bit 24 (ucast (ucast (drop_bit 24 v) :: u8)) :: u32) n = bit v n"
    by cases (auto simp: bit_or_iff bit_push_bit_iff bit_ucast_iff bit_drop_bit_eq)
qed

lemma ld16_st16_same [simp]: "ld16 (st16 i v m) i = v"
  by (simp add: ld16_def join16)

lemma ld32_st32_same [simp]: "ld32 (st32 i v m) i = v"
  by (simp add: ld32_def join32)

text \<open>A load that a store does not overlap.\<close>

lemma ld16_other:
  "j \<noteq> i \<Longrightarrow> j + 1 \<noteq> i \<Longrightarrow> ld16 (st8 i b m) j = ld16 m j"
  "j + 1 < i \<or> i + 1 < j \<Longrightarrow> ld16 (st16 i v m) j = ld16 m j"
  "j + 1 < i \<or> i + 3 < j \<Longrightarrow> ld16 (st32 i w m) j = ld16 m j"
  by (auto simp: ld16_def)

lemma ld32_other:
  "j + 3 < i \<or> i < j \<Longrightarrow> ld32 (st8 i b m) j = ld32 m j"
  "j + 3 < i \<or> i + 1 < j \<Longrightarrow> ld32 (st16 i v m) j = ld32 m j"
  "j + 3 < i \<or> i + 3 < j \<Longrightarrow> ld32 (st32 i w m) j = ld32 m j"
  by (auto simp: ld32_def)

text \<open>Single bytes of a 16-bit or 32-bit field in network byte order.\<close>

lemma ld_bswap16:
  "ucast (rte_bswap16 v) = (ucast (drop_bit 8 v) :: u8)"
  "ucast (drop_bit 8 (rte_bswap16 v)) = (ucast v :: u8)"
  by (rule bit_eqI; auto simp: rte_bswap16_def bit_or_iff bit_push_bit_iff bit_ucast_iff
      bit_drop_bit_eq dest: bit_imp_le_length)+

lemma ucast_u8_u16_u8: "ucast (ucast (x :: u8) :: u16) = x"
  by (rule bit_eqI) (auto simp: bit_ucast_iff)

lemma length_bytes_at [simp]: "length (bytes_at m off n) = n"
  by (simp add: bytes_at_def)

lemma length_ld_mac [simp]: "length (ld_mac m off) = 6"
  by (simp add: ld_mac_def)

lemma st_mac_unfold:
  "st_mac off a m = st8 (off + 5) (a ! 5) (st8 (off + 4) (a ! 4) (st8 (off + 3) (a ! 3)
     (st8 (off + 2) (a ! 2) (st8 (off + 1) (a ! 1) (st8 off (a ! 0) m)))))"
  by (simp add: st_mac_def upt_rec numeral_eq_Suc)

lemma ld8_st_mac:
  "ld8 (st_mac off a m) j = (if off \<le> j \<and> j < off + 6 then a ! (j - off) else ld8 m j)"
proof -
  have c: "\<And>k. k < off \<or> k \<ge> off + 6 \<or> k = off \<or> k = off + 1 \<or> k = off + 2 \<or> k = off + 3 \<or> k = off + 4
    \<or> k = off + 5" by arith
  show ?thesis using c [of j] by (auto simp: st_mac_unfold)
qed

lemma st_mac_frame [simp]:
  "mb_data_off (st_mac i a m) = mb_data_off m" "mb_data_len (st_mac i a m) = mb_data_len m"
  "mb_pkt_len (st_mac i a m) = mb_pkt_len m" "mb_port (st_mac i a m) = mb_port m"
  "mb_buf_len (st_mac i a m) = mb_buf_len m"
  by (simp_all add: st_mac_unfold)

lemma ld_mac_st_mac [simp]: "length a = 6 \<Longrightarrow> ld_mac (st_mac off a m) off = a"
  by (auto simp: ld_mac_def bytes_at_def ld8_st_mac intro!: nth_equalityI)

lemma ld_st_mac_other:
  "j + 1 < i \<or> i + 5 < j \<Longrightarrow> ld16 (st_mac i a m) j = ld16 m j"
  "j + 3 < i \<or> i + 5 < j \<Longrightarrow> ld32 (st_mac i a m) j = ld32 m j"
  by (auto simp: ld16_def ld32_def ld8_st_mac)

lemma ld_mac_other:
  "j + 5 < i \<or> i < j \<Longrightarrow> ld_mac (st8 i b m) j = ld_mac m j"
  "j + 5 < i \<or> i + 1 < j \<Longrightarrow> ld_mac (st16 i v m) j = ld_mac m j"
  "j + 5 < i \<or> i + 3 < j \<Longrightarrow> ld_mac (st32 i w m) j = ld_mac m j"
  "j + 5 < i \<or> i + 5 < j \<Longrightarrow> ld_mac (st_mac i a m) j = ld_mac m j"
  by (auto simp: ld_mac_def bytes_at_def ld8_st_mac)

lemmas ld_other = ld16_other ld32_other ld_st_mac_other ld_mac_other

text \<open>What a load sees does not depend on the lengths and the port.\<close>

lemma ld_port [simp]:
  "ld8 (m \<lparr>mb_port := p\<rparr>) j = ld8 m j" "ld16 (m \<lparr>mb_port := p\<rparr>) j = ld16 m j"
  "ld32 (m \<lparr>mb_port := p\<rparr>) j = ld32 m j" "ld_mac (m \<lparr>mb_port := p\<rparr>) j = ld_mac m j"
  by (simp_all add: ld8_def ld16_def ld32_def ld_mac_def bytes_at_def)

text \<open>Moving the window: prepending and then dropping the same bytes gives the packet back.\<close>

lemma prepend_SomeD:
  assumes "rte_pktmbuf_prepend m len = Some m'"
  shows "unat (mb_data_off m) = unat (mb_data_off m') + unat len"
    and "mb_data_len m' = mb_data_len m + len" and "mb_pkt_len m' = mb_pkt_len m + ucast len"
    and "mb_buf m' = mb_buf m" and "mb_port m' = mb_port m"
    and "\<And>j. ld8 m' (unat len + j) = ld8 m j"
proof -
  have le: "len \<le> mb_data_off m" using assms by (auto simp: rte_pktmbuf_prepend_def split: if_splits)
  then show o: "unat (mb_data_off m) = unat (mb_data_off m') + unat len"
    using assms by (auto simp: rte_pktmbuf_prepend_def unat_minus_le word_le_nat_alt split: if_splits)
  show "mb_data_len m' = mb_data_len m + len" "mb_pkt_len m' = mb_pkt_len m + ucast len"
    and b: "mb_buf m' = mb_buf m" and "mb_port m' = mb_port m"
    using assms by (auto simp: rte_pktmbuf_prepend_def split: if_splits)
  show "ld8 m' (unat len + j) = ld8 m j" for j by (simp add: ld8_def b o add.assoc)
qed

lemma prepend_adj:
  assumes "rte_pktmbuf_prepend m len = Some m'" "unat (mb_data_len m) + unat len < 65536"
  shows "rte_pktmbuf_adj m' len = Some m"
proof -
  have "unat (mb_data_len m + len) = unat (mb_data_len m) + unat len"
    using assms(2) by (simp add: unat_word_ariths)
  then show ?thesis
    using assms(1) by (auto simp: rte_pktmbuf_prepend_def rte_pktmbuf_adj_def word_less_nat_alt
        split: if_splits)
qed

end
