(* ===== verification/Gtp.thy ===== *)
theory Gtp
  imports Mbuf Upf_Rules
begin

text \<open>
  GTP-U encapsulation: the header parsers of \<^verbatim>\<open>onvm/upf/gtp.h\<close> and \<^verbatim>\<open>Encap\<close> of
  \<^verbatim>\<open>5gc/upf_u/upf_u.c\<close>. The extension-header loop of \<^verbatim>\<open>parse_gtpu_once\<close> moves forward in a
  bounded packet and is a total function; the two older length routines re-read one fixed
  header in their loop and may run for ever, so they are \<open>partial_function\<close>s.
\<close>

abbreviation (input) GTPV1_HDR :: nat where "GTPV1_HDR \<equiv> 8"
abbreviation (input) GTPV1_OPT :: nat where "GTPV1_OPT \<equiv> 4"
abbreviation (input) PSC_HDR :: nat where "PSC_HDR \<equiv> 4"
abbreviation (input) UDP_PORT_FOR_GTP :: u16 where "UDP_PORT_FOR_GTP \<equiv> 2152"
abbreviation (input) GTPV1_NEXT_EXT_HDR_TYPE_85 :: u8 where "GTPV1_NEXT_EXT_HDR_TYPE_85 \<equiv> 0x85"
abbreviation (input) GTP1_F_MASK :: u8 where "GTP1_F_MASK \<equiv> 0x07"
abbreviation (input) GTP1_F_EXTHDR :: u8 where "GTP1_F_EXTHDR \<equiv> 0x04"

record gtp_parse_result_t =
  gtp_teid :: u32
  gtp_qfi :: u8
  gtp_hdr_len :: u16
  gtp_outer_hdr_len :: u16
  gtp_valid :: bool

datatype GTP_HDR_TYPE = v1_with_last_row | v1_without_last_row | v2_with_teid | v2_without_teid

subsection \<open>Header classification\<close>

definition get_gtp_version :: "u8 \<Rightarrow> u8" where
  "get_gtp_version gtp_hdr_info = drop_bit 5 gtp_hdr_info AND 0x3"

text \<open>The GTP header is at a fixed offset here; \<open>None\<close> is \<^verbatim>\<open>-EINVAL\<close>.\<close>

definition parse_gtp_packet :: "rte_mbuf \<Rightarrow> nat \<Rightarrow> (GTP_HDR_TYPE \<times> nat) option" where
  "parse_gtp_packet m udp_hdr =
     (if rte_be_to_cpu_16 (udp_dst_port m udp_hdr) \<noteq> UDP_PORT_FOR_GTP then None
      else let off = ETHER_HDR + IPV4_HDR + UDP_HDR;
               gtp_hdr_info = ld8 m off;
               gtp_version = get_gtp_version gtp_hdr_info;
               has_last_row = gtp_hdr_info AND 0x7 > 0;
               has_teid_row = drop_bit 3 gtp_hdr_info AND 0x1 > 0
           in if gtp_version = 1 then
                Some (if has_last_row then v1_with_last_row else v1_without_last_row, off)
              else if gtp_version = 2 then
                Some (if has_teid_row then v2_with_teid else v2_without_teid, off)
              else None)"

text \<open>
  The result type is \<^verbatim>\<open>int32_t\<close>: a TEID is returned as its two's complement value and -1 is
  both the error and the TEID 0xFFFFFFFF.
\<close>

definition get_teid_gtp_packet :: "rte_mbuf \<Rightarrow> nat \<Rightarrow> int" where
  "get_teid_gtp_packet m udp_hdr =
     (case parse_gtp_packet m udp_hdr of
        None \<Rightarrow> -1
      | Some (v2_without_teid, off) \<Rightarrow> 0
      | Some (_, off) \<Rightarrow> sint (rte_be_to_cpu_32 (ld32 m (off + 4))))"

subsection \<open>Length of the GTP-U header\<close>

text \<open>
  The loops of the two older routines. Both read the PDU session container at one fixed
  offset, whatever the iteration; the first leaves an unknown type unchanged and so never
  returns on one.
\<close>

partial_function (option) gtpu_len_loop :: "rte_mbuf \<Rightarrow> nat \<Rightarrow> u8 \<Rightarrow> u16 \<Rightarrow> u16 option" where
  "gtpu_len_loop m psc next_ehdr_type gtp_len =
     (if next_ehdr_type = 0 then Some gtp_len
      else if next_ehdr_type = GTPV1_NEXT_EXT_HDR_TYPE_85
      then gtpu_len_loop m psc (ld8 m (psc + 3)) (gtp_len + ucast (ld8 m psc) * 4)
      else gtpu_len_loop m psc next_ehdr_type gtp_len)"

definition get_gtpu_header_len :: "rte_mbuf \<Rightarrow> u16 option" where
  "get_gtpu_header_len m =
     (let off = IPV4_HDR + UDP_HDR; flags = ld8 m off
      in if flags AND GTP1_F_MASK = 0 then Some 8
         else if flags AND GTP1_F_EXTHDR = 0 then Some 12
         else gtpu_len_loop m (off + GTPV1_HDR + GTPV1_OPT) (ld8 m (off + GTPV1_HDR + 3)) 12)"

partial_function (option) gtpu_qfi_loop ::
  "rte_mbuf \<Rightarrow> nat \<Rightarrow> u8 \<Rightarrow> u16 \<Rightarrow> u8 \<Rightarrow> (u16 \<times> u8) option" where
  "gtpu_qfi_loop m psc next_ehdr_type gtp_len qfi =
     (if next_ehdr_type = 0 then Some (gtp_len, qfi)
      else if next_ehdr_type = GTPV1_NEXT_EXT_HDR_TYPE_85
      then gtpu_qfi_loop m psc (ld8 m (psc + 3)) (gtp_len + ucast (ld8 m psc) * 4)
             (ld8 m (psc + 2) AND 0x3F)
      else gtpu_qfi_loop m psc 0 gtp_len qfi)"

definition get_gtpu_header_len_with_qfi :: "rte_mbuf \<Rightarrow> (u16 \<times> u8) option" where
  "get_gtpu_header_len_with_qfi m =
     (let off = ETHER_HDR + IPV4_HDR + UDP_HDR; flags = ld8 m off
      in if flags AND GTP1_F_MASK = 0 then Some (8, 0)
         else if flags AND GTP1_F_EXTHDR = 0 then Some (12, 0)
         else gtpu_qfi_loop m (off + GTPV1_HDR + GTPV1_OPT) (ld8 m (off + GTPV1_HDR + 3)) 12 0)"

text \<open>The loop of \<^verbatim>\<open>parse_gtpu_once\<close>; \<open>None\<close> is its \<^verbatim>\<open>return -1\<close>.\<close>

function gtp_ext_loop :: "rte_mbuf \<Rightarrow> u8 \<Rightarrow> nat \<Rightarrow> u8 \<Rightarrow> u16 \<Rightarrow> (u8 \<times> u16) option" where
  "gtp_ext_loop m next_type ext_offset qfi hdr_len =
     (if next_type = 0 then Some (qfi, hdr_len)
      else if next_type = GTPV1_NEXT_EXT_HDR_TYPE_85 then
        if ext_offset + PSC_HDR > unat (mb_data_len m) then None
        else if unat (ld8 m ext_offset) * 4 = 0 \<or>
                ext_offset + unat (ld8 m ext_offset) * 4 > unat (mb_data_len m) then None
        else gtp_ext_loop m (ld8 m (ext_offset + 3)) (ext_offset + unat (ld8 m ext_offset) * 4)
               (ld8 m (ext_offset + 2) AND 0x3F)
               (hdr_len + of_nat (unat (ld8 m ext_offset) * 4))
      else
        if ext_offset + 1 > unat (mb_data_len m) then None
        else if unat (ld8 m ext_offset) * 4 = 0 \<or>
                ext_offset + unat (ld8 m ext_offset) * 4 > unat (mb_data_len m) then None
        else gtp_ext_loop m (ld8 m (ext_offset + unat (ld8 m ext_offset) * 4 - 1))
               (ext_offset + unat (ld8 m ext_offset) * 4) qfi
               (hdr_len + of_nat (unat (ld8 m ext_offset) * 4)))"
  by pat_completeness auto
termination
  by (relation "measure (\<lambda>(m, next_type, ext_offset, qfi, hdr_len).
      unat (mb_data_len m) - ext_offset)") auto

declare gtp_ext_loop.simps [simp del]

text \<open>\<open>None\<close> is the result -1. The caller looks at the out parameter only after a result 0.\<close>

definition parse_gtpu_once :: "rte_mbuf \<Rightarrow> gtp_parse_result_t option" where
  "parse_gtpu_once m =
     (if unat (mb_data_len m) < ETHER_HDR + IPV4_HDR + UDP_HDR + GTPV1_HDR then None
      else let ip_hdr_len = ihl_len (ip_version_ihl m ETHER_HDR) in
        if udp_dst_port m (ETHER_HDR + ip_hdr_len) \<noteq> rte_cpu_to_be_16 UDP_PORT_FOR_GTP then None
        else
          let gtp = ETHER_HDR + ip_hdr_len + UDP_HDR;
              teid = rte_be_to_cpu_32 (ld32 m (gtp + 4));
              flags = ld8 m gtp;
              ext = (if flags AND GTP1_F_MASK = 0 then Some (0, 8)
                     else if flags AND GTP1_F_EXTHDR = 0 then Some (0, 12)
                     else gtp_ext_loop m (ld8 m (gtp + GTPV1_HDR + 3))
                            (gtp + GTPV1_HDR + GTPV1_OPT) 0 12)
          in map_option (\<lambda>(qfi, hdr_len).
               \<lparr>gtp_teid = teid, gtp_qfi = qfi, gtp_hdr_len = hdr_len,
                gtp_outer_hdr_len = of_nat ip_hdr_len + 8 + hdr_len, gtp_valid = True\<rparr>) ext)"

subsection \<open>Encapsulation\<close>

definition gtpv1_set_header :: "nat \<Rightarrow> u16 \<Rightarrow> u32 \<Rightarrow> rte_mbuf \<Rightarrow> rte_mbuf" where
  "gtpv1_set_header gtp payload_len teid m =
     st32 (gtp + 4) (rte_cpu_to_be_32 teid)
       (st16 (gtp + 2) (rte_cpu_to_be_16 payload_len) (st8 (gtp + 1) 255 (st8 gtp 0x30 m)))"

text \<open>The extension header with the QFI that \<^verbatim>\<open>Encap\<close> adds for a QER.\<close>

definition encap_qfi :: "nat \<Rightarrow> UPDK_QER \<Rightarrow> rte_mbuf \<Rightarrow> rte_mbuf" where
  "encap_qfi gtp qer m =
     (let m = st8 gtp (ld8 m gtp OR GTP1_F_EXTHDR) m;
          opt = gtp + GTPV1_HDR;
          m = st8 (opt + 3) GTPV1_NEXT_EXT_HDR_TYPE_85 (st8 (opt + 2) 0 (st16 opt 0 m));
          psc = opt + GTPV1_OPT
      in st8 (psc + 3) 0 (st16 (psc + 1) (rte_cpu_to_be_16 (ucast (QERGetQFI qer)))
           (st8 psc 1 m)))"

text \<open>
  \<^verbatim>\<open>Encap\<close> does not look at the result of \<^verbatim>\<open>rte_pktmbuf_prepend\<close>: without enough headroom the
  headers are written over the packet. \<open>ipv4_cksum\<close> is \<^verbatim>\<open>rte_ipv4_cksum\<close>, a function of the
  20 header bytes.
\<close>

definition Encap ::
  "(u8 list \<Rightarrow> u16) \<Rightarrow> u32 \<Rightarrow> rte_mbuf \<Rightarrow> UPDK_FAR \<Rightarrow> UPDK_QER option \<Rightarrow> rte_mbuf" where
  "Encap ipv4_cksum n3_ip_be pkt far qer_ptr =
     (let ohc = fp_outerHeaderCreation (far_forwardingParameters far);
          outerHeaderLen = (if qer_ptr \<noteq> None then 44 else 36 :: u16);
          payloadLen = (if qer_ptr \<noteq> None then mb_data_len pkt + 8 else mb_data_len pkt);
          m = (case rte_pktmbuf_prepend pkt outerHeaderLen of None \<Rightarrow> pkt | Some m \<Rightarrow> m);
          gtp = IPV4_HDR + UDP_HDR;
          m = gtpv1_set_header gtp payloadLen (ohc_teid ohc) m;
          m = (case qer_ptr of None \<Rightarrow> m | Some qer \<Rightarrow> encap_qfi gtp qer m);
          m = onvm_pkt_fill_udp IPV4_HDR UDP_PORT_FOR_GTP UDP_PORT_FOR_GTP (payloadLen + 8) m;
          m = onvm_pkt_fill_ipv4 0 (rte_cpu_to_be_32 n3_ip_be) (rte_cpu_to_be_32 (ohc_ipv4 ohc))
                IPPROTO_UDP m;
          m = st16 2 (rte_cpu_to_be_16 (payloadLen + 36)) m
      in st16 10 (ipv4_cksum (bytes_at m 0 20)) m)"

subsection \<open>The extension-header walk\<close>

lemma and_3F_less: "unat (x AND 0x3F :: u8) < 64"
proof -
  have "x AND 0x3F \<le> (0x3F :: u8)" by (rule word_and_le1)
  then show ?thesis by (simp add: word_le_nat_alt)
qed

text \<open>
  A walk that succeeds has gone over whole extension headers inside the packet: the header
  length it reports grows by the distance walked, without wrapping.
\<close>

lemma gtp_ext_loop_Some:
  assumes "gtp_ext_loop m t off q hl = Some (q', hl')" "unat hl \<le> off"
  shows "unat hl \<le> unat hl' \<and> 4 dvd (unat hl' - unat hl) \<and> (unat q < 64 \<longrightarrow> unat q' < 64) \<and>
    (if t = 0 then hl' = hl \<and> q' = q else off + (unat hl' - unat hl) \<le> unat (mb_data_len m))"
  using assms
proof (induction m t off q hl rule: gtp_ext_loop.induct)
  case (1 m t off q hl)
  define n where "n = unat (ld8 m off) * 4"
  show ?case
  proof (cases "t = 0")
    case True
    then show ?thesis using "1.prems"(1) by (simp add: gtp_ext_loop.simps)
  next
    case False
    define t' where "t' = (if t = 0x85 then ld8 m (off + 3) else ld8 m (off + n - 1))"
    define q1 where "q1 = (if t = 0x85 then ld8 m (off + 2) AND 0x3F else q)"
    have step: "n \<noteq> 0" "off + n \<le> unat (mb_data_len m)"
        "gtp_ext_loop m t' (off + n) q1 (hl + of_nat n) = Some (q', hl')"
      using "1.prems"(1) False
      by (subst (asm) gtp_ext_loop.simps; auto simp: n_def t'_def q1_def split: if_splits)+
    have "unat (hl + of_nat n) = unat hl + n"
      using step(2) "1.prems"(2) u16_less [of "mb_data_len m"]
      by (simp add: unat_word_ariths unat_of_nat)
    note hl1 = this
    have IH: "unat (hl + of_nat n) \<le> unat hl' \<and> 4 dvd (unat hl' - unat (hl + of_nat n)) \<and>
        (unat q1 < 64 \<longrightarrow> unat q' < 64) \<and>
        (if t' = 0 then hl' = hl + of_nat n \<and> q' = q1
         else off + n + (unat hl' - unat (hl + of_nat n)) \<le> unat (mb_data_len m))"
    proof (cases "t = 0x85")
      case True
      then show ?thesis
        using "1.IH"(1) "1.prems"(1,2) step hl1
        by (subst (asm) gtp_ext_loop.simps) (auto simp: n_def t'_def q1_def split: if_splits)
    next
      case nP: False
      then show ?thesis
        using "1.IH"(2) "1.prems"(1,2) step hl1 False
        by (subst (asm) gtp_ext_loop.simps) (auto simp: n_def t'_def q1_def split: if_splits)
    qed
    have "unat hl' - unat hl = n + (unat hl' - unat (hl + of_nat n))"
      using IH hl1 by simp
    moreover have "4 dvd n" by (simp add: n_def)
    ultimately have "4 dvd (unat hl' - unat hl)" using IH by (metis dvd_add)
    moreover have "unat q < 64 \<Longrightarrow> unat q1 < 64" by (simp add: q1_def and_3F_less)
    ultimately show ?thesis using IH False step(2) hl1 by (auto split: if_splits)
  qed
qed

lemma ihl_len_le: "ihl_len v \<le> 60"
proof -
  have "v AND 0x0F \<le> (0x0F :: u8)" by (rule word_and_le1)
  then show ?thesis by (simp add: ihl_len_def word_le_nat_alt)
qed

text \<open>
  C19. What \<^verbatim>\<open>parse_gtpu_once\<close> reports is safe to remove. On success the outer header length is
  the exact sum of the IP, UDP and GTP headers (no 16-bit wrap-around), the GTP header is a
  multiple of four bytes, the QFI fits its six bits, and whenever an extension header was
  walked the whole outer header lies inside the packet data.
\<close>

theorem parse_gtpu_once_bounds:
  assumes "parse_gtpu_once m = Some r"
  shows "unat (gtp_outer_hdr_len r) =
      ihl_len (ip_version_ihl m ETHER_HDR) + 8 + unat (gtp_hdr_len r) \<and>
    4 dvd unat (gtp_hdr_len r) \<and> unat (gtp_qfi r) < 64 \<and> gtp_valid r \<and>
    (gtp_hdr_len r = 8 \<or> gtp_hdr_len r = 12 \<or>
     ETHER_HDR + unat (gtp_outer_hdr_len r) \<le> unat (mb_data_len m))"
proof -
  let ?ihl = "ihl_len (ip_version_ihl m ETHER_HDR)" and ?dl = "unat (mb_data_len m)"
  let ?off = "ETHER_HDR + ?ihl + UDP_HDR + GTPV1_HDR + GTPV1_OPT"
  let ?t = "ld8 m (ETHER_HDR + ?ihl + UDP_HDR + GTPV1_HDR + 3)"
  have "(\<exists>tid q hl. r = \<lparr>gtp_teid = tid, gtp_qfi = q, gtp_hdr_len = hl,
      gtp_outer_hdr_len = of_nat ?ihl + 8 + hl, gtp_valid = True\<rparr> \<and>
      (q = 0 \<and> (hl = 8 \<or> hl = 12) \<or> gtp_ext_loop m ?t ?off 0 12 = Some (q, hl)))"
    using assms by (auto simp: parse_gtpu_once_def Let_def split: if_splits)
  then obtain tid q hl where r: "r = \<lparr>gtp_teid = tid, gtp_qfi = q, gtp_hdr_len = hl,
      gtp_outer_hdr_len = of_nat ?ihl + 8 + hl, gtp_valid = True\<rparr>"
    and e: "q = 0 \<and> (hl = 8 \<or> hl = 12) \<or> gtp_ext_loop m ?t ?off 0 12 = Some (q, hl)"
    by blast
  have ext: "12 \<le> unat hl \<and> 4 dvd (unat hl - 12) \<and> unat q < 64 \<and>
      (hl = 12 \<or> ?off + (unat hl - 12) \<le> ?dl)" if "gtp_ext_loop m ?t ?off 0 12 = Some (q, hl)"
    using gtp_ext_loop_Some [OF that] by (auto split: if_splits)
  have hl: "4 dvd unat hl \<and> unat q < 64 \<and> (hl = 8 \<or> hl = 12 \<or> 14 + ?ihl + 8 + unat hl \<le> ?dl)"
  proof (cases "gtp_ext_loop m ?t ?off 0 12 = Some (q, hl)")
    case True
    with ext have "12 \<le> unat hl" "4 dvd (unat hl - 12)" "unat q < 64"
      "hl = 12 \<or> ?off + (unat hl - 12) \<le> ?dl" by blast+
    moreover have "4 dvd unat hl"
      using calculation(1,2) dvd_add [of 4 "unat hl - 12" 12] by simp
    ultimately show ?thesis by auto
  next
    case False
    with e show ?thesis by auto
  qed
  have "?ihl + 8 + unat hl < 65536"
    using hl ihl_len_le [of "ip_version_ihl m ETHER_HDR"] u16_less [of "mb_data_len m"] by auto
  then have "unat (of_nat ?ihl + 8 + hl) = ?ihl + 8 + unat hl"
    by (simp add: unat_word_ariths unat_of_nat)
  with hl show ?thesis by (auto simp: r)
qed

text \<open>A packet of the size of an mbuf of the pool, with room for the outer headers.\<close>

definition example_mbuf :: rte_mbuf where
  "example_mbuf = \<lparr>mb_buf = (\<lambda>_. 0), mb_buf_len = 2176, mb_data_off = 128, mb_data_len = 100,
     mb_pkt_len = 100, mb_port = 0\<rparr>"

subsection \<open>Encapsulation and parsing\<close>

lemma gtpv1_set_header_frame [simp]:
  "mb_data_off (gtpv1_set_header g p t m) = mb_data_off m"
  "mb_data_len (gtpv1_set_header g p t m) = mb_data_len m"
  "mb_pkt_len (gtpv1_set_header g p t m) = mb_pkt_len m"
  by (simp_all add: gtpv1_set_header_def)

lemma encap_qfi_frame [simp]:
  "mb_data_off (encap_qfi g q m) = mb_data_off m" "mb_data_len (encap_qfi g q m) = mb_data_len m"
  "mb_pkt_len (encap_qfi g q m) = mb_pkt_len m"
  by (simp_all add: encap_qfi_def Let_def)

lemma fill_frame [simp]:
  "mb_data_off (onvm_pkt_fill_udp u a b c m) = mb_data_off m"
  "mb_data_len (onvm_pkt_fill_udp u a b c m) = mb_data_len m"
  "mb_pkt_len (onvm_pkt_fill_udp u a b c m) = mb_pkt_len m"
  "mb_data_off (onvm_pkt_fill_ipv4 i s d l m) = mb_data_off m"
  "mb_data_len (onvm_pkt_fill_ipv4 i s d l m) = mb_data_len m"
  "mb_pkt_len (onvm_pkt_fill_ipv4 i s d l m) = mb_pkt_len m"
  by (simp_all add: onvm_pkt_fill_udp_def onvm_pkt_fill_ipv4_def Let_def)

lemmas encap_defs = gtpv1_set_header_def encap_qfi_def onvm_pkt_fill_udp_def
  onvm_pkt_fill_ipv4_def Let_def

text \<open>The bytes \<^verbatim>\<open>Encap\<close> writes, given that the headroom was enough.\<close>

abbreviation encap_len :: "UPDK_QER option \<Rightarrow> u16" where
  "encap_len qer_ptr \<equiv> (if qer_ptr \<noteq> None then 44 else 36)"

abbreviation encap_payload :: "rte_mbuf \<Rightarrow> UPDK_QER option \<Rightarrow> u16" where
  "encap_payload pkt qer_ptr \<equiv>
     (if qer_ptr \<noteq> None then mb_data_len pkt + 8 else mb_data_len pkt)"

abbreviation far_ohc :: "UPDK_FAR \<Rightarrow> UPDK_OuterHeaderCreation" where
  "far_ohc far \<equiv> fp_outerHeaderCreation (far_forwardingParameters far)"

lemma Encap_unfold:
  assumes "rte_pktmbuf_prepend pkt (encap_len qer_ptr) = Some m"
  obtains M where
    "Encap cks ip pkt far qer_ptr = st16 10 (cks (bytes_at M 0 20)) M"
    "M = st16 2 (rte_bswap16 (encap_payload pkt qer_ptr + 36))
      (onvm_pkt_fill_ipv4 0 (rte_bswap32 ip) (rte_bswap32 (ohc_ipv4 (far_ohc far))) 17
        (onvm_pkt_fill_udp 20 2152 2152 (encap_payload pkt qer_ptr + 8)
          (case qer_ptr of
             None \<Rightarrow> gtpv1_set_header 28 (encap_payload pkt qer_ptr) (ohc_teid (far_ohc far)) m
           | Some qer \<Rightarrow> encap_qfi 28 qer
               (gtpv1_set_header 28 (encap_payload pkt qer_ptr) (ohc_teid (far_ohc far)) m))))"
  using assms by (cases qer_ptr) (simp_all add: Encap_def Let_def)

lemma Encap_bytes:
  fixes cks :: "u8 list \<Rightarrow> u16" and ip :: u32 and far :: UPDK_FAR and qer :: UPDK_QER
  assumes "rte_pktmbuf_prepend pkt (encap_len qer_ptr) = Some m"
  defines "e \<equiv> Encap cks ip pkt far qer_ptr"
  shows "ld8 e 0 = 69" "ld8 e 8 = 64" "ld8 e 9 = 17"
    "ld16 e 2 = rte_bswap16 (encap_payload pkt qer_ptr + 36)"
    "ld32 e 12 = ip" "ld32 e 16 = ohc_ipv4 (far_ohc far)"
    "ld16 e 22 = rte_bswap16 2152" "ld16 e 24 = rte_bswap16 (encap_payload pkt qer_ptr + 16)"
    "ld8 e 28 = (if qer_ptr \<noteq> None then 0x34 else 0x30)" "ld8 e 29 = 255"
    "ld16 e 30 = rte_bswap16 (encap_payload pkt qer_ptr)"
    "ld32 e 32 = rte_bswap32 (ohc_teid (far_ohc far))"
    "qer_ptr = Some qer \<Longrightarrow> ld8 e 39 = 0x85 \<and> ld8 e 40 = 1 \<and> ld8 e 42 = QERGetQFI qer \<and> ld8 e 43 = 0"
    "36 \<le> j \<Longrightarrow> 44 \<le> j \<or> qer_ptr = None \<Longrightarrow> ld8 e j = ld8 m j"
    "ld8 e 1 = ld8 m 1" "ld16 e 4 = ld16 m 4" "ld16 e 6 = ld16 m 6"
proof -
  obtain M where e: "e = st16 10 (cks (bytes_at M 0 20)) M"
    and M: "M = st16 2 (rte_bswap16 (encap_payload pkt qer_ptr + 36))
      (onvm_pkt_fill_ipv4 0 (rte_bswap32 ip) (rte_bswap32 (ohc_ipv4 (far_ohc far))) 17
        (onvm_pkt_fill_udp 20 2152 2152 (encap_payload pkt qer_ptr + 8)
          (case qer_ptr of
             None \<Rightarrow> gtpv1_set_header 28 (encap_payload pkt qer_ptr) (ohc_teid (far_ohc far)) m
           | Some qer \<Rightarrow> encap_qfi 28 qer
               (gtpv1_set_header 28 (encap_payload pkt qer_ptr) (ohc_teid (far_ohc far)) m))))"
    unfolding e_def using Encap_unfold [OF assms(1)] by metis
  have q: "ucast (drop_bit 8 (rte_bswap16 (ucast (QERGetQFI q)))) = QERGetQFI q" for q
    by (simp add: ld_bswap16 ucast_u8_u16_u8)
  note s = e M encap_defs ld16_other ld32_other
  show "ld8 e 0 = 69" "ld8 e 8 = 64" "ld8 e 9 = 17" "ld8 e 29 = 255" "ld8 e 1 = ld8 m 1"
    by (cases qer_ptr; simp add: s)+
  show "ld8 e 28 = (if qer_ptr \<noteq> None then 0x34 else 0x30)" by (cases qer_ptr; simp add: s)
  show "ld16 e 2 = rte_bswap16 (encap_payload pkt qer_ptr + 36)" by (simp add: e M ld16_other)
  show "ld32 e 12 = ip" "ld32 e 16 = ohc_ipv4 (far_ohc far)" by (simp_all add: s)
  show "ld16 e 22 = rte_bswap16 2152" by (simp add: s)
  show "ld16 e 24 = rte_bswap16 (encap_payload pkt qer_ptr + 16)"
    by (cases qer_ptr; simp add: s add.commute)
  show "ld16 e 30 = rte_bswap16 (encap_payload pkt qer_ptr)"
    "ld32 e 32 = rte_bswap32 (ohc_teid (far_ohc far))"
    by (cases qer_ptr; simp add: s)+
  show "ld16 e 4 = ld16 m 4" "ld16 e 6 = ld16 m 6" by (cases qer_ptr; simp add: s)+
  show "qer_ptr = Some qer \<Longrightarrow> ld8 e 39 = 0x85 \<and> ld8 e 40 = 1 \<and> ld8 e 42 = QERGetQFI qer \<and> ld8 e 43 = 0"
    by (simp add: s q)
  show "36 \<le> j \<Longrightarrow> 44 \<le> j \<or> qer_ptr = None \<Longrightarrow> ld8 e j = ld8 m j"
    by (cases qer_ptr; auto simp: s)
qed

lemma Encap_frame:
  assumes "rte_pktmbuf_prepend pkt (encap_len qer_ptr) = Some m"
  shows "mb_data_off (Encap cks ip pkt far qer_ptr) = mb_data_off m"
    "mb_data_len (Encap cks ip pkt far qer_ptr) = mb_data_len m"
    "mb_pkt_len (Encap cks ip pkt far qer_ptr) = mb_pkt_len m"
  using assms by (cases qer_ptr; simp add: Encap_def Let_def)+

text \<open>Loads from a packet seen through an earlier window.\<close>

lemma ld_shift:
  assumes "\<And>j. ld8 f (k + j) = ld8 m j"
  shows "ld16 f (k + j) = ld16 m j" "ld32 f (k + j) = ld32 m j"
  using assms [of j] assms [of "j + 1"] assms [of "j + 2"] assms [of "j + 3"]
  by (simp_all add: ld16_def ld32_def add.assoc [symmetric])

text \<open>
  C18. Encapsulation round trip. A packet that \<^verbatim>\<open>Encap\<close> wraps and that arrives at the peer
  behind any Ethernet header is parsed back by \<^verbatim>\<open>parse_gtpu_once\<close> to the TEID of the FAR and the
  QFI of the QER (0 without one), and dropping the Ethernet header and the reported outer
  header length yields the original packet bytes and length. The outer IPv4 and UDP lengths
  are those of the datagram.
\<close>

theorem encap_parse_roundtrip:
  fixes far :: UPDK_FAR and qer_ptr :: "UPDK_QER option"
  assumes room: "encap_len qer_ptr \<le> mb_data_off pkt"
    and fits: "unat (mb_data_len pkt) + 58 < 65536"
    and eth: "\<And>j. ld8 frame (ETHER_HDR + j) = ld8 (Encap cks ip pkt far qer_ptr) j"
    and len: "mb_data_len frame = mb_data_len (Encap cks ip pkt far qer_ptr) + 14"
  shows "parse_gtpu_once frame = Some
      \<lparr>gtp_teid = ohc_teid (far_ohc far),
       gtp_qfi = (case qer_ptr of None \<Rightarrow> 0 | Some qer \<Rightarrow> QERGetQFI qer),
       gtp_hdr_len = (if qer_ptr \<noteq> None then 16 else 8),
       gtp_outer_hdr_len = encap_len qer_ptr, gtp_valid = True\<rparr> \<and>
    rte_be_to_cpu_16 (ip_total_length frame ETHER_HDR) =
      mb_data_len (Encap cks ip pkt far qer_ptr) \<and>
    (\<forall>j. ld8 frame (ETHER_HDR + unat (encap_len qer_ptr) + j) = ld8 pkt j) \<and>
    mb_data_len frame - 14 - encap_len qer_ptr = mb_data_len pkt"
proof -
  define e where "e = Encap cks ip pkt far qer_ptr"
  obtain m where m: "rte_pktmbuf_prepend pkt (encap_len qer_ptr) = Some m"
    using room by (metis rte_pktmbuf_prepend_def linorder_not_less)
  note b = Encap_bytes [OF m, where cks = cks and ip = ip and far = far, folded e_def]
  note sh = ld_shift [of frame ETHER_HDR e, OF eth [folded e_def]]
  have ml: "mb_data_len e = mb_data_len pkt + encap_len qer_ptr"
    using Encap_frame(2) [OF m] prepend_SomeD(2) [OF m] by (simp add: e_def)
  have fl: "unat (mb_data_len frame) = unat (mb_data_len pkt) + unat (encap_len qer_ptr) + 14"
    using fits len [folded e_def] ml by (simp add: unat_word_ariths split: if_splits)
  have at: "ld8 frame 14 = 69" "ld16 frame 36 = rte_bswap16 2152"
      "ld32 frame 46 = rte_bswap32 (ohc_teid (far_ohc far))"
      "ld8 frame 42 = (if qer_ptr \<noteq> None then 0x34 else 0x30)"
      "ld16 frame 16 = rte_bswap16 (encap_payload pkt qer_ptr + 36)"
    using eth [of 0] eth [of 28] sh(1) [of 22] sh(2) [of 32] sh(1) [of 2] b
    by (simp_all add: e_def [symmetric])
  have ihl: "ihl_len 69 = 20" by (simp add: ihl_len_def)
  have ext: "gtp_ext_loop frame (ld8 frame 53) 54 0 12 = Some (QERGetQFI qer, 16)"
    if "qer_ptr = Some qer" for qer
  proof -
    have "ld8 frame 53 = 0x85" "ld8 frame 54 = 1" "ld8 frame 56 = QERGetQFI qer" "ld8 frame 57 = 0"
      using eth [of 39] eth [of 40] eth [of 42] eth [of 43] b(13) [OF that]
      by (simp_all add: e_def [symmetric])
    moreover have "QERGetQFI qer AND 0x3F = QERGetQFI qer" by (simp add: QERGetQFI_def)
    ultimately show ?thesis
      using fl that by (simp add: gtp_ext_loop.simps [of _ "0x85"] gtp_ext_loop.simps [of _ 0])
  qed
  have "parse_gtpu_once frame = Some
      \<lparr>gtp_teid = ohc_teid (far_ohc far),
       gtp_qfi = (case qer_ptr of None \<Rightarrow> 0 | Some qer \<Rightarrow> QERGetQFI qer),
       gtp_hdr_len = (if qer_ptr \<noteq> None then 16 else 8),
       gtp_outer_hdr_len = encap_len qer_ptr, gtp_valid = True\<rparr>"
    using fl ext by (cases qer_ptr) (simp_all add: parse_gtpu_once_def Let_def at ihl)
  moreover have "ld8 frame (14 + unat (encap_len qer_ptr) + j) = ld8 pkt j" for j
  proof -
    have "ld8 frame (14 + unat (encap_len qer_ptr) + j) = ld8 e (unat (encap_len qer_ptr) + j)"
      using eth [of "unat (encap_len qer_ptr) + j"] by (simp add: e_def add.assoc)
    also have "\<dots> = ld8 m (unat (encap_len qer_ptr) + j)" by (rule b(14)) auto
    also have "\<dots> = ld8 pkt j" by (rule prepend_SomeD(6) [OF m])
    finally show ?thesis .
  qed
  moreover have "rte_bswap16 (ld16 frame 16) = mb_data_len e" by (simp add: at ml)
  ultimately show ?thesis using len ml by (simp add: e_def [symmetric])
qed

theorem encap_parse_roundtrip_witness:
  "\<exists>frame. parse_gtpu_once frame = Some
     \<lparr>gtp_teid = 0x12345678, gtp_qfi = 9, gtp_hdr_len = 16, gtp_outer_hdr_len = 44,
      gtp_valid = True\<rparr>"
proof -
  let ?far = "zero_far \<lparr>far_forwardingParameters := (far_forwardingParameters zero_far)
    \<lparr>fp_outerHeaderCreation := \<lparr>ohc_description = 1, ohc_teid = 0x12345678, ohc_ipv4 = 1,
       ohc_ipv6 = 0, ohc_port = 0\<rparr>\<rparr>\<rparr>"
  let ?qer = "zero_qer \<lparr>qer_qosFlowIdentifier := 9\<rparr>"
  let ?e = "Encap (\<lambda>_. 0) 7 example_mbuf ?far (Some ?qer)"
  obtain frame where f: "rte_pktmbuf_prepend ?e 14 = Some frame"
    using Encap_frame(1) [of example_mbuf "Some ?qer"]
    by (simp add: rte_pktmbuf_prepend_def example_mbuf_def)
  have "parse_gtpu_once frame = Some
      \<lparr>gtp_teid = ohc_teid (far_ohc ?far),
       gtp_qfi = (case Some ?qer of None \<Rightarrow> 0 | Some qer \<Rightarrow> QERGetQFI qer),
       gtp_hdr_len = (if Some ?qer \<noteq> None then 16 else 8),
       gtp_outer_hdr_len = encap_len (Some ?qer), gtp_valid = True\<rparr>"
    using encap_parse_roundtrip [of "Some ?qer" example_mbuf frame "\<lambda>_. 0" 7 ?far]
      prepend_SomeD(2,6) [OF f]
    by (simp add: example_mbuf_def)
  then show ?thesis by (auto simp: QERGetQFI_def)
qed

theorem parse_gtpu_once_bounds_witness:
  "\<exists>r. parse_gtpu_once (st16 36 (rte_bswap16 2152) (st8 14 69 example_mbuf)) = Some r \<and>
     unat (gtp_outer_hdr_len r) = 36"
proof -
  let ?m = "st16 36 (rte_bswap16 2152) (st8 14 69 example_mbuf)"
  have l: "ld8 ?m 14 = 69" "ld16 ?m 36 = rte_bswap16 2152" "ld8 ?m 42 = 0" "ld32 ?m 46 = 0"
    by (simp_all add: ld32_def) (simp_all add: ld8_def example_mbuf_def)
  have "parse_gtpu_once ?m = Some \<lparr>gtp_teid = rte_bswap32 0, gtp_qfi = 0, gtp_hdr_len = 8,
      gtp_outer_hdr_len = 36, gtp_valid = True\<rparr>"
    using l by (simp add: parse_gtpu_once_def Let_def ihl_len_def) (simp add: example_mbuf_def)
  then show ?thesis
    using parse_gtpu_once_bounds [of ?m] l by (auto simp: ihl_len_def)
qed

subsection \<open>The older length routines\<close>

lemma gtpu_len_loop_returns:
  "gtpu_len_loop m psc t l = Some r \<Longrightarrow> t = 0 \<or> t = 0x85 \<and> ld8 m (psc + 3) = 0"
  by (rule gtpu_len_loop.raw_induct [of "\<lambda>m psc t l r. t = 0 \<or> t = 0x85 \<and> ld8 m (psc + 3) = 0"])
    (fastforce split: if_splits)

lemma gtpu_qfi_loop_returns:
  "gtpu_qfi_loop m psc t l q = Some r \<Longrightarrow> t \<noteq> 0x85 \<or> ld8 m (psc + 3) \<noteq> 0x85"
  by (rule gtpu_qfi_loop.raw_induct [of "\<lambda>m psc t l q r. t \<noteq> 0x85 \<or> ld8 m (psc + 3) \<noteq> 0x85"])
    (fastforce split: if_splits)

text \<open>
  When the two older length routines return at all. On a packet whose GTP header has the
  extension flag, \<^verbatim>\<open>get_gtpu_header_len\<close> returns exactly when there is no extension header or
  a single PDU session container; any other extension type makes it run for ever.
  \<^verbatim>\<open>get_gtpu_header_len_with_qfi\<close> returns unless the container names itself as the next
  header, in which case it runs for ever too.
\<close>

theorem gtpu_header_len_returns_iff:
  fixes m :: rte_mbuf
  shows "(ld8 m 28 AND 0x04 \<noteq> 0 \<longrightarrow>
      (get_gtpu_header_len m \<noteq> None \<longleftrightarrow>
         ld8 m 39 = 0 \<or> ld8 m 39 = 0x85 \<and> ld8 m 43 = 0)) \<and>
    (ld8 m 42 AND 0x04 \<noteq> 0 \<longrightarrow>
      (get_gtpu_header_len_with_qfi m \<noteq> None \<longleftrightarrow> \<not> (ld8 m 53 = 0x85 \<and> ld8 m 57 = 0x85)))"
proof -
  have mask: "f AND 0x07 \<noteq> 0" if "f AND 0x04 \<noteq> (0 :: u8)" for f
  proof
    assume "f AND 0x07 = 0"
    then have "(f AND 0x07) AND 0x04 = 0" by simp
    with that show False by (simp add: and.assoc)
  qed
  have "get_gtpu_header_len m \<noteq> None \<longleftrightarrow> ld8 m 39 = 0 \<or> ld8 m 39 = 0x85 \<and> ld8 m 43 = 0"
    if "ld8 m 28 AND 0x04 \<noteq> 0"
  proof -
    have "get_gtpu_header_len m = gtpu_len_loop m 40 (ld8 m 39) 12"
      using that mask [OF that] by (simp add: get_gtpu_header_len_def Let_def)
    then show ?thesis
      using gtpu_len_loop_returns [of m 40 "ld8 m 39" 12]
      by (auto simp: gtpu_len_loop.simps [of _ _ 0] gtpu_len_loop.simps [of _ _ "0x85"])
  qed
  moreover have "get_gtpu_header_len_with_qfi m \<noteq> None \<longleftrightarrow> \<not> (ld8 m 53 = 0x85 \<and> ld8 m 57 = 0x85)"
    if "ld8 m 42 AND 0x04 \<noteq> 0"
  proof -
    have e: "get_gtpu_header_len_with_qfi m = gtpu_qfi_loop m 54 (ld8 m 53) 12 0"
      using that mask [OF that] by (simp add: get_gtpu_header_len_with_qfi_def Let_def)
    have z: "gtpu_qfi_loop m psc t l q \<noteq> None" if "t \<noteq> 0x85" for psc t l q
      using that by (cases "t = 0") (simp_all add: gtpu_qfi_loop.simps [of _ _ 0]
          gtpu_qfi_loop.simps [of _ _ t])
    have "gtpu_qfi_loop m 54 0x85 12 0 \<noteq> None" if "ld8 m 57 \<noteq> 0x85"
      using z [OF that] by (simp add: gtpu_qfi_loop.simps [of _ _ "0x85"])
    then show ?thesis
      using gtpu_qfi_loop_returns [of m 54 "ld8 m 53" 12 0] z [of "ld8 m 53"]
      by (cases "ld8 m 53 = 0x85") (auto simp: e)
  qed
  ultimately show ?thesis by blast
qed

theorem gtpu_header_len_returns_iff_witness:
  "get_gtpu_header_len (st8 39 0x85 (st8 28 0x34 example_mbuf)) \<noteq> None \<and>
   get_gtpu_header_len (st8 39 0x40 (st8 28 0x34 example_mbuf)) = None"
proof -
  have z: "ld8 example_mbuf 43 = 0" by (simp add: ld8_def example_mbuf_def)
  show ?thesis
    using gtpu_header_len_returns_iff [of "st8 39 0x85 (st8 28 0x34 example_mbuf)"]
      gtpu_header_len_returns_iff [of "st8 39 0x40 (st8 28 0x34 example_mbuf)"] z
    by simp
qed

end
