(* ===== verification/Session_Rules.thy ===== *)
theory Session_Rules
  imports Upf_Rules
begin

text \<open>
  A session of \<^verbatim>\<open>onvm/upf/upf_context.h\<close> and the operations of \<^verbatim>\<open>upf_context.c\<close> on its rules and
  on the list of all PDRs. A rule is named by its address; the memory the addresses point into
  is an argument. The lists are the sequences that the operations of \<open>Linked_List\<close> implement,
  \<open>None\<close> standing for a list that was never allocated. A null pointer can get into a list of QERs
  (and into no other list); the operations that go through the list have no result when they come
  to it.
\<close>

type_synonym rule_ptr = nat

record UpfSession =
  s_index :: int
  s_hashKey :: u32
  s_upfSeid :: u64
  s_smfSeid :: u64
  s_dnn :: string
  s_pdnType :: u8
  s_ueIpv4 :: u32
  s_teid :: u32
  s_worker_service_id :: u16
  s_pdr_list :: "rule_ptr list option"
  s_far_list :: "rule_ptr list option"
  s_qer_list :: "rule_ptr option list option"
  s_srr_flag :: bool

record rule_memory =
  mem_pdr :: "rule_ptr \<Rightarrow> UPDK_PDR"
  mem_far :: "rule_ptr \<Rightarrow> UPDK_FAR"
  mem_qer :: "rule_ptr \<Rightarrow> UPDK_QER"

definition zero_session :: UpfSession where
  "zero_session = \<lparr>s_index = 0, s_hashKey = 0, s_upfSeid = 0, s_smfSeid = 0, s_dnn = '''',
     s_pdnType = 0, s_ueIpv4 = 0, s_teid = 0, s_worker_service_id = 0, s_pdr_list = None,
     s_far_list = None, s_qer_list = None, s_srr_flag = False\<rparr>"

subsection \<open>The list of all PDRs\<close>

definition UpfPDRGlobalInit :: "rule_ptr list option \<Rightarrow> rule_ptr list option" where
  "UpfPDRGlobalInit g = (case g of None \<Rightarrow> Some [] | Some l \<Rightarrow> Some l)"

definition UpfPDRGlobalAdd :: "bool \<Rightarrow> rule_ptr list option \<Rightarrow> rule_ptr option \<Rightarrow> rule_ptr list option" where
  "UpfPDRGlobalAdd alloc g pdr_ptr =
     (case pdr_ptr of None \<Rightarrow> g
      | Some pdr \<Rightarrow>
          (let l = (case g of None \<Rightarrow> [] | Some l \<Rightarrow> l) in Some (if alloc then l @ [pdr] else l)))"

definition UpfPDRGlobalRemove :: "rule_ptr list option \<Rightarrow> rule_ptr option \<Rightarrow> rule_ptr list option" where
  "UpfPDRGlobalRemove g pdr_ptr =
     (case (g, pdr_ptr) of (Some l, Some pdr) \<Rightarrow> Some (remove1 pdr l) | _ \<Rightarrow> g)"

subsection \<open>Rules of a session\<close>

text \<open>The search and the removal the six operations share: the first rule that matches.\<close>

definition remove_first :: "('a \<Rightarrow> bool) \<Rightarrow> 'a list \<Rightarrow> 'a list option" where
  "remove_first P xs = map_option (\<lambda>i. take i xs @ drop (Suc i) xs) (find_index P xs)"

text \<open>
  \<open>alloc\<close> says whether the list node can be allocated; if not the rule is silently not added.
  The registrations have no \<^verbatim>\<open>return\<close> at the end of the successful path: the result is then
  whatever the caller finds, here \<open>None\<close>.
\<close>

definition UpfPDRRegisterToSession ::
  "bool \<Rightarrow> UpfSession option \<Rightarrow> rule_ptr \<Rightarrow> UpfSession option \<times> Status option" where
  "UpfPDRRegisterToSession alloc session pdr =
     (case session of None \<Rightarrow> (None, Some STATUS_ERROR)
      | Some s \<Rightarrow> (case s_pdr_list s of None \<Rightarrow> (session, Some STATUS_ERROR)
                 | Some l \<Rightarrow> (Some (if alloc then s \<lparr>s_pdr_list := Some (l @ [pdr])\<rparr> else s), None)))"

definition UpfFARRegisterToSession ::
  "bool \<Rightarrow> UpfSession option \<Rightarrow> rule_ptr \<Rightarrow> UpfSession option \<times> Status option" where
  "UpfFARRegisterToSession alloc session far =
     (case session of None \<Rightarrow> (None, Some STATUS_ERROR)
      | Some s \<Rightarrow> (case s_far_list s of None \<Rightarrow> (session, Some STATUS_ERROR)
                 | Some l \<Rightarrow> (Some (if alloc then s \<lparr>s_far_list := Some (l @ [far])\<rparr> else s), None)))"

definition UpfQERRegisterToSession ::
  "bool \<Rightarrow> UpfSession option \<Rightarrow> rule_ptr option \<Rightarrow> UpfSession option \<times> Status option" where
  "UpfQERRegisterToSession alloc session qer =
     (case session of None \<Rightarrow> (None, Some STATUS_ERROR)
      | Some s \<Rightarrow> (case s_qer_list s of None \<Rightarrow> (session, Some STATUS_ERROR)
                 | Some l \<Rightarrow> (Some (if alloc then s \<lparr>s_qer_list := Some (l @ [qer])\<rparr> else s), None)))"

definition UpfPDRFindByID :: "rule_memory \<Rightarrow> UpfSession option \<Rightarrow> u16 \<Rightarrow> rule_ptr option" where
  "UpfPDRFindByID mem session rid =
     (case session of None \<Rightarrow> None
      | Some s \<Rightarrow> (case s_pdr_list s of None \<Rightarrow> None
                 | Some l \<Rightarrow> find (\<lambda>p. pdr_pdrId (mem_pdr mem p) = rid) l))"

definition UpfFARFindByID :: "rule_memory \<Rightarrow> UpfSession option \<Rightarrow> u16 \<Rightarrow> rule_ptr option" where
  "UpfFARFindByID mem session rid =
     (case session of None \<Rightarrow> None
      | Some s \<Rightarrow> (case s_far_list s of None \<Rightarrow> None
                 | Some l \<Rightarrow> find (\<lambda>p. far_farId (mem_far mem p) = ucast rid) l))"

text \<open>
  The walk through a list of QERs, to find one and to take one out: the outer \<open>None\<close> when it comes
  to a null pointer, the inner one when it comes to the end.
\<close>

primrec qer_search :: "(rule_ptr \<Rightarrow> bool) \<Rightarrow> rule_ptr option list \<Rightarrow> rule_ptr option option" where
  "qer_search P [] = Some None"
| "qer_search P (q # qs) =
     (case q of None \<Rightarrow> None | Some a \<Rightarrow> if P a then Some (Some a) else qer_search P qs)"

primrec qer_remove ::
  "(rule_ptr \<Rightarrow> bool) \<Rightarrow> rule_ptr option list \<Rightarrow> rule_ptr option list option option" where
  "qer_remove P [] = Some None"
| "qer_remove P (q # qs) =
     (case q of None \<Rightarrow> None
      | Some a \<Rightarrow> if P a then Some (Some qs) else map_option (map_option ((#) q)) (qer_remove P qs))"

definition UpfQERFindByID :: "rule_memory \<Rightarrow> UpfSession option \<Rightarrow> u16 \<Rightarrow> rule_ptr option option" where
  "UpfQERFindByID mem session rid =
     (case session of None \<Rightarrow> Some None
      | Some s \<Rightarrow> (case s_qer_list s of None \<Rightarrow> Some None
                 | Some l \<Rightarrow> qer_search (\<lambda>p. qer_qerId (mem_qer mem p) = ucast rid) l))"

definition UpfPDRDeregisterToSessionByID ::
  "rule_memory \<Rightarrow> UpfSession option \<Rightarrow> u16 \<Rightarrow> UpfSession option \<times> Status" where
  "UpfPDRDeregisterToSessionByID mem session rid =
     (case session of None \<Rightarrow> (None, STATUS_ERROR)
      | Some s \<Rightarrow> (case s_pdr_list s of None \<Rightarrow> (session, STATUS_ERROR)
          | Some l \<Rightarrow> (case remove_first (\<lambda>p. pdr_pdrId (mem_pdr mem p) = rid) l of
              None \<Rightarrow> (session, STATUS_ERROR)
            | Some l' \<Rightarrow> (Some (s \<lparr>s_pdr_list := Some l'\<rparr>), STATUS_OK))))"

text \<open>The extended form also returns the PDR it took out.\<close>

definition UpfPDRDeregisterToSessionByIDEx ::
  "rule_memory \<Rightarrow> UpfSession option \<Rightarrow> u16 \<Rightarrow> UpfSession option \<times> Status \<times> rule_ptr option" where
  "UpfPDRDeregisterToSessionByIDEx mem session rid =
     (case session of None \<Rightarrow> (None, STATUS_ERROR, None)
      | Some s \<Rightarrow> (case s_pdr_list s of None \<Rightarrow> (session, STATUS_ERROR, None)
          | Some l \<Rightarrow> (case find_index (\<lambda>p. pdr_pdrId (mem_pdr mem p) = rid) l of
              None \<Rightarrow> (session, STATUS_ERROR, None)
            | Some i \<Rightarrow>
                (Some (s \<lparr>s_pdr_list := Some (take i l @ drop (Suc i) l)\<rparr>), STATUS_OK, Some (l ! i)))))"

definition UpfFARDeregisterToSessionByID ::
  "rule_memory \<Rightarrow> UpfSession option \<Rightarrow> u16 \<Rightarrow> UpfSession option \<times> Status" where
  "UpfFARDeregisterToSessionByID mem session rid =
     (case session of None \<Rightarrow> (None, STATUS_ERROR)
      | Some s \<Rightarrow> (case s_far_list s of None \<Rightarrow> (session, STATUS_ERROR)
          | Some l \<Rightarrow> (case remove_first (\<lambda>p. far_farId (mem_far mem p) = ucast rid) l of
              None \<Rightarrow> (session, STATUS_ERROR)
            | Some l' \<Rightarrow> (Some (s \<lparr>s_far_list := Some l'\<rparr>), STATUS_OK))))"

definition UpfQERDeregisterToSessionByID ::
  "rule_memory \<Rightarrow> UpfSession option \<Rightarrow> u16 \<Rightarrow> (UpfSession option \<times> Status) option" where
  "UpfQERDeregisterToSessionByID mem session rid =
     (case session of None \<Rightarrow> Some (None, STATUS_ERROR)
      | Some s \<Rightarrow> (case s_qer_list s of None \<Rightarrow> Some (session, STATUS_ERROR)
          | Some l \<Rightarrow> (case qer_remove (\<lambda>p. qer_qerId (mem_qer mem p) = ucast rid) l of
              None \<Rightarrow> None
            | Some None \<Rightarrow> Some (session, STATUS_ERROR)
            | Some (Some l') \<Rightarrow> Some (Some (s \<lparr>s_qer_list := Some l'\<rparr>), STATUS_OK))))"

subsection \<open>The rules as a map from identifiers\<close>

text \<open>Rules whose identifiers differ form a map; \<open>key\<close> reads the identifier of a rule.\<close>

definition rule_map :: "('a \<Rightarrow> 'k) \<Rightarrow> 'a list \<Rightarrow> 'k \<rightharpoonup> 'a" where
  "rule_map key l = (\<lambda>k. find (\<lambda>p. key p = k) l)"

lemma rule_map_append:
  "key p \<notin> key ` set l \<Longrightarrow> rule_map key (l @ [p]) = (rule_map key l)(key p \<mapsto> p)"
  by (induction l) (auto simp: rule_map_def fun_eq_iff)

lemma remove_first_None: "remove_first P l = None \<longleftrightarrow> (\<forall>x\<in>set l. \<not> P x)"
  by (simp add: remove_first_def find_index_None)

lemma remove_first_Cons:
  "remove_first P (x # l) = (if P x then Some l else map_option ((#) x) (remove_first P l))"
  by (simp add: remove_first_def option.map_comp comp_def)

text \<open>Without null pointers the walks are the search and the removal of the other lists.\<close>

lemma qer_search_Some: "qer_search P l = Some (Some a) \<Longrightarrow> P a \<and> Some a \<in> set l"
  by (induction l) (auto split: option.splits if_splits)

lemma qer_search_find: "qer_search P (map Some l) = Some (find P l)"
  by (induction l) auto

lemma qer_remove_first: "qer_remove P (map Some l) = Some (map_option (map Some) (remove_first P l))"
proof (induction l)
  case Nil
  then show ?case by (simp add: remove_first_def find_index_None)
next
  case (Cons a l)
  then show ?case by (simp add: remove_first_Cons option.map_comp comp_def)
qed

lemma remove_first_map:
  assumes "distinct (map key l)" "remove_first (\<lambda>p. key p = k) l = Some l'"
  shows "rule_map key l' = (rule_map key l)(k := None) \<and> distinct (map key l') \<and> set l' \<subseteq> set l"
  using assms
proof (induction l arbitrary: l')
  case (Cons x l)
  show ?case
  proof (cases "key x = k")
    case True
    then have "find (\<lambda>p. key p = k) l = None"
      using Cons.prems(1) by (auto simp: find_None_iff image_iff)
    then show ?thesis
      using True Cons.prems by (auto simp: remove_first_Cons rule_map_def fun_eq_iff)
  next
    case False
    then obtain m where m: "remove_first (\<lambda>p. key p = k) l = Some m" "l' = x # m"
      using Cons.prems(2) by (auto simp: remove_first_Cons)
    have "rule_map key m = (rule_map key l)(k := None) \<and> distinct (map key m) \<and> set m \<subseteq> set l"
      using Cons.prems(1) by (intro Cons.IH m(1)) simp
    then have IH: "\<forall>j. rule_map key m j = (if j = k then None else rule_map key l j)"
      "distinct (map key m)" "set m \<subseteq> set l" by auto
    then show ?thesis
      using False Cons.prems(1) m(2) by (auto simp: rule_map_def fun_eq_iff)
  qed
qed (simp add: remove_first_def)

text \<open>
  The PDR list of a session is a map from PDR ids. While ids are distinct, registering a PDR
  under a new id makes exactly that id resolve to it, deregistering an id makes exactly that id
  unresolvable and returns the PDR that was taken out, an unknown id is refused with the list
  unchanged, and ids stay distinct.
\<close>

theorem session_pdr_list_is_map:
  fixes s :: UpfSession and mem :: rule_memory
  defines "key \<equiv> (\<lambda>p. pdr_pdrId (mem_pdr mem p))"
  assumes "s_pdr_list s = Some l" "distinct (map key l)" "key p \<notin> key ` set l"
  shows "(\<exists>s'. fst (UpfPDRRegisterToSession True (Some s) p) = Some s' \<and>
      UpfPDRFindByID mem (Some s') = (UpfPDRFindByID mem (Some s))(key p \<mapsto> p) \<and>
      distinct (map key (the (s_pdr_list s')))) \<and>
    (case UpfPDRFindByID mem (Some s) rid of
       None \<Rightarrow> UpfPDRDeregisterToSessionByIDEx mem (Some s) rid = (Some s, STATUS_ERROR, None) \<and>
         UpfPDRDeregisterToSessionByID mem (Some s) rid = (Some s, STATUS_ERROR)
     | Some q \<Rightarrow> (\<exists>s'. UpfPDRDeregisterToSessionByIDEx mem (Some s) rid = (Some s', STATUS_OK, Some q) \<and>
         UpfPDRDeregisterToSessionByID mem (Some s) rid = (Some s', STATUS_OK) \<and>
         UpfPDRFindByID mem (Some s') = (UpfPDRFindByID mem (Some s))(rid := None) \<and>
         distinct (map key (the (s_pdr_list s')))))"
proof
  have find: "UpfPDRFindByID mem (Some t) = rule_map key m" if "s_pdr_list t = Some m" for t m
    using that by (simp add: fun_eq_iff UpfPDRFindByID_def rule_map_def key_def)
  show "\<exists>s'. fst (UpfPDRRegisterToSession True (Some s) p) = Some s' \<and>
      UpfPDRFindByID mem (Some s') = (UpfPDRFindByID mem (Some s))(key p \<mapsto> p) \<and>
      distinct (map key (the (s_pdr_list s')))"
    using assms(2-4) rule_map_append [OF assms(4)]
    by (auto simp: UpfPDRRegisterToSession_def find)
  show "case UpfPDRFindByID mem (Some s) rid of
       None \<Rightarrow> UpfPDRDeregisterToSessionByIDEx mem (Some s) rid = (Some s, STATUS_ERROR, None) \<and>
         UpfPDRDeregisterToSessionByID mem (Some s) rid = (Some s, STATUS_ERROR)
     | Some q \<Rightarrow> (\<exists>s'. UpfPDRDeregisterToSessionByIDEx mem (Some s) rid = (Some s', STATUS_OK, Some q) \<and>
         UpfPDRDeregisterToSessionByID mem (Some s) rid = (Some s', STATUS_OK) \<and>
         UpfPDRFindByID mem (Some s') = (UpfPDRFindByID mem (Some s))(rid := None) \<and>
         distinct (map key (the (s_pdr_list s'))))"
  proof (cases "find_index (\<lambda>p. key p = rid) l")
    case None
    then have "find (\<lambda>p. key p = rid) l = None" by (simp add: find_index_None find_None_iff)
    then show ?thesis
      using None assms(2) find [OF assms(2)]
      by (simp add: rule_map_def UpfPDRDeregisterToSessionByIDEx_def
          UpfPDRDeregisterToSessionByID_def remove_first_def key_def)
  next
    case (Some i)
    have "find (\<lambda>p. key p = rid) l = Some (l ! i)"
      using find_index_SomeD [OF Some] by (auto simp: find_Some_iff)
    moreover have rf: "remove_first (\<lambda>p. key p = rid) l = Some (take i l @ drop (Suc i) l)"
      using Some by (simp add: remove_first_def)
    moreover note remove_first_map [OF assms(3) rf]
    ultimately show ?thesis
      using Some assms(2) find [OF assms(2)]
      by (simp add: rule_map_def UpfPDRDeregisterToSessionByIDEx_def
          UpfPDRDeregisterToSessionByID_def key_def find)
  qed
qed

text \<open>Two PDRs with ids 1 and 2.\<close>

definition example_memory :: rule_memory where
  "example_memory = \<lparr>mem_pdr = (\<lambda>p. zero_pdr \<lparr>pdr_pdrId := of_nat p\<rparr>), mem_far = (\<lambda>_. zero_far),
     mem_qer = (\<lambda>_. zero_qer)\<rparr>"

theorem session_pdr_list_is_map_witness:
  "UpfPDRFindByID example_memory
     (fst (UpfPDRRegisterToSession True (Some (zero_session \<lparr>s_pdr_list := Some [1]\<rparr>)) 2)) 2 = Some 2"
proof -
  have k: "pdr_pdrId (mem_pdr example_memory p) = of_nat p" for p by (simp add: example_memory_def)
  show ?thesis
    using conjunct1 [OF session_pdr_list_is_map [where s = "zero_session \<lparr>s_pdr_list := Some [1]\<rparr>"
      and l = "[1]" and mem = example_memory and p = 2]] by (auto simp: k)
qed

text \<open>
  FAR and QER identifiers are 32 bits wide but looked up with a 16-bit argument: a rule whose
  identifier needs more bits is never found, whatever identifier its users hold.
\<close>

theorem wide_rule_ids_unreachable:
  assumes "UpfFARFindByID mem (Some s) (ucast far_id) = Some p"
    and "UpfQERFindByID mem (Some s) (ucast qid) = Some (Some q)"
  shows "unat (far_farId (mem_far mem p)) < 2 ^ 16 \<and> unat (qer_qerId (mem_qer mem q)) < 2 ^ 16 \<and>
    (far_farId (mem_far mem p) = far_id \<longleftrightarrow> unat (far_id :: u32) < 2 ^ 16) \<and>
    (qer_qerId (mem_qer mem q) = qid \<longleftrightarrow> unat (qid :: u32) < 2 ^ 16)"
proof -
  have small: "unat (ucast (r :: u16) :: u32) < 2 ^ 16" for r using u16_less [of r] by simp
  have same: "ucast (ucast x :: u16) = x \<longleftrightarrow> unat x < 2 ^ 16" for x :: u32
  proof
    assume "ucast (ucast x :: u16) = x"
    then show "unat x < 2 ^ 16" using small [of "ucast x"] by simp
  next
    assume "unat x < 2 ^ 16"
    then have "unat (ucast (ucast x :: u16) :: u32) = unat x"
      by (simp add: unsigned_ucast_eq unsigned_take_bit_eq take_bit_nat_eq_self)
    then show "ucast (ucast x :: u16) = x" by (simp only: word_unat_eq_iff)
  qed
  have "far_farId (mem_far mem p) = ucast (ucast far_id :: u16)"
    "qer_qerId (mem_qer mem q) = ucast (ucast qid :: u16)"
    using assms
    by (auto simp: UpfFARFindByID_def UpfQERFindByID_def find_Some_iff dest: qer_search_Some split: option.splits)
  then show ?thesis using small same by metis
qed

theorem wide_rule_ids_unreachable_witness:
  "UpfFARFindByID (example_memory \<lparr>mem_far := \<lambda>_. zero_far \<lparr>far_farId := 3\<rparr>\<rparr>)
      (Some (zero_session \<lparr>s_far_list := Some [9], s_qer_list := Some [Some 8]\<rparr>)) (ucast (65539 :: u32)) = Some 9 \<and>
    far_farId (mem_far (example_memory \<lparr>mem_far := \<lambda>_. zero_far \<lparr>far_farId := 3\<rparr>\<rparr>) 9) \<noteq> 65539"
proof -
  let ?m = "example_memory \<lparr>mem_far := \<lambda>_. zero_far \<lparr>far_farId := 3\<rparr>\<rparr>"
  let ?s = "zero_session \<lparr>s_far_list := Some [9], s_qer_list := Some [Some 8]\<rparr>"
  have f: "UpfFARFindByID ?m (Some ?s) (ucast (65539 :: u32)) = Some 9"
    by (simp add: UpfFARFindByID_def)
  have q: "UpfQERFindByID ?m (Some ?s) (ucast (0 :: u32)) = Some (Some 8)"
    by (simp add: UpfQERFindByID_def example_memory_def zero_qer_def)
  show ?thesis using wide_rule_ids_unreachable [OF f q] f by auto
qed

end
