(* ===== verification/C_Strings.thy ===== *)
theory C_Strings
  imports Upf_Prelude
begin

text \<open>
  The functions of the C library that the rule code calls on strings. A character array is the list of its
  characters, with the rest of the array null; the string in it ends at the first null character. Where the
  standard leaves the result undefined a function has no result. Addresses are in network byte
  order, as in memory.
\<close>

definition cstr :: "string \<Rightarrow> string" where
  "cstr a = takeWhile (\<lambda>c. c \<noteq> CHR 0x00) a"

text \<open>\<^verbatim>\<open>strstr\<close>: the rest of the string from the first occurrence.\<close>

fun strstr :: "string \<Rightarrow> string \<Rightarrow> string option" where
  "strstr [] needle = (if needle = [] then Some [] else None)"
| "strstr (c # s) needle = (if take (length needle) (c # s) = needle then Some (c # s) else strstr s needle)"

definition isdigit :: "char \<Rightarrow> bool" where
  "isdigit c \<longleftrightarrow> (48 :: nat) \<le> of_char c \<and> of_char c \<le> (57 :: nat)"

definition isspace :: "char \<Rightarrow> bool" where
  "isspace c \<longleftrightarrow> of_char c = (32 :: nat) \<or> ((9 :: nat) \<le> of_char c \<and> of_char c \<le> (13 :: nat))"

definition digit :: "char \<Rightarrow> nat" where
  "digit c = of_char c - 48"

definition decimal :: "string \<Rightarrow> nat" where
  "decimal s = foldl (\<lambda>n c. 10 * n + digit c) 0 s"

subsection \<open>Numbers\<close>

text \<open>The conversion \<^verbatim>\<open>%u\<close>: through \<^verbatim>\<open>unsigned long\<close>, which saturates, into 32 bits.\<close>

definition scan_u :: "string \<Rightarrow> u32 option" where
  "scan_u s =
     (let s = dropWhile isspace s;
          neg = (case s of c # _ \<Rightarrow> c = CHR ''-'' | [] \<Rightarrow> False);
          s = (case s of c # r \<Rightarrow> if c = CHR ''-'' \<or> c = CHR ''+'' then r else s | [] \<Rightarrow> s);
          ds = takeWhile isdigit s; n = decimal ds
      in if ds = [] then None
         else Some (if n > 2 ^ 64 - 1 then -1 else if neg then - of_nat n else of_nat n))"

text \<open>\<^verbatim>\<open>atoi\<close> as the library implements it, cast to 8 bits: \<^verbatim>\<open>strtol\<close> saturates at 64 bits.\<close>

definition atoi_u8 :: "string \<Rightarrow> u8" where
  "atoi_u8 s =
     (let s = dropWhile isspace s;
          neg = (case s of c # _ \<Rightarrow> c = CHR ''-'' | [] \<Rightarrow> False);
          s = (case s of c # r \<Rightarrow> if c = CHR ''-'' \<or> c = CHR ''+'' then r else s | [] \<Rightarrow> s);
          n = decimal (takeWhile isdigit s)
      in if neg then - of_nat (min n (2 ^ 63)) else of_nat (min n (2 ^ 63 - 1)))"

text \<open>\<^verbatim>\<open>sscanf(tmp, "%[^/]/%u", ip, &prefix)\<close>: the text before a slash, if any, and the number after it.\<close>

definition scan_ip_prefix :: "string \<Rightarrow> string option \<times> u32 option" where
  "scan_ip_prefix s =
     (let ip = takeWhile (\<lambda>c. c \<noteq> CHR ''/'') s in
      if ip = [] then (None, None)
      else (Some ip, case drop (length ip) s of [] \<Rightarrow> None | _ # r \<Rightarrow> scan_u r))"

subsection \<open>Addresses\<close>

fun split_on :: "char \<Rightarrow> string \<Rightarrow> string list" where
  "split_on d [] = [[]]"
| "split_on d (c # s) = (if c = d then [] # split_on d s
     else case split_on d s of [] \<Rightarrow> [[c]] | p # ps \<Rightarrow> (c # p) # ps)"

text \<open>The four octets of an address, the first in the lowest byte of the word in memory.\<close>

definition addr_of_octets :: "nat list \<Rightarrow> u32" where
  "addr_of_octets os = of_nat (os ! 0) OR push_bit 8 (of_nat (os ! 1)) OR push_bit 16 (of_nat (os ! 2)) OR
     push_bit 24 (of_nat (os ! 3))"

text \<open>\<^verbatim>\<open>inet_pton(AF_INET, ...)\<close>: four decimal numbers up to 255 without leading zeros.\<close>

definition octet_text :: "string \<Rightarrow> bool" where
  "octet_text p \<longleftrightarrow> p \<noteq> [] \<and> list_all isdigit p \<and> length p \<le> 3 \<and> (hd p = CHR ''0'' \<longrightarrow> length p = 1) \<and>
     decimal p \<le> 255"

definition inet_pton4 :: "string \<Rightarrow> u32 option" where
  "inet_pton4 s =
     (let ps = split_on (CHR ''.'') s in
      if length ps = 4 \<and> list_all octet_text ps then Some (addr_of_octets (map decimal ps)) else None)"


text \<open>
  \<^verbatim>\<open>strtoul\<close> with base 0: the value, whether it was out of range, and the rest of the string;
  nothing when there is no number.
\<close>

definition hexdigit :: "char \<Rightarrow> nat option" where
  "hexdigit c =
     (let n = of_char c :: nat in
      if isdigit c then Some (n - 48) else if 97 \<le> n \<and> n \<le> 102 then Some (n - 87)
      else if 65 \<le> n \<and> n \<le> 70 then Some (n - 55) else None)"

definition digit_in :: "nat \<Rightarrow> char \<Rightarrow> bool" where
  "digit_in b c = (case hexdigit c of None \<Rightarrow> False | Some d \<Rightarrow> d < b)"

definition number_in :: "nat \<Rightarrow> string \<Rightarrow> nat" where
  "number_in b s = foldl (\<lambda>n c. b * n + the (hexdigit c)) 0 s"

definition strtoul0 :: "string \<Rightarrow> (nat \<times> bool \<times> string) option" where
  "strtoul0 s =
     (let s = dropWhile isspace s;
          neg = (case s of c # _ \<Rightarrow> c = CHR ''-'' | [] \<Rightarrow> False);
          s = (case s of c # r \<Rightarrow> if c = CHR ''-'' \<or> c = CHR ''+'' then r else s | [] \<Rightarrow> s);
          hex = (case s of z # x # d # _ \<Rightarrow> z = CHR ''0'' \<and> (x = CHR ''x'' \<or> x = CHR ''X'') \<and> digit_in 16 d
                 | _ \<Rightarrow> False);
          b = (if hex then 16 else case s of c # _ \<Rightarrow> if c = CHR ''0'' then 8 else 10 | [] \<Rightarrow> 10);
          s = (if hex then drop 2 s else s);
          ds = takeWhile (digit_in b) s; n = number_in b ds; rest = drop (length ds) s
      in if ds = [] then None
         else if n > 2 ^ 64 - 1 then Some (2 ^ 64 - 1, True, rest)
         else Some (if neg then (2 ^ 64 - n) mod 2 ^ 64 else n, False, rest))"

text \<open>
  \<^verbatim>\<open>inet_aton\<close>: one to four parts, the last one filling the remaining octets; \<open>parts\<close> are the
  octets read so far.
\<close>

function inet_aton_parts :: "nat list \<Rightarrow> string \<Rightarrow> u32 option" where
  "inet_aton_parts parts s =
     (if s = [] \<or> \<not> isdigit (hd s) then None
      else case strtoul0 s of
        None \<Rightarrow> None
      | Some (val, erange, rest) \<Rightarrow>
          if erange \<or> val > 0xffffffff then None
          else if rest \<noteq> [] \<and> hd rest = CHR ''.'' then
            (if length parts > 2 \<or> val > 0xff then None else inet_aton_parts (parts @ [val]) (tl rest))
          else if rest \<noteq> [] \<and> \<not> isspace (hd rest) then None
          else if val > 2 ^ (8 * (4 - length parts)) - 1 then None
          else Some (addr_of_octets (parts @ replicate (4 - length parts) 0) OR rte_cpu_to_be_32 (of_nat val)))"
  by pat_completeness auto
termination by (relation "measure (\<lambda>(parts, s). 3 - length parts)") auto

declare inet_aton_parts.simps [simp del]

definition inet_aton :: "string \<Rightarrow> u32 option" where
  "inet_aton s = inet_aton_parts [] s"

subsection \<open>Printing\<close>

text \<open>Decimal numbers and dotted addresses, host byte order, as rules are written.\<close>

fun dec :: "nat \<Rightarrow> string" where
  "dec n = (if n < 10 then [char_of (48 + n)] else dec (n div 10) @ [char_of (48 + n mod 10)])"

declare dec.simps [simp del]

definition octet :: "u32 \<Rightarrow> nat \<Rightarrow> nat" where
  "octet a i = unat (drop_bit (8 * (3 - i)) a) mod 256"

definition dotted :: "u32 \<Rightarrow> string" where
  "dotted a = dec (octet a 0) @ ''.'' @ dec (octet a 1) @ ''.'' @ dec (octet a 2) @ ''.'' @ dec (octet a 3)"

definition network_text :: "u32 \<Rightarrow> nat \<Rightarrow> string" where
  "network_text a p = dotted a @ ''/'' @ dec p"

lemma digit_char [simp]: "n < 10 \<Longrightarrow> isdigit (char_of (48 + n))" "n < 10 \<Longrightarrow> digit (char_of (48 + n)) = n"
  by (simp_all add: isdigit_def digit_def)

lemma dec_digits: "c \<in> set (dec n) \<Longrightarrow> isdigit c"
proof (induction n rule: dec.induct)
  case (1 n)
  then show ?case using dec.simps [of n] by (cases "n < 10") auto
qed

lemma dec_nonempty [simp]: "dec n \<noteq> []"
  by (subst dec.simps) simp

lemma decimal_snoc [simp]: "decimal (s @ [c]) = 10 * decimal s + digit c" "decimal [] = 0"
  by (simp_all add: decimal_def)

lemma decimal_dec [simp]: "decimal (dec n) = n"
proof (induction n rule: dec.induct)
  case (1 n)
  show ?case
  proof (cases "n < 10")
    case True
    then show ?thesis using decimal_snoc(1) [of "[]"] by (subst dec.simps) simp
  next
    case False
    then show ?thesis using 1 by (subst dec.simps) simp
  qed
qed

lemma dec_head: "hd (dec n) = CHR ''0'' \<longleftrightarrow> n = 0"
proof (induction n rule: dec.induct)
  case (1 n)
  show ?case
  proof (cases "n < 10")
    case True
    have "char_of (48 + n) = CHR ''0'' \<longleftrightarrow> (of_char (char_of (48 + n)) :: nat) = of_char (CHR ''0'')"
      by (simp only: of_char_eq_iff)
    then have "char_of (48 + n) = CHR ''0'' \<longleftrightarrow> n = 0" using True by simp
    then show ?thesis using True by (subst dec.simps) simp
  next
    case False
    then show ?thesis using 1 by (subst dec.simps) (simp add: hd_append)
  qed
qed

lemma dec_length: "n < 1000 \<Longrightarrow> length (dec n) \<le> 3"
  by (subst dec.simps, simp, subst dec.simps, simp, subst dec.simps) simp

lemma dec_length2: "n < 100 \<Longrightarrow> length (dec n) \<le> 2"
  using less_mult_imp_div_less [of n 10 10] by (subst dec.simps, simp, subst dec.simps) simp

lemma dec_small: "length (dec n) = 1 \<longleftrightarrow> n < 10"
  by (subst dec.simps) simp


subsection \<open>Reading back\<close>

lemma split_on_plain: "d \<notin> set p \<Longrightarrow> split_on d p = [p]"
  by (induction p) auto

lemma split_on_append: "d \<notin> set p \<Longrightarrow> split_on d (p @ d # s) = p # split_on d s"
  by (induction p) auto

lemma dec_no [simp]: "\<not> isdigit c \<Longrightarrow> c \<notin> set (dec n)"
  using dec_digits by blast

lemma not_digits [simp]: "\<not> isdigit (CHR ''.'')" "\<not> isdigit (CHR ''/'')" "\<not> isdigit (CHR '' '')" "\<not> isdigit (CHR ''t'')"
  "\<not> isdigit (CHR ''f'')" "\<not> isdigit (CHR 0x00)" "\<not> isdigit (CHR ''a'')"
  by (simp_all add: isdigit_def)

lemma octet_less [simp]: "octet a i < 256"
  by (simp add: octet_def)

lemma octet_text_dec: "n < 256 \<Longrightarrow> octet_text (dec n)"
  using dec_digits [of _ n] dec_head [of n] dec_length [of n] dec_small [of n]
  by (auto simp: octet_text_def list_all_iff)

lemma of_nat_octet: "(of_nat (octet a i) :: u32) = take_bit 8 (drop_bit (8 * (3 - i)) a)"
proof -
  have "octet a i = unat (take_bit 8 (drop_bit (8 * (3 - i)) a))"
    by (simp only: octet_def unsigned_take_bit_eq) (simp add: take_bit_eq_mod)
  then show ?thesis by simp
qed

lemma addr_of_dotted: "addr_of_octets [octet a 0, octet a 1, octet a 2, octet a 3] = rte_cpu_to_be_32 a"
  by (rule bit_eqI)
    (auto simp: addr_of_octets_def of_nat_octet bit_rte_bswap32 bit_or_iff bit_push_bit_iff bit_take_bit_iff
      bit_drop_bit_eq add.commute)

lemma inet_pton4_dotted: "inet_pton4 (dotted a) = Some (rte_cpu_to_be_32 a)"
proof -
  have "split_on (CHR ''.'') (dotted a) = map dec [octet a 0, octet a 1, octet a 2, octet a 3]"
    by (simp add: dotted_def split_on_append split_on_plain)
  then show ?thesis by (simp add: inet_pton4_def octet_text_dec addr_of_dotted del: One_nat_def)
qed

lemma dotted_length: "length (dotted a) \<le> 15"
proof -
  have "length (dec (octet a i)) \<le> 3" for i using dec_length [of "octet a i"] octet_less [of a i] by linarith
  from this [of 0] this [of 1] this [of 2] this [of 3] show ?thesis by (simp add: dotted_def)
qed

lemma takeWhile_dec: "takeWhile isdigit (dec n) = dec n"
  using dec_digits by (simp add: takeWhile_eq_all_conv)

lemma dec_hd_digit: "isdigit (hd (dec n))"
  using dec_digits [of "hd (dec n)" n] by simp

lemma scan_u_dec:
  assumes "n < 2 ^ 32"
  shows "scan_u (dec n) = Some (of_nat n)"
proof -
  obtain c r where d: "dec n = c # r" by (cases "dec n") auto
  then have c: "isdigit c" using dec_hd_digit [of n] by simp
  then have "\<not> isspace c" "c \<noteq> CHR ''-''" "c \<noteq> CHR ''+''" by (auto simp: isdigit_def isspace_def)
  then show ?thesis
    using d takeWhile_dec [of n] decimal_dec [of n] assms by (simp add: scan_u_def Let_def)
qed

lemma dotted_chars: "c \<in> set (dotted a) \<Longrightarrow> isdigit c \<or> c = CHR ''.''"
  using dec_digits by (auto simp: dotted_def)

lemma scan_network:
  assumes "p < 2 ^ 32"
  shows "scan_ip_prefix (network_text a p) = (Some (dotted a), Some (of_nat p))"
proof -
  have "takeWhile (\<lambda>c. c \<noteq> CHR ''/'') (network_text a p) = dotted a"
    unfolding network_text_def using dotted_chars [of _ a] by (subst takeWhile_append2) force+
  moreover have "dotted a \<noteq> []" by (simp add: dotted_def)
  ultimately show ?thesis
    using scan_u_dec [OF assms] by (simp add: scan_ip_prefix_def network_text_def)
qed

lemma network_chars: "c \<in> set (network_text a p) \<Longrightarrow> isdigit c \<or> c = CHR ''.'' \<or> c = CHR ''/''"
  using dotted_chars dec_digits by (auto simp: network_text_def)

lemma network_length: "p \<le> 32 \<Longrightarrow> length (network_text a p) \<le> 18"
  using dotted_length [of a] dec_length2 [of p] by (simp add: network_text_def)

lemma strstr_skip: "c \<notin> set xs \<Longrightarrow> strstr (xs @ ys) (c # cs) = strstr ys (c # cs)"
  by (induction xs) auto


lemma hexdigit_digit: "isdigit c \<Longrightarrow> hexdigit c = Some (digit c) \<and> digit c < 10"
  by (auto simp: hexdigit_def digit_def isdigit_def)

lemma digit_in_10: "digit_in 10 c \<longleftrightarrow> isdigit c"
  by (auto simp: digit_in_def hexdigit_def isdigit_def Let_def split: if_splits)

lemma number_in_10: "list_all isdigit s \<Longrightarrow> number_in 10 s = decimal s"
proof (induction s rule: rev_induct)
  case (snoc c s)
  then show ?case using hexdigit_digit [of c] by (simp add: number_in_def decimal_def)
qed (simp add: number_in_def)

text \<open>What may follow a number: the end of the text or a dot.\<close>

lemma strtoul0_dec:
  assumes "n < 2 ^ 64" "r = [] \<or> hd r = CHR ''.''"
  shows "strtoul0 (dec n @ r) = Some (n, False, r)"
proof -
  obtain c t where d: "dec n = c # t" by (cases "dec n") auto
  then have c: "isdigit c" using dec_hd_digit [of n] by simp
  then have skip: "\<not> isspace c" "c \<noteq> CHR ''-''" "c \<noteq> CHR ''+''" by (auto simp: isdigit_def isspace_def)
  have dot: "\<not> digit_in b (CHR ''.'')" for b by (simp add: digit_in_def hexdigit_def isdigit_def)
  show ?thesis
  proof (cases "n = 0")
    case True
    have z: "dec 0 = ''0''" using dec_head [of 0] dec_small [of 0] by (cases "dec 0") auto
    have "digit_in 8 (CHR ''0'')" "the (hexdigit (CHR ''0'')) = 0"
      by (simp_all add: digit_in_def hexdigit_def isdigit_def)
    moreover have "takeWhile (digit_in 8) r = []" using assms(2) dot by (cases r) auto
    moreover have "\<not> isspace (CHR ''0'')" by (simp add: isspace_def)
    ultimately show ?thesis
      unfolding True z using assms(2)
      by (cases r; cases "tl r") (simp_all add: strtoul0_def Let_def number_in_def dot)
  next
    case False
    then have nz: "c \<noteq> CHR ''0''" using dec_head [of n] d by simp
    have "takeWhile (digit_in 10) r = []" using assms(2) dot by (cases r) auto
    moreover have "takeWhile (digit_in 10) (dec n @ r) = dec n @ takeWhile (digit_in 10) r"
      by (rule takeWhile_append2) (simp add: digit_in_10 dec_digits)
    moreover have "number_in 10 (dec n) = n" using dec_digits by (subst number_in_10) (auto simp: list_all_iff)
    ultimately show ?thesis
      using assms(1) nz skip d by (simp add: strtoul0_def Let_def split: list.split)
  qed
qed

lemma bswap_low: "rte_bswap32 (take_bit 8 x) = push_bit 24 (take_bit 8 x)"
  by (rule bit_eqI) (auto simp: bit_rte_bswap32 bit_push_bit_iff bit_take_bit_iff)

lemma inet_aton_dotted: "inet_aton (dotted a) = Some (rte_cpu_to_be_32 a)"
proof -
  have small: "\<not> 255 < octet a i" "\<not> 4294967295 < octet a i" for i using octet_less [of a i] by linarith+
  have step: "inet_aton_parts ps (dec (octet a i) @ ''.'' @ r) = inet_aton_parts (ps @ [octet a i]) r"
    if "length ps < 3" for ps i r
    using that strtoul0_dec [of "octet a i" "''.'' @ r"] dec_hd_digit [of "octet a i"] small [of i]
    by (subst inet_aton_parts.simps) simp
  have last: "inet_aton_parts [octet a 0, octet a 1, octet a 2] (dec (octet a 3)) =
      Some (addr_of_octets [octet a 0, octet a 1, octet a 2, 0] OR rte_cpu_to_be_32 (of_nat (octet a 3)))"
    using strtoul0_dec [of "octet a 3" "[]"] dec_hd_digit [of "octet a 3"] small [of 3]
    by (subst inet_aton_parts.simps) simp
  have "addr_of_octets [octet a 0, octet a 1, octet a 2, 0] OR rte_cpu_to_be_32 (of_nat (octet a 3)) =
      addr_of_octets [octet a 0, octet a 1, octet a 2, octet a 3]"
    by (simp add: addr_of_octets_def of_nat_octet [of a 3] bswap_low or.assoc)
  then show ?thesis
    unfolding inet_aton_def dotted_def using step last addr_of_dotted [of a] by (simp del: One_nat_def)
qed

lemma atoi_dec: "n < 256 \<Longrightarrow> atoi_u8 (dec n) = of_nat n"
proof -
  assume n: "n < 256"
  obtain c r where d: "dec n = c # r" by (cases "dec n") auto
  then have c: "isdigit c" using dec_hd_digit [of n] by simp
  then have "\<not> isspace c" "c \<noteq> CHR ''-''" "c \<noteq> CHR ''+''" by (auto simp: isdigit_def isspace_def)
  then show ?thesis
    using d takeWhile_dec [of n] decimal_dec [of n] n by (simp add: atoi_u8_def Let_def)
qed

subsection \<open>Descriptions as they are written\<close>

text \<open>Where a rule leads: \<^verbatim>\<open>assigned\<close>, \<^verbatim>\<open>any\<close>, or a network.\<close>

datatype flow_end = Assigned | Any | Net u32 nat

definition end_text :: "flow_end \<Rightarrow> string" where
  "end_text e = (case e of Assigned \<Rightarrow> ''assigned'' | Any \<Rightarrow> ''any'' | Net b q \<Rightarrow> network_text b q)"

definition flow_text :: "u32 \<Rightarrow> nat \<Rightarrow> flow_end \<Rightarrow> string" where
  "flow_text a p e = ''permit out ip from '' @ network_text a p @ '' to '' @ end_text e"

definition end_ok :: "flow_end \<Rightarrow> bool" where
  "end_ok e = (case e of Net b q \<Rightarrow> q \<le> 32 | _ \<Rightarrow> True)"

lemma end_text_chars: "c \<in> set (end_text e) \<Longrightarrow> c \<noteq> CHR '' '' \<and> c \<noteq> CHR 0x00"
  by (auto simp: end_text_def split: flow_end.splits dest!: network_chars)

lemma flow_text_no_null: "cstr (flow_text a p e @ replicate n (CHR 0x00)) = flow_text a p e"
proof -
  have "c \<noteq> CHR 0x00" if "c \<in> set (flow_text a p e)" for c
    using that network_chars [of c a p] end_text_chars [of c e] by (auto simp: flow_text_def)
  then show ?thesis unfolding cstr_def by (subst takeWhile_append2) (auto simp: takeWhile_replicate)
qed

lemma end_length: "end_ok e \<Longrightarrow> length (end_text e) \<le> 18 \<and> end_text e \<noteq> []"
  using network_length by (auto simp: end_text_def end_ok_def network_text_def split: flow_end.splits)


lemma network_no: "\<not> isdigit c \<Longrightarrow> c \<noteq> CHR ''.'' \<Longrightarrow> c \<noteq> CHR ''/'' \<Longrightarrow> c \<notin> set (network_text a p)"
  using network_chars by blast

lemma network_keyword: "network_text a p \<noteq> []" "network_text a p \<noteq> ''any''" "network_text a p \<noteq> ''assigned''"
proof -
  have "hd (network_text a p) = hd (dec (octet a 0))" by (simp add: network_text_def dotted_def hd_append)
  then have "isdigit (hd (network_text a p))" using dec_hd_digit by simp
  then show "network_text a p \<noteq> ''any''" "network_text a p \<noteq> ''assigned''" by auto
  show "network_text a p \<noteq> []" by (simp add: network_text_def)
qed

lemma find_from: "strstr (flow_text a p e) ''from'' = Some (''from '' @ network_text a p @ '' to '' @ end_text e)"
  by (simp add: flow_text_def)

lemma find_to: "strstr (flow_text a p e) ''to '' = Some (''to '' @ end_text e)"
proof -
  have "strstr (flow_text a p e) ''to '' = strstr (network_text a p @ '' to '' @ end_text e) ''to ''"
    by (simp add: flow_text_def)
  also have "\<dots> = strstr ('' to '' @ end_text e) ''to ''"
    by (rule strstr_skip) (simp add: network_no)
  finally show ?thesis by simp
qed

lemma find_from_space: "strstr (flow_text a p e) ''from '' = Some (''from '' @ network_text a p @ '' to '' @ end_text e)"
  by (simp add: flow_text_def)

lemma not_from_any: "strstr (flow_text a p e) ''from any'' = None"
proof -
  obtain c r where c: "network_text a p = c # r" "isdigit c"
    using network_keyword(1) [of a p] dec_hd_digit [of "octet a 0"]
    by (cases "network_text a p") (auto simp: network_text_def dotted_def hd_append dest: arg_cong [where f = hd])
  have "c \<noteq> CHR ''a''" using c(2) by auto
  moreover have "strstr (network_text a p @ '' to '' @ end_text e) ''from any'' = strstr (end_text e @ []) ''from any''"
    using strstr_skip [of "CHR ''f''" "network_text a p @ '' to ''" "end_text e"] network_no [of "CHR ''f''"] by simp
  moreover have "CHR ''f'' \<notin> set (end_text e)"
    using network_no [of "CHR ''f''"] by (auto simp: end_text_def split: flow_end.split)
  then have "strstr (end_text e @ []) ''from any'' = None" by (subst strstr_skip) simp_all
  ultimately show ?thesis using c(1) by (simp add: flow_text_def)
qed

end
