(* ===== verification/Cls_Adapter.thy ===== *)
theory Cls_Adapter
  imports C_Strings Upf_Rules
begin

text \<open>
  The adapter between the PDRs of the control plane and the rules of the classifier
  (\<^verbatim>\<open>5gc/classifiers/upf_cls_adapter.cpp\<close>, with the types of \<^verbatim>\<open>classifier_wrapper.h\<close>). Addresses in rules are in host byte order.
\<close>

record pdi_t =
  cpdi_ue_ip :: u32
  cpdi_ue_pref :: u8
  cpdi_src_ip :: u32
  cpdi_src_pref :: u8
  cpdi_dst_ip :: u32
  cpdi_dst_pref :: u8
  cpdi_src_port :: u16
  cpdi_dst_port :: u16
  cpdi_proto :: u8
  cpdi_tos_tc :: u8
  cpdi_spi :: u32
  cpdi_flow_label :: u32
  cpdi_qfi :: u8
  cpdi_teid :: u32
  cpdi_source_if :: u32
  cpdi_ni_hash :: u32

record pdr_t =
  cls_pdr_id :: u16
  cls_precedence :: u32
  cls_pdi :: pdi_t
  cls_descriptor :: nat
  cls_is_uplink :: bool

definition zero_rule :: pdr_t where
  "zero_rule = \<lparr>cls_pdr_id = 0, cls_precedence = 0,
     cls_pdi = \<lparr>cpdi_ue_ip = 0, cpdi_ue_pref = 0, cpdi_src_ip = 0, cpdi_src_pref = 0, cpdi_dst_ip = 0,
       cpdi_dst_pref = 0, cpdi_src_port = 0, cpdi_dst_port = 0, cpdi_proto = 0, cpdi_tos_tc = 0, cpdi_spi = 0,
       cpdi_flow_label = 0, cpdi_qfi = 0, cpdi_teid = 0, cpdi_source_if = 0, cpdi_ni_hash = 0\<rparr>,
     cls_descriptor = 0, cls_is_uplink = False\<rparr>"

definition fnv1a_hash :: "string \<Rightarrow> u32" where
  "fnv1a_hash s = fold (\<lambda>c h. (h XOR of_char c) * 16777619) s 2166136261"

text \<open>Address and prefix length; an unreadable address is the wildcard.\<close>

definition parse_ip_prefix :: "string \<Rightarrow> u32 \<times> u8" where
  "parse_ip_prefix s =
     (if s = [] then (0, 0)
      else
        let buf = take 31 s; ip = takeWhile (\<lambda>c. c \<noteq> CHR ''/'') buf;
            pref = (case drop (length ip) buf of
                      [] \<Rightarrow> 32
                    | _ # p \<Rightarrow> if p \<noteq> [] \<and> isdigit (hd p) then let n = atoi_u8 p in if n > 32 then 32 else n
                               else 32)
        in case inet_aton ip of None \<Rightarrow> (0, 0) | Some a \<Rightarrow> (rte_be_to_cpu_32 a, pref))"

text \<open>A word of the description, cut at 31 characters, and the address range it stands for.\<close>

definition flow_token :: "string \<Rightarrow> string" where
  "flow_token s = take 31 (takeWhile (\<lambda>c. \<not> isspace c) s)"

definition flow_range :: "u32 \<Rightarrow> u8 \<Rightarrow> string \<Rightarrow> u32 \<times> u8" where
  "flow_range ue_ip ue_pref tok =
     (if tok = ''any'' then (0, 0)
      else if tok = ''assigned'' then (if ue_pref = 0 \<and> ue_ip = 0 then (0, 0) else (ue_ip, ue_pref))
      else parse_ip_prefix tok)"

definition rule_ranges :: "string \<Rightarrow> bool \<Rightarrow> pdi_t \<Rightarrow> pdi_t" where
  "rule_ranges desc is_uplink p =
     (if strstr desc ''from any'' \<noteq> None \<and> strstr desc ''to assigned'' \<noteq> None then
        if is_uplink
        then p \<lparr>cpdi_src_ip := cpdi_ue_ip p, cpdi_src_pref := cpdi_ue_pref p, cpdi_dst_ip := 0, cpdi_dst_pref := 0\<rparr>
        else p \<lparr>cpdi_src_ip := 0, cpdi_src_pref := 0, cpdi_dst_ip := cpdi_ue_ip p, cpdi_dst_pref := cpdi_ue_pref p\<rparr>
      else
        let p = (case strstr desc ''from '' of
                   None \<Rightarrow> p
                 | Some t \<Rightarrow>
                     (let (ip, pf) = flow_range (cpdi_ue_ip p) (cpdi_ue_pref p) (flow_token (drop 5 t))
                      in p \<lparr>cpdi_src_ip := ip, cpdi_src_pref := pf\<rparr>))
        in case strstr desc ''to '' of
             None \<Rightarrow> p
           | Some t \<Rightarrow>
               (let (ip, pf) = flow_range (cpdi_ue_ip p) (cpdi_ue_pref p) (flow_token (drop 3 t))
                in p \<lparr>cpdi_dst_ip := ip, cpdi_dst_pref := pf\<rparr>))"

definition rule_pdi :: "UPDK_PDI \<Rightarrow> bool \<Rightarrow> pdi_t \<Rightarrow> pdi_t" where
  "rule_pdi p is_uplink r =
     (let r = (if pdif_ueIpAddress (pdi_flags p) \<and> ueip_v4 (pdi_ueIpAddress p)
               then r \<lparr>cpdi_ue_ip := rte_be_to_cpu_32 (ueip_ipv4 (pdi_ueIpAddress p)), cpdi_ue_pref := 32\<rparr> else r);
          r = (if pdif_fTeid (pdi_flags p) \<and> fteid_v4 (pdi_fTeid p)
               then r \<lparr>cpdi_teid := fteid_teid (pdi_fTeid p)\<rparr> else r);
          r = (if pdif_qfi (pdi_flags p) then r \<lparr>cpdi_qfi := pdi_qfi p\<rparr> else r);
          r = (if pdif_networkInstance (pdi_flags p)
               then r \<lparr>cpdi_ni_hash := fnv1a_hash (cstr (pdi_networkInstance p))\<rparr> else r);
          r = r \<lparr>cpdi_source_if := ucast (if is_uplink then SRC_IF_ACCESS else SRC_IF_CORE)\<rparr>;
          f = pdi_sdfFilter p
      in if \<not> pdif_sdfFilter (pdi_flags p) then r
         else
           let r = (if sdf_ttc f then r \<lparr>cpdi_tos_tc := ucast (sdf_tosTrafficClass f)\<rparr> else r);
               r = (if sdf_spi f then r \<lparr>cpdi_spi := sdf_securityParameterIndex f\<rparr> else r)
           in if sdf_fd f then rule_ranges (cstr (sdf_flowDescription f)) is_uplink r else r)"

definition updk_pdr_to_cls_rule :: "UPDK_PDR \<Rightarrow> bool \<Rightarrow> pdr_t" where
  "updk_pdr_to_cls_rule pdr is_uplink =
     (let out = zero_rule \<lparr>cls_is_uplink := is_uplink\<rparr>;
          out = (if pdrf_pdrId (pdr_flags pdr) then out \<lparr>cls_pdr_id := pdr_pdrId pdr\<rparr> else out);
          out = (if pdrf_precedence (pdr_flags pdr) then out \<lparr>cls_precedence := pdr_precedence pdr\<rparr> else out)
      in if \<not> pdrf_pdi (pdr_flags pdr) then out
         else out \<lparr>cls_pdi := rule_pdi (pdr_pdi pdr) is_uplink (cls_pdi out)\<rparr>)"


subsection \<open>Rules of written descriptions\<close>

lemma not_space_digit: "isdigit c \<Longrightarrow> \<not> isspace c"
  by (auto simp: isdigit_def isspace_def)

lemma parse_network:
  assumes "p \<le> 32"
  shows "parse_ip_prefix (network_text a p) = (a, of_nat p)"
proof -
  have len: "length (network_text a p) \<le> 31" using network_length [OF assms, of a] by simp
  have ip: "takeWhile (\<lambda>c. c \<noteq> CHR ''/'') (network_text a p) = dotted a"
    unfolding network_text_def using dotted_chars [of _ a] by (subst takeWhile_append2) force+
  have rest: "drop (length (dotted a)) (network_text a p) = CHR ''/'' # dec p" by (simp add: network_text_def)
  have "\<not> (32 :: u8) < of_nat p" using assms by (simp add: word_less_nat_alt unat_of_nat take_bit_nat_eq_self)
  then show ?thesis
    using len assms dec_hd_digit [of p]
    by (simp add: parse_ip_prefix_def ip rest Let_def inet_aton_dotted atoi_dec) (simp add: network_text_def)
qed


lemma flow_token_word:
  assumes "\<And>c. c \<in> set w \<Longrightarrow> \<not> isspace c" "length w \<le> 31"
  shows "flow_token (w @ CHR '' '' # r) = w" "flow_token w = w"
proof -
  have "takeWhile (\<lambda>c. \<not> isspace c) (w @ CHR '' '' # r) = w @ takeWhile (\<lambda>c. \<not> isspace c) (CHR '' '' # r)"
    using assms(1) by (rule takeWhile_append2)
  then show "flow_token (w @ CHR '' '' # r) = w" using assms(2) by (simp add: flow_token_def isspace_def)
  have w: "takeWhile (\<lambda>c. \<not> isspace c) w = w" using assms(1) by (simp add: takeWhile_eq_all_conv)
  show "flow_token w = w" using assms(2) by (simp add: flow_token_def w)
qed

lemma network_not_space: "c \<in> set (network_text a p) \<Longrightarrow> \<not> isspace c"
  using network_chars [of c a p] not_space_digit [of c] by (auto simp: isspace_def)

lemma end_not_space: "c \<in> set (end_text e) \<Longrightarrow> \<not> isspace c"
  using network_not_space by (auto simp: end_text_def isspace_def split: flow_end.splits)

text \<open>The range a destination stands for, given the address of the UE.\<close>

definition end_range :: "u32 \<Rightarrow> flow_end \<Rightarrow> u32 \<times> u8" where
  "end_range ue e = (case e of Assigned \<Rightarrow> (ue, 32) | Any \<Rightarrow> (0, 0) | Net b q \<Rightarrow> (b, of_nat q))"

lemma range_of_end: "end_ok e \<Longrightarrow> flow_range ue 32 (end_text e) = end_range ue e"
  by (cases e) (simp_all add: flow_range_def end_text_def end_range_def end_ok_def parse_network network_keyword)

lemma ranges_of_flow:
  assumes "p \<le> 32" "end_ok e" "cpdi_ue_pref r = 32"
  shows "rule_ranges (flow_text a p e) up r = r \<lparr>cpdi_src_ip := a, cpdi_src_pref := of_nat p,
    cpdi_dst_ip := fst (end_range (cpdi_ue_ip r) e), cpdi_dst_pref := snd (end_range (cpdi_ue_ip r) e)\<rparr>"
proof -
  have "length (network_text a p) \<le> 31" "length (end_text e) \<le> 31"
    using network_length [OF assms(1), of a] end_length [OF assms(2)] by auto
  then have t: "flow_token (network_text a p @ CHR '' '' # q) = network_text a p" "flow_token (end_text e) = end_text e" for q
    using flow_token_word [of "network_text a p"] flow_token_word [of "end_text e"] network_not_space end_not_space
    by blast+
  have "flow_range ue pf (network_text a p) = (a, of_nat p)" for ue pf
    using parse_network [OF assms(1)] by (simp add: flow_range_def network_keyword)
  then show ?thesis
    using assms(3) range_of_end [OF assms(2)]
    by (simp add: rule_ranges_def not_from_any find_from_space find_to t Let_def split_beta)
qed

text \<open>
  C21. The classifier rule of a PDR is what its PDI says. For a PDR with a UE address and a flow
  description from a network to \<^verbatim>\<open>assigned\<close>, \<^verbatim>\<open>any\<close> or a network, every field of the rule is
  given: the UE address exactly, the source range of the description and, as the destination range,
  the UE address, everything, or the network named; the PDR identifier, the precedence, the QFI,
  the TEID, the hash of the network instance, the traffic class and the security parameter index
  of the PDR where it has them and zero where it does not; the direction with its source
  interface; and wildcards for the ports, the protocol and the flow label, which the adapter never
  sets. The ranges are the same for uplink and downlink.
\<close>

theorem cls_rule_of_flow:
  fixes pdr :: UPDK_PDR
  defines "pdi \<equiv> pdr_pdi pdr"
  defines "ue \<equiv> rte_be_to_cpu_32 (ueip_ipv4 (pdi_ueIpAddress pdi))"
  assumes "pdrf_pdi (pdr_flags pdr)" "pdif_ueIpAddress (pdi_flags pdi)" "ueip_v4 (pdi_ueIpAddress pdi)"
    and "pdif_sdfFilter (pdi_flags pdi)" "sdf_fd (pdi_sdfFilter pdi)"
    and "sdf_flowDescription (pdi_sdfFilter pdi) = flow_text a p e @ replicate n (CHR 0x00)"
    and "p \<le> 32" "end_ok e"
  shows "updk_pdr_to_cls_rule pdr up =
    \<lparr>cls_pdr_id = (if pdrf_pdrId (pdr_flags pdr) then pdr_pdrId pdr else 0),
     cls_precedence = (if pdrf_precedence (pdr_flags pdr) then pdr_precedence pdr else 0),
     cls_pdi = \<lparr>
       cpdi_ue_ip = ue, cpdi_ue_pref = 32, cpdi_src_ip = a, cpdi_src_pref = of_nat p,
       cpdi_dst_ip = fst (end_range ue e), cpdi_dst_pref = snd (end_range ue e),
       cpdi_src_port = 0, cpdi_dst_port = 0, cpdi_proto = 0,
       cpdi_tos_tc = (if sdf_ttc (pdi_sdfFilter pdi)
                      then ucast (sdf_tosTrafficClass (pdi_sdfFilter pdi)) else 0),
       cpdi_spi = (if sdf_spi (pdi_sdfFilter pdi)
                   then sdf_securityParameterIndex (pdi_sdfFilter pdi) else 0),
       cpdi_flow_label = 0, cpdi_qfi = (if pdif_qfi (pdi_flags pdi) then pdi_qfi pdi else 0),
       cpdi_teid = (if pdif_fTeid (pdi_flags pdi) \<and> fteid_v4 (pdi_fTeid pdi)
                    then fteid_teid (pdi_fTeid pdi) else 0),
       cpdi_source_if = (if up then 0 else 1),
       cpdi_ni_hash = (if pdif_networkInstance (pdi_flags pdi)
                       then fnv1a_hash (cstr (pdi_networkInstance pdi)) else 0)\<rparr>,
     cls_descriptor = 0, cls_is_uplink = up\<rparr>"
  using assms(3-) ranges_of_flow [OF assms(9,10)] flow_text_no_null [of a p e n]
  by (simp add: updk_pdr_to_cls_rule_def rule_pdi_def zero_rule_def Let_def pdi_def ue_def)


text \<open>Downlink PDR 7 of precedence 128 for QFI 9, the UE 10.60.0.1 and traffic from 192.168.0.0/16.\<close>

definition example_flow_pdr :: UPDK_PDR where
  "example_flow_pdr = zero_pdr
     \<lparr>pdr_flags := (pdr_flags zero_pdr) \<lparr>pdrf_pdrId := True, pdrf_precedence := True, pdrf_pdi := True\<rparr>,
      pdr_pdrId := 7, pdr_precedence := 128,
      pdr_pdi := zero_pdi
        \<lparr>pdi_flags := (pdi_flags zero_pdi) \<lparr>pdif_ueIpAddress := True, pdif_sdfFilter := True, pdif_qfi := True\<rparr>,
         pdi_ueIpAddress := (pdi_ueIpAddress zero_pdi) \<lparr>ueip_v4 := True, ueip_ipv4 := rte_cpu_to_be_32 0x0A3C0001\<rparr>,
         pdi_qfi := 9,
         pdi_sdfFilter := (pdi_sdfFilter zero_pdi)
           \<lparr>sdf_fd := True, sdf_flowDescription := flow_text 0xC0A80000 16 Assigned\<rparr>\<rparr>\<rparr>"

theorem cls_rule_of_flow_witness:
  "updk_pdr_to_cls_rule example_flow_pdr False =
     \<lparr>cls_pdr_id = 7, cls_precedence = 128,
      cls_pdi = \<lparr>cpdi_ue_ip = 0x0A3C0001, cpdi_ue_pref = 32, cpdi_src_ip = 0xC0A80000, cpdi_src_pref = 16,
        cpdi_dst_ip = 0x0A3C0001, cpdi_dst_pref = 32, cpdi_src_port = 0, cpdi_dst_port = 0, cpdi_proto = 0,
        cpdi_tos_tc = 0, cpdi_spi = 0, cpdi_flow_label = 0, cpdi_qfi = 9, cpdi_teid = 0, cpdi_source_if = 1,
        cpdi_ni_hash = 0\<rparr>,
      cls_descriptor = 0, cls_is_uplink = False\<rparr>"
  by (subst cls_rule_of_flow [of example_flow_pdr "0xC0A80000" 16 Assigned 0 False])
    (simp_all add: example_flow_pdr_def zero_pdr_def zero_pdi_def end_ok_def end_range_def)

end
