(* ===== verification/Worker_Events.thy ===== *)
theory Worker_Events
  imports Upf_Prelude "HOL-Library.Multiset"
begin

text \<open>
  The worker registry and the NF-to-NF events of \<^verbatim>\<open>onvm/utlt/upf_events.c\<close>: which UPF-U workers
  exist, how a session is given one (round robin, or a hash of the TEID), and the messages sent
  to one worker or to all of them. The allocation of a message and the ONVM send call are
  parameters.
\<close>

abbreviation (input) UPF_MAX_WORKERS :: nat where "UPF_MAX_WORKERS \<equiv> 32"
abbreviation (input) UPF_C_SERVICE_ID :: u16 where "UPF_C_SERVICE_ID \<equiv> 2"
abbreviation (input) UPF_INVALID_SERVICE_ID :: u16 where "UPF_INVALID_SERVICE_ID \<equiv> 0xFFFF"

abbreviation (input) UPF_EVENT_CLEAR_AND_DRAIN :: u32 where "UPF_EVENT_CLEAR_AND_DRAIN \<equiv> 0xA1"
abbreviation (input) UPF_EVENT_SHAPER_SESSION_REMOVE :: u32 where
  "UPF_EVENT_SHAPER_SESSION_REMOVE \<equiv> 0xA2"
abbreviation (input) EVT_CLS_GC_REQ :: u32 where "EVT_CLS_GC_REQ \<equiv> 0x4201"
abbreviation (input) EVT_CLS_GC_ACK :: u32 where "EVT_CLS_GC_ACK \<equiv> 0x4202"

text \<open>An \<^verbatim>\<open>Event\<close>; the arguments beyond the second are never set and stay zero.\<close>

record Event =
  ev_type :: u64
  ev_argc :: int
  ev_arg0 :: u64
  ev_arg1 :: u64

record worker_config =
  g_upf_worker_service_ids :: "u16 list"
  g_upf_worker_count :: u16
  g_upf_worker_rr_next :: u16

text \<open>One call's environment: whether the allocation succeeds, and what the send call returns.\<close>

record send_env =
  se_calloc :: bool
  se_send :: "u16 \<Rightarrow> Event \<Rightarrow> int"

subsection \<open>Events\<close>

text \<open>The result code and the message handed over, if any; a refused message is freed.\<close>

definition send_event :: "send_env \<Rightarrow> u16 \<Rightarrow> Event \<Rightarrow> int \<times> (u16 \<times> Event) list" where
  "send_event env dest_sid e =
     (if \<not> se_calloc env then (-1, [])
      else let rc = se_send env dest_sid e in (rc, if rc < 0 then [] else [(dest_sid, e)]))"

definition UpfSendEvt1 :: "send_env \<Rightarrow> u16 \<Rightarrow> u32 \<Rightarrow> u64 \<Rightarrow> int \<times> (u16 \<times> Event) list" where
  "UpfSendEvt1 env dest_sid ty a0 =
     send_event env dest_sid \<lparr>ev_type = ucast ty, ev_argc = 1, ev_arg0 = a0, ev_arg1 = 0\<rparr>"

definition UpfSendEvt2 :: "send_env \<Rightarrow> u16 \<Rightarrow> u32 \<Rightarrow> u64 \<Rightarrow> u64 \<Rightarrow> int \<times> (u16 \<times> Event) list" where
  "UpfSendEvt2 env dest_sid ty a0 a1 =
     send_event env dest_sid \<lparr>ev_type = ucast ty, ev_argc = 2, ev_arg0 = a0, ev_arg1 = a1\<rparr>"

subsection \<open>The worker registry\<close>

definition UpfWorkerConfigReset :: "worker_config \<Rightarrow> worker_config" where
  "UpfWorkerConfigReset w =
     \<lparr>g_upf_worker_service_ids = replicate UPF_MAX_WORKERS 0, g_upf_worker_count = 0,
      g_upf_worker_rr_next = 0\<rparr>"

primrec worker_set_loop :: "u16 list \<Rightarrow> nat list \<Rightarrow> worker_config \<Rightarrow> worker_config \<times> bool" where
  "worker_set_loop service_ids [] w = (w, True)"
| "worker_set_loop service_ids (i # is) w =
     (let sid = service_ids ! i in
      if sid = UPF_INVALID_SERVICE_ID \<or> sid = UPF_C_SERVICE_ID
      then (UpfWorkerConfigReset w, False)
      else if list_ex (\<lambda>j. g_upf_worker_service_ids w ! j = sid) [0..<i]
      then (UpfWorkerConfigReset w, False)
      else worker_set_loop service_ids is
             (w \<lparr>g_upf_worker_service_ids := (g_upf_worker_service_ids w)[i := sid]\<rparr>))"

definition UpfWorkerConfigSet ::
  "worker_config \<Rightarrow> u16 list option \<Rightarrow> u16 \<Rightarrow> worker_config \<times> int" where
  "UpfWorkerConfigSet w service_ids_ptr cnt =
     (let w = UpfWorkerConfigReset w in
      case service_ids_ptr of
        None \<Rightarrow> (w, -1)
      | Some service_ids \<Rightarrow>
          if cnt = 0 \<or> unat cnt > UPF_MAX_WORKERS then (w, -1)
          else (case worker_set_loop service_ids [0..<unat cnt] w of
                  (w, False) \<Rightarrow> (w, -1)
                | (w, True) \<Rightarrow> (w \<lparr>g_upf_worker_count := cnt\<rparr>, 0)))"

definition UpfWorkerCount :: "worker_config \<Rightarrow> u16" where
  "UpfWorkerCount w = g_upf_worker_count w"

definition UpfWorkerServiceIdAt :: "worker_config \<Rightarrow> u16 \<Rightarrow> u16" where
  "UpfWorkerServiceIdAt w index =
     (if index \<ge> g_upf_worker_count w then UPF_INVALID_SERVICE_ID
      else g_upf_worker_service_ids w ! unat index)"

definition UpfWorkerServiceValid :: "worker_config \<Rightarrow> u16 \<Rightarrow> bool" where
  "UpfWorkerServiceValid w service_id =
     list_ex (\<lambda>i. g_upf_worker_service_ids w ! i = service_id) [0..<unat (g_upf_worker_count w)]"

definition UpfSelectWorkerServiceIdRoundRobin :: "worker_config \<Rightarrow> worker_config \<times> u16" where
  "UpfSelectWorkerServiceIdRoundRobin w =
     (if g_upf_worker_count w = 0 then (w, UPF_INVALID_SERVICE_ID)
      else let index = g_upf_worker_rr_next w mod g_upf_worker_count w
           in (w \<lparr>g_upf_worker_rr_next := of_nat ((unat index + 1) mod unat (g_upf_worker_count w))\<rparr>,
               g_upf_worker_service_ids w ! unat index))"

definition UpfMixTeid :: "u32 \<Rightarrow> u32" where
  "UpfMixTeid teid =
     (let t = teid XOR drop_bit 16 teid; t = t * 0x7feb352d;
          t = t XOR drop_bit 15 t; t = t * 0x846ca68b
      in t XOR drop_bit 16 t)"

definition UpfSelectWorkerServiceIdByTeid :: "worker_config \<Rightarrow> u32 \<Rightarrow> u16" where
  "UpfSelectWorkerServiceIdByTeid w teid =
     (if g_upf_worker_count w = 0 then UPF_INVALID_SERVICE_ID
      else g_upf_worker_service_ids w ! (unat (UpfMixTeid teid) mod unat (g_upf_worker_count w)))"

text \<open>
  The broadcasts: \<open>env i\<close> is the environment of the \<open>i\<close>-th send, \<open>send\<close> the single send. The
  result is the number of accepted messages and the messages handed over.
\<close>

primrec broadcast ::
  "(nat \<Rightarrow> u16 \<Rightarrow> int \<times> (u16 \<times> Event) list) \<Rightarrow> worker_config \<Rightarrow> nat list \<Rightarrow>
     u16 \<times> (u16 \<times> Event) list" where
  "broadcast send w [] = (0, [])"
| "broadcast send w (i # is) =
     (let (rc, out) = send i (g_upf_worker_service_ids w ! i); (n, rest) = broadcast send w is
      in ((if rc = 0 then 1 else 0) + n, out @ rest))"

definition UpfBroadcastEvt1ToWorkers ::
  "(nat \<Rightarrow> send_env) \<Rightarrow> worker_config \<Rightarrow> u32 \<Rightarrow> u64 \<Rightarrow> u16 \<times> (u16 \<times> Event) list" where
  "UpfBroadcastEvt1ToWorkers env w ty a0 =
     broadcast (\<lambda>i sid. UpfSendEvt1 (env i) sid ty a0) w [0..<unat (g_upf_worker_count w)]"

definition UpfBroadcastEvt2ToWorkers ::
  "(nat \<Rightarrow> send_env) \<Rightarrow> worker_config \<Rightarrow> u32 \<Rightarrow> u64 \<Rightarrow> u64 \<Rightarrow> u16 \<times> (u16 \<times> Event) list" where
  "UpfBroadcastEvt2ToWorkers env w ty a0 a1 =
     broadcast (\<lambda>i sid. UpfSendEvt2 (env i) sid ty a0 a1) w [0..<unat (g_upf_worker_count w)]"

subsection \<open>The registry is a list of distinct workers\<close>

definition workers :: "worker_config \<Rightarrow> u16 list" where
  "workers w = take (unat (g_upf_worker_count w)) (g_upf_worker_service_ids w)"

definition worker_inv :: "worker_config \<Rightarrow> bool" where
  "worker_inv w \<longleftrightarrow> length (g_upf_worker_service_ids w) = UPF_MAX_WORKERS \<and>
     unat (g_upf_worker_count w) \<le> UPF_MAX_WORKERS \<and> distinct (workers w) \<and>
     UPF_INVALID_SERVICE_ID \<notin> set (workers w) \<and> UPF_C_SERVICE_ID \<notin> set (workers w)"

lemma length_workers: "worker_inv w \<Longrightarrow> length (workers w) = unat (g_upf_worker_count w)"
  by (simp add: worker_inv_def workers_def)

lemma worker_nth:
  "worker_inv w \<Longrightarrow> i < unat (g_upf_worker_count w) \<Longrightarrow> g_upf_worker_service_ids w ! i = workers w ! i"
  by (simp add: workers_def)

lemma reset_inv: "worker_inv (UpfWorkerConfigReset w)" "workers (UpfWorkerConfigReset w) = []"
  by (simp_all add: worker_inv_def workers_def UpfWorkerConfigReset_def)

abbreviation (input) worker_ok :: "u16 \<Rightarrow> bool" where
  "worker_ok sid \<equiv> sid \<noteq> UPF_INVALID_SERVICE_ID \<and> sid \<noteq> UPF_C_SERVICE_ID"

lemma worker_set_loop_result:
  assumes "i + n \<le> length sids" "i + n \<le> UPF_MAX_WORKERS"
    and "length (g_upf_worker_service_ids w) = UPF_MAX_WORKERS"
    and "take i (g_upf_worker_service_ids w) = take i sids"
    and "distinct (take i sids)"
  shows "worker_set_loop sids [i..<i + n] w =
    (if distinct (take (i + n) sids) \<and> (\<forall>s\<in>set (take n (drop i sids)). worker_ok s)
     then (w \<lparr>g_upf_worker_service_ids :=
                take (i + n) sids @ drop (i + n) (g_upf_worker_service_ids w)\<rparr>, True)
     else (UpfWorkerConfigReset w, False))"
  using assms
proof (induction n arbitrary: i w)
  case 0
  then have "take i sids @ drop i (g_upf_worker_service_ids w) = g_upf_worker_service_ids w"
    by (metis append_take_drop_id)
  then show ?case using 0 by simp
next
  case (Suc n)
  let ?ids = "g_upf_worker_service_ids w"
  let ?w = "w \<lparr>g_upf_worker_service_ids := ?ids[i := sids ! i]\<rparr>"
  have i: "i < length sids" "i < length ?ids" using Suc.prems by simp_all
  have tk: "take (Suc i) sids = take i sids @ [sids ! i]" using i by (simp add: take_Suc_conv_app_nth)
  have dr: "take (Suc n) (drop i sids) = sids ! i # take n (drop (Suc i) sids)"
    using i by (simp add: Cons_nth_drop_Suc [symmetric])
  have seen: "list_ex (\<lambda>j. ?ids ! j = sids ! i) [0..<i] \<longleftrightarrow> sids ! i \<in> set (take i sids)"
  proof -
    have "list_ex (\<lambda>j. ?ids ! j = sids ! i) [0..<i] \<longleftrightarrow> sids ! i \<in> set (take i ?ids)"
      using i by (auto simp: list_ex_iff in_set_conv_nth)
    then show ?thesis using Suc.prems(4) by simp
  qed
  have pre: "distinct (take (i + Suc n) sids) \<Longrightarrow> distinct (take (Suc i) sids)"
    using distinct_take [of "take (i + Suc n) sids" "Suc i"] by (simp add: min_def)
  have upt: "[i..<i + Suc n] = i # [Suc i..<Suc i + n]" by (simp add: upt_rec)
  show ?case
  proof (cases "worker_ok (sids ! i) \<and> sids ! i \<notin> set (take i sids)")
    case True
    have "take (Suc i) (?ids[i := sids ! i]) = take (Suc i) sids"
      using i Suc.prems(4) by (simp add: take_Suc_conv_app_nth)
    moreover have "distinct (take (Suc i) sids)" using True Suc.prems(5) tk by simp
    ultimately have IH: "worker_set_loop sids [Suc i..<Suc i + n] ?w =
      (if distinct (take (Suc i + n) sids) \<and> (\<forall>s\<in>set (take n (drop (Suc i) sids)). worker_ok s)
       then (?w \<lparr>g_upf_worker_service_ids :=
                  take (Suc i + n) sids @ drop (Suc i + n) (g_upf_worker_service_ids ?w)\<rparr>, True)
       else (UpfWorkerConfigReset ?w, False))"
      using Suc.prems by (intro Suc.IH) simp_all
    have "UpfWorkerConfigReset ?w = UpfWorkerConfigReset w" by (simp add: UpfWorkerConfigReset_def)
    then show ?thesis
      unfolding upt worker_set_loop.simps Let_def IH using True seen dr by simp
  next
    case False
    then have "\<not> (distinct (take (i + Suc n) sids) \<and> (\<forall>s\<in>set (take (Suc n) (drop i sids)). worker_ok s))"
      using pre tk dr by auto
    then show ?thesis
      unfolding upt worker_set_loop.simps Let_def using False seen by auto
  qed
qed

text \<open>
  What a worker configuration is accepted. \<^verbatim>\<open>UpfWorkerConfigSet\<close> returns 0 exactly for a
  non-empty list of at most 32 distinct service ids none of which is invalid or the control
  plane's; then the registry holds that list, in order, with the round robin at its start.
  Any other call leaves the empty registry, whatever was configured before. The registry
  invariant holds either way.
\<close>

theorem worker_config_set_exact:
  assumes "\<forall>l. ids = Some l \<longrightarrow> unat cnt \<le> length l"
  shows "(snd (UpfWorkerConfigSet w ids cnt) = 0 \<longleftrightarrow>
       (\<exists>l. ids = Some l \<and> cnt \<noteq> 0 \<and> unat cnt \<le> UPF_MAX_WORKERS \<and>
          distinct (take (unat cnt) l) \<and> (\<forall>s\<in>set (take (unat cnt) l). worker_ok s))) \<and>
    workers (fst (UpfWorkerConfigSet w ids cnt)) =
      (if snd (UpfWorkerConfigSet w ids cnt) = 0 then take (unat cnt) (the ids) else []) \<and>
    g_upf_worker_rr_next (fst (UpfWorkerConfigSet w ids cnt)) = 0 \<and>
    worker_inv (fst (UpfWorkerConfigSet w ids cnt))"
proof (cases "ids = None \<or> cnt = 0 \<or> unat cnt > UPF_MAX_WORKERS")
  case True
  then have "UpfWorkerConfigSet w ids cnt = (UpfWorkerConfigReset w, -1)"
    by (auto simp: UpfWorkerConfigSet_def Let_def split: option.split)
  moreover have "g_upf_worker_rr_next (UpfWorkerConfigReset w) = 0"
    by (simp add: UpfWorkerConfigReset_def)
  ultimately show ?thesis using True reset_inv [of w] by auto
next
  case False
  then obtain l where l: "ids = Some l" and c: "cnt \<noteq> 0" "unat cnt \<le> UPF_MAX_WORKERS" by auto
  let ?w = "UpfWorkerConfigReset w"
  let ?good = "distinct (take (unat cnt) l) \<and> (\<forall>s\<in>set (take (unat cnt) l). worker_ok s)"
  have rr: "g_upf_worker_rr_next ?w = 0" "UpfWorkerConfigReset ?w = ?w"
    "length (g_upf_worker_service_ids ?w) = UPF_MAX_WORKERS"
    by (simp_all add: UpfWorkerConfigReset_def)
  have len: "unat cnt \<le> length l" using assms l by simp
  have "worker_set_loop l [0..<unat cnt] ?w = (if ?good
     then (?w \<lparr>g_upf_worker_service_ids :=
        take (unat cnt) l @ drop (unat cnt) (g_upf_worker_service_ids ?w)\<rparr>, True)
     else (?w, False))"
    using worker_set_loop_result [of 0 "unat cnt" l ?w] len c rr by simp
  then have set: "UpfWorkerConfigSet w ids cnt = (if ?good
     then (?w \<lparr>g_upf_worker_service_ids :=
        take (unat cnt) l @ drop (unat cnt) (g_upf_worker_service_ids ?w), g_upf_worker_count := cnt\<rparr>, 0)
     else (?w, -1))"
    using c by (simp add: UpfWorkerConfigSet_def l Let_def)
  show ?thesis
  proof (cases ?good)
    case True
    then show ?thesis
      using set rr len c l by (auto simp: worker_inv_def workers_def min_absorb2)
  next
    case False
    then show ?thesis using set rr reset_inv [of w] l c by auto
  qed
qed

definition no_workers :: worker_config where
  "no_workers = \<lparr>g_upf_worker_service_ids = replicate UPF_MAX_WORKERS 0, g_upf_worker_count = 0,
     g_upf_worker_rr_next = 0\<rparr>"

theorem worker_config_set_exact_witness:
  "workers (fst (UpfWorkerConfigSet no_workers (Some [10, 11, 12]) 3)) = [10, 11, 12]"
  using worker_config_set_exact [of "Some [10, 11, 12]" 3 no_workers] by simp

lemma distinct_count: "distinct xs \<Longrightarrow> count_list xs x = (if x \<in> set xs then 1 else 0)"
  by (induction xs) auto

subsection \<open>Sharing sessions among the workers\<close>

text \<open>The services a run of \<open>n\<close> round-robin selections returns.\<close>

primrec rr_run :: "nat \<Rightarrow> worker_config \<Rightarrow> worker_config \<times> u16 list" where
  "rr_run 0 w = (w, [])"
| "rr_run (Suc n) w =
     (let (w, sid) = UpfSelectWorkerServiceIdRoundRobin w; (w, sids) = rr_run n w in (w, sid # sids))"

lemma select_rr:
  assumes "worker_inv w" "g_upf_worker_count w \<noteq> 0"
  shows "UpfSelectWorkerServiceIdRoundRobin w =
    (w \<lparr>g_upf_worker_rr_next :=
        of_nat (Suc (unat (g_upf_worker_rr_next w)) mod length (workers w))\<rparr>,
     workers w ! (unat (g_upf_worker_rr_next w) mod length (workers w)))"
proof -
  have "0 < unat (g_upf_worker_count w)" using assms(2) by (simp add: unat_gt_0)
  then show ?thesis
    using assms length_workers [OF assms(1)] worker_nth [OF assms(1)]
    by (simp add: UpfSelectWorkerServiceIdRoundRobin_def Let_def unat_mod mod_Suc_eq)
qed

lemma rr_next_inv [simp]:
  "worker_inv (w \<lparr>g_upf_worker_rr_next := x\<rparr>) = worker_inv w"
  "workers (w \<lparr>g_upf_worker_rr_next := x\<rparr>) = workers w"
  by (simp_all add: worker_inv_def workers_def)

lemma rr_run_eq:
  assumes "worker_inv w" "g_upf_worker_count w \<noteq> 0"
  defines "c \<equiv> length (workers w)"
  shows "snd (rr_run n w) = map (\<lambda>j. workers w ! ((unat (g_upf_worker_rr_next w) + j) mod c)) [0..<n] \<and>
    (\<exists>x. fst (rr_run n w) = w \<lparr>g_upf_worker_rr_next := x\<rparr> \<and>
       unat x mod c = (unat (g_upf_worker_rr_next w) + n) mod c)"
  using assms(1,2) unfolding c_def
proof (induction n arbitrary: w)
  case 0
  then show ?case by (intro conjI exI [of _ "g_upf_worker_rr_next w"]) simp_all
next
  case (Suc n)
  let ?c = "length (workers w)" and ?r = "unat (g_upf_worker_rr_next w)"
  define w1 where "w1 = w \<lparr>g_upf_worker_rr_next := of_nat (Suc ?r mod ?c)\<rparr>"
  have c: "0 < ?c" "?c \<le> 32"
    using Suc.prems length_workers [of w] by (simp_all add: unat_gt_0 worker_inv_def)
  have "Suc ?r mod ?c < ?c" using c by simp
  then have "Suc ?r mod ?c < 65536" using c by linarith
  then have r1: "unat (g_upf_worker_rr_next w1) = Suc ?r mod ?c"
    by (simp add: w1_def unat_of_nat)
  have w1: "worker_inv w1" "g_upf_worker_count w1 \<noteq> 0" "workers w1 = workers w"
    using Suc.prems by (simp_all add: w1_def)
  obtain x where x: "fst (rr_run n w1) = w1 \<lparr>g_upf_worker_rr_next := x\<rparr>"
      "unat x mod ?c = (Suc ?r mod ?c + n) mod ?c"
    and picks: "snd (rr_run n w1) = map (\<lambda>j. workers w ! ((Suc ?r mod ?c + j) mod ?c)) [0..<n]"
    using Suc.IH [OF w1(1,2)] r1 w1(3) by auto
  have "[0..<Suc n] = 0 # map Suc [0..<n]" by (simp add: map_Suc_upt upt_conv_Cons del: upt_Suc)
  moreover have "(Suc ?r mod ?c + j) mod ?c = (?r + Suc j) mod ?c" for j
    by (simp add: mod_add_left_eq)
  ultimately have "snd (rr_run (Suc n) w) = map (\<lambda>j. workers w ! ((?r + j) mod ?c)) [0..<Suc n]"
    using picks select_rr [OF Suc.prems] by (simp add: split_beta w1_def [symmetric] comp_def)
  moreover have "fst (rr_run (Suc n) w) = w \<lparr>g_upf_worker_rr_next := x\<rparr>"
    using x(1) select_rr [OF Suc.prems] by (simp add: split_beta w1_def)
  moreover have "unat x mod ?c = (?r + Suc n) mod ?c"
    using x(2) by (simp add: mod_add_left_eq)
  ultimately show ?case by blast
qed

lemma rr_run_add:
  "rr_run (m + n) w =
     (fst (rr_run n (fst (rr_run m w))), snd (rr_run m w) @ snd (rr_run n (fst (rr_run m w))))"
  by (induction m arbitrary: w) (simp_all add: split_beta)

lemma rr_round:
  assumes "worker_inv w" "g_upf_worker_count w \<noteq> 0"
  shows "snd (rr_run (length (workers w)) w) = rotate (unat (g_upf_worker_rr_next w)) (workers w)"
  using rr_run_eq [OF assms, of "length (workers w)"]
  by (intro nth_equalityI) (simp_all add: nth_rotate)

text \<open>
  Round robin is fair. From whatever point the registry has reached, the next \<open>k\<close> rounds
  of selections go through the configured workers in order, starting where the last selection
  stopped, and give every worker exactly \<open>k\<close> sessions.
\<close>

theorem round_robin_fair:
  assumes "worker_inv w" "g_upf_worker_count w \<noteq> 0"
  shows "snd (rr_run (k * unat (g_upf_worker_count w)) w) =
      concat (replicate k (rotate (unat (g_upf_worker_rr_next w)) (workers w))) \<and>
    count_list (snd (rr_run (k * unat (g_upf_worker_count w)) w)) sid =
      (if sid \<in> set (workers w) then k else 0)"
proof -
  have run: "snd (rr_run (k * length (workers w)) w) =
      concat (replicate k (rotate (unat (g_upf_worker_rr_next w)) (workers w)))"
    using assms
  proof (induction k arbitrary: w)
    case (Suc k)
    let ?c = "length (workers w)"
    obtain x where x: "fst (rr_run ?c w) = w \<lparr>g_upf_worker_rr_next := x\<rparr>"
      "unat x mod ?c = unat (g_upf_worker_rr_next w) mod ?c"
      using rr_run_eq [OF Suc.prems, of ?c] by auto
    have "rotate (unat x) (workers w) = rotate (unat (g_upf_worker_rr_next w)) (workers w)"
      using x(2) rotate_conv_mod by metis
    then show ?case
      using Suc.IH [of "fst (rr_run ?c w)"] Suc.prems rr_round [OF Suc.prems]
        rr_run_add [of ?c "k * ?c" w] x(1) by simp
  qed simp
  have one: "count_list (rotate r (workers w)) sid = (if sid \<in> set (workers w) then 1 else 0)" for r
  proof -
    have "distinct (rotate r (workers w))" using assms(1) by (simp add: worker_inv_def)
    then show ?thesis using distinct_count [of "rotate r (workers w)" sid] by simp
  qed
  have "count_list (concat (replicate k (rotate r (workers w)))) sid =
      (if sid \<in> set (workers w) then k else 0)" for r
    by (induction k) (simp_all add: one)
  then show ?thesis using run length_workers [OF assms(1)] by simp
qed

definition two_workers :: worker_config where
  "two_workers = \<lparr>g_upf_worker_service_ids = [10, 11] @ replicate 30 0, g_upf_worker_count = 2,
     g_upf_worker_rr_next = 1\<rparr>"

theorem round_robin_fair_witness:
  "count_list (snd (rr_run (5 * unat (g_upf_worker_count two_workers)) two_workers)) 11 = 5"
proof -
  have "worker_inv two_workers" "workers two_workers = [10, 11]"
    by (simp_all add: worker_inv_def workers_def two_workers_def)
  moreover have "g_upf_worker_count two_workers \<noteq> 0" by (simp add: two_workers_def)
  ultimately show ?thesis using round_robin_fair [of two_workers 5 11] by (metis list.set_intros)
qed

subsection \<open>Selection by TEID\<close>

lemma xor_shift_inj:
  fixes x y :: "'a::len word"
  assumes "x XOR drop_bit n x = y XOR drop_bit n y" "0 < n"
  shows "x = y"
proof -
  have "bit x (LENGTH('a) - k) = bit y (LENGTH('a) - k)" if "k \<le> LENGTH('a)" for k
    using that
  proof (induction k rule: less_induct)
    case (less k)
    let ?i = "LENGTH('a) - k"
    have "bit (x XOR drop_bit n x) ?i = bit (y XOR drop_bit n y) ?i" using assms(1) by simp
    then have eq: "(bit x ?i \<noteq> bit x (n + ?i)) = (bit y ?i \<noteq> bit y (n + ?i))"
      by (simp add: bit_xor_iff bit_drop_bit_eq)
    have "bit x (n + ?i) = bit y (n + ?i)"
    proof (cases "n \<le> k")
      case True
      then have "n + ?i = LENGTH('a) - (k - n)" using less.prems by simp
      then show ?thesis using less.IH [of "k - n"] assms(2) True less.prems by simp
    next
      case False
      then have "LENGTH('a) \<le> n + ?i" using less.prems by simp
      then show ?thesis by (metis bit_imp_le_length not_le)
    qed
    then show ?case using eq by blast
  qed
  then have "bit x i = bit y i" if "i < LENGTH('a)" for i
    using that by (metis diff_diff_cancel diff_le_self less_imp_le)
  then show ?thesis by (metis bit_eqI bit_imp_le_length)
qed

lemma mult_inverse_inj:
  fixes x y :: "'a::len word"
  assumes "x * c = y * c" "c * d = 1"
  shows "x = y"
  by (metis assms mult.assoc mult.right_neutral)

text \<open>
  Selection by TEID always names a configured worker, and the mixing it uses loses
  nothing: it is a bijection on 32-bit TEIDs.
\<close>

theorem select_by_teid_valid:
  assumes "worker_inv w" "g_upf_worker_count w \<noteq> 0"
  shows "UpfWorkerServiceValid w (UpfSelectWorkerServiceIdByTeid w teid) \<and>
    UpfSelectWorkerServiceIdByTeid w teid \<noteq> UPF_INVALID_SERVICE_ID \<and> bij UpfMixTeid"
proof -
  let ?c = "unat (g_upf_worker_count w)"
  have c: "0 < ?c" using assms(2) by (simp add: unat_gt_0)
  let ?i = "unat (UpfMixTeid teid) mod ?c"
  have i: "?i < ?c" using c by simp
  have sel: "UpfSelectWorkerServiceIdByTeid w teid = g_upf_worker_service_ids w ! ?i"
    using assms(2) by (simp add: UpfSelectWorkerServiceIdByTeid_def)
  have "UpfWorkerServiceValid w (UpfSelectWorkerServiceIdByTeid w teid)"
    unfolding UpfWorkerServiceValid_def sel list_ex_iff using i by (intro bexI [of _ ?i]) simp_all
  moreover have "g_upf_worker_service_ids w ! ?i \<in> set (workers w)"
    using worker_nth [OF assms(1) i] length_workers [OF assms(1)] i by simp
  then have "UpfSelectWorkerServiceIdByTeid w teid \<noteq> UPF_INVALID_SERVICE_ID"
    using assms(1) by (auto simp: sel worker_inv_def)
  moreover have "inj UpfMixTeid"
  proof (rule injI)
    fix x y :: u32
    assume "UpfMixTeid x = UpfMixTeid y"
    note a = xor_shift_inj [OF this [unfolded UpfMixTeid_def Let_def]]
    have "(0x846ca68b :: u32) * 0x43021123 = 1" "(0x7feb352d :: u32) * 0x1d69e2a5 = 1" by simp_all
    then show "x = y"
      using a mult_inverse_inj xor_shift_inj by (metis zero_less_numeral)
  qed
  then have "bij UpfMixTeid" by (simp add: bij_def finite_UNIV_inj_surj)
  ultimately show ?thesis by blast
qed

theorem select_by_teid_valid_witness:
  "UpfWorkerServiceValid two_workers (UpfSelectWorkerServiceIdByTeid two_workers 7)"
proof -
  have "worker_inv two_workers" "g_upf_worker_count two_workers \<noteq> 0"
    by (simp_all add: worker_inv_def workers_def two_workers_def)
  then show ?thesis using select_by_teid_valid [of two_workers 7] by simp
qed

end
