(* ===== verification/Cls_Publish.thy ===== *)
theory Cls_Publish
  imports Cls_Adapter Worker_Events "HOL-Library.Monad_Syntax"
begin

text \<open>
  Publication of classifier snapshots from the control plane to the workers
  (\<^verbatim>\<open>5gc/upf_c/n4_onvm_pfcp_handler.c\<close> and \<^verbatim>\<open>5gc/upf_u/upf_u.c\<close>): the rebuild of a snapshot from all
  PDRs, the sequence lock around the shared slot, the switch of a worker to a new snapshot, and
  the release of the old snapshot and of retired PDRs once every worker has acknowledged. The
  classifier engines are C++; a snapshot is a value of a type parameter and the functions of
  \<^verbatim>\<open>classifier_wrapper.h\<close> are arguments.
\<close>

subsection \<open>State\<close>

record pdr_retire_t =
  rt_ver :: u32
  rt_pdr :: nat

text \<open>
  The control slot shared with the workers and the control plane's bookkeeping. The array of
  retired PDRs is the list of its used entries. The last two fields record what was freed.
\<close>

record 'c cls_server =
  cls_active :: "'c option"
  cls_version :: u32
  g_pdr_retire :: "pdr_retire_t list"
  g_pdr_retire_cap :: u32
  g_pdr_head :: nat
  g_cls_ack_version :: u32
  g_cls_ack_expected :: u16
  g_cls_ack_received :: u16
  g_cls_ack_sids :: "u16 list"
  g_cls_retired_snapshot :: "'c option"
  g_cls_retired_version :: u32
  freed_snapshots :: "'c list"
  freed_pdrs :: "nat list"

record 'c classifier_lib =
  cls_create :: "'c option"
  cls_insert_rule :: "'c \<Rightarrow> pdr_t \<Rightarrow> 'c \<times> nat"

definition UpfClsCtrlInit :: "('c option \<times> u32) option \<Rightarrow> bool \<Rightarrow> ('c option \<times> u32) option \<times> int" where
  "UpfClsCtrlInit found reserve =
     (case found of
        Some mz \<Rightarrow> (Some mz, 0)
      | None \<Rightarrow> if reserve then (Some (None, 0), 0) else (None, -1))"

subsection \<open>Retired PDRs\<close>

text \<open>The doubling loop, on 32 bits; \<open>None\<close> when it runs for ever.\<close>

partial_function (option) grow_cap :: "u32 \<Rightarrow> u32 \<Rightarrow> u32 option" where
  "grow_cap new_cap need = (if new_cap < need then grow_cap (push_bit 1 new_cap) need else Some new_cap)"

definition PdrRetireQEnsure :: "bool \<Rightarrow> u32 \<Rightarrow> 'c cls_server \<Rightarrow> 'c cls_server option" where
  "PdrRetireQEnsure realloc need_extra s =
     (let need = of_nat (length (g_pdr_retire s)) + need_extra in
      if need \<le> g_pdr_retire_cap s then Some s
      else do {
        new_cap \<leftarrow> grow_cap (if g_pdr_retire_cap s \<noteq> 0 then g_pdr_retire_cap s else 64) need;
        Some (if realloc then s \<lparr>g_pdr_retire_cap := new_cap\<rparr> else s)
      })"

definition PdrRetireQMaybeCompact :: "'c cls_server \<Rightarrow> 'c cls_server" where
  "PdrRetireQMaybeCompact s =
     (if g_pdr_head s = 0 then s
      else if g_pdr_head s < length (g_pdr_retire s) div 2 \<and> g_pdr_head s < 4096 then s
      else s \<lparr>g_pdr_retire := drop (g_pdr_head s) (g_pdr_retire s), g_pdr_head := 0\<rparr>)"

definition PdrDeferFree :: "bool \<Rightarrow> nat option \<Rightarrow> u32 \<Rightarrow> 'c cls_server \<Rightarrow> 'c cls_server option" where
  "PdrDeferFree realloc p ver s =
     (case p of
        None \<Rightarrow> Some s
      | Some pdr \<Rightarrow>
          do {
            s \<leftarrow> PdrRetireQEnsure realloc 1 s;
            Some (if length (g_pdr_retire s) \<ge> unat (g_pdr_retire_cap s) then s
                  else s \<lparr>g_pdr_retire := g_pdr_retire s @ [\<lparr>rt_ver = ver, rt_pdr = pdr\<rparr>]\<rparr>)
          })"

text \<open>The queue is freed from its head up to the first entry of a later version.\<close>

definition PdrFreeUpTo :: "u32 \<Rightarrow> 'c cls_server \<Rightarrow> 'c cls_server" where
  "PdrFreeUpTo ack_ver s =
     (let batch = takeWhile (\<lambda>e. rt_ver e \<le> ack_ver) (drop (g_pdr_head s) (g_pdr_retire s))
      in PdrRetireQMaybeCompact
           (s \<lparr>g_pdr_head := g_pdr_head s + length batch,
              freed_pdrs := freed_pdrs s @ map rt_pdr batch\<rparr>))"

subsection \<open>Publishing and acknowledging\<close>

text \<open>The whole publication, without interleaving; the retired pointer and the new version.\<close>

definition upf_cls_publish :: "'c \<Rightarrow> 'c cls_server \<Rightarrow> 'c cls_server \<times> 'c option \<times> u32" where
  "upf_cls_publish new_snap s =
     (let start = cls_version s + 1;
          s = s \<lparr>cls_version := start\<rparr>;
          old = cls_active s;
          s = s \<lparr>cls_active := Some new_snap\<rparr>;
          stable = start + 1
      in (s \<lparr>cls_version := stable\<rparr>, old, stable))"

definition UpfClsAckTrackerReset :: "u32 \<Rightarrow> u16 \<Rightarrow> 'c cls_server \<Rightarrow> 'c cls_server" where
  "UpfClsAckTrackerReset ver expected s =
     s \<lparr>g_cls_ack_version := ver, g_cls_ack_expected := expected, g_cls_ack_received := 0,
        g_cls_ack_sids := replicate UPF_MAX_WORKERS 0\<rparr>"

definition UpfClsAckTrackerMark :: "u32 \<Rightarrow> u16 \<Rightarrow> 'c cls_server \<Rightarrow> 'c cls_server \<times> bool" where
  "UpfClsAckTrackerMark ver sid s =
     (if ver \<noteq> g_cls_ack_version s \<or> sid = UPF_INVALID_SERVICE_ID then (s, False)
      else if list_ex (\<lambda>i. g_cls_ack_sids s ! i = sid) [0..<unat (g_cls_ack_received s)] then (s, False)
      else if unat (g_cls_ack_received s) \<ge> UPF_MAX_WORKERS then (s, False)
      else let s = s \<lparr>g_cls_ack_sids := (g_cls_ack_sids s)[unat (g_cls_ack_received s) := sid],
                      g_cls_ack_received := g_cls_ack_received s + 1\<rparr>
           in (s, g_cls_ack_received s \<ge> g_cls_ack_expected s))"

definition UpfClsOnAckFree :: "u32 \<Rightarrow> u16 \<Rightarrow> 'c cls_server \<Rightarrow> 'c cls_server" where
  "UpfClsOnAckFree ver sid s =
     (if ver \<noteq> g_cls_retired_version s then s
      else
        let (s, complete) =
              (if g_cls_ack_expected s > 0 then UpfClsAckTrackerMark ver sid s else (s, True))
        in if \<not> complete then s
           else
             let s = (case g_cls_retired_snapshot s of None \<Rightarrow> s
                      | Some snap \<Rightarrow> s \<lparr>freed_snapshots := freed_snapshots s @ [snap]\<rparr>)
             in PdrFreeUpTo ver (s \<lparr>g_cls_retired_snapshot := None, g_cls_retired_version := 0,
                  g_cls_ack_version := 0, g_cls_ack_expected := 0, g_cls_ack_received := 0\<rparr>))"

text \<open>
  The rebuild. \<open>replay\<close> are the TEID aliases of the \<^verbatim>\<open>UPF_PCAP_REPLAY_TEID\<close> variable; an insertion
  that returns 0 gives the rebuild up.
\<close>

definition pdr_is_uplink :: "UPDK_PDR \<Rightarrow> bool" where
  "pdr_is_uplink up \<longleftrightarrow> pdrf_pdi (pdr_flags up) \<and> pdif_sourceInterface (pdi_flags (pdr_pdi up)) \<and>
     pdi_sourceInterface (pdr_pdi up) = 0"

primrec insert_aliases :: "'c classifier_lib \<Rightarrow> pdr_t \<Rightarrow> u32 list \<Rightarrow> 'c \<Rightarrow> 'c option" where
  "insert_aliases lib r [] snap = Some snap"
| "insert_aliases lib r (t # ts) snap =
     (if cpdi_teid (cls_pdi r) = t then insert_aliases lib r ts snap
      else case cls_insert_rule lib snap (r \<lparr>cls_pdi := (cls_pdi r) \<lparr>cpdi_teid := t\<rparr>\<rparr>) of
        (snap, desc) \<Rightarrow> if desc = 0 then None else insert_aliases lib r ts snap)"

primrec build_snapshot ::
  "'c classifier_lib \<Rightarrow> (nat \<Rightarrow> UPDK_PDR) \<Rightarrow> u32 list \<Rightarrow> nat list \<Rightarrow> 'c \<Rightarrow> 'c option" where
  "build_snapshot lib mem replay [] snap = Some snap"
| "build_snapshot lib mem replay (p # ps) snap =
     (let is_uplink = pdr_is_uplink (mem p);
          r = (updk_pdr_to_cls_rule (mem p) is_uplink) \<lparr>cls_descriptor := p\<rparr>
      in case cls_insert_rule lib snap r of
           (snap, desc) \<Rightarrow>
             if desc = 0 then None
             else do {
               snap \<leftarrow> (if is_uplink \<and> cpdi_teid (cls_pdi r) \<noteq> 0
                        then insert_aliases lib r replay snap else Some snap);
               build_snapshot lib mem replay ps snap
             })"

text \<open>
  The result: success, the version, and the requests handed to the workers. Freeing the snapshot
  of a failed rebuild has no further effect.
\<close>

definition UpfClsRebuildAndPublish ::
  "'c classifier_lib \<Rightarrow> (nat \<Rightarrow> UPDK_PDR) \<Rightarrow> u32 list \<Rightarrow> (nat \<Rightarrow> send_env) \<Rightarrow> worker_config \<Rightarrow> nat list \<Rightarrow>
     'c cls_server \<Rightarrow> 'c cls_server \<times> u32 option \<times> (u16 \<times> Event) list" where
  "UpfClsRebuildAndPublish lib mem replay env w all_pdrs s =
     (case cls_create lib of
        None \<Rightarrow> (s, None, [])
      | Some snap \<Rightarrow>
          (case build_snapshot lib mem replay all_pdrs snap of
             None \<Rightarrow> (s, None, [])
           | Some snap \<Rightarrow>
               (let (s, retired, ver) = upf_cls_publish snap s;
                    s = (case retired of None \<Rightarrow> s
                         | Some old \<Rightarrow> s \<lparr>g_cls_retired_snapshot := Some old, g_cls_retired_version := ver\<rparr>);
                    (fanout, msgs) = UpfBroadcastEvt1ToWorkers env w EVT_CLS_GC_REQ (ucast ver);
                    s = UpfClsAckTrackerReset ver fanout s;
                    s = (case retired of None \<Rightarrow> s
                         | Some old \<Rightarrow>
                             if fanout = 0
                             then s \<lparr>freed_snapshots := freed_snapshots s @ [old],
                                     g_cls_retired_snapshot := None, g_cls_retired_version := 0\<rparr>
                             else s)
                in (s, Some ver, msgs))))"

subsection \<open>The worker's side\<close>

record 'c upf_cls_local_t =
  cl_ptr :: "'c option"
  cl_ver :: u32
  cl_pending_ver :: u32
  cl_flip_pending :: bool

text \<open>\<open>loads i\<close> are the values the \<open>i\<close>-th round of the loop reads: version, pointer, version.\<close>

partial_function (option) seqlock_read ::
  "(nat \<Rightarrow> u32 \<times> 'c option \<times> u32) \<Rightarrow> nat \<Rightarrow> ('c option \<times> u32) option" where
  "seqlock_read loads i =
     (case loads i of (v1, new_ptr, v2) \<Rightarrow>
        if v1 AND 1 \<noteq> 0 then seqlock_read loads (i + 1)
        else if v1 = v2 \<and> v2 AND 1 = 0 then Some (new_ptr, v2)
        else seqlock_read loads (i + 1))"

definition UpfClsMaybeFlipAndAck ::
  "send_env \<Rightarrow> u16 option \<Rightarrow> (nat \<Rightarrow> u32 \<times> 'c option \<times> u32) \<Rightarrow> 'c upf_cls_local_t \<Rightarrow>
     ('c upf_cls_local_t \<times> (u16 \<times> Event) list) option" where
  "UpfClsMaybeFlipAndAck env nf_sid loads l =
     (if \<not> cl_flip_pending l then Some (l, [])
      else do {
        (new_ptr, v2) \<leftarrow> seqlock_read loads 0;
        (case new_ptr of
           None \<Rightarrow> Some (l, [])
         | Some _ \<Rightarrow>
             Some (l \<lparr>cl_ptr := new_ptr, cl_ver := v2, cl_flip_pending := False\<rparr>,
                   snd (UpfSendEvt2 env UPF_C_SERVICE_ID EVT_CLS_GC_ACK (ucast v2)
                     (ucast (case nf_sid of Some sid \<Rightarrow> sid | None \<Rightarrow> UPF_INVALID_SERVICE_ID)))))
      })"

text \<open>The classifier's answer: the hit flag and the descriptor, which is the address of a PDR.\<close>

definition UpfClassifyGetPdrId ::
  "('c \<Rightarrow> ps_packet_t \<Rightarrow> int \<times> nat) \<Rightarrow> 'c upf_cls_local_t \<Rightarrow> ps_packet_t \<Rightarrow> u16" where
  "UpfClassifyGetPdrId classify l key =
     (case cl_ptr l of None \<Rightarrow> 0
      | Some snap \<Rightarrow> (let (hit, d) = classify snap key in if hit \<noteq> 1 then 0 else of_nat d))"

definition UpfClassifyGetPdrPtr ::
  "('c \<Rightarrow> ps_packet_t \<Rightarrow> int \<times> nat) \<Rightarrow> 'c upf_cls_local_t \<Rightarrow> ps_packet_t \<Rightarrow> nat option" where
  "UpfClassifyGetPdrPtr classify l key =
     (case cl_ptr l of None \<Rightarrow> None
      | Some snap \<Rightarrow>
          (let (hit, d) = classify snap key in if hit \<noteq> 1 \<or> d = 0 then None else Some d))"

subsection \<open>An old snapshot is freed only when every worker has moved on\<close>

text \<open>
  The tracker while the workers in \<open>A\<close> have acknowledged version \<open>v\<close> and others are awaited; \<open>old\<close>
  is the retired snapshot and \<open>F\<close> what was freed before.
\<close>

definition awaiting :: "u32 \<Rightarrow> u16 \<Rightarrow> 'c \<Rightarrow> u16 set \<Rightarrow> 'c list \<Rightarrow> 'c cls_server \<Rightarrow> bool" where
  "awaiting v n old A F s \<longleftrightarrow> g_cls_retired_version s = v \<and> g_cls_retired_snapshot s = Some old \<and>
     g_cls_ack_version s = v \<and> g_cls_ack_expected s = n \<and> freed_snapshots s = F \<and>
     length (g_cls_ack_sids s) = UPF_MAX_WORKERS \<and> unat (g_cls_ack_received s) = card A \<and> finite A \<and>
     set (take (card A) (g_cls_ack_sids s)) = A \<and> card A < unat n \<and> unat n \<le> UPF_MAX_WORKERS"

definition released :: "'c list \<Rightarrow> 'c cls_server \<Rightarrow> bool" where
  "released F s \<longleftrightarrow> g_cls_retired_snapshot s = None \<and> freed_snapshots s = F"

lemma free_up_to_simps [simp]:
  "freed_snapshots (PdrFreeUpTo v s) = freed_snapshots s"
  "g_cls_retired_snapshot (PdrFreeUpTo v s) = g_cls_retired_snapshot s"
  by (simp_all add: PdrFreeUpTo_def PdrRetireQMaybeCompact_def Let_def)

lemma mark_simps:
  "freed_snapshots (fst (UpfClsAckTrackerMark v sid s)) = freed_snapshots s"
  "g_cls_retired_snapshot (fst (UpfClsAckTrackerMark v sid s)) = g_cls_retired_snapshot s"
  by (simp_all add: UpfClsAckTrackerMark_def Let_def)

lemma released_step: "released F s \<Longrightarrow> released F (UpfClsOnAckFree v sid s)"
  using mark_simps [of v sid s]
  by (auto simp: released_def UpfClsOnAckFree_def Let_def split_beta split: option.split)

lemma awaiting_step:
  assumes "awaiting v n old A F s"
  shows "UpfClsOnAckFree v' sid s = s \<and> (v' \<noteq> v \<or> sid = UPF_INVALID_SERVICE_ID \<or> sid \<in> A) \<or>
    v' = v \<and> sid \<noteq> UPF_INVALID_SERVICE_ID \<and> sid \<notin> A \<and>
    (if Suc (card A) < unat n then awaiting v n old (insert sid A) F (UpfClsOnAckFree v' sid s)
     else released (F @ [old]) (UpfClsOnAckFree v' sid s))"
proof (cases "v' = v \<and> sid \<noteq> UPF_INVALID_SERVICE_ID \<and> sid \<notin> A")
  case True
  note a = assms [unfolded awaiting_def]
  let ?c = "card A"
  have n0: "g_cls_ack_expected s > 0" using a by (auto simp: word_less_nat_alt)
  have seen: "\<not> list_ex (\<lambda>i. g_cls_ack_sids s ! i = sid) [0..<?c]"
  proof
    assume "list_ex (\<lambda>i. g_cls_ack_sids s ! i = sid) [0..<?c]"
    then obtain i where "i < ?c" "g_cls_ack_sids s ! i = sid" by (auto simp: list_ex_iff)
    moreover have "?c < length (g_cls_ack_sids s)" using a by linarith
    ultimately have "sid \<in> set (take ?c (g_cls_ack_sids s))"
      unfolding in_set_conv_nth by (intro exI [of _ i]) simp
    then show False using a True by simp
  qed
  define s1 where "s1 = s \<lparr>g_cls_ack_sids := (g_cls_ack_sids s)[?c := sid],
      g_cls_ack_received := g_cls_ack_received s + 1\<rparr>"
  have c32: "?c < 32" using a by linarith
  have rec: "unat (g_cls_ack_received s + 1) = Suc ?c"
    using a c32 by (simp add: unat_word_ariths)
  have mark: "UpfClsAckTrackerMark v' sid s = (s1, Suc ?c \<ge> unat n)"
    using a True seen c32 rec
    by (simp add: UpfClsAckTrackerMark_def s1_def Let_def word_le_nat_alt)
  show ?thesis
  proof (cases "Suc ?c < unat n")
    case lt: True
    then have "UpfClsOnAckFree v' sid s = s1"
      using a True n0 mark by (simp add: UpfClsOnAckFree_def)
    moreover have "set (take (Suc ?c) ((g_cls_ack_sids s)[?c := sid])) = insert sid A"
      using a c32 by (simp add: take_Suc_conv_app_nth)
    then have "awaiting v n old (insert sid A) F s1"
      using a True lt rec by (simp add: awaiting_def s1_def)
    ultimately show ?thesis using True lt by simp
  next
    case False
    then have "released (F @ [old]) (UpfClsOnAckFree v' sid s)"
      using a True n0 mark by (simp add: UpfClsOnAckFree_def released_def s1_def)
    then show ?thesis using True False by simp
  qed
next
  case False
  note a = assms [unfolded awaiting_def]
  have "list_ex (\<lambda>i. g_cls_ack_sids s ! i = sid) [0..<card A]" if "sid \<in> A"
  proof -
    have "sid \<in> set (take (card A) (g_cls_ack_sids s))" using a that by simp
    then obtain i where "i < card A" "g_cls_ack_sids s ! i = sid" unfolding in_set_conv_nth by auto
    then show ?thesis unfolding list_ex_iff by (intro bexI [of _ i]) simp_all
  qed
  moreover have "g_cls_retired_version s = v" "g_cls_ack_version s = v" "g_cls_ack_expected s > 0"
    "unat (g_cls_ack_received s) = card A"
    using a by (auto simp: word_less_nat_alt)
  ultimately have "UpfClsOnAckFree v' sid s = s"
    using False by (auto simp: UpfClsOnAckFree_def UpfClsAckTrackerMark_def)
  then show ?thesis using False by blast
qed

lemma released_run: "released G s \<Longrightarrow> released G (fold (\<lambda>(v, sid). UpfClsOnAckFree v sid) acks s)"
  by (induction acks arbitrary: s) (auto intro: released_step)

lemma ack_run:
  assumes "awaiting v n old A F s"
  shows "(let B = A \<union> {sid. (v, sid) \<in> set acks \<and> sid \<noteq> UPF_INVALID_SERVICE_ID};
              s' = fold (\<lambda>(v, sid). UpfClsOnAckFree v sid) acks s
          in if card B < unat n then awaiting v n old B F s' else released (F @ [old]) s')"
  using assms
proof (induction acks arbitrary: A s)
  case Nil
  then show ?case by (auto simp: awaiting_def)
next
  case (Cons a acks)
  obtain v' sid where [simp]: "a = (v', sid)" by (cases a)
  let ?S = "\<lambda>as. {sid. (v, sid) \<in> set as \<and> sid \<noteq> UPF_INVALID_SERVICE_ID}"
  consider (same) "UpfClsOnAckFree v' sid s = s" "v' \<noteq> v \<or> sid = UPF_INVALID_SERVICE_ID \<or> sid \<in> A"
    | (more) "v' = v" "sid \<noteq> UPF_INVALID_SERVICE_ID" "sid \<notin> A" "awaiting v n old (insert sid A) F (UpfClsOnAckFree v' sid s)"
    | (complete) "v' = v" "sid \<noteq> UPF_INVALID_SERVICE_ID" "sid \<notin> A" "\<not> Suc (card A) < unat n"
        "released (F @ [old]) (UpfClsOnAckFree v' sid s)"
    using awaiting_step [OF Cons.prems, of v' sid] by (auto split: if_splits)
  then show ?case
  proof cases
    case same
    then have "A \<union> ?S (a # acks) = A \<union> ?S acks" by auto
    then show ?thesis using Cons.IH [OF Cons.prems] same(1) by simp
  next
    case more
    then have "A \<union> ?S (a # acks) = insert sid A \<union> ?S acks" by auto
    then show ?thesis using Cons.IH [OF more(4)] by simp
  next
    case complete
    have fin: "finite (A \<union> ?S (a # acks))"
      using Cons.prems by (auto simp: awaiting_def intro: finite_subset [of _ "snd ` set (a # acks)"] rev_image_eqI)
    have "insert sid A \<subseteq> A \<union> ?S (a # acks)" using complete by auto
    then have "card (insert sid A) \<le> card (A \<union> ?S (a # acks))" by (rule card_mono [OF fin])
    then have "\<not> card (A \<union> ?S (a # acks)) < unat n" using complete Cons.prems by (simp add: awaiting_def)
    then show ?thesis using released_run [OF complete(5)] by simp
  qed
qed

text \<open>
  The number a broadcast returns is the number of workers it notified: a send call returns zero
  or a negative error, and the registry names each worker once.
\<close>

lemma broadcast_notified:
  assumes send: "\<And>i sid e. se_send (env i) sid e \<le> 0" and len: "length is \<le> UPF_MAX_WORKERS"
    and dist: "distinct (map (nth (g_upf_worker_service_ids w)) is)"
    and b: "broadcast (\<lambda>i sid. UpfSendEvt1 (env i) sid ty a0) w is = (n, out)"
  shows "unat n = length out \<and> distinct (map fst out) \<and>
    fst ` set out \<subseteq> nth (g_upf_worker_service_ids w) ` set is \<and> length out \<le> length is"
  using len dist b
proof (induction "is" arbitrary: n out)
  case Nil
  then show ?case by simp
next
  case (Cons i "is")
  let ?sid = "g_upf_worker_service_ids w ! i"
  let ?e = "\<lparr>ev_type = ucast ty, ev_argc = 1, ev_arg0 = a0, ev_arg1 = 0\<rparr> :: Event"
  obtain m rest where r: "broadcast (\<lambda>i sid. UpfSendEvt1 (env i) sid ty a0) w is = (m, rest)"
    by fastforce
  have IH: "unat m = length rest" "distinct (map fst rest)" "length rest \<le> length is"
      "fst ` set rest \<subseteq> nth (g_upf_worker_service_ids w) ` set is"
    using Cons.IH [of m rest] Cons.prems r by simp_all
  have "unat (1 + m) = 1 + unat m" using IH(1,3) Cons.prems(1) by (simp add: unat_word_ariths)
  moreover have "?sid \<notin> fst ` set rest" using IH(4) Cons.prems(2) by auto
  moreover have "n = 1 + m \<and> out = (?sid, ?e) # rest \<or> n = m \<and> out = rest"
    using Cons.prems(3) r send [of i ?sid ?e]
    by (auto simp: UpfSendEvt1_def send_event_def Let_def split: if_splits)
  moreover have "nth (g_upf_worker_service_ids w) ` set is \<subseteq> nth (g_upf_worker_service_ids w) ` set (i # is)"
    by auto
  ultimately show ?case using IH by (elim disjE conjE) (simp_all add: subset_insertI2)
qed

lemma broadcast_workers:
  assumes "\<And>i sid e. se_send (env i) sid e \<le> 0" "worker_inv w"
    and "UpfBroadcastEvt1ToWorkers env w ty a0 = (n, out)"
  shows "unat n = card (fst ` set out)" "fst ` set out \<subseteq> set (workers w)" "unat n \<le> UPF_MAX_WORKERS"
proof -
  let ?is = "[0..<unat (g_upf_worker_count w)]"
  have m: "map (nth (g_upf_worker_service_ids w)) ?is = workers w"
    using assms(2) by (auto simp: worker_inv_def workers_def intro: nth_equalityI)
  then have d: "distinct (map (nth (g_upf_worker_service_ids w)) ?is)" using assms(2) by (simp add: worker_inv_def)
  have c: "length ?is \<le> UPF_MAX_WORKERS" using assms(2) by (simp add: worker_inv_def)
  note B = broadcast_notified [OF assms(1) c d assms(3) [unfolded UpfBroadcastEvt1ToWorkers_def]]
  show "unat n = card (fst ` set out)" using B distinct_card [of "map fst out"] by simp
  show "fst ` set out \<subseteq> set (workers w)" using B m by (metis set_map)
  show "unat n \<le> UPF_MAX_WORKERS" using B c by simp
qed

text \<open>
  C10. When a retired snapshot is freed. Let a publication replace the snapshot \<open>old\<close>; \<open>notified\<close> are
  the workers its request reached. Until the next publication, whatever acknowledgements arrive, of
  whatever version, in whatever order and however often repeated, \<open>old\<close> is freed at most once, nothing
  else is freed, and it is freed if and only if at least as many different identifiers other than the
  invalid one have acknowledged the published version as workers were notified. So, as long as only
  notified workers acknowledge the version, \<open>old\<close> is freed exactly when every one of them has; when
  none was notified, it is freed at once. (The code counts identifiers and does not check that they
  are workers. A second publication before that overwrites the retired snapshot.)
\<close>

theorem snapshot_freed_after_all_acks:
  fixes s :: "'c cls_server" and acks :: "(u32 \<times> u16) list"
  assumes publish: "UpfClsRebuildAndPublish lib mem replay env w all_pdrs s = (s1, Some ver, msgs)"
    and old: "cls_active s = Some old"
    and w: "worker_inv w" and send: "\<And>i sid e. se_send (env i) sid e \<le> 0"
  defines "notified \<equiv> fst ` set msgs"
  defines "acked \<equiv> {sid. (ver, sid) \<in> set acks \<and> sid \<noteq> UPF_INVALID_SERVICE_ID}"
  defines "freed \<equiv> freed_snapshots (fold (\<lambda>(v, sid). UpfClsOnAckFree v sid) acks s1)"
  shows "freed = freed_snapshots s @ (if card notified \<le> card acked then [old] else []) \<and>
    (acked \<subseteq> notified \<longrightarrow> freed = freed_snapshots s @ (if notified \<subseteq> acked then [old] else []))"
proof -
  obtain n out where b: "UpfBroadcastEvt1ToWorkers env w EVT_CLS_GC_REQ (ucast ver) = (n, out)"
    by fastforce
  note B = broadcast_workers [OF send w b]
  have msgs: "msgs = out" using publish old b
    by (auto simp: UpfClsRebuildAndPublish_def upf_cls_publish_def Let_def split_beta split: option.splits)
  have count: "freed = freed_snapshots s @ (if card notified \<le> card acked then [old] else [])"
  proof (cases "n = 0")
    case True
    have "released (freed_snapshots s @ [old]) s1"
      using publish old b True
      by (auto simp: UpfClsRebuildAndPublish_def upf_cls_publish_def UpfClsAckTrackerReset_def
          released_def Let_def split_beta split: option.splits)
    then show ?thesis
      using released_run [of _ s1 acks] B(1) True by (simp add: freed_def released_def notified_def msgs)
  next
    case False
    then have "awaiting ver n old {} (freed_snapshots s) s1"
      using publish old b B(3) unat_gt_0 [of n]
      by (auto simp: UpfClsRebuildAndPublish_def upf_cls_publish_def UpfClsAckTrackerReset_def
          awaiting_def Let_def split_beta split: option.splits)
    from ack_run [OF this, of acks] show ?thesis
      using B(1)
      by (auto simp: Let_def awaiting_def released_def freed_def acked_def notified_def msgs split: if_splits)
  qed
  have "(card notified \<le> card acked) = (notified \<subseteq> acked)" if "acked \<subseteq> notified"
  proof -
    have "finite notified" by (simp add: notified_def)
    then show ?thesis using that card_seteq [of notified acked] card_mono finite_subset by blast
  qed
  then show ?thesis using count by simp
qed

text \<open>A snapshot as the list of its rules, and two workers that take every message.\<close>

definition list_classifier :: "pdr_t list classifier_lib" where
  "list_classifier = \<lparr>cls_create = Some [], cls_insert_rule = (\<lambda>c r. (c @ [r], 1))\<rparr>"

definition example_server :: "pdr_t list cls_server" where
  "example_server = \<lparr>cls_active = Some [], cls_version = 2, g_pdr_retire = [], g_pdr_retire_cap = 0,
     g_pdr_head = 0, g_cls_ack_version = 0, g_cls_ack_expected = 0, g_cls_ack_received = 0,
     g_cls_ack_sids = replicate UPF_MAX_WORKERS 0, g_cls_retired_snapshot = None,
     g_cls_retired_version = 0, freed_snapshots = [], freed_pdrs = []\<rparr>"

definition good_env :: "nat \<Rightarrow> send_env" where
  "good_env = (\<lambda>_. \<lparr>se_calloc = True, se_send = (\<lambda>_ _. 0)\<rparr>)"

lemma example_broadcast:
  "fst ` set (snd (UpfBroadcastEvt1ToWorkers good_env two_workers EVT_CLS_GC_REQ a)) = {10, 11}"
proof -
  have "[0..<unat (g_upf_worker_count two_workers)] = [0, 1]" by (simp add: two_workers_def upt_rec)
  then show ?thesis
    by (simp add: UpfBroadcastEvt1ToWorkers_def UpfSendEvt1_def send_event_def good_env_def Let_def
        two_workers_def)
qed

theorem snapshot_freed_after_all_acks_witness:
  "\<exists>s1 msgs. UpfClsRebuildAndPublish list_classifier (\<lambda>_. zero_pdr) [] good_env two_workers [1] example_server
       = (s1, Some 4, msgs) \<and> fst ` set msgs = {10, 11} \<and>
     freed_snapshots (fold (\<lambda>(v, sid). UpfClsOnAckFree v sid) [(4, 10), (4, 10), (2, 11)] s1) = [] \<and>
     freed_snapshots (fold (\<lambda>(v, sid). UpfClsOnAckFree v sid) [(4, 10), (4, 10), (4, 11)] s1) = [[]]"
proof -
  let ?r = "UpfClsRebuildAndPublish list_classifier (\<lambda>_. zero_pdr) [] good_env two_workers [1] example_server"
  let ?free = "\<lambda>acks s1. freed_snapshots (fold (\<lambda>(v, sid). UpfClsOnAckFree v sid) acks s1)"
  have "fst (snd ?r) = Some 4" "fst ` set (snd (snd ?r)) = {10, 11}"
    using example_broadcast [of 4]
    by (simp_all add: UpfClsRebuildAndPublish_def list_classifier_def example_server_def upf_cls_publish_def
        Let_def split_beta)
  then obtain s1 msgs where r: "?r = (s1, Some 4, msgs)" "fst ` set msgs = {10, 11}"
    by (metis prod.collapse)
  have act: "cls_active example_server = Some []" "freed_snapshots example_server = []"
    by (simp_all add: example_server_def)
  have w: "worker_inv two_workers" by (simp add: worker_inv_def workers_def two_workers_def)
  have send: "se_send (good_env i) sid e \<le> 0" for i sid e by (simp add: good_env_def)
  note F = snapshot_freed_after_all_acks [OF r(1) act(1) w send, THEN conjunct2, rule_format, unfolded r(2)]
  have sets: "{sid. ((4 :: u32), sid) \<in> set [(4, 10), (4, 10), (2, 11)] \<and> sid \<noteq> UPF_INVALID_SERVICE_ID} = {10 :: u16}"
    "{sid. ((4 :: u32), sid) \<in> set [(4, 10), (4, 10), (4, 11)] \<and> sid \<noteq> UPF_INVALID_SERVICE_ID} = {10 :: u16, 11}"
    by auto
  have "?free [(4, 10), (4, 10), (2, 11)] s1 = []" by (subst F) (simp_all only: sets, simp_all add: act)
  moreover have "?free [(4, 10), (4, 10), (4, 11)] s1 = [[]]"
    by (subst F) (simp_all only: sets, simp_all add: act)
  ultimately show ?thesis using r by blast
qed

subsection \<open>The sequence lock under interleaving\<close>

text \<open>
  The control plane and a worker as interleaved machines. A writer step is one of the three
  atomic accesses of \<^verbatim>\<open>upf_cls_publish\<close>, a reader step one of the three loads of the loop in
  \<^verbatim>\<open>UpfClsMaybeFlipAndAck\<close>. Two ghost fields record the history: the number of version changes so
  far, and the snapshots in the order in which they were published. Memory accesses are taken
  to be sequentially consistent.
\<close>

datatype writer_pc = W_idle | W_started u32 | W_swapped u32

datatype 'c reader_pc =
    R_start
  | R_version u32 nat
  | R_pointer u32 nat "'c option"
  | R_accepted u32 nat nat "'c option"

record 'c cls_system =
  sys_active :: "'c option"
  sys_version :: u32
  sys_writer :: writer_pc
  sys_reader :: "'c reader_pc"
  sys_changes :: nat
  sys_published :: "'c option list"

inductive publish_step :: "'c cls_system \<Rightarrow> 'c cls_system \<Rightarrow> bool" where
  start: "sys_writer s = W_idle \<Longrightarrow>
    publish_step s (s \<lparr>sys_version := sys_version s + 1, sys_changes := sys_changes s + 1,
      sys_writer := W_started (sys_version s + 1)\<rparr>)"
| swap: "sys_writer s = W_started st \<Longrightarrow>
    publish_step s (s \<lparr>sys_active := Some new_snap, sys_writer := W_swapped st\<rparr>)"
| finish: "sys_writer s = W_swapped st \<Longrightarrow>
    publish_step s (s \<lparr>sys_version := st + 1, sys_changes := sys_changes s + 1, sys_writer := W_idle,
      sys_published := sys_published s @ [sys_active s]\<rparr>)"

inductive flip_step :: "'c cls_system \<Rightarrow> 'c cls_system \<Rightarrow> bool" where
  busy: "sys_reader s = R_start \<Longrightarrow> sys_version s AND 1 \<noteq> 0 \<Longrightarrow> flip_step s s"
| load_version: "sys_reader s = R_start \<Longrightarrow> sys_version s AND 1 = 0 \<Longrightarrow>
    flip_step s (s \<lparr>sys_reader := R_version (sys_version s) (sys_changes s)\<rparr>)"
| load_pointer: "sys_reader s = R_version v1 n \<Longrightarrow>
    flip_step s (s \<lparr>sys_reader := R_pointer v1 n (sys_active s)\<rparr>)"
| accept: "sys_reader s = R_pointer v1 n p \<Longrightarrow> v1 = sys_version s \<Longrightarrow> sys_version s AND 1 = 0 \<Longrightarrow>
    flip_step s (s \<lparr>sys_reader := R_accepted v1 n (sys_changes s) p\<rparr>)"
| retry: "sys_reader s = R_pointer v1 n p \<Longrightarrow> \<not> (v1 = sys_version s \<and> sys_version s AND 1 = 0) \<Longrightarrow>
    flip_step s (s \<lparr>sys_reader := R_start\<rparr>)"
| again: "sys_reader s = R_accepted v n m p \<Longrightarrow> flip_step s (s \<lparr>sys_reader := R_start\<rparr>)"

inductive_cases publish_stepE: "publish_step s s'"
inductive_cases flip_stepE: "flip_step s s'"

text \<open>A fresh slot is version 0 with no snapshot (\<^verbatim>\<open>UpfClsCtrlInit\<close>).\<close>

inductive cls_reachable :: "'c cls_system \<Rightarrow> bool" where
  init: "cls_reachable \<lparr>sys_active = None, sys_version = 0, sys_writer = W_idle, sys_reader = R_start,
    sys_changes = 0, sys_published = [None]\<rparr>"
| publish: "cls_reachable s \<Longrightarrow> publish_step s s' \<Longrightarrow> cls_reachable s'"
| flip: "cls_reachable s \<Longrightarrow> flip_step s s' \<Longrightarrow> cls_reachable s'"

definition writer_inv :: "'c cls_system \<Rightarrow> bool" where
  "writer_inv s \<longleftrightarrow> sys_version s = of_nat (sys_changes s) \<and>
     length (sys_published s) = sys_changes s div 2 + 1 \<and>
     (case sys_writer s of
        W_idle \<Rightarrow> even (sys_changes s) \<and> sys_active s = List.last (sys_published s)
      | W_started st \<Rightarrow> odd (sys_changes s) \<and> st = sys_version s
      | W_swapped st \<Rightarrow> odd (sys_changes s) \<and> st = sys_version s)"

definition reader_inv :: "'c cls_system \<Rightarrow> bool" where
  "reader_inv s \<longleftrightarrow>
     (case sys_reader s of
        R_start \<Rightarrow> True
      | R_version v n \<Rightarrow> v = of_nat n \<and> even n \<and> n \<le> sys_changes s
      | R_pointer v n p \<Rightarrow> v = of_nat n \<and> even n \<and> n \<le> sys_changes s \<and>
          (sys_changes s = n \<longrightarrow> p = sys_published s ! (n div 2))
      | R_accepted v n m p \<Rightarrow> v = of_nat n \<and> even n \<and> n \<le> m \<and> m \<le> sys_changes s \<and> v = of_nat m \<and>
          (m = n \<longrightarrow> p = sys_published s ! (n div 2)))"

lemma even_word: "(of_nat n :: u32) AND 1 = 0 \<longleftrightarrow> even n"
proof -
  have "unat ((of_nat n :: u32) AND 1) = n mod 2 ^ 32 mod 2"
    by (simp add: and_one_eq unat_mod unat_of_nat)
  also have "\<dots> = n mod 2" by (rule mod_mod_cancel) simp
  finally show ?thesis by (metis even_iff_mod_2_eq_zero unat_0 unat_eq_zero)
qed

lemma publish_writer_inv: "publish_step s s' \<Longrightarrow> writer_inv s \<Longrightarrow> writer_inv s'"
  by (erule publish_stepE) (auto simp: writer_inv_def)

lemma publish_reader_inv: "publish_step s s' \<Longrightarrow> writer_inv s \<Longrightarrow> reader_inv s \<Longrightarrow> reader_inv s'"
  by (erule publish_stepE)
    (auto simp: writer_inv_def reader_inv_def nth_append split: reader_pc.splits)

lemma flip_writer_inv: "flip_step s s' \<Longrightarrow> writer_inv s \<Longrightarrow> writer_inv s'"
  by (erule flip_stepE) (auto simp: writer_inv_def split: writer_pc.splits)

lemma flip_reader_inv:
  assumes "flip_step s s'" "writer_inv s" "reader_inv s"
  shows "reader_inv s'"
  using assms(1)
proof cases
  case load_version
  then show ?thesis using assms(2) even_word by (simp add: reader_inv_def writer_inv_def)
next
  case (load_pointer v1 n)
  have "sys_active s = sys_published s ! (n div 2)" if "sys_changes s = n" "even n"
  proof -
    have "sys_writer s = W_idle" "length (sys_published s) = n div 2 + 1"
      using assms(2) that by (auto simp: writer_inv_def split: writer_pc.splits)
    moreover from this(2) have "sys_published s \<noteq> []" by auto
    ultimately show ?thesis using assms(2) that by (auto simp: writer_inv_def last_conv_nth)
  qed
  then show ?thesis using load_pointer assms(3) by (simp add: reader_inv_def)
next
  case (accept v1 n p)
  then show ?thesis using assms(2,3) by (simp add: reader_inv_def writer_inv_def)
qed (use assms(3) in \<open>simp_all add: reader_inv_def\<close>)

lemma cls_invariant: "cls_reachable s \<Longrightarrow> writer_inv s \<and> reader_inv s"
proof (induction rule: cls_reachable.induct)
  case init
  show ?case by (simp add: writer_inv_def reader_inv_def)
qed (auto intro: publish_writer_inv publish_reader_inv flip_writer_inv flip_reader_inv)

text \<open>
  C11. The sequence lock never yields a torn pair. However the control plane's accesses
  interleave with the worker's loads, a version and pointer the worker accepts belong together:
  the version is even and the pointer is the snapshot published with it, provided the
  32-bit version did not run through all its values between the first and the last load.
\<close>

theorem seqlock_never_torn:
  assumes "cls_reachable s" "sys_reader s = R_accepted v n m p" "m - n < 2 ^ 32"
  shows "n = m \<and> v = of_nat n \<and> v AND 1 = 0 \<and> n div 2 < length (sys_published s) \<and>
    p = sys_published s ! (n div 2)"
proof -
  have w: "writer_inv s" and r: "reader_inv s" using cls_invariant [OF assms(1)] by simp_all
  have rd: "v = of_nat n" "even n" "n \<le> m" "m \<le> sys_changes s" "v = of_nat m"
    "m = n \<longrightarrow> p = sys_published s ! (n div 2)"
    using r assms(2) by (auto simp: reader_inv_def)
  have "(of_nat (m - n) :: u32) = 0" using rd(1,3,5) by (simp add: of_nat_diff)
  then have "unat (of_nat (m - n) :: u32) = 0" by simp
  then have "(m - n) mod 2 ^ 32 = 0" by (simp add: unat_of_nat)
  then have eq: "n = m" using assms(3) rd(3) by simp
  have "n div 2 < length (sys_published s)"
    using w rd(3,4) div_le_mono [of n "sys_changes s" 2] by (simp add: writer_inv_def)
  then show ?thesis using eq rd even_word [of n] by simp
qed

text \<open>The worker accepts the first snapshot after a complete publication.\<close>

theorem seqlock_never_torn_witness:
  "\<exists>s. cls_reachable s \<and> sys_reader s = R_accepted 2 2 2 (Some (5 :: nat)) \<and>
     sys_published s ! 1 = Some 5"
proof -
  let ?s0 = "\<lparr>sys_active = None :: nat option, sys_version = 0, sys_writer = W_idle, sys_reader = R_start,
    sys_changes = 0, sys_published = [None]\<rparr>"
  let ?s1 = "?s0 \<lparr>sys_version := 1, sys_changes := 1, sys_writer := W_started 1\<rparr>"
  let ?s2 = "?s1 \<lparr>sys_active := Some 5, sys_writer := W_swapped 1\<rparr>"
  let ?s3 = "?s2 \<lparr>sys_version := 2, sys_changes := 2, sys_writer := W_idle, sys_published := [None, Some 5]\<rparr>"
  let ?s4 = "?s3 \<lparr>sys_reader := R_version 2 2\<rparr>"
  let ?s5 = "?s4 \<lparr>sys_reader := R_pointer 2 2 (Some 5)\<rparr>"
  let ?s6 = "?s5 \<lparr>sys_reader := R_accepted 2 2 2 (Some 5)\<rparr>"
  have "publish_step ?s0 ?s1" using publish_step.start [of ?s0] by simp
  moreover have "publish_step ?s1 ?s2" using publish_step.swap [of ?s1 1 5] by simp
  moreover have "publish_step ?s2 ?s3" using publish_step.finish [of ?s2 1] by (simp add: numeral_2_eq_2)
  moreover have "flip_step ?s3 ?s4" using flip_step.load_version [of ?s3] by simp
  moreover have "flip_step ?s4 ?s5" using flip_step.load_pointer [of ?s4 2 2] by simp
  moreover have "flip_step ?s5 ?s6" using flip_step.accept [of ?s5 2 2 "Some 5"] by simp
  ultimately have r: "cls_reachable ?s6"
    using cls_reachable.init cls_reachable.publish cls_reachable.flip by metis
  have "sys_reader ?s6 = R_accepted 2 2 2 (Some 5)" by simp
  from seqlock_never_torn [OF r this] r show ?thesis by (intro exI [of _ ?s6]) simp
qed

end
