(* ===== verification/Dl_Config.thy ===== *)
theory Dl_Config
  imports Shaper Flow_Meter Gtp Session_Rules Cls_Publish
begin

text \<open>
  What the worker derives from a packet before it enforces anything
  (\<^verbatim>\<open>5gc/upf_u/upf_u.c\<close>): the length a downlink packet is charged with, its shaper
  flow key, the classifier keys of both directions, and the session rate and guaranteed-rate
  state that a downlink PDR configures in the UE token table.
\<close>

subsection \<open>Flow key and charged length\<close>

text \<open>
  Headers are addressed by their offset in the packet; \<^verbatim>\<open>l4_off\<close> is a 16-bit number. The first
  argument is the packet pointer.
\<close>

definition build_dl_shaper_flow_key ::
  "rte_mbuf option \<Rightarrow> UPDK_PDR option \<Rightarrow> u32 \<Rightarrow> bool \<Rightarrow> shaper_flow_key option" where
  "build_dl_shaper_flow_key pkt_ptr pdr_ptr ip is_qos =
     (case pkt_ptr of
        None \<Rightarrow> None
      | Some pkt \<Rightarrow>
          (case onvm_pkt_ipv4_hdr pkt of
             None \<Rightarrow> None
           | Some iph \<Rightarrow>
               if drop_bit 4 (ip_version_ihl pkt iph) \<noteq> 4 then None
               else
                 let qfi = (case pdr_ptr of
                              None \<Rightarrow> 0
                            | Some pdr \<Rightarrow> (case pdr_qer pdr of None \<Rightarrow> 0
                                | Some qer \<Rightarrow> if is_qos then QERGetQFI qer else 0));
                     key = zero_flow_key \<lparr>k_ue_ip := ip,
                             k_src_ip := rte_be_to_cpu_32 (ip_src_addr pkt iph),
                             k_dst_ip := rte_be_to_cpu_32 (ip_dst_addr pkt iph),
                             k_proto := ip_next_proto_id pkt iph,
                             k_is_qos := (if is_qos then 1 else 0), k_qfi := qfi\<rparr>;
                     l4_off = ETHER_HDR + ihl_len (ip_version_ihl pkt iph);
                     pkt_len = unat (mb_pkt_len pkt);
                     with_ports = (\<lambda>l4. key \<lparr>k_src_port := rte_be_to_cpu_16 (ld16 pkt l4),
                                             k_dst_port := rte_be_to_cpu_16 (ld16 pkt (l4 + 2))\<rparr>)
                 in if k_proto key = IPPROTO_UDP \<and> pkt_len \<ge> l4_off + UDP_HDR
                    then map_option with_ports (rte_pktmbuf_read pkt l4_off UDP_HDR)
                    else if k_proto key = IPPROTO_TCP \<and> pkt_len \<ge> l4_off + TCP_HDR
                    then map_option with_ports (rte_pktmbuf_read pkt l4_off TCP_HDR)
                    else Some key))"

definition dl_qos_flow_has_gbr :: "UPDK_PDR option \<Rightarrow> bool" where
  "dl_qos_flow_has_gbr pdr_ptr =
     (case pdr_ptr of
        None \<Rightarrow> False
      | Some pdr \<Rightarrow> (case pdr_qer pdr of None \<Rightarrow> False
          | Some qer \<Rightarrow> qerf_guaranteedBitrate (qer_flags qer) \<and>
                        rate_dl (qer_guaranteedBitrate qer) > 0))"

text \<open>The payload above UDP or TCP; 0 for a header that does not fit its packet.\<close>

definition dl_qos_packet_len :: "rte_mbuf option \<Rightarrow> nat option \<Rightarrow> u32" where
  "dl_qos_packet_len pkt_ptr iph_ptr =
     (case (pkt_ptr, iph_ptr) of
        (Some pkt, Some iph) \<Rightarrow>
          (let ip_hdr_len = (of_nat (ihl_len (ip_version_ihl pkt iph)) :: u16);
               ip_total_len = rte_be_to_cpu_16 (ip_total_length pkt iph);
               pkt_len = unat (mb_pkt_len pkt)
           in if ip_hdr_len < 20 \<or> ip_total_len < ip_hdr_len \<or> pkt_len < ETHER_HDR + unat ip_hdr_len
              then 0
              else
                let l4_payload_len = ip_total_len - ip_hdr_len;
                    l4_off = ETHER_HDR + unat ip_hdr_len
                in if ip_next_proto_id pkt iph = IPPROTO_UDP then
                     if l4_payload_len \<ge> 8 \<and> pkt_len \<ge> l4_off + UDP_HDR
                     then ucast l4_payload_len - 8 else ucast l4_payload_len
                   else if ip_next_proto_id pkt iph = IPPROTO_TCP then
                     if l4_payload_len < 20 \<or> pkt_len < l4_off + TCP_HDR then ucast l4_payload_len
                     else (case rte_pktmbuf_read pkt l4_off TCP_HDR of
                             None \<Rightarrow> ucast l4_payload_len
                           | Some th \<Rightarrow>
                               let tcp_hdr_len = ucast (drop_bit 4 (ld8 pkt (th + 12))) * (4 :: u16)
                               in if tcp_hdr_len < 20 \<or> tcp_hdr_len > l4_payload_len
                                  then ucast l4_payload_len
                                  else ucast l4_payload_len - ucast tcp_hdr_len)
                   else ucast l4_payload_len)
      | _ \<Rightarrow> 0)"

subsection \<open>Classification\<close>

text \<open>
  The keys the classifier is asked with. Then the PDR found configures its meter, which is a
  computation that could fail to return; the result is the address of the PDR.
\<close>

definition zero_packet_key :: ps_packet_t where
  "zero_packet_key = \<lparr>ps_ue_ip = 0, ps_src_ip = 0, ps_dst_ip = 0, ps_src_port = 0, ps_dst_port = 0,
     ps_proto = 0, ps_tos_tc = 0, ps_spi = 0, ps_flow_label = 0, ps_teid = 0, ps_source_if = 0,
     ps_ni_hash = 0, ps_qfi = 0, ps_is_uplink = 0\<rparr>"

definition dl_packet_key :: "rte_mbuf \<Rightarrow> nat \<Rightarrow> u32 \<Rightarrow> ps_packet_t" where
  "dl_packet_key pkt outer4 ip =
     (let uh = (if ip_next_proto_id pkt outer4 = IPPROTO_UDP then onvm_pkt_udp_hdr pkt else None)
      in zero_packet_key \<lparr>ps_src_ip := rte_be_to_cpu_32 (ip_src_addr pkt outer4),
           ps_dst_ip := rte_be_to_cpu_32 (ip_dst_addr pkt outer4),
           ps_tos_tc := ip_tos pkt outer4, ps_ue_ip := ip,
           ps_proto := ip_next_proto_id pkt outer4,
           ps_src_port := (case uh of None \<Rightarrow> 0 | Some u \<Rightarrow> rte_be_to_cpu_16 (udp_src_port pkt u)),
           ps_dst_port := (case uh of None \<Rightarrow> 0 | Some u \<Rightarrow> rte_be_to_cpu_16 (udp_dst_port pkt u)),
           ps_source_if := ucast SRC_IF_CORE, ps_is_uplink := 0\<rparr>)"

definition GetPdrByUeIpAddress ::
  "('c \<Rightarrow> ps_packet_t \<Rightarrow> int \<times> nat) \<Rightarrow> ('p, 'm) rte_meter_lib \<Rightarrow> upf_ports \<Rightarrow> rule_memory \<Rightarrow>
     'c upf_cls_local_t \<Rightarrow> ('p, 'm) flow_meter \<Rightarrow> rte_mbuf \<Rightarrow> u32 \<Rightarrow>
     (('p, 'm) flow_meter \<times> rule_ptr option) option" where
  "GetPdrByUeIpAddress classify lib ports mem local fm pkt ip =
     (case onvm_pkt_ipv4_hdr pkt of
        None \<Rightarrow> Some (fm, None)
      | Some outer4 \<Rightarrow>
          (case UpfClassifyGetPdrPtr classify local (dl_packet_key pkt outer4 ip) of
             None \<Rightarrow> Some (fm, None)
           | Some pdr \<Rightarrow>
               do {
                 fm \<leftarrow> ConfigureQerFlows lib ports fm (Some (mem_pdr mem pdr)) False;
                 Some (fm, Some pdr)
               }))"

definition ul_packet_key :: "rte_mbuf \<Rightarrow> gtp_parse_result_t \<Rightarrow> nat \<Rightarrow> ps_packet_t" where
  "ul_packet_key pkt gtp_info inner4 =
     (let innerU = inner4 + ihl_len (ip_version_ihl pkt inner4);
          ip = rte_be_to_cpu_32 (ip_src_addr pkt inner4)
      in zero_packet_key \<lparr>ps_teid := gtp_teid gtp_info, ps_qfi := gtp_qfi gtp_info,
           ps_ue_ip := ip, ps_src_ip := ip,
           ps_dst_ip := rte_be_to_cpu_32 (ip_dst_addr pkt inner4),
           ps_src_port := rte_be_to_cpu_16 (udp_src_port pkt innerU),
           ps_dst_port := rte_be_to_cpu_16 (udp_dst_port pkt innerU),
           ps_proto := ip_next_proto_id pkt inner4, ps_tos_tc := ip_tos pkt inner4,
           ps_source_if := ucast SRC_IF_ACCESS, ps_is_uplink := 1\<rparr>)"

definition GetPdrByTeid ::
  "('c \<Rightarrow> ps_packet_t \<Rightarrow> int \<times> nat) \<Rightarrow> ('p, 'm) rte_meter_lib \<Rightarrow> upf_ports \<Rightarrow> rule_memory \<Rightarrow>
     'c upf_cls_local_t \<Rightarrow> ('p, 'm) flow_meter \<Rightarrow> rte_mbuf \<Rightarrow> gtp_parse_result_t \<Rightarrow>
     (('p, 'm) flow_meter \<times> rule_ptr option) option" where
  "GetPdrByTeid classify lib ports mem local fm pkt gtp_info =
     (let inner4 = ETHER_HDR + unat (gtp_outer_hdr_len gtp_info) in
      if unat (mb_data_len pkt) < inner4 + IPV4_HDR then Some (fm, None)
      else if drop_bit 4 (ip_version_ihl pkt inner4) \<noteq> 4 then Some (fm, None)
      else case UpfClassifyGetPdrPtr classify local (ul_packet_key pkt gtp_info inner4) of
             None \<Rightarrow> Some (fm, None)
           | Some pdr \<Rightarrow>
               do {
                 fm \<leftarrow> ConfigureQerFlows lib ports fm (Some (mem_pdr mem pdr)) True;
                 Some (fm, Some pdr)
               })"

subsection \<open>Discovery of the session rate\<close>

record session_ambr_discovery =
  disc_rate :: u64
  disc_found :: bool
  disc_conflicting_rates :: bool

definition zero_discovery :: session_ambr_discovery where
  "zero_discovery = \<lparr>disc_rate = 0, disc_found = False, disc_conflicting_rates = False\<rparr>"

definition DlQerHasGbr :: "UPDK_QER option \<Rightarrow> bool" where
  "DlQerHasGbr qer_ptr =
     (case qer_ptr of None \<Rightarrow> False
      | Some qer \<Rightarrow> qerf_guaranteedBitrate (qer_flags qer) \<and> rate_dl (qer_guaranteedBitrate qer) > 0)"

definition ObserveNonGbrSessionAmbr ::
  "UPDK_QER option \<Rightarrow> session_ambr_discovery \<Rightarrow> session_ambr_discovery" where
  "ObserveNonGbrSessionAmbr qer_ptr d =
     (case qer_ptr of
        None \<Rightarrow> d
      | Some qer \<Rightarrow>
          if \<not> qerf_maximumBitrate (qer_flags qer) \<or> DlQerHasGbr (Some qer) then d
          else
            let rate = rate_dl (qer_maximumBitrate qer);
                d = (if disc_found d \<and> disc_rate d \<noteq> rate then d \<lparr>disc_conflicting_rates := True\<rparr> else d);
                d = (if \<not> disc_found d \<or> rate > disc_rate d then d \<lparr>disc_rate := rate\<rparr> else d)
            in d \<lparr>disc_found := True\<rparr>)"

definition DiscoverSessionAmbrFromSession ::
  "rule_memory \<Rightarrow> UpfSession option \<Rightarrow> session_ambr_discovery \<Rightarrow> session_ambr_discovery \<times> bool" where
  "DiscoverSessionAmbrFromSession mem session d =
     (case session of
        None \<Rightarrow> (d, False)
      | Some s \<Rightarrow>
          (case s_qer_list s of
             None \<Rightarrow> (d, False)
           | Some qs \<Rightarrow>
               (let d = fold (\<lambda>q. ObserveNonGbrSessionAmbr (map_option (mem_qer mem) q)) qs d
                in (d, disc_found d))))"

definition DiscoverSessionAmbrFromPdr ::
  "UPDK_PDR option \<Rightarrow> session_ambr_discovery \<Rightarrow> session_ambr_discovery" where
  "DiscoverSessionAmbrFromPdr pdr_ptr d =
     (case pdr_ptr of
        None \<Rightarrow> d
      | Some pdr \<Rightarrow>
          if pdr_qer_count pdr = 0 then d
          else fold ObserveNonGbrSessionAmbr
                 (take (if unat (pdr_qer_count pdr) > 2 then 2 else unat (pdr_qer_count pdr)) (pdr_qers pdr)) d)"

text \<open>\<open>clk i\<close> is the cycle counter as the \<open>i\<close>-th call reads it.\<close>

definition ConfigureDlShaperForPdr ::
  "(nat \<Rightarrow> u64) \<Rightarrow> rule_memory \<Rightarrow> ue_state \<Rightarrow> u32 \<Rightarrow> UpfSession option \<Rightarrow> UPDK_PDR option \<Rightarrow>
     ue_state \<times> int" where
  "ConfigureDlShaperForPdr clk mem s ip session pdr_ptr =
     (case Option.bind pdr_ptr pdr_qer of
        None \<Rightarrow> (s, -1)
      | Some selected_qer \<Rightarrow>
          (let (d, found) = DiscoverSessionAmbrFromSession mem session zero_discovery;
               d = (if found then d else DiscoverSessionAmbrFromPdr pdr_ptr d);
               ue_idx = findIndexByUeIpAddress s ip;
               (s, ue_idx) =
                 (if ue_idx < 0 then addEntrybyUeIp (clk 0) s ip (disc_rate d) (disc_conflicting_rates d)
                  else case refreshUeSessionAmbr (clk 0) s ue_idx (disc_rate d) (disc_conflicting_rates d) of
                         (s, ok) \<Rightarrow> (s, if ok then ue_idx else -1))
           in if ue_idx < 0 then (s, -1)
              else if \<not> DlQerHasGbr (Some selected_qer) then (s, ue_idx)
              else if \<not> qerf_maximumBitrate (qer_flags selected_qer) \<or>
                      rate_dl (qer_maximumBitrate selected_qer) = 0 then (s, -1)
              else case refreshUeGbrQer (clk 1) s ue_idx (qer_qerId selected_qer) (QERGetQFI selected_qer)
                          (rate_dl (qer_guaranteedBitrate selected_qer))
                          (rate_dl (qer_maximumBitrate selected_qer)) of
                     (s, ok) \<Rightarrow> (s, if ok then ue_idx else -1)))"

subsection \<open>What is discovered\<close>

text \<open>The downlink maximum rates of the QERs without a guaranteed rate, in order.\<close>

definition non_gbr_rates :: "UPDK_QER option list \<Rightarrow> u64 list" where
  "non_gbr_rates qs = concat (map (\<lambda>q. case q of None \<Rightarrow> []
     | Some qer \<Rightarrow> if qerf_maximumBitrate (qer_flags qer) \<and> \<not> DlQerHasGbr (Some qer)
                   then [rate_dl (qer_maximumBitrate qer)] else []) qs)"

text \<open>The rates of the session's QERs, or those of the PDR when the session has none.\<close>

definition observed_rates :: "rule_memory \<Rightarrow> UpfSession option \<Rightarrow> UPDK_PDR \<Rightarrow> u64 list" where
  "observed_rates mem session pdr =
     (let of_session = (case Option.bind session s_qer_list of None \<Rightarrow> []
                        | Some qs \<Rightarrow> non_gbr_rates (map (map_option (mem_qer mem)) qs))
      in if of_session \<noteq> [] then of_session
         else non_gbr_rates (take (min 2 (unat (pdr_qer_count pdr))) (pdr_qers pdr)))"

definition rate_summary :: "u64 list \<Rightarrow> session_ambr_discovery" where
  "rate_summary rs =
     (if rs = [] then zero_discovery
      else \<lparr>disc_rate = Max (set rs), disc_found = True,
            disc_conflicting_rates = (\<exists>r\<in>set rs. \<exists>r'\<in>set rs. r \<noteq> r')\<rparr>)"

lemma non_gbr_rates_Nil [simp]: "non_gbr_rates [] = []"
  by (simp add: non_gbr_rates_def)

lemma non_gbr_rates_Cons: "non_gbr_rates (q # qs) = non_gbr_rates [q] @ non_gbr_rates qs"
  by (simp add: non_gbr_rates_def)

lemma rate_summary_snoc:
  "rate_summary (rs @ [r]) =
     (let d = rate_summary rs in
      \<lparr>disc_rate = (if rs = [] \<or> disc_rate d < r then r else disc_rate d), disc_found = True,
       disc_conflicting_rates = (disc_conflicting_rates d \<or> rs \<noteq> [] \<and> disc_rate d \<noteq> r)\<rparr>)"
proof (cases "rs = []")
  case False
  define M where "M = Max (set rs)"
  have m: "M \<in> set rs" "Max (set (rs @ [r])) = (if M < r then r else M)"
    using False by (simp_all add: M_def max_def not_less [symmetric])
  have "(\<exists>a\<in>set (rs @ [r]). \<exists>b\<in>set (rs @ [r]). a \<noteq> b) \<longleftrightarrow>
      (\<exists>a\<in>set rs. \<exists>b\<in>set rs. a \<noteq> b) \<or> M \<noteq> r"
    using m(1) by auto
  then show ?thesis
    unfolding rate_summary_def Let_def m(2) M_def [symmetric] using False by simp
qed (simp add: rate_summary_def zero_discovery_def)

lemma observe_summary:
  "ObserveNonGbrSessionAmbr q (rate_summary rs) = rate_summary (rs @ non_gbr_rates [q])"
proof (cases "non_gbr_rates [q] = []")
  case True
  then show ?thesis
    by (auto simp: ObserveNonGbrSessionAmbr_def non_gbr_rates_def split: option.splits if_splits)
next
  case False
  then obtain qer where q: "q = Some qer" "qerf_maximumBitrate (qer_flags qer)" "\<not> DlQerHasGbr (Some qer)"
    and r: "non_gbr_rates [q] = [rate_dl (qer_maximumBitrate qer)]"
    by (auto simp: non_gbr_rates_def split: option.splits if_splits)
  have f: "disc_found (rate_summary rs) \<longleftrightarrow> rs \<noteq> []"
    by (simp add: rate_summary_def zero_discovery_def)
  show ?thesis
    unfolding r rate_summary_snoc using q f
    by (cases "rate_summary rs") (auto simp: ObserveNonGbrSessionAmbr_def Let_def)
qed

lemma fold_observe_summary:
  "fold ObserveNonGbrSessionAmbr qs (rate_summary rs) = rate_summary (rs @ non_gbr_rates qs)"
proof (induction qs arbitrary: rs)
  case (Cons q qs)
  show ?case by (simp add: observe_summary Cons non_gbr_rates_Cons [of q qs])
qed simp

lemma discovery_observed:
  "(case DiscoverSessionAmbrFromSession mem session zero_discovery of
      (d, found) \<Rightarrow> if found then d else DiscoverSessionAmbrFromPdr (Some pdr) d)
     = rate_summary (observed_rates mem session pdr)"
proof -
  have z: "zero_discovery = rate_summary []" by (simp add: rate_summary_def)
  have f: "disc_found (rate_summary rs) \<longleftrightarrow> rs \<noteq> []" for rs
    by (simp add: rate_summary_def zero_discovery_def)
  have pdr: "DiscoverSessionAmbrFromPdr (Some pdr) (rate_summary []) =
      rate_summary (non_gbr_rates (take (min 2 (unat (pdr_qer_count pdr))) (pdr_qers pdr)))"
  proof -
    have "(if unat (pdr_qer_count pdr) > 2 then 2 else unat (pdr_qer_count pdr))
        = min 2 (unat (pdr_qer_count pdr))" by simp
    then show ?thesis
      unfolding DiscoverSessionAmbrFromPdr_def using fold_observe_summary [of _ "[]"] by simp
  qed
  have ses: "fold (\<lambda>q. ObserveNonGbrSessionAmbr (map_option (mem_qer mem) q)) qs (rate_summary []) =
      rate_summary (non_gbr_rates (map (map_option (mem_qer mem)) qs))" for qs
    using fold_observe_summary [of "map (map_option (mem_qer mem)) qs" "[]"] by (simp add: fold_map comp_def)
  show ?thesis
    unfolding z
    by (auto simp: DiscoverSessionAmbrFromSession_def observed_rates_def ses pdr f Let_def
        split: option.splits)
qed

subsection \<open>What a downlink PDR configures\<close>

text \<open>The session rate of a row, and a guaranteed-rate slot of a row.\<close>

definition has_rate :: "u64 list \<Rightarrow> ue_tb \<Rightarrow> bool" where
  "has_rate rs ue \<longleftrightarrow> session_ambr ue = disc_rate (rate_summary rs) \<and>
     session_ambr_conflict ue = disc_conflicting_rates (rate_summary rs)"

definition has_gbr_slot :: "UPDK_QER \<Rightarrow> ue_tb \<Rightarrow> bool" where
  "has_gbr_slot qer ue \<longleftrightarrow> (\<exists>q\<in>set (gbr_qers ue). gq_used q \<and> gq_qer_id q = qer_qerId qer \<and>
     gq_qfi q = QERGetQFI qer \<and> gq_gfbr q = rate_dl (qer_guaranteedBitrate qer) \<and>
     gq_mfbr q = rate_dl (qer_maximumBitrate qer))"

lemma refresh_ambr_rate [simp]:
  "session_ambr (refresh_ambr now r c ue) = r" "session_ambr_conflict (refresh_ambr now r c ue) = c"
  "session_ambr (fresh_ue now ip r c) = r" "session_ambr_conflict (fresh_ue now ip r c) = c"
  by (simp_all add: refresh_ambr_def fresh_ue_def)

text \<open>The first stage finds or makes the row of the UE and gives it the rate.\<close>

lemma configure_rate:
  assumes inv: "ue_inv s" and ip: "ip \<noteq> 0"
    and res: "(if findIndexByUeIpAddress s ip < 0 then addEntrybyUeIp now s ip r c
       else case refreshUeSessionAmbr now s (findIndexByUeIpAddress s ip) r c of
              (t, ok) \<Rightarrow> (t, if ok then findIndexByUeIpAddress s ip else -1)) = (s1, idx)"
  shows "ue_inv s1 \<and> idx = findIndexByUeIpAddress s1 ip \<and>
    (\<forall>ip'. ip' \<noteq> ip \<longrightarrow> ue_map s1 ip' = ue_map s ip') \<and>
    (case ue_map s1 ip of None \<Rightarrow> idx = -1 \<and> (\<forall>i<MAX_UE. ue_ip (ue_table s ! i) \<noteq> 0)
     | Some ue \<Rightarrow> 0 \<le> idx \<and> session_ambr ue = r \<and> session_ambr_conflict ue = c)"
proof (cases rule: ue_find_cases [OF inv, of ip])
  case 1
  note absent = 1
  then have add: "addEntrybyUeIp now s ip r c = (s1, idx)" using res by simp
  show ?thesis
  proof (cases "\<forall>i<MAX_UE. ue_ip (ue_table s ! i) \<noteq> 0")
    case True
    then show ?thesis using add add_full [OF inv absent(2)] absent inv by simp
  next
    case False
    then obtain i where "i < MAX_UE" "ue_ip (ue_table s ! i) = 0" by blast
    from add_fresh [OF inv absent(2) ip this add] show ?thesis by simp
  qed
next
  case (2 i)
  note present = 2
  then have len: "i < length (ue_table s)" using inv by (simp add: ue_inv_def)
  have s1: "s1 = upd_ue s (int i) (refresh_ambr now r c)" "idx = int i"
    using res refreshUeSessionAmbr_row [OF len present(2)] present by auto
  have add: "addEntrybyUeIp now s ip r c = (s1, idx)"
    using s1 refreshUeSessionAmbr_row [OF len present(2), of now r c] present
    by (simp add: addEntrybyUeIp_def findIndexByUeIpAddress_def Let_def)
  show ?thesis using add_existing [OF inv present(5) add] by simp
qed

lemma gbr_stage:
  assumes inv: "ue_inv s" and ue: "ue_map s ip = Some ue" and ip: "ip \<noteq> 0"
    and res: "refreshUeGbrQer now s (findIndexByUeIpAddress s ip) (qer_qerId qer) (QERGetQFI qer)
      (rate_dl (qer_guaranteedBitrate qer)) (rate_dl (qer_maximumBitrate qer)) = (s', ok)"
  shows "ue_inv s' \<and> findIndexByUeIpAddress s' = findIndexByUeIpAddress s \<and>
    (\<forall>ip'. ip' \<noteq> ip \<longrightarrow> ue_map s' ip' = ue_map s ip') \<and>
    (\<exists>ue'. ue_map s' ip = Some ue' \<and> session_ambr ue' = session_ambr ue \<and>
       session_ambr_conflict ue' = session_ambr_conflict ue \<and> (ok \<longrightarrow> has_gbr_slot qer ue'))"
proof (cases rule: ue_find_cases [OF inv, of ip])
  case (2 i)
  note present = 2
  have inv': "ue_inv s'" using refreshUeGbrQer_inv [OF inv, of now] res by (metis fst_conv)
  have row: "ue = ue_table s ! i" using ue present by simp
  show ?thesis
  proof (cases ok)
    case False
    then have "s' = s" using res by (auto simp: refreshUeGbrQer_def split: if_splits option.splits)
    then show ?thesis using inv ue False by simp
  next
    case True
    obtain j q where s': "s' = upd_qer s (int i) j (\<lambda>_. q)" "j < length (gbr_qers ue)"
      and q: "gq_used q" "gq_qer_id q = qer_qerId qer" "gq_qfi q = QERGetQFI qer"
        "gq_gfbr q = rate_dl (qer_guaranteedBitrate qer)" "gq_mfbr q = rate_dl (qer_maximumBitrate qer)"
    proof (cases "findGbrQerLocked ue (qer_qerId qer)")
      case None
      then show ?thesis
        using res True that present row
        by (auto simp: refreshUeGbrQer_def dest!: find_index_SomeD split: if_splits option.splits)
    next
      case (Some j)
      note j = find_index_SomeD [OF Some [unfolded findGbrQerLocked_def]]
      let ?q = "change_qer now (QERGetQFI qer) (rate_dl (qer_guaranteedBitrate qer))
        (rate_dl (qer_maximumBitrate qer)) (gbr_qers ue ! j)"
      have "s' = upd_qer s (int i) j (\<lambda>_. ?q)"
        using res True Some present row
        by (auto simp: refreshUeGbrQer_def upd_qer_def upd_ue_def split: if_splits)
      then show ?thesis using that [of j ?q] j by (auto simp: change_qer_def Let_def)
    qed
    let ?f = "\<lambda>u. u \<lparr>gbr_qers := (gbr_qers u)[j := q]\<rparr>"
    have up: "s' = upd_ue s (int i) ?f" using s'(1) by (simp add: upd_qer_def)
    have len: "length (ue_table s) = MAX_UE" using inv by (simp add: ue_inv_def)
    have "ue_ok (?f ue)"
      using ue_inv_row [OF inv' present(2)] up row present(2) len by (simp add: upd_ue_def)
    then show ?thesis
      using upd_ue_row [OF inv present(2), of ?f] up row present(3) ip inv' q s'(2) True
      by (auto simp: has_gbr_slot_def intro!: bexI [of _ q] set_update_memI)
  qed
qed (use ue in simp)

lemma configure_shaper_effect:
  assumes "ue_inv s" "ip \<noteq> 0" "pdr_qer pdr = Some qer"
    and "ConfigureDlShaperForPdr clk mem s ip session (Some pdr) = (s', r)"
  shows "ue_inv s' \<and> (\<forall>ip'. ip' \<noteq> ip \<longrightarrow> ue_map s' ip' = ue_map s ip') \<and>
    (0 \<le> r \<longrightarrow> r = findIndexByUeIpAddress s' ip) \<and>
    (case ue_map s' ip of
       None \<Rightarrow> r = -1 \<and> (\<forall>i<MAX_UE. ue_ip (ue_table s ! i) \<noteq> 0)
     | Some ue \<Rightarrow>
         session_ambr ue = (if observed_rates mem session pdr = [] then 0
                            else Max (set (observed_rates mem session pdr))) \<and>
         (session_ambr_conflict ue \<longleftrightarrow>
            (\<exists>a\<in>set (observed_rates mem session pdr). \<exists>b\<in>set (observed_rates mem session pdr). a \<noteq> b)) \<and>
         (0 \<le> r \<and> DlQerHasGbr (Some qer) \<longrightarrow> has_gbr_slot qer ue))"
proof -
  let ?d = "rate_summary (observed_rates mem session pdr)"
  define dd where "dd = DiscoverSessionAmbrFromSession mem session zero_discovery"
  have d: "(if snd dd then fst dd else DiscoverSessionAmbrFromPdr (Some pdr) (fst dd)) = ?d"
    using discovery_observed [where mem = mem and session = session and pdr = pdr] unfolding dd_def split_beta .
  obtain s1 idx where stage1: "(if findIndexByUeIpAddress s ip < 0
      then addEntrybyUeIp (clk 0) s ip (disc_rate ?d) (disc_conflicting_rates ?d)
      else case refreshUeSessionAmbr (clk 0) s (findIndexByUeIpAddress s ip) (disc_rate ?d)
             (disc_conflicting_rates ?d) of
             (t, ok) \<Rightarrow> (t, if ok then findIndexByUeIpAddress s ip else -1)) = (s1, idx)"
    by fastforce
  note s1 = configure_rate [OF assms(1,2) stage1]
  have res: "(s', r) = (if idx < 0 then (s1, -1) else if \<not> DlQerHasGbr (Some qer) then (s1, idx)
      else if \<not> qerf_maximumBitrate (qer_flags qer) \<or> rate_dl (qer_maximumBitrate qer) = 0 then (s1, -1)
      else case refreshUeGbrQer (clk 1) s1 idx (qer_qerId qer) (QERGetQFI qer)
             (rate_dl (qer_guaranteedBitrate qer)) (rate_dl (qer_maximumBitrate qer)) of
             (t, ok) \<Rightarrow> (t, if ok then idx else -1))"
    using assms(4)
    unfolding ConfigureDlShaperForPdr_def Option.bind.bind_lunit assms(3) option.case Let_def split_beta
      dd_def [symmetric] d stage1 [unfolded split_beta] fst_conv snd_conv
    by (rule sym)
  have rate: "disc_rate ?d = (if observed_rates mem session pdr = [] then 0
      else Max (set (observed_rates mem session pdr)))"
    "disc_conflicting_rates ?d \<longleftrightarrow>
      (\<exists>a\<in>set (observed_rates mem session pdr). \<exists>b\<in>set (observed_rates mem session pdr). a \<noteq> b)"
    by (auto simp: rate_summary_def zero_discovery_def)
  show ?thesis
  proof (cases "ue_map s1 ip")
    case None
    then show ?thesis using s1 res by simp
  next
    case (Some ue)
    then have idx: "0 \<le> idx" "idx = findIndexByUeIpAddress s1 ip" using s1 by simp_all
    show ?thesis
    proof (cases "DlQerHasGbr (Some qer) \<and> qerf_maximumBitrate (qer_flags qer) \<and>
        rate_dl (qer_maximumBitrate qer) \<noteq> 0")
      case False
      then show ?thesis unfolding rate [symmetric] using res s1 Some idx by (auto split: if_splits)
    next
      case True
      obtain t ok where g: "refreshUeGbrQer (clk 1) s1 idx (qer_qerId qer) (QERGetQFI qer)
          (rate_dl (qer_guaranteedBitrate qer)) (rate_dl (qer_maximumBitrate qer)) = (t, ok)"
        by fastforce
      then have "s' = t" "r = (if ok then idx else -1)" using res True idx by auto
      moreover note gbr_stage [OF _ Some assms(2) g [unfolded idx(2)]]
      ultimately show ?thesis unfolding rate [symmetric] using s1 Some idx by auto
    qed
  qed
qed

text \<open>
  C22. Whatever QERs a session and its PDR have, ConfigureDlShaperForPdr keeps the UE table
  consistent and touches no other UE. The UE it serves gets the largest downlink maximum rate
  among the QERs without a guaranteed rate, taken from the session and only in their absence from
  the PDR, and is marked as conflicting exactly when two of those rates differ. The call fails
  to give the UE a row only when the table is full, and when it returns an index for a PDR whose
  selected QER has a guaranteed rate, the UE has a slot with the rates of that QER.
\<close>

theorem configure_dl_shaper_correct:
  assumes "ue_inv s" "ip \<noteq> 0" "pdr_qer pdr = Some qer"
    and "ConfigureDlShaperForPdr clk mem s ip session (Some pdr) = (s', r)"
  shows "ue_inv s' \<and> (\<forall>ip'. ip' \<noteq> ip \<longrightarrow> ue_map s' ip' = ue_map s ip') \<and>
    (0 \<le> r \<longrightarrow> r = findIndexByUeIpAddress s' ip) \<and>
    (case ue_map s' ip of
       None \<Rightarrow> r = -1 \<and> (\<forall>i<MAX_UE. ue_ip (ue_table s ! i) \<noteq> 0)
     | Some ue \<Rightarrow>
         session_ambr ue = (if observed_rates mem session pdr = [] then 0
                            else Max (set (observed_rates mem session pdr))) \<and>
         (session_ambr_conflict ue \<longleftrightarrow>
            (\<exists>a\<in>set (observed_rates mem session pdr). \<exists>b\<in>set (observed_rates mem session pdr). a \<noteq> b)) \<and>
         (0 \<le> r \<and> DlQerHasGbr (Some qer) \<longrightarrow> has_gbr_slot qer ue))"
  by (rule configure_shaper_effect [OF assms])

text \<open>Two QERs without a guaranteed rate on a session whose PDR selects the slower one.\<close>

definition example_rate_qer :: "u64 \<Rightarrow> UPDK_QER" where
  "example_rate_qer r = zero_qer \<lparr>qer_flags := (qer_flags zero_qer) \<lparr>qerf_maximumBitrate := True\<rparr>,
     qer_maximumBitrate := \<lparr>rate_ul = 0, rate_dl = r\<rparr>\<rparr>"

definition example_rules :: rule_memory where
  "example_rules = \<lparr>mem_pdr = (\<lambda>_. zero_pdr), mem_far = (\<lambda>_. zero_far),
     mem_qer = (\<lambda>p. example_rate_qer (of_nat p))\<rparr>"

theorem configure_dl_shaper_correct_witness:
  "\<exists>s' r ue. ConfigureDlShaperForPdr (\<lambda>_. 0) example_rules (ue_boot (\<lambda>_. 0)) 7
       (Some (zero_session \<lparr>s_qer_list := Some [Some 3, Some 5]\<rparr>))
       (Some (zero_pdr \<lparr>pdr_qer := Some (example_rate_qer 3)\<rparr>)) = (s', r) \<and>
     ue_inv s' \<and> ue_map s' 7 = Some ue \<and> session_ambr ue = 5 \<and> session_ambr_conflict ue"
proof -
  let ?session = "Some (zero_session \<lparr>s_qer_list := Some [Some 3, Some 5]\<rparr>)"
  let ?pdr = "zero_pdr \<lparr>pdr_qer := Some (example_rate_qer 3)\<rparr>"
  obtain s' r where res: "ConfigureDlShaperForPdr (\<lambda>_. 0) example_rules (ue_boot (\<lambda>_. 0)) 7
      ?session (Some ?pdr) = (s', r)" by fastforce
  have rates: "observed_rates example_rules ?session ?pdr = [3, 5]"
    by (simp add: observed_rates_def non_gbr_rates_def example_rules_def example_rate_qer_def
        DlQerHasGbr_def zero_qer_def Let_def)
  have "ue_ip (ue_table (ue_boot (\<lambda>_. 0)) ! 0) = 0"
    by (simp add: ue_boot_def Let_def initUeTable_def)
  then have room: "\<not> (\<forall>i<MAX_UE. ue_ip (ue_table (ue_boot (\<lambda>_. 0)) ! i) \<noteq> 0)"
    by (metis zero_less_numeral)
  show ?thesis
    using configure_dl_shaper_correct [OF ue_boot_inv _ _ res] res
    unfolding rates by (auto simp: room split: option.splits)
qed

end
