(* ===== verification/Active_Ue.thy ===== *)
theory Active_Ue
  imports Ue_Table
begin

text \<open>
  The bitmap of UEs with queued packets and its round-robin cursor
  (\<^verbatim>\<open>g_shaper_active_ue_bitmap\<close>, \<^verbatim>\<open>g_shaper_active_ue_cursor\<close> of \<^verbatim>\<open>5gc/upf_u/upf_u.c\<close>). The word-wise
  search \<^verbatim>\<open>shaper_next_active_ue\<close> is shown to be the plain circular search for the first UE
  that is active and not skipped.
\<close>

abbreviation SHAPER_UE_BITMAP_WORDS :: nat where "SHAPER_UE_BITMAP_WORDS \<equiv> 4"

abbreviation UINT64_ONES :: u64 where "UINT64_ONES \<equiv> 0xFFFFFFFFFFFFFFFF"

definition shaper_ue_bitmap_valid_mask :: "nat \<Rightarrow> u64" where
  "shaper_ue_bitmap_valid_mask word_idx =
     (if word_idx + 1 < SHAPER_UE_BITMAP_WORDS then UINT64_ONES
      else let used_bits = MAX_UE mod 64
           in if used_bits = 0 then UINT64_ONES else push_bit used_bits 1 - 1)"

definition shaper_mark_ue_active :: "u64 list \<Rightarrow> nat \<Rightarrow> u64 list" where
  "shaper_mark_ue_active bm ue_idx =
     bm[ue_idx div 64 := bm ! (ue_idx div 64) OR push_bit (ue_idx mod 64) 1]"

definition shaper_clear_ue_active :: "u64 list \<Rightarrow> nat \<Rightarrow> u64 list" where
  "shaper_clear_ue_active bm ue_idx =
     bm[ue_idx div 64 := bm ! (ue_idx div 64) AND NOT (push_bit (ue_idx mod 64) 1)]"

definition builtin_ctzll :: "u64 \<Rightarrow> nat" where
  "builtin_ctzll w = (case find (bit w) [0..<64] of Some b \<Rightarrow> b | None \<Rightarrow> 64)"

text \<open>The word the inner loop looks at, after the masks of the pass.\<close>

definition scan_word :: "u64 list \<Rightarrow> u64 list option \<Rightarrow> nat \<Rightarrow> bool \<Rightarrow> nat \<Rightarrow> u64" where
  "scan_word bm skip start second word_idx =
     (let start_word = start div 64; start_bit = start mod 64;
          word = bm ! word_idx AND shaper_ue_bitmap_valid_mask word_idx;
          word = (case skip of None \<Rightarrow> word | Some sk \<Rightarrow> word AND NOT (sk ! word_idx))
      in if \<not> second \<and> word_idx = start_word then
           if start_bit > 0 then word AND push_bit start_bit UINT64_ONES else word
         else if second \<and> word_idx = start_word then
           if start_bit = 0 then 0 else word AND (push_bit start_bit 1 - 1)
         else word)"

fun scan_words ::
  "u64 list \<Rightarrow> u64 list option \<Rightarrow> nat \<Rightarrow> (bool \<times> nat) list \<Rightarrow> nat option" where
  "scan_words bm skip start [] = None"
| "scan_words bm skip start ((second, word_idx) # rest) =
     (let word = scan_word bm skip start second word_idx in
      if word = 0 then scan_words bm skip start rest
      else Some (word_idx * 64 + builtin_ctzll word))"

text \<open>Result: the new cursor and the UE index, -1 when there is none.\<close>

definition shaper_next_active_ue :: "u64 list \<Rightarrow> nat \<Rightarrow> u64 list option \<Rightarrow> nat \<times> int" where
  "shaper_next_active_ue bm cursor skip =
     (let start = cursor mod MAX_UE;
          order = map (Pair False) [start div 64..<SHAPER_UE_BITMAP_WORDS] @
                  map (Pair True) [0..<start div 64 + 1]
      in case scan_words bm skip start order of
           None \<Rightarrow> (cursor, -1)
         | Some ue_idx \<Rightarrow> ((ue_idx + 1) mod MAX_UE, int ue_idx))"

subsection \<open>The reference search\<close>

definition ue_bit :: "u64 list \<Rightarrow> nat \<Rightarrow> bool" where
  "ue_bit bm i = bit (bm ! (i div 64)) (i mod 64)"

definition wanted :: "u64 list \<Rightarrow> u64 list option \<Rightarrow> nat \<Rightarrow> bool" where
  "wanted bm skip i \<longleftrightarrow> ue_bit bm i \<and> (case skip of None \<Rightarrow> True | Some sk \<Rightarrow> \<not> ue_bit sk i)"

definition next_active_spec :: "u64 list \<Rightarrow> nat \<Rightarrow> u64 list option \<Rightarrow> nat option" where
  "next_active_spec bm cursor skip =
     find (wanted bm skip) ([cursor mod MAX_UE..<MAX_UE] @ [0..<cursor mod MAX_UE])"

lemma find_upt_Some:
  "find P [a..<b] = Some x \<longleftrightarrow> a \<le> x \<and> x < b \<and> P x \<and> (\<forall>y. a \<le> y \<and> y < x \<longrightarrow> \<not> P y)"
proof (induction "b - a" arbitrary: a)
  case 0
  then show ?case by simp
next
  case (Suc n)
  then have ab: "a < b" by simp
  have IH: "find P [Suc a..<b] = Some x \<longleftrightarrow>
      Suc a \<le> x \<and> x < b \<and> P x \<and> (\<forall>y. Suc a \<le> y \<and> y < x \<longrightarrow> \<not> P y)"
    using Suc by (intro Suc.hyps) simp
  show ?case
  proof (cases "P a")
    case True
    then show ?thesis using ab
      by (auto simp: upt_conv_Cons)
  next
    case False
    have "(\<forall>y. Suc a \<le> y \<and> y < x \<longrightarrow> \<not> P y) \<longleftrightarrow> (\<forall>y. a \<le> y \<and> y < x \<longrightarrow> \<not> P y)"
      using False by (metis Suc_leI le_neq_implies_less Suc_leD)
    moreover have "P x \<Longrightarrow> a \<le> x \<Longrightarrow> Suc a \<le> x" using False by (metis Suc_leI le_neq_implies_less)
    ultimately show ?thesis
      using False ab IH by (auto simp: upt_conv_Cons)
  qed
qed

lemma find_upt_None: "find P [a..<b] = None \<longleftrightarrow> (\<forall>x. a \<le> x \<and> x < b \<longrightarrow> \<not> P x)"
  by (auto simp: find_None_iff)

text \<open>One word: its lowest bit is the first wanted UE of the range it covers.\<close>

lemma find_word:
  fixes W :: u64
  assumes bits: "\<And>b. b < 64 \<Longrightarrow> bit W b \<longleftrightarrow> lo \<le> b \<and> b < hi \<and> P (base + b)"
    and hi: "hi \<le> 64"
  shows "find P [base + lo..<base + hi] = (if W = 0 then None else Some (base + builtin_ctzll W))"
proof (cases "W = 0")
  case True
  have "\<not> P x" if x: "base + lo \<le> x" "x < base + hi" for x
  proof -
    obtain b where b: "x = base + b" using x(1) by (metis add_leD1 le_Suc_ex)
    then show ?thesis using bits [of b] x hi True by simp
  qed
  then have "find P [base + lo..<base + hi] = None" by (simp add: find_upt_None)
  then show ?thesis using True by simp
next
  case False
  then obtain n where "bit W n" by (auto simp: bit_eq_iff)
  then have n: "bit W n" "n < 64" by (auto dest: bit_imp_le_length)
  then obtain b where b: "find (bit W) [0..<64] = Some b"
    by (cases "find (bit W) [0..<64]") (auto simp: find_upt_None)
  then have ctz: "b < 64" "bit W b" "\<forall>y<b. \<not> bit W y"
    by (auto simp: find_upt_Some)
  have low: "builtin_ctzll W = b" using b by (simp add: builtin_ctzll_def)
  have "\<not> P y" if "base + lo \<le> y" "y < base + b" for y
  proof -
    define c where "c = y - base"
    have "y = base + c" using that(1) by (simp add: c_def)
    then show ?thesis using bits [of c] bits [of b] ctz(1,2) ctz(3) [rule_format, of c] that by simp
  qed
  then have "find P [base + lo..<base + hi] = Some (base + b)"
    using bits [of b] ctz unfolding find_upt_Some by auto
  then show ?thesis using False low by simp
qed

definition scan_lo :: "nat \<Rightarrow> bool \<Rightarrow> nat \<Rightarrow> nat" where
  "scan_lo start second w = (if \<not> second \<and> w = start div 64 then start mod 64 else 0)"

definition scan_hi :: "nat \<Rightarrow> bool \<Rightarrow> nat \<Rightarrow> nat" where
  "scan_hi start second w = (if second \<and> w = start div 64 then start mod 64 else 64)"

lemma ones_eq: "UINT64_ONES = mask 64"
  by (simp add: mask_eq_exp_minus_1)

lemma valid_mask [simp]: "shaper_ue_bitmap_valid_mask w = mask 64"
  by (simp add: shaper_ue_bitmap_valid_mask_def ones_eq)

lemma bit_low_mask: "bit (2 ^ n - 1 :: u64) b \<longleftrightarrow> b < n \<and> b < 64"
  unfolding mask_eq_exp_minus_1 [symmetric] by (auto simp: bit_mask_iff)

lemma bit_scan_word:
  assumes "b < 64"
  shows "bit (scan_word bm skip start second w) b \<longleftrightarrow>
    scan_lo start second w \<le> b \<and> b < scan_hi start second w \<and> wanted bm skip (w * 64 + b)"
proof -
  have ub: "ue_bit m (w * 64 + b) = bit (m ! w) b" for m
    using assms by (simp add: ue_bit_def)
  show ?thesis
    unfolding scan_word_def Let_def scan_lo_def scan_hi_def wanted_def ub ones_eq valid_mask
    using assms
    by (auto simp: bit_and_iff bit_not_iff bit_push_bit_iff bit_mask_iff bit_low_mask
        split: option.splits if_splits)
qed

lemma find_append:
  "find P (xs @ ys) = (case find P xs of None \<Rightarrow> find P ys | Some x \<Rightarrow> Some x)"
  by (induction xs) auto

lemma scan_words_find:
  "scan_words bm skip start order =
     find (wanted bm skip)
       (concat (map (\<lambda>(second, w). [w * 64 + scan_lo start second w..<w * 64 + scan_hi start second w])
          order))"
proof (induction order)
  case (Cons p order)
  obtain second w where p: "p = (second, w)" by fastforce
  have hi: "scan_hi start second w \<le> 64" by (simp add: scan_hi_def)
  have "find (wanted bm skip) [w * 64 + scan_lo start second w..<w * 64 + scan_hi start second w] =
      (if scan_word bm skip start second w = 0 then None
       else Some (w * 64 + builtin_ctzll (scan_word bm skip start second w)))"
    by (rule find_word) (simp_all add: bit_scan_word hi)
  then show ?case using Cons.IH by (simp add: p Let_def find_append)
qed simp

lemma blocks_from: "concat (map (\<lambda>w. [w * 64..<w * 64 + 64]) [a..<a + n]) = [a * 64..<(a + n) * 64]"
proof (induction n)
  case (Suc n)
  have "[a * 64..<(a + Suc n) * 64] = [a * 64..<(a + n) * 64] @ [(a + n) * 64..<(a + n) * 64 + 64]"
    using upt_add_eq_append [of "a * 64" "(a + n) * 64" 64] by (simp add: algebra_simps)
  then show ?case using Suc by simp
qed simp

lemma scan_order:
  assumes "start < MAX_UE"
  shows "concat (map (\<lambda>(second, w). [w * 64 + scan_lo start second w..<w * 64 + scan_hi start second w])
      (map (Pair False) [start div 64..<SHAPER_UE_BITMAP_WORDS] @
       map (Pair True) [0..<start div 64 + 1]))
    = [start..<MAX_UE] @ [0..<start]"
proof -
  let ?s = "start div 64" and ?b = "start mod 64"
  have s: "?s < 4" using assms by simp
  have st: "?s * 64 + ?b = start" by simp
  obtain n where n: "4 = Suc ?s + n" using s by (metis Suc_leI le_Suc_ex)
  have "concat (map (\<lambda>w. [w * 64 + scan_lo start False w..<w * 64 + scan_hi start False w]) [Suc ?s..<4])
      = concat (map (\<lambda>w. [w * 64..<w * 64 + 64]) [Suc ?s..<Suc ?s + n])"
    unfolding n [symmetric] by (intro arg_cong [of _ _ concat] map_cong) (auto simp: scan_lo_def scan_hi_def)
  also have "\<dots> = [Suc ?s * 64..<(Suc ?s + n) * 64]" by (rule blocks_from)
  also have "(Suc ?s + n) * 64 = MAX_UE" using n by simp
  also have "Suc ?s * 64 = ?s * 64 + 64" by simp
  finally have first: "concat (map (\<lambda>w. [w * 64 + scan_lo start False w..<w * 64 + scan_hi start False w])
      [?s..<4]) = [start..<?s * 64 + 64] @ [?s * 64 + 64..<MAX_UE]"
    using s st by (simp add: upt_conv_Cons scan_lo_def scan_hi_def)
  have "concat (map (\<lambda>w. [w * 64 + scan_lo start True w..<w * 64 + scan_hi start True w]) [0..<?s])
      = concat (map (\<lambda>w. [w * 64..<w * 64 + 64]) [0..<0 + ?s])"
    by (intro arg_cong [of _ _ concat] map_cong) (auto simp: scan_lo_def scan_hi_def)
  also have "\<dots> = [0..<?s * 64]" by (subst blocks_from) simp
  finally have second: "concat (map (\<lambda>w. [w * 64 + scan_lo start True w..<w * 64 + scan_hi start True w])
      [0..<?s + 1]) = [0..<?s * 64] @ [?s * 64..<start]"
    using st by (simp add: scan_lo_def scan_hi_def)
  have "[start..<?s * 64 + 64] @ [?s * 64 + 64..<MAX_UE] = [start..<MAX_UE]"
  proof -
    have "start \<le> ?s * 64 + 64" "?s * 64 + 64 \<le> MAX_UE" using st s by simp_all
    then show ?thesis by (metis le_Suc_ex upt_add_eq_append)
  qed
  moreover have "[0..<?s * 64] @ [?s * 64..<start] = [0..<start]"
  proof -
    have "?s * 64 \<le> start" using st by linarith
    then show ?thesis by (metis le0 le_Suc_ex upt_add_eq_append)
  qed
  ultimately show ?thesis using first second by (simp add: comp_def)
qed

lemma next_active_refines:
  "shaper_next_active_ue bm cursor skip =
     (case next_active_spec bm cursor skip of
        None \<Rightarrow> (cursor, -1) | Some i \<Rightarrow> ((i + 1) mod MAX_UE, int i))"
proof -
  have "scan_words bm skip (cursor mod MAX_UE)
      (map (Pair False) [cursor mod MAX_UE div 64..<SHAPER_UE_BITMAP_WORDS] @
       map (Pair True) [0..<cursor mod MAX_UE div 64 + 1]) = next_active_spec bm cursor skip"
    unfolding scan_words_find next_active_spec_def by (subst scan_order) simp_all
  then show ?thesis unfolding shaper_next_active_ue_def Let_def by simp
qed

lemma next_active_None:
  "next_active_spec bm cursor skip = None \<longleftrightarrow> (\<forall>i<MAX_UE. \<not> wanted bm skip i)"
proof -
  have "i < cursor mod MAX_UE \<or> (cursor mod MAX_UE \<le> i \<and> i < MAX_UE) \<longleftrightarrow> i < MAX_UE" for i
    using mod_less_divisor [of MAX_UE cursor] by linarith
  then show ?thesis
    unfolding next_active_spec_def by (auto simp: find_None_iff)
qed

lemma next_active_Some:
  "next_active_spec bm cursor skip = Some i \<Longrightarrow> i < MAX_UE \<and> wanted bm skip i"
proof -
  assume "next_active_spec bm cursor skip = Some i"
  then have "i \<in> set ([cursor mod MAX_UE..<MAX_UE] @ [0..<cursor mod MAX_UE]) \<and> wanted bm skip i"
    unfolding next_active_spec_def find_Some_iff by (metis nth_mem)
  moreover have "cursor mod MAX_UE < MAX_UE" by simp
  ultimately show ?thesis by auto
qed

lemma ue_bit_mark:
  assumes "length bm = SHAPER_UE_BITMAP_WORDS" "i < MAX_UE"
  shows "ue_bit (shaper_mark_ue_active bm i) j \<longleftrightarrow> j = i \<or> ue_bit bm j"
proof (cases "j div 64 = i div 64")
  case True
  have "j = i \<longleftrightarrow> j mod 64 = i mod 64" using True by (metis div_mult_mod_eq)
  moreover have "i div 64 < length bm" using assms by simp
  ultimately show ?thesis
    using True by (auto simp: ue_bit_def shaper_mark_ue_active_def bit_or_iff bit_exp_iff)
next
  case False
  then show ?thesis by (auto simp: ue_bit_def shaper_mark_ue_active_def)
qed

lemma ue_bit_clear:
  assumes "length bm = SHAPER_UE_BITMAP_WORDS" "i < MAX_UE"
  shows "ue_bit (shaper_clear_ue_active bm i) j \<longleftrightarrow> j \<noteq> i \<and> ue_bit bm j"
proof (cases "j div 64 = i div 64")
  case True
  have "j = i \<longleftrightarrow> j mod 64 = i mod 64" using True by (metis div_mult_mod_eq)
  moreover have "i div 64 < length bm" using assms by simp
  ultimately show ?thesis
    using True
    by (auto simp: ue_bit_def shaper_clear_ue_active_def bit_and_iff bit_not_iff bit_exp_iff)
next
  case False
  then show ?thesis by (auto simp: ue_bit_def shaper_clear_ue_active_def)
qed

lemma bitmap_length [simp]:
  "length (shaper_mark_ue_active bm i) = length bm"
  "length (shaper_clear_ue_active bm i) = length bm"
  by (simp_all add: shaper_mark_ue_active_def shaper_clear_ue_active_def)

subsection \<open>Properties\<close>

text \<open>
  C23. \<^verbatim>\<open>shaper_next_active_ue\<close> (masks, two passes over 64-bit words, count-trailing-zeros)
  returns the first UE at or after the cursor, in circular order, whose bit is set and whose
  skip bit is clear, moves the cursor just past it, and returns -1 with the cursor unchanged
  exactly when no UE qualifies.
\<close>

theorem shaper_next_active_ue_correct:
  "shaper_next_active_ue bm cursor skip =
     (case find (wanted bm skip) ([cursor mod MAX_UE..<MAX_UE] @ [0..<cursor mod MAX_UE]) of
        None \<Rightarrow> (cursor, -1) | Some i \<Rightarrow> ((i + 1) mod MAX_UE, int i))"
  by (simp only: next_active_refines next_active_spec_def)

end
