(* ===== verification/Shaper_Enqueue.thy ===== *)
theory Shaper_Enqueue
  imports Shaper Active_Ue
begin

text \<open>
  Admission of a downlink packet to the shaper, \<^verbatim>\<open>shape_or_enqueue_packet\<close> of
  \<^verbatim>\<open>5gc/upf_u/upf_u.c\<close>, over the state of all UE shapers, the active-UE bitmap, the token
  buckets and the drop counters. The entry pool is DPDK's: whether it exists and whether
  \<^verbatim>\<open>rte_mempool_get\<close> succeeds are inputs. \<open>clk i\<close> is the clock value the \<open>i\<close>-th read of the
  call returns.
\<close>

record shaper_counters =
  c_queued :: u64
  c_drained :: u64
  c_drop_invalid :: u64
  c_drop_red :: u64
  c_drop_green_overflow :: u64
  c_drop_yellow_overflow :: u64
  c_drop_nqos_overflow :: u64
  c_drop_flow_table_full :: u64
  c_drop_flow_queue_full :: u64
  c_drop_ue_queue_full :: u64
  c_drop_mempool_empty :: u64

record shaper_state =
  g_ue_shaper :: "ue_shaper list"
  ue_bitmap :: "u64 list"
  ue_cursor :: nat
  tokens :: ue_state
  counters :: shaper_counters
  refcnt :: "mbuf \<Rightarrow> int"
  pkt_meta :: "mbuf \<Rightarrow> onvm_pkt_meta"

text \<open>\<^verbatim>\<open>shaper_init_state\<close>; it leaves the queues as they are.\<close>

definition shaper_init_state :: "shaper_state \<Rightarrow> shaper_state" where
  "shaper_init_state s = s
     \<lparr>ue_bitmap := replicate SHAPER_UE_BITMAP_WORDS 0, ue_cursor := 0,
      g_ue_shaper := map (\<lambda>u. u \<lparr>active := (\<lambda>_. []), next_excess_list := SHAPER_ACTIVE_GBR_QOS\<rparr>)
        (g_ue_shaper s)\<rparr>"

definition shaper_count_overflow :: "shaper_pkt_color \<Rightarrow> shaper_counters \<Rightarrow> shaper_counters" where
  "shaper_count_overflow color c =
     (if color = SHAPER_COLOR_GREEN then c \<lparr>c_drop_green_overflow := c_drop_green_overflow c + 1\<rparr>
      else if color = SHAPER_COLOR_YELLOW then c \<lparr>c_drop_yellow_overflow := c_drop_yellow_overflow c + 1\<rparr>
      else c \<lparr>c_drop_nqos_overflow := c_drop_nqos_overflow c + 1\<rparr>)"

fun shaper_service_can_fit :: "ue_state \<Rightarrow> int \<Rightarrow> shaper_service \<Rightarrow> u32 \<Rightarrow> u32 \<Rightarrow> bool" where
  "shaper_service_can_fit t ue_idx SHAPER_SERVICE_SESSION_AMBR qid len =
     sessionAmbrCanFitPacket t ue_idx len"
| "shaper_service_can_fit t ue_idx SHAPER_SERVICE_GBR_GUARANTEED qid len =
     gbrGuaranteedCanFitPacket t ue_idx qid len"
| "shaper_service_can_fit t ue_idx SHAPER_SERVICE_GBR_EXCESS qid len =
     gbrExcessCanFitPacket t ue_idx qid len"
| "shaper_service_can_fit t ue_idx SHAPER_SERVICE_COUNT qid len = False"

fun shaper_consume_service ::
  "u64 \<Rightarrow> u64 \<Rightarrow> ue_state \<Rightarrow> int \<Rightarrow> shaper_service \<Rightarrow> u32 \<Rightarrow> u32 \<Rightarrow> ue_state \<times> bool" where
  "shaper_consume_service hz now t ue_idx SHAPER_SERVICE_SESSION_AMBR qid len =
     consume_session_ambr hz now t ue_idx len"
| "shaper_consume_service hz now t ue_idx SHAPER_SERVICE_GBR_GUARANTEED qid len =
     consume_gbr_guaranteed hz now t ue_idx qid len"
| "shaper_consume_service hz now t ue_idx SHAPER_SERVICE_GBR_EXCESS qid len =
     consume_gbr_excess hz now t ue_idx qid len"
| "shaper_consume_service hz now t ue_idx SHAPER_SERVICE_COUNT qid len = (t, False)"

definition shaper_packet_can_fit :: "ue_state \<Rightarrow> int \<Rightarrow> bool \<Rightarrow> u32 \<Rightarrow> u32 \<Rightarrow> bool" where
  "shaper_packet_can_fit t ue_idx gbr qid len =
     (if gbr then gbrExcessCanFitPacket t ue_idx qid len else sessionAmbrCanFitPacket t ue_idx len)"

definition shaper_consume_fast_path ::
  "u64 \<Rightarrow> u64 \<Rightarrow> u64 \<Rightarrow> ue_state \<Rightarrow> int \<Rightarrow> bool \<Rightarrow> u32 \<Rightarrow> u32 \<Rightarrow> ue_state \<times> bool" where
  "shaper_consume_fast_path hz now now' t ue_idx gbr qid len =
     (if \<not> gbr then consume_session_ambr hz now t ue_idx len
      else case consume_gbr_guaranteed hz now t ue_idx qid len of
        (t', True) \<Rightarrow> (t', True)
      | (t', False) \<Rightarrow> consume_gbr_excess hz now' t' ue_idx qid len)"

definition drop_counted ::
  "shaper_state \<Rightarrow> onvm_pkt_meta \<Rightarrow> (shaper_counters \<Rightarrow> shaper_counters) \<Rightarrow>
   shaper_state \<times> onvm_pkt_meta \<times> shaper_decision" where
  "drop_counted s meta f =
     (s \<lparr>counters := f (counters s)\<rparr>, meta \<lparr>m_action := ONVM_NF_ACTION_DROP\<rparr>, SHAPER_DROP)"

text \<open>
  The second half of \<^verbatim>\<open>shape_or_enqueue_packet\<close>, once a flow slot \<open>i\<close> is known (lines from the
  second policy update on). \<open>get\<close> is the success of \<^verbatim>\<open>rte_mempool_get\<close>.
\<close>

definition set_ue :: "shaper_state \<Rightarrow> nat \<Rightarrow> ue_shaper \<Rightarrow> shaper_state" where
  "set_ue s n u = s \<lparr>g_ue_shaper := (g_ue_shaper s)[n := u]\<rparr>"

definition enqueue_on_flow ::
  "(nat \<Rightarrow> u64) \<Rightarrow> bool \<Rightarrow> shaper_state \<Rightarrow> nat \<Rightarrow> ue_shaper \<Rightarrow> nat \<Rightarrow> bool \<Rightarrow> u32 \<Rightarrow>
   shaper_pkt_color \<Rightarrow> mbuf \<Rightarrow> u32 \<Rightarrow> onvm_pkt_meta \<Rightarrow>
   shaper_state \<times> onvm_pkt_meta \<times> shaper_decision" where
  "enqueue_on_flow clk get s n u i gbr qid color pkt len meta =
     (let u = shaper_update_flow_policy (clk 3) u i gbr qid in
      if unat (queued_pkts (flows u ! i)) \<ge> SHAPER_MAX_PKTS_PER_FLOW then
        drop_counted (set_ue s n u) meta (\<lambda>c. shaper_count_overflow color
          (c \<lparr>c_drop_flow_queue_full := c_drop_flow_queue_full c + 1\<rparr>))
      else if unat (ue_queued_pkts u) \<ge> SHAPER_MAX_PKTS_PER_UE then
        (let u = (if queued_pkts (flows u ! i) = 0 then shaper_release_empty_flow u i else u)
         in drop_counted (set_ue s n u) meta (\<lambda>c. shaper_count_overflow color
              (c \<lparr>c_drop_ue_queue_full := c_drop_ue_queue_full c + 1\<rparr>)))
      else if \<not> get then
        (let u = (if queued_pkts (flows u ! i) = 0 then shaper_release_empty_flow u i else u)
         in drop_counted (set_ue s n u) meta (\<lambda>c. shaper_count_overflow color
              (c \<lparr>c_drop_mempool_empty := c_drop_mempool_empty c + 1\<rparr>)))
      else
        (let e = \<lparr>e_pkt = pkt, e_pkt_len = len, e_destination = m_destination meta, e_color = color\<rparr>;
             u = append_entry u i e;
             u = (if queued_pkts (flows u ! i) = 1 then shaper_activate_flow (clk 4) u i else u);
             s = set_ue s n u;
             s = s \<lparr>refcnt := (refcnt s)(pkt := refcnt s pkt + 1),
                    ue_bitmap := shaper_mark_ue_active (ue_bitmap s) n,
                    counters := (counters s) \<lparr>c_queued := c_queued (counters s) + 1\<rparr>\<rparr>
         in (s, meta \<lparr>m_action := ONVM_NF_ACTION_DROP\<rparr>, SHAPER_QUEUED)))"

definition shape_or_enqueue_packet ::
  "u64 \<Rightarrow> (nat \<Rightarrow> u64) \<Rightarrow> bool \<Rightarrow> bool \<Rightarrow> shaper_state \<Rightarrow> int \<Rightarrow> shaper_flow_key option \<Rightarrow> bool \<Rightarrow>
   u32 \<Rightarrow> shaper_pkt_color \<Rightarrow> (mbuf \<times> u32) option \<Rightarrow> u32 \<Rightarrow> onvm_pkt_meta \<Rightarrow>
   shaper_state \<times> onvm_pkt_meta \<times> shaper_decision" where
  "shape_or_enqueue_packet hz clk pool get s ue_idx k gbr qid color pkt pkt_len meta =
     (case (pkt, k) of
        (Some (p, mbuf_len), Some k) \<Rightarrow>
          if \<not> pool then drop_counted s meta (shaper_count_overflow color)
          else
            (let len = (if pkt_len = 0 then mbuf_len else pkt_len) in
             if len = 0 \<or> \<not> shaper_packet_can_fit (tokens s) ue_idx gbr qid len then
               drop_counted s meta (\<lambda>c. c \<lparr>c_drop_invalid := c_drop_invalid c + 1\<rparr>)
             else
               (let n = nat ue_idx; u = g_ue_shaper s ! n in
                case shaper_lookup_flow u k False of
                  (u, Some i) \<Rightarrow>
                    enqueue_on_flow clk get s n (shaper_update_flow_policy (clk 0) u i gbr qid) i
                      gbr qid color p len meta
                | (u, None) \<Rightarrow>
                    (case shaper_consume_fast_path hz (clk 1) (clk 2) (tokens s) ue_idx gbr qid len of
                       (t, True) \<Rightarrow> (s \<lparr>tokens := t\<rparr>, meta, SHAPER_PASS)
                     | (t, False) \<Rightarrow>
                         (let s = s \<lparr>tokens := t\<rparr> in
                          case shaper_lookup_flow u k True of
                            (u, None) \<Rightarrow>
                              drop_counted s meta (\<lambda>c. shaper_count_overflow color
                                (c \<lparr>c_drop_flow_table_full := c_drop_flow_table_full c + 1\<rparr>))
                          | (u, Some i) \<Rightarrow>
                              enqueue_on_flow clk get s n u i gbr qid color p len meta))))
      | _ \<Rightarrow> drop_counted s meta (shaper_count_overflow color))"

subsection \<open>A flow that is ready to take a packet\<close>

definition ready :: "ue_shaper \<Rightarrow> nat \<Rightarrow> bool" where
  "ready u i \<longleftrightarrow> shaper_inv {i} u \<and> i < SHAPER_MAX_FLOWS_PER_UE \<and> in_use (flows u ! i) \<and>
     (if entries (flows u ! i) = [] then active_list (flows u ! i) = SHAPER_ACTIVE_NONE
      else settled (flows u ! i))"

lemma inv_settled_weaken:
  assumes "shaper_inv {i} u" "settled (flows u ! i)"
  shows "shaper_inv {} u"
  using assms by (auto simp: shaper_inv_def)

lemma ready_found:
  assumes "shaper_inv {} u" "i < SHAPER_MAX_FLOWS_PER_UE" "in_use (flows u ! i)"
  shows "ready u i"
  using assms shaper_inv_mono [of "{}" u "{i}"] by (auto simp: ready_def shaper_inv_def settled_def)

lemma ready_len: "ready u i \<Longrightarrow> i < length (flows u)"
  by (simp add: ready_def shaper_inv_def)

lemma ready_kd: "ready u i \<Longrightarrow> keys_distinct u"
  by (simp add: ready_def shaper_inv_def)

lemma queued_pkts_length:
  assumes "shaper_inv X u" "i < SHAPER_MAX_FLOWS_PER_UE"
  shows "unat (queued_pkts (flows u ! i)) = length (entries (flows u ! i))"
    and "queued_pkts (flows u ! i) = 0 \<longleftrightarrow> entries (flows u ! i) = []"
proof -
  have ok: "queued_pkts (flows u ! i) = of_nat (length (entries (flows u ! i)))"
    "length (entries (flows u ! i)) \<le> SHAPER_MAX_PKTS_PER_FLOW"
    using assms by (auto simp: shaper_inv_def flow_ok_def)
  then show "unat (queued_pkts (flows u ! i)) = length (entries (flows u ! i))"
    by (simp add: unsigned_of_nat take_bit_nat_eq_self)
  then show "queued_pkts (flows u ! i) = 0 \<longleftrightarrow> entries (flows u ! i) = []"
    by (metis length_0_conv unat_0_iff)
qed

lemma ue_queued_backlog:
  assumes "shaper_inv X u"
  shows "unat (ue_queued_pkts u) = backlog u"
  using assms by (simp add: shaper_inv_def unsigned_of_nat take_bit_nat_eq_self)

text \<open>A slot that is taken into use for a key no other flow has.\<close>

abbreviation fresh_flow :: "shaper_flow_key \<Rightarrow> shaper_flow" where
  "fresh_flow k \<equiv> zero_flow \<lparr>in_use := True, f_key := k, active_list := SHAPER_ACTIVE_NONE\<rparr>"

lemma fresh_keys:
  assumes "keys_distinct u"
    and "\<And>j. j < length (flows u) \<Longrightarrow> in_use (flows u ! j) \<Longrightarrow> f_key (flows u ! j) \<noteq> k"
  shows "keys_distinct (upd_flow u i (\<lambda>_. fresh_flow k))"
  unfolding keys_distinct_def upd_flow_simps length_list_update
proof (intro allI impI)
  fix a b assume ab: "a < length (flows u)" "b < length (flows u)"
    "in_use ((flows u)[i := fresh_flow k] ! a)" "in_use ((flows u)[i := fresh_flow k] ! b)"
    "f_key ((flows u)[i := fresh_flow k] ! a) = f_key ((flows u)[i := fresh_flow k] ! b)"
  show "a = b"
  proof (cases "a = i \<or> b = i")
    case True
    then show ?thesis
      using ab assms(2) [of a] assms(2) [of b] by (cases "a = b") auto
  next
    case False
    then show ?thesis using ab assms(1) by (auto simp: keys_distinct_def)
  qed
qed

lemma flow_queue_fresh:
  assumes kd: "keys_distinct u" and i: "i < length (flows u)" "\<not> in_use (flows u ! i)"
    and new: "\<And>j. j < length (flows u) \<Longrightarrow> in_use (flows u ! j) \<Longrightarrow> f_key (flows u ! j) \<noteq> k"
  shows "flow_queue (upd_flow u i (\<lambda>_. fresh_flow k)) = flow_queue u"
proof
  fix k'
  let ?v = "upd_flow u i (\<lambda>_. fresh_flow k)"
  have kd': "keys_distinct ?v" by (rule fresh_keys [OF kd new])
  show "flow_queue ?v k' = flow_queue u k'"
  proof (cases "\<exists>j<length (flows u). in_use (flows u ! j) \<and> f_key (flows u ! j) = k'")
    case True
    then obtain j where j: "j < length (flows u)" "in_use (flows u ! j)" "f_key (flows u ! j) = k'"
      by blast
    moreover from j have "j \<noteq> i" using i by blast
    ultimately show ?thesis using flow_queue_at [OF kd', of j] flow_queue_at [OF kd, of j] by simp
  next
    case False
    then have "flow_queue u k' = []" by (intro flow_queue_none) blast
    moreover have "flow_queue ?v k' = []"
    proof (cases "k' = k")
      case True
      then show ?thesis using flow_queue_at [OF kd', of i] i(1) by simp
    next
      case k': False
      have "f_key (flows ?v ! j) \<noteq> k'" if "j < length (flows ?v)" "in_use (flows ?v ! j)" for j
        using that False k' i by (cases "j = i") auto
      then show ?thesis by (rule flow_queue_none)
    qed
    ultimately show ?thesis by simp
  qed
qed

lemma ready_fresh:
  assumes inv: "shaper_inv {} u" and i: "i < SHAPER_MAX_FLOWS_PER_UE" "\<not> in_use (flows u ! i)"
    and new: "\<And>j. j < SHAPER_MAX_FLOWS_PER_UE \<Longrightarrow> in_use (flows u ! j) \<Longrightarrow> f_key (flows u ! j) \<noteq> k"
  shows "ready (upd_flow u i (\<lambda>_. fresh_flow k)) i"
    and "f_key (flows (upd_flow u i (\<lambda>_. fresh_flow k)) ! i) = k"
    and "flow_queue (upd_flow u i (\<lambda>_. fresh_flow k)) = flow_queue u"
proof -
  let ?v = "upd_flow u i (\<lambda>_. fresh_flow k)"
  have len: "length (flows u) = SHAPER_MAX_FLOWS_PER_UE" and kdu: "keys_distinct u"
    using inv by (simp_all add: shaper_inv_def)
  have zero: "flows u ! i = zero_flow" using inv i len by (auto simp: shaper_inv_def flow_ok_def)
  have "backlog ?v = backlog u" using backlog_replace [of i u ?v "fresh_flow k"] len i(1) zero by simp
  moreover have "lists_ok ?v"
    using inv zero len i(1) by (intro lists_ok_upd) (auto simp: shaper_inv_def)
  moreover have "flow_ok (fresh_flow k)" by (simp add: flow_ok_def zero_flow_def)
  then have "flow_ok (flows ?v ! j) \<and> (j \<notin> {i} \<longrightarrow> settled (flows ?v ! j))"
    if "j < SHAPER_MAX_FLOWS_PER_UE" for j
    using that inv len by (cases "j = i") (auto simp: shaper_inv_def)
  ultimately have "shaper_inv {i} ?v"
    using inv fresh_keys [OF kdu new] len by (simp add: shaper_inv_def)
  then show "ready ?v i" using i(1) len by (simp add: ready_def)
  show "f_key (flows ?v ! i) = k" using i(1) len by simp
  show "flow_queue ?v = flow_queue u" using kdu i new len by (intro flow_queue_fresh) auto
qed

lemma policy_ready:
  assumes r: "ready u i"
  shows "ready (shaper_update_flow_policy now u i gbr qid) i"
    and "flow_queue (shaper_update_flow_policy now u i gbr qid) = flow_queue u"
    and "f_key (flows (shaper_update_flow_policy now u i gbr qid) ! i) = f_key (flows u ! i)"
proof -
  let ?p = "shaper_update_flow_policy now u i gbr qid"
  note len = ready_len [OF r]
  have i: "i < SHAPER_MAX_FLOWS_PER_UE" "in_use (flows u ! i)" and inv: "shaper_inv {i} u"
    using r by (auto simp: ready_def)
  show rp: "ready ?p i"
  proof (cases "entries (flows u ! i) = []")
    case False
    then have "shaper_inv {} u" using r by (auto simp: ready_def intro: inv_settled_weaken)
    then have "shaper_inv {} ?p" by (rule policy_inv [OF _ i]) simp
    then show ?thesis using i len by (intro ready_found) (simp_all add: policy_flow)
  next
    case True
    then have none: "active_list (flows u ! i) = SHAPER_ACTIVE_NONE" using r by (simp add: ready_def)
    then have p: "?p = (if has_gbr (flows u ! i) = gbr \<and> qer_id (flows u ! i) = qid then u
        else upd_flow u i (\<lambda>flow. flow \<lparr>has_gbr := gbr, qer_id := qid\<rparr>))"
      by (simp add: shaper_update_flow_policy_def)
    have "shaper_inv {i} (upd_flow u i (\<lambda>flow. flow \<lparr>has_gbr := gbr, qer_id := qid\<rparr>))"
      using inv i len
      by (intro shaper_inv_same_queue [OF inv i(1) upd_flow_simps(1)] lists_ok_upd)
        (auto simp: shaper_inv_def flow_ok_def)
    then show ?thesis using r True none i len by (simp add: p ready_def)
  qed
  show "f_key (flows ?p ! i) = f_key (flows u ! i)" by (rule policy_flow(3) [OF len])
  show "flow_queue ?p = flow_queue u"
    using ready_kd [OF r] ready_kd [OF rp] by (intro flow_queue_cong) (simp_all add: policy_flow len)
qed

lemma activate_queue:
  assumes "keys_distinct u" "i < length (flows u)" "in_use (flows u ! i)" "entries (flows u ! i) \<noteq> []"
    and "keys_distinct (shaper_activate_flow now u i)"
  shows "flow_queue (shaper_activate_flow now u i) = flow_queue u"
  using assms by (intro flow_queue_cong) (auto simp: activate_flows nth_list_update)

lemma release_ready:
  assumes r: "ready u i" and es: "entries (flows u ! i) = []"
  shows "shaper_inv {} (shaper_release_empty_flow u i)"
    and "flow_queue (shaper_release_empty_flow u i) = flow_queue u"
proof -
  let ?v = "shaper_release_empty_flow u i"
  have i: "i < SHAPER_MAX_FLOWS_PER_UE" "in_use (flows u ! i)" and inv: "shaper_inv {i} u"
    using r by (auto simp: ready_def)
  note len = ready_len [OF r] and kd = ready_kd [OF r]
  have fl: "flows ?v = (flows u)[i := zero_flow]"
    using len by (simp add: shaper_release_empty_flow_def deactivate_flows)
  show inv': "shaper_inv {} ?v" using release_inv [OF inv i es] by simp
  then have kd': "keys_distinct ?v" by (simp add: shaper_inv_def)
  show "flow_queue ?v = flow_queue u"
  proof
    fix k
    show "flow_queue ?v k = flow_queue u k"
    proof (cases "\<exists>j<length (flows u). j \<noteq> i \<and> in_use (flows u ! j) \<and> f_key (flows u ! j) = k")
      case True
      then show ?thesis
        using flow_queue_at [OF kd] flow_queue_at [OF kd'] fl by (metis length_list_update nth_list_update_neq)
    next
      case False
      moreover have "j \<noteq> i \<and> flows ?v ! j = flows u ! j" if "in_use (flows ?v ! j)" for j
        using that len by (cases "j = i") (auto simp: fl)
      ultimately have "flow_queue ?v k = []"
        using fl by (intro flow_queue_none) (metis length_list_update)
      moreover have "flow_queue u k = []"
        using False flow_queue_at [OF kd len i(2)] es flow_queue_none [of u k] by (metis)
      ultimately show ?thesis by simp
    qed
  qed
qed

lemma append_ready:
  assumes r: "ready u i" and room: "length (entries (flows u ! i)) < SHAPER_MAX_PKTS_PER_FLOW"
      "backlog u < SHAPER_MAX_PKTS_PER_UE"
    and v: "v = (let a = append_entry u i e
      in if queued_pkts (flows a ! i) = 1 then shaper_activate_flow now a i else a)"
  shows "shaper_inv {} v"
    and "flow_queue v = (flow_queue u)(f_key (flows u ! i) := flow_queue u (f_key (flows u ! i)) @ [e])"
    and "backlog v = backlog u + 1"
proof -
  let ?a = "append_entry u i e"
  have i: "i < SHAPER_MAX_FLOWS_PER_UE" "in_use (flows u ! i)" and inv: "shaper_inv {i} u"
    using r by (auto simp: ready_def)
  note len = ready_len [OF r] and kd = ready_kd [OF r]
  have a: "shaper_inv {i} ?a" by (rule append_inv [OF inv i room]) auto
  have fa: "flows ?a ! i = (flows u ! i) \<lparr>entries := entries (flows u ! i) @ [e],
      queued_pkts := queued_pkts (flows u ! i) + 1, queued_bytes := queued_bytes (flows u ! i) + e_pkt_len e\<rparr>"
    and fl: "flows ?a = (flows u)[i := flows ?a ! i]"
    using len by (simp_all add: append_entry_def)
  have one: "queued_pkts (flows ?a ! i) = 1 \<longleftrightarrow> entries (flows u ! i) = []"
    using queued_pkts_length(2) [OF inv i(1)] by (simp add: fa)
  have kda: "keys_distinct ?a" using a by (simp add: shaper_inv_def)
  have qa: "flow_queue ?a = (flow_queue u)(f_key (flows u ! i) := flow_queue u (f_key (flows u ! i)) @ [e])"
    using flow_queue_replace [OF kd kda len i(2) fl] fa flow_queue_at [OF kd len i(2)] i(2) by simp
  have ba: "backlog ?a = backlog u + 1" using backlog_replace [OF len fl] fa by simp
  show inv': "shaper_inv {} v"
  proof (cases "entries (flows u ! i) = []")
    case True
    then show ?thesis
      using activate_inv [OF a i(1), of now] fa i(2) one by (simp add: v Let_def)
  next
    case False
    then have "shaper_inv {} u" using r by (auto simp: ready_def intro: inv_settled_weaken)
    then show ?thesis
      using append_inv [OF _ i room, of "{}" "{}" e] False one by (simp add: v Let_def)
  qed
  have len': "i < length (flows ?a)" using a i(1) by (simp add: shaper_inv_def)
  show "backlog v = backlog u + 1"
  proof (cases "entries (flows u ! i) = []")
    case True
    have "flows (shaper_activate_flow now ?a i) = (flows ?a)[i := (flows ?a ! i)
        \<lparr>active_list := shaper_active_list_for_head (flows ?a ! i), last_active_tsc := now\<rparr>]"
      using len' fa by (intro activate_flows) simp_all
    from backlog_replace [OF len' this] show ?thesis using True one ba by (simp add: v Let_def)
  next
    case False
    then show ?thesis using one ba by (simp add: v Let_def)
  qed
  show "flow_queue v = (flow_queue u)(f_key (flows u ! i) := flow_queue u (f_key (flows u ! i)) @ [e])"
  proof (cases "entries (flows u ! i) = []")
    case True
    then have va: "v = shaper_activate_flow now ?a i" using one by (simp add: v Let_def)
    have "flow_queue (shaper_activate_flow now ?a i) = flow_queue ?a"
      using kda len' fa i(2) inv' by (intro activate_queue) (simp_all add: va shaper_inv_def)
    then show ?thesis using va qa by simp
  next
    case False
    then show ?thesis using one qa by (simp add: v Let_def)
  qed
qed

subsection \<open>The whole operation\<close>

text \<open>
  The invariant of the shaper: every UE satisfies its own, and a UE with queued packets has
  its bit set, so that the drain loop finds it.
\<close>

definition shaper_state_inv :: "shaper_state \<Rightarrow> bool" where
  "shaper_state_inv s \<longleftrightarrow> length (g_ue_shaper s) = MAX_UE \<and>
     length (ue_bitmap s) = SHAPER_UE_BITMAP_WORDS \<and>
     (\<forall>n<MAX_UE. shaper_inv {} (g_ue_shaper s ! n) \<and>
        (0 < backlog (g_ue_shaper s ! n) \<longrightarrow> ue_bit (ue_bitmap s) n))"

abbreviation queue :: "shaper_state \<Rightarrow> nat \<Rightarrow> shaper_flow_key \<Rightarrow> shaper_entry list" where
  "queue s n \<equiv> flow_queue (g_ue_shaper s ! n)"

lemma flow_queue_backlog:
  assumes "keys_distinct u" "keys_distinct v" "flow_queue v = flow_queue u" "backlog u = 0"
    and "\<And>i. i < length (flows v) \<Longrightarrow> \<not> in_use (flows v ! i) \<Longrightarrow> entries (flows v ! i) = []"
  shows "backlog v = 0"
proof -
  have "entries (flows v ! i) = []" if "i < length (flows v)" for i
  proof (cases "in_use (flows v ! i)")
    case True
    then have e: "entries (flows v ! i) = flow_queue u (f_key (flows v ! i))"
      using flow_queue_at [OF assms(2) that] assms(3) by simp
    have "entries f = []" if "f \<in> set (flows u)" for f
      using assms(4) that by (auto simp: backlog_def)
    then have "flow_queue u k = []" for k
      unfolding flow_queue_def by (auto split: option.splits dest!: find_index_SomeD)
    then show ?thesis using e by simp
  qed (rule assms(5) [OF that])
  then show ?thesis by (auto simp: backlog_def in_set_conv_nth)
qed

lemma set_ue_inv:
  assumes inv: "shaper_state_inv s" and n: "n < MAX_UE" and u: "shaper_inv {} u"
    and q: "flow_queue u = queue s n"
  shows "shaper_state_inv (set_ue s n u)"
proof -
  have "backlog u = 0" if "backlog (g_ue_shaper s ! n) = 0"
  proof (rule flow_queue_backlog [OF _ _ q that])
    show "entries (flows u ! i) = []" if "i < length (flows u)" "\<not> in_use (flows u ! i)" for i
    proof -
      have "flow_ok (flows u ! i)" using u that by (simp add: shaper_inv_def)
      then have "flows u ! i = zero_flow" using that by (simp add: flow_ok_def)
      then show ?thesis by simp
    qed
  qed (use inv n u in \<open>auto simp: shaper_state_inv_def shaper_inv_def\<close>)
  then show ?thesis
    using inv n u by (auto simp: shaper_state_inv_def set_ue_def nth_list_update)
qed

lemma set_ue_queue:
  assumes "length (g_ue_shaper s) = MAX_UE" "n < MAX_UE"
  shows "queue (set_ue s n u) m = (if m = n then flow_queue u else queue s m)"
  using assms by (auto simp: set_ue_def)

lemma drop_counted_inv [simp]:
  "drop_counted s meta f = (s', meta', d) \<Longrightarrow>
     (shaper_state_inv s' \<longleftrightarrow> shaper_state_inv s) \<and> g_ue_shaper s' = g_ue_shaper s \<and>
     refcnt s' = refcnt s \<and> m_action meta' = ONVM_NF_ACTION_DROP \<and> d = SHAPER_DROP"
  by (auto simp: drop_counted_def shaper_state_inv_def)

text \<open>What the two outcomes of an enqueue attempt mean for the queues.\<close>

definition enqueue_effect ::
  "shaper_state \<Rightarrow> nat \<Rightarrow> shaper_flow_key \<Rightarrow> mbuf \<Rightarrow> u32 \<Rightarrow> shaper_pkt_color \<Rightarrow> onvm_pkt_meta \<Rightarrow>
   shaper_state \<Rightarrow> onvm_pkt_meta \<Rightarrow> shaper_decision \<Rightarrow> bool" where
  "enqueue_effect s n k p len color meta s' meta' d \<longleftrightarrow>
     shaper_state_inv s' \<and> m_action meta' = ONVM_NF_ACTION_DROP \<and>
     (\<forall>m. m \<noteq> n \<longrightarrow> g_ue_shaper s' ! m = g_ue_shaper s ! m) \<and>
     (case d of
        SHAPER_PASS \<Rightarrow> False
      | SHAPER_DROP \<Rightarrow> queue s' n = queue s n \<and> refcnt s' = refcnt s
      | SHAPER_QUEUED \<Rightarrow>
          queue s' n = (queue s n)(k := queue s n k @
            [\<lparr>e_pkt = p, e_pkt_len = len, e_destination = m_destination meta, e_color = color\<rparr>]) \<and>
          refcnt s' = (refcnt s)(p := refcnt s p + 1) \<and>
          length (queue s n k) < SHAPER_MAX_PKTS_PER_FLOW)"

lemma drop_set_ue_effect:
  assumes "shaper_state_inv s" "n < MAX_UE" "shaper_inv {} u" "flow_queue u = queue s n"
    and "drop_counted (set_ue s n u) meta f = (s', meta', d)"
  shows "enqueue_effect s n k p len color meta s' meta' d"
proof -
  have len: "length (g_ue_shaper s) = MAX_UE" using assms(1) by (simp add: shaper_state_inv_def)
  show ?thesis
    using drop_counted_inv [OF assms(5)] set_ue_inv [OF assms(1-4)] set_ue_queue [OF len assms(2), of u n] assms(4)
    by (auto simp: enqueue_effect_def set_ue_def)
qed

lemma released_or_settled:
  assumes r: "ready u i"
  shows "shaper_inv {} (if queued_pkts (flows u ! i) = 0 then shaper_release_empty_flow u i else u)"
    and "flow_queue (if queued_pkts (flows u ! i) = 0 then shaper_release_empty_flow u i else u)
      = flow_queue u"
proof -
  have "queued_pkts (flows u ! i) = 0 \<longleftrightarrow> entries (flows u ! i) = []"
    using r queued_pkts_length(2) [of "{i}" u i] by (simp add: ready_def)
  then show "shaper_inv {} (if queued_pkts (flows u ! i) = 0 then shaper_release_empty_flow u i else u)"
    and "flow_queue (if queued_pkts (flows u ! i) = 0 then shaper_release_empty_flow u i else u)
      = flow_queue u"
    using release_ready [OF r] r inv_settled_weaken [of i u] by (auto simp: ready_def)
qed

lemma queued_effect:
  assumes inv: "shaper_state_inv s" and n: "n < MAX_UE" and r: "ready u i"
    and q: "flow_queue u = queue s n" and k: "f_key (flows u ! i) = k"
    and room: "length (entries (flows u ! i)) < SHAPER_MAX_PKTS_PER_FLOW"
      "backlog u < SHAPER_MAX_PKTS_PER_UE"
    and e: "e = \<lparr>e_pkt = p, e_pkt_len = len, e_destination = m_destination meta, e_color = color\<rparr>"
    and v: "v = (let a = append_entry u i e
      in if queued_pkts (flows a ! i) = 1 then shaper_activate_flow now a i else a)"
  shows "enqueue_effect s n k p len color meta
    (set_ue s n v \<lparr>refcnt := (refcnt s)(p := refcnt s p + 1),
        ue_bitmap := shaper_mark_ue_active (ue_bitmap s) n, counters := c\<rparr>)
    (meta \<lparr>m_action := ONVM_NF_ACTION_DROP\<rparr>) SHAPER_QUEUED"
proof -
  note a = append_ready [OF r room v]
  have lens: "length (g_ue_shaper s) = MAX_UE" "length (ue_bitmap s) = SHAPER_UE_BITMAP_WORDS"
    using inv by (simp_all add: shaper_state_inv_def)
  have "flow_queue u k = entries (flows u ! i)"
    using flow_queue_at [OF ready_kd [OF r] ready_len [OF r]] r k by (auto simp: ready_def)
  moreover have "shaper_state_inv (set_ue s n v \<lparr>refcnt := (refcnt s)(p := refcnt s p + 1),
        ue_bitmap := shaper_mark_ue_active (ue_bitmap s) n, counters := c\<rparr>)"
    using inv n a(1) lens
    by (auto simp: shaper_state_inv_def set_ue_def nth_list_update ue_bit_mark)
  ultimately show ?thesis
    using a(2) q k n lens room(1) e by (auto simp: enqueue_effect_def set_ue_def)
qed

lemma enqueue_on_flow_effect:
  assumes inv: "shaper_state_inv s" and n: "n < MAX_UE" and r: "ready u i"
    and q: "flow_queue u = queue s n" and k: "f_key (flows u ! i) = k"
    and res: "enqueue_on_flow clk get s n u i gbr qid color p len meta = (s', meta', d)"
  shows "enqueue_effect s n k p len color meta s' meta' d"
proof -
  define v where "v = shaper_update_flow_policy (clk 3) u i gbr qid"
  note v = policy_ready [OF r, of "clk 3" gbr qid, folded v_def]
  have vi: "shaper_inv {i} v" "i < SHAPER_MAX_FLOWS_PER_UE" using v(1) by (auto simp: ready_def)
  have qv: "flow_queue v = queue s n" using v(2) q by simp
  note ql = queued_pkts_length [OF vi] and bl = ue_queued_backlog [OF vi(1)]
  note res = res [unfolded enqueue_on_flow_def Let_def, folded v_def]
  note rel = released_or_settled [OF v(1)]
  consider (full) "SHAPER_MAX_PKTS_PER_FLOW \<le> length (entries (flows v ! i))"
    | (uefull) "length (entries (flows v ! i)) < SHAPER_MAX_PKTS_PER_FLOW"
        "SHAPER_MAX_PKTS_PER_UE \<le> backlog v"
    | (nopool) "length (entries (flows v ! i)) < SHAPER_MAX_PKTS_PER_FLOW"
        "backlog v < SHAPER_MAX_PKTS_PER_UE" "\<not> get"
    | (room) "length (entries (flows v ! i)) < SHAPER_MAX_PKTS_PER_FLOW"
        "backlog v < SHAPER_MAX_PKTS_PER_UE" get
    by linarith
  then show ?thesis
  proof cases
    case full
    then have "shaper_inv {} v"
      using v(1) by (auto simp: ready_def intro: inv_settled_weaken split: if_splits)
    then show ?thesis
      using res full ql(1) by (intro drop_set_ue_effect [OF inv n _ qv]) simp_all
  next
    case uefull
    then show ?thesis
      using res ql(1) bl by (intro drop_set_ue_effect [OF inv n rel(1)]) (simp_all add: rel(2) qv)
  next
    case nopool
    then show ?thesis
      using res ql(1) bl by (intro drop_set_ue_effect [OF inv n rel(1)]) (simp_all add: rel(2) qv)
  next
    case room
    let ?e = "\<lparr>e_pkt = p, e_pkt_len = len, e_destination = m_destination meta, e_color = color\<rparr>"
    define a where "a = append_entry v i ?e"
    define w where "w = (if queued_pkts (flows a ! i) = 1 then shaper_activate_flow (clk 4) a i else a)"
    have w: "w = (let a = append_entry v i ?e
        in if queued_pkts (flows a ! i) = 1 then shaper_activate_flow (clk 4) a i else a)"
      by (simp add: w_def a_def Let_def)
    have "s' = set_ue s n w \<lparr>refcnt := (refcnt s)(p := refcnt s p + 1),
        ue_bitmap := shaper_mark_ue_active (ue_bitmap s) n,
        counters := (counters s) \<lparr>c_queued := c_queued (counters s) + 1\<rparr>\<rparr>"
      "meta' = meta \<lparr>m_action := ONVM_NF_ACTION_DROP\<rparr>" "d = SHAPER_QUEUED"
      using res room ql(1) bl
      by (simp_all only: a_def [symmetric] w_def [symmetric]) (auto simp: set_ue_def)
    then show ?thesis
      using queued_effect [OF inv n v(1) qv _ room(1,2) refl w, of k] v(3) k by simp
  qed
qed

lemma can_fit_index:
  assumes "shaper_packet_can_fit t ue_idx gbr qid len"
  shows "nat ue_idx < MAX_UE" "0 \<le> ue_idx"
  using assms
  by (auto simp: shaper_packet_can_fit_def gbrExcessCanFitPacket_def sessionAmbrCanFitPacket_def
      split: if_splits)

lemma effect_tokens:
  "enqueue_effect (s \<lparr>tokens := t\<rparr>) n k p len color meta s' meta' d
     = enqueue_effect s n k p len color meta s' meta' d"
  by (cases d) (simp_all add: enqueue_effect_def)

lemma state_inv_tokens [simp]: "shaper_state_inv (s \<lparr>tokens := t\<rparr>) = shaper_state_inv s"
  by (simp add: shaper_state_inv_def)

text \<open>The cases of the operation on a packet that the guards let through.\<close>

lemma shape_or_enqueue_effect:
  assumes inv: "shaper_state_inv s"
    and fit: "shaper_packet_can_fit (tokens s) ue_idx gbr qid len" "len \<noteq> 0"
    and len: "len = (if pkt_len = 0 then mbuf_len else pkt_len)"
    and res: "shape_or_enqueue_packet hz clk True get s ue_idx (Some k) gbr qid color
      (Some (p, mbuf_len)) pkt_len meta = (s', meta', d)"
  shows "(d = SHAPER_PASS \<and> queue s (nat ue_idx) k = [] \<and> meta' = meta \<and> shaper_state_inv s' \<and>
      g_ue_shaper s' = g_ue_shaper s \<and> refcnt s' = refcnt s) \<or>
    enqueue_effect s (nat ue_idx) k p len color meta s' meta' d"
proof -
  let ?n = "nat ue_idx" and ?u = "g_ue_shaper s ! nat ue_idx"
  have n: "?n < MAX_UE" using can_fit_index [OF fit(1)] by simp
  have u: "shaper_inv {} ?u" and sl: "length (g_ue_shaper s) = MAX_UE"
    using inv n by (auto simp: shaper_state_inv_def)
  obtain v r where lk: "shaper_lookup_flow ?u k False = (v, r)" by fastforce
  from lk show ?thesis
  proof (cases rule: lookup_cases)
    case (found i)
    let ?w = "shaper_update_flow_policy (clk 0) ?u i gbr qid"
    have rd: "ready ?u i" using ready_found [OF u] found by simp
    have "enqueue_on_flow clk get s ?n ?w i gbr qid color p len meta = (s', meta', d)"
      using res fit lk found by (simp add: shape_or_enqueue_packet_def len Let_def)
    then show ?thesis
      using enqueue_on_flow_effect [OF inv n policy_ready(1) [OF rd, of "clk 0" gbr qid]]
        policy_ready(2,3) [OF rd] found by simp
  next
    case fresh
    then show ?thesis by simp
  next
    case none
    have "flow_queue ?u k = []"
      using none(3) u by (intro flow_queue_none) (simp add: shaper_inv_def)
    moreover obtain t ok where fp:
      "shaper_consume_fast_path hz (clk 1) (clk 2) (tokens s) ue_idx gbr qid len = (t, ok)" by fastforce
    ultimately show ?thesis
    proof (cases ok)
      case True
      then show ?thesis
        using res fit lk none fp inv \<open>flow_queue ?u k = []\<close>
        by (auto simp: shape_or_enqueue_packet_def len [symmetric] Let_def)
    next
      case False
      let ?s = "s \<lparr>tokens := t\<rparr>"
      obtain w r' where lk': "shaper_lookup_flow ?u k True = (w, r')" by fastforce
      from lk' show ?thesis
      proof (cases rule: lookup_cases)
        case (found i)
        then show ?thesis using none(3) [of i] by simp
      next
        case none': none
        then have "drop_counted ?s meta (\<lambda>c. shaper_count_overflow color
            (c \<lparr>c_drop_flow_table_full := c_drop_flow_table_full c + 1\<rparr>)) = (s', meta', d)"
          using res fit lk none fp False lk'
          by (simp add: shape_or_enqueue_packet_def len [symmetric] Let_def)
        from drop_counted_inv [OF this] inv show ?thesis by (simp add: enqueue_effect_def)
      next
        case (fresh i)
        note rf = ready_fresh [OF u fresh(3-5), folded fresh(6)]
        have "enqueue_on_flow clk get ?s ?n w i gbr qid color p len meta = (s', meta', d)"
          using res fit lk none fp False lk' fresh
          by (simp add: shape_or_enqueue_packet_def len [symmetric] Let_def)
        from enqueue_on_flow_effect [OF _ n rf(1) _ rf(2) this] inv rf(3) show ?thesis
          by (simp add: effect_tokens)
      qed
    qed
  qed
qed

subsection \<open>Properties\<close>

text \<open>
  C15. Admission to the shaper. \<^verbatim>\<open>shape_or_enqueue_packet\<close> keeps the invariant of all UE shapers
  (per-flow and per-UE limits, counters, active lists, bitmap) and touches no other UE. A
  packet passes at once only if its flow has nothing queued, so it never overtakes an earlier
  packet of its flow; a queued packet is appended to the FIFO of its flow with its length and
  destination, holds a reference to its mbuf, and the caller is told to drop its own; a
  rejected packet leaves every queue as it was.
\<close>

theorem shape_or_enqueue_packet_correct:
  fixes ue_idx :: int
  defines "n \<equiv> nat ue_idx"
  assumes inv: "shaper_state_inv s"
    and res: "shape_or_enqueue_packet hz clk pool get s ue_idx (Some k) gbr qid color
      (Some (p, mbuf_len)) pkt_len meta = (s', meta', d)"
  shows "shaper_state_inv s' \<and> (\<forall>m. m \<noteq> n \<longrightarrow> queue s' m = queue s m) \<and>
    (case d of
       SHAPER_PASS \<Rightarrow> queue s n k = [] \<and> queue s' n = queue s n \<and> meta' = meta \<and> refcnt s' = refcnt s
     | SHAPER_QUEUED \<Rightarrow>
         queue s' n = (queue s n)(k := queue s n k @
           [\<lparr>e_pkt = p, e_pkt_len = (if pkt_len = 0 then mbuf_len else pkt_len),
             e_destination = m_destination meta, e_color = color\<rparr>]) \<and>
         refcnt s' = (refcnt s)(p := refcnt s p + 1) \<and> m_action meta' = ONVM_NF_ACTION_DROP
     | SHAPER_DROP \<Rightarrow>
         queue s' n = queue s n \<and> refcnt s' = refcnt s \<and> m_action meta' = ONVM_NF_ACTION_DROP)"
proof -
  let ?len = "if pkt_len = 0 then mbuf_len else pkt_len"
  show ?thesis
  proof (cases "pool \<and> ?len \<noteq> 0 \<and> shaper_packet_can_fit (tokens s) ue_idx gbr qid ?len")
    case True
    then have pool by simp
    have "(d = SHAPER_PASS \<and> queue s n k = [] \<and> meta' = meta \<and> shaper_state_inv s' \<and>
        g_ue_shaper s' = g_ue_shaper s \<and> refcnt s' = refcnt s) \<or>
      enqueue_effect s n k p ?len color meta s' meta' d"
      using True res \<open>pool\<close> unfolding n_def
      by (intro shape_or_enqueue_effect [OF inv _ _ refl]) auto
    then show ?thesis
      by (cases d) (auto simp: enqueue_effect_def)
  next
    case False
    then obtain f where "drop_counted s meta f = (s', meta', d)"
      using res by (auto simp: shape_or_enqueue_packet_def Let_def split: if_splits)
    from drop_counted_inv [OF this] inv show ?thesis by simp
  qed
qed

text \<open>An idle shaper whose UE 0 has a Session-AMBR of 8 Mbps.\<close>

definition idle_shaper :: shaper_state where
  "idle_shaper = \<lparr>g_ue_shaper = replicate MAX_UE zero_ue_shaper,
     ue_bitmap = replicate SHAPER_UE_BITMAP_WORDS 0, ue_cursor = 0, tokens = one_ue,
     counters = \<lparr>c_queued = 0, c_drained = 0, c_drop_invalid = 0, c_drop_red = 0,
       c_drop_green_overflow = 0, c_drop_yellow_overflow = 0, c_drop_nqos_overflow = 0,
       c_drop_flow_table_full = 0, c_drop_flow_queue_full = 0, c_drop_ue_queue_full = 0,
       c_drop_mempool_empty = 0\<rparr>,
     refcnt = (\<lambda>_. 1),
     pkt_meta = (\<lambda>_. \<lparr>m_action = 0, m_destination = 0, m_src = 0, m_chain_index = 0, m_flags = 0\<rparr>)\<rparr>"

lemma idle_refcnt: "refcnt idle_shaper p = 1"
  by (simp add: idle_shaper_def)

lemma idle_shaper_inv: "shaper_state_inv idle_shaper"
  using zero_ue_shaper_inv
  by (simp add: shaper_state_inv_def idle_shaper_def) (simp add: zero_ue_shaper_def backlog_def
      map_replicate_const sum_list_replicate)

lemma shape_or_enqueue_packet_correct_witness:
  "\<exists>s' meta' d. shape_or_enqueue_packet 1000000000 (\<lambda>_. 5) True True idle_shaper 0 (Some zero_flow_key)
      False 0 SHAPER_COLOR_NQOS (Some (42, 1500)) 0 (pkt_meta idle_shaper 42) = (s', meta', d) \<and>
    shaper_state_inv s' \<and>
    (d = SHAPER_QUEUED \<longrightarrow> m_action meta' = ONVM_NF_ACTION_DROP \<and> refcnt s' 42 = 2)"
proof -
  obtain s' meta' d where res: "shape_or_enqueue_packet 1000000000 (\<lambda>_. 5) True True idle_shaper 0
      (Some zero_flow_key) False 0 SHAPER_COLOR_NQOS (Some (42, 1500)) 0 (pkt_meta idle_shaper 42)
      = (s', meta', d)"
    by (metis prod.collapse)
  from shape_or_enqueue_packet_correct [OF idle_shaper_inv res] show ?thesis
    by (intro exI [of _ s'] exI [of _ meta'] exI [of _ d]) (cases d; simp add: res idle_refcnt)
qed

end
