(* ===== verification/Shaper_Drain.thy ===== *)
theory Shaper_Drain
  imports Shaper_Enqueue
begin

text \<open>
  The scheduler that drains the shaper queues (\<^verbatim>\<open>shaper_drain_one_from_list_locked\<close> up to
  \<^verbatim>\<open>drain_shaper_queues\<close>, \<^verbatim>\<open>shaper_flush_ue\<close> and \<^verbatim>\<open>shaper_cleanup\<close> of \<^verbatim>\<open>5gc/upf_u/upf_u.c\<close>).
  \<open>drain_state\<close> is what one locked pass over a UE reads and writes: its queues, the token
  buckets, \<^verbatim>\<open>tx_buf[0..nb_tx)\<close>, the packets given to \<^verbatim>\<open>rte_pktmbuf_free\<close> and the packet
  metadata. The clock is read through \<open>clk\<close>, one value per read, counted by \<open>d_tick\<close>.

  The specification is a log of removals from the head of a queue, each marked as sent or
  discarded; the scheduler is shown to refine it.
\<close>

abbreviation DRAIN_CHUNK :: nat where "DRAIN_CHUNK \<equiv> 128"
abbreviation SHAPER_CLASS_BURST :: nat where "SHAPER_CLASS_BURST \<equiv> 16"
abbreviation SHAPER_SCAN_BUDGET :: nat where "SHAPER_SCAN_BUDGET \<equiv> 32"
abbreviation SHAPER_DRAIN_BUDGET :: nat where "SHAPER_DRAIN_BUDGET \<equiv> 128"

record drain_state =
  d_ue :: ue_shaper
  d_tokens :: ue_state
  d_tx :: "mbuf list"
  d_freed :: "mbuf list"
  d_meta :: "mbuf \<Rightarrow> onvm_pkt_meta"
  d_drained :: u64
  d_invalid :: u64
  d_tick :: nat

definition activate_d :: "(nat \<Rightarrow> u64) \<Rightarrow> nat \<Rightarrow> drain_state \<Rightarrow> drain_state" where
  "activate_d clk i d =
     d \<lparr>d_ue := shaper_activate_flow (clk (d_tick d)) (d_ue d) i, d_tick := d_tick d + 1\<rparr>"

definition resettle :: "(nat \<Rightarrow> u64) \<Rightarrow> nat \<Rightarrow> drain_state \<Rightarrow> drain_state" where
  "resettle clk i d =
     (if entries (flows (d_ue d) ! i) \<noteq> [] then activate_d clk i d
      else d \<lparr>d_ue := shaper_release_empty_flow (d_ue d) i\<rparr>)"

fun shaper_drain_one_from_list_locked ::
  "u64 \<Rightarrow> (nat \<Rightarrow> u64) \<Rightarrow> int \<Rightarrow> shaper_active_list_id \<Rightarrow> shaper_service \<Rightarrow> shaper_service \<Rightarrow>
   nat \<Rightarrow> drain_state \<Rightarrow> drain_state \<times> bool" where
  "shaper_drain_one_from_list_locked hz clk ue_idx l service alternate 0 d = (d, False)"
| "shaper_drain_one_from_list_locked hz clk ue_idx l service alternate (Suc attempts) d =
     (case active (d_ue d) l of
        [] \<Rightarrow> (d, False)
      | i # _ \<Rightarrow>
          (let d = d \<lparr>d_ue := shaper_deactivate_flow (d_ue d) i\<rparr>;
               flow = flows (d_ue d) ! i
           in case entries flow of
             [] \<Rightarrow>
               shaper_drain_one_from_list_locked hz clk ue_idx l service alternate attempts
                 (d \<lparr>d_ue := shaper_release_empty_flow (d_ue d) i\<rparr>)
           | e # _ \<Rightarrow>
               if \<not> shaper_service_can_fit (d_tokens d) ue_idx service (qer_id flow) (e_pkt_len e) then
                 if alternate \<noteq> SHAPER_SERVICE_COUNT \<and>
                    shaper_service_can_fit (d_tokens d) ue_idx alternate (qer_id flow) (e_pkt_len e)
                 then shaper_drain_one_from_list_locked hz clk ue_idx l service alternate attempts
                        (activate_d clk i d)
                 else
                   (let d = d \<lparr>d_ue := unlink_head (d_ue d) i, d_freed := d_freed d @ [e_pkt e],
                              d_invalid := d_invalid d + 1\<rparr>
                    in shaper_drain_one_from_list_locked hz clk ue_idx l service alternate attempts
                         (resettle clk i d))
               else
                 (let (t, ok) = shaper_consume_service hz (clk (d_tick d)) (d_tokens d) ue_idx service
                        (qer_id flow) (e_pkt_len e);
                      d = d \<lparr>d_tokens := t, d_tick := d_tick d + 1\<rparr>
                  in if \<not> ok then
                       shaper_drain_one_from_list_locked hz clk ue_idx l service alternate attempts
                         (activate_d clk i d)
                     else
                       (let m = (d_meta d (e_pkt e))
                              \<lparr>m_action := ONVM_NF_ACTION_OUT, m_destination := e_destination e\<rparr>;
                            d = d \<lparr>d_ue := unlink_head (d_ue d) i, d_meta := (d_meta d)(e_pkt e := m),
                                  d_tx := d_tx d @ [e_pkt e], d_drained := d_drained d + 1\<rparr>
                        in (resettle clk i d, True)))))"

text \<open>The loop \<^verbatim>\<open>while (sent < budget && active_count > 0)\<close>; the number counts down the budget.\<close>

fun shaper_drain_service_locked ::
  "u64 \<Rightarrow> (nat \<Rightarrow> u64) \<Rightarrow> int \<Rightarrow> shaper_active_list_id \<Rightarrow> shaper_service \<Rightarrow> shaper_service \<Rightarrow>
   nat \<Rightarrow> drain_state \<Rightarrow> drain_state \<times> nat" where
  "shaper_drain_service_locked hz clk ue_idx l service alternate 0 d = (d, 0)"
| "shaper_drain_service_locked hz clk ue_idx l service alternate (Suc budget) d =
     (if active_count (d_ue d) l = 0 then (d, 0)
      else case shaper_drain_one_from_list_locked hz clk ue_idx l service alternate
                  (unat (active_count (d_ue d) l)) d of
        (d, False) \<Rightarrow> (d, 0)
      | (d, True) \<Rightarrow>
          (let (d, sent) = shaper_drain_service_locked hz clk ue_idx l service alternate budget d
           in (d, Suc sent)))"

definition shaper_drain_gbr_locked ::
  "u64 \<Rightarrow> (nat \<Rightarrow> u64) \<Rightarrow> int \<Rightarrow> nat \<Rightarrow> drain_state \<Rightarrow> drain_state \<times> nat" where
  "shaper_drain_gbr_locked hz clk ue_idx budget d =
     shaper_drain_service_locked hz clk ue_idx SHAPER_ACTIVE_GBR_QOS
       SHAPER_SERVICE_GBR_GUARANTEED SHAPER_SERVICE_GBR_EXCESS budget d"

fun shaper_next_excess_list :: "shaper_active_list_id \<Rightarrow> shaper_active_list_id" where
  "shaper_next_excess_list SHAPER_ACTIVE_GBR_QOS = SHAPER_ACTIVE_NON_GBR_QOS"
| "shaper_next_excess_list SHAPER_ACTIVE_NON_GBR_QOS = SHAPER_ACTIVE_DEFAULT_NON_GBR"
| "shaper_next_excess_list _ = SHAPER_ACTIVE_GBR_QOS"

definition shaper_excess_service_for_list :: "shaper_active_list_id \<Rightarrow> shaper_service" where
  "shaper_excess_service_for_list l =
     (if l = SHAPER_ACTIVE_GBR_QOS then SHAPER_SERVICE_GBR_EXCESS else SHAPER_SERVICE_SESSION_AMBR)"

text \<open>The inner loop over the three lists, until one of them sends.\<close>

fun excess_attempts ::
  "u64 \<Rightarrow> (nat \<Rightarrow> u64) \<Rightarrow> int \<Rightarrow> nat \<Rightarrow> drain_state \<Rightarrow> drain_state \<times> nat" where
  "excess_attempts hz clk ue_idx 0 d = (d, 0)"
| "excess_attempts hz clk ue_idx (Suc attempts) d =
     (let l = next_excess_list (d_ue d);
          d = d \<lparr>d_ue := (d_ue d) \<lparr>next_excess_list := shaper_next_excess_list l\<rparr>\<rparr>
      in if active_count (d_ue d) l = 0 then excess_attempts hz clk ue_idx attempts d
         else
           (let service = shaper_excess_service_for_list l;
                alternate = (if l = SHAPER_ACTIVE_GBR_QOS then SHAPER_SERVICE_GBR_GUARANTEED
                             else SHAPER_SERVICE_COUNT);
                (d, n) = shaper_drain_service_locked hz clk ue_idx l service alternate 1 d
            in if n = 0 then excess_attempts hz clk ue_idx attempts d else (d, n)))"

fun shaper_drain_excess_locked ::
  "u64 \<Rightarrow> (nat \<Rightarrow> u64) \<Rightarrow> int \<Rightarrow> nat \<Rightarrow> drain_state \<Rightarrow> drain_state \<times> nat" where
  "shaper_drain_excess_locked hz clk ue_idx 0 d = (d, 0)"
| "shaper_drain_excess_locked hz clk ue_idx (Suc budget) d =
     (if \<not> (active_count (d_ue d) SHAPER_ACTIVE_GBR_QOS > 0 \<or>
            active_count (d_ue d) SHAPER_ACTIVE_NON_GBR_QOS > 0 \<or>
            active_count (d_ue d) SHAPER_ACTIVE_DEFAULT_NON_GBR > 0) then (d, 0)
      else
        (let (d, n) = excess_attempts hz clk ue_idx 3 d
         in if n = 0 then (d, 0)
            else
              (let (d, sent) = shaper_drain_excess_locked hz clk ue_idx (Suc budget - n) d
               in (d, n + sent))))"

text \<open>
  One iteration of the loop of \<^verbatim>\<open>drain_ue_shaper\<close>: guaranteed service, then excess service. The
  result is the number of packets sent and whether the loop goes on. Budgets are natural
  numbers; that no subtraction is cut off (wraps, in the source) is part of
  \<open>drain_round_bounds\<close> below.
\<close>

definition drain_round ::
  "u64 \<Rightarrow> (nat \<Rightarrow> u64) \<Rightarrow> int \<Rightarrow> nat \<Rightarrow> drain_state \<Rightarrow> drain_state \<times> nat \<times> bool" where
  "drain_round hz clk ue_idx budget d =
     (if \<not> (budget > 0 \<and> length (d_tx d) < DRAIN_CHUNK \<and> ue_queued_pkts (d_ue d) > 0)
      then (d, 0, False)
      else
        (let burst = min (min budget SHAPER_CLASS_BURST) (DRAIN_CHUNK - length (d_tx d)) in
         if burst = 0 then (d, 0, False)
         else
           (let (d1, n1) = shaper_drain_gbr_locked hz clk ue_idx burst d;
                budget1 = budget - n1
            in if n1 > 0 \<and> (budget1 = 0 \<or> length (d_tx d1) = DRAIN_CHUNK) then (d1, n1, False)
               else
                 (let burst = min (min budget1 SHAPER_CLASS_BURST) (DRAIN_CHUNK - length (d_tx d1)) in
                  if burst = 0 then (d1, n1, False)
                  else
                    (let (d2, n2) = shaper_drain_excess_locked hz clk ue_idx burst d1
                     in (d2, n1 + n2, n1 > 0 \<or> n2 > 0))))))"

lemma drain_round_progress:
  "drain_round hz clk ue_idx budget d = (d', n, True) \<Longrightarrow> 0 < budget \<and> 0 < n"
  by (auto simp: drain_round_def Let_def split: if_splits prod.splits)

function drain_loop ::
  "u64 \<Rightarrow> (nat \<Rightarrow> u64) \<Rightarrow> int \<Rightarrow> nat \<Rightarrow> nat \<Rightarrow> drain_state \<Rightarrow> drain_state \<times> nat" where
  "drain_loop hz clk ue_idx budget tot d =
     (case drain_round hz clk ue_idx budget d of
        (d', n, again) \<Rightarrow>
          if again then drain_loop hz clk ue_idx (budget - n) (tot + n) d' else (d', tot + n))"
  by pat_completeness auto
termination
proof (relation "measure (\<lambda>(hz, clk, ue_idx, budget, tot, d). budget)", goal_cases)
  case (2 hz clk ue_idx budget tot d d' y n again)
  then have "drain_round hz clk ue_idx budget d = (d', n, True)" by auto
  from drain_round_progress [OF this] show ?case by simp
qed simp

declare drain_loop.simps [simp del]

text \<open>
  \<^verbatim>\<open>drain_ue_shaper\<close>: the transmitted packets are returned in order (they are handed to the
  NF's transmit buffers); discarded packets lose the reference the shaper held.
\<close>

definition to_drain :: "shaper_state \<Rightarrow> nat \<Rightarrow> nat \<Rightarrow> drain_state" where
  "to_drain s n tick = \<lparr>d_ue = g_ue_shaper s ! n, d_tokens = tokens s, d_tx = [], d_freed = [],
     d_meta = pkt_meta s, d_drained = c_drained (counters s), d_invalid = c_drop_invalid (counters s),
     d_tick = tick\<rparr>"

definition from_drain :: "shaper_state \<Rightarrow> nat \<Rightarrow> drain_state \<Rightarrow> shaper_state" where
  "from_drain s n d = s
     \<lparr>g_ue_shaper := (g_ue_shaper s)[n := d_ue d], tokens := d_tokens d, pkt_meta := d_meta d,
      refcnt := (\<lambda>p. refcnt s p - int (count_list (d_freed d) p)),
      counters := (counters s) \<lparr>c_drained := d_drained d, c_drop_invalid := d_invalid d\<rparr>\<rparr>"

definition drain_ue_shaper ::
  "u64 \<Rightarrow> (nat \<Rightarrow> u64) \<Rightarrow> shaper_state \<Rightarrow> nat \<Rightarrow> int \<Rightarrow> bool \<Rightarrow> nat \<Rightarrow>
   shaper_state \<times> nat \<times> mbuf list \<times> nat" where
  "drain_ue_shaper hz clk s tick ue_idx nf budget =
     (if ue_idx < 0 \<or> ue_idx \<ge> int MAX_UE \<or> \<not> nf \<or> budget = 0 then (s, tick, [], 0)
      else
        (let n = nat ue_idx in
         if ue_queued_pkts (g_ue_shaper s ! n) = 0 then
           (s \<lparr>ue_bitmap := shaper_clear_ue_active (ue_bitmap s) n\<rparr>, tick, [], 0)
         else
           (let (d, tot) = drain_loop hz clk ue_idx budget 0 (to_drain s n tick);
                s = from_drain s n d;
                bm = (if ue_queued_pkts (d_ue d) = 0 then shaper_clear_ue_active (ue_bitmap s) n
                      else shaper_mark_ue_active (ue_bitmap s) n)
            in (s \<lparr>ue_bitmap := bm\<rparr>, d_tick d, d_tx d, tot))))"

text \<open>The loop of \<^verbatim>\<open>drain_shaper_queues_budget\<close> over the active UEs.\<close>

fun drain_visits ::
  "u64 \<Rightarrow> (nat \<Rightarrow> u64) \<Rightarrow> bool \<Rightarrow> nat \<Rightarrow> u64 list \<Rightarrow> nat \<Rightarrow> shaper_state \<Rightarrow> nat \<Rightarrow>
   shaper_state \<times> nat \<times> mbuf list \<times> nat" where
  "drain_visits hz clk nf 0 tried budget s tick = (s, tick, [], 0)"
| "drain_visits hz clk nf (Suc visits) tried budget s tick =
     (if budget = 0 then (s, tick, [], 0)
      else
        (let (cursor, ue_idx) = shaper_next_active_ue (ue_bitmap s) (ue_cursor s) (Some tried);
             s = s \<lparr>ue_cursor := cursor\<rparr>
         in if ue_idx < 0 then (s, tick, [], 0)
            else
              (let w = nat ue_idx div 64;
                   tried = tried[w := tried ! w OR push_bit (nat ue_idx mod 64) 1];
                   (s, tick, tx, drained) = drain_ue_shaper hz clk s tick ue_idx nf budget;
                   (s, tick, tx', tot) =
                     drain_visits hz clk nf visits tried (budget - drained) s tick
               in (s, tick, tx @ tx', drained + tot))))"

definition drain_shaper_queues_budget ::
  "u64 \<Rightarrow> (nat \<Rightarrow> u64) \<Rightarrow> bool \<Rightarrow> nat \<Rightarrow> shaper_state \<Rightarrow> shaper_state \<times> nat \<times> mbuf list \<times> nat" where
  "drain_shaper_queues_budget hz clk nf budget s =
     drain_visits hz clk nf SHAPER_SCAN_BUDGET (replicate SHAPER_UE_BITMAP_WORDS 0) budget s 0"

definition drain_shaper_queues ::
  "u64 \<Rightarrow> (nat \<Rightarrow> u64) \<Rightarrow> bool \<Rightarrow> shaper_state \<Rightarrow> shaper_state \<times> nat \<times> mbuf list \<times> nat" where
  "drain_shaper_queues hz clk nf s = drain_shaper_queues_budget hz clk nf SHAPER_DRAIN_BUDGET s"

text \<open>\<^verbatim>\<open>shaper_flush_ue\<close> frees every queued packet and resets the UE.\<close>

definition shaper_flush_ue :: "shaper_state \<Rightarrow> int \<Rightarrow> shaper_state \<times> nat" where
  "shaper_flush_ue s ue_idx =
     (if ue_idx < 0 \<or> ue_idx \<ge> int MAX_UE then (s, 0)
      else
        (let n = nat ue_idx; u = g_ue_shaper s ! n;
             freed = concat (map (\<lambda>f. map e_pkt (entries f)) (flows u));
             u = u \<lparr>flows := map (\<lambda>_. zero_flow) (flows u), ue_queued_pkts := 0,
                    next_excess_list := SHAPER_ACTIVE_GBR_QOS,
                    active := (\<lambda>_. []), active_count := (\<lambda>_. 0)\<rparr>
         in (s \<lparr>g_ue_shaper := (g_ue_shaper s)[n := u],
                refcnt := (\<lambda>p. refcnt s p - int (count_list freed p)),
                ue_bitmap := shaper_clear_ue_active (ue_bitmap s) n\<rparr>, length freed)))"

definition shaper_cleanup :: "shaper_state \<Rightarrow> shaper_state" where
  "shaper_cleanup s =
     (let s = fold (\<lambda>ue_idx s. fst (shaper_flush_ue s (int ue_idx))) [0..<MAX_UE] s
      in s \<lparr>ue_bitmap := replicate SHAPER_UE_BITMAP_WORDS 0, ue_cursor := 0\<rparr>)"

subsection \<open>The specification: a log of removals from queue heads\<close>

type_synonym removal = "shaper_flow_key \<times> shaper_entry \<times> bool"

fun replay ::
  "(shaper_flow_key \<Rightarrow> shaper_entry list) \<Rightarrow> removal list \<Rightarrow> (shaper_flow_key \<Rightarrow> shaper_entry list) option"
where
  "replay q [] = Some q"
| "replay q ((k, e, sent) # log) =
     (case q k of [] \<Rightarrow> None | x # xs \<Rightarrow> if x = e then replay (q(k := xs)) log else None)"

definition sent_of :: "removal list \<Rightarrow> shaper_entry list" where
  "sent_of log = map (fst \<circ> snd) (filter (snd \<circ> snd) log)"

definition dropped_of :: "removal list \<Rightarrow> shaper_entry list" where
  "dropped_of log = map (fst \<circ> snd) (filter (Not \<circ> snd \<circ> snd) log)"

lemma sent_of_simps [simp]:
  "sent_of [] = []" "sent_of ((k, e, b) # log) = (if b then e # sent_of log else sent_of log)"
  "sent_of (l1 @ l2) = sent_of l1 @ sent_of l2"
  by (simp_all add: sent_of_def)

lemma dropped_of_simps [simp]:
  "dropped_of [] = []"
  "dropped_of ((k, e, b) # log) = (if b then dropped_of log else e # dropped_of log)"
  "dropped_of (l1 @ l2) = dropped_of l1 @ dropped_of l2"
  by (simp_all add: dropped_of_def)

lemma replay_append:
  "replay q l1 = Some q1 \<Longrightarrow> replay q (l1 @ l2) = replay q1 l2"
  by (induction q l1 rule: replay.induct) (auto split: list.splits if_splits)

text \<open>A replayed log took the entries of each queue from its head, in order.\<close>

lemma replay_fifo:
  "replay q log = Some q' \<Longrightarrow>
   q k = map (fst \<circ> snd) (filter (\<lambda>r. fst r = k) log) @ q' k"
  by (induction q log rule: replay.induct) (auto split: list.splits if_splits)

text \<open>Marking the sent packets for output, with the destination saved in their entry.\<close>

definition mark_out :: "(mbuf \<Rightarrow> onvm_pkt_meta) \<Rightarrow> shaper_entry \<Rightarrow> mbuf \<Rightarrow> onvm_pkt_meta" where
  "mark_out meta e = meta(e_pkt e := (meta (e_pkt e))
     \<lparr>m_action := ONVM_NF_ACTION_OUT, m_destination := e_destination e\<rparr>)"

definition drained :: "drain_state \<Rightarrow> removal list \<Rightarrow> drain_state \<Rightarrow> bool" where
  "drained d log d' \<longleftrightarrow> shaper_inv {} (d_ue d') \<and>
     replay (flow_queue (d_ue d)) log = Some (flow_queue (d_ue d')) \<and>
     d_tx d' = d_tx d @ map e_pkt (sent_of log) \<and>
     d_freed d' = d_freed d @ map e_pkt (dropped_of log) \<and>
     d_meta d' = foldl mark_out (d_meta d) (sent_of log)"

lemma drained_trans:
  "drained d l1 d1 \<Longrightarrow> drained d1 l2 d2 \<Longrightarrow> drained d (l1 @ l2) d2"
  by (auto simp: drained_def replay_append)

lemma drained_refl: "shaper_inv {} (d_ue d) \<Longrightarrow> drained d [] d"
  by (simp add: drained_def)

lemma drained_queue:
  "drained d [] d' \<longleftrightarrow> shaper_inv {} (d_ue d') \<and> flow_queue (d_ue d') = flow_queue (d_ue d) \<and>
     d_tx d' = d_tx d \<and> d_freed d' = d_freed d \<and> d_meta d' = d_meta d"
  by (auto simp: drained_def)

subsection \<open>One step of the scheduler\<close>

lemma active_head:
  assumes inv: "shaper_inv {} u" and hd: "active u l = i # rest"
  shows "i < SHAPER_MAX_FLOWS_PER_UE" "in_use (flows u ! i)" "entries (flows u ! i) \<noteq> []"
proof -
  have "i \<in> set (active u l)" using hd by simp
  moreover have "set (active u l) = (if l = SHAPER_ACTIVE_NONE then {}
      else {i. i < length (flows u) \<and> active_list (flows u ! i) = l})"
    using inv by (simp add: shaper_inv_def lists_ok_def)
  ultimately have i: "i < length (flows u)" "active_list (flows u ! i) = l" "l \<noteq> SHAPER_ACTIVE_NONE"
    by (auto split: if_splits)
  then show "i < SHAPER_MAX_FLOWS_PER_UE" using inv by (simp add: shaper_inv_def)
  have "settled (flows u ! i)" using inv i by (simp add: shaper_inv_def)
  then show "in_use (flows u ! i)" "entries (flows u ! i) \<noteq> []"
    using i by (auto simp: settled_def shaper_active_list_for_head_def)
qed

text \<open>A flow taken off its list: not settled, still in use, on no list.\<close>

definition detached :: "ue_shaper \<Rightarrow> nat \<Rightarrow> bool" where
  "detached u i \<longleftrightarrow> shaper_inv {i} u \<and> i < SHAPER_MAX_FLOWS_PER_UE \<and> in_use (flows u ! i) \<and>
     active_list (flows u ! i) = SHAPER_ACTIVE_NONE"

lemma detached_kd: "detached u i \<Longrightarrow> keys_distinct u \<and> i < length (flows u)"
  by (simp add: detached_def shaper_inv_def)

lemma detach:
  assumes inv: "shaper_inv {} u" and i: "i < SHAPER_MAX_FLOWS_PER_UE" "in_use (flows u ! i)"
  shows "detached (shaper_deactivate_flow u i) i"
    and "flow_queue (shaper_deactivate_flow u i) = flow_queue u"
    and "flows (shaper_deactivate_flow u i) ! i = (flows u ! i) \<lparr>active_list := SHAPER_ACTIVE_NONE\<rparr>"
proof -
  let ?v = "shaper_deactivate_flow u i"
  have len: "i < length (flows u)" using inv i by (simp add: shaper_inv_def)
  have inv': "shaper_inv {i} ?v" using deactivate_inv [OF inv i] by simp
  show fi: "flows ?v ! i = (flows u ! i) \<lparr>active_list := SHAPER_ACTIVE_NONE\<rparr>"
    using len by (simp add: deactivate_flows)
  then show "detached ?v i" using inv' i by (simp add: detached_def)
  show "flow_queue ?v = flow_queue u"
    using inv inv' len
    by (intro flow_queue_cong) (auto simp: shaper_inv_def deactivate_flows nth_list_update)
qed

lemma reattach:
  assumes det: "detached u i" and es: "entries (flows u ! i) \<noteq> []"
  shows "shaper_inv {} (shaper_activate_flow now u i)"
    and "flow_queue (shaper_activate_flow now u i) = flow_queue u"
proof -
  show inv: "shaper_inv {} (shaper_activate_flow now u i)"
    using det es activate_inv [of "{i}" u i now] by (auto simp: detached_def)
  show "flow_queue (shaper_activate_flow now u i) = flow_queue u"
    using det es inv detached_kd [OF det]
    by (intro activate_queue) (auto simp: detached_def shaper_inv_def)
qed

lemma unlink_detached:
  assumes det: "detached u i" and es: "entries (flows u ! i) = e # es"
  shows "detached (unlink_head u i) i" "entries (flows (unlink_head u i) ! i) = es"
    and "flow_queue (unlink_head u i) = (flow_queue u)(f_key (flows u ! i) := es)"
    and "flow_queue u (f_key (flows u ! i)) = e # es"
proof -
  have i: "i < SHAPER_MAX_FLOWS_PER_UE" "in_use (flows u ! i)" and inv: "shaper_inv {i} u"
    using det by (auto simp: detached_def)
  have kd: "keys_distinct u" "i < length (flows u)" using detached_kd [OF det] by auto
  have fl: "flows (unlink_head u i) = (flows u)[i := flows (unlink_head u i) ! i]"
    using kd(2) by (simp add: unlink_head_def)
  have fi: "flows (unlink_head u i) ! i = (flows u ! i) \<lparr>entries := es,
      queued_pkts := queued_pkts (flows u ! i) - 1, queued_bytes := queued_bytes (flows u ! i) - e_pkt_len e\<rparr>"
    using kd(2) es by (simp add: unlink_head_def)
  have inv': "shaper_inv {i} (unlink_head u i)" using unlink_inv [OF inv i es] by simp
  then show "detached (unlink_head u i) i" using det fi by (simp add: detached_def)
  show "entries (flows (unlink_head u i) ! i) = es" using fi by simp
  show "flow_queue (unlink_head u i) = (flow_queue u)(f_key (flows u ! i) := es)"
    using flow_queue_replace [OF kd(1) _ kd(2) i(2) fl] inv' fi i(2) by (simp add: shaper_inv_def)
  show "flow_queue u (f_key (flows u ! i)) = e # es"
    using flow_queue_at [OF kd i(2)] es by simp
qed

lemma resettle_frame [simp]:
  "d_tokens (resettle clk i d) = d_tokens d" "d_tx (resettle clk i d) = d_tx d"
  "d_freed (resettle clk i d) = d_freed d" "d_meta (resettle clk i d) = d_meta d"
  by (simp_all add: resettle_def activate_d_def)

lemma resettle_detached:
  assumes det: "detached (d_ue d) i"
  shows "shaper_inv {} (d_ue (resettle clk i d))"
    and "flow_queue (d_ue (resettle clk i d)) = flow_queue (d_ue d)"
proof -
  have "ready (d_ue d) i" if "entries (flows (d_ue d) ! i) = []"
    using det that by (simp add: detached_def ready_def)
  then show "shaper_inv {} (d_ue (resettle clk i d))"
    and "flow_queue (d_ue (resettle clk i d)) = flow_queue (d_ue d)"
    using reattach [OF det] release_ready [of "d_ue d" i]
    by (auto simp: resettle_def activate_d_def)
qed

text \<open>
  The two ways the scheduler leaves the flow it took from the head of a list: put back with its
  queue untouched, or with its head entry removed.
\<close>

lemma put_back:
  assumes inv: "shaper_inv {} (d_ue d)" and hd: "active (d_ue d) l = i # rest"
    and ue: "d_ue d1 = shaper_deactivate_flow (d_ue d) i"
    and fr: "d_tx d1 = d_tx d" "d_freed d1 = d_freed d" "d_meta d1 = d_meta d"
  shows "drained d [] (activate_d clk i d1)"
proof -
  note i = active_head [OF inv hd]
  note det = detach [OF inv i(1,2)]
  show ?thesis
    using reattach [OF det(1)] det(2,3) i(3) fr unfolding drained_queue
    by (simp add: activate_d_def ue)
qed

lemma take_head:
  assumes inv: "shaper_inv {} (d_ue d)" and hd: "active (d_ue d) l = i # rest"
    and es: "entries (flows (d_ue d) ! i) = e # es"
    and ue: "d_ue d1 = unlink_head (shaper_deactivate_flow (d_ue d) i) i"
    and tx: "d_tx d1 = d_tx d @ (if sent then [e_pkt e] else [])"
    and fr: "d_freed d1 = d_freed d @ (if sent then [] else [e_pkt e])"
    and me: "d_meta d1 = (if sent then mark_out (d_meta d) e else d_meta d)"
  shows "drained d [(f_key (flows (d_ue d) ! i), e, sent)] (resettle clk i d1)"
proof -
  note i = active_head [OF inv hd]
  note det = detach [OF inv i(1,2)]
  have es': "entries (flows (shaper_deactivate_flow (d_ue d) i) ! i) = e # es"
    and k: "f_key (flows (shaper_deactivate_flow (d_ue d) i) ! i) = f_key (flows (d_ue d) ! i)"
    using det(3) es by simp_all
  note un = unlink_detached [OF det(1) es', folded ue]
  note rs = resettle_detached [OF un(1), of clk]
  show ?thesis
    using rs un(3,4) det(2) k tx fr me by (simp add: drained_def)
qed

lemma drained_inv: "drained d log d' \<Longrightarrow> shaper_inv {} (d_ue d')"
  by (simp add: drained_def)

lemma drained_then:
  assumes "drained d log d1" "length (sent_of log) = 0"
    and "shaper_inv {} (d_ue d1) \<Longrightarrow> \<exists>log. drained d1 log d' \<and> length (sent_of log) = n"
  shows "\<exists>log. drained d log d' \<and> length (sent_of log) = n"
proof -
  obtain log' where l: "drained d1 log' d'" "length (sent_of log') = n"
    using assms(3) drained_inv [OF assms(1)] by blast
  show ?thesis
    using drained_trans [OF assms(1) l(1)] l(2) assms(2) by (intro exI [of _ "log @ log'"]) simp
qed

lemma drain_one_log:
  assumes "shaper_drain_one_from_list_locked hz clk ue_idx l service alternate a d = (d', ok)"
    and "shaper_inv {} (d_ue d)"
  shows "\<exists>log. drained d log d' \<and> length (sent_of log) = (if ok then 1 else 0)"
  using assms
proof (induction a arbitrary: d)
  case 0
  then show ?case by (intro exI [of _ "[]"]) (auto simp: drained_refl)
next
  case (Suc a)
  note inv = Suc.prems(2) and run = Suc.prems(1)
  show ?case
  proof (cases "active (d_ue d) l")
    case Nil
    then show ?thesis using run inv by (intro exI [of _ "[]"]) (auto simp: drained_refl)
  next
    case (Cons i rest)
    note i = active_head [OF inv Cons]
    obtain e es where es: "entries (flows (d_ue d) ! i) = e # es" using i(3) by (cases "entries (flows (d_ue d) ! i)") auto
    define d1 where "d1 = d \<lparr>d_ue := shaper_deactivate_flow (d_ue d) i\<rparr>"
    define q where "q = qer_id (flows (d_ue d1) ! i)"
    have es1: "entries (flows (d_ue d1) ! i) = e # es"
      using detach(3) [OF inv i(1,2)] es by (simp add: d1_def)
    let ?fit = "\<lambda>sv. shaper_service_can_fit (d_tokens d1) ue_idx sv q (e_pkt_len e)"
    obtain t c where tc: "shaper_consume_service hz (clk (d_tick d1)) (d_tokens d1) ue_idx service q
        (e_pkt_len e) = (t, c)" by fastforce
    note run' = run [unfolded shaper_drain_one_from_list_locked.simps Cons list.case Let_def,
        folded d1_def, unfolded es1 list.case, folded q_def, unfolded tc prod.case]
    consider (alt) "\<not> ?fit service" "alternate \<noteq> SHAPER_SERVICE_COUNT \<and> ?fit alternate"
      | (discard) "\<not> ?fit service" "\<not> (alternate \<noteq> SHAPER_SERVICE_COUNT \<and> ?fit alternate)"
      | (wait) "?fit service" "\<not> c"
      | (send) "?fit service" "c" by blast
    then show ?thesis
    proof cases
      case alt
      have st: "drained d [] (activate_d clk i d1)"
        by (rule put_back [OF inv Cons]) (simp_all add: d1_def)
      have nx: "shaper_drain_one_from_list_locked hz clk ue_idx l service alternate a
          (activate_d clk i d1) = (d', ok)" using run' alt by simp
      show ?thesis by (rule drained_then [OF st]) (simp, rule Suc.IH [OF nx])
    next
      case discard
      let ?d2 = "d1 \<lparr>d_ue := unlink_head (d_ue d1) i, d_freed := d_freed d1 @ [e_pkt e],
          d_invalid := d_invalid d1 + 1\<rparr>"
      have st: "drained d [(f_key (flows (d_ue d) ! i), e, False)] (resettle clk i ?d2)"
        by (rule take_head [OF inv Cons es]) (simp_all add: d1_def)
      have nx: "shaper_drain_one_from_list_locked hz clk ue_idx l service alternate a
          (resettle clk i ?d2) = (d', ok)" using run' discard by simp
      show ?thesis by (rule drained_then [OF st]) (simp, rule Suc.IH [OF nx])
    next
      case wait
      let ?d2 = "d1 \<lparr>d_tokens := t, d_tick := d_tick d1 + 1\<rparr>"
      have st: "drained d [] (activate_d clk i ?d2)"
        by (rule put_back [OF inv Cons]) (simp_all add: d1_def)
      have nx: "shaper_drain_one_from_list_locked hz clk ue_idx l service alternate a
          (activate_d clk i ?d2) = (d', ok)" using run' wait by simp
      show ?thesis by (rule drained_then [OF st]) (simp, rule Suc.IH [OF nx])
    next
      case send
      have "drained d [(f_key (flows (d_ue d) ! i), e, True)] d' \<and> ok"
        using run' send
        by (auto simp: d1_def mark_out_def intro!: take_head [OF inv Cons es])
      then show ?thesis by (intro exI [of _ "[(f_key (flows (d_ue d) ! i), e, True)]"]) simp
    qed
  qed
qed

subsection \<open>The loops\<close>

text \<open>\<open>serves d n d'\<close>: some log leads from \<open>d\<close> to \<open>d'\<close> and sends \<open>n\<close> packets.\<close>

definition serves :: "drain_state \<Rightarrow> nat \<Rightarrow> drain_state \<Rightarrow> bool" where
  "serves d n d' \<longleftrightarrow> (\<exists>log. drained d log d' \<and> length (sent_of log) = n)"

lemma serves_trans: "serves d n d1 \<Longrightarrow> serves d1 m d2 \<Longrightarrow> serves d (n + m) d2"
  unfolding serves_def by (metis drained_trans length_append sent_of_simps(3))

lemma serves_refl: "shaper_inv {} (d_ue d) \<Longrightarrow> serves d 0 d"
  unfolding serves_def by (intro exI [of _ "[]"]) (simp add: drained_refl)

lemma serves_inv: "serves d n d' \<Longrightarrow> shaper_inv {} (d_ue d')"
  by (auto simp: serves_def drained_def)

lemma serves_tx: "serves d n d' \<Longrightarrow> length (d_tx d') = length (d_tx d) + n"
  by (auto simp: serves_def drained_def)

lemma drain_service_serves:
  assumes "shaper_drain_service_locked hz clk ue_idx l service alternate budget d = (d', n)"
    and "shaper_inv {} (d_ue d)"
  shows "serves d n d' \<and> n \<le> budget"
  using assms
proof (induction budget arbitrary: d d' n)
  case (Suc budget)
  show ?case
  proof (cases "active_count (d_ue d) l = 0")
    case True
    then show ?thesis using Suc.prems by (auto simp: serves_refl)
  next
    case False
    obtain d1 ok where one: "shaper_drain_one_from_list_locked hz clk ue_idx l service alternate
        (unat (active_count (d_ue d) l)) d = (d1, ok)" by fastforce
    have s1: "serves d (if ok then 1 else 0) d1"
      using drain_one_log [OF one Suc.prems(2)] by (simp add: serves_def)
    show ?thesis
    proof (cases ok)
      case ok: True
      obtain d2 m where rest: "shaper_drain_service_locked hz clk ue_idx l service alternate budget d1
          = (d2, m)" by fastforce
      have "d' = d2" "n = Suc m" using Suc.prems(1) False one ok rest by auto
      then show ?thesis
        using Suc.IH [OF rest serves_inv [OF s1]] serves_trans [OF s1] ok by auto
    qed (use Suc.prems(1) False one s1 in auto)
  qed
qed (auto simp: serves_refl)

lemma next_list_inv [simp]:
  "shaper_inv X (u \<lparr>next_excess_list := l\<rparr>) = shaper_inv X u"
  "flow_queue (u \<lparr>next_excess_list := l\<rparr>) = flow_queue u"
  by (simp_all add: shaper_inv_def lists_ok_def keys_distinct_def backlog_def fun_eq_iff
      flow_queue_def split: option.splits)

lemma serves_next_list:
  "serves (d \<lparr>d_ue := (d_ue d) \<lparr>next_excess_list := l\<rparr>\<rparr>) n d' \<longleftrightarrow> serves d n d'"
  by (simp add: serves_def drained_def)

lemma excess_attempts_serves:
  assumes "excess_attempts hz clk ue_idx a d = (d', n)" "shaper_inv {} (d_ue d)"
  shows "serves d n d' \<and> n \<le> 1"
  using assms
proof (induction a arbitrary: d)
  case (Suc a)
  define l where "l = next_excess_list (d_ue d)"
  define d1 where "d1 = d \<lparr>d_ue := (d_ue d) \<lparr>next_excess_list := shaper_next_excess_list l\<rparr>\<rparr>"
  define sv where "sv = shaper_excess_service_for_list l"
  define al where "al = (if l = SHAPER_ACTIVE_GBR_QOS then SHAPER_SERVICE_GBR_GUARANTEED
      else SHAPER_SERVICE_COUNT)"
  have inv1: "shaper_inv {} (d_ue d1)" using Suc.prems(2) by (simp add: d1_def)
  have back1: "serves d m d2 \<longleftrightarrow> serves d1 m d2" for m d2 by (simp add: d1_def serves_next_list)
  obtain d2 m where dr: "shaper_drain_service_locked hz clk ue_idx l sv al 1 d1 = (d2, m)" by fastforce
  have sv2: "serves d1 m d2" "m \<le> 1" using drain_service_serves [OF dr inv1] by auto
  note run = Suc.prems(1) [unfolded excess_attempts.simps Let_def, folded l_def, folded d1_def sv_def al_def,
      unfolded dr prod.case]
  show ?case
  proof (cases "active_count (d_ue d1) l = 0")
    case True
    then show ?thesis using run Suc.IH [OF _ inv1] back1 by simp
  next
    case False
    show ?thesis
    proof (cases "m = 0")
      case True
      then have "excess_attempts hz clk ue_idx a d2 = (d', n)" using run False by simp
      then show ?thesis
        using Suc.IH [OF _ serves_inv [OF sv2(1)]] serves_trans [OF sv2(1)] True back1 by fastforce
    next
      case m: False
      then show ?thesis using run False sv2 back1 by simp
    qed
  qed
qed (auto simp: serves_refl)

lemma drain_excess_serves:
  assumes "shaper_drain_excess_locked hz clk ue_idx budget d = (d', n)" "shaper_inv {} (d_ue d)"
  shows "serves d n d' \<and> n \<le> budget"
  using assms
proof (induction budget arbitrary: d d' n rule: less_induct)
  case (less budget)
  show ?case
  proof (cases budget)
    case 0
    then show ?thesis using less.prems by (auto simp: serves_refl)
  next
    case (Suc b)
    obtain d1 m where at: "excess_attempts hz clk ue_idx 3 d = (d1, m)" by fastforce
    have sm: "serves d m d1" "m \<le> 1" using excess_attempts_serves [OF at less.prems(2)] by auto
    obtain d2 k where rest: "shaper_drain_excess_locked hz clk ue_idx (Suc b - m) d1 = (d2, k)"
      by fastforce
    consider (stop) "d' = d" "n = 0" | (none) "m = 0" "d' = d1" "n = 0"
      | (more) "m \<noteq> 0" "d' = d2" "n = m + k"
      using less.prems(1) at rest by (auto simp: Suc split: if_splits)
    then show ?thesis
    proof cases
      case stop
      then show ?thesis using less.prems(2) by (simp add: serves_refl)
    next
      case none
      then show ?thesis using sm by simp
    next
      case more
      then have "Suc b - m < budget" using Suc by simp
      from less.IH [OF this rest serves_inv [OF sm(1)]] show ?thesis
        using more serves_trans [OF sm(1)] sm(2) Suc by auto
    qed
  qed
qed

lemma drain_round_bounds:
  assumes "drain_round hz clk ue_idx budget d = (d', n, again)" "shaper_inv {} (d_ue d)"
    and "length (d_tx d) \<le> DRAIN_CHUNK"
  shows "serves d n d' \<and> n \<le> budget \<and> length (d_tx d') \<le> DRAIN_CHUNK"
proof (cases "budget > 0 \<and> length (d_tx d) < DRAIN_CHUNK \<and> ue_queued_pkts (d_ue d) > 0")
  case False
  then have "d' = d \<and> n = 0"
    using assms(1) unfolding drain_round_def by (simp only: simp_thms if_True if_False prod.inject)
  then show ?thesis using assms(2,3) by (simp add: serves_refl)
next
  case True
  let ?b = "min (min budget SHAPER_CLASS_BURST) (DRAIN_CHUNK - length (d_tx d))"
  obtain d1 n1 where g: "shaper_drain_gbr_locked hz clk ue_idx ?b d = (d1, n1)" by fastforce
  have s1: "serves d n1 d1" "n1 \<le> ?b"
    using drain_service_serves [OF g [unfolded shaper_drain_gbr_locked_def] assms(2)] by auto
  have t1: "length (d_tx d1) \<le> DRAIN_CHUNK" using serves_tx [OF s1(1)] s1(2) assms(3) by auto
  let ?c = "min (min (budget - n1) SHAPER_CLASS_BURST) (DRAIN_CHUNK - length (d_tx d1))"
  obtain d2 n2 where x: "shaper_drain_excess_locked hz clk ue_idx ?c d1 = (d2, n2)" by fastforce
  have s2: "serves d1 n2 d2" "n2 \<le> ?c" using drain_excess_serves [OF x serves_inv [OF s1(1)]] by auto
  have t2: "length (d_tx d2) \<le> DRAIN_CHUNK" using serves_tx [OF s2(1)] s2(2) t1 by auto
  have "(d' = d1 \<and> n = n1) \<or> (d' = d2 \<and> n = n1 + n2)"
    using assms(1) True unfolding drain_round_def Let_def g x prod.case
    by (auto simp: x split: if_splits)
  then show ?thesis
    using s1 s2 t1 t2 serves_trans [OF s1(1) s2(1)] by auto
qed

lemma drain_loop_bounds:
  assumes "drain_loop hz clk ue_idx budget tot d = (d', tot')" "shaper_inv {} (d_ue d)"
    and "length (d_tx d) \<le> DRAIN_CHUNK"
  shows "\<exists>n. serves d n d' \<and> n \<le> budget \<and> length (d_tx d') \<le> DRAIN_CHUNK \<and> tot' = tot + n"
  using assms
proof (induction hz clk ue_idx budget tot d rule: drain_loop.induct)
  case (1 hz clk ue_idx budget tot d)
  obtain d1 n again where r: "drain_round hz clk ue_idx budget d = (d1, n, again)" by (metis prod.collapse)
  note b = drain_round_bounds [OF r "1.prems"(2,3)]
  show ?case
  proof (cases again)
    case True
    then have "drain_loop hz clk ue_idx (budget - n) (tot + n) d1 = (d', tot')"
      using "1.prems"(1) r by (simp add: drain_loop.simps [of hz clk ue_idx budget])
    then obtain m where "serves d1 m d'" "m \<le> budget - n" "length (d_tx d') \<le> DRAIN_CHUNK" "tot' = tot + n + m"
      using "1.IH" [OF r [symmetric] refl True] b serves_inv by blast
    then show ?thesis
      using b serves_trans [of d n d1 m d'] by (intro exI [of _ "n + m"]) auto
  next
    case False
    then show ?thesis
      using "1.prems"(1) r b by (auto simp: drain_loop.simps [of hz clk ue_idx budget])
  qed
qed

subsection \<open>All UEs\<close>

lemma from_drain_simps [simp]:
  "g_ue_shaper (from_drain s n d) = (g_ue_shaper s)[n := d_ue d]"
  "ue_bitmap (from_drain s n d) = ue_bitmap s" "ue_cursor (from_drain s n d) = ue_cursor s"
  "pkt_meta (from_drain s n d) = d_meta d"
  "refcnt (from_drain s n d) = (\<lambda>p. refcnt s p - int (count_list (d_freed d) p))"
  by (simp_all add: from_drain_def)

text \<open>What one call of \<^verbatim>\<open>drain_ue_shaper\<close> does to the shaper of its UE.\<close>

definition drain_effect :: "shaper_state \<Rightarrow> nat \<Rightarrow> shaper_state \<Rightarrow> mbuf list \<Rightarrow> bool" where
  "drain_effect s n s' tx \<longleftrightarrow> (\<exists>log. replay (queue s n) log = Some (queue s' n) \<and>
     tx = map e_pkt (sent_of log) \<and> pkt_meta s' = foldl mark_out (pkt_meta s) (sent_of log) \<and>
     refcnt s' = (\<lambda>p. refcnt s p - int (count_list (map e_pkt (dropped_of log)) p)))"

lemma drain_effect_refl: "drain_effect s n (s \<lparr>ue_bitmap := bm\<rparr>) []"
  unfolding drain_effect_def by (intro exI [of _ "[]"]) simp

lemma clear_idle_inv:
  assumes "shaper_state_inv s" "n < MAX_UE" "backlog (g_ue_shaper s ! n) = 0"
  shows "shaper_state_inv (s \<lparr>ue_bitmap := shaper_clear_ue_active (ue_bitmap s) n\<rparr>)"
  using assms by (auto simp: shaper_state_inv_def ue_bit_clear)

lemma drain_ue_shaper_effect:
  assumes inv: "shaper_state_inv s"
    and run: "drain_ue_shaper hz clk s tick ue_idx nf budget = (s', tick', tx, n)"
  shows "shaper_state_inv s' \<and> n = length tx \<and> n \<le> budget \<and> n \<le> DRAIN_CHUNK \<and>
    (\<forall>m. m \<noteq> nat ue_idx \<longrightarrow> queue s' m = queue s m) \<and> drain_effect s (nat ue_idx) s' tx \<and>
    ue_cursor s' = ue_cursor s"
proof (cases "ue_idx < 0 \<or> ue_idx \<ge> int MAX_UE \<or> \<not> nf \<or> budget = 0")
  case True
  then have "s' = s" "tx = []" "n = 0" using run by (auto simp: drain_ue_shaper_def)
  then show ?thesis using inv drain_effect_refl [of s _ "ue_bitmap s"] by simp
next
  case False
  let ?n = "nat ue_idx"
  have n: "?n < MAX_UE" using False by auto
  have u: "shaper_inv {} (g_ue_shaper s ! ?n)" and lens: "length (g_ue_shaper s) = MAX_UE"
    "length (ue_bitmap s) = SHAPER_UE_BITMAP_WORDS"
    using inv n by (auto simp: shaper_state_inv_def)
  show ?thesis
  proof (cases "ue_queued_pkts (g_ue_shaper s ! ?n) = 0")
    case True
    then have "backlog (g_ue_shaper s ! ?n) = 0" using ue_queued_backlog [OF u] by simp
    then show ?thesis
      using run False True clear_idle_inv [OF inv n] drain_effect_refl
      by (auto simp: drain_ue_shaper_def Let_def)
  next
    case busy: False
    obtain d tot where lp: "drain_loop hz clk ue_idx budget 0 (to_drain s ?n tick) = (d, tot)" by fastforce
    have "shaper_inv {} (d_ue (to_drain s ?n tick))" "length (d_tx (to_drain s ?n tick)) \<le> DRAIN_CHUNK"
      using u by (simp_all add: to_drain_def)
    from drain_loop_bounds [OF lp this] obtain log where
      log: "drained (to_drain s ?n tick) log d" "length (sent_of log) = tot" "tot \<le> budget"
      "length (d_tx d) \<le> DRAIN_CHUNK"
      by (auto simp: serves_def)
    define bm where "bm = (if ue_queued_pkts (d_ue d) = 0 then shaper_clear_ue_active (ue_bitmap s) ?n
        else shaper_mark_ue_active (ue_bitmap s) ?n)"
    have res: "s' = from_drain s ?n d \<lparr>ue_bitmap := bm\<rparr>" "tx = d_tx d" "n = tot"
      using run False busy lp by (auto simp: drain_ue_shaper_def Let_def bm_def)
    have ud: "shaper_inv {} (d_ue d)" using log(1) by (rule drained_inv)
    have "shaper_state_inv s'"
      using inv n lens ud ue_queued_backlog [OF ud]
      by (auto simp: shaper_state_inv_def res(1) bm_def nth_list_update ue_bit_clear ue_bit_mark)
    moreover have "drain_effect s ?n s' tx"
      unfolding drain_effect_def
      using log(1) n lens by (intro exI [of _ log]) (simp add: drained_def res to_drain_def)
    ultimately show ?thesis
      using log lens n by (auto simp: res drained_def to_drain_def)
  qed
qed

lemma replay_trans:
  "replay q l1 = Some q1 \<Longrightarrow> replay q1 l2 = Some q2 \<Longrightarrow> \<exists>l. replay q l = Some q2"
  using replay_append by metis

lemma state_inv_cursor [simp]: "shaper_state_inv (s \<lparr>ue_cursor := c\<rparr>) = shaper_state_inv s"
  by (simp add: shaper_state_inv_def)

lemma drain_visits_effect:
  assumes "shaper_state_inv s"
    and "drain_visits hz clk nf visits tried budget s tick = (s', tick', tx, n)"
  shows "shaper_state_inv s' \<and> n = length tx \<and> n \<le> budget \<and>
    (\<forall>m. \<exists>log. replay (queue s m) log = Some (queue s' m))"
  using assms
proof (induction visits arbitrary: tried budget s tick s' tick' tx n)
  case 0
  then show ?case by (auto intro: exI [of _ "[]"])
next
  case (Suc visits)
  obtain cursor ue_idx where nx:
    "shaper_next_active_ue (ue_bitmap s) (ue_cursor s) (Some tried) = (cursor, ue_idx)" by fastforce
  define s1 where "s1 = s \<lparr>ue_cursor := cursor\<rparr>"
  have inv1: "shaper_state_inv s1" and q1: "g_ue_shaper s1 = g_ue_shaper s" using Suc.prems(1) by (simp_all add: s1_def)
  show ?case
  proof (cases "budget = 0 \<or> ue_idx < 0")
    case True
    then have "(s' = s \<or> s' = s1) \<and> tx = [] \<and> n = 0"
      using Suc.prems(2) nx by (cases "budget = 0") (auto simp: s1_def Let_def)
    then show ?thesis using Suc.prems(1) inv1 q1 by (auto intro: exI [of _ "[]"])
  next
    case False
    define tried' where "tried' = tried[nat ue_idx div 64 :=
        tried ! (nat ue_idx div 64) OR push_bit (nat ue_idx mod 64) 1]"
    obtain s2 t2 tx2 n2 where d: "drain_ue_shaper hz clk s1 tick ue_idx nf budget = (s2, t2, tx2, n2)"
      by (metis prod.collapse)
    note e = drain_ue_shaper_effect [OF inv1 d]
    obtain s3 t3 tx3 n3 where r: "drain_visits hz clk nf visits tried' (budget - n2) s2 t2 = (s3, t3, tx3, n3)"
      by (metis prod.collapse)
    have res: "s' = s3" "tx = tx2 @ tx3" "n = n2 + n3"
      using Suc.prems(2) False nx d r by (auto simp: Let_def s1_def tried'_def)
    have ih: "shaper_state_inv s3 \<and> n3 = length tx3 \<and> n3 \<le> budget - n2 \<and>
        (\<forall>m. \<exists>log. replay (queue s2 m) log = Some (queue s3 m))"
      by (rule Suc.IH [OF _ r]) (use e in simp)
    have "\<exists>log. replay (queue s m) log = Some (queue s2 m)" for m
    proof (cases "m = nat ue_idx")
      case True
      then show ?thesis using e q1 by (auto simp: drain_effect_def s1_def)
    next
      case False
      then show ?thesis using e q1 by (intro exI [of _ "[]"]) (simp add: s1_def)
    qed
    then have "\<forall>m. \<exists>log. replay (queue s m) log = Some (queue s3 m)"
      using ih replay_trans by metis
    then show ?thesis using ih e res by auto
  qed
qed

subsection \<open>Flushing a UE\<close>

lemma flush_empty_inv:
  "length (flows u) = SHAPER_MAX_FLOWS_PER_UE \<Longrightarrow>
   shaper_inv {} (u \<lparr>flows := map (\<lambda>_. zero_flow) (flows u), ue_queued_pkts := 0,
     next_excess_list := l, active := (\<lambda>_. []), active_count := (\<lambda>_. 0)\<rparr>)"
  by (auto simp: shaper_inv_def lists_ok_def keys_distinct_def backlog_def map_replicate_const
      sum_list_replicate)

lemma flush_inv:
  assumes inv: "shaper_state_inv s"
  shows "shaper_state_inv (fst (shaper_flush_ue s ue_idx))"
proof (cases "ue_idx < 0 \<or> ue_idx \<ge> int MAX_UE")
  case False
  then have n: "nat ue_idx < MAX_UE" by auto
  then have "length (flows (g_ue_shaper s ! nat ue_idx)) = SHAPER_MAX_FLOWS_PER_UE"
    using inv by (auto simp: shaper_state_inv_def shaper_inv_def)
  from flush_empty_inv [OF this] show ?thesis
    using False inv n
    by (auto simp: shaper_flush_ue_def Let_def shaper_state_inv_def nth_list_update ue_bit_clear
        backlog_def map_replicate_const sum_list_replicate)
qed (simp add: shaper_flush_ue_def inv)

lemma empty_flows_queue: "flows u = map (\<lambda>_. zero_flow) fs \<Longrightarrow> flow_queue u k = []"
  by (rule flow_queue_none) simp

lemma flush_queue:
  assumes inv: "shaper_state_inv s" and n: "n < MAX_UE"
  shows "queue (fst (shaper_flush_ue s (int n))) m = (if m = n then (\<lambda>_. []) else queue s m)"
    and "snd (shaper_flush_ue s (int n)) = backlog (g_ue_shaper s ! n)"
proof -
  have len: "length (g_ue_shaper s) = MAX_UE" using inv by (simp add: shaper_state_inv_def)
  show "queue (fst (shaper_flush_ue s (int n))) m = (if m = n then (\<lambda>_. []) else queue s m)"
  proof (cases "m = n")
    case True
    have "flows (g_ue_shaper (fst (shaper_flush_ue s (int n))) ! n)
        = map (\<lambda>_. zero_flow) (flows (g_ue_shaper s ! n))"
      using n len by (simp add: shaper_flush_ue_def Let_def)
    then show ?thesis using True by (intro ext) (simp add: empty_flows_queue)
  next
    case False
    then show ?thesis using n by (simp add: shaper_flush_ue_def Let_def)
  qed
  have "length (concat (map (\<lambda>f. map e_pkt (entries f)) fs)) = sum_list (map (\<lambda>f. length (entries f)) fs)"
    for fs :: "shaper_flow list" by (induction fs) auto
  then show "snd (shaper_flush_ue s (int n)) = backlog (g_ue_shaper s ! n)"
    using n by (simp add: shaper_flush_ue_def Let_def backlog_def)
qed

subsection \<open>Properties\<close>



text \<open>
  A drain round over all UEs keeps the invariant, sends at most its budget and reports
  the number sent, and leaves every flow queue of every UE with a prefix removed.
\<close>

theorem drain_shaper_queues_budget_correct:
  assumes "shaper_state_inv s"
    and "drain_shaper_queues_budget hz clk nf budget s = (s', tick', tx, n)"
  shows "shaper_state_inv s' \<and> n = length tx \<and> n \<le> budget \<and>
    (\<forall>m k. \<exists>taken. queue s m k = taken @ queue s' m k)"
proof -
  note e = drain_visits_effect [OF assms(1) assms(2) [unfolded drain_shaper_queues_budget_def]]
  have "\<exists>taken. queue s m k = taken @ queue s' m k" for m k
    using e replay_fifo [of "queue s m" _ "queue s' m" k] by blast
  then show ?thesis using e by blast
qed

lemma drain_shaper_queues_budget_correct_witness:
  "\<exists>s' tick' tx n. drain_shaper_queues_budget 1000000000 (\<lambda>_. 5) True 32 idle_shaper = (s', tick', tx, n) \<and>
     shaper_state_inv s' \<and> n = length tx \<and> n \<le> 32"
proof -
  obtain s' tick' tx n where r:
    "drain_shaper_queues_budget 1000000000 (\<lambda>_. 5) True 32 idle_shaper = (s', tick', tx, n)"
    by (metis prod.collapse)
  from drain_shaper_queues_budget_correct [OF idle_shaper_inv r] r show ?thesis by blast
qed

text \<open>
  Flushing a UE empties its queues and no other UE's, returns the number of packets it
  held, and leaves the shaper in a state that satisfies the invariant.
\<close>

theorem shaper_flush_ue_correct:
  assumes "shaper_state_inv s" "n < MAX_UE"
  shows "shaper_state_inv (fst (shaper_flush_ue s (int n))) \<and>
    queue (fst (shaper_flush_ue s (int n))) m = (if m = n then (\<lambda>_. []) else queue s m) \<and>
    snd (shaper_flush_ue s (int n)) = backlog (g_ue_shaper s ! n)"
  using flush_inv [OF assms(1)] flush_queue [OF assms] by blast

lemma shaper_flush_ue_correct_witness:
  "shaper_state_inv (fst (shaper_flush_ue idle_shaper 3)) \<and> snd (shaper_flush_ue idle_shaper 3) = 0"
  using shaper_flush_ue_correct [OF idle_shaper_inv, of 3]
  by (simp add: idle_shaper_def zero_ue_shaper_def backlog_def map_replicate_const sum_list_replicate)

end
