(* ===== verification/Neigh.thy ===== *)
theory Neigh
  imports Mbuf Upf_Rules Probe_Table
begin

text \<open>
  The ARP neighbour table and the ARP packets of \<^verbatim>\<open>5gc/upf_u/upf_u_arp.c\<close>: learning and
  ageing of entries, requests for unknown next hops, replies to requests for the local
  addresses, and the attachment of the Ethernet header to an outgoing packet.

  Clock values are arguments, one for each read of the cycle counter. The DPDK services the
  code calls (the mbuf pool, the MAC address of a port) are the environment \<open>env\<close>; packets
  handed to \<^verbatim>\<open>onvm_nflib_return_pkt\<close> are appended to \<open>arp_sent\<close> with their metadata.
\<close>

subsection \<open>Data\<close>

abbreviation (input) NEIGH_MAX :: nat where "NEIGH_MAX \<equiv> 64"
abbreviation (input) NEIGH_TIMEOUT_SEC :: u64 where "NEIGH_TIMEOUT_SEC \<equiv> 300"
abbreviation (input) ARP_REQUEST_RETRY_SEC :: u64 where "ARP_REQUEST_RETRY_SEC \<equiv> 1"
abbreviation (input) ARP_HDR :: nat where "ARP_HDR \<equiv> 28"
abbreviation (input) RTE_ARP_HRD_ETHER :: u16 where "RTE_ARP_HRD_ETHER \<equiv> 1"
abbreviation (input) RTE_ARP_OP_REQUEST :: u16 where "RTE_ARP_OP_REQUEST \<equiv> 1"
abbreviation (input) RTE_ARP_OP_REPLY :: u16 where "RTE_ARP_OP_REPLY \<equiv> 2"

datatype neigh_state = NEIGH_EMPTY | NEIGH_INCOMPLETE | NEIGH_REACHABLE | NEIGH_STALE

record neigh_entry =
  ne_ip_be :: u32
  ne_port_id :: u16
  ne_mac :: rte_ether_addr
  ne_last_update_tsc :: u64
  ne_state :: neigh_state
  ne_in_use :: bool

record arp_state =
  neigh_tbl :: "neigh_entry list"
  arp_pool :: bool
  arp_sent :: "(rte_mbuf \<times> onvm_pkt_meta) list"

record arp_env =
  env_hz :: u64
  env_pool_lookup :: bool
  env_macaddr_get :: "u16 \<Rightarrow> rte_ether_addr option"
  env_alloc :: "rte_mbuf option"
  env_meta :: onvm_pkt_meta
  env_return_pkt :: int

definition zero_mac :: rte_ether_addr where "zero_mac = replicate 6 0"
definition broadcast_mac :: rte_ether_addr where "broadcast_mac = replicate 6 0xff"

definition empty_neigh :: neigh_entry where
  "empty_neigh = \<lparr>ne_ip_be = 0, ne_port_id = 0, ne_mac = zero_mac, ne_last_update_tsc = 0,
     ne_state = NEIGH_EMPTY, ne_in_use = False\<rparr>"

subsection \<open>The neighbour table\<close>

definition is_local_ip_on_port :: "upf_ports \<Rightarrow> u16 \<Rightarrow> u32 \<Rightarrow> bool" where
  "is_local_ip_on_port cfg port ip_be =
     (if port = g_n3_port cfg then g_n3_ip_be cfg = ip_be
      else if port = g_n6_port cfg then g_n6_ip_be cfg = ip_be
      else False)"

definition upf_arp_init :: "arp_env \<Rightarrow> arp_state \<Rightarrow> arp_state \<times> int" where
  "upf_arp_init env s =
     (s \<lparr>neigh_tbl := replicate NEIGH_MAX empty_neigh, arp_pool := env_pool_lookup env\<rparr>,
      if env_pool_lookup env then 0 else -1)"

definition neigh_hash :: "u16 \<Rightarrow> u32 \<Rightarrow> nat" where
  "neigh_hash port ip_be =
     unat (ip_be XOR push_bit 16 (ucast port) XOR push_bit 3 (ucast port)) mod NEIGH_MAX"

definition neigh_hit :: "neigh_entry list \<Rightarrow> u16 \<Rightarrow> u32 \<Rightarrow> nat \<Rightarrow> bool" where
  "neigh_hit tbl port ip_be idx \<longleftrightarrow>
     ne_port_id (tbl ! idx) = port \<and> ne_ip_be (tbl ! idx) = ip_be"

text \<open>Ageing of the entry the lookup returns.\<close>

definition neigh_age :: "u64 \<Rightarrow> u64 \<Rightarrow> neigh_entry \<Rightarrow> neigh_entry" where
  "neigh_age hz now e =
     (if ne_state e = NEIGH_REACHABLE \<and> hz > 0 \<and>
         now - ne_last_update_tsc e > NEIGH_TIMEOUT_SEC * hz
      then e \<lparr>ne_state := NEIGH_STALE\<rparr> else e)"

definition neigh_lookup ::
  "u64 \<Rightarrow> u64 \<Rightarrow> neigh_entry list \<Rightarrow> u16 \<Rightarrow> u32 \<Rightarrow> neigh_entry list \<times> nat option" where
  "neigh_lookup hz now tbl port ip_be =
     (case probe_search NEIGH_MAX (\<lambda>i. ne_in_use (tbl ! i)) (neigh_hit tbl port ip_be)
        (neigh_hash port ip_be) (neigh_hash port ip_be) of
        None \<Rightarrow> (tbl, None)
      | Some idx \<Rightarrow> (tbl[idx := neigh_age hz now (tbl ! idx)], Some idx))"

text \<open>
  One pass of the probe loop ends at the entry of the key, at a free slot, or back at the
  start when the table is full; the start slot is then replaced.
\<close>

definition neigh_update ::
  "u64 \<Rightarrow> neigh_entry list \<Rightarrow> u16 \<Rightarrow> u32 \<Rightarrow> rte_ether_addr option \<Rightarrow> neigh_entry list" where
  "neigh_update now tbl port ip_be mac_ptr =
     (case mac_ptr of
        None \<Rightarrow> tbl
      | Some mac \<Rightarrow>
          (let start = neigh_hash port ip_be;
               fresh = \<lparr>ne_ip_be = ip_be, ne_port_id = port, ne_mac = mac,
                        ne_last_update_tsc = now, ne_state = NEIGH_REACHABLE, ne_in_use = True\<rparr>
           in case probe_search NEIGH_MAX (\<lambda>i. ne_in_use (tbl ! i)) (neigh_hit tbl port ip_be)
                     start start of
                Some idx \<Rightarrow> tbl[idx := (tbl ! idx)
                  \<lparr>ne_mac := mac, ne_last_update_tsc := now, ne_state := NEIGH_REACHABLE\<rparr>]
              | None \<Rightarrow>
                  (case probe_free NEIGH_MAX (\<lambda>i. ne_in_use (tbl ! i)) start start of
                     Some idx \<Rightarrow> tbl[idx := fresh]
                   | None \<Rightarrow> tbl[start := fresh])))"

text \<open>The last part of \<^verbatim>\<open>send_arp_request\<close>: mark the neighbour incomplete.\<close>

definition neigh_mark_incomplete ::
  "u64 \<Rightarrow> neigh_entry list \<Rightarrow> u16 \<Rightarrow> u32 \<Rightarrow> nat option \<Rightarrow> neigh_entry list" where
  "neigh_mark_incomplete now tbl port tip_be e =
     (case e of
        None \<Rightarrow>
          (let start = neigh_hash port tip_be;
               fresh = \<lparr>ne_ip_be = tip_be, ne_port_id = port, ne_mac = zero_mac,
                        ne_last_update_tsc = now, ne_state = NEIGH_INCOMPLETE, ne_in_use = True\<rparr>
           in case probe_free NEIGH_MAX (\<lambda>i. ne_in_use (tbl ! i)) start start of
                Some idx \<Rightarrow> tbl[idx := fresh]
              | None \<Rightarrow> tbl[start := fresh])
      | Some idx \<Rightarrow>
          if ne_state (tbl ! idx) = NEIGH_STALE \<or> ne_state (tbl ! idx) = NEIGH_INCOMPLETE
          then tbl[idx := (tbl ! idx) \<lparr>ne_state := NEIGH_INCOMPLETE, ne_last_update_tsc := now\<rparr>]
          else tbl)"

subsection \<open>ARP packets\<close>

text \<open>Fields of the ARP header behind the Ethernet header.\<close>

abbreviation (input) arp_hardware :: "rte_mbuf \<Rightarrow> u16" where "arp_hardware m \<equiv> ld16 m 14"
abbreviation (input) arp_protocol :: "rte_mbuf \<Rightarrow> u16" where "arp_protocol m \<equiv> ld16 m 16"
abbreviation (input) arp_hlen :: "rte_mbuf \<Rightarrow> u8" where "arp_hlen m \<equiv> ld8 m 18"
abbreviation (input) arp_plen :: "rte_mbuf \<Rightarrow> u8" where "arp_plen m \<equiv> ld8 m 19"
abbreviation (input) arp_opcode :: "rte_mbuf \<Rightarrow> u16" where "arp_opcode m \<equiv> ld16 m 20"
abbreviation (input) arp_sha :: "rte_mbuf \<Rightarrow> rte_ether_addr" where "arp_sha m \<equiv> ld_mac m 22"
abbreviation (input) arp_sip :: "rte_mbuf \<Rightarrow> u32" where "arp_sip m \<equiv> ld32 m 28"
abbreviation (input) arp_tha :: "rte_mbuf \<Rightarrow> rte_ether_addr" where "arp_tha m \<equiv> ld_mac m 32"
abbreviation (input) arp_tip :: "rte_mbuf \<Rightarrow> u32" where "arp_tip m \<equiv> ld32 m 38"

text \<open>The header of an ARP packet, as both builders write it, field by field.\<close>

definition fill_arp ::
  "rte_ether_addr \<Rightarrow> rte_ether_addr \<Rightarrow> u16 \<Rightarrow> rte_ether_addr \<Rightarrow> u32 \<Rightarrow> rte_ether_addr \<Rightarrow> u32 \<Rightarrow>
     rte_mbuf \<Rightarrow> rte_mbuf" where
  "fill_arp eth_src eth_dst opcode sha sip tha tip m =
     (let m = st_mac 6 eth_src m;
          m = st_mac 0 eth_dst m;
          m = st16 12 (rte_cpu_to_be_16 RTE_ETHER_TYPE_ARP) m;
          m = st16 14 (rte_cpu_to_be_16 RTE_ARP_HRD_ETHER) m;
          m = st16 16 (rte_cpu_to_be_16 RTE_ETHER_TYPE_IPV4) m;
          m = st8 18 6 m;
          m = st8 19 4 m;
          m = st16 20 (rte_cpu_to_be_16 opcode) m;
          m = st_mac 22 sha m;
          m = st32 28 sip m;
          m = st_mac 32 tha m
      in st32 38 tip m)"

definition send_arp_request ::
  "arp_env \<Rightarrow> u64 \<Rightarrow> u64 \<Rightarrow> arp_state \<Rightarrow> u16 \<Rightarrow> u32 \<Rightarrow> u32 \<Rightarrow> bool \<Rightarrow> arp_state \<times> int" where
  "send_arp_request env now now' s port sip_be tip_be has_nf =
     (if \<not> has_nf then (s, -1)
      else let (tbl, e) = neigh_lookup (env_hz env) now' (neigh_tbl s) port tip_be;
               s = s \<lparr>neigh_tbl := tbl\<rparr>
      in if (case e of None \<Rightarrow> False | Some idx \<Rightarrow>
               ne_state (tbl ! idx) = NEIGH_INCOMPLETE \<and> env_hz env > 0 \<and>
               now - ne_last_update_tsc (tbl ! idx) < ARP_REQUEST_RETRY_SEC * env_hz env)
         then (s, 0)
         else if \<not> arp_pool s \<and> \<not> env_pool_lookup env then (s, -1)
         else let s = s \<lparr>arp_pool := True\<rparr>
         in case env_macaddr_get env port of
              None \<Rightarrow> (s, -1)
            | Some src_mac \<Rightarrow>
                (case env_alloc env of
                   None \<Rightarrow> (s, -1)
                 | Some out_pkt \<Rightarrow>
                     (case rte_pktmbuf_append out_pkt 42 of
                        None \<Rightarrow> (s, -1)
                      | Some out_pkt \<Rightarrow>
                          (let out_pkt = fill_arp src_mac broadcast_mac RTE_ARP_OP_REQUEST
                                           src_mac sip_be zero_mac tip_be out_pkt;
                               tbl = neigh_mark_incomplete now tbl port tip_be e;
                               pmeta = (env_meta env)
                                 \<lparr>m_destination := port, m_action := ONVM_NF_ACTION_OUT\<rparr>
                           in (s \<lparr>neigh_tbl := tbl, arp_sent := arp_sent s @ [(out_pkt, pmeta)]\<rparr>,
                               env_return_pkt env)))))"

text \<open>Building and sending the reply to a request for a local address.\<close>

definition send_arp_reply ::
  "arp_env \<Rightarrow> arp_state \<Rightarrow> rte_mbuf \<Rightarrow> rte_ether_addr \<Rightarrow> arp_state" where
  "send_arp_reply env s pkt local_mac =
     (case env_alloc env of
        None \<Rightarrow> s
      | Some out_pkt \<Rightarrow>
          (case rte_pktmbuf_append out_pkt 42 of
             None \<Rightarrow> s
           | Some out_pkt \<Rightarrow>
               (let out_pkt = fill_arp local_mac (arp_sha pkt) RTE_ARP_OP_REPLY
                                local_mac (arp_tip pkt) (arp_sha pkt) (arp_sip pkt) out_pkt;
                    pmeta = (env_meta env)
                      \<lparr>m_destination := mb_port pkt, m_action := ONVM_NF_ACTION_OUT\<rparr>
                in s \<lparr>arp_sent := arp_sent s @ [(out_pkt, pmeta)]\<rparr>)))"

text \<open>The sanity checks on the packet; the packet is dropped when they fail.\<close>

definition arp_packet_ok :: "rte_mbuf \<Rightarrow> bool" where
  "arp_packet_ok pkt \<longleftrightarrow>
     unat (mb_pkt_len pkt) \<ge> ETHER_HDR + ARP_HDR \<and>
     rte_be_to_cpu_16 (ether_type pkt) = RTE_ETHER_TYPE_ARP \<and>
     rte_be_to_cpu_16 (arp_hardware pkt) = RTE_ARP_HRD_ETHER \<and>
     rte_be_to_cpu_16 (arp_protocol pkt) = RTE_ETHER_TYPE_IPV4 \<and>
     arp_hlen pkt = 6 \<and> arp_plen pkt = 4"

definition handle_arp_packet ::
  "upf_ports \<Rightarrow> arp_env \<Rightarrow> u64 \<Rightarrow> arp_state \<Rightarrow> rte_mbuf \<Rightarrow> onvm_pkt_meta \<Rightarrow> bool \<Rightarrow>
     arp_state \<times> onvm_pkt_meta" where
  "handle_arp_packet cfg env now s pkt meta has_nf =
     (if \<not> has_nf then (s, meta)
      else if \<not> arp_packet_ok pkt then (s, meta \<lparr>m_action := ONVM_NF_ACTION_DROP\<rparr>)
      else
        let port = mb_port pkt;
            s = s \<lparr>neigh_tbl :=
                     neigh_update now (neigh_tbl s) port (arp_sip pkt) (Some (arp_sha pkt))\<rparr>;
            dropped = meta \<lparr>m_action := ONVM_NF_ACTION_DROP\<rparr>
        in if rte_be_to_cpu_16 (arp_opcode pkt) = RTE_ARP_OP_REQUEST then
             if \<not> is_local_ip_on_port cfg port (arp_tip pkt) then (s, dropped)
             else case env_macaddr_get env port of
                    None \<Rightarrow> (s, dropped)
                  | Some local_mac \<Rightarrow>
                      if \<not> arp_pool s \<and> \<not> env_pool_lookup env then (s, dropped)
                      else (send_arp_reply env (s \<lparr>arp_pool := True\<rparr>) pkt local_mac, dropped)
           else (s, dropped))"

definition attach_l2_or_arp ::
  "arp_env \<Rightarrow> u64 \<Rightarrow> u64 \<Rightarrow> u64 \<Rightarrow> arp_state \<Rightarrow> rte_mbuf \<Rightarrow> u16 \<Rightarrow> u32 \<Rightarrow> u32 \<Rightarrow> bool \<Rightarrow>
     arp_state \<times> rte_mbuf \<times> int" where
  "attach_l2_or_arp env now now1 now2 s pkt out_port local_ip_be next_hop_ip_be has_nf =
     (let (tbl, ne) = neigh_lookup (env_hz env) now (neigh_tbl s) out_port next_hop_ip_be;
          s = s \<lparr>neigh_tbl := tbl\<rparr>;
          resolve = (fst (send_arp_request env now1 now2 s out_port local_ip_be next_hop_ip_be
                       has_nf), pkt, -1)
      in case ne of
           None \<Rightarrow> resolve
         | Some idx \<Rightarrow>
             if ne_state (tbl ! idx) \<noteq> NEIGH_REACHABLE then resolve
             else case rte_pktmbuf_prepend pkt 14 of
                    None \<Rightarrow> (s, pkt, -1)
                  | Some pkt \<Rightarrow>
                      (case env_macaddr_get env out_port of
                         None \<Rightarrow> (s, pkt, -1)
                       | Some local_mac \<Rightarrow>
                           (s, st16 12 (rte_cpu_to_be_16 RTE_ETHER_TYPE_IPV4)
                                 (st_mac 0 (ne_mac (tbl ! idx)) (st_mac 6 local_mac pkt)), 0)))"

subsection \<open>The table as a map\<close>

definition neigh_key :: "neigh_entry \<Rightarrow> u16 \<times> u32" where
  "neigh_key e = (ne_port_id e, ne_ip_be e)"

definition key_hash :: "u16 \<times> u32 \<Rightarrow> nat" where
  "key_hash k = neigh_hash (fst k) (snd k)"

lemma key_hash_less [simp]: "key_hash k < NEIGH_MAX"
  by (simp add: key_hash_def neigh_hash_def)

interpretation nb: probe_table NEIGH_MAX key_hash ne_in_use neigh_key
  by unfold_locales simp

abbreviation neigh_find :: "neigh_entry list \<Rightarrow> u16 \<times> u32 \<Rightarrow> nat option" where
  "neigh_find \<equiv> tbl_search NEIGH_MAX key_hash ne_in_use neigh_key"

abbreviation neigh_inv :: "neigh_entry list \<Rightarrow> bool" where
  "neigh_inv \<equiv> probe_inv NEIGH_MAX key_hash ne_in_use neigh_key"

definition neigh_map :: "neigh_entry list \<Rightarrow> u16 \<times> u32 \<Rightarrow> neigh_entry option" where
  "neigh_map tbl k = map_option (nth tbl) (neigh_find tbl k)"

lemma probe_search_find:
  "probe_search NEIGH_MAX (\<lambda>i. ne_in_use (tbl ! i)) (neigh_hit tbl port ip)
     (neigh_hash port ip) (neigh_hash port ip) = neigh_find tbl (port, ip)"
proof -
  have "neigh_hit tbl port ip = (\<lambda>i. neigh_key (tbl ! i) = (port, ip))"
    by (auto simp: neigh_hit_def neigh_key_def)
  then show ?thesis by (simp add: tbl_search_def key_hash_def)
qed

text \<open>The slot a new key goes to: the first free one of its walk, or its start when all are taken.\<close>

definition neigh_slot :: "neigh_entry list \<Rightarrow> u16 \<times> u32 \<Rightarrow> nat" where
  "neigh_slot tbl k =
     (case tbl_free NEIGH_MAX key_hash ne_in_use tbl k of Some i \<Rightarrow> i | None \<Rightarrow> key_hash k)"

lemma probe_free_slot:
  "(case probe_free NEIGH_MAX (\<lambda>i. ne_in_use (tbl ! i)) (neigh_hash port ip) (neigh_hash port ip) of
      Some i \<Rightarrow> tbl[i := e] | None \<Rightarrow> tbl[neigh_hash port ip := e]) =
   tbl[neigh_slot tbl (port, ip) := e]"
  by (simp add: neigh_slot_def tbl_free_def key_hash_def split: option.splits)

lemma neigh_put:
  assumes inv: "neigh_inv tbl" and new: "neigh_find tbl k = None"
    and e: "ne_in_use e" "neigh_key e = k"
  shows neigh_put_inv: "neigh_inv (tbl[neigh_slot tbl k := e])"
    and neigh_put_find: "neigh_find (tbl[neigh_slot tbl k := e]) k' =
      (if k' = k then Some (neigh_slot tbl k)
       else if neigh_find tbl k' = Some (neigh_slot tbl k) then None else neigh_find tbl k')"
    and neigh_slot_less: "neigh_slot tbl k < length tbl"
    and neigh_slot_used: "ne_in_use (tbl ! neigh_slot tbl k) \<Longrightarrow> \<forall>i<NEIGH_MAX. ne_in_use (tbl ! i)"
proof -
  obtain j where j: "j < NEIGH_MAX" "neigh_slot tbl k = walk NEIGH_MAX (key_hash k) j"
    and used: "\<forall>j'<j. ne_in_use (tbl ! walk NEIGH_MAX (key_hash k) j')"
    and full: "ne_in_use (tbl ! neigh_slot tbl k) \<longrightarrow> (\<forall>i<NEIGH_MAX. ne_in_use (tbl ! i))"
  proof (cases "tbl_free NEIGH_MAX key_hash ne_in_use tbl k")
    case None
    then have "neigh_slot tbl k = key_hash k" by (simp add: neigh_slot_def)
    moreover have "\<forall>i<NEIGH_MAX. ne_in_use (tbl ! i)"
      using None by (simp only: nb.free_None_iff)
    ultimately show ?thesis using that [of 0] by simp
  next
    case (Some i)
    then have "neigh_slot tbl k = i" by (simp add: neigh_slot_def)
    moreover obtain j where "j < NEIGH_MAX" "i = walk NEIGH_MAX (key_hash k) j"
        "\<not> ne_in_use (tbl ! i)" "\<forall>j'<j. ne_in_use (tbl ! walk NEIGH_MAX (key_hash k) j')"
      using Some unfolding nb.free_Some_iff by blast
    ultimately show ?thesis using that [of j] by simp
  qed
  have none: "\<forall>i<NEIGH_MAX. ne_in_use (tbl ! i) \<longrightarrow> neigh_key (tbl ! i) \<noteq> k"
    using new nb.inv_search_None [OF inv] by blast
  then have before: "\<forall>j'<j. ne_in_use (tbl ! walk NEIGH_MAX (key_hash k) j') \<and>
      neigh_key (tbl ! walk NEIGH_MAX (key_hash k) j') \<noteq> k"
    using used by simp
  have uniq: "\<forall>i<NEIGH_MAX. i \<noteq> neigh_slot tbl k \<longrightarrow> ne_in_use (tbl ! i) \<longrightarrow> neigh_key (tbl ! i) \<noteq> k"
    using none by blast
  show "neigh_inv (tbl[neigh_slot tbl k := e])"
    by (rule nb.update_inv [OF inv j before e uniq])
  show "neigh_find (tbl[neigh_slot tbl k := e]) k' =
      (if k' = k then Some (neigh_slot tbl k)
       else if neigh_find tbl k' = Some (neigh_slot tbl k) then None else neigh_find tbl k')"
    by (rule nb.update_search [OF inv j before e uniq])
  show "neigh_slot tbl k < length tbl" using inv j by (simp add: probe_inv_def)
  show "ne_in_use (tbl ! neigh_slot tbl k) \<Longrightarrow> \<forall>i<NEIGH_MAX. ne_in_use (tbl ! i)"
    using full by blast
qed

text \<open>Writing the entry of a known key changes that key only.\<close>

lemma neigh_overwrite:
  assumes inv: "neigh_inv tbl" and found: "neigh_find tbl k = Some i"
    and e: "ne_in_use e" "neigh_key e = k"
  shows "neigh_inv (tbl[i := e])" "neigh_map (tbl[i := e]) = (neigh_map tbl)(k := Some e)"
    "neigh_find (tbl[i := e]) = neigh_find tbl"
proof -
  have i: "i < length tbl" "neigh_key (tbl ! i) = k" "ne_in_use (tbl ! i)"
    using nb.search_sound [OF found] inv by (auto simp: probe_inv_def)
  show "neigh_inv (tbl[i := e])" by (rule nb.overwrite_inv [OF inv found e])
  have f: "neigh_find (tbl[i := e]) k' = neigh_find tbl k'" for k'
    by (rule nb.overwrite_search [OF inv found e])
  then show "neigh_find (tbl[i := e]) = neigh_find tbl" by blast
  show "neigh_map (tbl[i := e]) = (neigh_map tbl)(k := Some e)"
  proof
    fix k'
    show "neigh_map (tbl[i := e]) k' = ((neigh_map tbl)(k := Some e)) k'"
    proof (cases "k' = k")
      case True
      then show ?thesis using i found by (simp add: neigh_map_def f)
    next
      case False
      then have "neigh_find tbl k' \<noteq> Some i" using nb.search_sound [of tbl k' i] i by auto
      then show ?thesis using False by (cases "neigh_find tbl k'") (auto simp: neigh_map_def f)
    qed
  qed
qed

lemma neigh_map_put:
  assumes inv: "neigh_inv tbl" and new: "neigh_find tbl k = None"
    and e: "ne_in_use e" "neigh_key e = k"
  shows "neigh_map (tbl[neigh_slot tbl k := e]) k' =
    (if k' = k then Some e
     else if neigh_find tbl k' = Some (neigh_slot tbl k) then None else neigh_map tbl k')"
  using neigh_slot_less [OF assms]
  by (auto simp: neigh_map_def neigh_put_find [OF assms] option.map_comp comp_def
      split: option.splits intro!: option.map_cong0)

text \<open>Lookup ages the entry it returns and changes nothing else.\<close>

lemma neigh_age_key [simp]: "neigh_key (neigh_age hz now e) = neigh_key e"
  "ne_in_use (neigh_age hz now e) = ne_in_use e" "ne_mac (neigh_age hz now e) = ne_mac e"
  "ne_last_update_tsc (neigh_age hz now e) = ne_last_update_tsc e"
  by (simp_all add: neigh_age_def neigh_key_def)

lemma neigh_lookup_spec:
  assumes inv: "neigh_inv tbl" and l: "neigh_lookup hz now tbl port ip = (tbl', r)"
  shows "r = neigh_find tbl (port, ip)" "neigh_inv tbl'" "neigh_find tbl' = neigh_find tbl"
    "neigh_map tbl' =
       (neigh_map tbl)((port, ip) := map_option (neigh_age hz now) (neigh_map tbl (port, ip)))"
proof -
  have "r = neigh_find tbl (port, ip) \<and> neigh_inv tbl' \<and> neigh_find tbl' = neigh_find tbl \<and>
    neigh_map tbl' =
      (neigh_map tbl)((port, ip) := map_option (neigh_age hz now) (neigh_map tbl (port, ip)))"
  proof (cases "neigh_find tbl (port, ip)")
    case None
    then show ?thesis using l inv by (auto simp: neigh_lookup_def probe_search_find neigh_map_def)
  next
    case (Some i)
    have u: "ne_in_use (neigh_age hz now (tbl ! i))"
        "neigh_key (neigh_age hz now (tbl ! i)) = (port, ip)"
      using nb.search_sound [OF Some] by auto
    have t: "tbl' = tbl[i := neigh_age hz now (tbl ! i)]" "r = Some i"
      using l Some by (auto simp: neigh_lookup_def probe_search_find)
    show ?thesis
      using neigh_overwrite [OF inv Some u] Some by (simp add: t neigh_map_def [of tbl "(port, ip)"])
  qed
  then show "r = neigh_find tbl (port, ip)" "neigh_inv tbl'" "neigh_find tbl' = neigh_find tbl"
    "neigh_map tbl' =
       (neigh_map tbl)((port, ip) := map_option (neigh_age hz now) (neigh_map tbl (port, ip)))"
    by blast+
qed

lemma neigh_update_found:
  assumes "neigh_find tbl (port, ip) = Some i"
  shows "neigh_update now tbl port ip (Some mac) = tbl[i := (tbl ! i)
    \<lparr>ne_mac := mac, ne_last_update_tsc := now, ne_state := NEIGH_REACHABLE\<rparr>]"
  using assms by (simp add: neigh_update_def Let_def probe_search_find)

lemma neigh_update_new:
  assumes "neigh_find tbl (port, ip) = None"
  shows "neigh_update now tbl port ip (Some mac) = tbl[neigh_slot tbl (port, ip) :=
    \<lparr>ne_ip_be = ip, ne_port_id = port, ne_mac = mac, ne_last_update_tsc = now,
     ne_state = NEIGH_REACHABLE, ne_in_use = True\<rparr>]"
  using assms by (simp add: neigh_update_def Let_def probe_search_find probe_free_slot)

lemma neigh_mark_new:
  "neigh_mark_incomplete now tbl port ip None = tbl[neigh_slot tbl (port, ip) :=
    \<lparr>ne_ip_be = ip, ne_port_id = port, ne_mac = zero_mac, ne_last_update_tsc = now,
     ne_state = NEIGH_INCOMPLETE, ne_in_use = True\<rparr>]"
  by (simp add: neigh_mark_incomplete_def Let_def probe_free_slot)

text \<open>The entry an update leaves for its key.\<close>

definition learned :: "u16 \<Rightarrow> u32 \<Rightarrow> rte_ether_addr \<Rightarrow> u64 \<Rightarrow> neigh_entry" where
  "learned port ip mac now = \<lparr>ne_ip_be = ip, ne_port_id = port, ne_mac = mac,
     ne_last_update_tsc = now, ne_state = NEIGH_REACHABLE, ne_in_use = True\<rparr>"

lemma found_entry:
  assumes "neigh_find tbl (port, ip) = Some i"
  shows "ne_in_use (tbl ! i)" "ne_port_id (tbl ! i) = port" "ne_ip_be (tbl ! i) = ip"
  using nb.search_sound [OF assms] by (auto simp: neigh_key_def)

lemma neigh_update_spec:
  assumes inv: "neigh_inv tbl"
  shows "neigh_inv (neigh_update now tbl port ip (Some mac)) \<and>
    neigh_map (neigh_update now tbl port ip (Some mac)) (port, ip) =
      Some (learned port ip mac now) \<and>
    (\<exists>ev. (ev \<noteq> None \<longrightarrow> (\<forall>i<NEIGH_MAX. ne_in_use (tbl ! i))) \<and>
      (\<forall>k. k \<noteq> (port, ip) \<longrightarrow> neigh_map (neigh_update now tbl port ip (Some mac)) k =
        (if ev = Some k then None else neigh_map tbl k)))"
proof (cases "neigh_find tbl (port, ip)")
  case None
  let ?e = "learned port ip mac now" and ?i = "neigh_slot tbl (port, ip)"
  have e: "ne_in_use ?e" "neigh_key ?e = (port, ip)" by (simp_all add: learned_def neigh_key_def)
  have u: "neigh_update now tbl port ip (Some mac) = tbl[?i := ?e]"
    using neigh_update_new [OF None] by (simp add: learned_def)
  define ev where "ev = (if ne_in_use (tbl ! ?i) then Some (neigh_key (tbl ! ?i)) else None)"
  have "(neigh_find tbl k = Some ?i) = (ev = Some k)" for k
    using nb.search_sound [of tbl k ?i] neigh_slot_less [OF inv None e] inv
    by (auto simp: probe_inv_def ev_def)
  then have o: "\<forall>k. k \<noteq> (port, ip) \<longrightarrow>
      neigh_map (tbl[?i := ?e]) k = (if ev = Some k then None else neigh_map tbl k)"
    by (simp add: neigh_map_put [OF inv None e])
  have v: "ev \<noteq> None \<longrightarrow> (\<forall>i<NEIGH_MAX. ne_in_use (tbl ! i))"
    using neigh_slot_used [OF inv None e] by (auto simp: ev_def)
  have k: "neigh_map (tbl[?i := ?e]) (port, ip) = Some ?e"
    by (simp add: neigh_map_put [OF inv None e])
  show ?thesis unfolding u by (intro conjI exI [of _ ev] neigh_put_inv [OF inv None e] k v o)
next
  case (Some i)
  let ?e = "(tbl ! i) \<lparr>ne_mac := mac, ne_last_update_tsc := now, ne_state := NEIGH_REACHABLE\<rparr>"
  have e: "ne_in_use ?e" "neigh_key ?e = (port, ip)" "?e = learned port ip mac now"
    using found_entry [OF Some] by (simp_all add: neigh_key_def learned_def)
  note O = neigh_overwrite [OF inv Some e(1,2)]
  have o: "\<forall>k. k \<noteq> (port, ip) \<longrightarrow> ((neigh_map tbl)((port, ip) \<mapsto> ?e)) k =
      (if None = Some k then None else neigh_map tbl k)" by simp
  have k: "((neigh_map tbl)((port, ip) \<mapsto> ?e)) (port, ip) = Some (learned port ip mac now)"
    using e(3) by simp
  show ?thesis
    unfolding neigh_update_found [OF Some] O(2) by (intro conjI exI [of _ None] O(1) k o) simp
qed

lemmas neigh_update_inv = neigh_update_spec [THEN conjunct1]
lemmas neigh_update_key = neigh_update_spec [THEN conjunct2, THEN conjunct1]

lemma neigh_empty_inv: "neigh_inv (replicate NEIGH_MAX empty_neigh)"
  by (rule nb.inv_unused) (simp_all add: empty_neigh_def)

text \<open>
  C37. Learning a neighbour refines a map update. After \<^verbatim>\<open>neigh_update\<close> the table is well formed,
  the neighbour is found with the new MAC address, reachable and stamped with the clock, and
  every other neighbour is unchanged, except that one other neighbour may be evicted, and
  that only when all 64 slots were taken.
\<close>

theorem neigh_update_refines:
  assumes "neigh_inv tbl"
  shows "neigh_inv (neigh_update now tbl port ip (Some mac)) \<and>
    neigh_map (neigh_update now tbl port ip (Some mac)) (port, ip) =
      Some (learned port ip mac now) \<and>
    (\<exists>ev. (ev \<noteq> None \<longrightarrow> (\<forall>i<NEIGH_MAX. ne_in_use (tbl ! i))) \<and>
      (\<forall>k. k \<noteq> (port, ip) \<longrightarrow> neigh_map (neigh_update now tbl port ip (Some mac)) k =
        (if ev = Some k then None else neigh_map tbl k)))"
  using assms by (rule neigh_update_spec)

theorem neigh_update_refines_witness:
  "neigh_map (neigh_update 5 (replicate NEIGH_MAX empty_neigh) 0 7 (Some broadcast_mac)) (0, 7) =
     Some (learned 0 7 broadcast_mac 5)"
  using neigh_update_refines [OF neigh_empty_inv] by blast

text \<open>
  The Ethernet header of an outgoing packet. \<^verbatim>\<open>attach_l2_or_arp\<close> succeeds exactly when the
  next hop is a known neighbour that is reachable and not timed out, the packet has headroom
  and the port has an address. The frame then goes from the port's address to the learned
  one, with type IPv4, in front of the unchanged packet, and no ARP request is sent. On
  failure the result is -1.
\<close>

theorem attach_l2_exact:
  fixes s :: arp_state and pkt :: rte_mbuf
  assumes "neigh_inv (neigh_tbl s)"
    and "\<And>p mac. env_macaddr_get env p = Some mac \<Longrightarrow> length mac = 6"
    and "\<And>e. neigh_map (neigh_tbl s) (out_port, nh) = Some e \<Longrightarrow> length (ne_mac e) = 6"
    and "attach_l2_or_arp env now now1 now2 s pkt out_port lip nh has_nf = (s', pkt', rc)"
  shows "rc = (if (\<exists>e mac. neigh_map (neigh_tbl s) (out_port, nh) = Some e \<and>
        ne_state (neigh_age (env_hz env) now e) = NEIGH_REACHABLE \<and> 14 \<le> mb_data_off pkt \<and>
        env_macaddr_get env out_port = Some mac) then 0 else -1) \<and>
    (rc = 0 \<longrightarrow> (\<exists>e. neigh_map (neigh_tbl s) (out_port, nh) = Some e \<and>
        eth_dst_addr pkt' = ne_mac e) \<and>
      env_macaddr_get env out_port = Some (eth_src_addr pkt') \<and>
      rte_be_to_cpu_16 (ether_type pkt') = RTE_ETHER_TYPE_IPV4 \<and>
      (\<forall>j. ld8 pkt' (ETHER_HDR + j) = ld8 pkt j) \<and>
      mb_data_len pkt' = mb_data_len pkt + 14 \<and> arp_sent s' = arp_sent s)"
proof -
  obtain tbl ne where l: "neigh_lookup (env_hz env) now (neigh_tbl s) out_port nh = (tbl, ne)"
    by fastforce
  note L = neigh_lookup_spec [OF assms(1) l]
  show ?thesis
  proof (cases ne)
    case None
    then have "rc = -1" using assms(4) l by (auto simp: attach_l2_or_arp_def Let_def)
    moreover have "neigh_map (neigh_tbl s) (out_port, nh) = None"
      using None L(1) by (simp add: neigh_map_def)
    ultimately show ?thesis by simp
  next
    case (Some i)
    define e where "e = neigh_tbl s ! i"
    have m: "neigh_map (neigh_tbl s) (out_port, nh) = Some e"
      using Some L(1) by (simp add: neigh_map_def e_def)
    have "neigh_map tbl (out_port, nh) = Some (neigh_age (env_hz env) now e)"
      by (simp add: L(4) m)
    then have t: "tbl ! i = neigh_age (env_hz env) now e"
      using L(3) Some L(1) by (simp add: neigh_map_def)
    show ?thesis
    proof (cases "ne_state (neigh_age (env_hz env) now e) = NEIGH_REACHABLE \<and> 14 \<le> mb_data_off pkt
        \<and> env_macaddr_get env out_port \<noteq> None")
      case False
      then have "rc = -1"
        using assms(4) l Some t
        by (auto simp: attach_l2_or_arp_def Let_def rte_pktmbuf_prepend_def not_le
            split: if_splits option.splits)
      then show ?thesis using False m by auto
    next
      case True
      then obtain mac where mac: "env_macaddr_get env out_port = Some mac" by blast
      obtain p where p: "rte_pktmbuf_prepend pkt 14 = Some p"
        using True by (simp add: rte_pktmbuf_prepend_def not_less)
      have r: "rc = 0" "arp_sent s' = arp_sent s"
        "pkt' = st16 12 (rte_bswap16 0x0800) (st_mac 0 (ne_mac e) (st_mac 6 mac p))"
        using assms(4) l Some t True mac p by (auto simp: attach_l2_or_arp_def Let_def)
      have "ld8 pkt' (14 + j) = ld8 pkt j" for j
        using prepend_SomeD(6) [OF p, of j] by (simp add: r(3) ld8_st_mac)
      then show ?thesis
        using True m mac r assms(2) [OF mac] assms(3) [OF m] prepend_SomeD(2) [OF p]
        by (auto simp: ld_other)
    qed
  qed
qed

text \<open>Two hosts for the examples: a pool of empty mbufs and one address on every port.\<close>

definition fresh_mbuf :: rte_mbuf where
  "fresh_mbuf = \<lparr>mb_buf = (\<lambda>_. 0), mb_buf_len = 2176, mb_data_off = 128, mb_data_len = 0,
     mb_pkt_len = 0, mb_port = 0\<rparr>"

definition example_env :: "rte_ether_addr \<Rightarrow> arp_env" where
  "example_env mac = \<lparr>env_hz = 1000, env_pool_lookup = True, env_macaddr_get = (\<lambda>_. Some mac),
     env_alloc = Some fresh_mbuf,
     env_meta = \<lparr>m_action = 0, m_destination = 0, m_src = 0, m_chain_index = 0, m_flags = 0\<rparr>,
     env_return_pkt = 0\<rparr>"

definition example_arp :: arp_state where
  "example_arp = \<lparr>neigh_tbl = replicate NEIGH_MAX empty_neigh, arp_pool = True, arp_sent = []\<rparr>"

lemma example_arp_none [simp]: "neigh_find (replicate NEIGH_MAX empty_neigh) k = None"
  using nb.search_sound [of "replicate NEIGH_MAX empty_neigh" k]
  by (cases "neigh_find (replicate NEIGH_MAX empty_neigh) k") (auto simp: empty_neigh_def)

theorem attach_l2_exact_witness:
  "\<exists>s pkt'. attach_l2_or_arp (example_env broadcast_mac) 6 6 6
      (example_arp \<lparr>neigh_tbl := neigh_update 5 (replicate NEIGH_MAX empty_neigh) 0 7
         (Some zero_mac)\<rparr>)
      (fresh_mbuf \<lparr>mb_data_len := 100\<rparr>) 0 1 7 True = (s, pkt', 0) \<and>
    eth_dst_addr pkt' = zero_mac"
proof -
  let ?t = "neigh_update 5 (replicate NEIGH_MAX empty_neigh) 0 7 (Some zero_mac)"
  let ?s = "example_arp \<lparr>neigh_tbl := ?t\<rparr>" and ?p = "fresh_mbuf \<lparr>mb_data_len := 100\<rparr>"
  have inv: "neigh_inv (neigh_tbl ?s)" using neigh_update_inv [OF neigh_empty_inv] by simp
  have m: "neigh_map (neigh_tbl ?s) (0, 7) = Some (learned 0 7 zero_mac 5)"
    using neigh_update_key [OF neigh_empty_inv] by simp
  obtain s' pkt' rc where r: "attach_l2_or_arp (example_env broadcast_mac) 6 6 6 ?s ?p 0 1 7 True =
      (s', pkt', rc)" by (cases "attach_l2_or_arp (example_env broadcast_mac) 6 6 6 ?s ?p 0 1 7 True")
  have "rc = 0" "eth_dst_addr pkt' = zero_mac"
    using attach_l2_exact [OF inv _ _ r] m
    by (simp_all add: example_env_def broadcast_mac_def zero_mac_def learned_def neigh_age_def
        fresh_mbuf_def)
  with r show ?thesis by blast
qed

subsection \<open>Requests\<close>

text \<open>The cases of \<^verbatim>\<open>send_arp_request\<close> in which a packet leaves.\<close>

lemma send_arp_request_sent:
  assumes "send_arp_request env now now' s port sip tip has_nf = (s', rc)"
    and "arp_sent s' = arp_sent s @ [(req, pmeta)]"
    and "neigh_lookup (env_hz env) now' (neigh_tbl s) port tip = (tbl, e)"
  obtains mac m0 m1 where "env_macaddr_get env port = Some mac" "env_alloc env = Some m0"
    "rte_pktmbuf_append m0 42 = Some m1"
    "req = fill_arp mac broadcast_mac 1 mac sip zero_mac tip m1"
    "pmeta = (env_meta env) \<lparr>m_destination := port, m_action := ONVM_NF_ACTION_OUT\<rparr>"
    "neigh_tbl s' = neigh_mark_incomplete now tbl port tip e"
  using assms
  by (auto simp: send_arp_request_def Let_def split: if_splits option.splits)

lemma neigh_mark_map:
  assumes inv: "neigh_inv tbl"
    and st: "\<And>x. neigh_map tbl (port, ip) = Some x \<Longrightarrow> ne_state x \<noteq> NEIGH_REACHABLE \<and> ne_state x \<noteq> NEIGH_EMPTY"
  shows "neigh_inv (neigh_mark_incomplete now tbl port ip (neigh_find tbl (port, ip)))"
    and "\<exists>x. neigh_map (neigh_mark_incomplete now tbl port ip (neigh_find tbl (port, ip))) (port, ip)
        = Some x \<and> ne_state x = NEIGH_INCOMPLETE \<and> ne_last_update_tsc x = now"
proof -
  have "neigh_inv (neigh_mark_incomplete now tbl port ip (neigh_find tbl (port, ip))) \<and>
    (\<exists>x. neigh_map (neigh_mark_incomplete now tbl port ip (neigh_find tbl (port, ip))) (port, ip)
        = Some x \<and> ne_state x = NEIGH_INCOMPLETE \<and> ne_last_update_tsc x = now)"
  proof (cases "neigh_find tbl (port, ip)")
    case None
    let ?e = "\<lparr>ne_ip_be = ip, ne_port_id = port, ne_mac = zero_mac, ne_last_update_tsc = now,
       ne_state = NEIGH_INCOMPLETE, ne_in_use = True\<rparr>"
    have e: "ne_in_use ?e" "neigh_key ?e = (port, ip)" by (simp_all add: neigh_key_def)
    show ?thesis
      unfolding None neigh_mark_new using neigh_put_inv [OF inv None e] neigh_map_put [OF inv None e]
      by simp
  next
    case (Some i)
    let ?e = "(tbl ! i) \<lparr>ne_state := NEIGH_INCOMPLETE, ne_last_update_tsc := now\<rparr>"
    have e: "ne_in_use ?e" "neigh_key ?e = (port, ip)"
      using found_entry [OF Some] by (simp_all add: neigh_key_def)
    have "ne_state (tbl ! i) \<noteq> NEIGH_REACHABLE" "ne_state (tbl ! i) \<noteq> NEIGH_EMPTY"
      using st [of "tbl ! i"] Some by (simp_all add: neigh_map_def)
    then have "ne_state (tbl ! i) = NEIGH_STALE \<or> ne_state (tbl ! i) = NEIGH_INCOMPLETE"
      by (cases "ne_state (tbl ! i)") auto
    then have m: "neigh_mark_incomplete now tbl port ip (Some i) = tbl[i := ?e]"
      by (simp add: neigh_mark_incomplete_def)
    show ?thesis
      unfolding Some m neigh_overwrite(2) [OF inv Some e] using neigh_overwrite(1) [OF inv Some e]
      by simp
  qed
  then show "neigh_inv (neigh_mark_incomplete now tbl port ip (neigh_find tbl (port, ip)))"
    "\<exists>x. neigh_map (neigh_mark_incomplete now tbl port ip (neigh_find tbl (port, ip))) (port, ip)
        = Some x \<and> ne_state x = NEIGH_INCOMPLETE \<and> ne_last_update_tsc x = now"
    by blast+
qed

subsection \<open>Requests over time\<close>

text \<open>
  The operations of the packet path that use the table, with the clock readings they take, and
  the log of the requests a sequence of them sends: the neighbour asked for and the reading
  \<^verbatim>\<open>send_arp_request\<close> took.
\<close>

datatype arp_event =
    Attach arp_env u64 u64 u64 rte_mbuf u16 u32 u32 bool
  | Receive upf_ports arp_env u64 rte_mbuf onvm_pkt_meta bool

fun arp_step :: "arp_event \<Rightarrow> arp_state \<Rightarrow> arp_state" where
  "arp_step (Attach env now now1 now2 pkt port lip nh nf) s =
     fst (attach_l2_or_arp env now now1 now2 s pkt port lip nh nf)"
| "arp_step (Receive cfg env now pkt meta nf) s = fst (handle_arp_packet cfg env now s pkt meta nf)"

fun event_readings :: "arp_event \<Rightarrow> u64 list" where
  "event_readings (Attach env now now1 now2 pkt port lip nh nf) = [now, now1, now2]"
| "event_readings (Receive cfg env now pkt meta nf) = [now]"

fun event_hz :: "arp_event \<Rightarrow> u64" where
  "event_hz (Attach env now now1 now2 pkt port lip nh nf) = env_hz env"
| "event_hz (Receive cfg env now pkt meta nf) = env_hz env"

fun event_key :: "arp_event \<Rightarrow> u16 \<times> u32" where
  "event_key (Attach env now now1 now2 pkt port lip nh nf) = (port, nh)"
| "event_key (Receive cfg env now pkt meta nf) = (mb_port pkt, arp_sip pkt)"

fun request_of :: "arp_event \<Rightarrow> arp_state \<Rightarrow> ((u16 \<times> u32) \<times> u64) list" where
  "request_of (Attach env now now1 now2 pkt port lip nh nf) s =
     (if length (arp_sent s) < length (arp_sent (arp_step (Attach env now now1 now2 pkt port lip nh nf) s))
      then [((port, nh), now1)] else [])"
| "request_of (Receive cfg env now pkt meta nf) s = []"

fun request_log :: "arp_event list \<Rightarrow> arp_state \<Rightarrow> ((u16 \<times> u32) \<times> u64) list" where
  "request_log [] s = []"
| "request_log (e # es) s = request_of e s @ request_log es (arp_step e s)"

text \<open>
  The table during such a run: entries of the neighbours \<open>K\<close> only, none stamped after the clock
  \<open>c\<close>, and a stale one stamped more than the timeout ago.
\<close>

definition neigh_timed :: "(u16 \<times> u32) set \<Rightarrow> u64 \<Rightarrow> nat \<Rightarrow> neigh_entry list \<Rightarrow> bool" where
  "neigh_timed K hz c tbl \<longleftrightarrow> neigh_inv tbl \<and>
     (\<forall>k x. neigh_map tbl k = Some x \<longrightarrow> k \<in> K \<and> ne_state x \<noteq> NEIGH_EMPTY \<and>
       unat (ne_last_update_tsc x) \<le> c \<and>
       (ne_state x = NEIGH_STALE \<longrightarrow> unat (ne_last_update_tsc x) + 300 * unat hz < c))"

definition stamp :: "neigh_entry list \<Rightarrow> u16 \<times> u32 \<Rightarrow> nat option" where
  "stamp tbl k = map_option (\<lambda>x. unat (ne_last_update_tsc x)) (neigh_map tbl k)"

lemma neigh_timed_mono: "neigh_timed K hz c tbl \<Longrightarrow> c \<le> c' \<Longrightarrow> neigh_timed K hz c' tbl"
  by (fastforce simp: neigh_timed_def)

lemma neigh_timed_inv: "neigh_timed K hz c tbl \<Longrightarrow> neigh_inv tbl"
  by (simp add: neigh_timed_def)

lemma neigh_timedD:
  assumes "neigh_timed K hz c tbl" "neigh_map tbl k = Some x"
  shows "k \<in> K" "ne_state x \<noteq> NEIGH_EMPTY" "unat (ne_last_update_tsc x) \<le> c"
    "ne_state x = NEIGH_STALE \<Longrightarrow> unat (ne_last_update_tsc x) + 300 * unat hz < c"
  using assms unfolding neigh_timed_def by blast+

lemma stamp_le: "neigh_timed K hz c tbl \<Longrightarrow> stamp tbl k = Some t \<Longrightarrow> t \<le> c"
  by (auto simp: stamp_def dest: neigh_timedD(3))

text \<open>With at most 64 neighbours a new one always finds a free slot.\<close>

lemma neigh_map_put_free:
  assumes t: "neigh_timed K hz c tbl" and K: "finite K" "card K \<le> NEIGH_MAX" "k \<in> K"
    and new: "neigh_find tbl k = None" and e: "ne_in_use e" "neigh_key e = k"
  shows "neigh_map (tbl[neigh_slot tbl k := e]) = (neigh_map tbl)(k \<mapsto> e)"
proof -
  have inv: "neigh_inv tbl" using t by (rule neigh_timed_inv)
  let ?key = "\<lambda>i. neigh_key (tbl ! i)"
  have found: "neigh_find tbl (?key i) = Some i" if "i < NEIGH_MAX" "ne_in_use (tbl ! i)" for i
    using inv that by (simp add: probe_inv_def)
  have free: "\<not> ne_in_use (tbl ! neigh_slot tbl k)"
  proof
    assume "ne_in_use (tbl ! neigh_slot tbl k)"
    then have full: "ne_in_use (tbl ! i)" if "i < NEIGH_MAX" for i
      using that neigh_slot_used [OF inv new e] by blast
    have "inj_on ?key {..<NEIGH_MAX}"
      by (rule inj_onI) (use found full in \<open>metis lessThan_iff option.inject\<close>)
    then have "card (?key ` {..<NEIGH_MAX}) = NEIGH_MAX" by (simp add: card_image)
    moreover have "?key ` {..<NEIGH_MAX} \<subseteq> K - {k}"
    proof
      fix k' assume "k' \<in> ?key ` {..<NEIGH_MAX}"
      then obtain i where "i < NEIGH_MAX" "k' = ?key i" by blast
      then have "neigh_map tbl k' = Some (tbl ! i)" "k' \<noteq> k"
        using found [of i] full [of i] new by (auto simp: neigh_map_def)
      then show "k' \<in> K - {k}" using neigh_timedD(1) [OF t] by blast
    qed
    ultimately have "NEIGH_MAX \<le> card (K - {k})"
      using K(1) card_mono [of "K - {k}" "?key ` {..<NEIGH_MAX}"] by simp
    then show False using K card_Diff_singleton [of k K] by (cases "card K") auto
  qed
  then have "neigh_find tbl k' \<noteq> Some (neigh_slot tbl k)" for k'
    using nb.search_sound [of tbl k' "neigh_slot tbl k"] by blast
  then show ?thesis by (intro ext) (simp add: neigh_map_put [OF inv new e])
qed

lemma timed_write:
  assumes t: "neigh_timed K hz c tbl" and k: "k \<in> K" and inv: "neigh_inv tbl'"
    and m: "neigh_map tbl' = (neigh_map tbl)(k \<mapsto> x)"
    and x: "ne_state x = NEIGH_REACHABLE \<or> ne_state x = NEIGH_INCOMPLETE" "unat (ne_last_update_tsc x) \<le> c"
  shows "neigh_timed K hz c tbl'" "stamp tbl' = (stamp tbl)(k \<mapsto> unat (ne_last_update_tsc x))"
proof -
  show "neigh_timed K hz c tbl'"
    unfolding neigh_timed_def m using inv k x neigh_timedD [OF t] by auto
  show "stamp tbl' = (stamp tbl)(k \<mapsto> unat (ne_last_update_tsc x))"
    by (intro ext) (simp add: stamp_def m)
qed

lemma lookup_timed:
  assumes t: "neigh_timed K hz c tbl" and l: "neigh_lookup hz now tbl port ip = (tbl', r)"
    and now: "c \<le> unat now" and hz: "0 < hz" "300 * unat hz < 2 ^ 64"
  shows "neigh_timed K hz (unat now) tbl'" "stamp tbl' = stamp tbl" "r = neigh_find tbl' (port, ip)"
    "neigh_map tbl' (port, ip) = map_option (neigh_age hz now) (neigh_map tbl (port, ip))"
proof -
  note L = neigh_lookup_spec [OF neigh_timed_inv [OF t] l]
  show "r = neigh_find tbl' (port, ip)" using L(1,3) by simp
  show m: "neigh_map tbl' (port, ip) = map_option (neigh_age hz now) (neigh_map tbl (port, ip))"
    by (simp add: L(4))
  show "stamp tbl' = stamp tbl" by (intro ext) (simp add: stamp_def L(4) option.map_comp comp_def)
  have p: "unat (300 * hz) = 300 * unat hz"
    using hz(2) by (simp add: unat_word_ariths)
  have "ne_state (neigh_age hz now x) \<noteq> NEIGH_EMPTY \<and>
      (ne_state (neigh_age hz now x) = NEIGH_STALE \<longrightarrow>
        unat (ne_last_update_tsc x) + 300 * unat hz < unat now)"
    if "neigh_map tbl (port, ip) = Some x" for x
  proof -
    have x: "ne_state x \<noteq> NEIGH_EMPTY" "unat (ne_last_update_tsc x) \<le> unat now"
        "ne_state x = NEIGH_STALE \<Longrightarrow> unat (ne_last_update_tsc x) + 300 * unat hz < unat now"
      using neigh_timedD [OF t that] now by auto
    then have "unat (now - ne_last_update_tsc x) = unat now - unat (ne_last_update_tsc x)"
      by (simp add: unat_minus_le word_le_nat_alt)
    then show ?thesis using x p by (auto simp: neigh_age_def word_less_nat_alt)
  qed
  moreover note T = neigh_timedD [OF neigh_timed_mono [OF t now]]
  ultimately show "neigh_timed K hz (unat now) tbl'"
    using L(2) unfolding neigh_timed_def L(4) by (auto dest: T)
qed

lemma mark_timed:
  assumes t: "neigh_timed K hz c tbl" and K: "finite K" "card K \<le> NEIGH_MAX" "(port, ip) \<in> K"
    and st: "\<And>x. neigh_map tbl (port, ip) = Some x \<Longrightarrow> ne_state x \<noteq> NEIGH_REACHABLE"
    and now: "unat now \<le> c"
  defines "tbl' \<equiv> neigh_mark_incomplete now tbl port ip (neigh_find tbl (port, ip))"
  shows "neigh_timed K hz c tbl' \<and> stamp tbl' = (stamp tbl)((port, ip) \<mapsto> unat now)"
proof -
  have inv: "neigh_inv tbl" using t by (rule neigh_timed_inv)
  have "\<exists>x. neigh_inv tbl' \<and> neigh_map tbl' = (neigh_map tbl)((port, ip) \<mapsto> x) \<and>
      ne_state x = NEIGH_INCOMPLETE \<and> ne_last_update_tsc x = now"
  proof (cases "neigh_find tbl (port, ip)")
    case None
    let ?e = "\<lparr>ne_ip_be = ip, ne_port_id = port, ne_mac = zero_mac, ne_last_update_tsc = now,
       ne_state = NEIGH_INCOMPLETE, ne_in_use = True\<rparr>"
    have e: "ne_in_use ?e" "neigh_key ?e = (port, ip)" by (simp_all add: neigh_key_def)
    show ?thesis
      unfolding tbl'_def None neigh_mark_new neigh_map_put_free [OF t K None e]
      by (intro exI [of _ ?e] conjI neigh_put_inv [OF inv None e] refl) simp_all
  next
    case (Some i)
    let ?e = "(tbl ! i) \<lparr>ne_state := NEIGH_INCOMPLETE, ne_last_update_tsc := now\<rparr>"
    have e: "ne_in_use ?e" "neigh_key ?e = (port, ip)"
      using found_entry [OF Some] by (simp_all add: neigh_key_def)
    have "neigh_map tbl (port, ip) = Some (tbl ! i)" using Some by (simp add: neigh_map_def)
    then have "ne_state (tbl ! i) \<noteq> NEIGH_REACHABLE" "ne_state (tbl ! i) \<noteq> NEIGH_EMPTY"
      using st neigh_timedD(2) [OF t] by blast+
    then have "ne_state (tbl ! i) = NEIGH_STALE \<or> ne_state (tbl ! i) = NEIGH_INCOMPLETE"
      by (cases "ne_state (tbl ! i)") auto
    then have m: "tbl' = tbl[i := ?e]" by (simp add: tbl'_def Some neigh_mark_incomplete_def)
    show ?thesis
      unfolding m neigh_overwrite(2) [OF inv Some e]
      by (intro exI [of _ ?e] conjI neigh_overwrite(1) [OF inv Some e] refl) simp_all
  qed
  then show ?thesis using timed_write [OF t K(3)] now by metis
qed

lemma update_timed:
  fixes mac :: rte_ether_addr
  assumes t: "neigh_timed K hz c tbl" and K: "finite K" "card K \<le> NEIGH_MAX" "(port, ip) \<in> K"
    and now: "c \<le> unat now"
  defines "tbl' \<equiv> neigh_update now tbl port ip (Some mac)"
  shows "neigh_timed K hz (unat now) tbl' \<and> stamp tbl' = (stamp tbl)((port, ip) \<mapsto> unat now)"
proof -
  have inv: "neigh_inv tbl" using t by (rule neigh_timed_inv)
  have "neigh_map tbl' = (neigh_map tbl)((port, ip) \<mapsto> learned port ip mac now)"
  proof (cases "neigh_find tbl (port, ip)")
    case None
    have e: "ne_in_use (learned port ip mac now)" "neigh_key (learned port ip mac now) = (port, ip)"
      by (simp_all add: learned_def neigh_key_def)
    show ?thesis
      unfolding tbl'_def neigh_update_new [OF None] using neigh_map_put_free [OF t K None e]
      by (simp add: learned_def)
  next
    case (Some i)
    let ?e = "(tbl ! i) \<lparr>ne_mac := mac, ne_last_update_tsc := now, ne_state := NEIGH_REACHABLE\<rparr>"
    have e: "ne_in_use ?e" "neigh_key ?e = (port, ip)" "?e = learned port ip mac now"
      using found_entry [OF Some] by (simp_all add: neigh_key_def learned_def)
    show ?thesis
      unfolding tbl'_def neigh_update_found [OF Some] neigh_overwrite(2) [OF inv Some e(1,2)]
      by (simp only: e(3))
  qed
  moreover have "neigh_inv tbl'" using neigh_update_inv [OF inv] by (simp add: tbl'_def)
  ultimately show ?thesis
    using timed_write [OF neigh_timed_mono [OF t now] K(3), of tbl' "learned port ip mac now"]
    by (simp add: learned_def)
qed

text \<open>
  A request only leaves when the neighbour is unknown or was last stamped at least a second
  before, and it stamps the neighbour.
\<close>

lemma send_arp_request_timed:
  fixes lip :: u32 and nf :: bool
  assumes t: "neigh_timed K hz c (neigh_tbl s)" and K: "finite K" "card K \<le> NEIGH_MAX" "(port, ip) \<in> K"
    and hz: "0 < hz" "300 * unat hz < 2 ^ 64" "env_hz env = hz"
    and st: "\<And>x. neigh_map (neigh_tbl s) (port, ip) = Some x \<Longrightarrow> ne_state x \<noteq> NEIGH_REACHABLE"
    and now: "c \<le> unat now1" "unat now1 \<le> unat now2"
  defines "s' \<equiv> fst (send_arp_request env now1 now2 s port lip ip nf)"
  shows "neigh_timed K hz (unat now2) (neigh_tbl s') \<and>
    (arp_sent s' = arp_sent s \<and> stamp (neigh_tbl s') = stamp (neigh_tbl s) \<or>
     length (arp_sent s) < length (arp_sent s') \<and>
     stamp (neigh_tbl s') = (stamp (neigh_tbl s))((port, ip) \<mapsto> unat now1) \<and>
     (\<forall>u. stamp (neigh_tbl s) (port, ip) = Some u \<longrightarrow> u + unat hz \<le> unat now1))"
proof -
  obtain tbl e where l: "neigh_lookup hz now2 (neigh_tbl s) port ip = (tbl, e)" by fastforce
  have c2: "c \<le> unat now2" using now by simp
  note L = lookup_timed [OF t l c2 hz(1,2)]
  have same: "neigh_map tbl (port, ip) = neigh_map (neigh_tbl s) (port, ip)"
    using L(4) st by (cases "neigh_map (neigh_tbl s) (port, ip)") (auto simp: neigh_age_def)
  note M = mark_timed [OF L(1) K, of now1, folded L(3)]
  have keep: "neigh_timed K hz (unat now2) (neigh_tbl s)" using t c2 by (rule neigh_timed_mono)
  have "arp_sent s' = arp_sent s \<and> (neigh_tbl s' = tbl \<or> neigh_tbl s' = neigh_tbl s) \<or>
      length (arp_sent s) < length (arp_sent s') \<and>
      neigh_tbl s' = neigh_mark_incomplete now1 tbl port ip e \<and>
      \<not> (\<exists>i. e = Some i \<and> ne_state (tbl ! i) = NEIGH_INCOMPLETE \<and> now1 - ne_last_update_tsc (tbl ! i) < hz)"
    unfolding s'_def send_arp_request_def
    using l hz(1,3) by (simp add: Let_def split: option.split)
  then consider (quiet) "arp_sent s' = arp_sent s" "neigh_tbl s' = tbl \<or> neigh_tbl s' = neigh_tbl s"
    | (sent) "length (arp_sent s) < length (arp_sent s')"
        "neigh_tbl s' = neigh_mark_incomplete now1 tbl port ip e"
        "\<not> (\<exists>i. e = Some i \<and> ne_state (tbl ! i) = NEIGH_INCOMPLETE \<and>
            now1 - ne_last_update_tsc (tbl ! i) < hz)"
    by blast
  then show ?thesis
  proof cases
    case quiet
    then show ?thesis using L(1,2) keep by auto
  next
    case sent
    have "u + unat hz \<le> unat now1" if u: "stamp (neigh_tbl s) (port, ip) = Some u" for u
    proof -
      obtain x where x: "neigh_map (neigh_tbl s) (port, ip) = Some x" "u = unat (ne_last_update_tsc x)"
        using u by (auto simp: stamp_def)
      have q: "ne_state x \<noteq> NEIGH_EMPTY" "u \<le> unat now1"
          "ne_state x = NEIGH_STALE \<Longrightarrow> u + 300 * unat hz < unat now1"
        using neigh_timedD [OF t x(1)] x(2) now(1) by auto
      obtain i where i: "e = Some i" "tbl ! i = x"
        using same x(1) L(3) by (auto simp: neigh_map_def)
      have "unat (now1 - ne_last_update_tsc x) = unat now1 - u"
        using q(2) x(2) by (simp add: unat_minus_le word_le_nat_alt)
      then have "ne_state x = NEIGH_INCOMPLETE \<Longrightarrow> unat hz \<le> unat now1 - u"
        using sent(3) i by (auto simp: word_less_nat_alt not_less)
      then show ?thesis using q st [OF x(1)] by (cases "ne_state x") auto
    qed
    moreover have "neigh_timed K hz (unat now2) (neigh_tbl s') \<and>
        stamp (neigh_tbl s') = (stamp tbl)((port, ip) \<mapsto> unat now1)"
      unfolding sent(2) using M now(2) st same by simp
    ultimately show ?thesis using sent(1) L(2) by simp
  qed
qed

lemma attach_timed:
  fixes lip :: u32 and nf :: bool and pkt :: rte_mbuf
  assumes t: "neigh_timed K hz c (neigh_tbl s)" and K: "finite K" "card K \<le> NEIGH_MAX" "(port, ip) \<in> K"
    and hz: "0 < hz" "300 * unat hz < 2 ^ 64" "env_hz env = hz"
    and now: "c \<le> unat now" "unat now \<le> unat now1" "unat now1 \<le> unat now2"
  defines "s' \<equiv> fst (attach_l2_or_arp env now now1 now2 s pkt port lip ip nf)"
  shows "neigh_timed K hz (unat now2) (neigh_tbl s') \<and>
    (arp_sent s' = arp_sent s \<and> stamp (neigh_tbl s') = stamp (neigh_tbl s) \<or>
     length (arp_sent s) < length (arp_sent s') \<and>
     stamp (neigh_tbl s') = (stamp (neigh_tbl s))((port, ip) \<mapsto> unat now1) \<and>
     (\<forall>u. stamp (neigh_tbl s) (port, ip) = Some u \<longrightarrow> u + unat hz \<le> unat now1))"
proof -
  obtain tbl e where l: "neigh_lookup hz now (neigh_tbl s) port ip = (tbl, e)" by fastforce
  note L = lookup_timed [OF t l now(1) hz(1,2)]
  let ?s = "s \<lparr>neigh_tbl := tbl\<rparr>"
  have keep: "neigh_timed K hz (unat now2) tbl" using L(1) by (rule neigh_timed_mono) (use now in simp)
  have "arp_sent s' = arp_sent s \<and> neigh_tbl s' = tbl \<or>
      s' = fst (send_arp_request env now1 now2 ?s port lip ip nf) \<and>
      (\<forall>i. e = Some i \<longrightarrow> ne_state (tbl ! i) \<noteq> NEIGH_REACHABLE)"
    unfolding s'_def attach_l2_or_arp_def
    using l hz(3) by (simp add: Let_def split: option.split)
  then consider (attached) "arp_sent s' = arp_sent s" "neigh_tbl s' = tbl"
    | (resolve) "s' = fst (send_arp_request env now1 now2 ?s port lip ip nf)"
        "\<And>i. e = Some i \<Longrightarrow> ne_state (tbl ! i) \<noteq> NEIGH_REACHABLE"
    by blast
  then show ?thesis
  proof cases
    case resolve
    have "ne_state x \<noteq> NEIGH_REACHABLE" if "neigh_map tbl (port, ip) = Some x" for x
      using that resolve(2) L(3) by (auto simp: neigh_map_def)
    then show ?thesis
      using send_arp_request_timed [of K hz "unat now" ?s, OF _ K hz _ now(2,3)] L(1,2)
      by (simp add: resolve(1))
  qed (use keep L(2) in simp)
qed

lemma receive_timed:
  fixes cfg :: upf_ports and env :: arp_env and meta :: onvm_pkt_meta and nf :: bool
  assumes t: "neigh_timed K hz c (neigh_tbl s)" and K: "finite K" "card K \<le> NEIGH_MAX"
      "(mb_port pkt, arp_sip pkt) \<in> K"
    and now: "c \<le> unat now"
  defines "s' \<equiv> fst (handle_arp_packet cfg env now s pkt meta nf)"
  shows "neigh_timed K hz (unat now) (neigh_tbl s') \<and>
    (stamp (neigh_tbl s') = stamp (neigh_tbl s) \<or>
     stamp (neigh_tbl s') = (stamp (neigh_tbl s))((mb_port pkt, arp_sip pkt) \<mapsto> unat now))"
proof -
  have "neigh_tbl s' = neigh_tbl s \<or>
      neigh_tbl s' = neigh_update now (neigh_tbl s) (mb_port pkt) (arp_sip pkt) (Some (arp_sha pkt))"
    unfolding s'_def
    by (auto simp: handle_arp_packet_def send_arp_reply_def Let_def split: option.splits)
  then show ?thesis using neigh_timed_mono [OF t now] update_timed [OF t K now] by auto
qed

text \<open>Every event of a run keeps the table in step with the clock and never takes a stamp back.\<close>

lemma event_timed:
  assumes t: "neigh_timed K hz c (neigh_tbl s)" and K: "finite K" "card K \<le> NEIGH_MAX" "event_key e \<in> K"
    and hz: "0 < hz" "300 * unat hz < 2 ^ 64" "event_hz e = hz"
    and clock: "sorted (c # map unat (event_readings e))"
  defines "s' \<equiv> arp_step e s"
  shows "neigh_timed K hz (last (map unat (event_readings e))) (neigh_tbl s')"
    and "stamp (neigh_tbl s) k = Some u \<Longrightarrow> \<exists>u' \<ge> u. stamp (neigh_tbl s') k = Some u'"
    and "r \<in> set (request_of e s) \<Longrightarrow>
      stamp (neigh_tbl s') (fst r) = Some (unat (snd r)) \<and>
      (\<forall>u. stamp (neigh_tbl s) (fst r) = Some u \<longrightarrow> u + unat hz \<le> unat (snd r))"
proof -
  note le = stamp_le [OF t]
  have "neigh_timed K hz (last (map unat (event_readings e))) (neigh_tbl s') \<and>
    (\<forall>k u. stamp (neigh_tbl s) k = Some u \<longrightarrow> (\<exists>u' \<ge> u. stamp (neigh_tbl s') k = Some u')) \<and>
    (\<forall>r \<in> set (request_of e s). stamp (neigh_tbl s') (fst r) = Some (unat (snd r)) \<and>
      (\<forall>u. stamp (neigh_tbl s) (fst r) = Some u \<longrightarrow> u + unat hz \<le> unat (snd r)))"
  proof (cases e)
    case (Attach env now now1 now2 pkt port lip nh nf)
    have "c \<le> unat now" "unat now \<le> unat now1" "unat now1 \<le> unat now2" "(port, nh) \<in> K" "env_hz env = hz"
      using Attach clock K(3) hz(3) by auto
    then show ?thesis
      using attach_timed [OF t K(1,2) _ hz(1,2), of port nh env now now1 now2 pkt lip nf] le
      unfolding s'_def Attach by (auto; force)
  next
    case (Receive cfg env now pkt meta nf)
    have "c \<le> unat now" "(mb_port pkt, arp_sip pkt) \<in> K" using Receive clock K(3) by auto
    then show ?thesis
      using receive_timed [OF t K(1,2), of pkt now cfg env meta nf] le
      unfolding s'_def Receive by (auto; force)
  qed
  then show "neigh_timed K hz (last (map unat (event_readings e))) (neigh_tbl s')"
    "stamp (neigh_tbl s) k = Some u \<Longrightarrow> \<exists>u' \<ge> u. stamp (neigh_tbl s') k = Some u'"
    "r \<in> set (request_of e s) \<Longrightarrow>
      stamp (neigh_tbl s') (fst r) = Some (unat (snd r)) \<and>
      (\<forall>u. stamp (neigh_tbl s) (fst r) = Some u \<longrightarrow> u + unat hz \<le> unat (snd r))"
    by blast+
qed

lemma event_readings_ne [simp]: "event_readings e \<noteq> []"
  by (cases e) simp_all

lemma clock_split:
  assumes "sorted (c # map unat (concat (map event_readings (e # es))))"
  shows "sorted (c # map unat (event_readings e))"
    "sorted (last (map unat (event_readings e)) # map unat (concat (map event_readings es)))"
proof -
  let ?r = "map unat (event_readings e)" and ?q = "map unat (concat (map event_readings es))"
  have s: "sorted ((c # ?r) @ ?q)" using assms by simp
  then show "sorted (c # ?r)" using sorted_append by blast
  have "last ?r \<in> set (c # ?r)" using last_in_set [of ?r] by (simp del: last_map set_map)
  then have "\<forall>y \<in> set ?q. last ?r \<le> y" using s unfolding sorted_append by blast
  then show "sorted (last ?r # ?q)" using s by (auto simp: sorted_append)
qed

lemma request_log_spaced:
  assumes "neigh_timed K hz c (neigh_tbl s)" "finite K" "card K \<le> NEIGH_MAX" "0 < hz" "300 * unat hz < 2 ^ 64"
    and "sorted (c # map unat (concat (map event_readings es)))"
    and "\<And>e. e \<in> set es \<Longrightarrow> event_hz e = hz \<and> event_key e \<in> K"
  shows "sorted_wrt (\<lambda>r r'. fst r = fst r' \<longrightarrow> unat (snd r) + unat hz \<le> unat (snd r')) (request_log es s) \<and>
    (\<forall>r \<in> set (request_log es s). \<forall>u. stamp (neigh_tbl s) (fst r) = Some u \<longrightarrow> u + unat hz \<le> unat (snd r))"
  using assms
proof (induction es arbitrary: s c)
  case Nil
  then show ?case by simp
next
  case (Cons e es)
  note clk = clock_split [OF Cons.prems(6)]
  have e: "event_key e \<in> K" "event_hz e = hz" using Cons.prems(7) by auto
  note E = event_timed [OF Cons.prems(1-3) e(1) Cons.prems(4,5) e(2) clk(1)]
  let ?s = "arp_step e s"
  have IH: "sorted_wrt (\<lambda>r r'. fst r = fst r' \<longrightarrow> unat (snd r) + unat hz \<le> unat (snd r')) (request_log es ?s)"
      "\<And>r u. r \<in> set (request_log es ?s) \<Longrightarrow> stamp (neigh_tbl ?s) (fst r) = Some u \<Longrightarrow>
        u + unat hz \<le> unat (snd r)"
    using Cons.IH [OF E(1) Cons.prems(2-5) clk(2)] Cons.prems(7) by auto
  have one: "sorted_wrt P (request_of e s)" for P by (cases e) simp_all
  show ?case
  proof (intro conjI ballI allI impI)
    show "sorted_wrt (\<lambda>r r'. fst r = fst r' \<longrightarrow> unat (snd r) + unat hz \<le> unat (snd r')) (request_log (e # es) s)"
      using IH one E(3) by (auto simp: sorted_wrt_append)
  next
    fix r u
    assume r: "r \<in> set (request_log (e # es) s)" and u: "stamp (neigh_tbl s) (fst r) = Some u"
    obtain u' where "u \<le> u'" "stamp (neigh_tbl ?s) (fst r) = Some u'" using E(2) [OF u] by blast
    then show "u + unat hz \<le> unat (snd r)" using r u E(3) [of r] IH(2) [of r u'] by auto
  qed
qed

text \<open>
  C38. ARP requests are rate limited. Take any sequence of attachments of Ethernet headers and
  received ARP packets after initialisation, with a clock that does not run backwards and has a
  constant rate that is not zero, in which at most 64 neighbours occur, so that none is evicted
  from the table. Then any two requests sent for the same neighbour are at least one second of the
  clock apart. (When more neighbours occur than the table holds, an entry can be replaced between
  two requests, and the limit does not hold.)
\<close>

theorem arp_request_rate_limited:
  assumes "0 < hz" "300 * unat hz < 2 ^ 64" "\<forall>e \<in> set es. event_hz e = hz"
    and "sorted (map unat (concat (map event_readings es)))"
    and "card (event_key ` set es) \<le> NEIGH_MAX"
  shows "sorted_wrt (\<lambda>(k, t) (k', t'). k = k' \<longrightarrow> unat t + unat hz \<le> unat t')
    (request_log es (fst (upf_arp_init env s)))"
proof -
  let ?s = "fst (upf_arp_init env s)"
  have "neigh_timed (event_key ` set es) hz 0 (neigh_tbl ?s)"
    using neigh_empty_inv by (simp add: neigh_timed_def upf_arp_init_def neigh_map_def)
  then have "sorted_wrt (\<lambda>r r'. fst r = fst r' \<longrightarrow> unat (snd r) + unat hz \<le> unat (snd r')) (request_log es ?s)"
    using request_log_spaced [of "event_key ` set es" hz 0 ?s es] assms by auto
  then show ?thesis by (simp add: case_prod_unfold)
qed

text \<open>The example host has a request out for the unknown neighbour 7.\<close>

lemma example_append: "rte_pktmbuf_append fresh_mbuf 42 =
    Some (fresh_mbuf \<lparr>mb_data_len := 42, mb_pkt_len := 42\<rparr>)"
  by (simp add: rte_pktmbuf_append_def fresh_mbuf_def)

lemma example_request:
  "\<exists>s1 m. send_arp_request (example_env mac) now now' example_arp port sip tip True = (s1, 0) \<and>
     arp_sent s1 =
       [(fill_arp mac broadcast_mac 1 mac sip zero_mac tip
           (fresh_mbuf \<lparr>mb_data_len := 42, mb_pkt_len := 42\<rparr>), m)]"
  by (simp add: send_arp_request_def neigh_lookup_def probe_search_find example_arp_def
      example_append Let_def) (simp add: example_env_def example_append)

definition example_attach :: "u64 \<Rightarrow> arp_event" where
  "example_attach now = Attach (example_env zero_mac) now now now fresh_mbuf 0 1 7 True"

theorem arp_request_rate_limited_witness:
  "request_log [example_attach 5000, example_attach 5600]
     (fst (upf_arp_init (example_env zero_mac) example_arp)) = [((0, 7), 5000)]"
proof -
  let ?s = "fst (upf_arp_init (example_env zero_mac) example_arp)"
  let ?e = "example_attach 5000" and ?f = "example_attach 5600"
  have init: "?s = example_arp" by (simp add: upf_arp_init_def example_env_def example_arp_def)
  obtain s1 p where s1: "send_arp_request (example_env zero_mac) 5000 5000 example_arp 0 1 7 True =
      (s1, 0)" "arp_sent s1 = [p]"
    using example_request [of zero_mac 5000 5000 0 1 7] by metis
  have tbl: "example_arp \<lparr>neigh_tbl := replicate 64 empty_neigh\<rparr> = example_arp"
    by (simp add: example_arp_def)
  have "neigh_tbl example_arp = replicate 64 empty_neigh" by (simp add: example_arp_def)
  then have "arp_step ?e ?s = s1"
    using s1 by (simp add: example_attach_def init attach_l2_or_arp_def neigh_lookup_def probe_search_find tbl)
  then have first: "request_of ?e ?s = [((0, 7), 5000)]"
    using s1(2) by (simp add: example_attach_def init) (simp add: example_arp_def)
  have second: "request_of ?f x = [] \<or> request_of ?f x = [((0, 7), 5600)]" for x
    by (simp add: example_attach_def)
  have "sorted_wrt (\<lambda>(k, t) (k', t'). k = k' \<longrightarrow> unat t + unat (1000 :: u64) \<le> unat t')
      (request_log [?e, ?f] ?s)"
  proof (rule arp_request_rate_limited)
    have "event_key ` set [?e, ?f] = {(0, 7)}" by (auto simp: example_attach_def)
    then show "card (event_key ` set [?e, ?f]) \<le> 64" by simp
  qed (simp_all add: example_attach_def example_env_def)
  then show ?thesis using first second [of "arp_step ?e ?s"] by auto
qed

subsection \<open>Address resolution\<close>

text \<open>The fields of a packet \<open>fill_arp\<close> has written.\<close>

lemma fill_arp_fields:
  assumes "length sha = 6" "length tha = 6"
  shows "rte_be_to_cpu_16 (ether_type (fill_arp es ed op sha sip tha tip m)) = 0x0806"
    "rte_be_to_cpu_16 (arp_hardware (fill_arp es ed op sha sip tha tip m)) = 1"
    "rte_be_to_cpu_16 (arp_protocol (fill_arp es ed op sha sip tha tip m)) = 0x0800"
    "arp_hlen (fill_arp es ed op sha sip tha tip m) = 6"
    "arp_plen (fill_arp es ed op sha sip tha tip m) = 4"
    "rte_be_to_cpu_16 (arp_opcode (fill_arp es ed op sha sip tha tip m)) = op"
    "arp_sha (fill_arp es ed op sha sip tha tip m) = sha"
    "arp_sip (fill_arp es ed op sha sip tha tip m) = sip"
    "arp_tha (fill_arp es ed op sha sip tha tip m) = tha"
    "arp_tip (fill_arp es ed op sha sip tha tip m) = tip"
    "mb_pkt_len (fill_arp es ed op sha sip tha tip m) = mb_pkt_len m"
  using assms by (simp_all add: fill_arp_def Let_def ld_other ld8_st_mac)

lemma fill_arp_ok:
  assumes "length sha = 6" "length tha = 6" "mb_pkt_len m = 42"
  shows "arp_packet_ok ((fill_arp es ed op sha sip tha tip m) \<lparr>mb_port := port\<rparr>)"
  using assms by (simp add: arp_packet_ok_def fill_arp_fields)

lemma append_pkt_len:
  "rte_pktmbuf_append m 42 = Some m' \<Longrightarrow> mb_pkt_len m = 0 \<Longrightarrow> mb_pkt_len m' = 42"
  by (auto simp: rte_pktmbuf_append_def split: if_splits)

text \<open>What handling a well-formed ARP packet leaves in the table: its sender.\<close>

lemma handle_arp_learns:
  assumes "handle_arp_packet cfg env now s pkt meta True = (s', meta')" "arp_packet_ok pkt"
  shows "neigh_tbl s' = neigh_update now (neigh_tbl s) (mb_port pkt) (arp_sip pkt) (Some (arp_sha pkt))"
    and "m_action meta' = ONVM_NF_ACTION_DROP"
  using assms
  by (auto simp: handle_arp_packet_def send_arp_reply_def Let_def split: if_splits option.splits)

lemma handle_arp_reply:
  assumes "handle_arp_packet cfg env now s pkt meta True = (s', meta')" "arp_packet_ok pkt"
    and "arp_sent s' = arp_sent s @ [(rep, pmeta)]"
  obtains mac m0 m1 where "env_macaddr_get env (mb_port pkt) = Some mac" "env_alloc env = Some m0"
    "rte_pktmbuf_append m0 42 = Some m1"
    "rep = fill_arp mac (arp_sha pkt) 2 mac (arp_tip pkt) (arp_sha pkt) (arp_sip pkt) m1"
    "pmeta = (env_meta env) \<lparr>m_destination := mb_port pkt, m_action := ONVM_NF_ACTION_OUT\<rparr>"
    "is_local_ip_on_port cfg (mb_port pkt) (arp_tip pkt)"
    "rte_be_to_cpu_16 (arp_opcode pkt) = 1"
  using assms
  by (auto simp: handle_arp_packet_def send_arp_reply_def Let_def split: if_splits option.splits)

text \<open>
  Address resolution works end to end. If host A sends an ARP request for the address of
  host B, B receives it on its port and replies, and A, in whatever state its table is by
  then, receives the reply on the port it asked on, then A has B's address bound to the MAC
  address of B's port and B has learned A, both reachable; the packets are sent out on the
  ports concerned and both ARP packets are consumed. (Fresh mbufs are empty and MAC addresses
  have six bytes.)
\<close>

theorem arp_resolution:
  assumes "neigh_inv (neigh_tbl sA)" "neigh_inv (neigh_tbl sB)" "neigh_inv (neigh_tbl sA2)"
    and alloc: "\<And>m. env_alloc envA = Some m \<Longrightarrow> mb_pkt_len m = 0"
      "\<And>m. env_alloc envB = Some m \<Longrightarrow> mb_pkt_len m = 0"
    and mac: "env_macaddr_get envA pA = Some macA" "length macA = 6"
      "env_macaddr_get envB pB = Some macB" "length macB = 6"
    and req: "send_arp_request envA now now' sA pA ipA ipB True = (sA1, r)"
      "arp_sent sA1 = arp_sent sA @ [(reqp, reqm)]"
    and rep: "handle_arp_packet cfgB envB nowB sB (reqp \<lparr>mb_port := pB\<rparr>) metaB True = (sB1, metaB1)"
      "arp_sent sB1 = arp_sent sB @ [(repp, repm)]"
    and fin: "handle_arp_packet cfgA envA now2 sA2 (repp \<lparr>mb_port := pA\<rparr>) metaA True =
      (sA3, metaA1)"
  shows "neigh_map (neigh_tbl sA3) (pA, ipB) = Some (learned pA ipB macB now2) \<and>
    neigh_map (neigh_tbl sB1) (pB, ipA) = Some (learned pB ipA macA nowB) \<and>
    m_destination reqm = pA \<and> m_destination repm = pB \<and>
    m_action metaA1 = ONVM_NF_ACTION_DROP \<and> m_action metaB1 = ONVM_NF_ACTION_DROP"
proof -
  obtain tbl e where l: "neigh_lookup (env_hz envA) now' (neigh_tbl sA) pA ipB = (tbl, e)"
    by fastforce
  obtain a0 a1 where a: "env_alloc envA = Some a0" "rte_pktmbuf_append a0 42 = Some a1"
      "reqp = fill_arp macA broadcast_mac 1 macA ipA zero_mac ipB a1" "m_destination reqm = pA"
    using send_arp_request_sent [OF req l] mac(1) by (metis option.inject onvm_pkt_meta.simps(2)
        onvm_pkt_meta.select_convs onvm_pkt_meta.surjective onvm_pkt_meta.update_convs)
  let ?q = "reqp \<lparr>mb_port := pB\<rparr>"
  have z: "length zero_mac = 6" by (simp add: zero_mac_def)
  have okq: "arp_packet_ok ?q" and q: "arp_sha ?q = macA" "arp_sip ?q = ipA" "arp_tip ?q = ipB"
    using fill_arp_ok [OF mac(2) z append_pkt_len [OF a(2) alloc(1) [OF a(1)]]]
      fill_arp_fields [OF mac(2) z] by (simp_all add: a(3))
  obtain b0 b1 where b: "env_alloc envB = Some b0" "rte_pktmbuf_append b0 42 = Some b1"
      "repp = fill_arp macB macA 2 macB ipB macA ipA b1"
      "repm = (env_meta envB) \<lparr>m_destination := pB, m_action := ONVM_NF_ACTION_OUT\<rparr>"
    by (rule handle_arp_reply [OF rep(1) okq rep(2)], rule that) (use mac(3) q in simp_all)
  let ?p = "repp \<lparr>mb_port := pA\<rparr>"
  have okp: "arp_packet_ok ?p" and p: "arp_sha ?p = macB" "arp_sip ?p = ipB"
    using fill_arp_ok [OF mac(4,2) append_pkt_len [OF b(2) alloc(2) [OF b(1)]]]
      fill_arp_fields [OF mac(4,2)] by (simp_all add: b(3))
  have "neigh_map (neigh_tbl sA3) (pA, ipB) = Some (learned pA ipB macB now2)"
    "neigh_map (neigh_tbl sB1) (pB, ipA) = Some (learned pB ipA macA nowB)"
    using handle_arp_learns(1) [OF fin okp] handle_arp_learns(1) [OF rep(1) okq] p q
      neigh_update_key [OF assms(3)] neigh_update_key [OF assms(2)]
    by simp_all
  then show ?thesis
    using a(4) b(4) handle_arp_learns(2) [OF fin okp] handle_arp_learns(2) [OF rep(1) okq] by simp
qed

theorem arp_resolution_witness:
  "\<exists>sA1 sB1 sA3 reqp reqm repp repm metaA metaB.
     send_arp_request (example_env zero_mac) 5 5 example_arp 0 1 7 True = (sA1, 0) \<and>
     arp_sent sA1 = [(reqp, reqm)] \<and>
     handle_arp_packet \<lparr>g_n3_port = 3, g_n6_port = 4, g_sgi_port = 4, g_n3_ip_be = 7, g_n6_ip_be = 8\<rparr>
       (example_env broadcast_mac) 6 example_arp (reqp \<lparr>mb_port := 3\<rparr>)
       (env_meta (example_env zero_mac)) True = (sB1, metaB) \<and>
     arp_sent sB1 = [(repp, repm)] \<and>
     handle_arp_packet \<lparr>g_n3_port = 0, g_n6_port = 1, g_sgi_port = 1, g_n3_ip_be = 1, g_n6_ip_be = 2\<rparr>
       (example_env zero_mac) 9 sA1 (repp \<lparr>mb_port := 0\<rparr>)
       (env_meta (example_env zero_mac)) True = (sA3, metaA) \<and>
     neigh_map (neigh_tbl sA3) (0, 7) = Some (learned 0 7 broadcast_mac 9)"
proof -
  let ?cB = "\<lparr>g_n3_port = 3, g_n6_port = 4, g_sgi_port = 4, g_n3_ip_be = 7, g_n6_ip_be = 8\<rparr>"
  let ?cA = "\<lparr>g_n3_port = 0, g_n6_port = 1, g_sgi_port = 1, g_n3_ip_be = 1, g_n6_ip_be = 2\<rparr>"
  let ?A = "example_env zero_mac" and ?B = "example_env broadcast_mac"
  let ?f = "fresh_mbuf \<lparr>mb_data_len := 42, mb_pkt_len := 42\<rparr>"
  let ?q = "fill_arp zero_mac broadcast_mac 1 zero_mac 1 zero_mac 7 ?f"
  have z: "length zero_mac = 6" "length broadcast_mac = 6"
    by (simp_all add: zero_mac_def broadcast_mac_def)
  obtain sA1 reqm where A1: "send_arp_request ?A 5 5 example_arp 0 1 7 True = (sA1, 0)"
      "arp_sent sA1 = arp_sent example_arp @ [(?q, reqm)]"
    using example_request [of zero_mac 5 5 0 1 7] by (auto simp: example_arp_def)
  obtain tbl e where l: "neigh_lookup (env_hz ?A) 5 (neigh_tbl example_arp) 0 7 = (tbl, e)"
    by fastforce
  have inv: "neigh_inv (neigh_tbl example_arp)" by (simp add: example_arp_def neigh_empty_inv)
  note L = neigh_lookup_spec [OF inv l]
  have e: "e = neigh_find tbl (0, 7)" using L(1,3) by simp
  have n: "neigh_map tbl (0, 7) = None"
    using L(4) by (simp add: example_arp_def neigh_map_def)
  have "neigh_tbl sA1 = neigh_mark_incomplete 5 tbl 0 7 e"
    using send_arp_request_sent [OF A1 l] by metis
  then have inv1: "neigh_inv (neigh_tbl sA1)"
    using neigh_mark_map(1) [OF L(2), of 0 7 5] n e by simp
  have ok: "arp_packet_ok (?q \<lparr>mb_port := 3\<rparr>)" by (rule fill_arp_ok) (simp_all add: z)
  obtain sB1 metaB where B1: "handle_arp_packet ?cB ?B 6 example_arp (?q \<lparr>mb_port := 3\<rparr>)
      (env_meta ?A) True = (sB1, metaB)"
    by fastforce
  then obtain repp repm where B2: "arp_sent sB1 = arp_sent example_arp @ [(repp, repm)]"
    using ok fill_arp_fields [OF z(1) z(1)]
    by (auto simp: handle_arp_packet_def send_arp_reply_def Let_def is_local_ip_on_port_def
        example_env_def example_append example_arp_def)
  obtain sA3 metaA where A3: "handle_arp_packet ?cA ?A 9 sA1 (repp \<lparr>mb_port := 0\<rparr>)
      (env_meta ?A) True = (sA3, metaA)"
    by fastforce
  have "neigh_map (neigh_tbl sA3) (0, 7) = Some (learned 0 7 broadcast_mac 9)"
    using arp_resolution [OF inv inv inv1 _ _ _ _ _ _ A1 B1 B2 A3, of zero_mac broadcast_mac] z
    by (simp add: example_env_def fresh_mbuf_def)
  then show ?thesis using A1 B1 B2 A3 by (auto simp: example_arp_def)
qed

end
