(* ===== verification/Icmp.thy ===== *)
theory Icmp
  imports Mbuf Upf_Rules
begin

text \<open>
  Local ICMP echo handling of \<^verbatim>\<open>5gc/upf_u/upf_u_icmp.c\<close> and the software checksums of
  \<^verbatim>\<open>onvm_pkt_helper.c\<close>. The DPDK sums \<^verbatim>\<open>rte_raw_cksum\<close> and \<^verbatim>\<open>rte_ipv4_cksum\<close> are parameters:
  functions of the bytes they are given.
\<close>

abbreviation (input) ICMP_HDR :: nat where "ICMP_HDR \<equiv> 8"
abbreviation (input) RTE_ICMP_TYPE_ECHO_REPLY :: u8 where "RTE_ICMP_TYPE_ECHO_REPLY \<equiv> 0"
abbreviation (input) RTE_ICMP_TYPE_ECHO_REQUEST :: u8 where "RTE_ICMP_TYPE_ECHO_REQUEST \<equiv> 8"

subsection \<open>Checksum folding\<close>

lemma unat_low16: "unat (x AND 0xFFFF :: u32) = unat x mod 65536"
proof -
  have "x AND 0xFFFF = take_bit 16 x" by (simp add: take_bit_eq_mask mask_eq_exp_minus_1)
  then show ?thesis by (simp add: take_bit_eq_mod unat_mod)
qed

lemma unat_high16: "unat (drop_bit 16 x :: u32) = unat x div 65536"
  by (simp add: drop_bit_eq_div unat_div)

lemma fold_less:
  assumes "drop_bit 16 s \<noteq> (0 :: u32)"
  shows "unat ((s AND 0xFFFF) + drop_bit 16 s) < unat s"
    and "unat ((s AND 0xFFFF) + drop_bit 16 s) = unat s mod 65536 + unat s div 65536"
proof -
  have q: "unat s div 65536 \<noteq> 0" using assms unat_high16 [of s] by (metis unat_eq_zero)
  have "unat s mod 65536 + unat s div 65536 < 2 ^ 32"
    using u32_less [of s] by (simp add: less_mult_imp_div_less)
  then show e: "unat ((s AND 0xFFFF) + drop_bit 16 s) = unat s mod 65536 + unat s div 65536"
    by (simp add: unat_word_ariths unat_low16 unat_high16)
  have "unat s = unat s div 65536 * 65536 + unat s mod 65536" by (rule div_mult_mod_eq [symmetric])
  moreover have "unat s div 65536 < unat s div 65536 * 65536" using q by simp
  ultimately show "unat ((s AND 0xFFFF) + drop_bit 16 s) < unat s" unfolding e by linarith
qed

text \<open>The loop adds the carries back until there is none; every step makes the sum smaller.\<close>

function cksum_carry :: "u32 \<Rightarrow> u32" where
  "cksum_carry acc =
     (if drop_bit 16 acc = 0 then acc else cksum_carry ((acc AND 0xFFFF) + drop_bit 16 acc))"
  by pat_completeness auto
termination by (relation "measure unat") (auto intro: fold_less(1))

declare cksum_carry.simps [simp del]

definition raw_cksum_fold :: "u32 \<Rightarrow> u16" where
  "raw_cksum_fold acc = ucast (NOT (cksum_carry acc))"

definition icmp_checksum :: "(u8 list \<Rightarrow> u16) \<Rightarrow> rte_mbuf \<Rightarrow> nat \<Rightarrow> nat \<Rightarrow> u16" where
  "icmp_checksum raw_cksum m off len = raw_cksum_fold (ucast (raw_cksum (bytes_at m off len)))"

text \<open>
  The TCP/UDP sum of \<^verbatim>\<open>onvm_pkt_helper.c\<close>. Its L4 length is taken from the IPv4 length field as
  it is stored, in network byte order.
\<close>

definition calculate_tcpudp_cksum ::
  "(u8 list \<Rightarrow> u16) \<Rightarrow> rte_mbuf \<Rightarrow> nat \<Rightarrow> nat \<Rightarrow> u32 \<Rightarrow> u8 \<Rightarrow> u16" where
  "calculate_tcpudp_cksum raw_cksum m ip l4_hdr l3_len protocol =
     (let l4_len = ucast (ip_total_length m ip) - l3_len;
          ph = bytes_at m (ip + 12) 4 @ bytes_at m (ip + 16) 4 @
               [0, protocol, ucast l4_len, ucast (drop_bit 8 l4_len)];
          cksum = ucast (raw_cksum ph) + ucast (raw_cksum (bytes_at m l4_hdr (unat l4_len)))
      in ucast (NOT (cksum_carry cksum)))"

definition calculate_ip_cksum :: "(u8 list \<Rightarrow> u16) \<Rightarrow> rte_mbuf \<Rightarrow> nat \<Rightarrow> u32 \<Rightarrow> u16" where
  "calculate_ip_cksum raw_cksum m ip l3_len =
     (let cksum = raw_cksum (bytes_at m ip (unat l3_len))
      in if cksum = 0xffff then cksum else NOT cksum)"

subsection \<open>Echo requests to the local addresses\<close>

definition upf_is_local_ipv4 :: "upf_ports \<Rightarrow> u32 \<Rightarrow> bool" where
  "upf_is_local_ipv4 cfg dst_ip_be \<longleftrightarrow> dst_ip_be = g_n3_ip_be cfg \<or> dst_ip_be = g_n6_ip_be cfg"

definition upf_local_ip_for_port :: "upf_ports \<Rightarrow> u16 \<Rightarrow> u32" where
  "upf_local_ip_for_port cfg port =
     (if port = g_n3_port cfg then g_n3_ip_be cfg
      else if port = g_n6_port cfg then g_n6_ip_be cfg else 0)"

text \<open>The reply built in place: addresses swapped, checksums refreshed.\<close>

definition icmp_build_reply ::
  "(u8 list \<Rightarrow> u16) \<Rightarrow> (u8 list \<Rightarrow> u16) \<Rightarrow> rte_mbuf \<Rightarrow> nat \<Rightarrow> nat \<Rightarrow> nat \<Rightarrow> rte_mbuf" where
  "icmp_build_reply ipv4_cksum raw_cksum pkt iph icmp icmp_len =
     (let old_src_ip = ip_src_addr pkt iph; old_dst_ip = ip_dst_addr pkt iph;
          old_src_mac = eth_src_addr pkt; old_dst_mac = eth_dst_addr pkt;
          m = st_mac 0 old_src_mac (st_mac 6 old_dst_mac pkt);
          m = st32 (iph + 16) old_src_ip (st32 (iph + 12) old_dst_ip m);
          m = st16 (iph + 10) 0 (st8 (iph + 8) 64 m);
          m = st16 (iph + 10) (ipv4_cksum (bytes_at m iph 20)) m;
          m = st16 (icmp + 2) 0 (st8 (icmp + 1) 0 (st8 icmp RTE_ICMP_TYPE_ECHO_REPLY m))
      in st16 (icmp + 2) (icmp_checksum raw_cksum m icmp icmp_len) m)"

text \<open>The last component is the result: whether the packet is consumed here.\<close>

definition handle_local_icmp_echo ::
  "(u8 list \<Rightarrow> u16) \<Rightarrow> (u8 list \<Rightarrow> u16) \<Rightarrow> upf_ports \<Rightarrow> rte_mbuf \<Rightarrow> onvm_pkt_meta \<Rightarrow> bool \<Rightarrow>
     rte_mbuf \<times> onvm_pkt_meta \<times> bool" where
  "handle_local_icmp_echo ipv4_cksum raw_cksum cfg pkt meta has_nf =
     (let dropped = (pkt, meta \<lparr>m_action := ONVM_NF_ACTION_DROP\<rparr>, True) in
      if \<not> has_nf then (pkt, meta, False)
      else if rte_be_to_cpu_16 (ether_type pkt) \<noteq> RTE_ETHER_TYPE_IPV4 then (pkt, meta, False)
      else case onvm_pkt_ipv4_hdr pkt of
        None \<Rightarrow> (pkt, meta, False)
      | Some iph \<Rightarrow>
          if ip_next_proto_id pkt iph \<noteq> IPPROTO_ICMP then (pkt, meta, False)
          else if \<not> upf_is_local_ipv4 cfg (ip_dst_addr pkt iph) then (pkt, meta, False)
          else
            let ip_hdr_len = ihl_len (ip_version_ihl pkt iph); icmp = ETHER_HDR + ip_hdr_len in
            if ip_hdr_len < IPV4_HDR then dropped
            else if unat (mb_pkt_len pkt) < ETHER_HDR + ip_hdr_len + ICMP_HDR then dropped
            else if ld8 pkt icmp \<noteq> RTE_ICMP_TYPE_ECHO_REQUEST then dropped
            else
              let total_len = unat (rte_be_to_cpu_16 (ip_total_length pkt iph)) in
              if total_len < ip_hdr_len + ICMP_HDR then dropped
              else (icmp_build_reply ipv4_cksum raw_cksum pkt iph icmp (total_len - ip_hdr_len),
                    meta \<lparr>m_destination := mb_port pkt, m_action := ONVM_NF_ACTION_OUT\<rparr>, True))"

subsection \<open>Results\<close>

lemma cksum_carry_small: "unat (cksum_carry s) < 65536"
proof (induction s rule: cksum_carry.induct)
  case (1 s)
  show ?case
  proof (cases "drop_bit 16 s = 0")
    case True
    then have "unat s div 65536 = 0" using unat_high16 [of s] by simp
    then show ?thesis using True by (simp add: cksum_carry.simps [of s])
  next
    case False
    then show ?thesis using 1 by (simp add: cksum_carry.simps [of s])
  qed
qed

lemma cksum_carry_mod: "unat (cksum_carry s) mod 65535 = unat s mod 65535"
proof (induction s rule: cksum_carry.induct)
  case (1 s)
  show ?case
  proof (cases "drop_bit 16 s = 0")
    case False
    have "(unat s mod 65536 + unat s div 65536) mod 65535 =
        (unat s mod 65536 + unat s div 65536 * 65536) mod 65535"
      using mod_mult_right_eq [of "unat s div 65536" 65536 65535]
      by (simp add: mod_add_cong)
    also have "\<dots> = unat s mod 65535" by (simp add: mod_div_mult_eq)
    finally show ?thesis using 1 False fold_less(2) [OF False] by (simp add: cksum_carry.simps [of s])
  qed (simp add: cksum_carry.simps [of s])
qed

text \<open>The reference: the sum of a buffer's 16-bit words in machine order, an odd byte padded.\<close>

fun le_sum :: "u8 list \<Rightarrow> nat" where
  "le_sum [] = 0"
| "le_sum [a] = unat a"
| "le_sum (a # b # r) = unat a + 256 * unat b + le_sum r"

lemma bytes_at_4:
  assumes "4 \<le> n"
  shows "bytes_at m off n =
    ld8 m off # ld8 m (off + 1) # ld8 m (off + 2) # ld8 m (off + 3) # bytes_at m (off + 4) (n - 4)"
proof -
  have "[0..<n] = [0..<4] @ [4..<n]" using assms upt_add_eq_append [of 0 4 "n - 4"] by simp
  moreover have "[4..<n] = map (\<lambda>i. i + 4) [0..<n - 4]" using assms by (simp add: map_add_upt)
  moreover have "[0..<4] = [0, 1, 2, 3 :: nat]" by (simp add: upt_rec)
  ultimately have "[0..<n] = [0, 1, 2, 3] @ map (\<lambda>i. i + 4) [0..<n - 4]" by simp
  then show ?thesis by (simp add: bytes_at_def comp_def add.assoc)
      (simp add: add.commute)
qed

lemma bytes_at_cong: "(\<And>j. off \<le> j \<Longrightarrow> ld8 m j = ld8 m' j) \<Longrightarrow> bytes_at m off n = bytes_at m' off n"
  by (simp add: bytes_at_def)

lemma unat_bytes16: "unat (ucast v :: u8) + 256 * unat (ucast (drop_bit 8 v) :: u8) = unat (v :: u16)"
proof -
  have "unat (ucast v :: u8) = unat v mod 256"
    by (simp add: unsigned_ucast_eq take_bit_eq_mod)
  moreover have "unat (ucast (drop_bit 8 v) :: u8) = unat v div 256"
    using u16_less [of v]
    by (simp add: unsigned_ucast_eq take_bit_eq_mod drop_bit_eq_div unat_div
        less_mult_imp_div_less)
  ultimately show ?thesis using div_mult_mod_eq [of "unat v" 256] by simp
qed

lemma unat_raw_cksum_fold: "unat (raw_cksum_fold a) + unat (cksum_carry a) = 65535"
proof -
  have c: "unat (cksum_carry a) < 65536" by (rule cksum_carry_small)
  have "unat (NOT (cksum_carry a)) = 4294967295 - unat (cksum_carry a)"
  proof -
    have "NOT (cksum_carry a) = -1 - cksum_carry a" by (simp add: not_eq_complement)
    moreover have "unat (-1 :: u32) = 4294967295"
      by (simp add: unsigned_minus_1_eq_mask mask_eq_exp_minus_1)
    ultimately show ?thesis using unat_minus_le [of "cksum_carry a" "-1"] by simp
  qed
  then have "unat (raw_cksum_fold a) = (4294967295 - unat (cksum_carry a)) mod 65536"
    by (simp add: raw_cksum_fold_def unsigned_ucast_eq take_bit_eq_mod)
  moreover have "(4294967295 - k) mod 65536 = 65535 - k" if "k < 65536" for k :: nat
  proof -
    have "4294967295 - k = (65535 - k) + 65535 * 65536" using that by simp
    then show ?thesis by (simp only: mod_mult_self1) (use that in simp)
  qed
  ultimately show ?thesis using c by simp
qed

text \<open>
  The checksum of an echo reply is right. Whatever the request held, the ICMP message of the
  reply \<^verbatim>\<open>icmp_build_reply\<close> builds sums to zero in ones' complement arithmetic, checksum field
  included, provided \<^verbatim>\<open>rte_raw_cksum\<close> computes the ones' complement sum of the bytes it is
  given. This covers the carry-folding loop, which always ends.
\<close>

theorem icmp_reply_checksum_valid:
  assumes "\<And>bs. unat (raw_cksum bs) mod 65535 = le_sum bs mod 65535"
    and "8 \<le> icmp_len"
  shows "le_sum (bytes_at (icmp_build_reply ipv4_cksum raw_cksum pkt iph icmp icmp_len)
      icmp icmp_len) mod 65535 = 0"
proof -
  obtain m where m: "icmp_build_reply ipv4_cksum raw_cksum pkt iph icmp icmp_len =
      st16 (icmp + 2) (icmp_checksum raw_cksum (st16 (icmp + 2) 0 m) icmp icmp_len)
        (st16 (icmp + 2) 0 m)"
    by (simp only: icmp_build_reply_def Let_def)
  define z where "z = st16 (icmp + 2) 0 m"
  define c where "c = icmp_checksum raw_cksum z icmp icmp_len"
  let ?r = "st16 (icmp + 2) c z" and ?tail = "bytes_at z (icmp + 4) (icmp_len - 4)"
  define a where "a = (ucast (raw_cksum (bytes_at z icmp icmp_len)) :: u32)"
  have four: "4 \<le> icmp_len" using assms(2) by simp
  have tl: "bytes_at ?r (icmp + 4) (icmp_len - 4) = ?tail" by (rule bytes_at_cong) simp
  have z: "le_sum (bytes_at z icmp icmp_len) =
      unat (ld8 z icmp) + 256 * unat (ld8 z (icmp + 1)) + le_sum ?tail"
    by (simp add: bytes_at_4 [OF four]) (simp add: z_def)
  have "le_sum (bytes_at ?r icmp icmp_len) =
      unat (ld8 z icmp) + 256 * unat (ld8 z (icmp + 1)) + unat c + le_sum ?tail"
    using unat_bytes16 [of c] tl by (simp add: bytes_at_4 [OF four])
  also have "\<dots> = le_sum (bytes_at z icmp icmp_len) + unat c" using z by simp
  finally have r: "le_sum (bytes_at ?r icmp icmp_len) = le_sum (bytes_at z icmp icmp_len) + unat c" .
  have "unat c + unat (cksum_carry a) = 65535"
    using unat_raw_cksum_fold [of a] by (simp add: c_def icmp_checksum_def a_def)
  moreover have "unat (cksum_carry a) mod 65535 = le_sum (bytes_at z icmp icmp_len) mod 65535"
    using cksum_carry_mod [of a] assms(1) by (simp add: a_def)
  ultimately have "(le_sum (bytes_at z icmp icmp_len) + unat c) mod 65535 = 0"
    by (metis mod_add_left_eq add.commute mod_self)
  then show ?thesis using r by (simp add: m z_def c_def)
qed

text \<open>A sum that meets the assumption: the reference itself, reduced.\<close>

definition ref_raw_cksum :: "u8 list \<Rightarrow> u16" where
  "ref_raw_cksum bs = of_nat (le_sum bs mod 65535)"

lemma ref_raw_cksum_ok: "unat (ref_raw_cksum bs) mod 65535 = le_sum bs mod 65535"
proof -
  have "le_sum bs mod 65535 < 65536" using mod_less_divisor [of 65535 "le_sum bs"] by linarith
  then show ?thesis by (simp add: ref_raw_cksum_def unat_of_nat)
qed

theorem icmp_reply_checksum_valid_witness:
  "le_sum (bytes_at (icmp_build_reply (\<lambda>_. 0) ref_raw_cksum
      \<lparr>mb_buf = (\<lambda>i. of_nat i), mb_buf_len = 2176, mb_data_off = 128, mb_data_len = 98,
       mb_pkt_len = 98, mb_port = 0\<rparr> 14 34 64) 34 64) mod 65535 = 0"
  by (rule icmp_reply_checksum_valid) (simp_all add: ref_raw_cksum_ok)

text \<open>
  C39. What happens to ICMP traffic for the local addresses. A packet that is not IPv4 ICMP for a
  local address is passed on untouched. Any other is consumed here. It is answered exactly when
  the IPv4 header has at least 20 octets, the packet holds the Ethernet, the IPv4 and the ICMP
  header, the ICMP type is echo request, and the total length of the IPv4 header covers the ICMP
  header: the reply leaves through the port the request came from, the addresses of both layers
  swapped, time to live 64, type echo reply, code 0, and identifier, sequence number and data
  unchanged. Every other consumed packet is dropped unchanged.
\<close>

theorem local_icmp_echo_behaviour:
  fixes cfg :: upf_ports and pkt :: rte_mbuf
  assumes "handle_local_icmp_echo ipv4_cksum raw_cksum cfg pkt meta True = (pkt', meta', consumed)"
  defines "ihl \<equiv> ihl_len (ip_version_ihl pkt ETHER_HDR)"
  defines "icmp \<equiv> ETHER_HDR + ihl"
  shows "(consumed \<longleftrightarrow> rte_be_to_cpu_16 (ether_type pkt) = RTE_ETHER_TYPE_IPV4 \<and>
      onvm_pkt_is_ipv4 pkt \<and> ip_next_proto_id pkt ETHER_HDR = IPPROTO_ICMP \<and>
      upf_is_local_ipv4 cfg (ip_dst_addr pkt ETHER_HDR)) \<and>
    (\<not> consumed \<longrightarrow> pkt' = pkt \<and> meta' = meta) \<and>
    (consumed \<longrightarrow>
      (if IPV4_HDR \<le> ihl \<and> ETHER_HDR + ihl + ICMP_HDR \<le> unat (mb_pkt_len pkt) \<and>
          ld8 pkt icmp = RTE_ICMP_TYPE_ECHO_REQUEST \<and>
          ihl + ICMP_HDR \<le> unat (rte_be_to_cpu_16 (ip_total_length pkt ETHER_HDR))
       then meta' = meta \<lparr>m_destination := mb_port pkt, m_action := ONVM_NF_ACTION_OUT\<rparr> \<and>
         eth_dst_addr pkt' = eth_src_addr pkt \<and> eth_src_addr pkt' = eth_dst_addr pkt \<and>
         ip_dst_addr pkt' ETHER_HDR = ip_src_addr pkt ETHER_HDR \<and>
         ip_src_addr pkt' ETHER_HDR = ip_dst_addr pkt ETHER_HDR \<and>
         ld8 pkt' (ETHER_HDR + 8) = 64 \<and>
         ld8 pkt' icmp = RTE_ICMP_TYPE_ECHO_REPLY \<and> ld8 pkt' (icmp + 1) = 0 \<and>
         (\<forall>j. icmp + 4 \<le> j \<longrightarrow> ld8 pkt' j = ld8 pkt j)
       else meta' = meta \<lparr>m_action := ONVM_NF_ACTION_DROP\<rparr> \<and> pkt' = pkt))"
proof -
  let ?ip = "rte_be_to_cpu_16 (ether_type pkt) = RTE_ETHER_TYPE_IPV4 \<and> onvm_pkt_is_ipv4 pkt \<and>
      ip_next_proto_id pkt ETHER_HDR = IPPROTO_ICMP \<and>
      upf_is_local_ipv4 cfg (ip_dst_addr pkt ETHER_HDR)"
  let ?echo = "IPV4_HDR \<le> ihl \<and> ETHER_HDR + ihl + ICMP_HDR \<le> unat (mb_pkt_len pkt) \<and>
      ld8 pkt icmp = RTE_ICMP_TYPE_ECHO_REQUEST \<and>
      ihl + ICMP_HDR \<le> unat (rte_be_to_cpu_16 (ip_total_length pkt ETHER_HDR))"
  let ?len = "unat (rte_be_to_cpu_16 (ip_total_length pkt 14)) - ihl"
  have hdr: "onvm_pkt_ipv4_hdr pkt = (if onvm_pkt_is_ipv4 pkt then Some 14 else None)"
    by (simp add: onvm_pkt_is_ipv4_def onvm_pkt_ipv4_hdr_def)
  consider (pass) "\<not> ?ip" | (drop) "?ip" "\<not> ?echo" | (reply) "?ip" "?echo" by blast
  then show ?thesis
  proof cases
    case pass
    then show ?thesis
      using assms(1) by (auto simp: handle_local_icmp_echo_def hdr Let_def split: if_splits)
  next
    case drop
    then have "pkt' = pkt" "meta' = meta \<lparr>m_action := ONVM_NF_ACTION_DROP\<rparr>" "consumed"
      using assms(1)
      by (auto simp: handle_local_icmp_echo_def hdr Let_def ihl_def icmp_def split: if_splits)
    then show ?thesis using drop by simp
  next
    case reply
    then have r: "pkt' = icmp_build_reply ipv4_cksum raw_cksum pkt 14 icmp ?len"
        "meta' = meta \<lparr>m_destination := mb_port pkt, m_action := ONVM_NF_ACTION_OUT\<rparr>" "consumed"
      using assms(1)
      by (auto simp: handle_local_icmp_echo_def hdr Let_def ihl_def icmp_def split: if_splits)
    have ge: "34 \<le> icmp" using reply by (simp add: icmp_def)
    have "eth_dst_addr pkt' = eth_src_addr pkt" "eth_src_addr pkt' = eth_dst_addr pkt"
      "ip_dst_addr pkt' 14 = ip_src_addr pkt 14" "ip_src_addr pkt' 14 = ip_dst_addr pkt 14"
      using ge by (simp_all add: r(1) icmp_build_reply_def Let_def ld_other)
    moreover have "ld8 pkt' 22 = 64" "ld8 pkt' icmp = 0" "ld8 pkt' (icmp + 1) = 0"
        "\<forall>j. icmp + 4 \<le> j \<longrightarrow> ld8 pkt' j = ld8 pkt j"
      using ge by (auto simp: r(1) icmp_build_reply_def Let_def ld8_st_mac)
    ultimately show ?thesis using reply r by simp
  qed
qed

text \<open>A minimal echo request for address 1, for the concrete case.\<close>

definition echo_pkt :: rte_mbuf where
  "echo_pkt = \<lparr>mb_buf = (\<lambda>i. if i = 140 then 8 else if i = 142 then 0x45 else if i = 145 then 28
       else if i = 151 then 1 else if i = 158 then 1 else if i = 162 then 8 else 0),
     mb_buf_len = 2176, mb_data_off = 128, mb_data_len = 42, mb_pkt_len = 42, mb_port = 5\<rparr>"

definition echo_cfg :: upf_ports where
  "echo_cfg = \<lparr>g_n3_port = 5, g_n6_port = 6, g_sgi_port = 7, g_n3_ip_be = 1, g_n6_ip_be = 2\<rparr>"

theorem local_icmp_echo_behaviour_witness:
  "\<exists>pkt' meta'. handle_local_icmp_echo (\<lambda>_. 0) ref_raw_cksum echo_cfg echo_pkt
       \<lparr>m_action = 9, m_destination = 0, m_src = 0, m_chain_index = 0, m_flags = 0\<rparr> True = (pkt', meta', True) \<and>
     m_action meta' = ONVM_NF_ACTION_OUT \<and> m_destination meta' = 5 \<and>
     ip_src_addr pkt' ETHER_HDR = 1 \<and> ld8 pkt' 34 = RTE_ICMP_TYPE_ECHO_REPLY"
proof -
  let ?r = "handle_local_icmp_echo (\<lambda>_. 0) ref_raw_cksum echo_cfg echo_pkt
       \<lparr>m_action = 9, m_destination = 0, m_src = 0, m_chain_index = 0, m_flags = 0\<rparr> True"
  obtain p m c where r: "?r = (p, m, c)" by (metis surj_pair)
  have ip: "ld8 echo_pkt ETHER_HDR = 0x45" "ld32 echo_pkt 30 = 1" "mb_port echo_pkt = 5"
    by (simp_all add: echo_pkt_def ld8_def ld32_def)
  have c: "c"
    using r by (auto simp: handle_local_icmp_echo_def echo_pkt_def echo_cfg_def Let_def
        onvm_pkt_ipv4_hdr_def upf_is_local_ipv4_def ihl_len_def ld8_def ld16_def ld32_def
        rte_bswap16_def split: if_splits)
  have len: "ihl_len 0x45 = 20" "unat (mb_pkt_len echo_pkt) = 42" "ld8 echo_pkt 34 = 8"
    "unat (rte_be_to_cpu_16 (ld16 echo_pkt 16)) = 28"
    by (simp_all add: ihl_len_def echo_pkt_def ld8_def ld16_def rte_bswap16_def)
  note b = local_icmp_echo_behaviour [OF r]
  have "m_action m = ONVM_NF_ACTION_OUT" "m_destination m = 5" "ip_src_addr p ETHER_HDR = 1"
    "ld8 p 34 = RTE_ICMP_TYPE_ECHO_REPLY"
    using conjunct2 [OF conjunct2 [OF b]] c by (simp_all add: ip len)
  then show ?thesis using c r by (intro exI [of _ p] exI [of _ m]) simp
qed

end
