(* ===== verification/Sess_Buf.thy ===== *)
theory Sess_Buf
  imports Upf_Prelude "HOL-Library.Monad_Syntax"
begin

text \<open>
  Downlink buffering while a session is paged: the per-session rings of
  \<^verbatim>\<open>onvm/upf/upf_sess_buf.c\<close>, the branch of \<^verbatim>\<open>packet_handler\<close> that puts a packet into a ring and
  \<^verbatim>\<open>drain_session_batch\<close>, which empties it when the FAR forwards again. The DPDK ring is a
  parameter; what the code relies on is that it is a bounded FIFO queue.
\<close>

abbreviation (input) SESS_BUF_MAX_USERS :: nat where "SESS_BUF_MAX_USERS \<equiv> 1024"
abbreviation (input) SESS_RING_SIZE :: nat where "SESS_RING_SIZE \<equiv> 1024"
abbreviation (input) DRAIN_BUF :: nat where "DRAIN_BUF \<equiv> 128"
abbreviation (input) UINT32_MAX :: nat where "UINT32_MAX \<equiv> 4294967295"

text \<open>The functions of \<^verbatim>\<open>rte_ring.h\<close> the code calls; the ring is named after the session index.\<close>

record 'r rte_ring_lib =
  ring_create :: "int \<Rightarrow> nat \<Rightarrow> 'r option"
  ring_sp_enqueue :: "'r \<Rightarrow> mbuf \<Rightarrow> 'r \<times> int"
  ring_sc_dequeue :: "'r \<Rightarrow> 'r \<times> mbuf option"
  ring_sc_dequeue_burst :: "'r \<Rightarrow> nat \<Rightarrow> 'r \<times> mbuf list"
  ring_count :: "'r \<Rightarrow> nat"

record 'r UpfSessBuf =
  sb_ring :: "'r option"
  sb_ring_created :: bool
  sb_touched :: bool
  sb_is_buffering :: bool

definition zero_sess_buf :: "'r UpfSessBuf" where
  "zero_sess_buf = \<lparr>sb_ring = None, sb_ring_created = False, sb_touched = False, sb_is_buffering = False\<rparr>"

subsection \<open>Rings of the sessions\<close>

text \<open>\<open>found\<close> is the array another process created, \<open>reserve\<close> whether a new one can be had.\<close>

definition UpfSessBufInit ::
  "'r UpfSessBuf list option \<Rightarrow> bool \<Rightarrow> 'r UpfSessBuf list option \<times> int" where
  "UpfSessBufInit found reserve =
     (case found of
        Some mz \<Rightarrow> (Some mz, 0)
      | None \<Rightarrow> if \<not> reserve then (None, -1) else (Some (replicate SESS_BUF_MAX_USERS zero_sess_buf), 0))"

definition UpfSessBufRingCreate ::
  "'r rte_ring_lib \<Rightarrow> 'r UpfSessBuf list \<Rightarrow> int \<Rightarrow> 'r UpfSessBuf list \<times> int" where
  "UpfSessBufRingCreate lib bufs sess_index =
     (if sess_index < 0 \<or> sess_index \<ge> int SESS_BUF_MAX_USERS then (bufs, -1)
      else let i = nat sess_index; sb = bufs ! i in
        if sb_ring_created sb then (bufs, 0)
        else case ring_create lib sess_index SESS_RING_SIZE of
               None \<Rightarrow> (bufs[i := sb \<lparr>sb_ring := None\<rparr>], -1)
             | Some r \<Rightarrow>
                 (bufs[i := \<lparr>sb_ring = Some r, sb_ring_created = True, sb_touched = False,
                             sb_is_buffering = False\<rparr>], 0))"

text \<open>The loop that frees what is left in the ring; \<open>None\<close> if it never found the ring empty.\<close>

partial_function (option) ring_flush :: "'r rte_ring_lib \<Rightarrow> 'r \<Rightarrow> mbuf list option" where
  "ring_flush lib r =
     (case ring_sc_dequeue lib r of
        (r', None) \<Rightarrow> Some []
      | (r', Some m) \<Rightarrow> do { ms \<leftarrow> ring_flush lib r'; Some (m # ms) })"

definition UpfSessBufRingDestroy ::
  "'r rte_ring_lib \<Rightarrow> 'r UpfSessBuf list \<Rightarrow> int \<Rightarrow> ('r UpfSessBuf list \<times> mbuf list) option" where
  "UpfSessBufRingDestroy lib bufs sess_index =
     (if sess_index < 0 \<or> sess_index \<ge> int SESS_BUF_MAX_USERS then Some (bufs, [])
      else do {
        freed \<leftarrow> (case sb_ring (bufs ! nat sess_index) of None \<Rightarrow> Some [] | Some r \<Rightarrow> ring_flush lib r);
        Some (bufs[nat sess_index := zero_sess_buf], freed)
      })"

subsection \<open>Buffering and draining\<close>

text \<open>
  The buffering branch of \<^verbatim>\<open>packet_handler\<close>: the ring's own reference is taken before the packet
  is offered and given back when the ring is full.
\<close>

definition sess_buffer_packet ::
  "'r rte_ring_lib \<Rightarrow> 'r UpfSessBuf \<Rightarrow> (mbuf \<Rightarrow> int) \<Rightarrow> mbuf \<Rightarrow> 'r UpfSessBuf \<times> (mbuf \<Rightarrow> int)" where
  "sess_buffer_packet lib sb refcnt pkt =
     (let sb = sb \<lparr>sb_is_buffering := True\<rparr>;
          refcnt = refcnt(pkt := refcnt pkt + 1);
          (r, rc) = ring_sp_enqueue lib (the (sb_ring sb)) pkt;
          sb = sb \<lparr>sb_ring := Some r\<rparr>
      in if rc \<noteq> 0 then (sb, refcnt(pkt := refcnt pkt - 1))
         else (sb \<lparr>sb_touched := True\<rparr>, refcnt))"

text \<open>The batches handed to the transmit path one after the other, in chunks of the local array.\<close>

function drain_batches :: "'r rte_ring_lib \<Rightarrow> nat \<Rightarrow> nat \<Rightarrow> 'r \<Rightarrow> 'r \<times> mbuf list list" where
  "drain_batches lib max_pkts tot r =
     (if tot < max_pkts then
        (let want = min (max_pkts - tot) DRAIN_BUF; (r', ms) = ring_sc_dequeue_burst lib r want
         in if ms = [] then (r', [])
            else let (r'', rest) = drain_batches lib max_pkts (tot + length ms) r' in (r'', ms # rest))
      else (r, []))"
  by pat_completeness auto
termination
proof (relation "measure (\<lambda>(lib, max_pkts, tot, r). max_pkts - tot)")
  show "wf (measure (\<lambda>(lib :: 'r rte_ring_lib, max_pkts, tot, r). max_pkts - tot))" by simp
qed (simp, metis add_diff_inverse_nat diff_less_mono2 le_add1 length_greater_0_conv less_add_same_cancel1)

declare drain_batches.simps [simp del]

definition mark_action_out :: "(mbuf \<Rightarrow> onvm_pkt_meta) \<Rightarrow> mbuf \<Rightarrow> mbuf \<Rightarrow> onvm_pkt_meta" where
  "mark_action_out meta p = meta(p := (meta p) \<lparr>m_action := ONVM_NF_ACTION_OUT\<rparr>)"

text \<open>The results: the buffer, the metadata, the batches sent, their size, and whether the
  transmit queue was flushed at the end.\<close>

definition drain_session_batch ::
  "'r rte_ring_lib \<Rightarrow> 'r UpfSessBuf \<Rightarrow> (mbuf \<Rightarrow> onvm_pkt_meta) \<Rightarrow> nat \<Rightarrow> bool \<Rightarrow>
     'r UpfSessBuf \<times> (mbuf \<Rightarrow> onvm_pkt_meta) \<times> mbuf list list \<times> nat \<times> bool" where
  "drain_session_batch lib sb meta max_pkts enqueue_tx_after =
     (case sb_ring sb of
        None \<Rightarrow> (sb, meta, [], 0, False)
      | Some r \<Rightarrow>
          if \<not> sb_ring_created sb then (sb, meta, [], 0, False)
          else
            (let (r', batches) = drain_batches lib max_pkts 0 r;
                 tot = length (concat batches);
                 sb = sb \<lparr>sb_ring := Some r'\<rparr>;
                 sb = (if ring_count lib r' = 0 then sb \<lparr>sb_touched := False\<rparr> else sb)
             in (sb, foldl mark_action_out meta (concat batches), batches, tot,
                 enqueue_tx_after \<and> tot > 0)))"

subsection \<open>Results\<close>

text \<open>What \<^verbatim>\<open>rte_ring.h\<close> documents of a ring of the given size: a FIFO of one entry less.\<close>

definition ring_fifo :: "'r rte_ring_lib \<Rightarrow> ('r \<Rightarrow> mbuf list) \<Rightarrow> bool" where
  "ring_fifo lib content \<longleftrightarrow>
     (\<forall>i r. ring_create lib i SESS_RING_SIZE = Some r \<longrightarrow> content r = []) \<and>
     (\<forall>r p. if length (content r) < SESS_RING_SIZE - 1
        then snd (ring_sp_enqueue lib r p) = 0 \<and>
          content (fst (ring_sp_enqueue lib r p)) = content r @ [p]
        else snd (ring_sp_enqueue lib r p) < 0 \<and>
          content (fst (ring_sp_enqueue lib r p)) = content r) \<and>
     (\<forall>r. snd (ring_sc_dequeue lib r) = (case content r of [] \<Rightarrow> None | p # _ \<Rightarrow> Some p) \<and>
        content (fst (ring_sc_dequeue lib r)) = tl (content r)) \<and>
     (\<forall>r n. snd (ring_sc_dequeue_burst lib r n) = take n (content r) \<and>
        content (fst (ring_sc_dequeue_burst lib r n)) = drop n (content r)) \<and>
     (\<forall>r. ring_count lib r = length (content r))"

lemma ring_flush_result:
  assumes "ring_fifo lib content"
  shows "ring_flush lib r = Some (content r)"
proof (induction "content r" arbitrary: r)
  case Nil
  have "snd (ring_sc_dequeue lib r) = None"
    using assms Nil [symmetric] by (simp add: ring_fifo_def)
  then show ?case using Nil [symmetric] by (subst ring_flush.simps) (simp add: split_beta)
next
  case (Cons p ps)
  obtain r' where d: "ring_sc_dequeue lib r = (r', Some p)" "content r' = ps"
    using assms Cons(2) [symmetric] by (metis (mono_tags, lifting) list.case(2) list.sel(3) prod.collapse ring_fifo_def)
  then have "ring_flush lib r' = Some ps" using Cons(1) [of r'] by simp
  then show ?case using d Cons(2) [symmetric] by (subst ring_flush.simps) simp
qed

lemma drain_batches_result:
  assumes "ring_fifo lib content" "tot \<le> max_pkts"
  shows "concat (snd (drain_batches lib max_pkts tot r)) = take (max_pkts - tot) (content r) \<and>
    content (fst (drain_batches lib max_pkts tot r)) = drop (max_pkts - tot) (content r)"
  using assms
proof (induction lib max_pkts tot r rule: drain_batches.induct)
  case (1 lib max_pkts tot r)
  show ?case
  proof (cases "tot < max_pkts")
    case False
    then show ?thesis by (simp add: drain_batches.simps [of lib])
  next
    case True
    let ?want = "min (max_pkts - tot) DRAIN_BUF"
    obtain r' ms where d: "ring_sc_dequeue_burst lib r ?want = (r', ms)" by (metis surj_pair)
    have ms: "ms = take ?want (content r)" "content r' = drop ?want (content r)"
      using 1(2) d by (metis (mono_tags, lifting) fst_conv snd_conv ring_fifo_def)+
    show ?thesis
    proof (cases "ms = []")
      case e: True
      then have "content r = []" using ms(1) True by (auto simp: min_def split: if_splits)
      then show ?thesis using True d e ms by (simp add: drain_batches.simps [of lib] Let_def)
    next
      case False
      have len: "length ms = min ?want (length (content r))" using ms(1) by simp
      have le: "tot + length ms \<le> max_pkts" using True len by linarith
      have IH: "concat (snd (drain_batches lib max_pkts (tot + length ms) r')) =
            take (max_pkts - (tot + length ms)) (content r') \<and>
          content (fst (drain_batches lib max_pkts (tot + length ms) r')) =
            drop (max_pkts - (tot + length ms)) (content r')"
        using 1(1) [OF True refl d [symmetric] refl False] 1(2) le by simp
      have split: "content r = ms @ content r'" using ms by simp
      show ?thesis
        using True d False IH split le
        by (simp add: drain_batches.simps [of lib max_pkts tot] Let_def split_beta)
    qed
  qed
qed

lemma drain_session_fifo:
  assumes "ring_fifo lib content" "sb_ring sb = Some r" "sb_ring_created sb"
    and "drain_session_batch lib sb meta max_pkts flush = (sb', meta', batches, n, f)"
  shows "concat batches = take max_pkts (content r)" "n = length (concat batches)"
    "\<exists>r'. sb_ring sb' = Some r' \<and> content r' = drop max_pkts (content r)"
    "sb_touched sb' \<longleftrightarrow> sb_touched sb \<and> max_pkts < length (content r)"
    "meta' = foldl mark_action_out meta (concat batches)"
proof -
  obtain r' bs where d: "drain_batches lib max_pkts 0 r = (r', bs)" by (metis surj_pair)
  have c: "concat bs = take max_pkts (content r)" "content r' = drop max_pkts (content r)"
    using drain_batches_result [OF assms(1), of 0 max_pkts r] d by simp_all
  have cnt: "ring_count lib r' = length (content r) - max_pkts"
    using assms(1) c(2) by (simp add: ring_fifo_def)
  show "concat batches = take max_pkts (content r)" "n = length (concat batches)"
    "\<exists>r'. sb_ring sb' = Some r' \<and> content r' = drop max_pkts (content r)"
    "sb_touched sb' \<longleftrightarrow> sb_touched sb \<and> max_pkts < length (content r)"
    "meta' = foldl mark_action_out meta (concat batches)"
    using assms(2,3,4) d c cnt
    by (auto simp: drain_session_batch_def Let_def split: if_splits)
qed

lemma foldl_mark_action:
  "m_action (foldl mark_action_out meta ps p) =
     (if p \<in> set ps then ONVM_NF_ACTION_OUT else m_action (meta p))"
  by (induction ps arbitrary: meta) (auto simp: mark_action_out_def)

lemma buffer_packet_accepted:
  assumes "ring_fifo lib content" "sb_ring sb = Some r" "length (content r) < SESS_RING_SIZE - 1"
  shows "\<exists>r'. sess_buffer_packet lib sb refcnt p =
      (sb \<lparr>sb_ring := Some r', sb_touched := True, sb_is_buffering := True\<rparr>, refcnt(p := refcnt p + 1)) \<and>
    content r' = content r @ [p]"
proof -
  define r' where "r' = fst (ring_sp_enqueue lib r p)"
  have "snd (ring_sp_enqueue lib r p) = 0" and e2: "content r' = content r @ [p]"
    using assms(1,3) unfolding ring_fifo_def r'_def by presburger+
  then have e: "ring_sp_enqueue lib r p = (r', 0)" "content r' = content r @ [p]"
    by (simp_all add: prod_eq_iff r'_def)
  have "sess_buffer_packet lib sb refcnt p =
      (sb \<lparr>sb_ring := Some r', sb_touched := True, sb_is_buffering := True\<rparr>, refcnt(p := refcnt p + 1))"
    using e(1) assms(2) by (simp add: sess_buffer_packet_def)
  then show ?thesis using e(2) by blast
qed

lemma buffer_packets_accepted:
  assumes "ring_fifo lib content" "sb_ring sb = Some r" "sb_ring_created sb"
    and "length (content r) + length ps \<le> SESS_RING_SIZE - 1"
    and "foldl (\<lambda>(sb, refcnt) p. sess_buffer_packet lib sb refcnt p) (sb, refcnt) ps = (sb', refcnt')"
  shows "(\<exists>r'. sb_ring sb' = Some r' \<and> content r' = content r @ ps) \<and> sb_ring_created sb' \<and>
    refcnt' p = refcnt p + int (count_list ps p)"
  using assms(2-)
proof (induction ps arbitrary: sb refcnt r)
  case (Cons q ps)
  obtain r' where r': "sess_buffer_packet lib sb refcnt q =
      (sb \<lparr>sb_ring := Some r', sb_touched := True, sb_is_buffering := True\<rparr>, refcnt(q := refcnt q + 1))"
    "content r' = content r @ [q]"
    using buffer_packet_accepted [OF assms(1) Cons.prems(1), of refcnt q] Cons.prems(3) by auto
  define sb1 where "sb1 = sb \<lparr>sb_ring := Some r', sb_touched := True, sb_is_buffering := True\<rparr>"
  define rc1 where "rc1 = refcnt(q := refcnt q + 1)"
  have "foldl (\<lambda>(sb, refcnt) p. sess_buffer_packet lib sb refcnt p) (sb1, rc1) ps = (sb', refcnt')"
    using Cons.prems(4) r'(1) by (simp add: sb1_def rc1_def)
  moreover have "sb_ring sb1 = Some r'" "sb_ring_created sb1" using Cons.prems(2) by (simp_all add: sb1_def)
  moreover have "length (content r') + length ps \<le> SESS_RING_SIZE - 1" using Cons.prems(3) r'(2) by simp
  ultimately have "(\<exists>r''. sb_ring sb' = Some r'' \<and> content r'' = content r' @ ps) \<and>
      sb_ring_created sb' \<and> refcnt' p = rc1 p + int (count_list ps p)"
    by (intro Cons.IH)
  then show ?case using r'(2) by (simp add: rc1_def)
qed auto

text \<open>
  C17. Buffering loses and reorders nothing. Packets that arrive while the FAR says BUFF and fit
  the session ring are all sent, after those already in the ring and in the order they came,
  when the session is drained; each is marked for output, the ring is left empty and clean,
  and each packet gained exactly the one reference the ring held. A drain with a smaller budget
  sends the oldest packets and keeps the rest in order.
\<close>

theorem sess_buffering_lossless:
  fixes lib :: "'r rte_ring_lib"
  assumes "ring_fifo lib content" "sb_ring sb = Some r" "sb_ring_created sb"
    and "length (content r) + length ps \<le> SESS_RING_SIZE - 1"
    and "foldl (\<lambda>(sb, refcnt) p. sess_buffer_packet lib sb refcnt p) (sb, refcnt) ps = (sb1, refcnt1)"
    and "drain_session_batch lib sb1 meta max_pkts flush = (sb2, meta2, batches, n, f)"
  shows "concat batches = take max_pkts (content r @ ps) \<and> n = length (concat batches) \<and>
    (\<exists>r2. sb_ring sb2 = Some r2 \<and> content r2 = drop max_pkts (content r @ ps)) \<and>
    (length (content r) + length ps \<le> max_pkts \<longrightarrow> \<not> sb_touched sb2) \<and>
    (\<forall>p\<in>set (concat batches). m_action (meta2 p) = ONVM_NF_ACTION_OUT) \<and>
    refcnt1 p = refcnt p + int (count_list ps p)"
proof -
  obtain r1 where r1: "sb_ring sb1 = Some r1" "content r1 = content r @ ps" "sb_ring_created sb1"
    "refcnt1 p = refcnt p + int (count_list ps p)"
    using buffer_packets_accepted [OF assms(1-5)] by auto
  note d = drain_session_fifo [OF assms(1) r1(1) r1(3) assms(6)]
  have "\<forall>p\<in>set (concat batches). m_action (meta2 p) = ONVM_NF_ACTION_OUT"
    unfolding d(5) by (simp only: foldl_mark_action) simp
  moreover have "length (content r) + length ps \<le> max_pkts \<longrightarrow> \<not> sb_touched sb2"
    using d(4) r1(2) by simp
  ultimately show ?thesis using d(1,2,3) r1(2,4) by simp
qed

text \<open>A ring that meets the assumption: a list with a bound.\<close>

definition list_ring :: "mbuf list rte_ring_lib" where
  "list_ring = \<lparr>ring_create = (\<lambda>_ _. Some []),
     ring_sp_enqueue = (\<lambda>r p. if length r < 1023 then (r @ [p], 0) else (r, -105)),
     ring_sc_dequeue = (\<lambda>r. case r of [] \<Rightarrow> ([], None) | p # r' \<Rightarrow> (r', Some p)),
     ring_sc_dequeue_burst = (\<lambda>r n. (drop n r, take n r)), ring_count = length\<rparr>"

lemma list_ring_fifo: "ring_fifo list_ring (\<lambda>r. r)"
  by (auto simp: ring_fifo_def list_ring_def split: list.split)

theorem sess_buffering_lossless_witness:
  "\<exists>sb2 meta2 batches n f.
     drain_session_batch list_ring (fst (foldl (\<lambda>(sb, refcnt) p. sess_buffer_packet list_ring sb refcnt p)
         (\<lparr>sb_ring = Some [1], sb_ring_created = True, sb_touched = True, sb_is_buffering = True\<rparr>,
          (\<lambda>_. 1)) [2, 3]))
       (\<lambda>_. \<lparr>m_action = 0, m_destination = 0, m_src = 0, m_chain_index = 0, m_flags = 0\<rparr>) UINT32_MAX True
       = (sb2, meta2, batches, n, f) \<and> concat batches = [1, 2, 3] \<and> n = 3 \<and> \<not> sb_touched sb2"
proof -
  let ?sb = "\<lparr>sb_ring = Some [1 :: nat], sb_ring_created = True, sb_touched = True, sb_is_buffering = True\<rparr>"
  let ?m = "\<lambda>_ :: nat. \<lparr>m_action = 0, m_destination = 0, m_src = 0, m_chain_index = 0, m_flags = 0\<rparr>"
  obtain sb1 rc1 where b: "foldl (\<lambda>(sb, refcnt) p. sess_buffer_packet list_ring sb refcnt p)
      (?sb, \<lambda>_. 1) [2, 3] = (sb1, rc1)" by (metis surj_pair)
  obtain sb2 meta2 batches n f where
    d: "drain_session_batch list_ring sb1 ?m UINT32_MAX True = (sb2, meta2, batches, n, f)"
    by (metis surj_pair)
  show ?thesis
    using sess_buffering_lossless [OF list_ring_fifo, of ?sb "[1]" "[2, 3]", OF _ _ _ b d] b d by simp
qed

text \<open>
  Removing a session's ring ends and leaks nothing: whatever is still queued is freed, each
  packet once, the slot is reset and no other session's slot is touched; creating the ring again
  then starts from an empty queue.
\<close>

theorem sess_ring_destroy_frees:
  fixes lib :: "'r rte_ring_lib"
  assumes "ring_fifo lib content" "0 \<le> i" "i < int SESS_BUF_MAX_USERS"
    and "length bufs = SESS_BUF_MAX_USERS"
  shows "\<exists>bufs'. UpfSessBufRingDestroy lib bufs i = Some (bufs',
      case sb_ring (bufs ! nat i) of None \<Rightarrow> [] | Some r \<Rightarrow> content r) \<and>
    bufs' ! nat i = zero_sess_buf \<and> (\<forall>j. j \<noteq> nat i \<longrightarrow> bufs' ! j = bufs ! j) \<and>
    (\<forall>r. ring_create lib i SESS_RING_SIZE = Some r \<longrightarrow>
      (let (bufs2, rc) = UpfSessBufRingCreate lib bufs' i
       in rc = 0 \<and> sb_ring (bufs2 ! nat i) = Some r \<and> sb_ring_created (bufs2 ! nat i) \<and> content r = []))"
proof -
  have i: "nat i < length bufs" using assms by simp
  have "UpfSessBufRingDestroy lib bufs i = Some (bufs[nat i := zero_sess_buf],
      case sb_ring (bufs ! nat i) of None \<Rightarrow> [] | Some r \<Rightarrow> content r)"
    using assms(2,3) ring_flush_result [OF assms(1)]
    by (simp add: UpfSessBufRingDestroy_def split: option.split)
  moreover have "content r = []" if "ring_create lib i SESS_RING_SIZE = Some r" for r
    using assms(1) that by (simp add: ring_fifo_def)
  ultimately show ?thesis
    using i assms(2,3)
    by (intro exI [of _ "bufs[nat i := zero_sess_buf]"])
      (simp add: UpfSessBufRingCreate_def zero_sess_buf_def Let_def)
qed

definition busy_bufs :: "mbuf list UpfSessBuf list" where
  "busy_bufs = replicate SESS_BUF_MAX_USERS
     \<lparr>sb_ring = Some [4, 5], sb_ring_created = True, sb_touched = True, sb_is_buffering = True\<rparr>"

theorem sess_ring_destroy_frees_witness:
  "\<exists>bufs'. UpfSessBufRingDestroy list_ring busy_bufs 3 = Some (bufs', [4, 5]) \<and> bufs' ! 3 = zero_sess_buf"
proof -
  have "length busy_bufs = SESS_BUF_MAX_USERS" "sb_ring (busy_bufs ! 3) = Some [4, 5]"
    by (simp_all add: busy_bufs_def)
  then show ?thesis using sess_ring_destroy_frees [OF list_ring_fifo, of 3 busy_bufs] by auto
qed

end
