(* ===== verification/Session_Store.thy ===== *)
theory Session_Store
  imports Session_Rules Worker_Events Sess_Buf
begin

text \<open>
  The session store of \<^verbatim>\<open>onvm/upf/upf.c\<close> and the creation and removal of sessions of
  \<^verbatim>\<open>onvm/upf/upf_context.c\<close>: a pool of sessions indexed by the position their SEID has in a DPDK
  hash table, and two further tables that lead from a TEID and from a UE address to a session.
  The hash tables are parameters; \<open>rte_hash_ok\<close> states what \<^verbatim>\<open>rte_hash.h\<close> documents of them. A
  session is named by its index in the pool, \<open>None\<close> is \<^verbatim>\<open>NULL\<close>.
\<close>

abbreviation (input) MAX_NUM_OF_USERS :: nat where "MAX_NUM_OF_USERS \<equiv> 1024"
abbreviation (input) MAX_DNN_LEN :: nat where "MAX_DNN_LEN \<equiv> 100"
abbreviation (input) PFCP_PDN_TYPE_IPV4 :: u8 where "PFCP_PDN_TYPE_IPV4 \<equiv> 1"

subsection \<open>Hash tables\<close>

text \<open>
  The operations take the signature of the key, as the \<^verbatim>\<open>_with_hash\<close> functions do. Lookups and
  insertions return a position or a negative error; the data of an entry is a pointer-sized
  number.
\<close>

record ('h, 'k) rte_hash_lib =
  hash_func :: "'k \<Rightarrow> u32"
  hash_lookup :: "'h \<Rightarrow> 'k \<Rightarrow> u32 \<Rightarrow> int"
  hash_add_key :: "'h \<Rightarrow> 'k \<Rightarrow> u32 \<Rightarrow> 'h \<times> int"
  hash_del_key :: "'h \<Rightarrow> 'k \<Rightarrow> u32 \<Rightarrow> 'h \<times> int"
  hash_lookup_data :: "'h \<Rightarrow> 'k \<Rightarrow> u32 \<Rightarrow> int \<times> nat"
  hash_add_key_data :: "'h \<Rightarrow> 'k \<Rightarrow> u32 \<Rightarrow> nat \<Rightarrow> 'h \<times> int"

record ('s, 'm, 'r) store_lib =
  seid_lib :: "('s, u64) rte_hash_lib"
  map_lib :: "('m, u32) rte_hash_lib"
  ring_lib :: "'r rte_ring_lib"

record ('s, 'm, 'r) session_store =
  session_hash :: 's
  session_data :: "UpfSession list"
  teid_hash :: 'm
  ueip_hash :: 'm
  sess_bufs :: "'r UpfSessBuf list option"
  session_id_pool :: u64
  worker_cfg :: worker_config

subsection \<open>Finding sessions\<close>

definition UpfSessionIndexToHashData :: "int \<Rightarrow> nat" where
  "UpfSessionIndexToHashData index = nat (index + 1)"

definition UpfSessionIndexFromHashData :: "nat \<Rightarrow> int" where
  "UpfSessionIndexFromHashData data = int data - 1"

definition UpfGetSessionByIndex :: "int \<Rightarrow> nat" where
  "UpfGetSessionByIndex idx = nat idx"

definition UpfSessionFindBySeid ::
  "('s, 'm, 'r) store_lib \<Rightarrow> ('s, 'm, 'r) session_store \<Rightarrow> u64 \<Rightarrow> nat option" where
  "UpfSessionFindBySeid L st seid =
     (let cal_hash = hash_func (seid_lib L) seid;
          status = hash_lookup (seid_lib L) (session_hash st) seid cal_hash
      in if status < 0 then None else Some (UpfGetSessionByIndex status))"

text \<open>The lookup the TEID and the UE-address search share: the key as given, then byte-swapped.\<close>

definition map_find :: "('m, u32) rte_hash_lib \<Rightarrow> 'm \<Rightarrow> u32 \<Rightarrow> nat option" where
  "map_find lib h key =
     (let (status, data) = hash_lookup_data lib h key (hash_func lib key);
          swapped = rte_bswap32 key;
          (status, data) =
            (if status < 0 \<and> swapped \<noteq> key
             then hash_lookup_data lib h swapped (hash_func lib swapped) else (status, data))
      in if status < 0 then None
         else if data = 0 then None
         else Some (UpfGetSessionByIndex (UpfSessionIndexFromHashData data)))"

definition UpfSessionFindByUeIP ::
  "('s, 'm, 'r) store_lib \<Rightarrow> ('s, 'm, 'r) session_store \<Rightarrow> u32 \<Rightarrow> nat option" where
  "UpfSessionFindByUeIP L st ip = map_find (map_lib L) (ueip_hash st) ip"

definition UpfSessionFindByTeid ::
  "('s, 'm, 'r) store_lib \<Rightarrow> ('s, 'm, 'r) session_store \<Rightarrow> u32 \<Rightarrow> nat option" where
  "UpfSessionFindByTeid L st teid = map_find (map_lib L) (teid_hash st) teid"

definition UpfSessionFindByTeidHost ::
  "('s, 'm, 'r) store_lib \<Rightarrow> ('s, 'm, 'r) session_store \<Rightarrow> u32 \<Rightarrow> nat option" where
  "UpfSessionFindByTeidHost L st teid_host = UpfSessionFindByTeid L st (rte_cpu_to_be_32 teid_host)"

subsection \<open>The worker of a session\<close>

definition upd_session :: "('s, 'm, 'r) session_store \<Rightarrow> nat \<Rightarrow> (UpfSession \<Rightarrow> UpfSession) \<Rightarrow>
    ('s, 'm, 'r) session_store" where
  "upd_session st p f = st \<lparr>session_data := (session_data st)[p := f (session_data st ! p)]\<rparr>"

definition UpfSessionGetWorkerServiceId :: "('s, 'm, 'r) session_store \<Rightarrow> nat option \<Rightarrow> u16" where
  "UpfSessionGetWorkerServiceId st session =
     (case session of None \<Rightarrow> UPF_INVALID_SERVICE_ID
      | Some p \<Rightarrow> s_worker_service_id (session_data st ! p))"

definition UpfSessionSetWorkerServiceId ::
  "('s, 'm, 'r) session_store \<Rightarrow> nat option \<Rightarrow> u16 \<Rightarrow> ('s, 'm, 'r) session_store \<times> Status" where
  "UpfSessionSetWorkerServiceId st session sid =
     (case session of None \<Rightarrow> (st, STATUS_ERROR)
      | Some p \<Rightarrow> if sid = UPF_INVALID_SERVICE_ID then (st, STATUS_ERROR)
                 else (upd_session st p (\<lambda>s. s \<lparr>s_worker_service_id := sid\<rparr>), STATUS_OK))"

definition UpfSessionEnsureWorkerServiceId ::
  "('s, 'm, 'r) session_store \<Rightarrow> nat option \<Rightarrow> u32 \<Rightarrow> ('s, 'm, 'r) session_store \<times> u16" where
  "UpfSessionEnsureWorkerServiceId st session teid =
     (case session of None \<Rightarrow> (st, UPF_INVALID_SERVICE_ID)
      | Some p \<Rightarrow>
          if s_worker_service_id (session_data st ! p) \<noteq> UPF_INVALID_SERVICE_ID
          then (st, s_worker_service_id (session_data st ! p))
          else let sid = UpfSelectWorkerServiceIdByTeid (worker_cfg st) teid
               in if sid = UPF_INVALID_SERVICE_ID then (st, UPF_INVALID_SERVICE_ID)
                  else (upd_session st p (\<lambda>s. s \<lparr>s_worker_service_id := sid\<rparr>), sid))"

subsection \<open>Changing the indices\<close>

definition map_insert :: "('m, u32) rte_hash_lib \<Rightarrow> 'm \<Rightarrow> u32 \<Rightarrow> int \<Rightarrow> 'm \<times> Status" where
  "map_insert lib h key index =
     (let cal_hash = hash_func lib key; (status, data) = hash_lookup_data lib h key cal_hash
      in if status \<ge> 0 then (h, STATUS_ERROR)
         else let (h, status) = hash_add_key_data lib h key cal_hash (UpfSessionIndexToHashData index)
              in (h, if status = 0 then STATUS_OK else STATUS_ERROR))"

definition InsertUEIPtoSessionMap ::
  "('s, 'm, 'r) store_lib \<Rightarrow> ('s, 'm, 'r) session_store \<Rightarrow> u32 \<Rightarrow> nat \<Rightarrow>
     ('s, 'm, 'r) session_store \<times> Status" where
  "InsertUEIPtoSessionMap L st ip p =
     (let (h, status) = map_insert (map_lib L) (ueip_hash st) ip (s_index (session_data st ! p))
      in (st \<lparr>ueip_hash := h\<rparr>, status))"

definition InsertTEIDtoSessionMap ::
  "('s, 'm, 'r) store_lib \<Rightarrow> ('s, 'm, 'r) session_store \<Rightarrow> u32 \<Rightarrow> nat \<Rightarrow>
     ('s, 'm, 'r) session_store \<times> Status" where
  "InsertTEIDtoSessionMap L st teid p =
     (let (h, status) = map_insert (map_lib L) (teid_hash st) teid (s_index (session_data st ! p))
      in (st \<lparr>teid_hash := h\<rparr>, status))"

definition UeIpToUpfSessionMapFree ::
  "('s, 'm, 'r) store_lib \<Rightarrow> ('s, 'm, 'r) session_store \<Rightarrow> u32 \<Rightarrow> ('s, 'm, 'r) session_store" where
  "UeIpToUpfSessionMapFree L st ip =
     st \<lparr>ueip_hash := fst (hash_del_key (map_lib L) (ueip_hash st) ip (hash_func (map_lib L) ip))\<rparr>"

definition TeidToUpfSessionMapFree ::
  "('s, 'm, 'r) store_lib \<Rightarrow> ('s, 'm, 'r) session_store \<Rightarrow> u32 \<Rightarrow> ('s, 'm, 'r) session_store" where
  "TeidToUpfSessionMapFree L st teid =
     st \<lparr>teid_hash := fst (hash_del_key (map_lib L) (teid_hash st) teid (hash_func (map_lib L) teid))\<rparr>"

definition UpfSessionUpdateTeid ::
  "('s, 'm, 'r) store_lib \<Rightarrow> ('s, 'm, 'r) session_store \<Rightarrow> nat option \<Rightarrow> u32 \<Rightarrow>
     ('s, 'm, 'r) session_store \<times> Status" where
  "UpfSessionUpdateTeid L st session teid =
     (case session of None \<Rightarrow> (st, STATUS_ERROR)
      | Some p \<Rightarrow>
          if s_teid (session_data st ! p) = teid then (st, STATUS_OK)
          else let old_teid = s_teid (session_data st ! p);
                   (st, status) = InsertTEIDtoSessionMap L st teid p
               in if status \<noteq> STATUS_OK then (st, STATUS_ERROR)
                  else let st = upd_session st p (\<lambda>s. s \<lparr>s_teid := teid\<rparr>)
                       in (if old_teid \<noteq> 0 then TeidToUpfSessionMapFree L st old_teid else st,
                           STATUS_OK))"

definition UpfSessionUpdateTeidHost ::
  "('s, 'm, 'r) store_lib \<Rightarrow> ('s, 'm, 'r) session_store \<Rightarrow> nat option \<Rightarrow> u32 \<Rightarrow>
     ('s, 'm, 'r) session_store \<times> Status" where
  "UpfSessionUpdateTeidHost L st session teid_host =
     UpfSessionUpdateTeid L st session (rte_cpu_to_be_32 teid_host)"

definition UpfSessionUpdateUeIP ::
  "('s, 'm, 'r) store_lib \<Rightarrow> ('s, 'm, 'r) session_store \<Rightarrow> nat option \<Rightarrow> u32 \<Rightarrow>
     ('s, 'm, 'r) session_store \<times> Status" where
  "UpfSessionUpdateUeIP L st session ip =
     (case session of None \<Rightarrow> (st, STATUS_ERROR)
      | Some p \<Rightarrow>
          if s_ueIpv4 (session_data st ! p) = ip then (st, STATUS_OK)
          else let old_ue_ip = s_ueIpv4 (session_data st ! p);
                   (st, status) = InsertUEIPtoSessionMap L st ip p
               in if status \<noteq> STATUS_OK then (st, STATUS_ERROR)
                  else let st = upd_session st p (\<lambda>s. s \<lparr>s_ueIpv4 := ip\<rparr>)
                       in (if old_ue_ip \<noteq> 0 then UeIpToUpfSessionMapFree L st old_ue_ip else st,
                           STATUS_OK))"

subsection \<open>Creating and removing sessions\<close>

definition UpfSessionAlloc ::
  "('s, 'm, 'r) store_lib \<Rightarrow> ('s, 'm, 'r) session_store \<Rightarrow> u64 \<Rightarrow>
     ('s, 'm, 'r) session_store \<times> nat option" where
  "UpfSessionAlloc L st seid =
     (let cal_hash = hash_func (seid_lib L) seid;
          (h, status) = hash_add_key (seid_lib L) (session_hash st) seid cal_hash;
          st = st \<lparr>session_hash := h\<rparr>
      in if status < 0 then (st, None)
         else let p = UpfGetSessionByIndex status
              in (upd_session st p (\<lambda>_. zero_session
                    \<lparr>s_index := status, s_hashKey := cal_hash, s_upfSeid := seid,
                     s_worker_service_id := UPF_INVALID_SERVICE_ID\<rparr>), Some p))"

definition UpfSessionFree ::
  "('s, 'm, 'r) store_lib \<Rightarrow> ('s, 'm, 'r) session_store \<Rightarrow> nat \<Rightarrow> ('s, 'm, 'r) session_store" where
  "UpfSessionFree L st p =
     st \<lparr>session_hash := fst (hash_del_key (seid_lib L) (session_hash st)
           (s_upfSeid (session_data st ! p)) (s_hashKey (session_data st ! p)))\<rparr>"

text \<open>
  Removal, \<open>None\<close> when emptying the ring does not end. The rule lists are freed; the slot keeps
  its contents until it is allocated again.
\<close>

definition UpfSessionRemove ::
  "('s, 'm, 'r) store_lib \<Rightarrow> ('s, 'm, 'r) session_store \<Rightarrow> nat option \<Rightarrow>
     (('s, 'm, 'r) session_store \<times> Status) option" where
  "UpfSessionRemove L st session =
     (case session of
        None \<Rightarrow> Some (st, STATUS_ERROR)
      | Some p \<Rightarrow>
          do {
            bufs \<leftarrow> (case sess_bufs st of None \<Rightarrow> Some None
               | Some b \<Rightarrow> do { (b, _) \<leftarrow> UpfSessBufRingDestroy (ring_lib L) b (s_index (session_data st ! p));
                               Some (Some b) });
            let st = st \<lparr>sess_bufs := bufs\<rparr>;
            let st = UeIpToUpfSessionMapFree L st (s_ueIpv4 (session_data st ! p));
            let st = TeidToUpfSessionMapFree L st (s_teid (session_data st ! p));
            Some (UpfSessionFree L st p, STATUS_OK)
          })"

text \<open>The part of \<^verbatim>\<open>UpfSessionAdd\<close> that fills in the new session.\<close>

definition fill_session ::
  "(nat \<Rightarrow> bool) \<Rightarrow> u32 \<Rightarrow> string \<Rightarrow> u8 \<Rightarrow> u16 \<Rightarrow> UpfSession \<Rightarrow> UpfSession" where
  "fill_session mem teid dnn pdnType sid s =
     s \<lparr>s_dnn := takeWhile (\<lambda>c. c \<noteq> CHR 0x00) (take (MAX_DNN_LEN + 1) dnn),
        s_pdr_list := (if mem 0 then Some [] else None),
        s_far_list := (if mem 1 then Some [] else None),
        s_qer_list := (if mem 2 then Some [] else None),
        s_srr_flag := False, s_teid := teid, s_worker_service_id := sid, s_pdnType := pdnType\<rparr>"

text \<open>The last steps: the two indices, and undoing everything when one of them refuses.\<close>

definition index_session ::
  "('s, 'm, 'r) store_lib \<Rightarrow> ('s, 'm, 'r) session_store \<Rightarrow> nat \<Rightarrow>
     (('s, 'm, 'r) session_store \<times> nat option) option" where
  "index_session L st p =
     (case InsertTEIDtoSessionMap L st (s_teid (session_data st ! p)) p of
        (st, status) \<Rightarrow>
          if status \<noteq> STATUS_OK then map_option (\<lambda>(st, _). (st, None)) (UpfSessionRemove L st (Some p))
          else (case InsertUEIPtoSessionMap L st (s_ueIpv4 (session_data st ! p)) p of
            (st, status) \<Rightarrow>
              if status \<noteq> STATUS_OK
              then map_option (\<lambda>(st, _). (st, None)) (UpfSessionRemove L st (Some p))
              else
                let st = (case sess_bufs st of None \<Rightarrow> st
                    | Some b \<Rightarrow> st \<lparr>sess_bufs :=
                        Some (fst (UpfSessBufRingCreate (ring_lib L) b (s_index (session_data st ! p))))\<rparr>)
                in Some (st \<lparr>session_id_pool := session_id_pool st + 1\<rparr>, Some p)))"

definition UpfSessionAdd ::
  "('s, 'm, 'r) store_lib \<Rightarrow> (nat \<Rightarrow> bool) \<Rightarrow> ('s, 'm, 'r) session_store \<Rightarrow> u32 option \<Rightarrow> u32 option \<Rightarrow>
     string \<Rightarrow> u8 \<Rightarrow> (('s, 'm, 'r) session_store \<times> nat option) option" where
  "UpfSessionAdd L mem st ue_ptr teid_ptr dnn pdnType =
     (case (teid_ptr, ue_ptr) of
        (Some teid, Some ip) \<Rightarrow>
          (case UpfSessionAlloc L st (session_id_pool st) of
             (st, None) \<Rightarrow> Some (st, None)
           | (st, Some p) \<Rightarrow>
               (let (w, sid) = UpfSelectWorkerServiceIdRoundRobin (worker_cfg st);
                    st = st \<lparr>worker_cfg := w\<rparr>;
                    sid = (if sid = UPF_INVALID_SERVICE_ID
                           then UpfSelectWorkerServiceIdByTeid w (rte_be_to_cpu_32 teid) else sid);
                    st = upd_session st p (fill_session mem teid dnn pdnType sid)
                in if pdnType = PFCP_PDN_TYPE_IPV4
                   then index_session L (upd_session st p (\<lambda>s. s \<lparr>s_ueIpv4 := ip\<rparr>)) p
                   else map_option (\<lambda>(st, _). (st, None)) (UpfSessionRemove L st (Some p))))
      | _ \<Rightarrow> Some (st, None))"

text \<open>
  The fields of an establishment request \<^verbatim>\<open>UpfSessionAddByMessage\<close> reads; an absent element is
  \<open>None\<close>. The PDN type is read before its presence is tested, so that there is no result when it is
  missing.
\<close>

record establishment_request =
  req_nodeID :: bool
  req_cPFSEID :: "u64 option"
  req_createPDR0 :: bool
  req_createFAR0 :: bool
  req_pDNType :: "u8 option"
  req_pDI :: bool
  req_uEIPAddress :: "u32 option"
  req_networkInstance :: "string option"
  req_localFTEID :: "u32 option"

definition UpfSessionAddByMessage ::
  "('s, 'm, 'r) store_lib \<Rightarrow> (nat \<Rightarrow> bool) \<Rightarrow> ('s, 'm, 'r) session_store \<Rightarrow> establishment_request \<Rightarrow>
     (('s, 'm, 'r) session_store \<times> nat option) option" where
  "UpfSessionAddByMessage L mem st request =
     (case req_pDNType request of
        None \<Rightarrow> None
      | Some pdn_type \<Rightarrow>
          if \<not> req_nodeID request \<or> req_cPFSEID request = None \<or> \<not> req_createPDR0 request \<or>
            \<not> req_createFAR0 request \<or> \<not> req_pDI request \<or>
            req_uEIPAddress request = None \<or> req_networkInstance request = None \<or>
            req_localFTEID request = None
          then Some (st, None)
          else case UpfSessionAdd L mem st (req_uEIPAddress request) (req_localFTEID request)
                  (the (req_networkInstance request)) pdn_type of
            None \<Rightarrow> None
          | Some (st, None) \<Rightarrow> Some (st, None)
          | Some (st, Some p) \<Rightarrow>
              Some (upd_session st p (\<lambda>s. s \<lparr>s_smfSeid := the (req_cPFSEID request)\<rparr>), Some p))"

subsection \<open>What is relied on\<close>

text \<open>
  The documented behaviour of a hash table: \<open>view\<close> gives the position and the data of a key.
  Positions of different keys differ and lie below the number of entries; a lookup reports them;
  an insertion either fails and changes nothing or stores the key; a deletion removes the key.
\<close>

definition rte_hash_ok ::
  "('h, 'k) rte_hash_lib \<Rightarrow> ('h \<Rightarrow> bool) \<Rightarrow> ('h \<Rightarrow> 'k \<Rightarrow> (nat \<times> nat) option) \<Rightarrow> bool" where
  "rte_hash_ok lib ok view \<longleftrightarrow> (\<forall>h. ok h \<longrightarrow>
     (\<forall>k. view h k = None \<longrightarrow> hash_lookup lib h k (hash_func lib k) < 0 \<and>
        fst (hash_lookup_data lib h k (hash_func lib k)) < 0) \<and>
     (\<forall>k p d. view h k = Some (p, d) \<longrightarrow> p < MAX_NUM_OF_USERS \<and>
        hash_lookup lib h k (hash_func lib k) = int p \<and>
        hash_lookup_data lib h k (hash_func lib k) = (int p, d)) \<and>
     (\<forall>k k' p d d'. view h k = Some (p, d) \<longrightarrow> view h k' = Some (p, d') \<longrightarrow> k = k') \<and>
     (\<forall>k h' r. hash_add_key lib h k (hash_func lib k) = (h', r) \<longrightarrow> ok h' \<and>
        (r < 0 \<and> view h' = view h \<or> (\<exists>p. r = int p \<and> view h' = (view h)(k \<mapsto> (p, 0))))) \<and>
     (\<forall>k d h' r. hash_add_key_data lib h k (hash_func lib k) d = (h', r) \<longrightarrow> ok h' \<and>
        (r < 0 \<and> view h' = view h \<or> (\<exists>p. r = 0 \<and> view h' = (view h)(k \<mapsto> (p, d))))) \<and>
     (\<forall>k h' r. hash_del_key lib h k (hash_func lib k) = (h', r) \<longrightarrow>
        ok h' \<and> view h' = (view h)(k := None)))"

lemma hash_lookup_None:
  assumes "rte_hash_ok lib ok view" "ok h" "view h k = None"
  shows "hash_lookup lib h k (hash_func lib k) < 0"
    "fst (hash_lookup_data lib h k (hash_func lib k)) < 0"
  using assms unfolding rte_hash_ok_def by blast+

lemma hash_lookup_Some:
  assumes "rte_hash_ok lib ok view" "ok h" "view h k = Some (p, d)"
  shows "hash_lookup lib h k (hash_func lib k) = int p"
    "hash_lookup_data lib h k (hash_func lib k) = (int p, d)" "p < MAX_NUM_OF_USERS"
  using assms unfolding rte_hash_ok_def by blast+

lemma hash_pos_inj:
  "rte_hash_ok lib ok view \<Longrightarrow> ok h \<Longrightarrow> view h k = Some (p, d) \<Longrightarrow> view h k' = Some (p, d') \<Longrightarrow> k = k'"
  unfolding rte_hash_ok_def by blast

lemma hash_add_key_cases:
  assumes "rte_hash_ok lib ok view" "ok h" "hash_add_key lib h k (hash_func lib k) = (h', r)"
  shows "ok h' \<and> (r < 0 \<and> view h' = view h \<or> (\<exists>p. r = int p \<and> view h' = (view h)(k \<mapsto> (p, 0))))"
  using assms unfolding rte_hash_ok_def by blast

lemma hash_add_key_data_cases:
  assumes "rte_hash_ok lib ok view" "ok h" "hash_add_key_data lib h k (hash_func lib k) d = (h', r)"
  shows "ok h' \<and> (r < 0 \<and> view h' = view h \<or> (\<exists>p. r = 0 \<and> view h' = (view h)(k \<mapsto> (p, d))))"
  using assms unfolding rte_hash_ok_def by blast

lemma hash_del_key_result:
  assumes "rte_hash_ok lib ok view" "ok h"
  shows "ok (fst (hash_del_key lib h k (hash_func lib k)))"
    "view (fst (hash_del_key lib h k (hash_func lib k))) = (view h)(k := None)"
  using assms unfolding rte_hash_ok_def by (metis prod.collapse)+

text \<open>The abstraction functions of the parameters, together.\<close>

record ('s, 'm, 'r) store_view =
  seid_wf :: "'s \<Rightarrow> bool"
  seid_view :: "'s \<Rightarrow> u64 \<Rightarrow> (nat \<times> nat) option"
  map_wf :: "'m \<Rightarrow> bool"
  map_view :: "'m \<Rightarrow> u32 \<Rightarrow> (nat \<times> nat) option"
  ring_view :: "'r \<Rightarrow> mbuf list"

definition store_laws :: "('s, 'm, 'r) store_lib \<Rightarrow> ('s, 'm, 'r) store_view \<Rightarrow> bool" where
  "store_laws L V \<longleftrightarrow> rte_hash_ok (seid_lib L) (seid_wf V) (seid_view V) \<and>
     rte_hash_ok (map_lib L) (map_wf V) (map_view V) \<and> ring_fifo (ring_lib L) (ring_view V)"

subsection \<open>The invariant of the store\<close>

text \<open>An index lists, for the sessions in \<open>A\<close>, exactly the key each of them has.\<close>

definition index_ok :: "(u32 \<Rightarrow> (nat \<times> nat) option) \<Rightarrow> nat set \<Rightarrow> (nat \<Rightarrow> u32) \<Rightarrow> bool" where
  "index_ok ix A key \<longleftrightarrow> (\<forall>k p. (\<exists>q. ix k = Some (q, Suc p)) \<longleftrightarrow> p \<in> A \<and> key p = k) \<and>
     (\<forall>k q. ix k \<noteq> Some (q, 0))"

definition live_sessions :: "('s, 'm, 'r) store_view \<Rightarrow> ('s, 'm, 'r) session_store \<Rightarrow> nat set" where
  "live_sessions V st = {p. \<exists>seid d. seid_view V (session_hash st) seid = Some (p, d)}"

abbreviation teid_of :: "('s, 'm, 'r) session_store \<Rightarrow> nat \<Rightarrow> u32" where
  "teid_of st \<equiv> (\<lambda>p. s_teid (session_data st ! p))"

abbreviation ueip_of :: "('s, 'm, 'r) session_store \<Rightarrow> nat \<Rightarrow> u32" where
  "ueip_of st \<equiv> (\<lambda>p. s_ueIpv4 (session_data st ! p))"

definition pool_ok ::
  "('s, 'm, 'r) store_lib \<Rightarrow> ('s, 'm, 'r) store_view \<Rightarrow> ('s, 'm, 'r) session_store \<Rightarrow> bool" where
  "pool_ok L V st \<longleftrightarrow> seid_wf V (session_hash st) \<and> length (session_data st) = MAX_NUM_OF_USERS \<and>
     (\<forall>b. sess_bufs st = Some b \<longrightarrow> length b = SESS_BUF_MAX_USERS) \<and>
     (\<forall>seid p d. seid_view V (session_hash st) seid = Some (p, d) \<longrightarrow>
        s_upfSeid (session_data st ! p) = seid \<and> s_index (session_data st ! p) = int p \<and>
        s_hashKey (session_data st ! p) = hash_func (seid_lib L) seid \<and> seid < session_id_pool st)"

definition store_inv ::
  "('s, 'm, 'r) store_lib \<Rightarrow> ('s, 'm, 'r) store_view \<Rightarrow> ('s, 'm, 'r) session_store \<Rightarrow> bool" where
  "store_inv L V st \<longleftrightarrow> pool_ok L V st \<and> map_wf V (teid_hash st) \<and> map_wf V (ueip_hash st) \<and>
     index_ok (map_view V (teid_hash st)) (live_sessions V st) (teid_of st) \<and>
     index_ok (map_view V (ueip_hash st)) (live_sessions V st) (ueip_of st)"

lemma index_ok_cong:
  "index_ok ix A key \<Longrightarrow> (\<And>p. p \<in> A \<Longrightarrow> key' p = key p) \<Longrightarrow> index_ok ix A key'"
  by (auto simp: index_ok_def)

lemma index_ok_None: "index_ok ix A key \<Longrightarrow> ix k = None \<longleftrightarrow> (\<forall>p\<in>A. key p \<noteq> k)"
  unfolding index_ok_def by (metis not0_implies_Suc option.exhaust option.distinct(1) surj_pair)

lemma index_ok_insert:
  assumes "index_ok ix A key" "p \<notin> A" "ix k = None"
  shows "index_ok (ix(k \<mapsto> (q, Suc p))) (insert p A) (key(p := k))"
  using assms index_ok_None [OF assms(1), of k]
  by (auto simp: index_ok_def)

lemma index_ok_delete:
  assumes "index_ok ix A key" "p \<in> A"
  shows "index_ok (ix(key p := None)) (A - {p}) key"
proof -
  have "q = p" if "q \<in> A" "key q = key p" for q
    using assms that unfolding index_ok_def by (metis Pair_inject Suc_inject option.inject)
  then show ?thesis using assms unfolding index_ok_def by auto
qed

lemma index_ok_change:
  assumes "index_ok ix A key" "p \<in> A" "ix k = None"
  shows "index_ok ((ix(k \<mapsto> (q, Suc p)))(key p := None)) A (key(p := k))"
proof -
  have "k \<noteq> key p" using assms index_ok_None by blast
  moreover have "index_ok ((ix(key p := None))(k \<mapsto> (q, Suc p))) (insert p (A - {p})) (key(p := k))"
    by (rule index_ok_insert [OF index_ok_delete [OF assms(1,2)]]) (use assms(3) in auto)
  ultimately show ?thesis using assms(2) by (simp add: fun_upd_twist insert_absorb)
qed

subsection \<open>Lookups\<close>

lemma map_find_result:
  assumes "rte_hash_ok lib ok view" "ok h" "index_ok (view h) A key"
  shows "map_find lib h k = Some p \<longleftrightarrow>
    p \<in> A \<and> (key p = k \<or> key p = rte_bswap32 k \<and> (\<forall>q\<in>A. key q \<noteq> k))"
proof -
  note no = hash_lookup_None(2) [OF assms(1,2)] and yes = hash_lookup_Some(2) [OF assms(1,2)]
  have ix: "(\<exists>q. view h j = Some (q, Suc r)) \<longleftrightarrow> r \<in> A \<and> key r = j" "view h j \<noteq> Some (q, 0)" for j r q
    using assms(3) by (auto simp: index_ok_def)
  have get: "UpfGetSessionByIndex (UpfSessionIndexFromHashData (Suc r)) = r" for r
    by (simp add: UpfGetSessionByIndex_def UpfSessionIndexFromHashData_def)
  have direct: "map_find lib h k = Some p \<longleftrightarrow> p \<in> A \<and> key p = k" if nn: "view h k \<noteq> None"
  proof -
    obtain q d where "view h k = Some (q, d)" using nn by auto
    moreover from this obtain r where "d = Suc r" using ix(2) by (cases d) auto
    ultimately have v: "view h k = Some (q, Suc r)" by simp
    then have "map_find lib h k = Some r" using yes [OF v] by (simp add: map_find_def get)
    moreover have "r = p \<longleftrightarrow> p \<in> A \<and> key p = k" using v ix(1) by (metis Pair_inject Suc_inject option.inject)
    ultimately show ?thesis by simp
  qed
  show ?thesis
  proof (cases "view h k")
    case (Some x)
    then have "\<not> (\<forall>q\<in>A. key q \<noteq> k)" using index_ok_None [OF assms(3)] by (metis option.distinct(1))
    then show ?thesis using direct Some by auto
  next
    case None
    then have none: "\<forall>q\<in>A. key q \<noteq> k" using index_ok_None [OF assms(3)] by blast
    let ?k = "rte_bswap32 k"
    have neg: "fst (hash_lookup_data lib h k (hash_func lib k)) < 0" using no [OF None] .
    show ?thesis
    proof (cases "view h ?k")
      case e: None
      then have "\<forall>q\<in>A. key q \<noteq> ?k" using index_ok_None [OF assms(3)] by blast
      moreover have "map_find lib h k = None"
        using neg no [OF e] by (auto simp: map_find_def split_beta Let_def)
      ultimately show ?thesis using none by auto
    next
      case (Some x)
      obtain q d where "view h ?k = Some (q, d)" using Some by (cases x) auto
      moreover from this obtain r where "d = Suc r" using ix(2) by (cases d) auto
      ultimately have v: "view h ?k = Some (q, Suc r)" by simp
      have "?k \<noteq> k" using v None by auto
      then have "map_find lib h k = Some r"
        using neg yes [OF v] get by (simp add: map_find_def split_beta Let_def)
      moreover have "r = p \<longleftrightarrow> p \<in> A \<and> key p = ?k" using v ix(1) by (metis Pair_inject Suc_inject option.inject)
      ultimately show ?thesis using none by auto
    qed
  qed
qed

lemma session_lookups:
  fixes L :: "('s, 'm, 'r) store_lib"
  assumes "store_laws L V" "store_inv L V st"
  shows "(UpfSessionFindBySeid L st seid = Some p \<longleftrightarrow>
      p \<in> live_sessions V st \<and> s_upfSeid (session_data st ! p) = seid) \<and>
    (UpfSessionFindByTeid L st teid = Some p \<longleftrightarrow> p \<in> live_sessions V st \<and>
      (teid_of st p = teid \<or>
       teid_of st p = rte_bswap32 teid \<and> (\<forall>q\<in>live_sessions V st. teid_of st q \<noteq> teid))) \<and>
    (UpfSessionFindByUeIP L st ip = Some p \<longleftrightarrow> p \<in> live_sessions V st \<and>
      (ueip_of st p = ip \<or>
       ueip_of st p = rte_bswap32 ip \<and> (\<forall>q\<in>live_sessions V st. ueip_of st q \<noteq> ip)))"
proof (intro conjI)
  have sl: "rte_hash_ok (seid_lib L) (seid_wf V) (seid_view V)"
    and ml: "rte_hash_ok (map_lib L) (map_wf V) (map_view V)"
    using assms(1) by (simp_all add: store_laws_def)
  have inv: "seid_wf V (session_hash st)" "map_wf V (teid_hash st)" "map_wf V (ueip_hash st)"
    "index_ok (map_view V (teid_hash st)) (live_sessions V st) (teid_of st)"
    "index_ok (map_view V (ueip_hash st)) (live_sessions V st) (ueip_of st)"
    using assms(2) by (simp_all add: store_inv_def pool_ok_def)
  have slot: "s_upfSeid (session_data st ! q) = k" if "seid_view V (session_hash st) k = Some (q, d)" for q k d
    using assms(2) that by (auto simp: store_inv_def pool_ok_def)
  show "UpfSessionFindBySeid L st seid = Some p \<longleftrightarrow>
      p \<in> live_sessions V st \<and> s_upfSeid (session_data st ! p) = seid"
  proof (cases "seid_view V (session_hash st) seid")
    case None
    then show ?thesis
      using hash_lookup_None(1) [OF sl inv(1) None] slot
      by (auto simp: UpfSessionFindBySeid_def live_sessions_def)
  next
    case (Some x)
    then obtain q d where v: "seid_view V (session_hash st) seid = Some (q, d)" by (cases x) auto
    then have "UpfSessionFindBySeid L st seid = Some q"
      using hash_lookup_Some(1) [OF sl inv(1) v] by (simp add: UpfSessionFindBySeid_def UpfGetSessionByIndex_def)
    then show ?thesis using v slot by (auto simp: live_sessions_def)
  qed
  show "UpfSessionFindByTeid L st teid = Some p \<longleftrightarrow> p \<in> live_sessions V st \<and>
      (teid_of st p = teid \<or>
       teid_of st p = rte_bswap32 teid \<and> (\<forall>q\<in>live_sessions V st. teid_of st q \<noteq> teid))"
    unfolding UpfSessionFindByTeid_def by (rule map_find_result [OF ml inv(2) inv(4)])
  show "UpfSessionFindByUeIP L st ip = Some p \<longleftrightarrow> p \<in> live_sessions V st \<and>
      (ueip_of st p = ip \<or>
       ueip_of st p = rte_bswap32 ip \<and> (\<forall>q\<in>live_sessions V st. ueip_of st q \<noteq> ip))"
    unfolding UpfSessionFindByUeIP_def by (rule map_find_result [OF ml inv(3) inv(5)])
qed

text \<open>
  Lookups are exact. In a consistent store a SEID leads to the one live session that has it;
  a TEID, and likewise a UE address, leads to the live session that has exactly this key or,
  only when there is none, to the one that has the key in the other byte order; if there is
  neither the lookup reports that.
\<close>

theorem session_lookup_exact:
  fixes L :: "('s, 'm, 'r) store_lib"
  assumes "store_laws L V" "store_inv L V st"
  shows "(UpfSessionFindBySeid L st seid = Some p \<longleftrightarrow>
      p \<in> live_sessions V st \<and> s_upfSeid (session_data st ! p) = seid) \<and>
    (UpfSessionFindByTeid L st teid = Some p \<longleftrightarrow> p \<in> live_sessions V st \<and>
      (teid_of st p = teid \<or>
       teid_of st p = rte_bswap32 teid \<and> (\<forall>q\<in>live_sessions V st. teid_of st q \<noteq> teid))) \<and>
    (UpfSessionFindByUeIP L st ip = Some p \<longleftrightarrow> p \<in> live_sessions V st \<and>
      (ueip_of st p = ip \<or>
       ueip_of st p = rte_bswap32 ip \<and> (\<forall>q\<in>live_sessions V st. ueip_of st q \<noteq> ip)))"
  by (rule session_lookups [OF assms])

subsection \<open>Removal\<close>

lemma remove_effect:
  fixes L :: "('s, 'm, 'r) store_lib"
  assumes "store_laws L V" "seid_wf V (session_hash st)" "map_wf V (teid_hash st)" "map_wf V (ueip_hash st)"
    and "s_index (session_data st ! p) = int p" "p < MAX_NUM_OF_USERS"
    and "s_hashKey (session_data st ! p) = hash_func (seid_lib L) (s_upfSeid (session_data st ! p))"
    and "\<forall>b. sess_bufs st = Some b \<longrightarrow> length b = SESS_BUF_MAX_USERS"
  obtains st' where "UpfSessionRemove L st (Some p) = Some (st', STATUS_OK)"
    "session_data st' = session_data st" "session_id_pool st' = session_id_pool st"
    "worker_cfg st' = worker_cfg st" "seid_wf V (session_hash st')"
    "map_wf V (teid_hash st')" "map_wf V (ueip_hash st')"
    "seid_view V (session_hash st') = (seid_view V (session_hash st))(s_upfSeid (session_data st ! p) := None)"
    "map_view V (teid_hash st') = (map_view V (teid_hash st))(teid_of st p := None)"
    "map_view V (ueip_hash st') = (map_view V (ueip_hash st))(ueip_of st p := None)"
    "\<forall>b. sess_bufs st' = Some b \<longrightarrow> length b = SESS_BUF_MAX_USERS"
proof -
  have sl: "rte_hash_ok (seid_lib L) (seid_wf V) (seid_view V)"
    and ml: "rte_hash_ok (map_lib L) (map_wf V) (map_view V)"
    and rl: "ring_fifo (ring_lib L) (ring_view V)"
    using assms(1) by (simp_all add: store_laws_def)
  obtain bufs where bufs: "(case sess_bufs st of None \<Rightarrow> Some None
      | Some b \<Rightarrow> do { (b, _) \<leftarrow> UpfSessBufRingDestroy (ring_lib L) b (s_index (session_data st ! p));
                      Some (Some b) }) = Some bufs"
    "\<forall>b. bufs = Some b \<longrightarrow> length b = SESS_BUF_MAX_USERS"
  proof (cases "sess_bufs st")
    case (Some b)
    have "UpfSessBufRingDestroy (ring_lib L) b (int p) = Some (b[p := zero_sess_buf],
        case sb_ring (b ! p) of None \<Rightarrow> [] | Some r \<Rightarrow> ring_view V r)"
      using assms(6) ring_flush_result [OF rl]
      by (simp add: UpfSessBufRingDestroy_def split: option.split)
    then show ?thesis using Some assms(5,8) that [of "Some (b[p := zero_sess_buf])"] by simp
  qed (rule that [of None], simp_all)
  define h1 where "h1 = fst (hash_del_key (map_lib L) (ueip_hash st) (ueip_of st p) (hash_func (map_lib L) (ueip_of st p)))"
  define h2 where "h2 = fst (hash_del_key (map_lib L) (teid_hash st) (teid_of st p) (hash_func (map_lib L) (teid_of st p)))"
  define h3 where "h3 = fst (hash_del_key (seid_lib L) (session_hash st) (s_upfSeid (session_data st ! p))
      (hash_func (seid_lib L) (s_upfSeid (session_data st ! p))))"
  define st' where "st' = st \<lparr>sess_bufs := bufs, ueip_hash := h1, teid_hash := h2, session_hash := h3\<rparr>"
  have "UpfSessionRemove L st (Some p) = Some (st', STATUS_OK)"
    using assms(7)
    by (simp add: bufs(1) UpfSessionRemove_def UeIpToUpfSessionMapFree_def TeidToUpfSessionMapFree_def
        UpfSessionFree_def st'_def h1_def h2_def h3_def Let_def)
  then show thesis
    using hash_del_key_result [OF ml assms(4)] hash_del_key_result [OF ml assms(3)]
      hash_del_key_result [OF sl assms(2)] bufs(2)
    by (intro that [of st']) (simp_all add: st'_def h1_def h2_def h3_def)
qed

text \<open>
  Removing a session removes exactly that session: the call succeeds (emptying the ring
  ends), the session is no longer reachable by its SEID, its TEID or its address, every other
  session keeps its data and stays reachable, and the store stays consistent.
\<close>

theorem session_remove_exact:
  fixes L :: "('s, 'm, 'r) store_lib"
  assumes "store_laws L V" "store_inv L V st" "p \<in> live_sessions V st"
  shows "\<exists>st'. UpfSessionRemove L st (Some p) = Some (st', STATUS_OK) \<and> store_inv L V st' \<and>
    live_sessions V st' = live_sessions V st - {p} \<and> session_data st' = session_data st"
proof -
  have sl: "rte_hash_ok (seid_lib L) (seid_wf V) (seid_view V)" using assms(1) by (simp add: store_laws_def)
  have inv: "seid_wf V (session_hash st)" "map_wf V (teid_hash st)" "map_wf V (ueip_hash st)"
    "index_ok (map_view V (teid_hash st)) (live_sessions V st) (teid_of st)"
    "index_ok (map_view V (ueip_hash st)) (live_sessions V st) (ueip_of st)"
    "\<forall>b. sess_bufs st = Some b \<longrightarrow> length b = SESS_BUF_MAX_USERS"
    using assms(2) by (simp_all add: store_inv_def pool_ok_def)
  have pool: "pool_ok L V st" using assms(2) by (simp add: store_inv_def)
  obtain seid d where v: "seid_view V (session_hash st) seid = Some (p, d)"
    using assms(3) by (auto simp: live_sessions_def)
  have slot: "s_upfSeid (session_data st ! p) = seid" "s_index (session_data st ! p) = int p"
    "s_hashKey (session_data st ! p) = hash_func (seid_lib L) seid"
    using pool v by (auto simp: pool_ok_def)
  have p: "p < MAX_NUM_OF_USERS" using hash_lookup_Some(3) [OF sl inv(1) v] .
  obtain st' where st': "UpfSessionRemove L st (Some p) = Some (st', STATUS_OK)"
    "session_data st' = session_data st" "session_id_pool st' = session_id_pool st"
    "seid_wf V (session_hash st')" "map_wf V (teid_hash st')" "map_wf V (ueip_hash st')"
    "seid_view V (session_hash st') = (seid_view V (session_hash st))(seid := None)"
    "map_view V (teid_hash st') = (map_view V (teid_hash st))(teid_of st p := None)"
    "map_view V (ueip_hash st') = (map_view V (ueip_hash st))(ueip_of st p := None)"
    "\<forall>b. sess_bufs st' = Some b \<longrightarrow> length b = SESS_BUF_MAX_USERS"
    using remove_effect [OF assms(1) inv(1-3) slot(2) p _ inv(6)] slot by metis
  have live: "live_sessions V st' = live_sessions V st - {p}"
  proof -
    have "q \<noteq> p" if "seid_view V (session_hash st) k = Some (q, e)" "k \<noteq> seid" for k q e
      using hash_pos_inj [OF sl inv(1) v] that by blast
    then show ?thesis
      using v by (auto simp: live_sessions_def st'(7)) (metis Pair_inject option.inject)
  qed
  have "pool_ok L V st'" using pool st'(2,3,4,7,10) by (auto simp: pool_ok_def)
  moreover have "index_ok (map_view V (teid_hash st')) (live_sessions V st') (teid_of st')"
    using index_ok_delete [OF inv(4) assms(3)] by (simp only: st'(2,8) live)
  moreover have "index_ok (map_view V (ueip_hash st')) (live_sessions V st') (ueip_of st')"
    using index_ok_delete [OF inv(5) assms(3)] by (simp only: st'(2,9) live)
  ultimately have "store_inv L V st'" using st'(5,6) by (simp add: store_inv_def)
  then show ?thesis using st'(1,2) live by blast
qed

subsection \<open>Creation\<close>

lemma map_insert_cases:
  assumes "rte_hash_ok lib ok view" "ok h" "map_insert lib h k (int p) = (h', r)"
  shows "(view h k \<noteq> None \<longrightarrow> h' = h \<and> r = STATUS_ERROR) \<and>
    (view h k = None \<longrightarrow> ok h' \<and> (r = STATUS_ERROR \<and> view h' = view h \<or>
       r = STATUS_OK \<and> (\<exists>q. view h' = (view h)(k \<mapsto> (q, Suc p)))))"
proof (cases "view h k")
  case None
  obtain g c where g: "hash_add_key_data lib h k (hash_func lib k) (Suc p) = (g, c)" by (metis surj_pair)
  have "h' = g" "r = (if c = 0 then STATUS_OK else STATUS_ERROR)"
    using assms(3) hash_lookup_None(2) [OF assms(1,2) None] g
    by (auto simp: map_insert_def split_beta UpfSessionIndexToHashData_def nat_add_distrib Let_def)
  then show ?thesis using hash_add_key_data_cases [OF assms(1,2) g] None by auto
next
  case (Some x)
  then obtain q d where "view h k = Some (q, d)" by (cases x) auto
  then show ?thesis
    using assms(3) hash_lookup_Some(2) [OF assms(1,2)] by (auto simp: map_insert_def Let_def)
qed

text \<open>
  The store between the allocation of slot \<open>p\<close> and the end of \<^verbatim>\<open>UpfSessionAdd\<close>: the sessions of
  \<open>st\<close> are untouched, the new one is in the pool and not yet indexed.
\<close>

definition half_added ::
  "('s, 'm, 'r) store_lib \<Rightarrow> ('s, 'm, 'r) store_view \<Rightarrow> ('s, 'm, 'r) session_store \<Rightarrow> nat \<Rightarrow>
     ('s, 'm, 'r) session_store \<Rightarrow> bool" where
  "half_added L V st p st1 \<longleftrightarrow> p \<notin> live_sessions V st \<and> p < MAX_NUM_OF_USERS \<and>
     seid_wf V (session_hash st1) \<and>
     seid_view V (session_hash st1) = (seid_view V (session_hash st))(session_id_pool st \<mapsto> (p, 0)) \<and>
     length (session_data st1) = MAX_NUM_OF_USERS \<and>
     (\<forall>q. q \<noteq> p \<longrightarrow> session_data st1 ! q = session_data st ! q) \<and>
     s_index (session_data st1 ! p) = int p \<and> s_upfSeid (session_data st1 ! p) = session_id_pool st \<and>
     s_hashKey (session_data st1 ! p) = hash_func (seid_lib L) (session_id_pool st) \<and>
     session_id_pool st1 = session_id_pool st \<and>
     teid_hash st1 = teid_hash st \<and> ueip_hash st1 = ueip_hash st \<and> sess_bufs st1 = sess_bufs st"

lemma alloc_cases:
  fixes L :: "('s, 'm, 'r) store_lib"
  assumes "store_laws L V" "pool_ok L V st" "UpfSessionAlloc L st (session_id_pool st) = (st1, r)"
  shows "case r of
     None \<Rightarrow> seid_wf V (session_hash st1) \<and>
       seid_view V (session_hash st1) = seid_view V (session_hash st) \<and>
       st1 = st \<lparr>session_hash := session_hash st1\<rparr>
   | Some p \<Rightarrow> half_added L V st p st1"
proof -
  have sl: "rte_hash_ok (seid_lib L) (seid_wf V) (seid_view V)" using assms(1) by (simp add: store_laws_def)
  have wf: "seid_wf V (session_hash st)" "length (session_data st) = MAX_NUM_OF_USERS"
    using assms(2) by (simp_all add: pool_ok_def)
  let ?k = "session_id_pool st"
  have fresh: "seid_view V (session_hash st) ?k = None"
    using assms(2) unfolding pool_ok_def by (metis not_None_eq order_less_irrefl surj_pair)
  obtain h c where h: "hash_add_key (seid_lib L) (session_hash st) ?k (hash_func (seid_lib L) ?k) = (h, c)"
    by (metis surj_pair)
  have hw: "seid_wf V h" and hc: "c < 0 \<and> seid_view V h = seid_view V (session_hash st) \<or>
      (\<exists>p. c = int p \<and> seid_view V h = (seid_view V (session_hash st))(?k \<mapsto> (p, 0)))"
    using hash_add_key_cases [OF sl wf(1) h] by blast+
  show ?thesis
  proof (cases "c < 0")
    case True
    then show ?thesis using assms(3) h hw hc by (auto simp: UpfSessionAlloc_def)
  next
    case False
    then obtain p where c: "c = int p"
      and v: "seid_view V h = (seid_view V (session_hash st))(?k \<mapsto> (p, 0))" using hc by auto
    have vk: "seid_view V h ?k = Some (p, 0)" by (simp add: v)
    have p: "p < MAX_NUM_OF_USERS" using hash_lookup_Some(3) [OF sl hw vk] .
    have "p \<notin> live_sessions V st"
    proof
      assume "p \<in> live_sessions V st"
      then obtain k d where k: "seid_view V (session_hash st) k = Some (p, d)" by (auto simp: live_sessions_def)
      then have "k \<noteq> ?k" using fresh by auto
      then have "seid_view V h k = Some (p, d)" using k by (simp add: v)
      then show False using hash_pos_inj [OF sl hw _ vk] \<open>k \<noteq> ?k\<close> by blast
    qed
    then show ?thesis
      using assms(3) h hw v p c wf
      by (auto simp: UpfSessionAlloc_def half_added_def upd_session_def UpfGetSessionByIndex_def zero_session_def)
  qed
qed

lemma half_added_update:
  assumes "half_added L V st p st1"
    and "s_index (f (session_data st1 ! p)) = s_index (session_data st1 ! p)"
    and "s_upfSeid (f (session_data st1 ! p)) = s_upfSeid (session_data st1 ! p)"
    and "s_hashKey (f (session_data st1 ! p)) = s_hashKey (session_data st1 ! p)"
  shows "half_added L V st p (upd_session st1 p f)"
  using assms by (auto simp: half_added_def upd_session_def)

lemma half_added_worker: "half_added L V st p st1 \<Longrightarrow> half_added L V st p (st1 \<lparr>worker_cfg := w\<rparr>)"
  by (simp add: half_added_def)

text \<open>Two stores with the same sessions, reachable the same way.\<close>

definition same_sessions ::
  "('s, 'm, 'r) store_view \<Rightarrow> ('s, 'm, 'r) session_store \<Rightarrow> ('s, 'm, 'r) session_store \<Rightarrow> bool" where
  "same_sessions V st st' \<longleftrightarrow> live_sessions V st' = live_sessions V st \<and>
     (\<forall>q\<in>live_sessions V st. session_data st' ! q = session_data st ! q)"

lemma undo_half_added:
  fixes L :: "('s, 'm, 'r) store_lib"
  assumes "store_laws L V" "store_inv L V st" "half_added L V st p st1"
    and "map_wf V (teid_hash st2)" "map_wf V (ueip_hash st2)"
    and "(map_view V (teid_hash st2))(teid_of st1 p := None) = map_view V (teid_hash st)"
    and "(map_view V (ueip_hash st2))(ueip_of st1 p := None) = map_view V (ueip_hash st)"
    and "st2 = st1 \<lparr>teid_hash := teid_hash st2, ueip_hash := ueip_hash st2\<rparr>"
  shows "\<exists>st'. UpfSessionRemove L st2 (Some p) = Some (st', STATUS_OK) \<and> store_inv L V st' \<and>
    same_sessions V st st'"
proof -
  have f: "session_data st2 = session_data st1" "session_hash st2 = session_hash st1"
    "session_id_pool st2 = session_id_pool st1" "sess_bufs st2 = sess_bufs st1"
    by (subst assms(8), simp)+
  note ha = assms(3) [unfolded half_added_def]
  have pool: "pool_ok L V st" using assms(2) by (simp add: store_inv_def)
  have b: "\<forall>b. sess_bufs st2 = Some b \<longrightarrow> length b = SESS_BUF_MAX_USERS"
    using pool ha f(4) by (simp add: pool_ok_def)
  obtain st' where st': "UpfSessionRemove L st2 (Some p) = Some (st', STATUS_OK)"
    "session_data st' = session_data st1" "session_id_pool st' = session_id_pool st"
    "seid_wf V (session_hash st')" "map_wf V (teid_hash st')" "map_wf V (ueip_hash st')"
    "seid_view V (session_hash st') = (seid_view V (session_hash st1))(session_id_pool st := None)"
    "map_view V (teid_hash st') = map_view V (teid_hash st)"
    "map_view V (ueip_hash st') = map_view V (ueip_hash st)"
    "\<forall>b. sess_bufs st' = Some b \<longrightarrow> length b = SESS_BUF_MAX_USERS"
    using remove_effect [OF assms(1) _ assms(4,5), of p] b ha f assms(6,7) by (metis (no_types, lifting))
  have fresh: "seid_view V (session_hash st) (session_id_pool st) = None"
    using pool unfolding pool_ok_def by (metis not_None_eq order_less_irrefl surj_pair)
  have v: "seid_view V (session_hash st') = seid_view V (session_hash st)"
    using st'(7) ha fresh by (auto simp: fun_eq_iff)
  have live: "live_sessions V st' = live_sessions V st" by (simp add: live_sessions_def v)
  have data: "session_data st' ! q = session_data st ! q" if "q \<in> live_sessions V st" for q
    using ha st'(2) that by auto
  have "seid_view V (session_hash st) k = Some (q, d) \<Longrightarrow> q \<in> live_sessions V st" for k q d
    by (auto simp: live_sessions_def)
  then have "pool_ok L V st'"
    using pool ha st'(2,3,4,10) v data by (simp add: pool_ok_def)
  moreover have "index_ok (map_view V (teid_hash st')) (live_sessions V st') (teid_of st')"
    "index_ok (map_view V (ueip_hash st')) (live_sessions V st') (ueip_of st')"
    unfolding live st'(8,9) using assms(2) data
    by (auto simp: store_inv_def intro: index_ok_cong)
  ultimately have "store_inv L V st'" using st'(5,6) by (simp add: store_inv_def)
  then show ?thesis using st'(1) live data by (auto simp: same_sessions_def)
qed

lemma u64_less_succ:
  fixes x :: u64
  assumes "x \<noteq> -1"
  shows "x < x + 1"
proof -
  have "unat x \<noteq> unat (-1 :: u64)" using assms by (metis word_unat_eq_iff)
  then have "unat x \<noteq> 18446744073709551615"
    by (simp add: unsigned_minus_1_eq_mask mask_eq_exp_minus_1)
  then have "unat x + 1 < 18446744073709551616" using u64_less [of x] by linarith
  then show ?thesis by (simp add: word_less_nat_alt unat_word_ariths)
qed

lemma finish_half_added:
  fixes L :: "('s, 'm, 'r) store_lib"
  assumes "store_inv L V st" "half_added L V st p st1" "session_id_pool st \<noteq> -1"
    and "map_wf V (teid_hash st')" "map_wf V (ueip_hash st')"
    and "map_view V (teid_hash st') = (map_view V (teid_hash st))(teid_of st1 p \<mapsto> (q1, Suc p))"
    and "map_view V (ueip_hash st') = (map_view V (ueip_hash st))(ueip_of st1 p \<mapsto> (q2, Suc p))"
    and "session_data st' = session_data st1" "session_hash st' = session_hash st1"
    and "session_id_pool st' = session_id_pool st + 1"
    and "\<forall>b. sess_bufs st' = Some b \<longrightarrow> length b = SESS_BUF_MAX_USERS"
    and "\<forall>q\<in>live_sessions V st. teid_of st q \<noteq> teid_of st1 p \<and> ueip_of st q \<noteq> ueip_of st1 p"
  shows "store_inv L V st' \<and> live_sessions V st' = insert p (live_sessions V st)"
proof -
  note ha = assms(2) [unfolded half_added_def]
  have pool: "pool_ok L V st" and ix: "index_ok (map_view V (teid_hash st)) (live_sessions V st) (teid_of st)"
    "index_ok (map_view V (ueip_hash st)) (live_sessions V st) (ueip_of st)"
    using assms(1) by (simp_all add: store_inv_def)
  have fresh: "seid_view V (session_hash st) (session_id_pool st) = None"
    using pool unfolding pool_ok_def by (metis not_None_eq order_less_irrefl surj_pair)
  have v: "seid_view V (session_hash st') = (seid_view V (session_hash st))(session_id_pool st \<mapsto> (p, 0))"
    using ha assms(9) by simp
  have live: "live_sessions V st' = insert p (live_sessions V st)"
    using fresh by (auto simp: live_sessions_def v) (metis option.distinct(1))
  have lt: "session_id_pool st < session_id_pool st + 1"
    using assms(3) by (rule u64_less_succ)
  have neq: "q \<noteq> p" if "seid_view V (session_hash st) k = Some (q, d)" for k q d
    using ha that by (auto simp: live_sessions_def)
  have "pool_ok L V st'"
    unfolding pool_ok_def v assms(8,10)
  proof (intro conjI allI impI)
    fix k q d
    assume "((seid_view V (session_hash st))(session_id_pool st \<mapsto> (p, 0))) k = Some (q, d)"
    then consider "k = session_id_pool st" "q = p" | "k \<noteq> session_id_pool st" "seid_view V (session_hash st) k = Some (q, d)"
      by (auto split: if_splits)
    then have c: "s_upfSeid (session_data st1 ! q) = k \<and> s_index (session_data st1 ! q) = int q \<and>
        s_hashKey (session_data st1 ! q) = hash_func (seid_lib L) k \<and> k < session_id_pool st + 1"
    proof cases
      case 2
      then have "s_upfSeid (session_data st ! q) = k \<and> s_index (session_data st ! q) = int q \<and>
        s_hashKey (session_data st ! q) = hash_func (seid_lib L) k \<and> k < session_id_pool st"
        using pool unfolding pool_ok_def by blast
      then show ?thesis using ha neq [OF 2(2)] lt by (metis order_less_trans)
    qed (use ha lt in simp)
    then show "s_upfSeid (session_data st1 ! q) = k" "s_index (session_data st1 ! q) = int q"
      "s_hashKey (session_data st1 ! q) = hash_func (seid_lib L) k" "k < session_id_pool st + 1" by simp_all
  qed (use ha assms(9,11) in simp_all)
  moreover have "index_ok (map_view V (teid_hash st')) (live_sessions V st') (teid_of st')"
    unfolding live assms(6)
    by (rule index_ok_cong [OF index_ok_insert [OF ix(1)]])
      (use ha assms(8,12) index_ok_None [OF ix(1)] in auto)
  moreover have "index_ok (map_view V (ueip_hash st')) (live_sessions V st') (ueip_of st')"
    unfolding live assms(7)
    by (rule index_ok_cong [OF index_ok_insert [OF ix(2)]])
      (use ha assms(8,12) index_ok_None [OF ix(2)] in auto)
  ultimately show ?thesis using assms(4,5) live by (simp add: store_inv_def)
qed

lemma ring_create_length: "length (fst (UpfSessBufRingCreate lib b i)) = length b"
  by (simp add: UpfSessBufRingCreate_def Let_def split: option.split)

lemma index_session_cases:
  fixes L :: "('s, 'm, 'r) store_lib"
  assumes "store_laws L V" "store_inv L V st" "half_added L V st p st1" "session_id_pool st \<noteq> -1"
    and "\<forall>q\<in>live_sessions V st. teid_of st q \<noteq> teid_of st1 p \<and> ueip_of st q \<noteq> ueip_of st1 p"
  shows "\<exists>st' r. index_session L st1 p = Some (st', r) \<and> store_inv L V st' \<and>
    (case r of None \<Rightarrow> same_sessions V st st'
     | Some q \<Rightarrow> q = p \<and> live_sessions V st' = insert p (live_sessions V st) \<and>
         session_data st' = session_data st1)"
proof -
  have ml: "rte_hash_ok (map_lib L) (map_wf V) (map_view V)" using assms(1) by (simp add: store_laws_def)
  note ha = assms(3) [unfolded half_added_def]
  have inv: "map_wf V (teid_hash st)" "map_wf V (ueip_hash st)"
    "index_ok (map_view V (teid_hash st)) (live_sessions V st) (teid_of st)"
    "index_ok (map_view V (ueip_hash st)) (live_sessions V st) (ueip_of st)"
    "\<forall>b. sess_bufs st = Some b \<longrightarrow> length b = SESS_BUF_MAX_USERS"
    using assms(2) by (simp_all add: store_inv_def pool_ok_def)
  have tn: "map_view V (teid_hash st) (teid_of st1 p) = None"
    and un: "map_view V (ueip_hash st) (ueip_of st1 p) = None"
    using index_ok_None [OF inv(3)] index_ok_None [OF inv(4)] assms(5) by auto
  obtain h1 r1 where i1: "map_insert (map_lib L) (teid_hash st) (teid_of st1 p) (int p) = (h1, r1)"
    by (metis surj_pair)
  have h1: "map_wf V h1" "r1 = STATUS_ERROR \<and> map_view V h1 = map_view V (teid_hash st) \<or>
      r1 = STATUS_OK \<and> (\<exists>q. map_view V h1 = (map_view V (teid_hash st))(teid_of st1 p \<mapsto> (q, Suc p)))"
    using map_insert_cases [OF ml inv(1) i1] tn by simp_all
  define st2 where "st2 = st1 \<lparr>teid_hash := h1\<rparr>"
  have s1: "InsertTEIDtoSessionMap L st1 (teid_of st1 p) p = (st2, r1)"
    using ha i1 by (simp add: InsertTEIDtoSessionMap_def st2_def)
  show ?thesis
  proof (cases "r1 = STATUS_OK")
    case False
    then have "map_view V h1 = map_view V (teid_hash st)" using h1(2) by auto
    then have "\<exists>st'. UpfSessionRemove L st2 (Some p) = Some (st', STATUS_OK) \<and> store_inv L V st' \<and>
        same_sessions V st st'"
      by (intro undo_half_added [OF assms(1-3)])
        (use h1(1) inv(2) ha tn un in \<open>auto simp: st2_def fun_eq_iff\<close>)
    then show ?thesis using s1 False by (auto simp: index_session_def)
  next
    case True
    then obtain q1 where q1: "map_view V h1 = (map_view V (teid_hash st))(teid_of st1 p \<mapsto> (q1, Suc p))"
      using h1(2) by auto
    obtain h2 r2 where i2: "map_insert (map_lib L) (ueip_hash st) (ueip_of st1 p) (int p) = (h2, r2)"
      by (metis surj_pair)
    have h2: "map_wf V h2" "r2 = STATUS_ERROR \<and> map_view V h2 = map_view V (ueip_hash st) \<or>
        r2 = STATUS_OK \<and> (\<exists>q. map_view V h2 = (map_view V (ueip_hash st))(ueip_of st1 p \<mapsto> (q, Suc p)))"
      using map_insert_cases [OF ml inv(2) i2] un by simp_all
    define st3 where "st3 = st2 \<lparr>ueip_hash := h2\<rparr>"
    have s2: "InsertUEIPtoSessionMap L st2 (ueip_of st2 p) p = (st3, r2)"
      using ha i2 by (simp add: InsertUEIPtoSessionMap_def st2_def st3_def)
    show ?thesis
    proof (cases "r2 = STATUS_OK")
      case False
      then have "map_view V h2 = map_view V (ueip_hash st)" using h2(2) by auto
      then have "\<exists>st'. UpfSessionRemove L st3 (Some p) = Some (st', STATUS_OK) \<and> store_inv L V st' \<and>
          same_sessions V st st'"
        by (intro undo_half_added [OF assms(1-3)])
          (use h1(1) h2(1) q1 ha tn un in \<open>auto simp: st2_def st3_def fun_eq_iff\<close>)
      then show ?thesis using s1 s2 True False by (auto simp: index_session_def)
    next
      case ok: True
      then obtain q2 where q2: "map_view V h2 = (map_view V (ueip_hash st))(ueip_of st1 p \<mapsto> (q2, Suc p))"
        using h2(2) by auto
      define bufs where "bufs = (case sess_bufs st of None \<Rightarrow> None
         | Some b \<Rightarrow> Some (fst (UpfSessBufRingCreate (ring_lib L) b (int p))))"
      define st' where "st' = st3 \<lparr>sess_bufs := bufs, session_id_pool := session_id_pool st + 1\<rparr>"
      have len: "\<forall>b. bufs = Some b \<longrightarrow> length b = SESS_BUF_MAX_USERS"
        using inv(5) by (auto simp: bufs_def ring_create_length split: option.splits)
      have run: "index_session L st1 p = Some (st', Some p)"
        using s1 s2 True ok ha
        by (auto simp: index_session_def st'_def st2_def st3_def bufs_def Let_def split: option.split)
      have "store_inv L V st' \<and> live_sessions V st' = insert p (live_sessions V st)"
        by (rule finish_half_added [OF assms(2,3,4)])
          (use h1(1) h2(1) q1 q2 len assms(5) in \<open>simp_all add: st'_def st2_def st3_def\<close>)
      then show ?thesis using run by (simp add: st'_def st2_def st3_def)
    qed
  qed
qed

text \<open>A full pool: nothing has changed.\<close>

lemma alloc_fails:
  fixes L :: "('s, 'm, 'r) store_lib"
  assumes "store_laws L V" "store_inv L V st" "UpfSessionAlloc L st (session_id_pool st) = (st1, None)"
  shows "store_inv L V st1 \<and> same_sessions V st st1 \<and>
    UpfSessionAdd L mem st (Some ip) (Some teid) dnn pdnType = Some (st1, None)"
proof -
  have st1: "seid_wf V (session_hash st1)" "seid_view V (session_hash st1) = seid_view V (session_hash st)"
      "st1 = st \<lparr>session_hash := session_hash st1\<rparr>"
    using alloc_cases [OF assms(1) _ assms(3)] assms(2) by (simp_all add: store_inv_def)
  have f: "session_data st1 = session_data st" "teid_hash st1 = teid_hash st" "ueip_hash st1 = ueip_hash st"
    "sess_bufs st1 = sess_bufs st" "session_id_pool st1 = session_id_pool st"
    by (subst st1(3), simp)+
  have live: "live_sessions V st1 = live_sessions V st" by (simp add: live_sessions_def st1(2))
  show ?thesis
    using assms(2,3) st1(1,2) by (simp add: UpfSessionAdd_def same_sessions_def store_inv_def pool_ok_def live f)
qed

text \<open>The slot is filled; what follows depends on the PDN type.\<close>

lemma alloc_fills:
  fixes L :: "('s, 'm, 'r) store_lib"
  assumes "store_laws L V" "pool_ok L V st" "UpfSessionAlloc L st (session_id_pool st) = (st1, Some p)"
  obtains st2 where "half_added L V st p st2" "p < length (session_data st2)" "teid_of st2 p = teid" "ueip_of st2 p = 0"
    "s_pdr_list (session_data st2 ! p) = (if mem 0 then Some [] else None)"
    "UpfSessionAdd L mem st (Some ip) (Some teid) dnn pdnType =
       (if pdnType = PFCP_PDN_TYPE_IPV4 then index_session L (upd_session st2 p (\<lambda>s. s \<lparr>s_ueIpv4 := ip\<rparr>)) p
        else map_option (\<lambda>(st, _). (st, None)) (UpfSessionRemove L st2 (Some p)))"
proof -
  have ha: "half_added L V st p st1" using alloc_cases [OF assms] by simp
  obtain w sid0 where rr: "UpfSelectWorkerServiceIdRoundRobin (worker_cfg st1) = (w, sid0)" by (metis surj_pair)
  define sid where "sid = (if sid0 = UPF_INVALID_SERVICE_ID
    then UpfSelectWorkerServiceIdByTeid w (rte_be_to_cpu_32 teid) else sid0)"
  define st2 where "st2 = upd_session (st1 \<lparr>worker_cfg := w\<rparr>) p (fill_session mem teid dnn pdnType sid)"
  have p: "p < length (session_data st1)" using ha by (simp add: half_added_def)
  have ha2: "half_added L V st p st2"
    unfolding st2_def by (intro half_added_update half_added_worker ha) (simp_all add: fill_session_def)
  have sess2: "session_data st2 ! p = fill_session mem teid dnn pdnType sid (session_data st1 ! p)"
    "p < length (session_data st2)"
    using p by (simp_all add: st2_def upd_session_def)
  have "ueip_of st2 p = 0"
    using ha assms(3) p
    by (auto simp: sess2 fill_session_def UpfSessionAlloc_def upd_session_def zero_session_def
        UpfGetSessionByIndex_def Let_def split_beta split: if_splits)
  moreover have "UpfSessionAdd L mem st (Some ip) (Some teid) dnn pdnType =
       (if pdnType = PFCP_PDN_TYPE_IPV4 then index_session L (upd_session st2 p (\<lambda>s. s \<lparr>s_ueIpv4 := ip\<rparr>)) p
        else map_option (\<lambda>(st, _). (st, None)) (UpfSessionRemove L st2 (Some p)))"
    using assms(3) rr by (simp add: UpfSessionAdd_def sid_def [symmetric] st2_def Let_def)
  ultimately show ?thesis using that ha2 sess2 by (simp add: fill_session_def)
qed

lemma other_pdn_undone:
  fixes L :: "('s, 'm, 'r) store_lib"
  assumes "store_laws L V" "store_inv L V st" "half_added L V st p st2" "ueip_of st2 p = 0"
    and "\<forall>q\<in>live_sessions V st. teid_of st q \<noteq> teid_of st2 p \<and> ueip_of st q \<noteq> 0"
  shows "\<exists>st'. UpfSessionRemove L st2 (Some p) = Some (st', STATUS_OK) \<and> store_inv L V st' \<and> same_sessions V st st'"
proof -
  have inv: "map_wf V (teid_hash st)" "map_wf V (ueip_hash st)"
    "index_ok (map_view V (teid_hash st)) (live_sessions V st) (teid_of st)"
    "index_ok (map_view V (ueip_hash st)) (live_sessions V st) (ueip_of st)"
    using assms(2) by (simp_all add: store_inv_def)
  have no: "map_view V (teid_hash st) (teid_of st2 p) = None" "map_view V (ueip_hash st) 0 = None"
    using index_ok_None [OF inv(3)] index_ok_None [OF inv(4)] assms(5) by auto
  show ?thesis
    by (rule undo_half_added [OF assms(1-3)])
      (use assms(3,4) inv(1,2) no in \<open>auto simp: half_added_def fun_eq_iff\<close>)
qed

text \<open>
  C12. Creating a session is atomic as long as its keys are new. When no session has the TEID or
  the UE address, \<^verbatim>\<open>UpfSessionAdd\<close> returns; it either adds exactly one session, under a fresh SEID,
  with the requested TEID and address and empty rule lists, reachable by all three keys, or, if
  a table is full or the PDN type is not IPv4, it returns \<^verbatim>\<open>NULL\<close> with exactly the sessions there
  were. The store stays consistent in every case.
\<close>

theorem session_add_atomic:
  fixes L :: "('s, 'm, 'r) store_lib"
  assumes "store_laws L V" "store_inv L V st" "session_id_pool st \<noteq> -1"
    and "\<forall>q\<in>live_sessions V st. teid_of st q \<noteq> teid \<and> ueip_of st q \<noteq> ip \<and> ueip_of st q \<noteq> 0"
  shows "\<exists>st' r. UpfSessionAdd L mem st (Some ip) (Some teid) dnn pdnType = Some (st', r) \<and>
    store_inv L V st' \<and>
    (case r of None \<Rightarrow> same_sessions V st st'
     | Some p \<Rightarrow> pdnType = PFCP_PDN_TYPE_IPV4 \<and> p \<notin> live_sessions V st \<and>
         live_sessions V st' = insert p (live_sessions V st) \<and>
         (\<forall>q. q \<noteq> p \<longrightarrow> session_data st' ! q = session_data st ! q) \<and>
         teid_of st' p = teid \<and> ueip_of st' p = ip \<and>
         s_upfSeid (session_data st' ! p) = session_id_pool st \<and>
         s_pdr_list (session_data st' ! p) = (if mem 0 then Some [] else None))"
proof -
  obtain st1 a where al: "UpfSessionAlloc L st (session_id_pool st) = (st1, a)" by (metis surj_pair)
  have pool: "pool_ok L V st" using assms(2) by (simp add: store_inv_def)
  show ?thesis
  proof (cases a)
    case None
    then show ?thesis using alloc_fails [OF assms(1,2)] al by fastforce
  next
    case (Some p)
    obtain st2 where st2: "half_added L V st p st2" "p < length (session_data st2)" "teid_of st2 p = teid" "ueip_of st2 p = 0"
      "s_pdr_list (session_data st2 ! p) = (if mem 0 then Some [] else None)"
      and run: "UpfSessionAdd L mem st (Some ip) (Some teid) dnn pdnType =
       (if pdnType = PFCP_PDN_TYPE_IPV4 then index_session L (upd_session st2 p (\<lambda>s. s \<lparr>s_ueIpv4 := ip\<rparr>)) p
        else map_option (\<lambda>(st, _). (st, None)) (UpfSessionRemove L st2 (Some p)))"
      using alloc_fills [OF assms(1) pool] al Some by metis
    show ?thesis
    proof (cases "pdnType = PFCP_PDN_TYPE_IPV4")
      case True
      define st3 where "st3 = upd_session st2 p (\<lambda>s. s \<lparr>s_ueIpv4 := ip\<rparr>)"
      have ha3: "half_added L V st p st3" unfolding st3_def by (intro half_added_update st2(1)) simp_all
      have sess3: "session_data st3 ! p = (session_data st2 ! p) \<lparr>s_ueIpv4 := ip\<rparr>"
        using st2(2) by (simp add: st3_def upd_session_def)
      obtain st' r where "index_session L st3 p = Some (st', r)" "store_inv L V st'"
        "case r of None \<Rightarrow> same_sessions V st st'
         | Some q \<Rightarrow> q = p \<and> live_sessions V st' = insert p (live_sessions V st) \<and>
             session_data st' = session_data st3"
        using index_session_cases [OF assms(1,2) ha3 assms(3)] assms(4) sess3 st2(3) by auto
      then show ?thesis
        using run True ha3 sess3 st2(3,5)
        by (auto simp: st3_def [symmetric] half_added_def split: option.splits)
    next
      case False
      then show ?thesis using other_pdn_undone [OF assms(1,2) st2(1,4)] assms(4) st2(3) run by auto
    qed
  qed
qed

text \<open>A key that has been deleted no longer leads to the session that had it.\<close>

lemma deleted_key_not_found:
  assumes "rte_hash_ok lib ok view" "ok h'" "view h' = (view h)(key := None)"
    and "index_ok (view h) A key_of" "key_of q = key"
  shows "map_find lib h' key \<noteq> Some q"
proof
  assume f: "map_find lib h' key = Some q"
  have neg: "fst (hash_lookup_data lib h' key (hash_func lib key)) < 0"
    by (rule hash_lookup_None(2) [OF assms(1,2)]) (simp add: assms(3))
  let ?k = "rte_bswap32 key"
  have sw: "?k \<noteq> key" "\<not> fst (hash_lookup_data lib h' ?k (hash_func lib ?k)) < 0"
    using f neg by (auto simp: map_find_def split_beta Let_def split: if_splits)
  then obtain a e where v: "view h' ?k = Some (a, e)"
    using hash_lookup_None(2) [OF assms(1,2)] by fastforce
  have "e \<noteq> 0" "q = e - 1"
    using f neg sw(1) hash_lookup_Some(2) [OF assms(1,2) v]
    by (auto simp: map_find_def split_beta Let_def UpfGetSessionByIndex_def
        UpfSessionIndexFromHashData_def split: if_splits)
  then have "view h ?k = Some (a, Suc q)" using v sw(1) by (simp add: assms(3))
  then have "key_of q = ?k" using assms(4) by (auto simp: index_ok_def)
  then show False using assms(5) sw(1) by simp
qed

text \<open>
  C36. A refused duplicate damages the session it collides with. When a session already has the
  TEID of a new request, \<^verbatim>\<open>UpfSessionAdd\<close> returns \<^verbatim>\<open>NULL\<close>, but its clean-up deletes the index entry of
  the existing session: that session is still in the pool and its TEID no longer leads to it.
\<close>

theorem duplicate_teid_unlinks_session:
  fixes L :: "('s, 'm, 'r) store_lib"
  assumes "store_laws L V" "store_inv L V st" "q \<in> live_sessions V st" "teid_of st q = teid"
    and "snd (UpfSessionAlloc L st (session_id_pool st)) \<noteq> None"
  shows "\<exists>st'. UpfSessionAdd L mem st (Some ip) (Some teid) dnn PFCP_PDN_TYPE_IPV4 = Some (st', None) \<and>
    q \<in> live_sessions V st' \<and> session_data st' ! q = session_data st ! q \<and>
    UpfSessionFindByTeid L st' teid \<noteq> Some q"
proof -
  have ml: "rte_hash_ok (map_lib L) (map_wf V) (map_view V)" using assms(1) by (simp add: store_laws_def)
  have inv: "map_wf V (teid_hash st)" "map_wf V (ueip_hash st)"
    "index_ok (map_view V (teid_hash st)) (live_sessions V st) (teid_of st)"
    "\<forall>b. sess_bufs st = Some b \<longrightarrow> length b = SESS_BUF_MAX_USERS" and pool: "pool_ok L V st"
    using assms(2) by (simp_all add: store_inv_def pool_ok_def)
  obtain st1 p where al: "UpfSessionAlloc L st (session_id_pool st) = (st1, Some p)"
    using assms(5) by (metis not_None_eq prod.collapse)
  obtain st0 where st0: "half_added L V st p st0" "p < length (session_data st0)" "teid_of st0 p = teid"
      and run: "UpfSessionAdd L mem st (Some ip) (Some teid) dnn PFCP_PDN_TYPE_IPV4 =
        index_session L (upd_session st0 p (\<lambda>s. s \<lparr>s_ueIpv4 := ip\<rparr>)) p"
    using alloc_fills [OF assms(1) pool al, of teid mem ip dnn PFCP_PDN_TYPE_IPV4] by (metis (full_types))
  define st2 where "st2 = upd_session st0 p (\<lambda>s. s \<lparr>s_ueIpv4 := ip\<rparr>)"
  have ha2: "half_added L V st p st2" unfolding st2_def by (intro half_added_update st0(1)) simp_all
  note h2 = ha2 [unfolded half_added_def]
  have keys: "teid_of st2 p = teid" using st0(2,3) by (simp add: st2_def upd_session_def)
  have tk: "map_view V (teid_hash st) teid \<noteq> None" using index_ok_None [OF inv(3)] assms(3,4) by blast
  obtain h r where i: "map_insert (map_lib L) (teid_hash st) teid (int p) = (h, r)" by (metis surj_pair)
  have "h = teid_hash st" "r = STATUS_ERROR" using map_insert_cases [OF ml inv(1) i] tk by simp_all
  then have ins: "InsertTEIDtoSessionMap L st2 (teid_of st2 p) p = (st2, STATUS_ERROR)"
    using h2 i keys by (simp add: InsertTEIDtoSessionMap_def)
  obtain st' where st': "UpfSessionRemove L st2 (Some p) = Some (st', STATUS_OK)"
    "session_data st' = session_data st2" "map_wf V (teid_hash st')"
    "seid_view V (session_hash st') = (seid_view V (session_hash st2))(session_id_pool st := None)"
    "map_view V (teid_hash st') = (map_view V (teid_hash st))(teid := None)"
    using remove_effect [OF assms(1), of st2 p] h2 inv keys by (metis (no_types, lifting))
  obtain k d where k: "seid_view V (session_hash st) k = Some (q, d)" using assms(3) by (auto simp: live_sessions_def)
  then have "k < session_id_pool st" using pool unfolding pool_ok_def by blast
  then have "seid_view V (session_hash st') k = Some (q, d)" using k h2 by (simp add: st'(4))
  then have "q \<in> live_sessions V st'" by (auto simp: live_sessions_def)
  moreover have "UpfSessionFindByTeid L st' teid \<noteq> Some q"
    unfolding UpfSessionFindByTeid_def by (rule deleted_key_not_found [OF ml st'(3,5) inv(3) assms(4)])
  moreover have "UpfSessionAdd L mem st (Some ip) (Some teid) dnn PFCP_PDN_TYPE_IPV4 = Some (st', None)"
    using run ins st'(1) by (simp add: st2_def [symmetric] index_session_def Let_def)
  moreover have "session_data st' ! q = session_data st ! q" using h2 assms(3) st'(2) by auto
  ultimately show ?thesis by blast
qed

subsection \<open>Changing the keys of a session\<close>

text \<open>
  Moving a session to a new TEID. For a session with a TEID other than zero, \<^verbatim>\<open>UpfSessionUpdateTeid\<close>
  either succeeds, after which the session has the new TEID, no longer answers to the old one
  and no other session changed, or it fails (the TEID is taken or the table full) and leaves
  every session as it was. The store stays consistent either way.
\<close>

theorem session_update_teid_atomic:
  fixes L :: "('s, 'm, 'r) store_lib"
  assumes "store_laws L V" "store_inv L V st" "p \<in> live_sessions V st" "teid_of st p \<noteq> 0"
    and "UpfSessionUpdateTeid L st (Some p) teid = (st', status)"
  shows "store_inv L V st' \<and> live_sessions V st' = live_sessions V st \<and>
    session_data st' = (session_data st)[p := (session_data st ! p)
      \<lparr>s_teid := if status = STATUS_OK then teid else teid_of st p\<rparr>] \<and>
    ((\<exists>q\<in>live_sessions V st. q \<noteq> p \<and> teid_of st q = teid) \<longrightarrow> status = STATUS_ERROR)"
proof -
  have sl: "rte_hash_ok (seid_lib L) (seid_wf V) (seid_view V)"
    and ml: "rte_hash_ok (map_lib L) (map_wf V) (map_view V)" using assms(1) by (simp_all add: store_laws_def)
  have inv: "map_wf V (teid_hash st)" "seid_wf V (session_hash st)"
    "index_ok (map_view V (teid_hash st)) (live_sessions V st) (teid_of st)" and pool: "pool_ok L V st"
    using assms(2) by (simp_all add: store_inv_def pool_ok_def)
  obtain k d where k: "seid_view V (session_hash st) k = Some (p, d)" using assms(3) by (auto simp: live_sessions_def)
  have p: "p < length (session_data st)" "s_index (session_data st ! p) = int p"
    using hash_lookup_Some(3) [OF sl inv(2) k] pool k unfolding pool_ok_def by auto
  have uniq: "q = p" if "q \<in> live_sessions V st" "teid_of st q = teid_of st p" for q
    using inv(3) assms(3) that unfolding index_ok_def by (metis Pair_inject Suc_inject option.inject)
  show ?thesis
  proof (cases "teid_of st p = teid")
    case True
    then have "st' = st" "status = STATUS_OK" using assms(5) by (simp_all add: UpfSessionUpdateTeid_def)
    then show ?thesis using assms(2) uniq True by auto
  next
    case False
    obtain h r where i: "map_insert (map_lib L) (teid_hash st) teid (int p) = (h, r)" by (metis surj_pair)
    note c = map_insert_cases [OF ml inv(1) i]
    define st1 where "st1 = upd_session (st \<lparr>teid_hash := h\<rparr>) p (\<lambda>s. s \<lparr>s_teid := teid\<rparr>)"
    have run: "(st', status) = (if r \<noteq> STATUS_OK then (st \<lparr>teid_hash := h\<rparr>, STATUS_ERROR)
        else (TeidToUpfSessionMapFree L st1 (teid_of st p), STATUS_OK))"
      using assms(4,5) False i p(2)
      by (simp add: UpfSessionUpdateTeid_def InsertTEIDtoSessionMap_def st1_def Let_def split: if_splits)
    show ?thesis
    proof (cases "r = STATUS_OK")
      case False
      then have s: "st' = st \<lparr>teid_hash := h\<rparr>" "status = STATUS_ERROR" using run by simp_all
      have v: "map_wf V h" "map_view V h = map_view V (teid_hash st)"
        using c inv(1) False by (cases "map_view V (teid_hash st) teid"; auto)+
      show ?thesis
        using assms(2) v p by (simp add: s store_inv_def pool_ok_def live_sessions_def)
    next
      case True
      then have s: "st' = TeidToUpfSessionMapFree L st1 (teid_of st p)" "status = STATUS_OK"
        using run by simp_all
      have none: "map_view V (teid_hash st) teid = None" using c True by (cases "map_view V (teid_hash st) teid") auto
      then obtain q where v: "map_wf V h" "map_view V h = (map_view V (teid_hash st))(teid \<mapsto> (q, Suc p))"
        using c True by auto
      have del: "map_wf V (teid_hash st')"
        "map_view V (teid_hash st') = (map_view V h)(teid_of st p := None)"
        using hash_del_key_result [OF ml v(1)]
        by (simp_all add: s TeidToUpfSessionMapFree_def st1_def upd_session_def)
      have f: "session_data st' = (session_data st)[p := (session_data st ! p) \<lparr>s_teid := teid\<rparr>]"
        "session_hash st' = session_hash st" "ueip_hash st' = ueip_hash st" "sess_bufs st' = sess_bufs st"
        "session_id_pool st' = session_id_pool st"
        by (simp_all add: s TeidToUpfSessionMapFree_def st1_def upd_session_def)
      have live: "live_sessions V st' = live_sessions V st" by (simp add: live_sessions_def f)
      have nth: "session_data st' ! j = (if j = p then (session_data st ! p) \<lparr>s_teid := teid\<rparr> else session_data st ! j)"
        for j using p(1) by (simp add: f)
      have key: "teid_of st' = (teid_of st)(p := teid)" "ueip_of st' = ueip_of st" by (auto simp: nth fun_eq_iff)
      have "index_ok (map_view V (teid_hash st')) (live_sessions V st') (teid_of st')"
        unfolding live key(1) del(2) v(2) by (rule index_ok_change [OF inv(3) assms(3) none])
      moreover have "pool_ok L V st'"
        using pool by (auto simp: pool_ok_def f(2,4,5) nth) (auto simp: f(1))
      ultimately have "store_inv L V st'"
        using assms(2) del(1) unfolding store_inv_def live key(2) f(3) by simp
      moreover have "\<forall>q\<in>live_sessions V st. teid_of st q \<noteq> teid" using index_ok_None [OF inv(3)] none by blast
      ultimately show ?thesis using live f(1) s(2) by simp
    qed
  qed
qed

subsection \<open>A concrete store\<close>

text \<open>Association lists of key, position and data behave as the tables are documented to.\<close>

definition free_pos :: "('k \<times> nat \<times> nat) list \<Rightarrow> nat option" where
  "free_pos h = find (\<lambda>p. p \<notin> set (map (fst \<circ> snd) h)) [0..<MAX_NUM_OF_USERS]"

definition alist_add :: "('k \<times> nat \<times> nat) list \<Rightarrow> 'k \<Rightarrow> nat \<Rightarrow> ('k \<times> nat \<times> nat) list \<times> nat option" where
  "alist_add h k d =
     (case map_of h k of
        Some (p, _) \<Rightarrow> ((k, p, d) # filter (\<lambda>x. fst x \<noteq> k) h, Some p)
      | None \<Rightarrow> (case free_pos h of None \<Rightarrow> (h, None) | Some p \<Rightarrow> ((k, p, d) # h, Some p)))"

definition alist_hash :: "(('k \<times> nat \<times> nat) list, 'k) rte_hash_lib" where
  "alist_hash = \<lparr>hash_func = (\<lambda>_. 0),
     hash_lookup = (\<lambda>h k _. case map_of h k of None \<Rightarrow> -2 | Some (p, _) \<Rightarrow> int p),
     hash_add_key = (\<lambda>h k _. case alist_add h k 0 of (h', None) \<Rightarrow> (h', -28) | (h', Some p) \<Rightarrow> (h', int p)),
     hash_del_key = (\<lambda>h k _. (filter (\<lambda>x. fst x \<noteq> k) h,
        case map_of h k of None \<Rightarrow> -2 | Some (p, _) \<Rightarrow> int p)),
     hash_lookup_data = (\<lambda>h k _. case map_of h k of None \<Rightarrow> (-2, 0) | Some (p, d) \<Rightarrow> (int p, d)),
     hash_add_key_data = (\<lambda>h k _ d. case alist_add h k d of (h', None) \<Rightarrow> (h', -28) | (h', Some p) \<Rightarrow> (h', 0))\<rparr>"

definition alist_ok :: "('k \<times> nat \<times> nat) list \<Rightarrow> bool" where
  "alist_ok h \<longleftrightarrow> distinct (map fst h) \<and> distinct (map (fst \<circ> snd) h) \<and>
     (\<forall>x\<in>set h. fst (snd x) < MAX_NUM_OF_USERS)"

lemma map_of_filter_key: "map_of (filter (\<lambda>x. fst x \<noteq> k) h) = (map_of h)(k := None)"
  by (induction h) (auto simp: fun_eq_iff)

lemma alist_ok_filter: "alist_ok h \<Longrightarrow> alist_ok (filter P h)"
  by (auto simp: alist_ok_def intro: distinct_map_filter)

lemma alist_add_cases:
  assumes "alist_ok h" "alist_add h k d = (h', r)"
  shows "alist_ok h' \<and> (r = None \<and> map_of h' = map_of h \<or>
    (\<exists>p. r = Some p \<and> map_of h' = (map_of h)(k \<mapsto> (p, d))))"
proof (cases "map_of h k")
  case (Some x)
  then obtain p e where x: "map_of h k = Some (p, e)" by (cases x) auto
  let ?f = "filter (\<lambda>x. fst x \<noteq> k) h"
  have mem: "(k, p, e) \<in> set h" using x by (rule map_of_SomeD)
  have h': "h' = (k, p, d) # ?f" "r = Some p" using assms(2) x by (auto simp: alist_add_def)
  have "y = (k, p, e)" if "y \<in> set h" "fst (snd y) = p" for y
    using assms(1) mem that by (auto simp: alist_ok_def distinct_map inj_on_def)
  then have "p \<notin> set (map (fst \<circ> snd) ?f)" by fastforce
  then have "alist_ok h'"
    using alist_ok_filter [OF assms(1)] assms(1) mem by (auto simp: h' alist_ok_def)
  then show ?thesis using h' by (simp add: map_of_filter_key fun_eq_iff)
next
  case None
  show ?thesis
  proof (cases "free_pos h")
    case e: None
    then show ?thesis using assms None by (auto simp: alist_add_def)
  next
    case (Some p)
    then have p: "p \<notin> set (map (fst \<circ> snd) h)" "p < MAX_NUM_OF_USERS"
      by (auto simp: free_pos_def find_Some_iff)
    have "k \<notin> fst ` set h" using None by (simp add: map_of_eq_None_iff)
    moreover have "h' = (k, p, d) # h" "r = Some p" using assms(2) None Some by (auto simp: alist_add_def)
    ultimately show ?thesis using assms(1) p by (auto simp: alist_ok_def)
  qed
qed

lemma alist_hash_ok: "rte_hash_ok alist_hash alist_ok map_of"
  unfolding rte_hash_ok_def
proof (intro allI impI conjI)
  fix h :: "('a \<times> nat \<times> nat) list" and k k' p d d'
  assume ok: "alist_ok h" and "map_of h k = Some (p, d)" "map_of h k' = Some (p, d')"
  then have "(k, p, d) \<in> set h" "(k', p, d') \<in> set h" by (auto dest: map_of_SomeD)
  moreover have "inj_on (fst \<circ> snd) (set h)" using ok by (simp add: alist_ok_def distinct_map)
  ultimately have "(k, p, d) = (k', p, d')" by (intro inj_onD [of "fst \<circ> snd" "set h"]) simp_all
  then show "k = k'" by simp
next
  fix h :: "('a \<times> nat \<times> nat) list" and k p d
  assume "alist_ok h" "map_of h k = Some (p, d)"
  then show "p < MAX_NUM_OF_USERS" by (auto simp: alist_ok_def dest: map_of_SomeD)
next
  fix h h' :: "('a \<times> nat \<times> nat) list" and k r
  assume ok: "alist_ok h" and "hash_add_key alist_hash h k (hash_func alist_hash k) = (h', r)"
  moreover obtain g c where g: "alist_add h k 0 = (g, c)" by (metis surj_pair)
  ultimately have "h' = g" "r = (case c of None \<Rightarrow> -28 | Some p \<Rightarrow> int p)"
    by (auto simp: alist_hash_def split: option.splits)
  then show "alist_ok h'" "r < 0 \<and> map_of h' = map_of h \<or> (\<exists>p. r = int p \<and> map_of h' = (map_of h)(k \<mapsto> (p, 0)))"
    using alist_add_cases [OF ok g] by auto
next
  fix h h' :: "('a \<times> nat \<times> nat) list" and k d r
  assume ok: "alist_ok h" and "hash_add_key_data alist_hash h k (hash_func alist_hash k) d = (h', r)"
  moreover obtain g c where g: "alist_add h k d = (g, c)" by (metis surj_pair)
  ultimately have "h' = g" "r = (case c of None \<Rightarrow> -28 | Some p \<Rightarrow> 0)"
    by (auto simp: alist_hash_def split: option.splits)
  then show "alist_ok h'" "r < 0 \<and> map_of h' = map_of h \<or> (\<exists>p. r = 0 \<and> map_of h' = (map_of h)(k \<mapsto> (p, d)))"
    using alist_add_cases [OF ok g] by auto
next
  fix h h' :: "('a \<times> nat \<times> nat) list" and k r
  assume ok: "alist_ok h" and "hash_del_key alist_hash h k (hash_func alist_hash k) = (h', r)"
  then have "h' = filter (\<lambda>x. fst x \<noteq> k) h" by (simp add: alist_hash_def)
  then show "alist_ok h'" "map_of h' = (map_of h)(k := None)"
    using alist_ok_filter [OF ok] by (simp_all add: map_of_filter_key)
qed (simp_all add: alist_hash_def)

type_synonym example_seids = "(u64 \<times> nat \<times> nat) list"
type_synonym example_map = "(u32 \<times> nat \<times> nat) list"

definition example_lib :: "(example_seids, example_map, mbuf list) store_lib" where
  "example_lib = \<lparr>seid_lib = alist_hash, map_lib = alist_hash, ring_lib = list_ring\<rparr>"

definition example_view :: "(example_seids, example_map, mbuf list) store_view" where
  "example_view = \<lparr>seid_wf = alist_ok, seid_view = map_of, map_wf = alist_ok, map_view = map_of,
     ring_view = (\<lambda>r. r)\<rparr>"

lemma example_laws: "store_laws example_lib example_view"
  by (simp add: store_laws_def example_lib_def example_view_def alist_hash_ok list_ring_fifo)

text \<open>One session: SEID 5, TEID 7, address 9.\<close>

definition one_session :: UpfSession where
  "one_session = zero_session \<lparr>s_upfSeid := 5, s_teid := 7, s_ueIpv4 := 9, s_worker_service_id := 10\<rparr>"

definition one_store :: "(example_seids, example_map, mbuf list) session_store" where
  "one_store = \<lparr>session_hash = [(5, 0, 0)],
     session_data = (replicate MAX_NUM_OF_USERS zero_session)[0 := one_session],
     teid_hash = [(7, 0, 1)], ueip_hash = [(9, 0, 1)], sess_bufs = None, session_id_pool = 6,
     worker_cfg = no_workers\<rparr>"

lemma one_store_slot: "session_data one_store ! 0 = one_session"
  by (simp add: one_store_def)

lemma one_session_simps [simp]:
  "s_upfSeid one_session = 5" "s_teid one_session = 7" "s_ueIpv4 one_session = 9"
  "s_index one_session = 0" "s_hashKey one_session = 0"
  by (simp_all add: one_session_def zero_session_def)

lemma one_store_live: "live_sessions example_view one_store = {0}"
  by (auto simp: live_sessions_def example_view_def one_store_def split: if_splits)

lemma one_store_inv: "store_inv example_lib example_view one_store"
proof -
  have v: "seid_view example_view (session_hash one_store) = [5 \<mapsto> (0, 0)]"
    "map_view example_view (teid_hash one_store) = [7 \<mapsto> (0, 1)]"
    "map_view example_view (ueip_hash one_store) = [9 \<mapsto> (0, 1)]"
    by (simp_all add: example_view_def one_store_def)
  have f: "length (session_data one_store) = MAX_NUM_OF_USERS" "sess_bufs one_store = None"
    "session_id_pool one_store = 6" "seid_wf example_view (session_hash one_store)"
    "map_wf example_view (teid_hash one_store)" "map_wf example_view (ueip_hash one_store)"
    "hash_func (seid_lib example_lib) = (\<lambda>_. 0)"
    by (simp_all add: one_store_def example_view_def alist_ok_def example_lib_def alist_hash_def)
  have "pool_ok example_lib example_view one_store"
    by (auto simp: pool_ok_def f v one_store_slot split: if_splits)
  moreover have "index_ok [7 \<mapsto> (0, 1)] {0} (teid_of one_store)" "index_ok [9 \<mapsto> (0, 1)] {0} (ueip_of one_store)"
    by (auto simp: index_ok_def one_store_slot)
  ultimately show ?thesis by (simp add: store_inv_def one_store_live v f)
qed

theorem session_lookup_exact_witness:
  "UpfSessionFindBySeid example_lib one_store 5 = Some 0 \<and>
   UpfSessionFindByTeid example_lib one_store 7 = Some 0 \<and>
   UpfSessionFindByUeIP example_lib one_store 9 = Some 0"
  using session_lookup_exact [OF example_laws one_store_inv, of 5 0 7 9]
  by (simp add: one_store_live one_store_slot)

theorem session_remove_exact_witness:
  "\<exists>st'. UpfSessionRemove example_lib one_store (Some 0) = Some (st', STATUS_OK) \<and>
     live_sessions example_view st' = {}"
  using session_remove_exact [OF example_laws one_store_inv, of 0] by (auto simp: one_store_live)

theorem session_add_atomic_witness:
  "\<exists>st' r. UpfSessionAdd example_lib (\<lambda>_. True) one_store (Some 20) (Some 30) ''internet'' 1 = Some (st', r) \<and>
     store_inv example_lib example_view st'"
proof -
  have "session_id_pool one_store \<noteq> -1" by (simp add: one_store_def)
  then show ?thesis
    using session_add_atomic [OF example_laws one_store_inv, of 30 20 "\<lambda>_. True" "''internet''" 1]
    by (auto simp: one_store_live one_store_slot)
qed

theorem duplicate_teid_unlinks_session_witness:
  "\<exists>st'. UpfSessionAdd example_lib (\<lambda>_. True) one_store (Some 20) (Some 7) ''internet'' 1 = Some (st', None) \<and>
     UpfSessionFindByTeid example_lib st' 7 \<noteq> Some 0"
proof -
  have "free_pos [(5 :: u64, 0, 0)] = Some 1"
    unfolding free_pos_def find_Some_iff by (rule exI [of _ 1]) simp
  then have "snd (UpfSessionAlloc example_lib one_store (session_id_pool one_store)) \<noteq> None"
    by (simp add: UpfSessionAlloc_def example_lib_def alist_hash_def one_store_def alist_add_def Let_def)
  then show ?thesis
    using duplicate_teid_unlinks_session [OF example_laws one_store_inv, of 0 7 "\<lambda>_. True" 20 "''internet''"]
    by (auto simp: one_store_live one_store_slot)
qed

theorem session_update_teid_atomic_witness:
  "\<exists>st' status. UpfSessionUpdateTeid example_lib one_store (Some 0) 8 = (st', status) \<and>
     store_inv example_lib example_view st'"
proof -
  obtain st' status where u: "UpfSessionUpdateTeid example_lib one_store (Some 0) 8 = (st', status)"
    by (metis surj_pair)
  show ?thesis
    using session_update_teid_atomic [OF example_laws one_store_inv _ _ u] u
    by (auto simp: one_store_live one_store_slot)
qed

end
