(* ===== verification/Packet_Handler.thy ===== *)
theory Packet_Handler
  imports Dl_Config Shaper_Drain Neigh Icmp Session_Store
begin

text \<open>
  The callbacks a worker registers with the framework (\<^verbatim>\<open>5gc/upf_u/upf_u.c\<close>):
  \<^verbatim>\<open>packet_handler\<close>, \<^verbatim>\<open>msg_handler\<close> and \<^verbatim>\<open>callback_handler\<close>, composed of the
  components of the data plane. A packet is its address; the contents of packets and their metadata are
  part of the worker's state. A handler that would follow a null pointer, or that does not
  return, has no result.
\<close>

subsection \<open>The worker\<close>

abbreviation (input) SHAPER_INLINE_DRAIN_BUDGET :: nat where "SHAPER_INLINE_DRAIN_BUDGET \<equiv> 32"
abbreviation (input) INLINE_DRAIN_BATCH :: nat where "INLINE_DRAIN_BATCH \<equiv> 8"
abbreviation (input) UPF_EVENT_SESSION_REPORT :: u32 where "UPF_EVENT_SESSION_REPORT \<equiv> 1"
abbreviation (input) FAR_ACTION_MASK :: u8 where "FAR_ACTION_MASK \<equiv> 0x07"

text \<open>
  What a call sees of its surroundings: configuration, the rules in shared memory, libraries, and
  the readings of the cycle counter, \<open>pe_clk i\<close> for the \<open>i\<close>-th component called.
\<close>

record ('s, 'm, 'r, 'p, 't, 'c) worker_env =
  pe_ports :: upf_ports
  pe_hz :: u64
  pe_clk :: "nat \<Rightarrow> nat \<Rightarrow> u64"
  pe_rules :: rule_memory
  pe_classify :: "'c \<Rightarrow> ps_packet_t \<Rightarrow> int \<times> nat"
  pe_meter :: "('p, 't) rte_meter_lib"
  pe_store :: "('s, 'm, 'r) store_lib"
  pe_arp :: arp_env
  pe_ipv4_cksum :: "u8 list \<Rightarrow> u16"
  pe_raw_cksum :: "u8 list \<Rightarrow> u16"
  pe_pool :: bool
  pe_entry :: bool
  pe_loads :: "nat \<Rightarrow> u32 \<times> 'c option \<times> u32"
  pe_send :: "nat \<Rightarrow> send_env"

text \<open>
  The state. \<open>w_tx\<close> are the packets handed to the transmit path by the drains, \<open>w_msgs\<close> the messages
  sent, both oldest first.
\<close>

record ('s, 'm, 'r, 'p, 't, 'c) worker =
  w_shaper :: shaper_state
  w_meter :: "('p, 't) flow_meter"
  w_arp :: arp_state
  w_store :: "('s, 'm, 'r) session_store"
  w_cls :: "'c upf_cls_local_t"
  w_data :: "mbuf \<Rightarrow> rte_mbuf"
  w_tx :: "mbuf list"
  w_msgs :: "(u16 \<times> Event) list"

definition shaper_init_entry_pool :: "bool \<Rightarrow> bool \<Rightarrow> bool \<Rightarrow> bool \<Rightarrow> bool \<times> int" where
  "shaper_init_entry_pool pool lookup create lookup_again =
     (let entry_count64 = MAX_UE * SHAPER_MAX_PKTS_PER_UE in
      if pool then (True, 0)
      else if entry_count64 = 0 \<or> entry_count64 > UINT32_MAX then (False, -1)
      else if lookup then (True, 0)
      else if create \<or> lookup_again then (True, 0) else (False, -1))"

subsection \<open>Reports, redirection and the uplink FAR\<close>

text \<open>
  A report to the control plane. The two globals it carries, \<^verbatim>\<open>seid\<close> and \<^verbatim>\<open>pdrId\<close>, are initialised
  to 0 and never assigned. The allocation is not checked: without memory the write through it
  faults.
\<close>

definition send_report :: "send_env \<Rightarrow> (u16 \<times> Event) list option" where
  "send_report env =
     (if \<not> se_calloc env then None
      else Some (snd (send_event env UPF_C_SERVICE_ID
             \<lparr>ev_type = ucast UPF_EVENT_SESSION_REPORT, ev_argc = 0, ev_arg0 = 0, ev_arg1 = 0\<rparr>)))"

definition HandlePacketWithFar ::
  "('s, 'm, 'r, 'p, 't, 'c) worker_env \<Rightarrow> rte_mbuf \<Rightarrow> UPDK_FAR \<Rightarrow> UPDK_QER option \<Rightarrow> u16 \<Rightarrow>
     onvm_pkt_meta \<Rightarrow> (rte_mbuf \<times> onvm_pkt_meta \<times> (u16 \<times> Event) list) option" where
  "HandlePacketWithFar env pkt far qer out_port meta =
     (if \<not> farf_applyAction (far_flags far) then Some (pkt, meta, [])
      else
        let act = far_applyAction far AND FAR_ACTION_MASK;
            (pkt, meta) =
              (if act = UPDK_FAR_APPLY_ACTION_DROP then (pkt, meta \<lparr>m_action := ONVM_NF_ACTION_DROP\<rparr>)
               else if act = UPDK_FAR_APPLY_ACTION_FORW then
                 (if farf_forwardingParameters (far_flags far) \<and>
                     fpf_outerHeaderCreation (fp_flags (far_forwardingParameters far)) \<and>
                     ohc_description (fp_outerHeaderCreation (far_forwardingParameters far))
                       = OUTER_HEADER_CREATION_GTPU_UDP_IPV4
                  then Encap (pe_ipv4_cksum env) (g_n3_ip_be (pe_ports env)) pkt far qer else pkt,
                  meta \<lparr>m_destination := out_port, m_action := ONVM_NF_ACTION_OUT\<rparr>)
               else if act = UPDK_FAR_APPLY_ACTION_BUFF then (pkt, meta \<lparr>m_action := ONVM_NF_ACTION_DROP\<rparr>)
               else (pkt, meta))
        in do {
             msgs \<leftarrow> (if far_applyAction far AND UPDK_FAR_APPLY_ACTION_NOCP \<noteq> 0
                      then send_report (pe_send env 1) else Some []);
             Some (pkt, meta, msgs)
           })"

text \<open>\<open>sid\<close> is the service id of this worker; \<open>None\<close> is a missing context.\<close>

definition redirect_to_owner_if_needed ::
  "u16 option \<Rightarrow> ('s, 'm, 'r) session_store \<Rightarrow> nat option \<Rightarrow> u32 \<Rightarrow> onvm_pkt_meta \<Rightarrow>
     ('s, 'm, 'r) session_store \<times> onvm_pkt_meta \<times> bool" where
  "redirect_to_owner_if_needed sid st session teid meta =
     (case (session, sid) of
        (Some p, Some self) \<Rightarrow>
          (let (st, owner) = UpfSessionEnsureWorkerServiceId st session teid in
           if owner = UPF_INVALID_SERVICE_ID \<or> owner = self then (st, meta, False)
           else (st, meta \<lparr>m_action := ONVM_NF_ACTION_TONF, m_destination := owner\<rparr>, True))
      | _ \<Rightarrow> (st, meta, False))"

subsection \<open>Metering\<close>

text \<open>
  The meter of a PDR with a flow description, as both directions use it. The flag tells
  whether the packet goes on.
\<close>

definition police_packet ::
  "('p, 't) rte_meter_lib \<Rightarrow> ('p, 't) flow_meter \<Rightarrow> u32 \<Rightarrow> u64 \<Rightarrow> u32 \<Rightarrow> onvm_pkt_meta \<Rightarrow>
     ('p, 't) flow_meter \<times> onvm_pkt_meta \<times> bool" where
  "police_packet lib fm key now len meta =
     (let red = meta \<lparr>m_flags := 2, m_action := ONVM_NF_ACTION_DROP\<rparr>;
          ft_idx = ftSearch (iPFlows fm) key
      in if ft_idx < 0 \<or> ft_idx \<ge> int APP_FLOWS_MAX then (fm, red, False)
         else case trtcmProfileForFlow fm ft_idx of
           None \<Rightarrow> (fm, red, False)
         | Some profile \<Rightarrow>
             (let (fm, color_result) = trtcmColorHandle lib fm len now ft_idx (Some profile) in
              if color_result < 0 then (fm, red, False)
              else (fm, fst (trtcmPolicer (meta \<lparr>m_action := ONVM_NF_ACTION_OUT\<rparr>) color_result), True)))"

subsection \<open>Uplink\<close>

text \<open>
  After the FAR: the inner packet must be IPv4, a metered flow is policed, and the packet leaves
  for the data network when its next hop is known.
\<close>

definition uplink_police ::
  "('s, 'm, 'r, 'p, 't, 'c) worker_env \<Rightarrow> ('p, 't) flow_meter \<Rightarrow> UPDK_PDR \<Rightarrow> rte_mbuf \<Rightarrow> u32 \<Rightarrow>
     onvm_pkt_meta \<Rightarrow> ('p, 't) flow_meter \<times> onvm_pkt_meta \<times> bool" where
  "uplink_police env fm pdr pkt dn_ip_be meta =
     (if pdr_has_fd pdr \<noteq> 0 \<and>
         (case pdr_qer pdr of None \<Rightarrow> False | Some qer \<Rightarrow> qerf_maximumBitrate (qer_flags qer)) \<and>
         (pdr_has_fd_to pdr = 0 \<or> rte_be_to_cpu_32 dn_ip_be AND pdr_fd_to_mask pdr = pdr_fd_to_net pdr)
      then case police_packet (pe_meter env) fm (pdr_meter_key pdr) (pe_clk env 5 0) (mb_pkt_len pkt) meta of
             (fm, meta, go) \<Rightarrow> (fm, meta, go \<and> m_action meta \<noteq> ONVM_NF_ACTION_DROP)
      else (fm, meta, True))"

definition handle_uplink ::
  "('s, 'm, 'r, 'p, 't, 'c) worker_env \<Rightarrow> u16 option \<Rightarrow> ('s, 'm, 'r, 'p, 't, 'c) worker \<Rightarrow> UPDK_PDR \<Rightarrow>
     UPDK_FAR \<Rightarrow> rte_mbuf \<Rightarrow> onvm_pkt_meta \<Rightarrow>
     (('s, 'm, 'r, 'p, 't, 'c) worker \<times> rte_mbuf \<times> onvm_pkt_meta) option" where
  "handle_uplink env sid w pdr far pkt meta =
     do {
       (pkt, meta, msgs) \<leftarrow> HandlePacketWithFar env pkt far (pdr_qer pdr) (g_n6_port (pe_ports env)) meta;
       let w = w \<lparr>w_msgs := w_msgs w @ msgs\<rparr>;
       let dropped = meta \<lparr>m_action := ONVM_NF_ACTION_DROP\<rparr>;
       if drop_bit 4 (ip_version_ihl pkt 0) \<noteq> 4 then Some (w, pkt, dropped)
       else if m_action meta \<noteq> ONVM_NF_ACTION_OUT then Some (w, pkt, meta)
       else do {
         let dn_ip_be = ip_dst_addr pkt 0;
         let (fm, meta, go) = uplink_police env (w_meter w) pdr pkt dn_ip_be meta;
         let w = w \<lparr>w_meter := fm\<rparr>;
         if \<not> go then Some (w, pkt, meta)
         else (case sid of
            None \<Rightarrow> None
          | Some _ \<Rightarrow>
              (case attach_l2_or_arp (pe_arp env) (pe_clk env 6 0) (pe_clk env 6 1) (pe_clk env 6 2) (w_arp w)
                      pkt (g_n6_port (pe_ports env)) (g_n6_ip_be (pe_ports env)) dn_ip_be True of
                 (arp, pkt, rc) \<Rightarrow>
                   Some (w \<lparr>w_arp := arp\<rparr>, pkt,
                         if rc < 0 then meta \<lparr>m_action := ONVM_NF_ACTION_DROP\<rparr> else meta)))
       }
     }"

subsection \<open>Downlink\<close>

text \<open>Metering and shaping of a packet to be forwarded; the flag tells whether it goes on now.\<close>

definition downlink_shape ::
  "('s, 'm, 'r, 'p, 't, 'c) worker_env \<Rightarrow> ('s, 'm, 'r, 'p, 't, 'c) worker \<Rightarrow> UPDK_PDR \<Rightarrow> mbuf \<Rightarrow>
     rte_mbuf \<Rightarrow> int \<Rightarrow> shaper_flow_key \<Rightarrow> bool \<Rightarrow> u32 \<Rightarrow> u32 \<Rightarrow> onvm_pkt_meta \<Rightarrow>
     ('s, 'm, 'r, 'p, 't, 'c) worker \<times> onvm_pkt_meta \<times> bool" where
  "downlink_shape env w pdr p pkt ue_idx key gbr qid cal_pktlen meta =
     (if ue_idx < 0 then (w, meta \<lparr>m_action := ONVM_NF_ACTION_DROP\<rparr>, False)
      else
        let (fm, meta, go) =
              (if pdr_has_fd pdr \<noteq> 0
               then police_packet (pe_meter env) (w_meter w) (pdr_meter_key pdr) (pe_clk env 7 0) cal_pktlen meta
               else (w_meter w, meta, True));
            w = w \<lparr>w_meter := fm\<rparr>
        in if \<not> go then (w, meta, False)
           else if pdr_has_fd pdr \<noteq> 0 \<and> m_flags meta = 2 then
             (w \<lparr>w_shaper := (w_shaper w) \<lparr>counters := (counters (w_shaper w))
                   \<lparr>c_drop_red := c_drop_red (counters (w_shaper w)) + 1\<rparr>\<rparr>\<rparr>,
              meta \<lparr>m_action := ONVM_NF_ACTION_DROP\<rparr>, False)
           else
             let color = (if pdr_has_fd pdr \<noteq> 0 \<and> m_flags meta = 0 then SHAPER_COLOR_GREEN
                          else if pdr_has_fd pdr \<noteq> 0 \<and> m_flags meta = 1 then SHAPER_COLOR_YELLOW
                          else SHAPER_COLOR_NQOS);
                 (s, meta, decision) =
                   shape_or_enqueue_packet (pe_hz env) (pe_clk env 8) (pe_pool env) (pe_entry env) (w_shaper w)
                     ue_idx (Some key) gbr qid color (Some (p, mb_pkt_len pkt)) cal_pktlen meta
             in (w \<lparr>w_shaper := s\<rparr>, meta, decision = SHAPER_PASS))"

text \<open>The slot of a session's buffer, and its update.\<close>

definition set_sess_buf ::
  "('s, 'm, 'r, 'p, 't, 'c) worker \<Rightarrow> nat \<Rightarrow> 'r UpfSessBuf \<Rightarrow> ('s, 'm, 'r, 'p, 't, 'c) worker" where
  "set_sess_buf w i sb = w \<lparr>w_store := (w_store w)
     \<lparr>sess_bufs := map_option (\<lambda>b. b[i := sb]) (sess_bufs (w_store w))\<rparr>\<rparr>"

text \<open>\<open>dl_nocp\<close>: the end of the downlink path.\<close>

definition downlink_done ::
  "('s, 'm, 'r, 'p, 't, 'c) worker_env \<Rightarrow> UPDK_FAR \<Rightarrow> ('s, 'm, 'r, 'p, 't, 'c) worker \<Rightarrow> rte_mbuf \<Rightarrow>
     onvm_pkt_meta \<Rightarrow> (('s, 'm, 'r, 'p, 't, 'c) worker \<times> rte_mbuf \<times> onvm_pkt_meta) option" where
  "downlink_done env far w pkt meta =
     (if far_applyAction far AND UPDK_FAR_APPLY_ACTION_NOCP \<noteq> 0
      then do { msgs \<leftarrow> send_report (pe_send env 2); Some (w \<lparr>w_msgs := w_msgs w @ msgs\<rparr>, pkt, meta) }
      else Some (w, pkt, meta))"

text \<open>With the session's ring at hand and the packet dressed for the N3 port: buffer, or shape and send.\<close>

definition downlink_send ::
  "('s, 'm, 'r, 'p, 't, 'c) worker_env \<Rightarrow> ('s, 'm, 'r, 'p, 't, 'c) worker \<Rightarrow> UPDK_PDR \<Rightarrow> UPDK_FAR \<Rightarrow>
     nat \<Rightarrow> 'r UpfSessBuf \<Rightarrow> mbuf \<Rightarrow> rte_mbuf \<Rightarrow> int \<Rightarrow> shaper_flow_key \<Rightarrow> bool \<Rightarrow> u32 \<Rightarrow> u32 \<Rightarrow>
     onvm_pkt_meta \<Rightarrow> (('s, 'm, 'r, 'p, 't, 'c) worker \<times> rte_mbuf \<times> onvm_pkt_meta) option" where
  "downlink_send env w pdr far i sb p pkt ue_idx key gbr qid cal_pktlen meta =
     (let act = far_applyAction far AND FAR_ACTION_MASK in
      if act = UPDK_FAR_APPLY_ACTION_BUFF then
        (let (sb, rc) = sess_buffer_packet (ring_lib (pe_store env)) sb (refcnt (w_shaper w)) p;
             w = set_sess_buf (w \<lparr>w_shaper := (w_shaper w) \<lparr>refcnt := rc\<rparr>\<rparr>) i sb
         in downlink_done env far w pkt (meta \<lparr>m_action := ONVM_NF_ACTION_DROP\<rparr>))
      else
        let (w, meta, go) =
              (if act = UPDK_FAR_APPLY_ACTION_FORW
               then downlink_shape env w pdr p pkt ue_idx key gbr qid cal_pktlen meta
               else (w, meta, True))
        in if \<not> go then downlink_done env far w pkt meta
           else
             let sb = sb \<lparr>sb_is_buffering := False\<rparr>;
                 (sb, metas, batches, n, _) =
                   (if sb_touched sb
                    then drain_session_batch (ring_lib (pe_store env)) sb (pkt_meta (w_shaper w))
                           INLINE_DRAIN_BATCH False
                    else (sb, pkt_meta (w_shaper w), [], 0, False));
                 w = set_sess_buf (w \<lparr>w_shaper := (w_shaper w) \<lparr>pkt_meta := metas\<rparr>,
                       w_tx := w_tx w @ concat batches\<rparr>) i sb
             in downlink_done env far w pkt (meta \<lparr>m_action := ONVM_NF_ACTION_OUT\<rparr>))"

definition handle_downlink ::
  "('s, 'm, 'r, 'p, 't, 'c) worker_env \<Rightarrow> u16 option \<Rightarrow> ('s, 'm, 'r, 'p, 't, 'c) worker \<Rightarrow> UPDK_PDR \<Rightarrow>
     UPDK_FAR \<Rightarrow> mbuf \<Rightarrow> rte_mbuf \<Rightarrow> int \<Rightarrow> shaper_flow_key \<Rightarrow> bool \<Rightarrow> u32 \<Rightarrow> u32 \<Rightarrow> onvm_pkt_meta \<Rightarrow>
     (('s, 'm, 'r, 'p, 't, 'c) worker \<times> rte_mbuf \<times> onvm_pkt_meta) option" where
  "handle_downlink env sid w pdr far p pkt ue_idx key gbr qid cal_pktlen meta =
     (let dropped = meta \<lparr>m_action := ONVM_NF_ACTION_DROP\<rparr>;
          sess_idx = pdr_session_index pdr;
          ohc = fp_outerHeaderCreation (far_forwardingParameters far);
          ports = pe_ports env
      in case sid of
        None \<Rightarrow> None
      | Some _ \<Rightarrow>
          if far_applyAction far AND FAR_ACTION_MASK = UPDK_FAR_APPLY_ACTION_DROP
          then downlink_done env far w pkt dropped
          else if sess_idx < 0 \<or> sess_idx \<ge> int SESS_BUF_MAX_USERS then downlink_done env far w pkt dropped
          else case sess_bufs (w_store w) of
            None \<Rightarrow> None
          | Some bufs \<Rightarrow>
              (let sb = bufs ! nat sess_idx in
               if \<not> sb_ring_created sb \<or> sb_ring sb = None then downlink_done env far w pkt dropped
               else
                 let pkt = (if farf_forwardingParameters (far_flags far) \<and>
                               fpf_outerHeaderCreation (fp_flags (far_forwardingParameters far)) \<and>
                               ohc_description ohc = OUTER_HEADER_CREATION_GTPU_UDP_IPV4
                            then Encap (pe_ipv4_cksum env) (g_n3_ip_be ports) pkt far (pdr_qer pdr) else pkt);
                     (arp, pkt, rc) =
                       attach_l2_or_arp (pe_arp env) (pe_clk env 9 0) (pe_clk env 9 1) (pe_clk env 9 2) (w_arp w)
                         pkt (g_n3_port ports) (g_n3_ip_be ports) (ohc_ipv4 ohc) True;
                     w = w \<lparr>w_arp := arp\<rparr>
                 in if rc < 0 then Some (w, pkt, dropped)
                    else downlink_send env w pdr far (nat sess_idx) sb p pkt ue_idx key gbr qid cal_pktlen
                           (meta \<lparr>m_destination := g_n3_port ports\<rparr>)))"

subsection \<open>Finding the rule\<close>

text \<open>
  The left result ends the handling of the packet with that metadata; the right one is the PDR,
  with what the direction needs of the search.
\<close>

definition uplink_rule ::
  "('s, 'm, 'r, 'p, 't, 'c) worker_env \<Rightarrow> u16 option \<Rightarrow> ('s, 'm, 'r, 'p, 't, 'c) worker \<Rightarrow> rte_mbuf \<Rightarrow>
     onvm_pkt_meta \<Rightarrow> (('s, 'm, 'r, 'p, 't, 'c) worker \<times> (onvm_pkt_meta + rule_ptr \<times> u16)) option" where
  "uplink_rule env sid w pkt meta =
     (case onvm_pkt_udp_hdr pkt of
        None \<Rightarrow> Some (w, Inl meta)
      | Some _ \<Rightarrow>
          (case parse_gtpu_once pkt of
             None \<Rightarrow> Some (w, Inl meta)
           | Some info \<Rightarrow>
               if \<not> gtp_valid info then Some (w, Inl meta)
               else
                 let session = UpfSessionFindByTeidHost (pe_store env) (w_store w) (gtp_teid info);
                     (st, meta, moved) =
                       redirect_to_owner_if_needed sid (w_store w) session (gtp_teid info) meta;
                     w = w \<lparr>w_store := st\<rparr>
                 in if moved then Some (w, Inl meta)
                    else do {
                      (fm, pdr) \<leftarrow> GetPdrByTeid (pe_classify env) (pe_meter env) (pe_ports env) (pe_rules env)
                                    (w_cls w) (w_meter w) pkt info;
                      Some (w \<lparr>w_meter := fm\<rparr>,
                        case pdr of None \<Rightarrow> Inl (meta \<lparr>m_action := ONVM_NF_ACTION_DROP\<rparr>)
                        | Some a \<Rightarrow> Inr (a, gtp_outer_hdr_len info))
                    }))"

definition downlink_rule ::
  "('s, 'm, 'r, 'p, 't, 'c) worker_env \<Rightarrow> u16 option \<Rightarrow> ('s, 'm, 'r, 'p, 't, 'c) worker \<Rightarrow> rte_mbuf \<Rightarrow>
     u32 \<Rightarrow> onvm_pkt_meta \<Rightarrow>
     (('s, 'm, 'r, 'p, 't, 'c) worker \<times> (onvm_pkt_meta + rule_ptr \<times> nat option)) option" where
  "downlink_rule env sid w pkt dst meta =
     (let session = UpfSessionFindByUeIP (pe_store env) (w_store w) dst;
          teid = (case session of None \<Rightarrow> 0
                  | Some i \<Rightarrow> rte_be_to_cpu_32 (s_teid (session_data (w_store w) ! i)));
          (st, meta, moved) = redirect_to_owner_if_needed sid (w_store w) session teid meta;
          w = w \<lparr>w_store := st\<rparr>
      in if moved then Some (w, Inl meta)
         else do {
           (fm, pdr) \<leftarrow> GetPdrByUeIpAddress (pe_classify env) (pe_meter env) (pe_ports env) (pe_rules env)
                         (w_cls w) (w_meter w) pkt (rte_cpu_to_be_32 dst);
           Some (w \<lparr>w_meter := fm\<rparr>,
             case pdr of None \<Rightarrow> Inl (meta \<lparr>m_action := ONVM_NF_ACTION_DROP\<rparr>)
             | Some a \<Rightarrow> Inr (a, session))
         })"

subsection \<open>The handlers\<close>

text \<open>Removal of the front of a packet; a packet that is too short stays as it is.\<close>

definition pkt_adj :: "rte_mbuf \<Rightarrow> u16 \<Rightarrow> rte_mbuf" where
  "pkt_adj pkt len = (case rte_pktmbuf_adj pkt len of None \<Rightarrow> pkt | Some pkt \<Rightarrow> pkt)"

definition remove_outer_header :: "UPDK_PDR \<Rightarrow> u16 \<Rightarrow> rte_mbuf \<Rightarrow> rte_mbuf" where
  "remove_outer_header pdr outer_hdr_len pkt =
     (if pdrf_outerHeaderRemoval (pdr_flags pdr) \<and> pdr_outerHeaderRemoval pdr = OUTER_HEADER_REMOVAL_GTP_IP4
      then pkt_adj pkt outer_hdr_len else pkt)"

definition uplink_packet ::
  "('s, 'm, 'r, 'p, 't, 'c) worker_env \<Rightarrow> u16 option \<Rightarrow> ('s, 'm, 'r, 'p, 't, 'c) worker \<Rightarrow> rte_mbuf \<Rightarrow>
     onvm_pkt_meta \<Rightarrow> (('s, 'm, 'r, 'p, 't, 'c) worker \<times> rte_mbuf \<times> onvm_pkt_meta) option" where
  "uplink_packet env sid w pkt meta =
     do {
       (w, found) \<leftarrow> uplink_rule env sid w pkt meta;
       (case found of
          Inl meta \<Rightarrow> Some (w, pkt, meta)
        | Inr (a, outer_hdr_len) \<Rightarrow>
            (let pdr = mem_pdr (pe_rules env) a; pkt = pkt_adj pkt 14 in
             case pdr_far pdr of
               None \<Rightarrow> Some (w, pkt, meta \<lparr>m_action := ONVM_NF_ACTION_DROP\<rparr>)
             | Some far \<Rightarrow> handle_uplink env sid w pdr far (remove_outer_header pdr outer_hdr_len pkt) meta))
     }"

definition downlink_packet ::
  "('s, 'm, 'r, 'p, 't, 'c) worker_env \<Rightarrow> u16 option \<Rightarrow> ('s, 'm, 'r, 'p, 't, 'c) worker \<Rightarrow> mbuf \<Rightarrow>
     rte_mbuf \<Rightarrow> u32 \<Rightarrow> u32 \<Rightarrow> onvm_pkt_meta \<Rightarrow>
     (('s, 'm, 'r, 'p, 't, 'c) worker \<times> rte_mbuf \<times> onvm_pkt_meta) option" where
  "downlink_packet env sid w p pkt dst cal_pktlen meta =
     do {
       (w, found) \<leftarrow> downlink_rule env sid w pkt dst meta;
       (case found of
          Inl meta \<Rightarrow> Some (w, pkt, meta)
        | Inr (a, session) \<Rightarrow>
            (let pdr = mem_pdr (pe_rules env) a;
                 ue_key = rte_cpu_to_be_32 dst;
                 (t, ue_idx) = ConfigureDlShaperForPdr (pe_clk env 4) (pe_rules env) (tokens (w_shaper w)) ue_key
                   (map_option ((!) (session_data (w_store w))) session) (Some pdr);
                 w = w \<lparr>w_shaper := (w_shaper w) \<lparr>tokens := t\<rparr>\<rparr>;
                 dropped = meta \<lparr>m_action := ONVM_NF_ACTION_DROP\<rparr>
             in case build_dl_shaper_flow_key (Some pkt) (Some pdr) ue_key (pdr_has_fd pdr \<noteq> 0) of
                  None \<Rightarrow> Some (w, pkt, dropped)
                | Some key \<Rightarrow>
                    (let qid = (case pdr_qer pdr of None \<Rightarrow> 0 | Some qer \<Rightarrow> qer_qerId qer);
                         pkt = pkt_adj pkt 14
                     in case pdr_far pdr of
                          None \<Rightarrow> Some (w, pkt, dropped)
                        | Some far \<Rightarrow>
                            handle_downlink env sid w pdr far p (remove_outer_header pdr 0 pkt) ue_idx key
                              (dl_qos_flow_has_gbr (Some pdr)) qid cal_pktlen meta)))
     }"

text \<open>An IPv4 packet that is for none of the local services.\<close>

definition route_packet ::
  "('s, 'm, 'r, 'p, 't, 'c) worker_env \<Rightarrow> u16 option \<Rightarrow> ('s, 'm, 'r, 'p, 't, 'c) worker \<Rightarrow> mbuf \<Rightarrow>
     rte_mbuf \<Rightarrow> onvm_pkt_meta \<Rightarrow> (('s, 'm, 'r, 'p, 't, 'c) worker \<times> rte_mbuf \<times> onvm_pkt_meta) option" where
  "route_packet env sid w p pkt meta =
     (let meta = meta \<lparr>m_action := ONVM_NF_ACTION_DROP\<rparr> in
      case onvm_pkt_ipv4_hdr pkt of
        None \<Rightarrow> Some (w, pkt, meta)
      | Some iph \<Rightarrow>
          do {
            (cls, msgs) \<leftarrow> UpfClsMaybeFlipAndAck (pe_send env 0) sid (pe_loads env) (w_cls w);
            let w = w \<lparr>w_cls := cls, w_msgs := w_msgs w @ msgs\<rparr>;
            if ip_dst_addr pkt iph = g_n3_ip_be (pe_ports env) then uplink_packet env sid w pkt meta
            else downlink_packet env sid w p pkt (ip_dst_addr pkt iph)
                   (dl_qos_packet_len (Some pkt) (Some iph)) meta
          })"

text \<open>ARP and echo requests are served locally.\<close>

definition dispatch_packet ::
  "('s, 'm, 'r, 'p, 't, 'c) worker_env \<Rightarrow> u16 option \<Rightarrow> ('s, 'm, 'r, 'p, 't, 'c) worker \<Rightarrow> mbuf \<Rightarrow>
     rte_mbuf \<Rightarrow> onvm_pkt_meta \<Rightarrow> (('s, 'm, 'r, 'p, 't, 'c) worker \<times> rte_mbuf \<times> onvm_pkt_meta) option" where
  "dispatch_packet env sid w p pkt meta =
     (if rte_be_to_cpu_16 (ether_type pkt) = RTE_ETHER_TYPE_ARP then
        (let (arp, meta) =
               handle_arp_packet (pe_ports env) (pe_arp env) (pe_clk env 1 0) (w_arp w) pkt meta (sid \<noteq> None)
         in Some (w \<lparr>w_arp := arp\<rparr>, pkt, meta))
      else
        (case handle_local_icmp_echo (pe_ipv4_cksum env) (pe_raw_cksum env) (pe_ports env) pkt meta
                (sid \<noteq> None) of
           (pkt, meta, handled) \<Rightarrow>
             if handled then Some (w, pkt, meta) else route_packet env sid w p pkt meta))"

text \<open>The drain that comes first, and the packet, whose contents and metadata are changed in place.\<close>

definition inline_drain ::
  "('s, 'm, 'r, 'p, 't, 'c) worker_env \<Rightarrow> u16 option \<Rightarrow> ('s, 'm, 'r, 'p, 't, 'c) worker \<Rightarrow>
     ('s, 'm, 'r, 'p, 't, 'c) worker" where
  "inline_drain env sid w =
     (case sid of
        None \<Rightarrow> w
      | Some _ \<Rightarrow>
          (case drain_shaper_queues_budget (pe_hz env) (pe_clk env 0) True SHAPER_INLINE_DRAIN_BUDGET
                  (w_shaper w) of
             (s, _, tx, _) \<Rightarrow> w \<lparr>w_shaper := s, w_tx := w_tx w @ tx\<rparr>))"

definition packet_handler ::
  "('s, 'm, 'r, 'p, 't, 'c) worker_env \<Rightarrow> u16 option \<Rightarrow> ('s, 'm, 'r, 'p, 't, 'c) worker \<Rightarrow> mbuf option \<Rightarrow>
     ('s, 'm, 'r, 'p, 't, 'c) worker option" where
  "packet_handler env sid w pkt_ptr =
     (let w = inline_drain env sid w in
      case pkt_ptr of
        None \<Rightarrow> Some w
      | Some p \<Rightarrow>
          do {
            (w, pkt, meta) \<leftarrow> dispatch_packet env sid w p (w_data w p) (pkt_meta (w_shaper w) p);
            Some (w \<lparr>w_data := (w_data w)(p := pkt),
                     w_shaper := (w_shaper w) \<lparr>pkt_meta := (pkt_meta (w_shaper w))(p := meta)\<rparr>\<rparr>)
          })"

text \<open>Messages from the control plane.\<close>

definition msg_handler ::
  "('s, 'm, 'r, 'p, 't, 'c) worker_env \<Rightarrow> u16 option \<Rightarrow> ('s, 'm, 'r, 'p, 't, 'c) worker \<Rightarrow> Event option \<Rightarrow>
     ('s, 'm, 'r, 'p, 't, 'c) worker option" where
  "msg_handler env sid w e_ptr =
     (case e_ptr of
        None \<Rightarrow> Some w
      | Some e \<Rightarrow>
          if (ucast (ev_type e) :: u32) = EVT_CLS_GC_REQ then
            Some (w \<lparr>w_cls := (w_cls w) \<lparr>cl_pending_ver := ucast (ev_arg0 e), cl_flip_pending := True\<rparr>\<rparr>)
          else if (ucast (ev_type e) :: u32) = UPF_EVENT_SHAPER_SESSION_REMOVE then
            (let ip = ucast (ev_arg0 e);
                 idx = findIndexByUeIpAddress (tokens (w_shaper w)) ip;
                 s = (if idx \<ge> 0 then fst (shaper_flush_ue (w_shaper w) idx) else w_shaper w)
             in Some (w \<lparr>w_shaper := s \<lparr>tokens := fst (removeEntrybyUeIp (tokens s) ip)\<rparr>\<rparr>))
          else if (ucast (ev_type e) :: u32) = UPF_EVENT_CLEAR_AND_DRAIN then
            (case sid of
               None \<Rightarrow> None
             | Some _ \<Rightarrow>
                 (let idx = sint (ucast (ev_arg0 e) :: u32) in
                  if idx < 0 \<or> idx \<ge> int SESS_BUF_MAX_USERS then Some w
                  else case sess_bufs (w_store w) of
                    None \<Rightarrow> None
                  | Some bufs \<Rightarrow>
                      (case drain_session_batch (ring_lib (pe_store env))
                              ((bufs ! nat idx) \<lparr>sb_is_buffering := False\<rparr>) (pkt_meta (w_shaper w)) UINT32_MAX True of
                         (sb, metas, batches, _, _) \<Rightarrow>
                           Some (set_sess_buf (w \<lparr>w_shaper := (w_shaper w) \<lparr>pkt_meta := metas\<rparr>,
                                   w_tx := w_tx w @ concat batches\<rparr>) (nat idx) sb))))
          else Some w)"

text \<open>The periodic callback; its statistics are only logged.\<close>

definition callback_handler ::
  "('s, 'm, 'r, 'p, 't, 'c) worker_env \<Rightarrow> ('s, 'm, 'r, 'p, 't, 'c) worker \<Rightarrow> ('s, 'm, 'r, 'p, 't, 'c) worker" where
  "callback_handler env w =
     (case drain_shaper_queues (pe_hz env) (pe_clk env 0) True (w_shaper w) of
        (s, _, tx, _) \<Rightarrow> w \<lparr>w_shaper := s, w_tx := w_tx w @ tx\<rparr>)"

end
