(* ===== verification/Worker_Inv.thy ===== *)
theory Worker_Inv
  imports Packet_Handler
begin

text \<open>
  The worker as a whole: every handler returns and keeps the invariants of all components, and a packet
  leaves the worker only for a reason given by an installed rule or as an echo reply.
\<close>

subsection \<open>Token state under the shaper\<close>

text \<open>
  The shaper touches the token table through one operation only. Whatever that operation keeps,
  admission and every drain keep.
\<close>

locale token_invariant =
  fixes P :: "ue_state \<Rightarrow> bool"
  assumes consume: "P t \<Longrightarrow> P (fst (shaper_consume_service hz now t idx service qid len))"
begin

lemma consume_fast_path: "P t \<Longrightarrow> P (fst (shaper_consume_fast_path hz now now' t idx gbr qid len))"
proof -
  assume t: "P t"
  obtain t1 ok where t1: "consume_gbr_guaranteed hz now t idx qid len = (t1, ok)" by fastforce
  have "P t1" using consume [OF t, of hz now idx SHAPER_SERVICE_GBR_GUARANTEED qid len] t1 by simp
  then show ?thesis
    using t1 consume [OF t, of hz now idx SHAPER_SERVICE_SESSION_AMBR qid len]
      consume [of t1 hz now' idx SHAPER_SERVICE_GBR_EXCESS qid len]
    by (cases ok) (simp_all add: shaper_consume_fast_path_def)
qed

lemma enqueue_tokens: "tokens (fst (enqueue_on_flow clk get s n u i gbr qid color p len meta)) = tokens s"
  unfolding enqueue_on_flow_def drop_counted_def Let_def
  by (simp only: fst_conv set_ue_def shaper_state.simps split: if_split) simp

lemma shape_tokens:
  assumes "P (tokens s)"
  shows "P (tokens (fst (shape_or_enqueue_packet hz clk pool get s idx k gbr qid color pkt len meta)))"
proof (cases "\<exists>p ml k'. pkt = Some (p, ml) \<and> k = Some k'")
  case False
  then have "pkt = None \<or> k = None" by (cases pkt; cases k) auto
  then show ?thesis
    using assms unfolding shape_or_enqueue_packet_def drop_counted_def
    by (cases pkt) (auto simp only: prod.case option.case fst_conv split: option.split, simp_all)
next
  case True
  then obtain p ml k' where pk: "pkt = Some (p, ml)" "k = Some k'" by blast
  define l where "l = (if len = 0 then ml else len)"
  obtain u oi where u: "shaper_lookup_flow (g_ue_shaper s ! nat idx) k' False = (u, oi)" by fastforce
  obtain u2 oi2 where u2: "shaper_lookup_flow u k' True = (u2, oi2)" by fastforce
  obtain t ok where t: "shaper_consume_fast_path hz (clk 1) (clk 2) (tokens s) idx gbr qid l = (t, ok)"
    by fastforce
  have Pt: "P t" using consume_fast_path [OF assms] t by (metis fst_conv)
  have dc: "P (tokens (fst (drop_counted s meta f)))" "P (tokens (fst (drop_counted (s \<lparr>tokens := t\<rparr>) meta f)))"
    "P (tokens (fst (s \<lparr>tokens := t\<rparr>, meta, SHAPER_PASS)))" for f
    using assms Pt by (simp_all add: drop_counted_def)
  have en: "P (tokens (fst (enqueue_on_flow clk get s n u i gbr qid color p l meta)))"
    "P (tokens (fst (enqueue_on_flow clk get (s \<lparr>tokens := t\<rparr>) n u i gbr qid color p l meta)))" for n u i
    using assms Pt by (simp_all add: enqueue_tokens)
  show ?thesis
    unfolding shape_or_enqueue_packet_def pk option.case prod.case l_def [symmetric] Let_def u
    by (cases oi; cases ok; cases oi2)
      (simp_all only: prod.case option.case bool.case u2 t dc en simp_thms split: if_split)
qed

lemma resettle_tokens: "d_tokens (activate_d clk i d) = d_tokens d"
  by (simp add: activate_d_def)

lemma drain_one_tokens:
  "P (d_tokens d) \<Longrightarrow>
     P (d_tokens (fst (shaper_drain_one_from_list_locked hz clk idx l service alt n d)))"
proof (induction n arbitrary: d)
  case (Suc n)
  show ?case
  proof (cases "active (d_ue d) l")
    case (Cons i rest)
    let ?d = "d \<lparr>d_ue := shaper_deactivate_flow (d_ue d) i\<rparr>"
    show ?thesis
    proof (cases "entries (flows (d_ue ?d) ! i)")
      case Nil
      then show ?thesis using Suc Cons by (simp add: Let_def)
    next
      case e: (Cons e es)
      obtain t ok where t: "shaper_consume_service hz (clk (d_tick d)) (d_tokens d) idx service
          (qer_id (flows (d_ue ?d) ! i)) (e_pkt_len e) = (t, ok)" by fastforce
      have "P t" using consume [OF Suc.prems] t by (metis fst_conv)
      then show ?thesis
        using Suc Cons e t by (cases ok) (simp_all add: Let_def resettle_tokens)
    qed
  qed (simp add: Suc.prems)
qed simp

lemma drain_service_tokens:
  "P (d_tokens d) \<Longrightarrow> P (d_tokens (fst (shaper_drain_service_locked hz clk idx l service alt n d)))"
proof (induction n arbitrary: d)
  case (Suc n)
  obtain d1 ok where d1: "shaper_drain_one_from_list_locked hz clk idx l service alt
      (unat (active_count (d_ue d) l)) d = (d1, ok)" by fastforce
  have "P (d_tokens d1)" using drain_one_tokens [OF Suc.prems] d1 by (metis fst_conv)
  then show ?case using Suc d1 by (cases ok) (simp_all add: split_beta)
qed simp

lemma excess_tokens: "P (d_tokens d) \<Longrightarrow> P (d_tokens (fst (excess_attempts hz clk idx n d)))"
proof (induction n arbitrary: d)
  case (Suc n)
  let ?l = "next_excess_list (d_ue d)"
  let ?d = "d \<lparr>d_ue := (d_ue d) \<lparr>next_excess_list := shaper_next_excess_list ?l\<rparr>\<rparr>"
  have "P (d_tokens (fst (shaper_drain_service_locked hz clk idx l sv alt 1 ?d)))" for l sv alt
    by (rule drain_service_tokens) (simp add: Suc.prems)
  then show ?case using Suc by (simp add: Let_def split_beta del: shaper_drain_service_locked.simps)
qed simp

lemma drain_excess_tokens:
  "P (d_tokens d) \<Longrightarrow> P (d_tokens (fst (shaper_drain_excess_locked hz clk idx n d)))"
proof (induction hz clk idx n d rule: shaper_drain_excess_locked.induct)
  case (2 hz clk idx n d)
  have "P (d_tokens (fst (excess_attempts hz clk idx 3 d)))" using 2(2) by (rule excess_tokens)
  then show ?case using 2 by (auto simp: split_beta Let_def)
qed simp

lemma drain_round_tokens:
  assumes "P (d_tokens d)"
  shows "P (d_tokens (fst (drain_round hz clk idx n d)))"
proof -
  have g: "P (d_tokens (fst (shaper_drain_gbr_locked hz clk idx b d)))" for b
    unfolding shaper_drain_gbr_locked_def using assms by (rule drain_service_tokens)
  then have e: "P (d_tokens (fst (shaper_drain_excess_locked hz clk idx b'
      (fst (shaper_drain_gbr_locked hz clk idx b d)))))" for b b'
    by (rule drain_excess_tokens)
  show ?thesis
    unfolding drain_round_def Let_def split_beta
    by (simp only: fst_conv g e assms simp_thms split: if_split)
qed

lemma drain_loop_tokens: "P (d_tokens d) \<Longrightarrow> P (d_tokens (fst (drain_loop hz clk idx n tot d)))"
proof (induction hz clk idx n tot d rule: drain_loop.induct)
  case (1 hz clk idx n tot d)
  obtain d1 k again where r: "drain_round hz clk idx n d = (d1, k, again)" by (metis prod_cases3)
  have "P (d_tokens d1)" using drain_round_tokens [OF 1(2)] r by (metis fst_conv)
  then show ?case using 1(1) [OF r [symmetric] refl] r by (subst drain_loop.simps) auto
qed

lemma drain_ue_tokens: "P (tokens s) \<Longrightarrow> P (tokens (fst (drain_ue_shaper hz clk s tick idx nf n)))"
  using drain_loop_tokens [of "to_drain s (nat idx) tick"]
  by (simp add: drain_ue_shaper_def Let_def split_beta to_drain_def from_drain_def)

lemma drain_visits_tokens:
  "P (tokens s) \<Longrightarrow> P (tokens (fst (drain_visits hz clk nf v tried n s tick)))"
proof (induction v arbitrary: tried n s tick)
  case (Suc v)
  have "P (tokens (fst (drain_ue_shaper hz clk (s \<lparr>ue_cursor := c\<rparr>) tick idx nf n)))" for c idx
    by (rule drain_ue_tokens) (simp add: Suc.prems)
  then show ?case using Suc by (simp add: Let_def split_beta)
qed simp

lemma drain_tokens: "P (tokens s) \<Longrightarrow> P (tokens (fst (drain_shaper_queues_budget hz clk nf n s)))"
  unfolding drain_shaper_queues_budget_def by (rule drain_visits_tokens)

end

interpretation ue_tokens: token_invariant ue_inv
proof
  fix t hz now idx service qid len
  assume "ue_inv t"
  then show "ue_inv (fst (shaper_consume_service hz now t idx service qid len))"
    by (cases service) (simp_all add: consume_session_ambr_inv consume_gbr_inv)
qed

text \<open>The shaper never changes which UEs there are.\<close>

interpretation ue_rows: token_invariant "\<lambda>t. ue_hash t = H \<and> map ue_ip (ue_table t) = ips" for H ips
proof
  fix t :: ue_state and hz now idx service qid len
  assume t: "ue_hash t = H \<and> map ue_ip (ue_table t) = ips"
  have same: "ue_hash (upd_ue t idx f) = H \<and> map ue_ip (ue_table (upd_ue t idx f)) = ips"
    if "\<And>ue. ue_ip (f ue) = ue_ip ue" for f
    using t that by (simp add: upd_ue_def map_update) (metis list_update_id nth_map list_update_beyond not_le length_map)
  show "ue_hash (fst (shaper_consume_service hz now t idx service qid len)) = H \<and>
    map ue_ip (ue_table (fst (shaper_consume_service hz now t idx service qid len))) = ips"
    using t same
    by (cases service)
      (auto simp: consume_session_ambr_def consume_gbr_guaranteed_def consume_gbr_excess_def upd_qer_def
        Let_def split_beta split: option.splits)
qed

subsection \<open>Neighbours and meters\<close>

lemma neigh_mark_inv:
  assumes "neigh_inv tbl"
  shows "neigh_inv (neigh_mark_incomplete now tbl port ip (neigh_find tbl (port, ip)))"
proof (cases "\<exists>i. neigh_find tbl (port, ip) = Some i \<and>
    ne_state (tbl ! i) \<noteq> NEIGH_STALE \<and> ne_state (tbl ! i) \<noteq> NEIGH_INCOMPLETE")
  case True
  then show ?thesis using assms by (auto simp: neigh_mark_incomplete_def)
next
  case False
  then show ?thesis
    by (intro neigh_mark_map(1) [OF assms]) (auto simp: neigh_map_def split: option.splits)
qed

lemma send_arp_request_inv [upf_inv]:
  assumes "neigh_inv (neigh_tbl s)"
  shows "neigh_inv (neigh_tbl (fst (send_arp_request env now now' s port sip tip nf)))"
proof -
  obtain tbl e where l: "neigh_lookup (env_hz env) now' (neigh_tbl s) port tip = (tbl, e)" by fastforce
  note t = neigh_lookup_spec [OF assms l]
  have "neigh_inv (neigh_mark_incomplete now tbl port tip e)"
    using neigh_mark_inv [OF t(2)] t(1,3) by simp
  then show ?thesis
    unfolding send_arp_request_def l Let_def prod.case
    using assms t(2) by (auto split: option.split)
qed

lemma attach_l2_inv [upf_inv]:
  assumes "neigh_inv (neigh_tbl s)"
  shows "neigh_inv (neigh_tbl (fst (attach_l2_or_arp env now now1 now2 s pkt port sip tip nf)))"
proof -
  obtain tbl e where l: "neigh_lookup (env_hz env) now (neigh_tbl s) port tip = (tbl, e)" by fastforce
  have t: "neigh_inv tbl" using neigh_lookup_spec [OF assms l] by simp
  have "neigh_inv (neigh_tbl (fst (send_arp_request env now1 now2 (s \<lparr>neigh_tbl := tbl\<rparr>) port sip tip nf)))"
    by (rule send_arp_request_inv) (simp add: t)
  then show ?thesis
    unfolding attach_l2_or_arp_def l Let_def prod.case using t by (auto split: option.split)
qed

lemma handle_arp_inv [upf_inv]:
  assumes "neigh_inv (neigh_tbl s)"
  shows "neigh_inv (neigh_tbl (fst (handle_arp_packet cfg env now s pkt meta nf)))"
  using assms neigh_update_inv [OF assms]
  by (auto simp: handle_arp_packet_def send_arp_reply_def Let_def split: option.split)

lemma color_inv [upf_inv]: "fm_inv fm \<Longrightarrow> fm_inv (fst (trtcmColorHandle lib fm len now i profile))"
  using fm_step_inv [OF fm_step.color, of lib fm len now i profile] by (metis prod.collapse)

lemma police_inv [upf_inv]: "fm_inv fm \<Longrightarrow> fm_inv (fst (police_packet lib fm key now len meta))"
  using color_inv [of fm lib len now] by (auto simp: police_packet_def Let_def split_beta split: option.split)

lemma configure_flows_inv:
  assumes "fm_inv fm"
  obtains fm' where "ConfigureQerFlows lib ports fm pdr up = Some fm'" "fm_inv fm'"
  using ConfigureQerFlows_total [OF assms] by metis

subsection \<open>The invariant of the worker\<close>

definition wk_inv :: "('s, 'm, 'r, 'p, 't, 'c) worker \<Rightarrow> bool" where
  "wk_inv w \<longleftrightarrow> shaper_state_inv (w_shaper w) \<and> ue_inv (tokens (w_shaper w)) \<and> fm_inv (w_meter w) \<and>
     neigh_inv (neigh_tbl (w_arp w)) \<and>
     (\<exists>bufs. sess_bufs (w_store w) = Some bufs \<and> length bufs = SESS_BUF_MAX_USERS)"

text \<open>
  What a call needs of its surroundings to return: memory for messages, and a control plane that does
  not keep the classifier slot locked.
\<close>

definition env_ready :: "('s, 'm, 'r, 'p, 't, 'c) worker_env \<Rightarrow> bool" where
  "env_ready env \<longleftrightarrow> (\<forall>i. se_calloc (pe_send env i)) \<and>
     (\<exists>i v ptr. pe_loads env i = (v, ptr, v) \<and> v AND 1 = 0)"

lemma seqlock_read_returns:
  assumes "loads (i + k) = (v, ptr, v)" "v AND 1 = 0"
  shows "\<exists>r. seqlock_read loads i = Some r"
  using assms
proof (induction k arbitrary: i)
  case (Suc k)
  then have "\<exists>r. seqlock_read loads (i + 1) = Some r" by simp
  then show ?case
    by (subst seqlock_read.simps) (auto split: prod.split)
qed (subst seqlock_read.simps, simp)

lemma flip_returns:
  assumes "env_ready env"
  shows "\<exists>r. UpfClsMaybeFlipAndAck (pe_send env 0) sid (pe_loads env) cls = Some r"
proof -
  obtain i v ptr where "pe_loads env (0 + i) = (v, ptr, v)" "v AND 1 = 0"
    using assms by (auto simp: env_ready_def)
  from seqlock_read_returns [of "pe_loads env" 0 i, OF this] obtain r where "seqlock_read (pe_loads env) 0 = Some r" by blast
  then show ?thesis by (auto simp: UpfClsMaybeFlipAndAck_def split: prod.split option.split)
qed

lemma report_returns: "env_ready env \<Longrightarrow> \<exists>msgs. send_report (pe_send env i) = Some msgs"
  by (simp add: env_ready_def send_report_def)

lemma meta_inv [simp]: "shaper_state_inv (s \<lparr>pkt_meta := m\<rparr>) = shaper_state_inv s"
  "shaper_state_inv (s \<lparr>refcnt := r\<rparr>) = shaper_state_inv s"
  "shaper_state_inv (s \<lparr>counters := c\<rparr>) = shaper_state_inv s"
  by (simp_all add: shaper_state_inv_def)

lemma wk_inv_frame [simp]:
  "wk_inv (w \<lparr>w_msgs := ms\<rparr>) = wk_inv w" "wk_inv (w \<lparr>w_tx := tx\<rparr>) = wk_inv w"
  "wk_inv (w \<lparr>w_cls := c\<rparr>) = wk_inv w" "wk_inv (w \<lparr>w_data := d\<rparr>) = wk_inv w"
  by (simp_all add: wk_inv_def)

lemma set_sess_buf_inv [simp]: "wk_inv (set_sess_buf w i sb) = wk_inv w"
  by (cases "sess_bufs (w_store w)") (simp_all add: wk_inv_def set_sess_buf_def)

lemma shape_inv:
  assumes "shaper_state_inv s"
  shows "shaper_state_inv (fst (shape_or_enqueue_packet hz clk pool get s idx (Some k) gbr qid color
    (Some (p, ml)) len meta))"
proof -
  let ?l = "if len = 0 then ml else len"
  obtain s' meta' d where res: "shape_or_enqueue_packet hz clk pool get s idx (Some k) gbr qid color
      (Some (p, ml)) len meta = (s', meta', d)" by (metis prod_cases3)
  show ?thesis
  proof (cases "pool \<and> ?l \<noteq> 0 \<and> shaper_packet_can_fit (tokens s) idx gbr qid ?l")
    case True
    then have "pool" "?l \<noteq> 0" "shaper_packet_can_fit (tokens s) idx gbr qid ?l" by auto
    from shape_or_enqueue_effect [OF assms this(3,2) refl res [unfolded eqTrueI [OF this(1)]]] res
    show ?thesis by (auto simp: enqueue_effect_def)
  next
    case False
    then obtain f where "drop_counted s meta f = (s', meta', d)"
      using res by (auto simp: shape_or_enqueue_packet_def Let_def split: if_splits)
    from drop_counted_inv [OF this] assms res show ?thesis by simp
  qed
qed


lemma wk_inv_meter: "wk_inv w \<Longrightarrow> fm_inv fm \<Longrightarrow> wk_inv (w \<lparr>w_meter := fm\<rparr>)"
  and wk_inv_arp: "wk_inv w \<Longrightarrow> neigh_inv (neigh_tbl arp) \<Longrightarrow> wk_inv (w \<lparr>w_arp := arp\<rparr>)"
  and wk_inv_shaper: "wk_inv w \<Longrightarrow> shaper_state_inv s \<Longrightarrow> ue_inv (tokens s) \<Longrightarrow>
    wk_inv (w \<lparr>w_shaper := s\<rparr>)"
  and wk_inv_store: "wk_inv w \<Longrightarrow> sess_bufs st = sess_bufs (w_store w) \<Longrightarrow>
    wk_inv (w \<lparr>w_store := st\<rparr>)"
  by (simp_all add: wk_inv_def)

lemma wk_invD:
  assumes "wk_inv w"
  shows "shaper_state_inv (w_shaper w)" "ue_inv (tokens (w_shaper w))" "fm_inv (w_meter w)"
    "neigh_inv (neigh_tbl (w_arp w))"
  using assms by (simp_all add: wk_inv_def)

lemma wk_inv_soft [simp]:
  "wk_inv (w \<lparr>w_shaper := (w_shaper w) \<lparr>pkt_meta := m\<rparr>\<rparr>) = wk_inv w"
  "wk_inv (w \<lparr>w_shaper := (w_shaper w) \<lparr>refcnt := r\<rparr>\<rparr>) = wk_inv w"
  "wk_inv (w \<lparr>w_shaper := (w_shaper w) \<lparr>counters := c\<rparr>\<rparr>) = wk_inv w"
  by (simp_all add: wk_inv_def)

subsection \<open>Every handler returns and keeps the invariant\<close>

text \<open>A call that returns a worker in a good state.\<close>

definition returns_ok :: "(('s, 'm, 'r, 'p, 't, 'c) worker \<times> 'x) option \<Rightarrow> bool" where
  "returns_ok r \<longleftrightarrow> (\<exists>w x. r = Some (w, x) \<and> wk_inv w)"

lemma returns_ok_Some [simp]: "returns_ok (Some (w, x)) = wk_inv w"
  by (auto simp: returns_ok_def)

lemma done_ok: "env_ready env \<Longrightarrow> wk_inv w \<Longrightarrow> returns_ok (downlink_done env far w pkt meta)"
  using report_returns [of env 2] by (auto simp: downlink_done_def)

lemma redirect_bufs:
  "redirect_to_owner_if_needed sid st session teid meta = (st', meta', moved) \<Longrightarrow>
     sess_bufs st' = sess_bufs st \<and> (\<not> moved \<longrightarrow> meta' = meta) \<and>
     (moved \<longrightarrow> m_action meta' = ONVM_NF_ACTION_TONF)"
  by (auto simp: redirect_to_owner_if_needed_def UpfSessionEnsureWorkerServiceId_def upd_session_def Let_def
      split: option.splits if_splits)

lemma far_returns:
  "env_ready env \<Longrightarrow> \<exists>pkt' meta' msgs. HandlePacketWithFar env pkt far qer port meta = Some (pkt', meta', msgs)"
  using report_returns [of env 1] by (auto simp: HandlePacketWithFar_def Let_def split_beta)

lemma uplink_police_inv:
  "fm_inv fm \<Longrightarrow> fm_inv (fst (uplink_police env fm pdr pkt dn meta))"
  using police_inv [of fm "pe_meter env" "pdr_meter_key pdr" "pe_clk env 5 0" "mb_pkt_len pkt" meta]
  by (auto simp: uplink_police_def split_beta)

lemma uplink_ok:
  assumes "env_ready env" "wk_inv w"
  shows "returns_ok (handle_uplink env (Some self) w pdr far pkt meta)"
proof -
  obtain pkt' meta' msgs where far: "HandlePacketWithFar env pkt far (pdr_qer pdr) (g_n6_port (pe_ports env)) meta
      = Some (pkt', meta', msgs)" using far_returns [OF assms(1)] by blast
  let ?w = "w \<lparr>w_msgs := w_msgs w @ msgs\<rparr>"
  let ?dn = "ip_dst_addr pkt' 0"
  obtain fm meta2 go where pol: "uplink_police env (w_meter w) pdr pkt' ?dn meta' = (fm, meta2, go)"
    by (metis prod_cases3)
  have "fm_inv fm" using uplink_police_inv [OF wk_invD(3) [OF assms(2)]] pol by (metis fst_conv)
  then have fm: "wk_inv (?w \<lparr>w_meter := fm\<rparr>)" using assms(2) by (simp add: wk_inv_meter)
  obtain arp pkt2 rc where l2: "attach_l2_or_arp (pe_arp env) (pe_clk env 6 0) (pe_clk env 6 1) (pe_clk env 6 2)
      (w_arp w) pkt' (g_n6_port (pe_ports env)) (g_n6_ip_be (pe_ports env)) ?dn True = (arp, pkt2, rc)"
    by (metis prod_cases3)
  have "wk_inv (?w \<lparr>w_meter := fm, w_arp := arp\<rparr>)"
    using attach_l2_inv [OF wk_invD(4) [OF assms(2)]] l2 by (intro wk_inv_arp fm) (metis fst_conv)
  then show ?thesis
    using fm assms(2) by (simp add: handle_uplink_def far pol [simplified] l2 [simplified] Let_def)
qed

lemma downlink_shape_inv:
  assumes "wk_inv w"
  shows "wk_inv (fst (downlink_shape env w pdr p pkt idx key gbr qid len meta))"
proof -
  define pol where "pol = (if pdr_has_fd pdr \<noteq> 0
    then police_packet (pe_meter env) (w_meter w) (pdr_meter_key pdr) (pe_clk env 7 0) len meta
    else (w_meter w, meta, True))"
  obtain fm meta' go where p: "pol = (fm, meta', go)" by (metis prod_cases3)
  have "fm_inv (fst pol)"
    using police_inv [OF wk_invD(3) [OF assms]] wk_invD(3) [OF assms] by (simp add: pol_def)
  then have w: "wk_inv (w \<lparr>w_meter := fm\<rparr>)" using assms by (simp add: p wk_inv_meter)
  let ?s = "\<lambda>color. fst (shape_or_enqueue_packet (pe_hz env) (pe_clk env 8) (pe_pool env) (pe_entry env)
    (w_shaper w) idx (Some key) gbr qid color (Some (p, mb_pkt_len pkt)) len meta')"
  have s: "wk_inv (w \<lparr>w_meter := fm, w_shaper := ?s color\<rparr>)" for color
    using shape_inv [OF wk_invD(1) [OF assms]] ue_tokens.shape_tokens [OF wk_invD(2) [OF assms]]
    by (intro wk_inv_shaper w) simp_all
  have c: "wk_inv (w \<lparr>w_meter := fm, w_shaper := (w_shaper w) \<lparr>counters := c\<rparr>\<rparr>)" for c
    using wk_inv_soft(3) [where w = "w \<lparr>w_meter := fm\<rparr>" and c = c] w by simp
  show ?thesis
    unfolding downlink_shape_def pol_def [symmetric] p Let_def prod.case split_beta
    by (simp add: w s c assms)
qed


lemma downlink_send_ok:
  assumes "env_ready env" "wk_inv w"
  shows "returns_ok (downlink_send env w pdr far i sb p pkt idx key gbr qid len meta)"
proof -
  define sh where "sh = (if far_applyAction far AND FAR_ACTION_MASK = UPDK_FAR_APPLY_ACTION_FORW
    then downlink_shape env w pdr p pkt idx key gbr qid len meta else (w, meta, True))"
  obtain w1 meta1 go where s: "sh = (w1, meta1, go)" by (metis prod_cases3)
  have "wk_inv (fst sh)" using downlink_shape_inv [OF assms(2)] assms(2) by (simp add: sh_def)
  then have w1: "wk_inv w1" by (simp add: s)
  have soft: "wk_inv (w1 \<lparr>w_shaper := (w_shaper w1) \<lparr>pkt_meta := m\<rparr>, w_tx := tx\<rparr>)" for m tx
    using w1 wk_inv_frame(2) [where w = "w1 \<lparr>w_shaper := (w_shaper w1) \<lparr>pkt_meta := m\<rparr>\<rparr>" and tx = tx] by simp
  show ?thesis
    unfolding downlink_send_def sh_def [symmetric] s Let_def prod.case split_beta
    using assms w1 soft by (simp add: done_ok)
qed

lemma downlink_ok:
  assumes "env_ready env" "wk_inv w"
  shows "returns_ok (handle_downlink env (Some self) w pdr far p pkt idx key gbr qid len meta)"
proof -
  obtain bufs where bufs: "sess_bufs (w_store w) = Some bufs" using assms(2) by (auto simp: wk_inv_def)
  have arp: "wk_inv (w \<lparr>w_arp := fst (attach_l2_or_arp e n n1 n2 (w_arp w) q port sip tip True)\<rparr>)"
    for e n n1 n2 q port sip tip
    by (intro wk_inv_arp attach_l2_inv assms(2) wk_invD)
  show ?thesis
    unfolding handle_downlink_def bufs Let_def option.case split_beta
    using assms arp done_ok [OF assms] downlink_send_ok [OF assms(1) arp] by simp
qed

subsubsection \<open>Finding the rule\<close>

lemma configure_returns:
  "fm_inv fm \<Longrightarrow> \<exists>fm'. ConfigureQerFlows lib ports fm pdr up = Some fm' \<and> fm_inv fm'"
  using configure_flows_inv by metis

lemma teid_returns:
  assumes "fm_inv fm"
  shows "\<exists>fm' pdr. GetPdrByTeid classify lib ports mem l fm pkt info = Some (fm', pdr) \<and> fm_inv fm' \<and>
    (\<forall>a. pdr = Some a \<longrightarrow> UpfClassifyGetPdrPtr classify l
       (ul_packet_key pkt info (ETHER_HDR + unat (gtp_outer_hdr_len info))) = Some a)"
proof (cases "UpfClassifyGetPdrPtr classify l (ul_packet_key pkt info (ETHER_HDR + unat (gtp_outer_hdr_len info)))")
  case (Some a)
  obtain fm2 where "ConfigureQerFlows lib ports fm (Some (mem_pdr mem a)) True = Some fm2" "fm_inv fm2"
    using configure_returns [OF assms] by blast
  then show ?thesis using assms Some by (simp add: GetPdrByTeid_def Let_def)
qed (simp add: GetPdrByTeid_def Let_def assms)

lemma ueip_returns:
  assumes "fm_inv fm"
  shows "\<exists>fm' pdr. GetPdrByUeIpAddress classify lib ports mem l fm pkt ip = Some (fm', pdr) \<and> fm_inv fm' \<and>
    (\<forall>a. pdr = Some a \<longrightarrow> (\<exists>iph. onvm_pkt_ipv4_hdr pkt = Some iph \<and>
       UpfClassifyGetPdrPtr classify l (dl_packet_key pkt iph ip) = Some a))"
proof (cases "onvm_pkt_ipv4_hdr pkt")
  case (Some iph)
  show ?thesis
  proof (cases "UpfClassifyGetPdrPtr classify l (dl_packet_key pkt iph ip)")
    case a: (Some a)
    obtain fm2 where "ConfigureQerFlows lib ports fm (Some (mem_pdr mem a)) False = Some fm2" "fm_inv fm2"
      using configure_returns [OF assms] by blast
    then show ?thesis using assms Some a by (simp add: GetPdrByUeIpAddress_def)
  qed (simp add: GetPdrByUeIpAddress_def Some assms)
qed (simp add: GetPdrByUeIpAddress_def assms)

lemma uplink_rule_ok:
  assumes "wk_inv w"
  shows "returns_ok (uplink_rule env sid w pkt meta)"
proof -
  have "returns_ok (uplink_rule env sid w pkt meta)"
    if info: "onvm_pkt_udp_hdr pkt = Some u" "parse_gtpu_once pkt = Some info" "gtp_valid info" for u info
  proof -
    obtain st meta' moved where red: "redirect_to_owner_if_needed sid (w_store w)
        (UpfSessionFindByTeidHost (pe_store env) (w_store w) (gtp_teid info)) (gtp_teid info) meta = (st, meta', moved)"
      by (metis prod_cases3)
    have w: "wk_inv (w \<lparr>w_store := st\<rparr>)"
      using redirect_bufs [OF red] by (intro wk_inv_store assms) simp
    obtain fm pdr where get: "GetPdrByTeid (pe_classify env) (pe_meter env) (pe_ports env) (pe_rules env) (w_cls w)
        (w_meter w) pkt info = Some (fm, pdr)" "fm_inv fm"
      using teid_returns [OF wk_invD(3) [OF assms]] by blast
    from wk_inv_meter [OF w get(2)] show ?thesis
      using w by (simp add: uplink_rule_def info red get Let_def)
  qed
  moreover have "returns_ok (uplink_rule env sid w pkt meta)"
    if "\<not> (\<exists>u info. onvm_pkt_udp_hdr pkt = Some u \<and> parse_gtpu_once pkt = Some info \<and> gtp_valid info)"
    using that assms by (auto simp: uplink_rule_def split: option.split)
  ultimately show ?thesis by blast
qed

lemma downlink_rule_ok:
  assumes "wk_inv w"
  shows "returns_ok (downlink_rule env sid w pkt dst meta)"
proof -
  define session where "session = UpfSessionFindByUeIP (pe_store env) (w_store w) dst"
  define teid where "teid = (case session of None \<Rightarrow> 0
    | Some i \<Rightarrow> rte_be_to_cpu_32 (s_teid (session_data (w_store w) ! i)))"
  obtain st meta' moved where red: "redirect_to_owner_if_needed sid (w_store w) session teid meta
      = (st, meta', moved)" by (metis prod_cases3)
  have w: "wk_inv (w \<lparr>w_store := st\<rparr>)"
    using redirect_bufs [OF red] by (intro wk_inv_store assms) simp
  obtain fm pdr where get: "GetPdrByUeIpAddress (pe_classify env) (pe_meter env) (pe_ports env) (pe_rules env)
      (w_cls w) (w_meter w) pkt (rte_cpu_to_be_32 dst) = Some (fm, pdr)" "fm_inv fm"
    using ueip_returns [OF wk_invD(3) [OF assms]] by blast
  from wk_inv_meter [OF w get(2)] show ?thesis
    using w by (simp add: downlink_rule_def session_def [symmetric] teid_def [symmetric] red get Let_def)
qed


subsubsection \<open>The handlers\<close>

lemma bswap_zero [simp]: "rte_bswap32 x = 0 \<longleftrightarrow> x = 0"
proof -
  have "rte_bswap32 0 = 0" by (simp add: rte_bswap32_def)
  then show ?thesis using rte_bswap32_invol [of x] by metis
qed

lemma configure_shaper_inv:
  assumes inv: "ue_inv s" and ip: "ip \<noteq> 0"
  shows "ue_inv (fst (ConfigureDlShaperForPdr clk mem s ip session pdr))"
proof (cases "Option.bind pdr pdr_qer")
  case (Some qer)
  define d where "d = (case DiscoverSessionAmbrFromSession mem session zero_discovery of
    (d, found) \<Rightarrow> if found then d else DiscoverSessionAmbrFromPdr pdr d)"
  define r where "r = (if findIndexByUeIpAddress s ip < 0
    then addEntrybyUeIp (clk 0) s ip (disc_rate d) (disc_conflicting_rates d)
    else case refreshUeSessionAmbr (clk 0) s (findIndexByUeIpAddress s ip) (disc_rate d) (disc_conflicting_rates d) of
      (t, ok) \<Rightarrow> (t, if ok then findIndexByUeIpAddress s ip else -1))"
  have r1: "ue_inv (fst r)"
    using addEntrybyUeIp_inv [OF inv ip] refreshUeSessionAmbr_inv [OF inv] by (simp add: r_def split_beta)
  have "ConfigureDlShaperForPdr clk mem s ip session pdr = (if snd r < 0 then (fst r, -1)
      else if \<not> DlQerHasGbr (Some qer) then r
      else if \<not> qerf_maximumBitrate (qer_flags qer) \<or> rate_dl (qer_maximumBitrate qer) = 0 then (fst r, -1)
      else case refreshUeGbrQer (clk 1) (fst r) (snd r) (qer_qerId qer) (QERGetQFI qer)
             (rate_dl (qer_guaranteedBitrate qer)) (rate_dl (qer_maximumBitrate qer)) of
             (s, ok) \<Rightarrow> (s, if ok then snd r else -1))"
    unfolding ConfigureDlShaperForPdr_def Some option.case Let_def r_def d_def split_beta by simp
  then show ?thesis using r1 refreshUeGbrQer_inv [OF r1] by (simp add: split_beta)
qed (simp add: ConfigureDlShaperForPdr_def inv)

lemma wk_inv_tokens: "wk_inv w \<Longrightarrow> ue_inv t \<Longrightarrow> wk_inv (w \<lparr>w_shaper := (w_shaper w) \<lparr>tokens := t\<rparr>\<rparr>)"
  by (simp add: wk_inv_def shaper_state_inv_def)

lemma uplink_packet_ok:
  assumes "env_ready env" "wk_inv w"
  shows "returns_ok (uplink_packet env (Some self) w pkt meta)"
proof -
  obtain w1 found where r: "uplink_rule env (Some self) w pkt meta = Some (w1, found)" "wk_inv w1"
    using uplink_rule_ok [OF assms(2)] unfolding returns_ok_def by blast
  then show ?thesis
    using uplink_ok [OF assms(1) r(2)]
    by (auto simp: uplink_packet_def Let_def split: sum.split option.split prod.split)
qed

lemma downlink_packet_ok:
  assumes "env_ready env" "wk_inv w" "dst \<noteq> 0"
  shows "returns_ok (downlink_packet env (Some self) w p pkt dst len meta)"
proof -
  obtain w1 found where r: "downlink_rule env (Some self) w pkt dst meta = Some (w1, found)" "wk_inv w1"
    using downlink_rule_ok [OF assms(2)] unfolding returns_ok_def by blast
  have "rte_cpu_to_be_32 dst \<noteq> 0" using assms(3) by simp
  from configure_shaper_inv [OF wk_invD(2) [OF r(2)] this]
  have t: "wk_inv (w1 \<lparr>w_shaper := (w_shaper w1) \<lparr>tokens := fst (ConfigureDlShaperForPdr clk mem (tokens (w_shaper w1))
      (rte_cpu_to_be_32 dst) session pdr)\<rparr>\<rparr>)" for clk mem session pdr
    by (rule wk_inv_tokens [OF r(2)])
  show ?thesis
    unfolding downlink_packet_def r(1) Let_def split_beta
    using downlink_ok [OF assms(1) t] t r(2)
    by (simp split: sum.split option.split)
qed

lemma route_ok:
  assumes "env_ready env" "wk_inv w" "\<And>iph. onvm_pkt_ipv4_hdr pkt = Some iph \<Longrightarrow> ip_dst_addr pkt iph \<noteq> 0"
  shows "returns_ok (route_packet env (Some self) w p pkt meta)"
proof (cases "onvm_pkt_ipv4_hdr pkt")
  case (Some iph)
  obtain cls msgs where f: "UpfClsMaybeFlipAndAck (pe_send env 0) (Some self) (pe_loads env) (w_cls w) = Some (cls, msgs)"
    using flip_returns [OF assms(1)] by fastforce
  have w: "wk_inv (w \<lparr>w_cls := cls, w_msgs := w_msgs w @ msgs\<rparr>)" using assms(2) by simp
  show ?thesis
    unfolding route_packet_def Some Let_def f option.case
    using uplink_packet_ok [OF assms(1) w] downlink_packet_ok [OF assms(1) w assms(3) [OF Some]] by simp
qed (simp add: route_packet_def assms(2))

lemma drain_wk_inv:
  assumes "wk_inv w" "drain_shaper_queues_budget hz clk True n (w_shaper w) = (s, tick, tx, k)"
  shows "wk_inv (w \<lparr>w_shaper := s, w_tx := tx'\<rparr>)"
proof -
  have "shaper_state_inv s"
    using drain_visits_effect [OF wk_invD(1) [OF assms(1)]] assms(2) by (simp add: drain_shaper_queues_budget_def)
  moreover have "ue_inv (tokens s)"
    using ue_tokens.drain_tokens [OF wk_invD(2) [OF assms(1)]] assms(2) by (metis fst_conv)
  ultimately have "wk_inv (w \<lparr>w_shaper := s\<rparr>)" using assms(1) by (intro wk_inv_shaper)
  then show ?thesis using wk_inv_frame(2) [where w = "w \<lparr>w_shaper := s\<rparr>" and tx = tx'] by simp
qed


text \<open>A packet that can be handed to a worker: not an IPv4 packet for the address 0.0.0.0.\<close>

definition deliverable :: "('s, 'm, 'r, 'p, 't, 'c) worker \<Rightarrow> mbuf option \<Rightarrow> bool" where
  "deliverable w pkt = (case pkt of None \<Rightarrow> True
     | Some p \<Rightarrow> (case onvm_pkt_ipv4_hdr (w_data w p) of None \<Rightarrow> True
                  | Some iph \<Rightarrow> ip_dst_addr (w_data w p) iph \<noteq> 0))"

lemma icmp_not_handled:
  "handle_local_icmp_echo c c' ports pkt meta nf = (pkt', meta', False) \<Longrightarrow> pkt' = pkt \<and> meta' = meta"
  by (auto simp: handle_local_icmp_echo_def Let_def split: if_splits option.splits)

lemma inline_drain_inv: "wk_inv w \<Longrightarrow> wk_inv (inline_drain env sid w)"
  using drain_wk_inv [of w "pe_hz env" "pe_clk env 0" SHAPER_INLINE_DRAIN_BUDGET]
  by (auto simp: inline_drain_def split: option.split prod.split)

lemma inline_drain_data [simp]: "w_data (inline_drain env sid w) = w_data w"
  "w_cls (inline_drain env sid w) = w_cls w" "w_store (inline_drain env sid w) = w_store w"
  by (simp_all add: inline_drain_def split: option.split prod.split)

lemma dispatch_ok:
  assumes "env_ready env" "wk_inv w" "\<And>iph. onvm_pkt_ipv4_hdr pkt = Some iph \<Longrightarrow> ip_dst_addr pkt iph \<noteq> 0"
  shows "returns_ok (dispatch_packet env (Some self) w p pkt meta)"
proof (cases "rte_be_to_cpu_16 (ether_type pkt) = RTE_ETHER_TYPE_ARP")
  case True
  then show ?thesis
    using wk_inv_arp [OF assms(2) handle_arp_inv [OF wk_invD(4) [OF assms(2)]]]
    by (simp add: dispatch_packet_def split_beta)
next
  case False
  obtain pkt' meta' handled where i: "handle_local_icmp_echo (pe_ipv4_cksum env) (pe_raw_cksum env) (pe_ports env)
      pkt meta True = (pkt', meta', handled)" by (metis prod_cases3)
  show ?thesis
  proof (cases handled)
    case h: False
    have "pkt' = pkt" using icmp_not_handled i h by metis
    with route_ok [OF assms] show ?thesis using False h by (simp add: dispatch_packet_def i)
  qed (use False i assms in \<open>simp add: dispatch_packet_def\<close>)
qed

lemma packet_handler_ok:
  assumes "env_ready env" "wk_inv w" "deliverable w pkt_ptr"
  shows "\<exists>w'. packet_handler env (Some self) w pkt_ptr = Some w' \<and> wk_inv w'"
proof (cases pkt_ptr)
  case None
  then show ?thesis using inline_drain_inv [OF assms(2)] by (simp add: packet_handler_def)
next
  case (Some p)
  let ?w = "inline_drain env (Some self) w"
  have "returns_ok (dispatch_packet env (Some self) ?w p (w_data ?w p) (pkt_meta (w_shaper ?w) p))"
    using assms(3) Some by (intro dispatch_ok assms(1) inline_drain_inv assms(2)) (auto simp: deliverable_def)
  then obtain w2 pkt meta where b: "dispatch_packet env (Some self) ?w p (w_data w p) (pkt_meta (w_shaper ?w) p)
      = Some (w2, pkt, meta)" "wk_inv w2"
    unfolding returns_ok_def by (metis inline_drain_data(1) prod.collapse)
  have "wk_inv (w2 \<lparr>w_data := dat, w_shaper := (w_shaper w2) \<lparr>pkt_meta := ms\<rparr>\<rparr>)" for dat ms
    using b(2) by (simp add: wk_inv_def)
  then show ?thesis by (simp add: packet_handler_def Some Let_def b(1))
qed

lemma msg_handler_ok:
  assumes "wk_inv w"
  shows "\<exists>w'. msg_handler env (Some self) w e = Some w' \<and> wk_inv w'"
proof (cases e)
  case (Some ev)
  obtain bufs where bufs: "sess_bufs (w_store w) = Some bufs" using assms by (auto simp: wk_inv_def)
  have flush: "wk_inv (w \<lparr>w_shaper := s \<lparr>tokens := fst (removeEntrybyUeIp (tokens s) ip)\<rparr>\<rparr>)"
    if s: "s = (if idx \<ge> 0 then fst (shaper_flush_ue (w_shaper w) idx) else w_shaper w)" for s idx ip
  proof -
    have t: "tokens s = tokens (w_shaper w)" by (simp add: s shaper_flush_ue_def Let_def)
    have "shaper_state_inv s" using flush_inv [OF wk_invD(1) [OF assms]] wk_invD(1) [OF assms] by (simp add: s)
    then show ?thesis
      using assms removeEntrybyUeIp_inv [OF wk_invD(2) [OF assms]]
      by (intro wk_inv_shaper) (simp_all add: t shaper_state_inv_def)
  qed
  have soft: "wk_inv (w \<lparr>w_shaper := (w_shaper w) \<lparr>pkt_meta := m\<rparr>, w_tx := tx\<rparr>)" for m tx
    using assms by (simp add: wk_inv_def)
  show ?thesis
    unfolding msg_handler_def Some option.case bufs Let_def split_beta
    using assms flush [OF refl] soft by simp
qed (simp add: msg_handler_def assms)

lemma callback_ok: "wk_inv w \<Longrightarrow> wk_inv (callback_handler env w)"
  using drain_wk_inv [of w "pe_hz env" "pe_clk env 0"]
  by (auto simp: callback_handler_def drain_shaper_queues_def split: prod.split)

subsection \<open>Runs of a worker\<close>

text \<open>What the framework does with a worker: it hands it packets, messages and periodic callbacks, in any order.\<close>

inductive worker_runs ::
  "u16 \<Rightarrow> ('s, 'm, 'r, 'p, 't, 'c) worker \<Rightarrow> ('s, 'm, 'r, 'p, 't, 'c) worker \<Rightarrow> bool" for self w0 where
  start: "worker_runs self w0 w0"
| packet: "worker_runs self w0 w \<Longrightarrow> env_ready env \<Longrightarrow> deliverable w pkt \<Longrightarrow>
    packet_handler env (Some self) w pkt = Some w' \<Longrightarrow> worker_runs self w0 w'"
| message: "worker_runs self w0 w \<Longrightarrow> msg_handler env (Some self) w e = Some w' \<Longrightarrow> worker_runs self w0 w'"
| callback: "worker_runs self w0 w \<Longrightarrow> worker_runs self w0 (callback_handler env w)"

lemma runs_inv: "worker_runs self w0 w \<Longrightarrow> wk_inv w0 \<Longrightarrow> wk_inv w"
proof (induction rule: worker_runs.induct)
  case (packet w env pkt w')
  then show ?case using packet_handler_ok [of env w pkt self] by auto
next
  case (message w env e w')
  then show ?case using msg_handler_ok [of w env self e] by auto
qed (auto intro: callback_ok)


subsection \<open>Why a packet leaves the worker\<close>

lemma far_out:
  assumes "HandlePacketWithFar env pkt far qer port meta = Some (pkt', meta', msgs)"
    "m_action meta = ONVM_NF_ACTION_DROP" "m_action meta' = ONVM_NF_ACTION_OUT"
  shows "farf_applyAction (far_flags far) \<and> far_applyAction far AND FAR_ACTION_MASK = UPDK_FAR_APPLY_ACTION_FORW \<and>
    m_destination meta' = port"
proof -
  have "farf_applyAction (far_flags far)" using assms by (auto simp: HandlePacketWithFar_def split: if_splits)
  then show ?thesis
    using assms by (auto simp: HandlePacketWithFar_def Let_def split: if_splits bind_splits)
qed

lemma policer_destination [simp]: "m_destination (fst (trtcmPolicer meta c)) = m_destination meta"
  by (simp add: trtcmPolicer_def)

lemma police_destination:
  "police_packet lib fm key now len meta = (fm', meta', go) \<Longrightarrow> m_destination meta' = m_destination meta"
  by (auto simp: police_packet_def Let_def split: if_splits option.splits prod.splits)

lemma uplink_police_destination:
  "uplink_police env fm pdr pkt dn meta = (fm', meta', go) \<Longrightarrow> m_destination meta' = m_destination meta"
  by (auto simp: uplink_police_def dest!: police_destination split: if_splits prod.splits)

lemma uplink_out:
  assumes "handle_uplink env sid w pdr far pkt meta = Some (w', pkt', meta')"
    "m_action meta = ONVM_NF_ACTION_DROP"
  shows "w_cls w' = w_cls w \<and> (m_action meta' = ONVM_NF_ACTION_OUT \<longrightarrow>
    farf_applyAction (far_flags far) \<and> far_applyAction far AND FAR_ACTION_MASK = UPDK_FAR_APPLY_ACTION_FORW \<and>
    m_destination meta' = g_n6_port (pe_ports env))"
proof -
  obtain pkt1 meta1 msgs where far: "HandlePacketWithFar env pkt far (pdr_qer pdr) (g_n6_port (pe_ports env)) meta
      = Some (pkt1, meta1, msgs)" using assms(1) by (auto simp: handle_uplink_def split: bind_splits)
  obtain fm meta2 go where pol: "uplink_police env (w_meter w) pdr pkt1 (ip_dst_addr pkt1 0) meta1 = (fm, meta2, go)"
    by (metis prod_cases3)
  note out = far_out [OF far assms(2)] and dst = uplink_police_destination [OF pol]
  show ?thesis
    using assms(1) out dst
    by (auto simp: handle_uplink_def far pol [simplified] Let_def split: if_splits option.splits prod.splits)
qed

lemma uplink_rule_found:
  assumes "uplink_rule env sid w pkt meta = Some (w', found)" "m_action meta = ONVM_NF_ACTION_DROP" "fm_inv (w_meter w)"
  shows "w_cls w' = w_cls w \<and>
    (case found of
       Inl meta' \<Rightarrow> m_action meta' \<noteq> ONVM_NF_ACTION_OUT
     | Inr (a, len) \<Rightarrow> \<exists>info. parse_gtpu_once pkt = Some info \<and> gtp_valid info \<and>
         UpfClassifyGetPdrPtr (pe_classify env) (w_cls w)
           (ul_packet_key pkt info (ETHER_HDR + unat (gtp_outer_hdr_len info))) = Some a)"
proof (cases "\<exists>u info. onvm_pkt_udp_hdr pkt = Some u \<and> parse_gtpu_once pkt = Some info \<and> gtp_valid info")
  case True
  then obtain u info where info: "onvm_pkt_udp_hdr pkt = Some u" "parse_gtpu_once pkt = Some info" "gtp_valid info"
    by blast
  obtain st meta' moved where red: "redirect_to_owner_if_needed sid (w_store w)
      (UpfSessionFindByTeidHost (pe_store env) (w_store w) (gtp_teid info)) (gtp_teid info) meta = (st, meta', moved)"
    by (metis prod_cases3)
  obtain fm pdr where get: "GetPdrByTeid (pe_classify env) (pe_meter env) (pe_ports env) (pe_rules env) (w_cls w)
      (w_meter w) pkt info = Some (fm, pdr)"
    "\<forall>a. pdr = Some a \<longrightarrow> UpfClassifyGetPdrPtr (pe_classify env) (w_cls w)
       (ul_packet_key pkt info (ETHER_HDR + unat (gtp_outer_hdr_len info))) = Some a"
    using teid_returns [OF assms(3)] by blast
  show ?thesis
    using assms(1) redirect_bufs [OF red] get(2)
    by (auto simp: uplink_rule_def info red get(1) Let_def split: if_splits option.splits)
qed (use assms in \<open>auto simp: uplink_rule_def split: option.splits if_splits\<close>)


lemma shape_meta:
  assumes "shape_or_enqueue_packet hz clk pool get s idx (Some k) gbr qid color (Some (p, ml)) len meta
    = (s', meta', d)" "shaper_state_inv s"
  shows "if d = SHAPER_PASS then meta' = meta else m_action meta' = ONVM_NF_ACTION_DROP"
proof -
  let ?l = "if len = 0 then ml else len"
  show ?thesis
  proof (cases "pool \<and> ?l \<noteq> 0 \<and> shaper_packet_can_fit (tokens s) idx gbr qid ?l")
    case True
    then have *: "pool" "?l \<noteq> 0" "shaper_packet_can_fit (tokens s) idx gbr qid ?l" by auto
    from shape_or_enqueue_effect [OF assms(2) *(3,2) refl assms(1) [unfolded eqTrueI [OF *(1)]]]
    show ?thesis by (auto simp: enqueue_effect_def)
  next
    case False
    then obtain f where "drop_counted s meta f = (s', meta', d)"
      using assms(1) by (auto simp: shape_or_enqueue_packet_def Let_def split: if_splits)
    from drop_counted_inv [OF this] show ?thesis by simp
  qed
qed

lemma shape_rows:
  assumes "shape_or_enqueue_packet hz clk pool get s idx k gbr qid color pkt len meta = (s', meta', d)"
  shows "ue_hash (tokens s') = ue_hash (tokens s)"
  using ue_rows.shape_tokens [where s = s] assms by (metis fst_conv)

lemma shape_result:
  assumes "shape_or_enqueue_packet hz clk pool get s idx (Some k) gbr qid color (Some (p, ml)) len meta
    = (s', meta', d)" "shaper_state_inv s"
  shows "(if d = SHAPER_PASS then meta' = meta else m_action meta' = ONVM_NF_ACTION_DROP) \<and>
    ue_hash (tokens s') = ue_hash (tokens s)"
  using shape_meta [OF assms] shape_rows [OF assms(1)] by simp

text \<open>A packet the shaping stage lets pass is not red, if it is metered, and fits its UE's token rates.\<close>

lemma downlink_shape_go:
  assumes "downlink_shape env w pdr p pkt idx key gbr qid len meta = (w', meta', go)" "wk_inv w"
  shows "w_cls w' = w_cls w \<and> ue_hash (tokens (w_shaper w')) = ue_hash (tokens (w_shaper w)) \<and>
    (go \<longrightarrow> 0 \<le> idx \<and> m_destination meta' = m_destination meta \<and>
    (pdr_has_fd pdr \<noteq> 0 \<longrightarrow> m_flags meta' \<noteq> 2)) \<and>
    (\<not> go \<longrightarrow> m_action meta' = ONVM_NF_ACTION_DROP)"
proof -
  define pol where "pol = (if pdr_has_fd pdr \<noteq> 0
    then police_packet (pe_meter env) (w_meter w) (pdr_meter_key pdr) (pe_clk env 7 0) len meta
    else (w_meter w, meta, True))"
  obtain fm meta1 go1 where p: "pol = (fm, meta1, go1)" by (metis prod_cases3)
  have dst: "m_destination meta1 = m_destination meta"
    using p police_destination by (auto simp: pol_def split: if_splits)
  have red: "\<not> go1 \<Longrightarrow> m_action meta1 = ONVM_NF_ACTION_DROP"
    using p by (auto simp: pol_def police_packet_def Let_def split: if_splits option.splits prod.splits)
  show ?thesis
    using assms(1) dst red
    unfolding downlink_shape_def pol_def [symmetric] p Let_def prod.case
    by (auto dest!: shape_result [OF _ wk_invD(1) [OF assms(2)]] split: if_splits prod.splits)
qed

lemma done_same:
  "downlink_done env far w pkt meta = Some (w', pkt', meta') \<Longrightarrow> meta' = meta \<and> pkt' = pkt \<and> w_cls w' = w_cls w \<and> w_shaper w' = w_shaper w"
  by (auto simp: downlink_done_def split: if_splits bind_splits)

lemma set_sess_buf_cls [simp]: "w_cls (set_sess_buf w i sb) = w_cls w" "w_shaper (set_sess_buf w i sb) = w_shaper w"
  by (simp_all add: set_sess_buf_def)

text \<open>Why the downlink path transmits; \<open>idx\<close> is the row of the UE in the token table.\<close>

definition downlink_grounds :: "UPDK_PDR \<Rightarrow> UPDK_FAR \<Rightarrow> int \<Rightarrow> onvm_pkt_meta \<Rightarrow> bool" where
  "downlink_grounds pdr far idx meta \<longleftrightarrow>
     far_applyAction far AND FAR_ACTION_MASK \<notin> {UPDK_FAR_APPLY_ACTION_DROP, UPDK_FAR_APPLY_ACTION_BUFF} \<and>
     0 \<le> pdr_session_index pdr \<and> pdr_session_index pdr < int SESS_BUF_MAX_USERS \<and>
     (far_applyAction far AND FAR_ACTION_MASK = UPDK_FAR_APPLY_ACTION_FORW \<longrightarrow>
        0 \<le> idx \<and> (pdr_has_fd pdr \<noteq> 0 \<longrightarrow> m_flags meta \<noteq> 2))"

lemma downlink_send_out:
  assumes "downlink_send env w pdr far i sb p pkt idx key gbr qid len meta = Some (w', pkt', meta')" "wk_inv w"
    "m_action meta = ONVM_NF_ACTION_DROP"
  shows "w_cls w' = w_cls w \<and> ue_hash (tokens (w_shaper w')) = ue_hash (tokens (w_shaper w)) \<and>
    (m_action meta' = ONVM_NF_ACTION_OUT \<longrightarrow>
    far_applyAction far AND FAR_ACTION_MASK \<noteq> UPDK_FAR_APPLY_ACTION_BUFF \<and> m_destination meta' = m_destination meta \<and>
    (far_applyAction far AND FAR_ACTION_MASK = UPDK_FAR_APPLY_ACTION_FORW \<longrightarrow>
        0 \<le> idx \<and> (pdr_has_fd pdr \<noteq> 0 \<longrightarrow> m_flags meta' \<noteq> 2)))"
proof -
  define sh where "sh = (if far_applyAction far AND FAR_ACTION_MASK = UPDK_FAR_APPLY_ACTION_FORW
    then downlink_shape env w pdr p pkt idx key gbr qid len meta else (w, meta, True))"
  obtain w1 meta1 go where s: "sh = (w1, meta1, go)" by (metis prod_cases3)
  have sg: "w_cls w1 = w_cls w" "ue_hash (tokens (w_shaper w1)) = ue_hash (tokens (w_shaper w))" "go \<Longrightarrow> m_destination meta1 = m_destination meta"
    "\<not> go \<Longrightarrow> m_action meta1 = ONVM_NF_ACTION_DROP"
    "go \<Longrightarrow> far_applyAction far AND FAR_ACTION_MASK = UPDK_FAR_APPLY_ACTION_FORW \<Longrightarrow>
      0 \<le> idx \<and> (pdr_has_fd pdr \<noteq> 0 \<longrightarrow> m_flags meta1 \<noteq> 2)"
    using s downlink_shape_go [OF _ assms(2)] by (auto simp: sh_def split: if_splits)
  show ?thesis
    using assms(1,3) sg unfolding downlink_send_def sh_def [symmetric] s Let_def split_beta prod.case
    by (simp split: if_splits, auto dest!: done_same)
qed


lemma downlink_out:
  assumes "handle_downlink env (Some self) w pdr far p pkt idx key gbr qid len meta = Some (w', pkt', meta')"
    "wk_inv w" "m_action meta = ONVM_NF_ACTION_DROP"
  shows "w_cls w' = w_cls w \<and> ue_hash (tokens (w_shaper w')) = ue_hash (tokens (w_shaper w)) \<and>
    (m_action meta' = ONVM_NF_ACTION_OUT \<longrightarrow>
    downlink_grounds pdr far idx meta' \<and> m_destination meta' = g_n3_port (pe_ports env))"
proof -
  obtain bufs where bufs: "sess_bufs (w_store w) = Some bufs" using assms(2) by (auto simp: wk_inv_def)
  have arp: "wk_inv (w \<lparr>w_arp := fst (attach_l2_or_arp e n n1 n2 (w_arp w) q port sip tip True)\<rparr>)"
    for e n n1 n2 q port sip tip
    by (intro wk_inv_arp attach_l2_inv assms(2) wk_invD)
  show ?thesis
    using assms(1,3) unfolding handle_downlink_def bufs Let_def option.case split_beta
    by (simp split: if_splits; auto simp: downlink_grounds_def dest!: done_same downlink_send_out [OF _ arp])
qed

lemma downlink_rule_found:
  assumes "downlink_rule env sid w pkt dst meta = Some (w', found)" "m_action meta = ONVM_NF_ACTION_DROP" "fm_inv (w_meter w)"
  shows "w_cls w' = w_cls w \<and>
    (case found of
       Inl meta' \<Rightarrow> m_action meta' \<noteq> ONVM_NF_ACTION_OUT
     | Inr (a, session) \<Rightarrow> \<exists>iph. onvm_pkt_ipv4_hdr pkt = Some iph \<and>
         UpfClassifyGetPdrPtr (pe_classify env) (w_cls w)
           (dl_packet_key pkt iph (rte_cpu_to_be_32 dst)) = Some a)"
proof -
  define session where "session = UpfSessionFindByUeIP (pe_store env) (w_store w) dst"
  define teid where "teid = (case session of None \<Rightarrow> 0
    | Some i \<Rightarrow> rte_be_to_cpu_32 (s_teid (session_data (w_store w) ! i)))"
  obtain st meta' moved where red: "redirect_to_owner_if_needed sid (w_store w) session teid meta
      = (st, meta', moved)" by (metis prod_cases3)
  obtain fm pdr where get: "GetPdrByUeIpAddress (pe_classify env) (pe_meter env) (pe_ports env) (pe_rules env)
      (w_cls w) (w_meter w) pkt (rte_cpu_to_be_32 dst) = Some (fm, pdr)"
    "\<forall>a. pdr = Some a \<longrightarrow> (\<exists>iph. onvm_pkt_ipv4_hdr pkt = Some iph \<and>
       UpfClassifyGetPdrPtr (pe_classify env) (w_cls w) (dl_packet_key pkt iph (rte_cpu_to_be_32 dst)) = Some a)"
    using ueip_returns [OF assms(3)] by blast
  show ?thesis
    using assms(1) redirect_bufs [OF red] get(2)
    by (auto simp: downlink_rule_def session_def [symmetric] teid_def [symmetric] red get(1) Let_def
        split: if_splits option.splits)
qed

text \<open>The grounds on which a packet is transmitted, in terms of the packet as it came in.\<close>

definition uplink_grounds ::
  "('s, 'm, 'r, 'p, 't, 'c) worker_env \<Rightarrow> 'c upf_cls_local_t \<Rightarrow> rte_mbuf \<Rightarrow> onvm_pkt_meta \<Rightarrow> bool" where
  "uplink_grounds env cls pkt meta \<longleftrightarrow> m_destination meta = g_n6_port (pe_ports env) \<and>
     (\<exists>info a far. parse_gtpu_once pkt = Some info \<and> gtp_valid info \<and>
        UpfClassifyGetPdrPtr (pe_classify env) cls
          (ul_packet_key pkt info (ETHER_HDR + unat (gtp_outer_hdr_len info))) = Some a \<and>
        pdr_far (mem_pdr (pe_rules env) a) = Some far \<and> farf_applyAction (far_flags far) \<and>
        far_applyAction far AND FAR_ACTION_MASK = UPDK_FAR_APPLY_ACTION_FORW)"

definition downlink_rule_grounds ::
  "('s, 'm, 'r, 'p, 't, 'c) worker_env \<Rightarrow> ('s, 'm, 'r, 'p, 't, 'c) worker \<Rightarrow> rte_mbuf \<Rightarrow> u32 \<Rightarrow> onvm_pkt_meta \<Rightarrow> bool" where
  "downlink_rule_grounds env w pkt dst meta \<longleftrightarrow> m_destination meta = g_n3_port (pe_ports env) \<and>
     (\<exists>iph a far. onvm_pkt_ipv4_hdr pkt = Some iph \<and>
        UpfClassifyGetPdrPtr (pe_classify env) (w_cls w) (dl_packet_key pkt iph (rte_cpu_to_be_32 dst)) = Some a \<and>
        pdr_far (mem_pdr (pe_rules env) a) = Some far \<and>
        downlink_grounds (mem_pdr (pe_rules env) a) far
          (findIndexByUeIpAddress (tokens (w_shaper w)) (rte_cpu_to_be_32 dst)) meta)"

lemma uplink_packet_out:
  assumes "uplink_packet env (Some self) w pkt meta = Some (w', pkt', meta')" "wk_inv w"
    "m_action meta = ONVM_NF_ACTION_DROP"
  shows "w_cls w' = w_cls w \<and> (m_action meta' = ONVM_NF_ACTION_OUT \<longrightarrow> uplink_grounds env (w_cls w) pkt meta')"
proof -
  obtain w1 found where r: "uplink_rule env (Some self) w pkt meta = Some (w1, found)"
    using assms(1) by (auto simp: uplink_packet_def split: bind_splits)
  note f = uplink_rule_found [OF r assms(3) wk_invD(3) [OF assms(2)]]
  show ?thesis
    using assms(1,3) f
    by (auto simp: uplink_packet_def r Let_def uplink_grounds_def split: sum.splits option.splits dest!: uplink_out)
qed

lemma configured_row:
  assumes "ue_inv s" "ip \<noteq> 0" "ConfigureDlShaperForPdr clk mem s ip session (Some pdr) = (s', idx)" "0 \<le> idx"
    "ue_hash t = ue_hash s'"
  shows "findIndexByUeIpAddress t ip = idx"
proof (cases "pdr_qer pdr")
  case None
  then show ?thesis using assms(3,4) by (simp add: ConfigureDlShaperForPdr_def)
next
  case (Some qer)
  from configure_shaper_effect [OF assms(1,2) this assms(3)] assms(4,5)
  show ?thesis by (simp add: findIndexByUeIpAddress_def)
qed

lemma downlink_packet_out:
  assumes "downlink_packet env (Some self) w p pkt dst len meta = Some (w', pkt', meta')" "wk_inv w" "dst \<noteq> 0"
    "m_action meta = ONVM_NF_ACTION_DROP" "m_action meta' = ONVM_NF_ACTION_OUT"
  shows "downlink_rule_grounds env w' pkt dst meta' \<and> w_cls w' = w_cls w"
proof -
  obtain w1 found where r: "downlink_rule env (Some self) w pkt dst meta = Some (w1, found)"
    using assms(1) by (auto simp: downlink_packet_def split: bind_splits)
  note f = downlink_rule_found [OF r assms(4) wk_invD(3) [OF assms(2)]]
  have w1: "wk_inv w1" using downlink_rule_ok [OF assms(2)] r by (metis returns_ok_Some)
  obtain a session where found: "found = Inr (a, session)"
    using assms(1,5) f by (auto simp: downlink_packet_def r split: sum.splits)
  let ?pdr = "mem_pdr (pe_rules env) a" and ?ip = "rte_cpu_to_be_32 dst"
  let ?ses = "map_option ((!) (session_data (w_store w1))) session"
  obtain t idx where c: "ConfigureDlShaperForPdr (pe_clk env 4) (pe_rules env) (tokens (w_shaper w1)) ?ip ?ses (Some ?pdr)
      = (t, idx)" by fastforce
  have ip: "?ip \<noteq> 0" using assms(3) by simp
  let ?w = "w1 \<lparr>w_shaper := (w_shaper w1) \<lparr>tokens := t\<rparr>\<rparr>"
  have t: "wk_inv ?w"
    using configure_shaper_inv [OF wk_invD(2) [OF w1] ip] c by (intro wk_inv_tokens w1) (metis fst_conv)
  obtain key far pkt1 len1 gbr qid where far: "pdr_far ?pdr = Some far"
    and h: "handle_downlink env (Some self) ?w ?pdr far p pkt1 idx key gbr qid len1 meta = Some (w', pkt', meta')"
    using assms(1,4,5) found by (auto simp: downlink_packet_def r c Let_def split: option.splits)
  note d = downlink_out [OF h t assms(4)]
  have "downlink_grounds ?pdr far (findIndexByUeIpAddress (tokens (w_shaper w')) ?ip) meta'"
    using d assms(5) configured_row [OF wk_invD(2) [OF w1] ip c, of "tokens (w_shaper w')"]
    by (auto simp: downlink_grounds_def)
  then show ?thesis
    using d f assms(5) far found by (auto simp: downlink_rule_grounds_def)
qed

text \<open>
  C1. A worker transmits the packet it is handed only as the answer to an echo request for one of its
  own addresses, or because a rule of the classifier says so. Uplink, the packet is a valid GTP-U packet for the
  N3 address, the classifier in use finds a PDR for its inner header, and that PDR has a FAR with an apply action
  that forwards; it leaves through the N6 port. Downlink, the classifier finds a PDR with a FAR that neither drops
  nor buffers and a valid session; when the FAR forwards, the UE has a row in the token table and a metered packet
  is not red; it leaves through the N3 port.
\<close>

theorem transmit_needs_rule:
  assumes "packet_handler env (Some self) w (Some p) = Some w'"
    and "wk_inv w" "deliverable w (Some p)"
    and "m_action (pkt_meta (w_shaper w') p) = ONVM_NF_ACTION_OUT"
  shows "\<exists>iph. onvm_pkt_ipv4_hdr (w_data w p) = Some iph \<and>
    (let pkt = w_data w p; dst = ip_dst_addr pkt iph; meta = pkt_meta (w_shaper w') p in
     ip_next_proto_id pkt iph = IPPROTO_ICMP \<and> upf_is_local_ipv4 (pe_ports env) dst \<and> m_destination meta = mb_port pkt \<or>
     dst = g_n3_ip_be (pe_ports env) \<and> uplink_grounds env (w_cls w') pkt meta \<or>
     dst \<noteq> g_n3_ip_be (pe_ports env) \<and> downlink_rule_grounds env w' pkt dst meta)"
proof -
  let ?w = "inline_drain env (Some self) w" and ?pkt = "w_data w p"
  obtain w2 pkt meta where d: "dispatch_packet env (Some self) ?w p ?pkt (pkt_meta (w_shaper ?w) p) = Some (w2, pkt, meta)"
    and w': "w' = w2 \<lparr>w_data := (w_data w2)(p := pkt),
      w_shaper := (w_shaper w2) \<lparr>pkt_meta := (pkt_meta (w_shaper w2))(p := meta)\<rparr>\<rparr>"
    using assms(1) by (auto simp: packet_handler_def Let_def split: bind_splits)
  have out: "m_action meta = ONVM_NF_ACTION_OUT" using assms(4) by (simp add: w')
  have same: "downlink_rule_grounds env w' q dst m = downlink_rule_grounds env w2 q dst m"
    "w_cls w' = w_cls w2" "pkt_meta (w_shaper w') p = meta" for q dst m
    by (simp_all add: w' downlink_rule_grounds_def)
  obtain pkt1 meta1 handled where i: "handle_local_icmp_echo (pe_ipv4_cksum env) (pe_raw_cksum env) (pe_ports env)
      ?pkt (pkt_meta (w_shaper ?w) p) True = (pkt1, meta1, handled)" by (metis prod_cases3)
  have arp: "rte_be_to_cpu_16 (ether_type ?pkt) \<noteq> RTE_ETHER_TYPE_ARP"
    using d out by (auto simp: dispatch_packet_def handle_arp_packet_def Let_def split: if_splits option.splits)
  show ?thesis
  proof (cases handled)
    case True
    then show ?thesis
      using d i out arp unfolding same
      by (auto simp: dispatch_packet_def handle_local_icmp_echo_def Let_def split: if_splits option.splits)
  next
    case False
    then have r: "route_packet env (Some self) ?w p ?pkt (pkt_meta (w_shaper ?w) p) = Some (w2, pkt, meta)"
      using d i arp icmp_not_handled [OF i [simplified False]] by (simp add: dispatch_packet_def)
    obtain iph where iph: "onvm_pkt_ipv4_hdr ?pkt = Some iph"
      using r out by (auto simp: route_packet_def Let_def split: option.splits)
    obtain cls msgs where c: "UpfClsMaybeFlipAndAck (pe_send env 0) (Some self) (pe_loads env) (w_cls w) = Some (cls, msgs)"
      using r by (auto simp: route_packet_def iph Let_def split: bind_splits)
    have w3: "wk_inv (?w \<lparr>w_cls := cls, w_msgs := w_msgs ?w @ msgs\<rparr>)" using inline_drain_inv [OF assms(2)] by simp
    have dst: "ip_dst_addr ?pkt iph \<noteq> 0" using assms(3) iph by (simp add: deliverable_def)
    show ?thesis
      using r iph out uplink_packet_out [OF _ w3, of env self ?pkt _ w2 pkt meta]
        downlink_packet_out [OF _ w3 dst, of env self p ?pkt _ _ w2 pkt meta]
      unfolding same
      by (auto simp: route_packet_def c Let_def split: if_splits)
  qed
qed


text \<open>A freshly started worker with one session, handed an echo request for its N3 address.\<close>

definition example_worker ::
  "(example_seids, example_map, mbuf list, rte_meter_trtcm_params, u64 \<times> u64, unit) worker" where
  "example_worker = \<lparr>w_shaper = idle_shaper \<lparr>tokens := ue_boot (\<lambda>_. 0)\<rparr>, w_meter = example_meter,
     w_arp = example_arp,
     w_store = one_store \<lparr>sess_bufs := Some (replicate SESS_BUF_MAX_USERS zero_sess_buf)\<rparr>,
     w_cls = \<lparr>cl_ptr = None, cl_ver = 0, cl_pending_ver = 0, cl_flip_pending = False\<rparr>,
     w_data = (\<lambda>_. echo_pkt), w_tx = [], w_msgs = []\<rparr>"

definition example_worker_env ::
  "(example_seids, example_map, mbuf list, rte_meter_trtcm_params, u64 \<times> u64, unit) worker_env" where
  "example_worker_env = \<lparr>pe_ports = echo_cfg, pe_hz = 1000, pe_clk = (\<lambda>_ _. 0), pe_rules = example_rules,
     pe_classify = (\<lambda>_ _. (0, 0)), pe_meter = plain_meter_lib, pe_store = example_lib,
     pe_arp = example_env broadcast_mac, pe_ipv4_cksum = (\<lambda>_. 0), pe_raw_cksum = ref_raw_cksum,
     pe_pool = True, pe_entry = True, pe_loads = (\<lambda>_. (0, None, 0)),
     pe_send = (\<lambda>_. \<lparr>se_calloc = True, se_send = (\<lambda>_ _. 0)\<rparr>)\<rparr>"

lemma example_worker_inv: "wk_inv example_worker"
  using idle_shaper_inv ue_boot_inv [of "\<lambda>_. 0"] fm_reach_inv [OF fm_reach.start] neigh_empty_inv
  by (simp add: wk_inv_def example_worker_def shaper_state_inv_def example_arp_def)

lemma example_env_ready: "env_ready example_worker_env"
  by (simp add: env_ready_def example_worker_env_def)

lemma echo_pkt_fields:
  "onvm_pkt_ipv4_hdr echo_pkt = Some 14" "ip_dst_addr echo_pkt 14 = 1" "ip_next_proto_id echo_pkt 14 = IPPROTO_ICMP"
  by (simp_all add: echo_pkt_def onvm_pkt_ipv4_hdr_def ld8_def ld16_def ld32_def rte_bswap16_def)

lemma example_deliverable: "deliverable example_worker (Some p)"
  using echo_pkt_fields by (simp add: deliverable_def example_worker_def)

lemma echo_answered:
  "\<exists>pkt' meta'. handle_local_icmp_echo (\<lambda>_. 0) ref_raw_cksum echo_cfg echo_pkt meta True = (pkt', meta', True) \<and>
     m_action meta' = ONVM_NF_ACTION_OUT"
  by (simp add: handle_local_icmp_echo_def echo_pkt_def echo_cfg_def Let_def onvm_pkt_ipv4_hdr_def
      upf_is_local_ipv4_def ihl_len_def ld8_def ld16_def ld32_def rte_bswap16_def)

lemma example_echo_sent:
  "\<exists>w'. packet_handler example_worker_env (Some 10) example_worker (Some 42) = Some w' \<and>
     m_action (pkt_meta (w_shaper w') 42) = ONVM_NF_ACTION_OUT"
proof -
  let ?w = "inline_drain example_worker_env (Some 10) example_worker"
  have f: "w_data example_worker 42 = echo_pkt" "pe_ports example_worker_env = echo_cfg"
    "pe_ipv4_cksum example_worker_env = (\<lambda>_. 0)" "pe_raw_cksum example_worker_env = ref_raw_cksum"
    by (simp_all add: example_worker_def example_worker_env_def)
  obtain pkt' meta' where "handle_local_icmp_echo (\<lambda>_. 0) ref_raw_cksum echo_cfg echo_pkt (pkt_meta (w_shaper ?w) 42) True
      = (pkt', meta', True)" "m_action meta' = ONVM_NF_ACTION_OUT"
    using echo_answered by blast
  moreover have "rte_be_to_cpu_16 (ether_type echo_pkt) \<noteq> RTE_ETHER_TYPE_ARP"
    by (simp add: echo_pkt_def ld8_def ld16_def rte_bswap16_def)
  ultimately show ?thesis by (simp add: packet_handler_def dispatch_packet_def f Let_def)
qed

theorem transmit_needs_rule_witness:
  "\<exists>w'. packet_handler example_worker_env (Some 10) example_worker (Some 42) = Some w' \<and>
     (m_destination (pkt_meta (w_shaper w') 42) = 5 \<or> uplink_grounds example_worker_env (w_cls w') echo_pkt
        (pkt_meta (w_shaper w') 42))"
proof -
  obtain w' where r: "packet_handler example_worker_env (Some 10) example_worker (Some 42) = Some w'"
    "m_action (pkt_meta (w_shaper w') 42) = ONVM_NF_ACTION_OUT" using example_echo_sent by blast
  have f: "w_data example_worker 42 = echo_pkt" "g_n3_ip_be (pe_ports example_worker_env) = 1" "mb_port echo_pkt = 5"
    by (simp_all add: example_worker_def example_worker_env_def echo_cfg_def echo_pkt_def)
  from transmit_needs_rule [OF r(1) example_worker_inv example_deliverable r(2)] r(1)
  show ?thesis unfolding f by (auto simp: Let_def f echo_pkt_fields [simplified])
qed

text \<open>
  C9. A worker that is handed packets for real addresses does not get stuck. Take a worker whose shaper queues and active
  set, UE token table, flow meters, neighbour table and array of session buffers are well formed, and a run of packets,
  messages and callbacks in any order, in which no packet is addressed to 0.0.0.0 (such a packet breaks the hash of the
  UE table) and message memory is available and the control plane releases the classifier slot while a packet is handled.
  Then in the state reached these structures are well formed; the packet handler returns for every further such packet
  under the same two conditions; the message handler returns for every message; and each leaves them well formed, as the
  callback does. The indices of the session store are not part of this invariant.
\<close>

theorem worker_never_stuck:
  assumes "wk_inv w0" "worker_runs self w0 w"
  shows "wk_inv w \<and>
    (\<forall>env pkt. env_ready env \<and> deliverable w pkt \<longrightarrow> (\<exists>w'. packet_handler env (Some self) w pkt = Some w' \<and> wk_inv w')) \<and>
    (\<forall>env e. \<exists>w'. msg_handler env (Some self) w e = Some w' \<and> wk_inv w') \<and>
    (\<forall>env. wk_inv (callback_handler env w))"
  using runs_inv [OF assms(2,1)] packet_handler_ok msg_handler_ok callback_ok by blast

theorem worker_never_stuck_witness:
  "\<exists>w'. packet_handler example_worker_env (Some 10) (callback_handler example_worker_env example_worker) (Some 42) = Some w' \<and>
     wk_inv w'"
proof -
  let ?w = "callback_handler example_worker_env example_worker"
  have "worker_runs 10 example_worker ?w" by (intro worker_runs.callback worker_runs.start)
  moreover have "w_data ?w = w_data example_worker" by (simp add: callback_handler_def split: prod.split)
  then have "deliverable ?w (Some 42)" using example_deliverable [of 42] 
    by (simp add: deliverable_def split: option.splits)
  ultimately show ?thesis
    using worker_never_stuck [OF example_worker_inv] example_env_ready by blast
qed

end
