(* ===== verification/Linked_List.thy ===== *)
theory Linked_List
  imports Upf_Prelude "HOL-Library.Monad_Syntax"
begin

text \<open>
  The doubly linked list of \<^verbatim>\<open>onvm/list\<close> that holds the PDRs, FARs and QERs of a session. Nodes
  live in an explicit heap; every operation returns \<open>None\<close> when it would follow a pointer that
  is not an allocated node (or, for the searches, when it would not end), so a result \<open>Some\<close>
  says that the operation is memory safe. The representation predicate ties a heap and a list
  header to a plain sequence of nodes and values, and every operation is shown to be the
  corresponding operation on sequences.
\<close>

subsection \<open>Nodes, lists, iterators\<close>

type_synonym addr = nat

record 'v list_node =
  nd_prev :: "addr option"
  nd_next :: "addr option"
  nd_val :: 'v

record 'v list_t =
  lt_head :: "addr option"
  lt_tail :: "addr option"
  lt_len :: u32
  lt_free :: bool
  lt_match :: "('v \<Rightarrow> 'v \<Rightarrow> bool) option"

datatype list_direction_t = LIST_HEAD | LIST_TAIL

record list_iterator_t =
  it_next :: "addr option"
  it_direction :: list_direction_t

type_synonym 'v heap = "addr \<rightharpoonup> 'v list_node"

definition wr :: "'v heap \<Rightarrow> addr \<Rightarrow> ('v list_node \<Rightarrow> 'v list_node) \<Rightarrow> 'v heap option" where
  "wr h a f = (case h a of None \<Rightarrow> None | Some n \<Rightarrow> Some (h(a \<mapsto> f n)))"

subsection \<open>Operations\<close>

text \<open>The results of the allocations are arguments: the address of fresh memory, or \<open>None\<close>.\<close>

definition list_node_new :: "'v heap \<Rightarrow> addr option \<Rightarrow> 'v \<Rightarrow> 'v heap \<times> addr option" where
  "list_node_new h mem v =
     (case mem of None \<Rightarrow> (h, None)
      | Some a \<Rightarrow> (h(a \<mapsto> \<lparr>nd_prev = None, nd_next = None, nd_val = v\<rparr>), Some a))"

definition list_new :: "bool \<Rightarrow> 'v list_t option" where
  "list_new mem =
     (if mem then Some \<lparr>lt_head = None, lt_tail = None, lt_len = 0, lt_free = False, lt_match = None\<rparr>
      else None)"

text \<open>The second component collects the values the list's own \<^verbatim>\<open>free\<close> is called on.\<close>

primrec destroy_loop ::
  "'v list_t \<Rightarrow> nat \<Rightarrow> 'v heap \<Rightarrow> addr option \<Rightarrow> ('v heap \<times> 'v list) option" where
  "destroy_loop l 0 h cur = Some (h, [])"
| "destroy_loop l (Suc n) h cur =
     do {
       c \<leftarrow> cur;
       nd \<leftarrow> h c;
       (h, vs) \<leftarrow> destroy_loop l n (h(c := None)) (nd_next nd);
       Some (h, if lt_free l then nd_val nd # vs else vs)
     }"

text \<open>The nodes are freed and then the header, which is not returned.\<close>

definition list_destroy :: "'v heap \<Rightarrow> 'v list_t \<Rightarrow> ('v heap \<times> 'v list) option" where
  "list_destroy h l = destroy_loop l (unat (lt_len l)) h (lt_head l)"

definition list_rpush ::
  "'v heap \<Rightarrow> 'v list_t \<Rightarrow> addr option \<Rightarrow> ('v heap \<times> 'v list_t \<times> addr option) option" where
  "list_rpush h l node_ptr =
     (case node_ptr of
        None \<Rightarrow> Some (h, l, None)
      | Some node \<Rightarrow>
          if lt_len l \<noteq> 0 then
            do {
              h \<leftarrow> wr h node (\<lambda>n. n \<lparr>nd_prev := lt_tail l, nd_next := None\<rparr>);
              t \<leftarrow> lt_tail l;
              h \<leftarrow> wr h t (\<lambda>n. n \<lparr>nd_next := Some node\<rparr>);
              Some (h, l \<lparr>lt_tail := Some node, lt_len := lt_len l + 1\<rparr>, Some node)
            }
          else
            do {
              h \<leftarrow> wr h node (\<lambda>n. n \<lparr>nd_prev := None, nd_next := None\<rparr>);
              Some (h, l \<lparr>lt_head := Some node, lt_tail := Some node, lt_len := lt_len l + 1\<rparr>, Some node)
            })"

definition list_rpop ::
  "'v heap \<Rightarrow> 'v list_t \<Rightarrow> ('v heap \<times> 'v list_t \<times> addr option) option" where
  "list_rpop h l =
     (if lt_len l = 0 then Some (h, l, None)
      else do {
        node \<leftarrow> lt_tail l;
        nd \<leftarrow> h node;
        let l = l \<lparr>lt_len := lt_len l - 1\<rparr>;
        (h, l) \<leftarrow> (if lt_len l \<noteq> 0
           then do {
             p \<leftarrow> nd_prev nd;
             h \<leftarrow> wr h p (\<lambda>n. n \<lparr>nd_next := None\<rparr>);
             Some (h, l \<lparr>lt_tail := Some p\<rparr>)
           }
           else Some (h, l \<lparr>lt_tail := None, lt_head := None\<rparr>));
        h \<leftarrow> wr h node (\<lambda>n. n \<lparr>nd_next := None, nd_prev := None\<rparr>);
        Some (h, l, Some node)
      })"

definition list_lpop ::
  "'v heap \<Rightarrow> 'v list_t \<Rightarrow> ('v heap \<times> 'v list_t \<times> addr option) option" where
  "list_lpop h l =
     (if lt_len l = 0 then Some (h, l, None)
      else do {
        node \<leftarrow> lt_head l;
        nd \<leftarrow> h node;
        let l = l \<lparr>lt_len := lt_len l - 1\<rparr>;
        (h, l) \<leftarrow> (if lt_len l \<noteq> 0
           then do {
             p \<leftarrow> nd_next nd;
             h \<leftarrow> wr h p (\<lambda>n. n \<lparr>nd_prev := None\<rparr>);
             Some (h, l \<lparr>lt_head := Some p\<rparr>)
           }
           else Some (h, l \<lparr>lt_head := None, lt_tail := None\<rparr>));
        h \<leftarrow> wr h node (\<lambda>n. n \<lparr>nd_next := None, nd_prev := None\<rparr>);
        Some (h, l, Some node)
      })"

definition list_lpush ::
  "'v heap \<Rightarrow> 'v list_t \<Rightarrow> addr option \<Rightarrow> ('v heap \<times> 'v list_t \<times> addr option) option" where
  "list_lpush h l node_ptr =
     (case node_ptr of
        None \<Rightarrow> Some (h, l, None)
      | Some node \<Rightarrow>
          if lt_len l \<noteq> 0 then
            do {
              h \<leftarrow> wr h node (\<lambda>n. n \<lparr>nd_next := lt_head l, nd_prev := None\<rparr>);
              t \<leftarrow> lt_head l;
              h \<leftarrow> wr h t (\<lambda>n. n \<lparr>nd_prev := Some node\<rparr>);
              Some (h, l \<lparr>lt_head := Some node, lt_len := lt_len l + 1\<rparr>, Some node)
            }
          else
            do {
              h \<leftarrow> wr h node (\<lambda>n. n \<lparr>nd_prev := None, nd_next := None\<rparr>);
              Some (h, l \<lparr>lt_head := Some node, lt_tail := Some node, lt_len := lt_len l + 1\<rparr>, Some node)
            })"

definition list_iterator_new_from_node ::
  "bool \<Rightarrow> addr option \<Rightarrow> list_direction_t \<Rightarrow> list_iterator_t option" where
  "list_iterator_new_from_node mem node direction =
     (if mem then Some \<lparr>it_next = node, it_direction = direction\<rparr> else None)"

definition list_iterator_new ::
  "bool \<Rightarrow> 'v list_t \<Rightarrow> list_direction_t \<Rightarrow> list_iterator_t option" where
  "list_iterator_new mem l direction =
     list_iterator_new_from_node mem (if direction = LIST_HEAD then lt_head l else lt_tail l) direction"

definition list_iterator_next ::
  "'v heap \<Rightarrow> list_iterator_t \<Rightarrow> (list_iterator_t \<times> addr option) option" where
  "list_iterator_next h it =
     (case it_next it of
        None \<Rightarrow> Some (it, None)
      | Some cur \<Rightarrow>
          (case h cur of
             None \<Rightarrow> None
           | Some nd \<Rightarrow>
               Some (it \<lparr>it_next := (if it_direction it = LIST_HEAD then nd_next nd else nd_prev nd)\<rparr>,
                     Some cur)))"

partial_function (option) find_loop ::
  "'v heap \<Rightarrow> ('v \<Rightarrow> bool) \<Rightarrow> list_iterator_t \<Rightarrow> addr option option" where
  "find_loop h P it =
     (case list_iterator_next h it of
        None \<Rightarrow> None
      | Some (it', None) \<Rightarrow> Some None
      | Some (it', Some node) \<Rightarrow>
          (case h node of
             None \<Rightarrow> None
           | Some nd \<Rightarrow> if P (nd_val nd) then Some (Some node) else find_loop h P it'))"

definition list_find :: "bool \<Rightarrow> 'v heap \<Rightarrow> 'v list_t \<Rightarrow> 'v \<Rightarrow> addr option option" where
  "list_find mem h l val =
     do {
       it \<leftarrow> list_iterator_new mem l LIST_HEAD;
       find_loop h (case lt_match l of Some m \<Rightarrow> m val | None \<Rightarrow> (=) val) it
     }"

primrec at_loop :: "'v heap \<Rightarrow> nat \<Rightarrow> list_iterator_t \<Rightarrow> addr option \<Rightarrow> addr option option" where
  "at_loop h 0 it node = Some node"
| "at_loop h (Suc index) it node =
     (case list_iterator_next h it of None \<Rightarrow> None | Some (it', node) \<Rightarrow> at_loop h index it' node)"

definition list_at :: "bool \<Rightarrow> 'v heap \<Rightarrow> 'v list_t \<Rightarrow> int \<Rightarrow> addr option option" where
  "list_at mem h l index =
     (let direction = (if index < 0 then LIST_TAIL else LIST_HEAD);
          index = (if index < 0 then - index - 1 else index)
      in if nat index < unat (lt_len l)
         then do {
           it \<leftarrow> list_iterator_new mem l direction;
           (it, node) \<leftarrow> list_iterator_next h it;
           at_loop h (nat index) it node
         }
         else Some None)"

definition list_remove ::
  "'v heap \<Rightarrow> 'v list_t \<Rightarrow> addr \<Rightarrow> ('v heap \<times> 'v list_t \<times> 'v list) option" where
  "list_remove h l node =
     do {
       nd \<leftarrow> h node;
       (h, l) \<leftarrow> (case nd_prev nd of
          Some p \<Rightarrow> do { h \<leftarrow> wr h p (\<lambda>n. n \<lparr>nd_next := nd_next nd\<rparr>); Some (h, l) }
        | None \<Rightarrow> Some (h, l \<lparr>lt_head := nd_next nd\<rparr>));
       nd \<leftarrow> h node;
       (h, l) \<leftarrow> (case nd_next nd of
          Some q \<Rightarrow> do { h \<leftarrow> wr h q (\<lambda>n. n \<lparr>nd_prev := nd_prev nd\<rparr>); Some (h, l) }
        | None \<Rightarrow> Some (h, l \<lparr>lt_tail := nd_prev nd\<rparr>));
       Some (h(node := None), l \<lparr>lt_len := lt_len l - 1\<rparr>, if lt_free l then [nd_val nd] else [])
     }"

subsection \<open>The list as a sequence\<close>

abbreviation first :: "(addr \<times> 'v) list \<Rightarrow> addr option \<Rightarrow> addr option" where
  "first ns q \<equiv> (case ns of [] \<Rightarrow> q | n # _ \<Rightarrow> Some (fst n))"

abbreviation final :: "addr option \<Rightarrow> (addr \<times> 'v) list \<Rightarrow> addr option" where
  "final p ns \<equiv> (if ns = [] then p else Some (fst (List.last ns)))"

fun dseg :: "'v heap \<Rightarrow> addr option \<Rightarrow> (addr \<times> 'v) list \<Rightarrow> addr option \<Rightarrow> bool" where
  "dseg h p [] q = True"
| "dseg h p ((a, v) # ns) q \<longleftrightarrow>
     h a = Some \<lparr>nd_prev = p, nd_next = first ns q, nd_val = v\<rparr> \<and> dseg h (Some a) ns q"

definition list_rep :: "'v heap \<Rightarrow> 'v list_t \<Rightarrow> (addr \<times> 'v) list \<Rightarrow> bool" where
  "list_rep h l ns \<longleftrightarrow> distinct (map fst ns) \<and> dseg h None ns None \<and>
     lt_head l = first ns None \<and> lt_tail l = final None ns \<and> unat (lt_len l) = length ns"

lemma dseg_append:
  "dseg h p (xs @ ys) q \<longleftrightarrow> dseg h p xs (first ys q) \<and> dseg h (final p xs) ys q"
proof (induction xs arbitrary: p)
  case (Cons x xs)
  then show ?case by (cases x; cases xs; cases ys) auto
qed simp

lemma dseg_frame [simp]: "a \<notin> fst ` set ns \<Longrightarrow> dseg (h(a := x)) p ns q = dseg h p ns q"
  by (induction ns arbitrary: p) auto

lemma first_append: "first (xs @ ys) q = first xs (first ys q)"
  by (cases xs) simp_all

lemma list_rep_len: "list_rep h l ns \<Longrightarrow> lt_len l = 0 \<longleftrightarrow> ns = []"
  by (auto simp: list_rep_def unat_eq_zero [symmetric] simp del: unat_eq_zero)

text \<open>A pushed node is an allocated node that is not yet in the list.\<close>

lemma rpush_refines:
  assumes "list_rep h l ns" "h a = Some nd" "a \<notin> fst ` set ns" "Suc (length ns) < 2 ^ 32"
  shows "\<exists>h' l'. list_rpush h l (Some a) = Some (h', l', Some a) \<and>
    list_rep h' l' (ns @ [(a, nd_val nd)]) \<and> (\<forall>b. b \<noteq> a \<longrightarrow> b \<notin> fst ` set ns \<longrightarrow> h' b = h b)"
proof -
  have len: "unat (lt_len l + 1) = Suc (length ns)"
    using assms(1,4) by (simp add: list_rep_def unat_word_ariths)
  show ?thesis
  proof (cases ns rule: rev_cases)
    case Nil
    then show ?thesis
      using assms len list_rep_len [OF assms(1)]
      by (simp add: list_rpush_def wr_def list_rep_def)
  next
    case (snoc ms x)
    then obtain t v where x: "x = (t, v)" by (cases x)
    have "h t = Some \<lparr>nd_prev = final None ms, nd_next = None, nd_val = v\<rparr>" "t \<notin> fst ` set ms" "t \<noteq> a"
      "lt_tail l = Some t" "dseg h None ms (Some t)" "distinct (map fst ms)"
      using assms(1,3) by (auto simp: list_rep_def snoc x dseg_append)
    then show ?thesis
      using assms len list_rep_len [OF assms(1)]
      by (auto simp: list_rpush_def wr_def list_rep_def snoc x dseg_append first_append split: list.splits)
  qed
qed

lemma lpush_refines:
  assumes "list_rep h l ns" "h a = Some nd" "a \<notin> fst ` set ns" "Suc (length ns) < 2 ^ 32"
  shows "\<exists>h' l'. list_lpush h l (Some a) = Some (h', l', Some a) \<and>
    list_rep h' l' ((a, nd_val nd) # ns) \<and> (\<forall>b. b \<noteq> a \<longrightarrow> b \<notin> fst ` set ns \<longrightarrow> h' b = h b)"
proof -
  have len: "unat (lt_len l + 1) = Suc (length ns)"
    using assms(1,4) by (simp add: list_rep_def unat_word_ariths)
  show ?thesis
  proof (cases ns)
    case Nil
    then show ?thesis
      using assms len list_rep_len [OF assms(1)]
      by (simp add: list_lpush_def wr_def list_rep_def)
  next
    case (Cons x ms)
    then obtain t v where x: "x = (t, v)" by (cases x)
    then show ?thesis
      using assms len list_rep_len [OF assms(1)] Cons
      by (auto simp: list_lpush_def wr_def list_rep_def)
  qed
qed

lemma unat_dec:
  fixes x :: u32
  assumes "unat x = Suc n"
  shows "unat (x - 1) = n" "x - 1 = 0 \<longleftrightarrow> n = 0"
proof -
  have "1 \<le> x" using assms by (simp add: word_le_nat_alt)
  then show u: "unat (x - 1) = n" using unat_minus_le [of 1 x] assms by simp
  show "x - 1 = 0 \<longleftrightarrow> n = 0" using u by (metis unat_eq_zero)
qed

lemma lpop_refines:
  assumes "list_rep h l ((a, v) # ns)"
  shows "\<exists>h' l'. list_lpop h l = Some (h', l', Some a) \<and> list_rep h' l' ns \<and>
    h' a = Some \<lparr>nd_prev = None, nd_next = None, nd_val = v\<rparr> \<and>
    (\<forall>b. b \<noteq> a \<longrightarrow> b \<notin> fst ` set ns \<longrightarrow> h' b = h b)"
proof -
  have len: "unat (lt_len l - 1) = length ns" "lt_len l - 1 = 0 \<longleftrightarrow> ns = []"
    using assms unat_dec [of "lt_len l" "length ns"] by (simp_all add: list_rep_def)
  show ?thesis
  proof (cases ns)
    case Nil
    then show ?thesis
      using assms len list_rep_len [OF assms] by (auto simp: list_lpop_def wr_def list_rep_def)
  next
    case (Cons x ms)
    then obtain t w where x: "x = (t, w)" by (cases x)
    then show ?thesis
      using assms len list_rep_len [OF assms] Cons
      by (auto simp: list_lpop_def wr_def list_rep_def)
  qed
qed

lemma rpop_refines:
  assumes "list_rep h l (ns @ [(a, v)])"
  shows "\<exists>h' l'. list_rpop h l = Some (h', l', Some a) \<and> list_rep h' l' ns \<and>
    h' a = Some \<lparr>nd_prev = None, nd_next = None, nd_val = v\<rparr> \<and>
    (\<forall>b. b \<noteq> a \<longrightarrow> b \<notin> fst ` set ns \<longrightarrow> h' b = h b)"
proof -
  have len: "unat (lt_len l - 1) = length ns" "lt_len l - 1 = 0 \<longleftrightarrow> ns = []"
    using assms unat_dec [of "lt_len l" "length ns"] by (simp_all add: list_rep_def)
  show ?thesis
  proof (cases ns rule: rev_cases)
    case Nil
    then show ?thesis
      using assms len list_rep_len [OF assms] by (auto simp: list_rpop_def wr_def list_rep_def)
  next
    case (snoc ms x)
    then obtain t w where x: "x = (t, w)" by (cases x)
    then show ?thesis
      using assms len list_rep_len [OF assms] snoc
      by (auto simp: list_rpop_def wr_def list_rep_def dseg_append first_append split: list.splits)
  qed
qed

lemma remove_refines:
  assumes "list_rep h l (xs @ (a, v) # ys)"
  shows "\<exists>h' l'. list_remove h l a = Some (h', l', if lt_free l then [v] else []) \<and>
    list_rep h' l' (xs @ ys) \<and> h' a = None \<and>
    (\<forall>b. b \<noteq> a \<longrightarrow> b \<notin> fst ` set (xs @ ys) \<longrightarrow> h' b = h b)"
proof -
  have len: "unat (lt_len l - 1) = length (xs @ ys)"
    using assms unat_dec [of "lt_len l" "length (xs @ ys)"] by (simp add: list_rep_def)
  obtain us p u where xs: "xs = [] \<or> xs = us @ [(p, u)]" by (metis rev_exhaust prod.exhaust)
  obtain q w ws where ys: "ys = [] \<or> ys = (q, w) # ws" by (metis list.exhaust prod.exhaust)
  show ?thesis
    using xs ys
  proof (elim disjE)
    assume e: "xs = []" "ys = []"
    then show ?thesis using assms len by (simp add: list_remove_def wr_def list_rep_def)
  next
    assume e: "xs = []" "ys = (q, w) # ws"
    then show ?thesis using assms len by (auto simp: list_remove_def wr_def list_rep_def)
  next
    assume e: "xs = us @ [(p, u)]" "ys = []"
    then show ?thesis
      using assms len
      by (auto simp: list_remove_def wr_def list_rep_def dseg_append first_append split: list.splits)
  next
    assume e: "xs = us @ [(p, u)]" "ys = (q, w) # ws"
    then show ?thesis
      using assms len
      by (auto simp: list_remove_def wr_def list_rep_def dseg_append first_append split: list.splits)
  qed
qed

lemma destroy_loop_result:
  assumes "dseg h p ns q" "distinct (map fst ns)"
  shows "destroy_loop l (length ns) h (first ns q) =
    Some (h |` (- fst ` set ns), if lt_free l then map snd ns else [])"
  using assms
proof (induction ns arbitrary: h p)
  case (Cons x ns)
  obtain a v where x: "x = (a, v)" by (cases x)
  define h1 where "h1 = h(a := None)"
  have d: "h a = Some \<lparr>nd_prev = p, nd_next = first ns q, nd_val = v\<rparr>"
    "dseg h1 (Some a) ns q" "distinct (map fst ns)"
    using Cons.prems by (simp_all add: x h1_def)
  have "h1 |` (- fst ` set ns) = h |` (- insert a (fst ` set ns))"
    by (auto simp: restrict_map_def fun_eq_iff h1_def)
  then show ?case using d(1) Cons.IH [OF d(2,3)] by (simp add: x h1_def [symmetric])
qed (simp add: restrict_map_def)

lemma find_loop_result:
  assumes "dseg h p ns None"
  shows "find_loop h P \<lparr>it_next = first ns None, it_direction = LIST_HEAD\<rparr> =
    Some (map_option fst (find (\<lambda>n. P (snd n)) ns))"
  using assms
proof (induction ns arbitrary: p)
  case Nil
  then show ?case by (simp add: find_loop.simps list_iterator_next_def)
next
  case (Cons x ns)
  obtain a v where x: "x = (a, v)" by (cases x)
  show ?case
    using Cons.prems Cons.IH [of "Some a"]
    by (subst find_loop.simps) (simp add: list_iterator_next_def x)
qed

lemma iterate_forward:
  assumes "dseg h p ns None" "i < length ns"
  shows "\<exists>it n. list_iterator_next h \<lparr>it_next = first ns None, it_direction = LIST_HEAD\<rparr> = Some (it, n) \<and>
    at_loop h i it n = Some (Some (fst (ns ! i)))"
  using assms
proof (induction ns arbitrary: p i)
  case (Cons x ns)
  obtain a v where x: "x = (a, v)" by (cases x)
  have d: "h a = Some \<lparr>nd_prev = p, nd_next = first ns None, nd_val = v\<rparr>" "dseg h (Some a) ns None"
    using Cons.prems by (simp_all add: x)
  show ?case
  proof (cases i)
    case 0
    then show ?thesis using d by (simp add: list_iterator_next_def x)
  next
    case (Suc j)
    then show ?thesis
      using d Cons.IH [OF d(2), of j] Cons.prems by (simp add: list_iterator_next_def x) auto
  qed
qed simp

lemma iterate_backward:
  assumes "dseg h None ns q" "i < length ns"
  shows "\<exists>it n. list_iterator_next h \<lparr>it_next = final None ns, it_direction = LIST_TAIL\<rparr> = Some (it, n) \<and>
    at_loop h i it n = Some (Some (fst (rev ns ! i)))"
  using assms
proof (induction ns arbitrary: q i rule: rev_induct)
  case (snoc x ns)
  obtain a v where x: "x = (a, v)" by (cases x)
  have d: "h a = Some \<lparr>nd_prev = final None ns, nd_next = q, nd_val = v\<rparr>" "dseg h None ns (Some a)"
    using snoc.prems by (simp_all add: x dseg_append)
  show ?case
  proof (cases i)
    case 0
    then show ?thesis using d by (simp add: list_iterator_next_def x)
  next
    case (Suc j)
    have "list_iterator_next h \<lparr>it_next = final None (ns @ [x]), it_direction = LIST_TAIL\<rparr> =
        Some (\<lparr>it_next = final None ns, it_direction = LIST_TAIL\<rparr>, Some a)"
      using d(1) by (simp add: list_iterator_next_def x)
    moreover obtain it n where
      "list_iterator_next h \<lparr>it_next = final None ns, it_direction = LIST_TAIL\<rparr> = Some (it, n)"
      "at_loop h j it n = Some (Some (fst (rev ns ! j)))"
      using snoc.IH [OF d(2), of j] snoc.prems Suc by auto
    ultimately show ?thesis using Suc by simp
  qed
qed simp

subsection \<open>Results\<close>

text \<open>
  C40. The list operations are operations on sequences. On a well-formed list no operation
  follows a dangling pointer: pushing a new node at either end, popping at either end, removing
  any member and destroying the list do to the sequence of nodes what their names say, leave a
  well-formed list, and free exactly the node removed, respectively every node of the list.
\<close>

theorem list_refines_sequence:
  assumes "list_rep h l ns" "Suc (length ns) < 2 ^ 32" "h a = Some nd" "a \<notin> fst ` set ns"
  shows "(\<exists>h' l'. list_rpush h l (Some a) = Some (h', l', Some a) \<and>
        list_rep h' l' (ns @ [(a, nd_val nd)])) \<and>
    (\<exists>h' l'. list_lpush h l (Some a) = Some (h', l', Some a) \<and>
        list_rep h' l' ((a, nd_val nd) # ns)) \<and>
    (\<exists>h' l'. list_rpop h l = Some (h', l', if ns = [] then None else Some (fst (List.last ns))) \<and>
        list_rep h' l' (butlast ns)) \<and>
    (\<exists>h' l'. list_lpop h l = Some (h', l', if ns = [] then None else Some (fst (hd ns))) \<and>
        list_rep h' l' (tl ns)) \<and>
    (\<forall>n\<in>set ns. \<exists>h' l'. list_remove h l (fst n) = Some (h', l', if lt_free l then [snd n] else []) \<and>
        list_rep h' l' (remove1 n ns) \<and> h' (fst n) = None \<and>
        (\<forall>b. b \<notin> fst ` set ns \<longrightarrow> h' b = h b)) \<and>
    list_destroy h l = Some (h |` (- fst ` set ns), if lt_free l then map snd ns else [])"
proof (intro conjI)
  show "\<exists>h' l'. list_rpush h l (Some a) = Some (h', l', Some a) \<and>
      list_rep h' l' (ns @ [(a, nd_val nd)])"
    using rpush_refines [OF assms(1,3,4,2)] by blast
  show "\<exists>h' l'. list_lpush h l (Some a) = Some (h', l', Some a) \<and>
      list_rep h' l' ((a, nd_val nd) # ns)"
    using lpush_refines [OF assms(1,3,4,2)] by blast
  show "\<exists>h' l'. list_rpop h l = Some (h', l', if ns = [] then None else Some (fst (List.last ns))) \<and>
      list_rep h' l' (butlast ns)"
  proof (cases ns rule: rev_cases)
    case Nil
    then show ?thesis using assms(1) list_rep_len [OF assms(1)] by (simp add: list_rpop_def)
  next
    case (snoc ms x)
    then show ?thesis using rpop_refines [of h l ms "fst x" "snd x"] assms(1) by auto
  qed
  show "\<exists>h' l'. list_lpop h l = Some (h', l', if ns = [] then None else Some (fst (hd ns))) \<and>
      list_rep h' l' (tl ns)"
  proof (cases ns)
    case Nil
    then show ?thesis using assms(1) list_rep_len [OF assms(1)] by (simp add: list_lpop_def)
  next
    case (Cons x ms)
    then show ?thesis using lpop_refines [of h l "fst x" "snd x" ms] assms(1) by auto
  qed
  show "\<forall>n\<in>set ns. \<exists>h' l'. list_remove h l (fst n) = Some (h', l', if lt_free l then [snd n] else []) \<and>
      list_rep h' l' (remove1 n ns) \<and> h' (fst n) = None \<and>
      (\<forall>b. b \<notin> fst ` set ns \<longrightarrow> h' b = h b)"
  proof
    fix n assume "n \<in> set ns"
    then obtain xs ys where ns: "ns = xs @ n # ys" "n \<notin> set xs" by (metis split_list_first)
    then have "remove1 n ns = xs @ ys" by (simp add: remove1_append)
    then show "\<exists>h' l'. list_remove h l (fst n) = Some (h', l', if lt_free l then [snd n] else []) \<and>
        list_rep h' l' (remove1 n ns) \<and> h' (fst n) = None \<and> (\<forall>b. b \<notin> fst ` set ns \<longrightarrow> h' b = h b)"
      using remove_refines [of h l xs "fst n" "snd n" ys] assms(1) ns(1) by auto
  qed
  show "list_destroy h l = Some (h |` (- fst ` set ns), if lt_free l then map snd ns else [])"
    using assms(1) destroy_loop_result [of h None ns None l] by (simp add: list_rep_def list_destroy_def)
qed

definition one_list :: "nat list_t" where
  "one_list = \<lparr>lt_head = Some 7, lt_tail = Some 7, lt_len = 1, lt_free = False, lt_match = None\<rparr>"

definition one_heap :: "nat heap" where
  "one_heap = [7 \<mapsto> \<lparr>nd_prev = None, nd_next = None, nd_val = 70\<rparr>,
     8 \<mapsto> \<lparr>nd_prev = None, nd_next = None, nd_val = 80\<rparr>]"

lemma one_list_rep: "list_rep one_heap one_list [(7, 70)]"
  by (simp add: list_rep_def one_list_def one_heap_def)

theorem list_refines_sequence_witness:
  "\<exists>h' l'. list_rpush one_heap one_list (Some 8) = Some (h', l', Some 8) \<and>
     list_rep h' l' [(7, 70), (8, 80)]"
proof -
  have "one_heap 8 = Some \<lparr>nd_prev = None, nd_next = None, nd_val = 80\<rparr>" by (simp add: one_heap_def)
  then show ?thesis using list_refines_sequence [OF one_list_rep, of 8] by simp
qed

text \<open>
  The searches of the list end and are right: \<^verbatim>\<open>list_find\<close> returns the first node whose value
  matches (by the list's own predicate, or equality), \<^verbatim>\<open>list_at\<close> the node at an index counted
  from the front or, for a negative index, from the back, and both return \<^verbatim>\<open>NULL\<close> when there is
  none.
\<close>

theorem list_search_correct:
  assumes "list_rep h l ns"
  shows "list_find True h l v = Some (map_option fst
      (find (\<lambda>n. (case lt_match l of Some m \<Rightarrow> m v (snd n) | None \<Rightarrow> v = snd n)) ns)) \<and>
    list_at True h l i = Some
      (if 0 \<le> i \<and> i < int (length ns) then Some (fst (ns ! nat i))
       else if i < 0 \<and> - i \<le> int (length ns) then Some (fst (rev ns ! nat (- i - 1)))
       else None)"
proof
  have d: "dseg h None ns None" and hd: "lt_head l = first ns None" and tl: "lt_tail l = final None ns"
    and len: "unat (lt_len l) = length ns"
    using assms by (simp_all add: list_rep_def)
  note new = list_iterator_new_def list_iterator_new_from_node_def
  show "list_find True h l v = Some (map_option fst
      (find (\<lambda>n. (case lt_match l of Some m \<Rightarrow> m v (snd n) | None \<Rightarrow> v = snd n)) ns))"
    using find_loop_result [OF d]
    by (cases "lt_match l") (simp_all add: list_find_def new hd)
  show "list_at True h l i = Some
      (if 0 \<le> i \<and> i < int (length ns) then Some (fst (ns ! nat i))
       else if i < 0 \<and> - i \<le> int (length ns) then Some (fst (rev ns ! nat (- i - 1)))
       else None)"
  proof (cases "i < 0")
    case True
    show ?thesis
    proof (cases "nat (- i - 1) < length ns")
      case c: True
      then show ?thesis
        using iterate_backward [OF d c] True by (auto simp: list_at_def new tl len)
    next
      case False
      then show ?thesis using True by (auto simp: list_at_def len)
    qed
  next
    case False
    show ?thesis
    proof (cases "nat i < length ns")
      case c: True
      then show ?thesis
        using iterate_forward [OF d c] False by (auto simp: list_at_def new hd len)
    next
      case f: False
      then show ?thesis using False by (auto simp: list_at_def len)
    qed
  qed
qed

theorem list_search_correct_witness:
  "list_find True one_heap one_list 70 = Some (Some 7) \<and> list_at True one_heap one_list (-1) = Some (Some 7)"
  using list_search_correct [OF one_list_rep, of 70 "-1"] by (simp add: one_list_def)

end
