(* ===== verification/Pfcp_Convert.thy ===== *)
theory Pfcp_Convert
  imports Session_Rules "HOL-Library.Monad_Syntax"
begin

text \<open>
  The conversion of PFCP information elements into rules (\<^verbatim>\<open>5gc/upf_c/n4_onvm_pfcp_handler.c\<close>). An
  element has a presence word, a length and a pointer to its octets; the code reads the octets without
  looking at the length, so the octets are a function of the position. The packed structs that are
  laid over them are written out as positions and bits, as a little-endian machine has them. A character array of a
  rule is the list of its characters, with the rest of the array null.
\<close>

subsection \<open>Octets\<close>

type_synonym octets = "nat \<Rightarrow> u8"

definition oct16 :: "octets \<Rightarrow> nat \<Rightarrow> u16" where
  "oct16 v i = ucast (v i) OR push_bit 8 (ucast (v (i + 1)))"

definition oct32 :: "octets \<Rightarrow> nat \<Rightarrow> u32" where
  "oct32 v i = ucast (v i) OR push_bit 8 (ucast (v (i + 1))) OR push_bit 16 (ucast (v (i + 2))) OR
     push_bit 24 (ucast (v (i + 3)))"

text \<open>The word in memory: octet \<open>i + k\<close> has the weight \<open>256 ^ k\<close>.\<close>

definition oct_word :: "nat \<Rightarrow> octets \<Rightarrow> nat \<Rightarrow> 'a::len word" where
  "oct_word n v i = fold (\<lambda>k w. w OR push_bit (8 * k) (ucast (v (i + k)))) [0..<n] 0"

definition be64toh :: "u64 \<Rightarrow> u64" where
  "be64toh x = oct_word 8 (\<lambda>k. ucast (drop_bit (8 * (7 - k)) x)) 0"

definition oct_chars :: "octets \<Rightarrow> nat \<Rightarrow> nat \<Rightarrow> string" where
  "oct_chars v i n = map (\<lambda>k. char_of (unat (v (i + k)))) [0..<n]"

text \<open>\<^verbatim>\<open>strncpy\<close> into an array: the copy stops at a null character and is padded; what follows is kept.\<close>

definition strncpy :: "string \<Rightarrow> string \<Rightarrow> nat \<Rightarrow> string" where
  "strncpy dst src n =
     (let s = takeWhile (\<lambda>c. c \<noteq> CHR 0x00) (take n src)
      in s @ replicate (n - length s) (CHR 0x00) @ drop n dst)"

record TlvOctet =
  tlv_presence :: u64
  tlv_len :: u16
  tlv_value :: octets

abbreviation present :: "TlvOctet \<Rightarrow> bool" where
  "present t \<equiv> tlv_presence t \<noteq> 0"

definition absent :: TlvOctet where
  "absent = \<lparr>tlv_presence = 0, tlv_len = 0, tlv_value = (\<lambda>_. 0)\<rparr>"

subsection \<open>Messages\<close>

record PDI =
  pi_presence :: u64
  pi_sourceInterface :: TlvOctet
  pi_localFTEID :: TlvOctet
  pi_uEIPAddress :: TlvOctet
  pi_sDFFilter :: TlvOctet

record CreatePDR =
  cp_presence :: u64
  cp_pDRID :: TlvOctet
  cp_precedence :: TlvOctet
  cp_pDI :: PDI
  cp_outerHeaderRemoval :: TlvOctet
  cp_fARID :: TlvOctet
  cp_uRRID :: "TlvOctet list"
  cp_qERID :: "TlvOctet list"

record UpdatePDR =
  up_presence :: u64
  up_pDRID :: TlvOctet
  up_outerHeaderRemoval :: TlvOctet
  up_precedence :: TlvOctet
  up_pDI :: PDI
  up_fARID :: TlvOctet
  up_uRRID :: "TlvOctet list"
  up_qERID :: TlvOctet

text \<open>The forwarding parameters of both FAR messages, as far as they are read.\<close>

record ForwardingParameters =
  fw_presence :: u64
  fw_destinationInterface :: TlvOctet
  fw_networkInstance :: TlvOctet
  fw_outerHeaderCreation :: TlvOctet
  fw_forwardingPolicy :: TlvOctet

record CreateFAR =
  cf_presence :: u64
  cf_fARID :: TlvOctet
  cf_applyAction :: TlvOctet
  cf_forwardingParameters :: ForwardingParameters

record UpdateFAR =
  uf_presence :: u64
  uf_fARID :: TlvOctet
  uf_applyAction :: TlvOctet
  uf_updateForwardingParameters :: ForwardingParameters

record QER_IEs =
  qi_presence :: u64
  qi_qERID :: TlvOctet
  qi_qERCorrelationID :: TlvOctet
  qi_gateStatus :: TlvOctet
  qi_maximumBitrate :: TlvOctet
  qi_guaranteedBitrate :: TlvOctet
  qi_packetRate :: TlvOctet
  qi_dLFlowLevelMarking :: TlvOctet
  qi_qoSFlowIdentifier :: TlvOctet
  qi_reflectiveQoS :: TlvOctet

text \<open>The two QER messages have the same elements.\<close>

type_synonym CreateQER = QER_IEs
type_synonym UpdateQER = QER_IEs

subsection \<open>Elements of a PDI\<close>

definition convert_fteid :: "octets \<Rightarrow> UPDK_FTEID \<Rightarrow> UPDK_FTEID" where
  "convert_fteid v t =
     (let v4 = bit (v 0) 0; v6 = bit (v 0) 1; chid = bit (v 0) 3;
          t = t \<lparr>fteid_v4 := v4, fteid_v6 := v6, fteid_ch := bit (v 0) 2, fteid_chid := chid,
                 fteid_teid := rte_be_to_cpu_32 (oct32 v 1)\<rparr>;
          addr6 = (if v4 \<and> v6 then 9 else 5);
          t = (if v4 then t \<lparr>fteid_ipv4 := oct32 v 5\<rparr> else t);
          t = (if v6 then t \<lparr>fteid_ipv6 := oct_word 16 v addr6\<rparr> else t)
      in if chid then t \<lparr>fteid_chooseId := v 5\<rparr> else t)"

definition convert_ueip :: "octets \<Rightarrow> UPDK_UEIPAddress \<Rightarrow> UPDK_UEIPAddress" where
  "convert_ueip v t =
     (let v6 = bit (v 0) 0; v4 = bit (v 0) 1; ipv6d = bit (v 0) 3;
          t = t \<lparr>ueip_v6 := v6, ueip_v4 := v4, ueip_sd := bit (v 0) 2, ueip_ipv6d := ipv6d\<rparr>;
          addr6 = (if v4 \<and> v6 then 5 else 1);
          t = (if v4 then t \<lparr>ueip_ipv4 := oct32 v 1\<rparr> else t);
          t = (if v6 then t \<lparr>ueip_ipv6 := oct_word 16 v addr6\<rparr> else t)
      in if ipv6d then t \<lparr>ueip_ipv6PrefixDelegationBit := v 21\<rparr> else t)"

abbreviation (input) FLOW_DESCRIPTION_SIZE :: nat where "FLOW_DESCRIPTION_SIZE \<equiv> 0x40"

text \<open>
  The loop over the fields of an SDF filter. The flags are tested in the same order in every round and never
  cleared. A flow description that is too long continues the loop where it was: \<open>None\<close> when the
  loop does not end.
\<close>

partial_function (option) sdf_fields :: "octets \<Rightarrow> nat \<Rightarrow> nat \<Rightarrow> UPDK_SDFFilter \<Rightarrow> UPDK_SDFFilter option" where
  "sdf_fields v len idx f =
     (if idx < len then
        if bit (v 0) 0 then
          (let n = rte_be_to_cpu_16 (oct16 v idx); f = f \<lparr>sdf_lenOfFlowDescription := n\<rparr> in
           if FLOW_DESCRIPTION_SIZE > unat n then
             sdf_fields v len (idx + 2 + unat n)
               (f \<lparr>sdf_flowDescription := strncpy (sdf_flowDescription f) (oct_chars v (idx + 2) (unat n)) (unat n)\<rparr>)
           else sdf_fields v len idx f)
        else if bit (v 0) 1 then
          sdf_fields v len (idx + 2) (f \<lparr>sdf_tosTrafficClass := rte_be_to_cpu_16 (oct16 v idx)\<rparr>)
        else if bit (v 0) 2 then
          sdf_fields v len (idx + 4) (f \<lparr>sdf_securityParameterIndex := rte_be_to_cpu_32 (oct32 v idx)\<rparr>)
        else if bit (v 0) 3 then
          sdf_fields v len (idx + 3) (f \<lparr>sdf_flowLabel := oct_chars v idx 3\<rparr>)
        else if bit (v 0) 4 then
          sdf_fields v len (idx + 4) (f \<lparr>sdf_sdfFilterId := rte_be_to_cpu_32 (oct32 v idx)\<rparr>)
        else sdf_fields v len (idx + 1) f
      else Some f)"

definition convert_sdf :: "TlvOctet \<Rightarrow> UPDK_SDFFilter \<Rightarrow> UPDK_SDFFilter option" where
  "convert_sdf t f =
     (let v = tlv_value t in
      sdf_fields v (unat (tlv_len t)) 2
        (f \<lparr>sdf_fd := bit (v 0) 0, sdf_ttc := bit (v 0) 1, sdf_spi := bit (v 0) 2, sdf_fl := bit (v 0) 3,
            sdf_bid := bit (v 0) 4\<rparr>))"

definition convert_pdi :: "PDI \<Rightarrow> UPDK_PDI \<Rightarrow> UPDK_PDI option" where
  "convert_pdi p u =
     (let u = (if present (pi_sourceInterface p)
               then u \<lparr>pdi_flags := (pdi_flags u) \<lparr>pdif_sourceInterface := True\<rparr>,
                       pdi_sourceInterface := tlv_value (pi_sourceInterface p) 0\<rparr> else u);
          u = (if present (pi_localFTEID p)
               then u \<lparr>pdi_flags := (pdi_flags u) \<lparr>pdif_fTeid := True\<rparr>,
                       pdi_fTeid := convert_fteid (tlv_value (pi_localFTEID p)) (pdi_fTeid u)\<rparr> else u);
          u = (if present (pi_uEIPAddress p)
               then u \<lparr>pdi_flags := (pdi_flags u) \<lparr>pdif_ueIpAddress := True\<rparr>,
                       pdi_ueIpAddress := convert_ueip (tlv_value (pi_uEIPAddress p)) (pdi_ueIpAddress u)\<rparr> else u)
      in if present (pi_sDFFilter p)
         then do {
           f \<leftarrow> convert_sdf (pi_sDFFilter p) (pdi_sdfFilter u);
           Some (u \<lparr>pdi_flags := (pdi_flags u) \<lparr>pdif_sdfFilter := True\<rparr>, pdi_sdfFilter := f\<rparr>)
         }
         else Some u)"

subsection \<open>PDRs\<close>

definition set_urr_ids :: "TlvOctet list \<Rightarrow> UPDK_PDR \<Rightarrow> UPDK_PDR" where
  "set_urr_ids ts pdr =
     fold (\<lambda>i pdr. if present (ts ! i)
             then pdr \<lparr>pdr_flags := (pdr_flags pdr) \<lparr>pdrf_urrId := True\<rparr>,
                       pdr_urrId := (pdr_urrId pdr)[i := rte_be_to_cpu_32 (oct32 (tlv_value (ts ! i)) 0)]\<rparr>
             else pdr) [0..<4] pdr"

definition set_qer_ids :: "TlvOctet list \<Rightarrow> UPDK_PDR \<Rightarrow> UPDK_PDR" where
  "set_qer_ids ts pdr =
     fold (\<lambda>i pdr. if present (ts ! i)
             then pdr \<lparr>pdr_flags := (pdr_flags pdr) \<lparr>pdrf_qerId := True\<rparr>,
                       pdr_qerId := (pdr_qerId pdr)[i := rte_be_to_cpu_32 (oct32 (tlv_value (ts ! i)) 0)]\<rparr>
             else pdr) [0..<2] pdr"

text \<open>The elements the two PDR messages have in common, up to the PDI and after it.\<close>

definition set_pdr_head :: "TlvOctet \<Rightarrow> TlvOctet \<Rightarrow> UPDK_PDR \<Rightarrow> UPDK_PDR" where
  "set_pdr_head pid prec pdr =
     (let pdr = (if present pid
                 then pdr \<lparr>pdr_flags := (pdr_flags pdr) \<lparr>pdrf_pdrId := True\<rparr>,
                           pdr_pdrId := rte_be_to_cpu_16 (oct16 (tlv_value pid) 0)\<rparr> else pdr)
      in if present prec
         then pdr \<lparr>pdr_flags := (pdr_flags pdr) \<lparr>pdrf_precedence := True\<rparr>,
                   pdr_precedence := rte_be_to_cpu_32 (oct32 (tlv_value prec) 0)\<rparr> else pdr)"

definition set_pdr_pdi :: "PDI \<Rightarrow> UPDK_PDR \<Rightarrow> UPDK_PDR option" where
  "set_pdr_pdi p pdr =
     (if pi_presence p = 0 then Some pdr
      else do {
        u \<leftarrow> convert_pdi p (pdr_pdi pdr);
        Some (pdr \<lparr>pdr_flags := (pdr_flags pdr) \<lparr>pdrf_pdi := True\<rparr>, pdr_pdi := u\<rparr>)
      })"

definition set_pdr_tail :: "TlvOctet \<Rightarrow> TlvOctet \<Rightarrow> TlvOctet list \<Rightarrow> UPDK_PDR \<Rightarrow> UPDK_PDR" where
  "set_pdr_tail ohr far urrs pdr =
     (let pdr = (if present ohr
                 then pdr \<lparr>pdr_flags := (pdr_flags pdr) \<lparr>pdrf_outerHeaderRemoval := True\<rparr>,
                           pdr_outerHeaderRemoval := tlv_value ohr 0\<rparr> else pdr);
          pdr = (if present far
                 then pdr \<lparr>pdr_flags := (pdr_flags pdr) \<lparr>pdrf_farId := True\<rparr>,
                           pdr_farId := rte_be_to_cpu_32 (oct32 (tlv_value far) 0)\<rparr> else pdr)
      in set_urr_ids urrs pdr)"

definition ConvertCreatePDRTlvToRule :: "UPDK_PDR \<Rightarrow> CreatePDR \<Rightarrow> UPDK_PDR option" where
  "ConvertCreatePDRTlvToRule pdr c =
     do {
       pdr \<leftarrow> set_pdr_pdi (cp_pDI c) (set_pdr_head (cp_pDRID c) (cp_precedence c) pdr);
       Some (set_qer_ids (cp_qERID c) (set_pdr_tail (cp_outerHeaderRemoval c) (cp_fARID c) (cp_uRRID c) pdr))
     }"

text \<open>An update adds a QER to a PDR that has room for it.\<close>

definition add_qer_id :: "TlvOctet \<Rightarrow> UPDK_PDR \<Rightarrow> UPDK_PDR" where
  "add_qer_id t pdr =
     (if \<not> present t then pdr
      else
        let pdr = pdr \<lparr>pdr_flags := (pdr_flags pdr) \<lparr>pdrf_qerId := True\<rparr>\<rparr>;
            new_id = rte_be_to_cpu_32 (oct32 (tlv_value t) 0);
            ids = pdr_qerId pdr
        in if ids ! 0 = new_id \<or> ids ! 1 = new_id then pdr
           else if ids ! 0 = 0 then pdr \<lparr>pdr_qerId := ids[0 := new_id]\<rparr>
           else if ids ! 1 = 0 then pdr \<lparr>pdr_qerId := ids[1 := new_id]\<rparr>
           else pdr)"

definition ConvertUpdatePDRTlvToRule :: "UPDK_PDR \<Rightarrow> UpdatePDR \<Rightarrow> UPDK_PDR option" where
  "ConvertUpdatePDRTlvToRule pdr c =
     do {
       pdr \<leftarrow> set_pdr_pdi (up_pDI c) (set_pdr_head (up_pDRID c) (up_precedence c) pdr);
       Some (add_qer_id (up_qERID c) (set_pdr_tail (up_outerHeaderRemoval c) (up_fARID c) (up_uRRID c) pdr))
     }"

text \<open>The QER whose QoS flow identifier goes into the tunnel header.\<close>

definition UpfPdrSelectQfiQer :: "('q \<Rightarrow> UPDK_QER) \<Rightarrow> 'q option list \<Rightarrow> u8 \<Rightarrow> 'q option" where
  "UpfPdrSelectQfiQer deref qers count =
     (case find (\<lambda>q. case q of None \<Rightarrow> False | Some p \<Rightarrow> qerf_qosFlowIdentifier (qer_flags (deref p)))
             (take (min (unat count) 2) qers) of
        Some q \<Rightarrow> q
      | None \<Rightarrow> if count > 0 then qers ! 0 else None)"


subsection \<open>FARs\<close>

text \<open>
  The header structure has the address union of 20 octets in every case, and a port of one octet after it.
\<close>

definition convert_outer_header :: "octets \<Rightarrow> UPDK_OuterHeaderCreation \<Rightarrow> UPDK_OuterHeaderCreation" where
  "convert_outer_header v h =
     (let gtpu4 = bit (v 0) 0; gtpu6 = bit (v 0) 1; udp4 = bit (v 0) 2; udp6 = bit (v 0) 3;
          port = rte_be_to_cpu_16 (ucast (v 26));
          h = h \<lparr>ohc_description := ucast (v 0)\<rparr>;
          h = (if gtpu4 \<or> gtpu6 then h \<lparr>ohc_teid := rte_be_to_cpu_32 (oct32 v 2)\<rparr> else h);
          h = (if udp4 \<or> gtpu4
               then let h = h \<lparr>ohc_ipv4 := oct32 v 6\<rparr> in if \<not> gtpu4 then h \<lparr>ohc_port := port\<rparr> else h
               else h)
      in if udp6 \<or> gtpu6
         then let h = h \<lparr>ohc_ipv6 := oct_word 16 v 6\<rparr> in if \<not> gtpu6 then h \<lparr>ohc_port := port\<rparr> else h
         else h)"

text \<open>An identifier of 64 octets or more is refused with its length already stored.\<close>

definition convert_policy :: "octets \<Rightarrow> UPDK_ForwardingPolicy \<Rightarrow> UPDK_ForwardingPolicy \<times> Status" where
  "convert_policy v pol =
     (let n = unat (v 0); pol = pol \<lparr>forwardingPolicyIdentifierLength := v 0\<rparr> in
      if n \<ge> 0x40 then (pol, STATUS_ERROR)
      else (pol \<lparr>forwardingPolicyIdentifier :=
              oct_chars v 1 n @ [CHR 0x00] @ drop (n + 1) (forwardingPolicyIdentifier pol)\<rparr>, STATUS_OK))"

definition convert_network_instance ::
  "TlvOctet \<Rightarrow> UPDK_ForwardingParameters \<Rightarrow> UPDK_ForwardingParameters \<times> Status" where
  "convert_network_instance t f =
     (if \<not> present t then (f, STATUS_OK)
      else
        let f = f \<lparr>fp_flags := (fp_flags f) \<lparr>fpf_networkInstance := True\<rparr>\<rparr>; n = unat (tlv_len t) in
        if n \<ge> 0x40 then (f, STATUS_ERROR)
        else (f \<lparr>fp_networkInstance := strncpy (fp_networkInstance f) (oct_chars (tlv_value t) 0 n) n\<rparr>, STATUS_OK))"

text \<open>An early return leaves the elements converted so far in the rule.\<close>

definition convert_forwarding ::
  "ForwardingParameters \<Rightarrow> UPDK_ForwardingParameters \<Rightarrow> UPDK_ForwardingParameters \<times> Status" where
  "convert_forwarding p f =
     (let f = (if present (fw_destinationInterface p)
               then f \<lparr>fp_flags := (fp_flags f) \<lparr>fpf_destinationInterface := True\<rparr>,
                       fp_destinationInterface := tlv_value (fw_destinationInterface p) 0\<rparr> else f)
      in case convert_network_instance (fw_networkInstance p) f of
           (f, STATUS_OK) \<Rightarrow>
             (let f = (if present (fw_outerHeaderCreation p)
                       then f \<lparr>fp_flags := (fp_flags f) \<lparr>fpf_outerHeaderCreation := True\<rparr>,
                               fp_outerHeaderCreation := convert_outer_header
                                 (tlv_value (fw_outerHeaderCreation p)) (fp_outerHeaderCreation f)\<rparr> else f)
              in if \<not> present (fw_forwardingPolicy p) then (f, STATUS_OK)
                 else case convert_policy (tlv_value (fw_forwardingPolicy p)) (fp_forwardingPolicy f) of
                        (pol, status) \<Rightarrow>
                          (f \<lparr>fp_flags := (fp_flags f) \<lparr>fpf_forwardingPolicy := True\<rparr>, fp_forwardingPolicy := pol\<rparr>,
                           status))
         | (f, status) \<Rightarrow> (f, status))"

definition convert_far ::
  "TlvOctet \<Rightarrow> TlvOctet \<Rightarrow> ForwardingParameters \<Rightarrow> UPDK_FAR \<Rightarrow> UPDK_FAR \<times> Status" where
  "convert_far fid act p far =
     (let far = (if present fid
                 then far \<lparr>far_flags := (far_flags far) \<lparr>farf_farId := True\<rparr>,
                           far_farId := rte_be_to_cpu_32 (oct32 (tlv_value fid) 0)\<rparr> else far);
          far = (if present act
                 then far \<lparr>far_flags := (far_flags far) \<lparr>farf_applyAction := True\<rparr>,
                           far_applyAction := tlv_value act 0\<rparr> else far)
      in if fw_presence p = 0 then (far, STATUS_OK)
         else case convert_forwarding p (far_forwardingParameters far) of
                (f, status) \<Rightarrow>
                  (far \<lparr>far_flags := (far_flags far) \<lparr>farf_forwardingParameters := True\<rparr>,
                        far_forwardingParameters := f\<rparr>, status))"

definition ConvertCreateFARTlvToRule :: "UPDK_FAR \<Rightarrow> CreateFAR \<Rightarrow> UPDK_FAR \<times> Status" where
  "ConvertCreateFARTlvToRule far c =
     convert_far (cf_fARID c) (cf_applyAction c) (cf_forwardingParameters c) far"

definition ConvertUpdateFARTlvToRule :: "UPDK_FAR \<Rightarrow> UpdateFAR \<Rightarrow> UPDK_FAR \<times> Status" where
  "ConvertUpdateFARTlvToRule far c =
     convert_far (uf_fARID c) (uf_applyAction c) (uf_updateForwardingParameters c) far"

subsection \<open>QERs\<close>

text \<open>Five octets copied to the end of a cleared 64-bit integer, then byte-swapped.\<close>

definition Pfcp5ByteBitRateToHost :: "octets \<Rightarrow> nat \<Rightarrow> u64" where
  "Pfcp5ByteBitRateToHost v i = be64toh (oct_word 8 (\<lambda>k. if k < 3 then 0 else v (i + (k - 3))) 0)"

definition convert_bitrate :: "octets \<Rightarrow> UPDK_Bitrate" where
  "convert_bitrate v = \<lparr>rate_ul = Pfcp5ByteBitRateToHost v 0, rate_dl = Pfcp5ByteBitRateToHost v 5\<rparr>"

definition convert_packet_rate :: "octets \<Rightarrow> UPDK_PacketRate \<Rightarrow> UPDK_PacketRate" where
  "convert_packet_rate v r =
     (let ul = bit (v 0) 0; dl = bit (v 0) 1;
          r = r \<lparr>prate_ulpr := ul, prate_dlpr := dl\<rparr>;
          r = (if ul then r \<lparr>uplinkTimeUnit := v 1 AND 0xF,
                            maximumUplinkPacketRate := rte_be_to_cpu_16 (oct16 v 2)\<rparr> else r);
          i = (if ul then 4 else 1)
      in if dl then r \<lparr>downlinkTimeUnit := v i AND 0xF,
                       maximumDownlinkPacketRate := rte_be_to_cpu_16 (oct16 v (i + 1))\<rparr> else r)"

text \<open>Both values are taken as they are in memory.\<close>

definition convert_marking :: "octets \<Rightarrow> UPDK_DLFlowLevelMarking \<Rightarrow> UPDK_DLFlowLevelMarking" where
  "convert_marking v r =
     (let ttc = bit (v 0) 0; sci = bit (v 0) 1;
          r = r \<lparr>mark_ttc := ttc, mark_sci := sci\<rparr>;
          r = (if ttc then r \<lparr>mark_tosTrafficClass := oct16 v 1\<rparr> else r)
      in if sci then r \<lparr>serviceClassIndicator := oct16 v (if ttc then 3 else 1)\<rparr> else r)"

definition convert_qer_ids :: "QER_IEs \<Rightarrow> UPDK_QER \<Rightarrow> UPDK_QER" where
  "convert_qer_ids c q =
     (let q = (if present (qi_qERID c)
               then q \<lparr>qer_flags := (qer_flags q) \<lparr>qerf_qerId := True\<rparr>,
                       qer_qerId := rte_be_to_cpu_32 (oct32 (tlv_value (qi_qERID c)) 0)\<rparr> else q);
          q = (if present (qi_qERCorrelationID c)
               then q \<lparr>qer_flags := (qer_flags q) \<lparr>qerf_qerCorrelationId := True\<rparr>,
                       qer_qerCorrelationId := rte_be_to_cpu_32 (oct32 (tlv_value (qi_qERCorrelationID c)) 0)\<rparr> else q)
      in if present (qi_gateStatus c)
         then q \<lparr>qer_flags := (qer_flags q) \<lparr>qerf_gateStatus := True\<rparr>,
                 qer_gateStatus := tlv_value (qi_gateStatus c) 0\<rparr> else q)"

definition convert_qer_rates :: "QER_IEs \<Rightarrow> UPDK_QER \<Rightarrow> UPDK_QER" where
  "convert_qer_rates c q =
     (let q = (if present (qi_maximumBitrate c)
               then q \<lparr>qer_flags := (qer_flags q) \<lparr>qerf_maximumBitrate := True\<rparr>,
                       qer_maximumBitrate := convert_bitrate (tlv_value (qi_maximumBitrate c))\<rparr> else q);
          q = (if present (qi_guaranteedBitrate c)
               then q \<lparr>qer_flags := (qer_flags q) \<lparr>qerf_guaranteedBitrate := True\<rparr>,
                       qer_guaranteedBitrate := convert_bitrate (tlv_value (qi_guaranteedBitrate c))\<rparr> else q);
          q = (if present (qi_packetRate c)
               then q \<lparr>qer_flags := (qer_flags q) \<lparr>qerf_packetRate := True\<rparr>,
                       qer_packetRate := convert_packet_rate (tlv_value (qi_packetRate c)) (qer_packetRate q)\<rparr> else q)
      in if present (qi_dLFlowLevelMarking c)
         then q \<lparr>qer_flags := (qer_flags q) \<lparr>qerf_dlFlowLevelMarking := True\<rparr>,
                 qer_dlFlowLevelMarking := convert_marking (tlv_value (qi_dLFlowLevelMarking c)) (qer_dlFlowLevelMarking q)\<rparr>
         else q)"

definition convert_qer_flow :: "QER_IEs \<Rightarrow> UPDK_QER \<Rightarrow> UPDK_QER" where
  "convert_qer_flow c q =
     (let q = (if present (qi_qoSFlowIdentifier c)
               then q \<lparr>qer_flags := (qer_flags q) \<lparr>qerf_qosFlowIdentifier := True\<rparr>,
                       qer_qosFlowIdentifier := tlv_value (qi_qoSFlowIdentifier c) 0\<rparr> else q)
      in if present (qi_reflectiveQoS c)
         then q \<lparr>qer_flags := (qer_flags q) \<lparr>qerf_reflectiveQos := True\<rparr>,
                 qer_reflectiveQos := tlv_value (qi_reflectiveQoS c) 0\<rparr> else q)"

definition ConvertCreateQERTlvToRule :: "UPDK_QER \<Rightarrow> CreateQER \<Rightarrow> UPDK_QER" where
  "ConvertCreateQERTlvToRule q c = convert_qer_flow c (convert_qer_rates c (convert_qer_ids c q))"

definition ConvertUpdateQERTlvToRule :: "UPDK_QER \<Rightarrow> UpdateQER \<Rightarrow> UPDK_QER" where
  "ConvertUpdateQERTlvToRule q c = convert_qer_flow c (convert_qer_rates c (convert_qer_ids c q))"


subsection \<open>Octets and bits\<close>

lemma bit_oct_word:
  "bit (oct_word n v i :: 'a::len word) j \<longleftrightarrow> j < LENGTH('a) \<and> j div 8 < n \<and> bit (v (i + j div 8)) (j mod 8)"
proof (induction n)
  case (Suc n)
  have "bit (push_bit (8 * n) (ucast (v (i + n)) :: 'a word)) j \<longleftrightarrow>
      j < LENGTH('a) \<and> j div 8 = n \<and> bit (v (i + n)) (j mod 8)"
  proof (cases "8 * n \<le> j \<and> j < 8 * n + 8")
    case True
    then have d: "j div 8 = n" by (intro div_nat_eqI) auto
    then have "j mod 8 = j - 8 * n" using mult_div_mod_eq [of 8 j] by simp
    then show ?thesis using True d
      by (auto simp: bit_push_bit_iff bit_ucast_iff dest: bit_imp_le_length)
  next
    case False
    then have "j div 8 \<noteq> n" by auto
    moreover have "\<not> bit (push_bit (8 * n) (ucast (v (i + n)) :: 'a word)) j"
      using False by (auto simp: bit_push_bit_iff bit_ucast_iff dest: bit_imp_le_length)
    ultimately show ?thesis by simp
  qed
  then show ?case
    using Suc by (auto simp: oct_word_def bit_or_iff less_Suc_eq)
qed (simp add: oct_word_def)

lemma bit_be64toh: "bit (be64toh x) j \<longleftrightarrow> j < 64 \<and> bit x (8 * (7 - j div 8) + j mod 8)"
proof (cases "j < 64")
  case True
  then have "j div 8 < 8" by simp
  then show ?thesis
    using True by (auto simp: be64toh_def bit_oct_word bit_ucast_iff bit_drop_bit_eq)
qed (auto dest: bit_imp_le_length)

lemma bit_rate:
  "bit (Pfcp5ByteBitRateToHost v i) j \<longleftrightarrow> j < 40 \<and> bit (v (i + (4 - j div 8))) (j mod 8)"
proof (cases "j < 64")
  case True
  have d: "(8 * (7 - j div 8) + j mod 8) div 8 = 7 - j div 8" "(8 * (7 - j div 8) + j mod 8) mod 8 = j mod 8"
    by simp_all
  have k: "7 - j div 8 < 3 \<longleftrightarrow> \<not> j < 40" using True by auto
  have lt: "8 * (7 - j div 8) + j mod 8 < 64" "7 - j div 8 < 8" "7 - j div 8 - 3 = 4 - j div 8"
    using mod_less_divisor [of 8 j] by linarith+
  have "bit (Pfcp5ByteBitRateToHost v i) j \<longleftrightarrow> \<not> 7 - j div 8 < 3 \<and> bit (v (i + (7 - j div 8 - 3))) (j mod 8)"
    unfolding Pfcp5ByteBitRateToHost_def bit_be64toh bit_oct_word d using True lt(1,2) by simp
  then show ?thesis unfolding k lt(3) by simp
next
  case False
  then show ?thesis by (auto dest: bit_imp_le_length)
qed

text \<open>An integer in network byte order.\<close>

definition be_octets :: "nat \<Rightarrow> 'a::len word \<Rightarrow> octets" where
  "be_octets n x = (\<lambda>k. ucast (drop_bit (8 * (n - 1 - k)) x))"

lemma rate_of_octets:
  assumes "r < 2 ^ 40" "\<And>k. k < 5 \<Longrightarrow> v (i + k) = be_octets 5 (r :: u64) k"
  shows "Pfcp5ByteBitRateToHost v i = r"
proof (rule bit_eqI)
  fix j
  have "unat (take_bit 40 r) = unat r"
    using assms(1) by (simp add: unsigned_take_bit_eq take_bit_nat_eq_self word_less_nat_alt)
  then have "take_bit 40 r = r" by (simp only: unsigned_word_eqI)
  then have small: "j < 40" if "bit r j" using that by (metis bit_take_bit_iff)
  show "bit (Pfcp5ByteBitRateToHost v i) j \<longleftrightarrow> bit r j"
  proof (cases "j < 40")
    case True
    then have "j div 8 < 5" by simp
    then show ?thesis
      using True assms(2) [of "4 - j div 8"]
      by (simp add: bit_rate be_octets_def bit_ucast_iff bit_drop_bit_eq)
  qed (use small in \<open>auto simp: bit_rate\<close>)
qed


text \<open>A QER as the control plane encodes it.\<close>

definition ie :: "u16 \<Rightarrow> octets \<Rightarrow> TlvOctet" where
  "ie n v = \<lparr>tlv_presence = 1, tlv_len = n, tlv_value = v\<rparr>"

definition rate_octets :: "UPDK_Bitrate \<Rightarrow> octets" where
  "rate_octets r = (\<lambda>k. if k < 5 then be_octets 5 (rate_ul r) k else be_octets 5 (rate_dl r) (k - 5))"

definition encode_qer :: "u32 \<Rightarrow> u8 \<Rightarrow> UPDK_Bitrate \<Rightarrow> UPDK_Bitrate option \<Rightarrow> u8 \<Rightarrow> QER_IEs" where
  "encode_qer qid gate mbr gbr qfi =
     \<lparr>qi_presence = 1, qi_qERID = ie 4 (be_octets 4 qid), qi_qERCorrelationID = absent,
      qi_gateStatus = ie 1 (\<lambda>_. gate), qi_maximumBitrate = ie 10 (rate_octets mbr),
      qi_guaranteedBitrate = (case gbr of None \<Rightarrow> absent | Some r \<Rightarrow> ie 10 (rate_octets r)),
      qi_packetRate = absent, qi_dLFlowLevelMarking = absent, qi_qoSFlowIdentifier = ie 1 (\<lambda>_. qfi),
      qi_reflectiveQoS = absent\<rparr>"

text \<open>Rates a PFCP message can carry.\<close>

definition rate_ok :: "UPDK_Bitrate \<Rightarrow> bool" where
  "rate_ok r \<longleftrightarrow> rate_ul r < 2 ^ 40 \<and> rate_dl r < 2 ^ 40"

lemma bitrate_roundtrip: "rate_ok r \<Longrightarrow> convert_bitrate (rate_octets r) = r"
  using rate_of_octets [of "rate_ul r" "rate_octets r" 0] rate_of_octets [of "rate_dl r" "rate_octets r" 5]
  by (simp add: convert_bitrate_def rate_ok_def rate_octets_def)

lemma oct32_be: "rte_be_to_cpu_32 (oct32 (be_octets 4 (x :: u32)) 0) = x"
proof (rule bit_eqI)
  fix j :: nat
  assume j: "possible_bit TYPE(u32) j"
  then have "j < 32" by simp
  then have "j \<in> set [0..<32]" by simp
  then show "bit (rte_be_to_cpu_32 (oct32 (be_octets 4 x) 0)) j = bit x j"
    by (simp add: bit_rte_bswap32 oct32_def be_octets_def bit_or_iff bit_push_bit_iff bit_ucast_iff bit_drop_bit_eq
        upt_rec) (elim disjE; simp)
qed


text \<open>
  C34. What the control plane encodes is what is installed. Converting a Create QER message gives a rule with the
  identifier, the gate, the QoS flow and both pairs of rates of the message, whatever the rates are up to the 40
  bits of the format, with exactly the flags of the elements that are present and everything else zero; an Update QER
  message with the same elements changes only these fields.
\<close>

theorem qer_roundtrip:
  assumes "rate_ok mbr" "\<And>r. gbr = Some r \<Longrightarrow> rate_ok r"
  shows "ConvertCreateQERTlvToRule zero_qer (encode_qer qid gate mbr gbr qfi) =
      zero_qer \<lparr>qer_flags := (qer_flags zero_qer) \<lparr>qerf_qerId := True, qerf_gateStatus := True,
          qerf_maximumBitrate := True, qerf_guaranteedBitrate := (gbr \<noteq> None), qerf_qosFlowIdentifier := True\<rparr>,
        qer_qerId := qid, qer_gateStatus := gate, qer_maximumBitrate := mbr,
        qer_guaranteedBitrate := (case gbr of None \<Rightarrow> \<lparr>rate_ul = 0, rate_dl = 0\<rparr> | Some r \<Rightarrow> r),
        qer_qosFlowIdentifier := qfi\<rparr> \<and>
    (let q' = ConvertUpdateQERTlvToRule q (encode_qer qid gate mbr gbr qfi) in
     qer_maximumBitrate q' = mbr \<and> qer_gateStatus q' = gate \<and>
     qer_guaranteedBitrate q' = (case gbr of None \<Rightarrow> qer_guaranteedBitrate q | Some r \<Rightarrow> r) \<and>
     qer_packetRate q' = qer_packetRate q \<and> qer_dlFlowLevelMarking q' = qer_dlFlowLevelMarking q \<and>
     qer_qerCorrelationId q' = qer_qerCorrelationId q \<and> qer_reflectiveQos q' = qer_reflectiveQos q)"
proof -
  note defs = encode_qer_def ie_def absent_def convert_qer_ids_def convert_qer_rates_def convert_qer_flow_def
    Let_def oct32_be bitrate_roundtrip [OF assms(1)]
  show ?thesis
  proof (cases gbr)
    case None
    then show ?thesis
      by (simp add: ConvertCreateQERTlvToRule_def ConvertUpdateQERTlvToRule_def defs) (simp add: zero_qer_def)
  next
    case (Some r)
    then show ?thesis
      using bitrate_roundtrip [OF assms(2)]
      by (simp add: ConvertCreateQERTlvToRule_def ConvertUpdateQERTlvToRule_def defs)
  qed
qed

theorem qer_roundtrip_witness:
  "rate_dl (qer_maximumBitrate (ConvertCreateQERTlvToRule zero_qer
      (encode_qer 1 0 \<lparr>rate_ul = 1000, rate_dl = 2000000000\<rparr> None 9))) = 2000000000"
proof -
  have "rate_ok \<lparr>rate_ul = 1000, rate_dl = 2000000000\<rparr>" by (simp add: rate_ok_def)
  from qer_roundtrip [OF this, of None] show ?thesis by simp
qed

subsection \<open>What the conversion of an SDF filter computes, and when it ends\<close>

text \<open>The loop meets a flow description that does not fit.\<close>

function sdf_stuck :: "octets \<Rightarrow> nat \<Rightarrow> nat \<Rightarrow> bool" where
  "sdf_stuck v len idx =
     (if idx < len \<and> bit (v 0) 0
      then FLOW_DESCRIPTION_SIZE \<le> unat (rte_be_to_cpu_16 (oct16 v idx)) \<or>
        sdf_stuck v len (idx + 2 + unat (rte_be_to_cpu_16 (oct16 v idx)))
      else False)"
  by pat_completeness auto
termination by (relation "measure (\<lambda>(v, len, idx). len - idx)") auto

declare sdf_stuck.simps [simp del]

lemma sdf_returns_not_stuck: "sdf_fields v len idx f = Some r \<Longrightarrow> \<not> sdf_stuck v len idx"
proof (rule sdf_fields.raw_induct [of "\<lambda>v len idx f r. \<not> sdf_stuck v len idx"])
  fix g v len idx f r
  assume IH: "\<And>v len idx f r. g v len idx f = Some r \<Longrightarrow> \<not> sdf_stuck v len idx"
    and step: "(if idx < len then
        if bit (v 0) 0 then
          (let n = rte_be_to_cpu_16 (oct16 v idx); f = f \<lparr>sdf_lenOfFlowDescription := n\<rparr> in
           if FLOW_DESCRIPTION_SIZE > unat n then
             g v len (idx + 2 + unat n)
               (f \<lparr>sdf_flowDescription := strncpy (sdf_flowDescription f) (oct_chars v (idx + 2) (unat n)) (unat n)\<rparr>)
           else g v len idx f)
        else if bit (v 0) 1 then
          g v len (idx + 2) (f \<lparr>sdf_tosTrafficClass := rte_be_to_cpu_16 (oct16 v idx)\<rparr>)
        else if bit (v 0) 2 then
          g v len (idx + 4) (f \<lparr>sdf_securityParameterIndex := rte_be_to_cpu_32 (oct32 v idx)\<rparr>)
        else if bit (v 0) 3 then
          g v len (idx + 3) (f \<lparr>sdf_flowLabel := oct_chars v idx 3\<rparr>)
        else if bit (v 0) 4 then
          g v len (idx + 4) (f \<lparr>sdf_sdfFilterId := rte_be_to_cpu_32 (oct32 v idx)\<rparr>)
        else g v len (idx + 1) f
      else Some f) = Some r"
  show "\<not> sdf_stuck v len idx"
  proof (cases "idx < len \<and> bit (v 0) 0")
    case True
    let ?n = "unat (rte_be_to_cpu_16 (oct16 v idx))"
    show ?thesis
    proof (cases "?n < FLOW_DESCRIPTION_SIZE")
      case n: True
      then have "\<not> sdf_stuck v len (idx + 2 + ?n)" using step True IH by (simp add: Let_def)
      then show ?thesis using n by (subst sdf_stuck.simps) simp
    next
      case False
      then show ?thesis using step True IH by (simp add: Let_def)
    qed
  qed (subst sdf_stuck.simps, auto)
qed

lemma sdf_not_stuck_returns: "\<not> sdf_stuck v len idx \<Longrightarrow> \<exists>r. sdf_fields v len idx f = Some r"
proof (induction "len - idx" arbitrary: idx f rule: less_induct)
  case less
  show ?case
  proof (cases "idx < len")
    case True
    have IH: "\<exists>r. sdf_fields v len (idx + k) g = Some r"
      if "0 < k" "\<not> sdf_stuck v len (idx + k)" for k g
      using less.hyps [of "idx + k" g] that True by simp
    have plain: "\<not> sdf_stuck v len i" if "\<not> bit (v 0) 0" for i using that by (subst sdf_stuck.simps) simp
    show ?thesis
    proof (cases "bit (v 0) 0")
      case fd: True
      let ?n = "unat (rte_be_to_cpu_16 (oct16 v idx))"
      have "?n < FLOW_DESCRIPTION_SIZE" "\<not> sdf_stuck v len (idx + (2 + ?n))"
        using less.prems True fd by (subst (asm) sdf_stuck.simps; simp)+
      then show ?thesis
        using True fd IH [of "2 + ?n"] by (subst sdf_fields.simps) (simp add: Let_def add.assoc)
    next
      case False
      then show ?thesis
        using True IH [of 1] IH [of 2] IH [of 3] IH [of 4] plain by (subst sdf_fields.simps) (simp add: Let_def)
    qed
  qed (subst sdf_fields.simps, simp)
qed


lemma sdf_fields_none: "sdf_fields v len idx f = None \<longleftrightarrow> sdf_stuck v len idx"
  using sdf_returns_not_stuck [of v len idx f] sdf_not_stuck_returns [of v len idx f] by fastforce

lemma sdf_end: "len \<le> idx \<Longrightarrow> sdf_fields v len idx f = Some f"
  by (subst sdf_fields.simps) simp

text \<open>
  The reference. With the flow description flag the whole element is read as a sequence of
  descriptions, each a length of two octets and its text: \<^verbatim>\<open>desc_offsets\<close> are the places where one
  starts. Without it the element is read as an array of fields of the first kind whose flag is set,
  and the last one counts.
\<close>

abbreviation desc_length :: "octets \<Rightarrow> nat \<Rightarrow> nat" where
  "desc_length v i \<equiv> unat (rte_be_to_cpu_16 (oct16 v i))"

function desc_offsets :: "octets \<Rightarrow> nat \<Rightarrow> nat \<Rightarrow> nat list" where
  "desc_offsets v len idx =
     (if idx < len then idx # desc_offsets v len (idx + 2 + desc_length v idx) else [])"
  by pat_completeness auto
termination by (relation "measure (\<lambda>(v, len, idx). len - idx)") auto

declare desc_offsets.simps [simp del]

lemma desc_offsets_end [simp]: "len \<le> idx \<Longrightarrow> desc_offsets v len idx = []"
  by (subst desc_offsets.simps) simp

definition copy_description :: "octets \<Rightarrow> nat \<Rightarrow> UPDK_SDFFilter \<Rightarrow> UPDK_SDFFilter" where
  "copy_description v i f = f \<lparr>sdf_lenOfFlowDescription := rte_be_to_cpu_16 (oct16 v i),
     sdf_flowDescription :=
       strncpy (sdf_flowDescription f) (oct_chars v (i + 2) (desc_length v i)) (desc_length v i)\<rparr>"

definition last_field :: "nat \<Rightarrow> nat \<Rightarrow> nat \<Rightarrow> nat" where
  "last_field len k idx = idx + k * ((len - 1 - idx) div k)"

definition sdf_value :: "octets \<Rightarrow> nat \<Rightarrow> UPDK_SDFFilter \<Rightarrow> UPDK_SDFFilter" where
  "sdf_value v len f =
     (let f = f \<lparr>sdf_fd := bit (v 0) 0, sdf_ttc := bit (v 0) 1, sdf_spi := bit (v 0) 2,
            sdf_fl := bit (v 0) 3, sdf_bid := bit (v 0) 4\<rparr> in
      if len \<le> 2 then f
      else if bit (v 0) 0 then fold (copy_description v) (desc_offsets v len 2) f
      else if bit (v 0) 1 then f \<lparr>sdf_tosTrafficClass := rte_be_to_cpu_16 (oct16 v (last_field len 2 2))\<rparr>
      else if bit (v 0) 2
        then f \<lparr>sdf_securityParameterIndex := rte_be_to_cpu_32 (oct32 v (last_field len 4 2))\<rparr>
      else if bit (v 0) 3 then f \<lparr>sdf_flowLabel := oct_chars v (last_field len 3 2) 3\<rparr>
      else if bit (v 0) 4 then f \<lparr>sdf_sdfFilterId := rte_be_to_cpu_32 (oct32 v (last_field len 4 2))\<rparr>
      else f)"

lemma sdf_stuck_offsets:
  assumes "bit (v 0) 0"
  shows "sdf_stuck v len idx \<longleftrightarrow> (\<exists>i \<in> set (desc_offsets v len idx). FLOW_DESCRIPTION_SIZE \<le> desc_length v i)"
  using assms
proof (induction v len idx rule: desc_offsets.induct [case_names step])
  case (step v len idx)
  show ?case
    using step by (subst sdf_stuck.simps, subst desc_offsets.simps) auto
qed

lemma sdf_descriptions:
  assumes "bit (v 0) 0" "\<not> sdf_stuck v len idx"
  shows "sdf_fields v len idx f = Some (fold (copy_description v) (desc_offsets v len idx) f)"
  using assms(2)
proof (induction "len - idx" arbitrary: idx f rule: less_induct)
  case less
  show ?case
  proof (cases "idx < len")
    case True
    let ?n = "desc_length v idx"
    have "?n < FLOW_DESCRIPTION_SIZE" "\<not> sdf_stuck v len (idx + 2 + ?n)"
      using less.prems True assms(1) by (subst (asm) sdf_stuck.simps; simp)+
    then show ?thesis
      using True assms(1) less.hyps [of "idx + 2 + ?n" "copy_description v idx f"]
      by (subst sdf_fields.simps, subst desc_offsets.simps) (simp add: Let_def copy_description_def)
  qed (simp add: sdf_end)
qed

text \<open>A loop that strides through the element and overwrites its result keeps the last field.\<close>

lemma stride_last:
  assumes loop: "\<And>i f. g i f = (if i < len then g (i + k) (S i f) else Some f)"
    and over: "\<And>i j f. S i (S j f) = S i f" and k: "0 < k"
  shows "g i f = Some (if i < len then S (last_field len k i) f else f)"
proof (induction "len - i" arbitrary: i f rule: less_induct)
  case less
  show ?case
  proof (cases "i < len")
    case True
    have IH: "g (i + k) (S i f) =
        Some (if i + k < len then S (last_field len k (i + k)) (S i f) else S i f)"
      using less [of "i + k" "S i f"] True k by simp
    have "last_field len k (i + k) = last_field len k i" if "i + k < len"
    proof -
      define m where "m = len - 1 - (i + k)"
      have "len - 1 - i = m + k" using that by (simp add: m_def)
      then have "(len - 1 - i) div k = Suc (m div k)" using k div_add_self2 [of k m] by simp
      then show ?thesis unfolding last_field_def m_def by simp
    qed
    moreover have "last_field len k i = i" if "\<not> i + k < len"
      using that True k by (simp add: last_field_def)
    ultimately show ?thesis by (subst loop) (simp add: True IH over)
  qed (subst loop, simp)
qed

lemma sdf_no_description:
  assumes "\<not> bit (v 0) 0"
  shows "sdf_fields v len i f = Some (if i < len then
      (if bit (v 0) 1 then f \<lparr>sdf_tosTrafficClass := rte_be_to_cpu_16 (oct16 v (last_field len 2 i))\<rparr>
       else if bit (v 0) 2 then f \<lparr>sdf_securityParameterIndex := rte_be_to_cpu_32 (oct32 v (last_field len 4 i))\<rparr>
       else if bit (v 0) 3 then f \<lparr>sdf_flowLabel := oct_chars v (last_field len 3 i) 3\<rparr>
       else if bit (v 0) 4 then f \<lparr>sdf_sdfFilterId := rte_be_to_cpu_32 (oct32 v (last_field len 4 i))\<rparr>
       else f) else f)"
proof -
  consider (tos) "bit (v 0) 1" | (spi) "\<not> bit (v 0) 1" "bit (v 0) 2"
    | (label) "\<not> bit (v 0) 1" "\<not> bit (v 0) 2" "bit (v 0) 3"
    | (bid) "\<not> bit (v 0) 1" "\<not> bit (v 0) 2" "\<not> bit (v 0) 3" "bit (v 0) 4"
    | (none) "\<not> bit (v 0) 1" "\<not> bit (v 0) 2" "\<not> bit (v 0) 3" "\<not> bit (v 0) 4" by blast
  then show ?thesis
  proof cases
    case tos
    then have "sdf_fields v len i f = (if i < len then sdf_fields v len (i + 2)
        (f \<lparr>sdf_tosTrafficClass := rte_be_to_cpu_16 (oct16 v i)\<rparr>) else Some f)" for i f
      using assms by (subst sdf_fields.simps) simp
    from stride_last [OF this] show ?thesis using tos by simp
  next
    case spi
    then have "sdf_fields v len i f = (if i < len then sdf_fields v len (i + 4)
        (f \<lparr>sdf_securityParameterIndex := rte_be_to_cpu_32 (oct32 v i)\<rparr>) else Some f)" for i f
      using assms by (subst sdf_fields.simps) simp
    from stride_last [OF this] show ?thesis using spi by simp
  next
    case label
    then have "sdf_fields v len i f = (if i < len then sdf_fields v len (i + 3)
        (f \<lparr>sdf_flowLabel := oct_chars v i 3\<rparr>) else Some f)" for i f
      using assms by (subst sdf_fields.simps) simp
    from stride_last [OF this] show ?thesis using label by simp
  next
    case bid
    then have "sdf_fields v len i f = (if i < len then sdf_fields v len (i + 4)
        (f \<lparr>sdf_sdfFilterId := rte_be_to_cpu_32 (oct32 v i)\<rparr>) else Some f)" for i f
      using assms by (subst sdf_fields.simps) simp
    from stride_last [OF this] show ?thesis using bid by simp
  next
    case none
    then have "sdf_fields v len i f = (if i < len then sdf_fields v len (i + 1) f else Some f)" for i f
      using assms by (subst sdf_fields.simps) simp
    from stride_last [where S = "\<lambda>_ f. f", OF this] show ?thesis using none by simp
  qed
qed

text \<open>
  C35. What converting an SDF filter computes. The conversion does not return exactly when the flow
  description flag is set and one of the descriptions met has 64 octets or more; in every other case it
  returns the value of the reference: the flags of the first octet, and with the description flag the
  descriptions copied one over the other from their places, without it the last field of the first kind
  flagged. In particular a filter that is one description is converted to that description and nothing
  else, and a description that does not fit makes the control plane loop for ever instead of being
  refused.
\<close>

theorem sdf_conversion_exact:
  fixes t :: TlvOctet and f :: UPDK_SDFFilter
  defines "v \<equiv> tlv_value t" and "len \<equiv> unat (tlv_len t)"
  defines "n \<equiv> desc_length v 2"
  shows "convert_sdf t f =
      (if bit (v 0) 0 \<and> (\<exists>i \<in> set (desc_offsets v len 2). FLOW_DESCRIPTION_SIZE \<le> desc_length v i)
       then None else Some (sdf_value v len f)) \<and>
    (bit (v 0) 0 \<and> len = 4 + n \<longrightarrow> convert_sdf t f =
       (if n < FLOW_DESCRIPTION_SIZE
        then Some (f \<lparr>sdf_fd := True, sdf_ttc := bit (v 0) 1, sdf_spi := bit (v 0) 2, sdf_fl := bit (v 0) 3,
               sdf_bid := bit (v 0) 4, sdf_lenOfFlowDescription := of_nat n,
               sdf_flowDescription := strncpy (sdf_flowDescription f) (oct_chars v 4 n) n\<rparr>)
        else None))"
proof -
  have exact: "convert_sdf t f =
      (if bit (v 0) 0 \<and> (\<exists>i \<in> set (desc_offsets v len 2). FLOW_DESCRIPTION_SIZE \<le> desc_length v i)
       then None else Some (sdf_value v len f))"
  proof (cases "bit (v 0) 0")
    case True
    then show ?thesis
      using sdf_fields_none [of v len 2] sdf_stuck_offsets [of v len 2] sdf_descriptions [of v len 2]
      by (auto simp: convert_sdf_def sdf_value_def Let_def v_def [symmetric] len_def [symmetric])
  next
    case False
    then show ?thesis
      by (simp add: convert_sdf_def sdf_value_def Let_def sdf_no_description
          v_def [symmetric] len_def [symmetric])
  qed
  moreover have "desc_offsets v len 2 = [2]" if "len = 4 + n"
    using that by (subst desc_offsets.simps) (simp add: n_def)
  ultimately show ?thesis
    by (auto simp: sdf_value_def Let_def copy_description_def n_def not_less)
qed

text \<open>The description \<^verbatim>\<open>permit out ip from any to any\<close>.\<close>

definition example_sdf :: TlvOctet where
  "example_sdf = ie 33 (\<lambda>k. if k = 0 then 1 else if k = 3 then 29
     else if 4 \<le> k \<and> k < 33 then of_char (''permit out ip from any to any'' ! (k - 4)) else 0)"

theorem sdf_conversion_exact_witness:
  "\<exists>f'. convert_sdf example_sdf (pdi_sdfFilter zero_pdi) = Some f' \<and>
     unat (sdf_lenOfFlowDescription f') = 29"
proof -
  have "bit (tlv_value example_sdf 0) 0" "unat (tlv_len example_sdf) = 33"
    "unat (rte_be_to_cpu_16 (oct16 (tlv_value example_sdf) 2)) = 29"
    by (simp_all add: example_sdf_def ie_def oct16_def rte_bswap16_def)
  then show ?thesis using conjunct2 [OF sdf_conversion_exact [of example_sdf "pdi_sdfFilter zero_pdi"]] by simp
qed

text \<open>
  The description flag hides the fields after it: a filter with a flow description followed by a ToS of 64 or more is
  well formed, and does not return.
\<close>

lemma sdf_tos_after_description_hangs:
  fixes t :: TlvOctet
  defines "v \<equiv> tlv_value t"
  defines "n \<equiv> unat (rte_be_to_cpu_16 (oct16 v 2))"
  assumes "bit (v 0) 0" "bit (v 0) 1" "unat (tlv_len t) = 6 + n" "n < FLOW_DESCRIPTION_SIZE"
    and "64 \<le> unat (rte_be_to_cpu_16 (oct16 v (4 + n)))"
  shows "convert_sdf t f = None"
proof -
  have "sdf_stuck v (unat (tlv_len t)) (4 + n)"
    using assms(3,5,7) by (subst sdf_stuck.simps) simp
  then have "sdf_stuck v (unat (tlv_len t)) 2"
    using assms(3,5) by (subst sdf_stuck.simps) (simp add: n_def)
  then show ?thesis by (simp add: convert_sdf_def sdf_fields_none v_def Let_def)
qed

end
