(* ===== verification/Sdf_Compile.thy ===== *)
theory Sdf_Compile
  imports C_Strings Pfcp_Convert
begin

text \<open>
  The compilation of the flow description of a PDR into the fields the data plane reads
  (\<^verbatim>\<open>UpfPdrPrecompileSdf\<close> of \<^verbatim>\<open>5gc/upf_c/n4_onvm_pfcp_handler.c\<close>). The description is in a 64-character
  array. No result stands for what C leaves undefined: an address text that overflows its buffer of 16
  characters or is read without having been written, a shift by more than the width, a read past the array.
\<close>

abbreviation (input) INET_ADDRSTRLEN :: nat where "INET_ADDRSTRLEN \<equiv> 16"

text \<open>The word at the start of a text, up to a space.\<close>

definition word_of :: "string \<Rightarrow> string" where
  "word_of s = takeWhile (\<lambda>c. c \<noteq> CHR '' '') s"

definition prefix_mask :: "u32 \<Rightarrow> u32" where
  "prefix_mask len = (if len = 0 then 0 else push_bit (unat (32 - len)) 0xFFFFFFFF)"

text \<open>\<open>junk\<close> is the value of the uninitialised address when the text is not an address.\<close>

definition compile_from :: "u32 \<Rightarrow> string \<Rightarrow> u32 option" where
  "compile_from junk tmp =
     (case scan_ip_prefix tmp of
        (None, _) \<Rightarrow> None
      | (Some ip_str, p) \<Rightarrow>
          (let prefix_len = (case p of None \<Rightarrow> 0 | Some n \<Rightarrow> n);
               ip_addr = (case inet_pton4 ip_str of None \<Rightarrow> junk | Some a \<Rightarrow> a)
           in if length ip_str \<ge> INET_ADDRSTRLEN \<or> prefix_len > 32 then None
              else Some (ip_addr AND rte_cpu_to_be_32 (prefix_mask prefix_len))))"

definition compile_base :: "int \<Rightarrow> int \<Rightarrow> int \<Rightarrow> u8 \<Rightarrow> int" where
  "compile_base access_port core_port sgi_port src =
     (if src = 0 then access_port else if src = 1 then core_port else if src = 2 then sgi_port else -1)"

definition compile_to :: "string \<Rightarrow> UPDK_PDR \<Rightarrow> UPDK_PDR option" where
  "compile_to tmp pdr =
     (if tmp = ''any'' \<or> tmp = ''assigned'' then Some pdr
      else case scan_ip_prefix tmp of
        (None, _) \<Rightarrow> Some pdr
      | (Some ip_str, p) \<Rightarrow>
          if length ip_str \<ge> INET_ADDRSTRLEN then None
          else
            (let prefix_to = (case p of None \<Rightarrow> 32 | Some n \<Rightarrow> if n > 32 then 32 else n) in
             case inet_pton4 ip_str of
               None \<Rightarrow> Some pdr
             | Some to_addr \<Rightarrow>
                 (let mask = prefix_mask prefix_to in
                  Some (pdr \<lparr>pdr_fd_to_mask := mask, pdr_fd_to_net := rte_be_to_cpu_32 to_addr AND mask,
                             pdr_has_fd_to := 1\<rparr>))))"

definition UpfPdrPrecompileSdf :: "u32 \<Rightarrow> UPDK_PDR \<Rightarrow> int \<Rightarrow> int \<Rightarrow> int \<Rightarrow> UPDK_PDR option" where
  "UpfPdrPrecompileSdf junk pdr access_port core_port sgi_port =
     (let pdr = pdr \<lparr>pdr_has_fd := 0, pdr_fd_target := 0, pdr_meter_key := 0, pdr_has_fd_to := 0,
                     pdr_fd_to_net := 0, pdr_fd_to_mask := 0\<rparr>;
          arr = sdf_flowDescription (pdi_sdfFilter (pdr_pdi pdr)); fd = cstr arr
      in if \<not> pdif_sdfFilter (pdi_flags (pdr_pdi pdr)) \<or> fd = [] then Some pdr
         else case strstr fd ''from'' of
           None \<Rightarrow> Some pdr
         | Some tail \<Rightarrow>
             (let pos = length fd - length tail + 5; tmp = word_of (cstr (drop pos arr)) in
              if pos \<ge> FLOW_DESCRIPTION_SIZE then None
              else if tmp = [] \<or> length tmp \<ge> 64 \<or> tmp = ''any'' then Some pdr
              else do {
                masked \<leftarrow> compile_from junk tmp;
                let base = compile_base access_port core_port sgi_port (pdi_sourceInterface (pdr_pdi pdr));
                let pdr = pdr \<lparr>pdr_fd_target := masked, pdr_has_fd := 1, pdr_meter_key := of_int base + masked\<rparr>;
                (case strstr fd ''to '' of
                   None \<Rightarrow> Some pdr
                 | Some to \<Rightarrow>
                     (let tmp = word_of (drop 3 to) in
                      if tmp = [] \<or> length tmp \<ge> 64 then Some pdr else compile_to tmp pdr))
              }))"

subsection \<open>Written descriptions\<close>

lemma word_of_word: "CHR '' '' \<notin> set w \<Longrightarrow> word_of (w @ CHR '' '' # r) = w" "CHR '' '' \<notin> set w \<Longrightarrow> word_of w = w"
  unfolding word_of_def by (subst takeWhile_append2; force) (auto simp: takeWhile_eq_all_conv)

lemma bswap32_and: "rte_bswap32 x AND rte_bswap32 y = rte_bswap32 (x AND y)"
  by (rule bit_eqI) (auto simp: bit_and_iff bit_rte_bswap32)

lemma compile_from_network:
  assumes "p \<le> 32"
  shows "compile_from junk (network_text a p) = Some (rte_cpu_to_be_32 (a AND prefix_mask (of_nat p)))"
proof -
  have "\<not> (32 :: u32) < of_nat p" using assms by (simp add: word_less_nat_alt unat_of_nat take_bit_nat_eq_self)
  moreover have "length (dotted a) < INET_ADDRSTRLEN" using dotted_length [of a] by simp
  ultimately show ?thesis
    using assms by (simp add: compile_from_def scan_network inet_pton4_dotted bswap32_and Let_def)
qed

lemma compile_to_keyword: "compile_to ''any'' pdr = Some pdr" "compile_to ''assigned'' pdr = Some pdr"
  by (simp_all add: compile_to_def)

lemma compile_to_network:
  assumes "q \<le> 32"
  shows "compile_to (network_text b q) pdr = Some (pdr \<lparr>pdr_fd_to_mask := prefix_mask (of_nat q),
    pdr_fd_to_net := b AND prefix_mask (of_nat q), pdr_has_fd_to := 1\<rparr>)"
proof -
  have "\<not> (32 :: u32) < of_nat q" using assms by (simp add: word_less_nat_alt unat_of_nat take_bit_nat_eq_self)
  moreover have "length (dotted b) < INET_ADDRSTRLEN" using dotted_length [of b] by simp
  ultimately show ?thesis
    using assms by (simp add: compile_to_def scan_network inet_pton4_dotted network_keyword Let_def)
qed

text \<open>
  C20. A flow description is compiled to what it says. For every source network and every destination, \<^verbatim>\<open>assigned\<close>, \<^verbatim>\<open>any\<close> or
  a network, the compilation of the description as PFCP writes it returns, sets the
  match target to the source network in network byte order, the meter key to that network offset by the port of the
  source interface, and the destination match exactly when the destination is a network, to that network and its
  mask. The remaining fields of the PDR are untouched.
\<close>

theorem precompile_sdf_correct:
  assumes "pdif_sdfFilter (pdi_flags (pdr_pdi pdr))"
    and "sdf_flowDescription (pdi_sdfFilter (pdr_pdi pdr)) = flow_text a p e @ replicate n (CHR 0x00)"
    and "p \<le> 32" "end_ok e"
  shows "UpfPdrPrecompileSdf junk pdr access_port core_port sgi_port =
    (let net = rte_cpu_to_be_32 (a AND prefix_mask (of_nat p));
         base = compile_base access_port core_port sgi_port (pdi_sourceInterface (pdr_pdi pdr));
         (to_net, to_mask, has_to) =
           (case e of Net b q \<Rightarrow> (b AND prefix_mask (of_nat q), prefix_mask (of_nat q), 1) | _ \<Rightarrow> (0, 0, 0))
     in Some (pdr \<lparr>pdr_has_fd := 1, pdr_fd_target := net, pdr_meter_key := of_int base + net,
          pdr_fd_to_net := to_net, pdr_fd_to_mask := to_mask, pdr_has_fd_to := has_to\<rparr>))"
proof -
  let ?arr = "flow_text a p e @ replicate n (CHR 0x00)" and ?net = "network_text a p"
  have fd: "cstr ?arr = flow_text a p e" by (rule flow_text_no_null)
  have ne: "flow_text a p e \<noteq> []" by (simp add: flow_text_def)
  have pos: "length (flow_text a p e) - length (''from '' @ ?net @ '' to '' @ end_text e) + 5 = 19"
    by (simp add: flow_text_def)
  have "drop 19 ?arr = ?net @ '' to '' @ end_text e @ replicate n (CHR 0x00)"
    by (simp add: flow_text_def)
  moreover have "cstr \<dots> = ?net @ '' to '' @ end_text e"
  proof -
    have "c \<noteq> CHR 0x00" if "c \<in> set (?net @ '' to '' @ end_text e)" for c
      using that network_chars [of c a p] end_text_chars [of c e] by auto
    then show ?thesis
      using takeWhile_append2 [of "?net @ '' to '' @ end_text e" "\<lambda>c. c \<noteq> CHR 0x00" "replicate n (CHR 0x00)"]
      by (simp add: cstr_def takeWhile_replicate)
  qed
  ultimately have w: "word_of (cstr (drop 19 ?arr)) = ?net"
    using word_of_word(1) [of ?net "''to '' @ end_text e"] network_no [of "CHR '' ''"] by simp
  have w2: "word_of (end_text e) = end_text e"
    by (rule word_of_word(2)) (use end_text_chars in blast)
  have len: "length ?net < 64" "length (end_text e) < 64" "end_text e \<noteq> []"
    using network_length [OF assms(3), of a] end_length [OF assms(4)] by auto
  have to: "compile_to (end_text e) pdr' = Some (case e of Net b q \<Rightarrow> pdr' \<lparr>pdr_fd_to_mask := prefix_mask (of_nat q),
      pdr_fd_to_net := b AND prefix_mask (of_nat q), pdr_has_fd_to := 1\<rparr> | _ \<Rightarrow> pdr')" for pdr'
    using assms(4) by (cases e) (simp_all add: end_text_def end_ok_def compile_to_network compile_to_keyword)
  show ?thesis
    unfolding UpfPdrPrecompileSdf_def
    using assms(1,2) fd ne find_from find_to pos w w2 len to compile_from_network [OF assms(3)] network_keyword
    by (cases e) (simp_all add: Let_def)
qed


theorem precompile_sdf_correct_witness:
  "\<exists>pdr'. UpfPdrPrecompileSdf 0 (zero_pdr \<lparr>pdr_pdi := zero_pdi \<lparr>
        pdi_flags := (pdi_flags zero_pdi) \<lparr>pdif_sdfFilter := True\<rparr>,
        pdi_sdfFilter := (pdi_sdfFilter zero_pdi)
          \<lparr>sdf_flowDescription := flow_text 0x0A000000 8 (Net 0xC0A80000 16)\<rparr>\<rparr>\<rparr>) 3 4 5 = Some pdr' \<and>
     pdr_fd_target pdr' = 0x0000000A \<and> pdr_meter_key pdr' = 0x0000000D \<and>
     pdr_fd_to_net pdr' = 0xC0A80000 \<and> pdr_fd_to_mask pdr' = 0xFFFF0000"
proof -
  let ?pdr = "zero_pdr \<lparr>pdr_pdi := zero_pdi \<lparr>pdi_flags := (pdi_flags zero_pdi) \<lparr>pdif_sdfFilter := True\<rparr>,
    pdi_sdfFilter := (pdi_sdfFilter zero_pdi) \<lparr>sdf_flowDescription := flow_text 0x0A000000 8 (Net 0xC0A80000 16)\<rparr>\<rparr>\<rparr>"
  have "prefix_mask (of_nat 8) = 0xFF000000" "prefix_mask (of_nat 16) = 0xFFFF0000"
    by (simp_all add: prefix_mask_def)
  moreover have "rte_bswap32 0x0A000000 = 0x0000000A" by (simp add: rte_bswap32_def)
  ultimately show ?thesis
    using precompile_sdf_correct [where pdr = ?pdr and a = "0x0A000000" and p = 8 and e = "Net 0xC0A80000 16" and n = 0 and junk = 0
        and access_port = 3 and core_port = 4 and sgi_port = 5]
    by (simp add: end_ok_def compile_base_def zero_pdi_def)
qed

end
