(* ===== verification/N4_Rules.thy ===== *)
theory N4_Rules
  imports Sdf_Compile Session_Store Cls_Publish
begin

text \<open>
  The handlers of the control plane that create, update and remove the rules of a session
  (\<^verbatim>\<open>5gc/upf_c/n4_onvm_pfcp_handler.c\<close>). A PDR object points to its FAR and its QERs; the heap keeps these pointers apart
  from the values, and \<open>shared_rules\<close> is the view of a reader who follows them. A handler has no result when it does not
  return or when C leaves its behaviour undefined.
\<close>

subsection \<open>State\<close>

record rule_heap =
  h_pdr :: "rule_ptr \<Rightarrow> UPDK_PDR"
  h_far :: "rule_ptr \<Rightarrow> UPDK_FAR"
  h_qer :: "rule_ptr \<Rightarrow> UPDK_QER"
  h_far_of :: "rule_ptr \<Rightarrow> rule_ptr option"
  h_qer_of :: "rule_ptr \<Rightarrow> rule_ptr option"
  h_qers_of :: "rule_ptr \<Rightarrow> rule_ptr option list"

definition shared_rules :: "rule_heap \<Rightarrow> rule_memory" where
  "shared_rules h =
     \<lparr>mem_pdr = (\<lambda>p. (h_pdr h p) \<lparr>pdr_far := map_option (h_far h) (h_far_of h p),
         pdr_qer := map_option (h_qer h) (h_qer_of h p),
         pdr_qers := map (map_option (h_qer h)) (h_qers_of h p)\<rparr>),
      mem_far = h_far h, mem_qer = h_qer h\<rparr>"

text \<open>\<open>u_replay\<close> is the parsed \<^verbatim>\<open>UPF_PCAP_REPLAY_TEID\<close>, nothing before it is first needed; \<open>u_msgs\<close> the messages sent to workers.\<close>

record ('s, 'm, 'r, 'c) upf_c =
  u_heap :: rule_heap
  u_store :: "('s, 'm, 'r) session_store"
  u_all_pdrs :: "rule_ptr list option"
  u_cls :: "'c cls_server"
  u_replay :: "u32 list option"
  u_msgs :: "(u16 \<times> Event) list"

text \<open>
  What a call sees of its surroundings: libraries, the environment variable, memory for the rule object, for list nodes
  and for the queue of retired PDRs, the ports of the configuration, and two values that C leaves open: whether the
  value a function without a \<^verbatim>\<open>return\<close> hands back is nonzero, and what an uninitialised address holds.
\<close>

record ('s, 'm, 'r, 'c) n4_env =
  n_lib :: "('s, 'm, 'r) store_lib"
  n_cls :: "'c classifier_lib"
  n_send :: "nat \<Rightarrow> send_env"
  n_getenv :: "string option"
  n_calloc :: "rule_ptr option"
  n_node :: bool
  n_realloc :: bool
  n_accessPort :: int
  n_corePort :: int
  n_sgiPort :: int
  n_garbage :: bool
  n_junk :: u32

abbreviation the_session :: "('s, 'm, 'r, 'c) upf_c \<Rightarrow> nat \<Rightarrow> UpfSession" where
  "the_session u p \<equiv> session_data (u_store u) ! p"

definition set_session :: "('s, 'm, 'r, 'c) upf_c \<Rightarrow> nat \<Rightarrow> UpfSession option \<Rightarrow> ('s, 'm, 'r, 'c) upf_c" where
  "set_session u p s =
     (case s of None \<Rightarrow> u | Some s \<Rightarrow> u \<lparr>u_store := upd_session (u_store u) p (\<lambda>_. s)\<rparr>)"

text \<open>The condition of an assertion on the result of a registration: any nonzero value passes.\<close>

definition reg_passes :: "bool \<Rightarrow> Status option \<Rightarrow> bool" where
  "reg_passes garbage r = (case r of None \<Rightarrow> garbage | Some status \<Rightarrow> status \<noteq> STATUS_OK)"

subsection \<open>Replay TEIDs\<close>

abbreviation (input) UPF_PCAP_REPLAY_TEID_MAX :: nat where "UPF_PCAP_REPLAY_TEID_MAX \<equiv> 16"

lemma strtoul0_shorter: "strtoul0 s = Some (v, e, rest) \<Longrightarrow> length rest < length s"
proof -
  assume a: "strtoul0 s = Some (v, e, rest)"
  define t where "t = dropWhile isspace s"
  define t2 where "t2 = (case t of c # r \<Rightarrow> if c = CHR ''-'' \<or> c = CHR ''+'' then r else t | [] \<Rightarrow> t)"
  define hex where "hex = (case t2 of z # x # d # _ \<Rightarrow> z = CHR ''0'' \<and> (x = CHR ''x'' \<or> x = CHR ''X'') \<and> digit_in 16 d
                 | _ \<Rightarrow> False)"
  define b :: nat where "b = (if hex then 16 else case t2 of c # _ \<Rightarrow> if c = CHR ''0'' then 8 else 10 | [] \<Rightarrow> 10)"
  define t3 where "t3 = (if hex then drop 2 t2 else t2)"
  define ds where "ds = takeWhile (digit_in b) t3"
  have "ds \<noteq> []" "rest = drop (length ds) t3"
    using a unfolding strtoul0_def t_def [symmetric] Let_def t2_def [symmetric] hex_def [symmetric] b_def [symmetric]
      t3_def [symmetric] ds_def [symmetric]
    by (auto split: if_splits)
  moreover have "length t \<le> length s" by (simp add: t_def length_dropWhile_le)
  moreover have "length t2 \<le> length t" by (auto simp: t2_def split: list.split)
  moreover have "length t3 \<le> length t2" "length ds \<le> length t3" by (auto simp: t3_def ds_def length_takeWhile_le)
  ultimately show ?thesis by (cases ds) auto
qed

function parse_replay_teids :: "u32 list \<Rightarrow> string \<Rightarrow> u32 list" where
  "parse_replay_teids teids s =
     (let s = dropWhile (\<lambda>c. c = CHR '','' \<or> isspace c) s in
      if s = [] then teids
      else case strtoul0 s of
        None \<Rightarrow> teids
      | Some (val, erange, rest) \<Rightarrow>
          if erange \<or> val > 0xffffffff then teids
          else if rest \<noteq> [] \<and> hd rest \<noteq> CHR '','' \<and> \<not> isspace (hd rest) then teids
          else parse_replay_teids
                 (if length teids < UPF_PCAP_REPLAY_TEID_MAX then teids @ [of_nat val] else teids) rest)"
  by pat_completeness auto
termination
proof (relation "measure (\<lambda>(teids, s). length s)")
  fix teids :: "u32 list" and s t :: string and r val q erange rest
  assume "t = dropWhile (\<lambda>c. c = CHR '','' \<or> isspace c) s" "strtoul0 t = Some r" "(val, q) = r" "(erange, rest) = q"
  then have "length rest < length t" "length t \<le> length s"
    using strtoul0_shorter [of t val erange rest] by (auto simp: length_dropWhile_le)
  then show "((if length teids < UPF_PCAP_REPLAY_TEID_MAX then teids @ [of_nat val] else teids, rest), teids, s)
    \<in> measure (\<lambda>(teids, s). length s)" by simp
qed simp

declare parse_replay_teids.simps [simp del]

definition UpfParsePcapReplayTeids :: "string option \<Rightarrow> u32 list option \<Rightarrow> u32 list option" where
  "UpfParsePcapReplayTeids env parsed =
     (case parsed of Some ts \<Rightarrow> parsed
      | None \<Rightarrow> (case env of None \<Rightarrow> Some [] | Some s \<Rightarrow> Some (parse_replay_teids [] s)))"

definition UpfGetPcapReplayTeids ::
  "string option \<Rightarrow> ('s, 'm, 'r, 'c) upf_c \<Rightarrow> ('s, 'm, 'r, 'c) upf_c \<times> u32 list" where
  "UpfGetPcapReplayTeids env u =
     (let r = UpfParsePcapReplayTeids env (u_replay u) in (u \<lparr>u_replay := r\<rparr>, the r))"

definition UpfSessionEnsurePcapReplayTeidAlias ::
  "('s, 'm, 'r) store_lib \<Rightarrow> ('s, 'm, 'r) session_store \<Rightarrow> nat \<Rightarrow> u32 \<Rightarrow> ('s, 'm, 'r) session_store \<times> Status" where
  "UpfSessionEnsurePcapReplayTeidAlias L st p teid_host =
     (let replay_teid = rte_cpu_to_be_32 teid_host in
      if s_teid (session_data st ! p) = replay_teid then (st, STATUS_OK)
      else case UpfSessionFindByTeid L st replay_teid of
        Some q \<Rightarrow> (st, if q = p then STATUS_OK else STATUS_ERROR)
      | None \<Rightarrow>
          (case InsertTEIDtoSessionMap L st replay_teid p of
             (st, status) \<Rightarrow> (st, if status = STATUS_OK then STATUS_OK else STATUS_ERROR)))"

primrec replay_aliases ::
  "('s, 'm, 'r) store_lib \<Rightarrow> nat \<Rightarrow> u32 list \<Rightarrow> ('s, 'm, 'r) session_store \<Rightarrow> ('s, 'm, 'r) session_store \<times> Status" where
  "replay_aliases L p [] st = (st, STATUS_OK)"
| "replay_aliases L p (t # ts) st =
     (case UpfSessionEnsurePcapReplayTeidAlias L st p t of
        (st, STATUS_OK) \<Rightarrow> replay_aliases L p ts st
      | (st, _) \<Rightarrow> (st, STATUS_ERROR))"

definition UpfN4SyncSessionPacketKeysFromPdi ::
  "('s, 'm, 'r, 'c) n4_env \<Rightarrow> ('s, 'm, 'r, 'c) upf_c \<Rightarrow> nat \<Rightarrow> PDI \<Rightarrow> ('s, 'm, 'r, 'c) upf_c \<times> Status" where
  "UpfN4SyncSessionPacketKeysFromPdi env u p pdi =
     (if pi_presence pdi = 0 then (u, STATUS_OK)
      else
        let L = n_lib env;
            (u, ok) =
              (if \<not> present (pi_localFTEID pdi) then (u, True)
               else case UpfSessionUpdateTeid L (u_store u) (Some p) (oct32 (tlv_value (pi_localFTEID pdi)) 1) of
                 (st, status) \<Rightarrow>
                   if status \<noteq> STATUS_OK then (u \<lparr>u_store := st\<rparr>, False)
                   else case UpfGetPcapReplayTeids (n_getenv env) (u \<lparr>u_store := st\<rparr>) of
                     (u, teids) \<Rightarrow>
                       (case replay_aliases L p teids (u_store u) of
                          (st, status) \<Rightarrow> (u \<lparr>u_store := st\<rparr>, status = STATUS_OK)))
        in if \<not> ok then (u, STATUS_ERROR)
           else
             let v = tlv_value (pi_uEIPAddress pdi) in
             if \<not> present (pi_uEIPAddress pdi) \<or> \<not> bit (v 0) 1 then (u, STATUS_OK)
             else case UpfSessionUpdateUeIP L (u_store u) (Some p) (oct32 v 1) of
               (st, status) \<Rightarrow> (u \<lparr>u_store := st\<rparr>, if status = STATUS_OK then STATUS_OK else STATUS_ERROR))"


subsection \<open>Publishing\<close>

text \<open>The rebuild of the classifier from the list of all PDRs, as the handlers call it.\<close>

definition rebuild ::
  "('s, 'm, 'r, 'c) n4_env \<Rightarrow> ('s, 'm, 'r, 'c) upf_c \<Rightarrow> ('s, 'm, 'r, 'c) upf_c \<times> u32 option" where
  "rebuild env u =
     (let (u, teids) = UpfGetPcapReplayTeids (n_getenv env) u;
          (cls, ver, msgs) = UpfClsRebuildAndPublish (n_cls env) (h_pdr (u_heap u)) teids (n_send env)
            (worker_cfg (u_store u)) (case u_all_pdrs u of None \<Rightarrow> [] | Some l \<Rightarrow> l) (u_cls u)
      in (u \<lparr>u_cls := cls, u_msgs := u_msgs u @ msgs\<rparr>, ver))"

subsection \<open>PDRs\<close>

text \<open>
  The QERs of a PDR, looked up in order; a missing one refuses the whole rule (the inner \<open>None\<close>). The outer
  \<open>None\<close> is a search that comes to a null pointer.
\<close>

primrec find_qers :: "rule_memory \<Rightarrow> UpfSession \<Rightarrow> u32 list \<Rightarrow> rule_ptr list option option" where
  "find_qers mem s [] = Some (Some [])"
| "find_qers mem s (i # is) =
     (if i = 0 then find_qers mem s is
      else do {
        q \<leftarrow> UpfQERFindByID mem (Some s) (ucast i);
        (case q of None \<Rightarrow> Some None | Some q \<Rightarrow> map_option (map_option ((#) q)) (find_qers mem s is))
      })"

definition pad2 :: "rule_ptr list \<Rightarrow> rule_ptr option list" where
  "pad2 qs = take 2 (map Some qs @ [None, None])"

definition link_qers :: "rule_ptr \<Rightarrow> rule_ptr list \<Rightarrow> rule_heap \<Rightarrow> rule_heap" where
  "link_qers a qs h =
     h \<lparr>h_qers_of := (h_qers_of h)(a := pad2 qs),
        h_qer_of := (h_qer_of h)(a := UpfPdrSelectQfiQer (h_qer h) (pad2 qs) (of_nat (length qs))),
        h_pdr := (h_pdr h)(a := (h_pdr h a) \<lparr>pdr_qer_count := of_nat (length qs)\<rparr>)\<rparr>"

text \<open>The new object, with its links; the inner \<open>None\<close> when a FAR or QER it names is missing.\<close>

definition link_pdr :: "rule_ptr \<Rightarrow> UPDK_PDR \<Rightarrow> UpfSession \<Rightarrow> rule_heap \<Rightarrow> rule_heap option option" where
  "link_pdr a pdr s h =
     (let mem = shared_rules h;
          h = h \<lparr>h_pdr := (h_pdr h)(a := pdr), h_far_of := (h_far_of h)(a := None),
                h_qer_of := (h_qer_of h)(a := None), h_qers_of := (h_qers_of h)(a := [None, None])\<rparr>
      in case (if pdrf_farId (pdr_flags pdr)
               then map_option (\<lambda>f. h \<lparr>h_far_of := (h_far_of h)(a := Some f)\<rparr>)
                      (UpfFARFindByID mem (Some s) (ucast (pdr_farId pdr)))
               else Some h) of
           None \<Rightarrow> Some None
         | Some h \<Rightarrow>
             if pdrf_qerId (pdr_flags pdr)
             then map_option (map_option (\<lambda>qs. link_qers a qs h)) (find_qers mem s (pdr_qerId pdr))
             else Some (Some h))"

text \<open>The last steps: register, add to the list of all PDRs, publish, and undo when publishing fails.\<close>

definition install_pdr ::
  "('s, 'm, 'r, 'c) n4_env \<Rightarrow> ('s, 'm, 'r, 'c) upf_c \<Rightarrow> nat \<Rightarrow> rule_ptr \<Rightarrow> ('s, 'm, 'r, 'c) upf_c \<times> Status" where
  "install_pdr env u p a =
     (case UpfPDRRegisterToSession (n_node env) (Some (the_session u p)) a of
        (s, r) \<Rightarrow>
          (let u = set_session u p s in
           if \<not> reg_passes (n_garbage env) r then (u, STATUS_ERROR)
           else
             let u = u \<lparr>u_all_pdrs := UpfPDRGlobalAdd (n_node env) (u_all_pdrs u) (Some a)\<rparr> in
             case rebuild env u of
               (u, Some _) \<Rightarrow> (u, STATUS_OK)
             | (u, None) \<Rightarrow>
                 (let s = fst (UpfPDRDeregisterToSessionByID (shared_rules (u_heap u)) (Some (the_session u p))
                            (pdr_pdrId (h_pdr (u_heap u) a)));
                      u = set_session u p s
                  in (u \<lparr>u_all_pdrs := UpfPDRGlobalRemove (u_all_pdrs u) (Some a)\<rparr>, STATUS_ERROR))))"

definition UpfN4HandleCreatePdr ::
  "('s, 'm, 'r, 'c) n4_env \<Rightarrow> ('s, 'm, 'r, 'c) upf_c \<Rightarrow> nat \<Rightarrow> CreatePDR \<Rightarrow>
     (('s, 'm, 'r, 'c) upf_c \<times> Status) option" where
  "UpfN4HandleCreatePdr env u p c =
     (if \<not> present (cp_pDRID c) \<or> \<not> present (cp_precedence c) \<or> pi_presence (cp_pDI c) = 0 \<or>
         \<not> present (pi_sourceInterface (cp_pDI c)) then Some (u, STATUS_ERROR)
      else if UpfPDRFindByID (shared_rules (u_heap u)) (Some (the_session u p))
                (rte_be_to_cpu_16 (oct16 (tlv_value (cp_pDRID c)) 0)) \<noteq> None then Some (u, STATUS_ERROR)
      else case n_calloc env of
        None \<Rightarrow> Some (u, STATUS_ERROR)
      | Some a \<Rightarrow>
          do {
            pdr \<leftarrow> ConvertCreatePDRTlvToRule zero_pdr c;
            (case UpfN4SyncSessionPacketKeysFromPdi env u p (cp_pDI c) of
               (u, STATUS_OK) \<Rightarrow>
                 (case link_pdr a pdr (the_session u p) (u_heap u) of
                    None \<Rightarrow> None
                  | Some None \<Rightarrow> Some (u, STATUS_ERROR)
                  | Some (Some h) \<Rightarrow>
                      do {
                        pdr \<leftarrow> UpfPdrPrecompileSdf (n_junk env) (h_pdr h a) (n_accessPort env) (n_corePort env)
                                (n_sgiPort env);
                        let pdr = pdr \<lparr>pdr_session_index := s_index (the_session u p)\<rparr>;
                        Some (install_pdr env (u \<lparr>u_heap := h \<lparr>h_pdr := (h_pdr h)(a := pdr)\<rparr>\<rparr>) p a)
                      })
             | (u, _) \<Rightarrow> Some (u, STATUS_ERROR))
          })"

text \<open>An update changes the object in place: what is converted before an error stays.\<close>

definition relink_pdr :: "rule_ptr \<Rightarrow> UpfSession \<Rightarrow> rule_heap \<Rightarrow> (rule_heap \<times> Status) option" where
  "relink_pdr a s h =
     (let mem = shared_rules h; pdr = h_pdr h a;
          far = (if pdrf_farId (pdr_flags pdr) then UpfFARFindByID mem (Some s) (ucast (pdr_farId pdr)) else h_far_of h a);
          h = h \<lparr>h_far_of := (h_far_of h)(a := far)\<rparr>
      in if pdrf_farId (pdr_flags pdr) \<and> far = None then Some (h, STATUS_ERROR)
         else if \<not> pdrf_qerId (pdr_flags pdr) then Some (h, STATUS_OK)
         else case find_qers mem s (pdr_qerId pdr) of
           None \<Rightarrow> None
         | Some None \<Rightarrow> Some (h, STATUS_ERROR)
         | Some (Some qs) \<Rightarrow> Some (link_qers a qs h, STATUS_OK))"

definition UpfN4HandleUpdatePdr ::
  "('s, 'm, 'r, 'c) n4_env \<Rightarrow> ('s, 'm, 'r, 'c) upf_c \<Rightarrow> nat \<Rightarrow> UpdatePDR \<Rightarrow>
     (('s, 'm, 'r, 'c) upf_c \<times> Status) option" where
  "UpfN4HandleUpdatePdr env u p c =
     (if tlv_presence (up_pDRID c) \<noteq> 1 then Some (u, STATUS_ERROR)
      else case UpfPDRFindByID (shared_rules (u_heap u)) (Some (the_session u p))
                  (rte_be_to_cpu_16 (oct16 (tlv_value (up_pDRID c)) 0)) of
        None \<Rightarrow> Some (u, STATUS_ERROR)
      | Some a \<Rightarrow>
          do {
            pdr \<leftarrow> ConvertUpdatePDRTlvToRule (h_pdr (u_heap u) a) c;
            let u = u \<lparr>u_heap := (u_heap u) \<lparr>h_pdr := (h_pdr (u_heap u))(a := pdr)\<rparr>\<rparr>;
            (case UpfN4SyncSessionPacketKeysFromPdi env u p (up_pDI c) of
               (u, STATUS_OK) \<Rightarrow>
                 (case relink_pdr a (the_session u p) (u_heap u) of
                    None \<Rightarrow> None
                  | Some (h, STATUS_OK) \<Rightarrow>
                      do {
                        pdr \<leftarrow> UpfPdrPrecompileSdf (n_junk env) (h_pdr h a) (n_accessPort env) (n_corePort env)
                                (n_sgiPort env);
                        let pdr = pdr \<lparr>pdr_session_index := s_index (the_session u p)\<rparr>;
                        (case rebuild env (u \<lparr>u_heap := h \<lparr>h_pdr := (h_pdr h)(a := pdr)\<rparr>\<rparr>) of
                           (u, ver) \<Rightarrow> Some (u, if ver = None then STATUS_ERROR else STATUS_OK))
                      }
                  | Some (h, _) \<Rightarrow> Some (u \<lparr>u_heap := h\<rparr>, STATUS_ERROR))
             | (u, _) \<Rightarrow> Some (u, STATUS_ERROR))
          })"

definition UpfN4HandleRemovePdr ::
  "('s, 'm, 'r, 'c) n4_env \<Rightarrow> ('s, 'm, 'r, 'c) upf_c \<Rightarrow> nat \<Rightarrow> u16 \<Rightarrow> (('s, 'm, 'r, 'c) upf_c \<times> Status) option" where
  "UpfN4HandleRemovePdr env u p nPDRID =
     (let pdrID = rte_be_to_cpu_16 nPDRID in
      if pdrID = 0 then Some (u, STATUS_ERROR)
      else case UpfPDRDeregisterToSessionByIDEx (shared_rules (u_heap u)) (Some (the_session u p)) pdrID of
        (s, STATUS_OK, pdr) \<Rightarrow>
          (let u = set_session u p s;
               u = u \<lparr>u_all_pdrs := UpfPDRGlobalRemove (u_all_pdrs u) pdr\<rparr>
           in case rebuild env u of
                (u, None) \<Rightarrow>
                  (let u = set_session u p (fst (UpfPDRRegisterToSession (n_node env) (Some (the_session u p)) (the pdr)))
                   in Some (u \<lparr>u_all_pdrs := UpfPDRGlobalAdd (n_node env) (u_all_pdrs u) pdr\<rparr>, STATUS_ERROR))
              | (u, Some ver) \<Rightarrow>
                  do { cls \<leftarrow> PdrDeferFree (n_realloc env) pdr ver (u_cls u);
                       Some (u \<lparr>u_cls := cls\<rparr>, STATUS_OK) })
      | _ \<Rightarrow> Some (u, STATUS_ERROR))"

subsection \<open>FARs\<close>

text \<open>A FAR that cannot be converted or registered is not freed.\<close>

definition UpfN4HandleCreateFar ::
  "('s, 'm, 'r, 'c) n4_env \<Rightarrow> ('s, 'm, 'r, 'c) upf_c \<Rightarrow> nat \<Rightarrow> CreateFAR \<Rightarrow> ('s, 'm, 'r, 'c) upf_c \<times> Status" where
  "UpfN4HandleCreateFar env u p c =
     (if \<not> present (cf_fARID c) \<or> \<not> present (cf_applyAction c) then (u, STATUS_ERROR)
      else if UpfFARFindByID (shared_rules (u_heap u)) (Some (the_session u p))
                (ucast (rte_be_to_cpu_32 (oct32 (tlv_value (cf_fARID c)) 0))) \<noteq> None then (u, STATUS_ERROR)
      else case n_calloc env of
        None \<Rightarrow> (u, STATUS_ERROR)
      | Some a \<Rightarrow>
          (case ConvertCreateFARTlvToRule zero_far c of
             (far, STATUS_OK) \<Rightarrow>
               (case UpfFARRegisterToSession (n_node env) (Some (the_session u p)) a of
                  (s, r) \<Rightarrow>
                    (set_session (u \<lparr>u_heap := (u_heap u) \<lparr>h_far := (h_far (u_heap u))(a := far)\<rparr>\<rparr>) p s,
                     if reg_passes (n_garbage env) r then STATUS_OK else STATUS_ERROR))
           | (far, _) \<Rightarrow> (u, STATUS_ERROR)))"

text \<open>
  Buffered packets may leave once the action changes from buffering to forwarding; a report ends when its action
  is withdrawn.
\<close>

definition drain_session ::
  "('s, 'm, 'r, 'c) n4_env \<Rightarrow> nat \<Rightarrow> ('s, 'm, 'r, 'c) upf_c \<Rightarrow> ('s, 'm, 'r, 'c) upf_c" where
  "drain_session env p u =
     (case UpfSessionEnsureWorkerServiceId (u_store u) (Some p) (rte_be_to_cpu_32 (s_teid (the_session u p))) of
        (st, sid) \<Rightarrow>
          (let u = u \<lparr>u_store := st\<rparr> in
           if sid \<noteq> UPF_INVALID_SERVICE_ID
           then u \<lparr>u_msgs := u_msgs u @ snd (UpfSendEvt1 (n_send env 0) sid
                  UPF_EVENT_CLEAR_AND_DRAIN (of_int (s_index (the_session u p))))\<rparr>
           else u))"

definition clear_srr :: "nat \<Rightarrow> ('s, 'm, 'r, 'c) upf_c \<Rightarrow> ('s, 'm, 'r, 'c) upf_c" where
  "clear_srr p u = u \<lparr>u_store := upd_session (u_store u) p (\<lambda>s. s \<lparr>s_srr_flag := False\<rparr>)\<rparr>"

definition drains :: "u8 \<Rightarrow> u8 \<Rightarrow> bool" where
  "drains oldAction action \<longleftrightarrow>
     oldAction AND UPDK_FAR_APPLY_ACTION_BUFF \<noteq> 0 \<and> action AND UPDK_FAR_APPLY_ACTION_FORW \<noteq> 0"

definition ends_report :: "u8 \<Rightarrow> u8 \<Rightarrow> bool" where
  "ends_report oldAction action \<longleftrightarrow>
     oldAction AND UPDK_FAR_APPLY_ACTION_NOCP \<noteq> 0 \<and> action AND UPDK_FAR_APPLY_ACTION_NOCP = 0"

definition UpfN4HandleUpdateFar ::
  "('s, 'm, 'r, 'c) n4_env \<Rightarrow> ('s, 'm, 'r, 'c) upf_c \<Rightarrow> nat \<Rightarrow> UpdateFAR \<Rightarrow> ('s, 'm, 'r, 'c) upf_c \<times> Status" where
  "UpfN4HandleUpdateFar env u p c =
     (if \<not> present (uf_fARID c) then (u, STATUS_ERROR)
      else case UpfFARFindByID (shared_rules (u_heap u)) (Some (the_session u p))
                  (ucast (rte_be_to_cpu_32 (oct32 (tlv_value (uf_fARID c)) 0))) of
        None \<Rightarrow> (u, STATUS_ERROR)
      | Some a \<Rightarrow>
          (let oldAction = far_applyAction (h_far (u_heap u) a) in
           case ConvertUpdateFARTlvToRule (h_far (u_heap u) a) c of
             (far, status) \<Rightarrow>
               (let u = u \<lparr>u_heap := (u_heap u) \<lparr>h_far := (h_far (u_heap u))(a := far)\<rparr>\<rparr> in
                if status \<noteq> STATUS_OK then (u, STATUS_ERROR)
                else
                  let u = (if drains oldAction (far_applyAction far) then drain_session env p u else u);
                      u = (if ends_report oldAction (far_applyAction far) then clear_srr p u else u)
                  in (u, STATUS_OK))))"

definition UpfN4HandleRemoveFar ::
  "('s, 'm, 'r, 'c) upf_c \<Rightarrow> nat \<Rightarrow> u32 \<Rightarrow> ('s, 'm, 'r, 'c) upf_c \<times> Status" where
  "UpfN4HandleRemoveFar u p nFARID =
     (let farID = rte_be_to_cpu_32 nFARID in
      if farID = 0 then (u, STATUS_ERROR)
      else case UpfFARDeregisterToSessionByID (shared_rules (u_heap u)) (Some (the_session u p)) (ucast farID) of
        (s, status) \<Rightarrow> (set_session u p s, if status = STATUS_OK then STATUS_OK else STATUS_ERROR))"

subsection \<open>QERs\<close>

text \<open>No result when the search of the list of QERs comes to a null pointer.\<close>

definition UpfN4HandleCreateQer ::
  "('s, 'm, 'r, 'c) n4_env \<Rightarrow> ('s, 'm, 'r, 'c) upf_c \<Rightarrow> nat \<Rightarrow> CreateQER \<Rightarrow>
     (('s, 'm, 'r, 'c) upf_c \<times> Status) option" where
  "UpfN4HandleCreateQer env u p c =
     (if \<not> present (qi_qERID c) \<or> \<not> present (qi_gateStatus c) then Some (u, STATUS_ERROR)
      else do {
        found \<leftarrow> UpfQERFindByID (shared_rules (u_heap u)) (Some (the_session u p))
                  (ucast (rte_be_to_cpu_32 (oct32 (tlv_value (qi_qERID c)) 0)));
        (case (found, n_calloc env) of
           (None, Some a) \<Rightarrow>
             (case UpfQERRegisterToSession (n_node env) (Some (the_session u p)) (Some a) of
                (s, r) \<Rightarrow>
                  Some (set_session (u \<lparr>u_heap := (u_heap u)
                          \<lparr>h_qer := (h_qer (u_heap u))(a := ConvertCreateQERTlvToRule zero_qer c)\<rparr>\<rparr>) p s,
                        if reg_passes (n_garbage env) r then STATUS_OK else STATUS_ERROR))
         | _ \<Rightarrow> Some (u, STATUS_ERROR))
      })"

definition UpfN4HandleUpdateQer ::
  "('s, 'm, 'r, 'c) upf_c \<Rightarrow> nat \<Rightarrow> UpdateQER \<Rightarrow> (('s, 'm, 'r, 'c) upf_c \<times> Status) option" where
  "UpfN4HandleUpdateQer u p c =
     (if \<not> present (qi_qERID c) then Some (u, STATUS_ERROR)
      else do {
        found \<leftarrow> UpfQERFindByID (shared_rules (u_heap u)) (Some (the_session u p))
                  (ucast (rte_be_to_cpu_32 (oct32 (tlv_value (qi_qERID c)) 0)));
        (case found of
           None \<Rightarrow> Some (u, STATUS_ERROR)
         | Some a \<Rightarrow>
             Some (u \<lparr>u_heap := (u_heap u)
                     \<lparr>h_qer := (h_qer (u_heap u))(a := ConvertUpdateQERTlvToRule (h_qer (u_heap u) a) c)\<rparr>\<rparr>, STATUS_OK))
      })"

definition UpfN4HandleRemoveQer ::
  "('s, 'm, 'r, 'c) upf_c \<Rightarrow> nat \<Rightarrow> u32 \<Rightarrow> (('s, 'm, 'r, 'c) upf_c \<times> Status) option" where
  "UpfN4HandleRemoveQer u p nQERID =
     (let qerID = rte_be_to_cpu_32 nQERID in
      if qerID = 0 then Some (u, STATUS_ERROR)
      else do {
        (s, status) \<leftarrow> UpfQERDeregisterToSessionByID (shared_rules (u_heap u)) (Some (the_session u p)) (ucast qerID);
        Some (set_session u p s, if status = STATUS_OK then STATUS_OK else STATUS_ERROR)
      })"

end
