(* ===== verification/N4_Consistency.thy ===== *)
theory N4_Consistency
  imports N4_Rules "HOL-Library.Multiset"
begin

text \<open>
  What the rule handlers keep: the PDRs of every session stay in the list of all PDRs, their identifiers stay
  distinct, and the published classifier stays the one built from that list.
\<close>

subsection \<open>The invariant\<close>

definition all_pdrs :: "('s, 'm, 'r, 'c) upf_c \<Rightarrow> rule_ptr list" where
  "all_pdrs u = (case u_all_pdrs u of None \<Rightarrow> [] | Some l \<Rightarrow> l)"

definition session_pdrs :: "('s, 'm, 'r, 'c) upf_c \<Rightarrow> nat \<Rightarrow> rule_ptr list" where
  "session_pdrs u p = (case s_pdr_list (the_session u p) of None \<Rightarrow> [] | Some l \<Rightarrow> l)"

abbreviation pdr_id_of :: "('s, 'm, 'r, 'c) upf_c \<Rightarrow> rule_ptr \<Rightarrow> u16" where
  "pdr_id_of u a \<equiv> pdr_pdrId (h_pdr (u_heap u) a)"

definition rules_ok :: "('s, 'm, 'r, 'c) upf_c \<Rightarrow> bool" where
  "rules_ok u \<longleftrightarrow> distinct (all_pdrs u) \<and>
     (\<forall>p < length (session_data (u_store u)).
        distinct (map (pdr_id_of u) (session_pdrs u p)) \<and> set (session_pdrs u p) \<subseteq> set (all_pdrs u) \<and>
        (\<forall>q < length (session_data (u_store u)). q \<noteq> p \<longrightarrow> set (session_pdrs u p) \<inter> set (session_pdrs u q) = {}))"

text \<open>The replay TEIDs a rebuild uses, and the classifier it builds from a list of PDRs.\<close>

definition replay_teids :: "('s, 'm, 'r, 'c) n4_env \<Rightarrow> ('s, 'm, 'r, 'c) upf_c \<Rightarrow> u32 list" where
  "replay_teids env u = the (UpfParsePcapReplayTeids (n_getenv env) (u_replay u))"

definition built_from :: "('s, 'm, 'r, 'c) n4_env \<Rightarrow> ('s, 'm, 'r, 'c) upf_c \<Rightarrow> rule_ptr list \<Rightarrow> 'c option" where
  "built_from env u order =
     do { snap \<leftarrow> cls_create (n_cls env);
          build_snapshot (n_cls env) (h_pdr (u_heap u)) (replay_teids env u) order snap }"

definition in_sync :: "('s, 'm, 'r, 'c) n4_env \<Rightarrow> ('s, 'm, 'r, 'c) upf_c \<Rightarrow> bool" where
  "in_sync env u \<longleftrightarrow>
     cls_active (u_cls u) = None \<and> all_pdrs u = [] \<or>
     (\<exists>order. mset order = mset (all_pdrs u) \<and> cls_active (u_cls u) \<noteq> None \<and>
        built_from env u order = cls_active (u_cls u))"

subsection \<open>What the handlers leave alone\<close>

definition same_rule_lists :: "('s, 'm, 'r) session_store \<Rightarrow> ('s, 'm, 'r) session_store \<Rightarrow> bool" where
  "same_rule_lists st st' \<longleftrightarrow> length (session_data st') = length (session_data st) \<and> worker_cfg st' = worker_cfg st \<and>
     (\<forall>q. s_pdr_list (session_data st' ! q) = s_pdr_list (session_data st ! q) \<and>
          s_far_list (session_data st' ! q) = s_far_list (session_data st ! q) \<and>
          s_qer_list (session_data st' ! q) = s_qer_list (session_data st ! q) \<and>
          s_index (session_data st' ! q) = s_index (session_data st ! q))"

lemma same_rule_lists_refl [simp]: "same_rule_lists st st"
  by (simp add: same_rule_lists_def)

lemma same_rule_lists_trans:
  "same_rule_lists st st' \<Longrightarrow> same_rule_lists st' st'' \<Longrightarrow> same_rule_lists st st''"
  by (simp add: same_rule_lists_def)

lemma session_upd [simp]:
  "length (session_data (upd_session st p f)) = length (session_data st)"
  "worker_cfg (upd_session st p f) = worker_cfg st"
  "session_data (upd_session st p f) ! q =
     (if q = p \<and> p < length (session_data st) then f (session_data st ! p) else session_data st ! q)"
  by (auto simp: upd_session_def list_update_beyond)

lemma same_rule_lists_parts:
  "same_rule_lists st (st \<lparr>teid_hash := h\<rparr>)" "same_rule_lists st (st \<lparr>ueip_hash := h\<rparr>)"
  "same_rule_lists st (upd_session st p (\<lambda>s. s \<lparr>s_teid := t\<rparr>))"
  "same_rule_lists st (upd_session st p (\<lambda>s. s \<lparr>s_ueIpv4 := t\<rparr>))"
  by (auto simp: same_rule_lists_def)

lemma insert_same_lists:
  "InsertTEIDtoSessionMap L st t p = (st', r) \<Longrightarrow> same_rule_lists st st'"
  "InsertUEIPtoSessionMap L st t p = (st', r) \<Longrightarrow> same_rule_lists st st'"
  by (auto simp: InsertTEIDtoSessionMap_def InsertUEIPtoSessionMap_def Let_def split_beta
      intro: same_rule_lists_parts)

lemma free_same_lists:
  "same_rule_lists st (TeidToUpfSessionMapFree L st t)" "same_rule_lists st (UeIpToUpfSessionMapFree L st t)"
  by (simp_all add: TeidToUpfSessionMapFree_def UeIpToUpfSessionMapFree_def same_rule_lists_parts)

lemma update_teid_same_lists:
  assumes "UpfSessionUpdateTeid L st (Some p) t = (st', r)" shows "same_rule_lists st st'"
proof -
  obtain st1 r1 where i: "InsertTEIDtoSessionMap L st t p = (st1, r1)" by (metis surj_pair)
  let ?st2 = "upd_session st1 p (\<lambda>s. s \<lparr>s_teid := t\<rparr>)"
  have "same_rule_lists st st1" by (rule insert_same_lists(1) [OF i])
  moreover have "same_rule_lists st1 ?st2" by (rule same_rule_lists_parts)
  moreover have "same_rule_lists ?st2 (TeidToUpfSessionMapFree L ?st2 (s_teid (session_data st ! p)))"
    by (rule free_same_lists)
  moreover have "st' \<in> {st, st1, ?st2, TeidToUpfSessionMapFree L ?st2 (s_teid (session_data st ! p))}"
    using assms i by (auto simp: UpfSessionUpdateTeid_def Let_def split: if_splits)
  ultimately show ?thesis by (auto intro: same_rule_lists_trans)
qed

lemma update_ueip_same_lists:
  assumes "UpfSessionUpdateUeIP L st (Some p) t = (st', r)" shows "same_rule_lists st st'"
proof -
  obtain st1 r1 where i: "InsertUEIPtoSessionMap L st t p = (st1, r1)" by (metis surj_pair)
  let ?st2 = "upd_session st1 p (\<lambda>s. s \<lparr>s_ueIpv4 := t\<rparr>)"
  have "same_rule_lists st st1" by (rule insert_same_lists(2) [OF i])
  moreover have "same_rule_lists st1 ?st2" by (rule same_rule_lists_parts)
  moreover have "same_rule_lists ?st2 (UeIpToUpfSessionMapFree L ?st2 (s_ueIpv4 (session_data st ! p)))"
    by (rule free_same_lists)
  moreover have "st' \<in> {st, st1, ?st2, UeIpToUpfSessionMapFree L ?st2 (s_ueIpv4 (session_data st ! p))}"
    using assms i by (auto simp: UpfSessionUpdateUeIP_def Let_def split: if_splits)
  ultimately show ?thesis by (auto intro: same_rule_lists_trans)
qed

lemma alias_same_lists:
  assumes "UpfSessionEnsurePcapReplayTeidAlias L st p t = (st', r)" shows "same_rule_lists st st'"
  using assms
  by (auto simp: UpfSessionEnsurePcapReplayTeidAlias_def Let_def split: if_splits option.splits prod.splits
      intro: insert_same_lists)

lemma aliases_same_lists: "replay_aliases L p ts st = (st', r) \<Longrightarrow> same_rule_lists st st'"
proof (induction ts arbitrary: st)
  case (Cons t ts)
  obtain st1 r1 where a: "UpfSessionEnsurePcapReplayTeidAlias L st p t = (st1, r1)" by (metis surj_pair)
  show ?case
    using Cons.prems Cons.IH [of st1] alias_same_lists [OF a] a
    by (cases r1) (auto intro: same_rule_lists_trans)
qed simp

text \<open>Two states that differ in the indices of sessions and in messages only.\<close>

definition same_rules :: "('s, 'm, 'r, 'c) n4_env \<Rightarrow> ('s, 'm, 'r, 'c) upf_c \<Rightarrow> ('s, 'm, 'r, 'c) upf_c \<Rightarrow> bool" where
  "same_rules env u u' \<longleftrightarrow> u_heap u' = u_heap u \<and> u_all_pdrs u' = u_all_pdrs u \<and> u_cls u' = u_cls u \<and>
     same_rule_lists (u_store u) (u_store u') \<and> replay_teids env u' = replay_teids env u"

lemma replay_teids_get:
  assumes "UpfGetPcapReplayTeids (n_getenv env) u = (u', ts)"
  shows "ts = replay_teids env u \<and> replay_teids env u' = ts \<and> (\<exists>r. u' = u \<lparr>u_replay := r\<rparr>)"
  using assms
  by (auto simp: UpfGetPcapReplayTeids_def replay_teids_def UpfParsePcapReplayTeids_def Let_def split: option.splits)

lemma sync_same_rules:
  assumes "UpfN4SyncSessionPacketKeysFromPdi env u p pdi = (u', r)" shows "same_rules env u u'"
proof -
  let ?L = "n_lib env" and ?v = "tlv_value (pi_uEIPAddress pdi)"
  obtain st1 r1 where t: "UpfSessionUpdateTeid ?L (u_store u) (Some p) (oct32 (tlv_value (pi_localFTEID pdi)) 1) = (st1, r1)"
    by (metis surj_pair)
  obtain u2 ts where g: "UpfGetPcapReplayTeids (n_getenv env) (u \<lparr>u_store := st1\<rparr>) = (u2, ts)" by (metis surj_pair)
  obtain st3 r3 where al: "replay_aliases ?L p ts (u_store u2) = (st3, r3)" by (metis surj_pair)
  let ?C = "{u, u \<lparr>u_store := st1\<rparr>, u2 \<lparr>u_store := st3\<rparr>}"
  have C: "same_rules env u w" if "w \<in> ?C" for w
    using that replay_teids_get [OF g] aliases_same_lists [OF al] update_teid_same_lists [OF t]
    by (auto simp: same_rules_def replay_teids_def intro: same_rule_lists_trans)
  have ip: "same_rules env u (w \<lparr>u_store := fst (UpfSessionUpdateUeIP ?L (u_store w) (Some p) i)\<rparr>)" if "w \<in> ?C" for w i
    using C [OF that] update_ueip_same_lists [OF surjective_pairing]
    by (fastforce simp: same_rules_def replay_teids_def intro: same_rule_lists_trans)
  have "u' \<in> ?C \<or> (\<exists>w\<in>?C. \<exists>i. u' = w \<lparr>u_store := fst (UpfSessionUpdateUeIP ?L (u_store w) (Some p) i)\<rparr>)"
    using assms t g al unfolding UpfN4SyncSessionPacketKeysFromPdi_def Let_def split_beta by (auto split: if_splits)
  then show ?thesis using C ip by blast
qed

subsection \<open>Publishing\<close>

lemma build_snapshot_cong:
  "\<forall>a\<in>set order. mem a = mem' a \<Longrightarrow> build_snapshot lib mem ts order = build_snapshot lib mem' ts order"
  by (induction order) (rule ext, simp add: Let_def split_beta)+

lemma built_from_cong:
  assumes "\<forall>a\<in>set order. h_pdr (u_heap u') a = h_pdr (u_heap u) a" "replay_teids env u' = replay_teids env u"
  shows "built_from env u' order = built_from env u order"
  by (simp add: built_from_def assms(2) build_snapshot_cong [OF assms(1)])

lemma rebuild_fails:
  assumes "rebuild env u = (u', None)"
  shows "same_rules env u u' \<and> built_from env u (all_pdrs u) = None \<and> u_store u' = u_store u"
proof -
  obtain v ts where g: "UpfGetPcapReplayTeids (n_getenv env) u = (v, ts)" by (metis surj_pair)
  note r = replay_teids_get [OF g]
  let ?r = "UpfClsRebuildAndPublish (n_cls env) (h_pdr (u_heap v)) ts (n_send env) (worker_cfg (u_store v)) (all_pdrs v) (u_cls v)"
  have u': "u' = v \<lparr>u_cls := fst ?r, u_msgs := u_msgs v @ snd (snd ?r)\<rparr>" "fst (snd ?r) = None"
    using assms by (simp_all add: rebuild_def g all_pdrs_def split_beta)
  have "fst ?r = u_cls v" "built_from env u (all_pdrs u) = None"
    using u'(2) r unfolding UpfClsRebuildAndPublish_def built_from_def all_pdrs_def
    by (auto simp: Let_def split_beta split: option.splits)
  then show ?thesis using u'(1) r by (auto simp: same_rules_def replay_teids_def)
qed

lemma rebuild_publishes:
  assumes "rebuild env u = (u', Some ver)"
  shows "built_from env u (all_pdrs u) = cls_active (u_cls u') \<and> cls_active (u_cls u') \<noteq> None \<and>
    u_heap u' = u_heap u \<and> u_all_pdrs u' = u_all_pdrs u \<and> u_store u' = u_store u \<and>
    replay_teids env u' = replay_teids env u \<and> ver = cls_version (u_cls u') \<and>
    freed_pdrs (u_cls u') = freed_pdrs (u_cls u) \<and> g_pdr_retire (u_cls u') = g_pdr_retire (u_cls u) \<and>
    g_pdr_head (u_cls u') = g_pdr_head (u_cls u)"
proof -
  obtain v ts where g: "UpfGetPcapReplayTeids (n_getenv env) u = (v, ts)" by (metis surj_pair)
  note r = replay_teids_get [OF g]
  let ?r = "UpfClsRebuildAndPublish (n_cls env) (h_pdr (u_heap v)) ts (n_send env) (worker_cfg (u_store v)) (all_pdrs v) (u_cls v)"
  have u': "u' = v \<lparr>u_cls := fst ?r, u_msgs := u_msgs v @ snd (snd ?r)\<rparr>" "fst (snd ?r) = Some ver"
    using assms by (simp_all add: rebuild_def g all_pdrs_def split_beta)
  have "built_from env u (all_pdrs u) = cls_active (fst ?r) \<and> cls_active (fst ?r) \<noteq> None \<and> ver = cls_version (fst ?r) \<and>
      freed_pdrs (fst ?r) = freed_pdrs (u_cls v) \<and> g_pdr_retire (fst ?r) = g_pdr_retire (u_cls v) \<and>
      g_pdr_head (fst ?r) = g_pdr_head (u_cls v)"
    using u'(2) r unfolding UpfClsRebuildAndPublish_def built_from_def all_pdrs_def
    by (auto simp: Let_def split_beta upf_cls_publish_def UpfClsAckTrackerReset_def split: option.splits if_splits)
  then show ?thesis using u'(1) r by (auto simp: replay_teids_def)
qed

lemma rebuild_in_sync: "rebuild env u = (u', Some ver) \<Longrightarrow> in_sync env u'"
  using rebuild_publishes [of env u u' ver] built_from_cong [of "all_pdrs u" u' u env]
  by (auto simp: in_sync_def all_pdrs_def intro!: exI [of _ "all_pdrs u"])

lemma same_rules_keeps:
  assumes "same_rules env u u'"
  shows "rules_ok u' = rules_ok u" "in_sync env u' = in_sync env u" "all_pdrs u' = all_pdrs u"
    "session_pdrs u' p = session_pdrs u p"
proof -
  show eq: "all_pdrs u' = all_pdrs u" "session_pdrs u' p = session_pdrs u p" for p
    using assms by (simp_all add: same_rules_def all_pdrs_def session_pdrs_def same_rule_lists_def)
  show "rules_ok u' = rules_ok u"
    using assms by (simp add: rules_ok_def eq) (simp add: same_rules_def same_rule_lists_def)
  show "in_sync env u' = in_sync env u"
    using assms built_from_cong [of _ u' u env] by (simp add: in_sync_def eq) (simp add: same_rules_def)
qed

subsection \<open>Adding and removing a PDR\<close>

abbreviation sessions :: "('s, 'm, 'r, 'c) upf_c \<Rightarrow> nat" where
  "sessions u \<equiv> length (session_data (u_store u))"

lemma rules_ok_cong:
  assumes "rules_ok u" "all_pdrs u' = all_pdrs u" "\<forall>q. session_pdrs u' q = session_pdrs u q" "sessions u' = sessions u"
    and "\<forall>a\<in>set (all_pdrs u). pdr_id_of u' a = pdr_id_of u a"
  shows "rules_ok u'"
proof -
  have "map (pdr_id_of u') (session_pdrs u p) = map (pdr_id_of u) (session_pdrs u p)" if "p < sessions u" for p
    using assms(1,5) that by (auto simp: rules_ok_def)
  then show ?thesis using assms(1-4) unfolding rules_ok_def by metis
qed

lemma rules_ok_add:
  assumes "rules_ok u" "all_pdrs u' = all_pdrs u @ [a]" "sessions u' = sessions u" "p < sessions u"
    and "\<forall>q. session_pdrs u' q = (if q = p then session_pdrs u q @ [a] else session_pdrs u q)"
    and "a \<notin> set (all_pdrs u)" "u_heap u' = u_heap u" "pdr_id_of u a \<notin> pdr_id_of u ` set (session_pdrs u p)"
  shows "rules_ok u'"
proof -
  have "a \<notin> set (session_pdrs u q)" if "q < sessions u" for q
    using assms(1,6) that by (auto simp: rules_ok_def)
  then show ?thesis using assms by (auto simp: rules_ok_def)
qed

lemma rules_ok_del:
  assumes "rules_ok u" "all_pdrs u' = remove1 a (all_pdrs u)" "sessions u' = sessions u" "p < sessions u"
    and "\<forall>q. session_pdrs u' q = (if q = p then remove1 a (session_pdrs u q) else session_pdrs u q)"
    and "a \<in> set (session_pdrs u p)" "u_heap u' = u_heap u"
  shows "rules_ok u'"
proof -
  have d: "distinct (all_pdrs u)" "\<forall>q < sessions u. distinct (session_pdrs u q)"
    using assms(1) by (auto simp: rules_ok_def distinct_map)
  have "x \<notin> set (session_pdrs u q)" if "q < sessions u" "q \<noteq> p" "x \<in> set (session_pdrs u p)" for q x
    using assms(1,4) that unfolding rules_ok_def by blast
  moreover have "distinct (map (pdr_id_of u) (remove1 a (session_pdrs u p)))"
    using assms(1,4) by (auto simp: rules_ok_def distinct_map inj_on_def dest: notin_set_remove1)
  ultimately show ?thesis
    using assms d by (auto simp: rules_ok_def)
qed

lemma set_session_simps [simp]:
  "the_session (set_session u p (Some s)) q = (if q = p \<and> p < sessions u then s else the_session u q)"
  "sessions (set_session u p s') = sessions u"
  "u_heap (set_session u p s') = u_heap u" "u_all_pdrs (set_session u p s') = u_all_pdrs u"
  "u_cls (set_session u p s') = u_cls u" "u_replay (set_session u p s') = u_replay u"
  "u_msgs (set_session u p s') = u_msgs u" "worker_cfg (u_store (set_session u p s')) = worker_cfg (u_store u)"
  by (auto simp: set_session_def split: option.split)

lemma all_pdrs_set_session [simp]: "all_pdrs (set_session u p s') = all_pdrs u"
  by (simp add: all_pdrs_def)

lemma remove_first_last: "\<forall>x\<in>set l. \<not> P x \<Longrightarrow> P a \<Longrightarrow> remove_first P (l @ [a]) = Some l"
  by (induction l) (simp_all add: remove_first_Cons)

text \<open>
  The last steps of creating a PDR: either it is the last of both lists and the new classifier is published, or
  nothing changed but messages and the parsed variable.
\<close>

lemma install_pdr_effect:
  assumes i: "install_pdr env u p a = (u', status)"
    and n: "n_node env" "n_garbage env" and p: "p < sessions u" "s_pdr_list (the_session u p) = Some l"
    and a: "a \<notin> set (all_pdrs u)" "pdr_id_of u a \<notin> pdr_id_of u ` set l"
  shows "u_heap u' = u_heap u \<and> sessions u' = sessions u \<and> replay_teids env u' = replay_teids env u \<and>
    (\<forall>q. q \<noteq> p \<longrightarrow> the_session u' q = the_session u q) \<and>
    (status = STATUS_OK \<and> all_pdrs u' = all_pdrs u @ [a] \<and>
       the_session u' p = (the_session u p) \<lparr>s_pdr_list := Some (l @ [a])\<rparr> \<and>
       cls_active (u_cls u') = built_from env u (all_pdrs u @ [a]) \<and> cls_active (u_cls u') \<noteq> None \<or>
     status = STATUS_ERROR \<and> all_pdrs u' = all_pdrs u \<and> the_session u' p = the_session u p \<and> u_cls u' = u_cls u \<and>
       built_from env u (all_pdrs u @ [a]) = None)"
proof -
  define v where "v = (set_session u p (Some ((the_session u p) \<lparr>s_pdr_list := Some (l @ [a])\<rparr>)))
    \<lparr>u_all_pdrs := Some (all_pdrs u @ [a])\<rparr>"
  have v: "u_heap v = u_heap u" "sessions v = sessions u" "replay_teids env v = replay_teids env u"
    "all_pdrs v = all_pdrs u @ [a]" "u_cls v = u_cls u" "u_all_pdrs v = Some (all_pdrs u @ [a])"
    "\<And>q. the_session v q = (if q = p then (the_session u p) \<lparr>s_pdr_list := Some (l @ [a])\<rparr> else the_session u q)"
    using p(1) by (auto simp: v_def replay_teids_def all_pdrs_def)
  have g: "UpfPDRGlobalAdd True (u_all_pdrs u) (Some a) = Some (all_pdrs u @ [a])"
    by (simp add: UpfPDRGlobalAdd_def all_pdrs_def)
  have i': "install_pdr env u p a = (case rebuild env v of
       (u, Some _) \<Rightarrow> (u, STATUS_OK)
     | (u, None) \<Rightarrow>
         ((set_session u p (fst (UpfPDRDeregisterToSessionByID (shared_rules (u_heap u)) (Some (the_session u p))
             (pdr_id_of u a)))) \<lparr>u_all_pdrs := UpfPDRGlobalRemove (u_all_pdrs u) (Some a)\<rparr>, STATUS_ERROR))"
    using p(2) n by (simp add: install_pdr_def UpfPDRRegisterToSession_def reg_passes_def Let_def g v_def)
  obtain w r where w: "rebuild env v = (w, r)" by (metis surj_pair)
  have bf: "built_from env v (all_pdrs v) = built_from env u (all_pdrs u @ [a])"
    using v by (simp add: built_from_def)
  show ?thesis
  proof (cases r)
    case (Some ver)
    then have "u' = w" "status = STATUS_OK" using i i' w by simp_all
    then show ?thesis
      using rebuild_publishes [of env v w ver] w Some v bf by (auto simp: all_pdrs_def)
  next
    case None
    then have "same_rules env v w" "built_from env v (all_pdrs v) = None" "u_store w = u_store v"
      using rebuild_fails [of env v w] w by simp_all
    then have w': "u_heap w = u_heap u" "u_all_pdrs w = u_all_pdrs v" "u_cls w = u_cls u" "u_store w = u_store v"
      "replay_teids env w = replay_teids env u" "built_from env u (all_pdrs u @ [a]) = None"
      using v bf by (simp_all add: same_rules_def)
    have "remove_first (\<lambda>b. pdr_id_of u b = pdr_id_of u a) (l @ [a]) = Some l"
      using a(2) by (intro remove_first_last) (auto simp: image_iff)
    then have "fst (UpfPDRDeregisterToSessionByID (shared_rules (u_heap w)) (Some (the_session w p))
        (pdr_pdrId (h_pdr (u_heap w) a))) = Some (the_session u p)"
      using p(2) v by (simp add: UpfPDRDeregisterToSessionByID_def w' shared_rules_def)
    then have "u' = (set_session w p (Some (the_session u p))) \<lparr>u_all_pdrs := Some (remove1 a (all_pdrs u @ [a]))\<rparr>"
      "status = STATUS_ERROR"
      using i i' w None v by (simp_all add: Let_def UpfPDRGlobalRemove_def w')
    then show ?thesis
      using a(1) p(1) v w' by (auto simp: remove1_append all_pdrs_def replay_teids_def)
  qed
qed

subsection \<open>Identifiers\<close>

lemma fold_keeps: "(\<And>i x. f (g i x) = f x) \<Longrightarrow> f (fold g is x) = f x"
  by (induction "is" arbitrary: x) simp_all

lemma set_ids_keep_id [simp]:
  "pdr_pdrId (set_urr_ids ts pdr) = pdr_pdrId pdr" "pdr_pdrId (set_qer_ids ts pdr) = pdr_pdrId pdr"
  "pdr_pdrId (set_pdr_tail ohr far ts pdr) = pdr_pdrId pdr" "pdr_pdrId (add_qer_id t pdr) = pdr_pdrId pdr"
proof -
  show u: "pdr_pdrId (set_urr_ids ts pdr) = pdr_pdrId pdr" for pdr
    unfolding set_urr_ids_def by (rule fold_keeps) simp
  show "pdr_pdrId (set_qer_ids ts pdr) = pdr_pdrId pdr"
    unfolding set_qer_ids_def by (rule fold_keeps) simp
  show "pdr_pdrId (set_pdr_tail ohr far ts pdr) = pdr_pdrId pdr" by (simp add: set_pdr_tail_def u)
  show "pdr_pdrId (add_qer_id t pdr) = pdr_pdrId pdr" by (simp add: add_qer_id_def Let_def)
qed

lemma set_pdr_pdi_id: "set_pdr_pdi pdi pdr = Some r \<Longrightarrow> pdr_pdrId r = pdr_pdrId pdr"
  by (auto simp: set_pdr_pdi_def bind_eq_Some_conv split: if_splits)

lemma set_pdr_head_id: "present pid \<Longrightarrow> pdr_pdrId (set_pdr_head pid prec pdr) = rte_be_to_cpu_16 (oct16 (tlv_value pid) 0)"
  by (simp add: set_pdr_head_def Let_def)

lemma convert_keeps_id:
  "ConvertCreatePDRTlvToRule pdr c = Some r \<Longrightarrow> present (cp_pDRID c) \<Longrightarrow>
     pdr_pdrId r = rte_be_to_cpu_16 (oct16 (tlv_value (cp_pDRID c)) 0)"
  "ConvertUpdatePDRTlvToRule pdr d = Some r \<Longrightarrow> present (up_pDRID d) \<Longrightarrow>
     pdr_pdrId r = rte_be_to_cpu_16 (oct16 (tlv_value (up_pDRID d)) 0)"
  by (auto simp: ConvertCreatePDRTlvToRule_def ConvertUpdatePDRTlvToRule_def bind_eq_Some_conv set_pdr_head_id
      dest!: set_pdr_pdi_id)

lemma compile_to_id: "compile_to tmp pdr = Some r \<Longrightarrow> pdr_pdrId r = pdr_pdrId pdr"
  by (auto simp: compile_to_def Let_def bind_eq_Some_conv split: if_splits option.splits prod.splits)

lemma precompile_id: "UpfPdrPrecompileSdf junk pdr i j k = Some r \<Longrightarrow> pdr_pdrId r = pdr_pdrId pdr"
  unfolding UpfPdrPrecompileSdf_def Let_def
  by (auto simp: bind_eq_Some_conv split: if_splits option.splits dest!: compile_to_id)

text \<open>What linking changes: the links of the new object and its count of QERs.\<close>

definition relinked :: "rule_ptr \<Rightarrow> UPDK_PDR \<Rightarrow> rule_heap \<Rightarrow> rule_heap \<Rightarrow> bool" where
  "relinked a pdr h h' \<longleftrightarrow> h_far h' = h_far h \<and> h_qer h' = h_qer h \<and>
     (\<exists>x. h_pdr h' = (h_pdr h)(a := x) \<and> pdr_pdrId x = pdr_pdrId pdr \<and> pdr_flags x = pdr_flags pdr \<and>
          pdr_farId x = pdr_farId pdr \<and> pdr_pdi x = pdr_pdi pdr) \<and>
     (\<forall>b. b \<noteq> a \<longrightarrow> h_far_of h' b = h_far_of h b \<and> h_qer_of h' b = h_qer_of h b \<and> h_qers_of h' b = h_qers_of h b)"

lemma link_pdr_effect:
  assumes "link_pdr a pdr s h = Some (Some h')"
  shows "relinked a pdr h h' \<and>
    (pdrf_farId (pdr_flags pdr) \<longrightarrow>
       h_far_of h' a \<noteq> None \<and> h_far_of h' a = UpfFARFindByID (shared_rules h) (Some s) (ucast (pdr_farId pdr))) \<and>
    (pdrf_qerId (pdr_flags pdr) \<longrightarrow>
       (\<exists>qs. find_qers (shared_rules h) s (pdr_qerId pdr) = Some (Some qs) \<and> h_qers_of h' a = pad2 qs))"
  using assms unfolding link_pdr_def Let_def relinked_def
  by (cases "pdrf_farId (pdr_flags pdr)"; cases "pdrf_qerId (pdr_flags pdr)")
    (fastforce simp: link_qers_def fun_eq_iff split: option.splits)+

text \<open>Linking has no result only when the list of QERs holds a null pointer.\<close>

lemma qer_search_None: "qer_search P l = None \<Longrightarrow> None \<in> set l"
  by (induction l) (auto split: option.splits if_splits)

lemma find_qers_None: "find_qers mem s is = None \<Longrightarrow> \<exists>l. s_qer_list s = Some l \<and> None \<in> set l"
  by (induction "is")
    (auto simp: UpfQERFindByID_def bind_eq_None_conv dest: qer_search_None split: if_splits option.splits)

lemma link_pdr_None:
  "link_pdr a pdr s h = None \<Longrightarrow> pdrf_qerId (pdr_flags pdr) \<and> (\<exists>l. s_qer_list s = Some l \<and> None \<in> set l)"
  unfolding link_pdr_def Let_def by (auto dest: find_qers_None split: option.splits if_splits)

lemma relink_pdr_effect:
  assumes "relink_pdr a s h = Some (h', status)"
  shows "relinked a (h_pdr h a) h h'"
  using assms unfolding relink_pdr_def Let_def relinked_def
  by (auto simp: link_qers_def fun_eq_iff intro!: exI [of _ "h_pdr h' a"] split: if_splits option.splits)

lemma convert_sets_far:
  assumes "ConvertCreatePDRTlvToRule pdr c = Some r" "present (cp_fARID c)"
  shows "pdrf_farId (pdr_flags r) \<and> pdr_farId r = rte_be_to_cpu_32 (oct32 (tlv_value (cp_fARID c)) 0)"
proof -
  have q: "pdrf_farId (pdr_flags (set_qer_ids ts x)) = pdrf_farId (pdr_flags x)"
    "pdr_farId (set_qer_ids ts x) = pdr_farId x"
    "pdrf_farId (pdr_flags (set_urr_ids ts x)) = pdrf_farId (pdr_flags x)"
    "pdr_farId (set_urr_ids ts x) = pdr_farId x" for ts x
    unfolding set_qer_ids_def set_urr_ids_def by (rule fold_keeps, simp)+
  show ?thesis
    using assms by (auto simp: ConvertCreatePDRTlvToRule_def bind_eq_Some_conv q set_pdr_tail_def Let_def)
qed

subsection \<open>Creating a PDR\<close>

lemma shared_rules_simps [simp]:
  "mem_far (shared_rules h) = h_far h" "mem_qer (shared_rules h) = h_qer h"
  "pdr_pdrId (mem_pdr (shared_rules h) a) = pdr_pdrId (h_pdr h a)"
  "pdr_far (mem_pdr (shared_rules h) a) = map_option (h_far h) (h_far_of h a)"
  by (simp_all add: shared_rules_def)

lemma find_pdr_None:
  "s_pdr_list s = Some l \<Longrightarrow>
     UpfPDRFindByID (shared_rules h) (Some s) k = None \<longleftrightarrow> k \<notin> (\<lambda>a. pdr_pdrId (h_pdr h a)) ` set l"
  by (auto simp: UpfPDRFindByID_def find_None_iff shared_rules_def)

lemma find_far_heap: "h_far h = h_far h' \<Longrightarrow> UpfFARFindByID (shared_rules h) = UpfFARFindByID (shared_rules h')"
  by (intro ext) (simp add: UpfFARFindByID_def split: option.split)

text \<open>The state in which the new PDR is installed: keys synchronised, object converted, linked and compiled.\<close>

lemma create_pdr_cases:
  assumes c: "UpfN4HandleCreatePdr env u p c = Some (u', status)" and a: "n_calloc env = Some a"
    and p: "s_pdr_list (the_session u p) = Some l" "a \<notin> set l"
  obtains (refused) "status = STATUS_ERROR" "same_rules env u u'"
  | (installed) v where "install_pdr env v p a = (u', status)" "same_rules env u (v \<lparr>u_heap := u_heap u\<rparr>)"
      "present (cp_pDRID c)" "pdr_id_of v a = rte_be_to_cpu_16 (oct16 (tlv_value (cp_pDRID c)) 0)"
      "pdr_id_of v a \<notin> pdr_id_of u ` set l" "h_far (u_heap v) = h_far (u_heap u)" "h_qer (u_heap v) = h_qer (u_heap u)"
      "\<forall>b. b \<noteq> a \<longrightarrow> h_pdr (u_heap v) b = h_pdr (u_heap u) b"
      "present (cp_fARID c) \<Longrightarrow> \<exists>f. h_far_of (u_heap v) a = Some f \<and>
         UpfFARFindByID (shared_rules (u_heap v)) (Some (the_session v p))
           (ucast (rte_be_to_cpu_32 (oct32 (tlv_value (cp_fARID c)) 0))) = Some f"
proof -
  let ?id = "rte_be_to_cpu_16 (oct16 (tlv_value (cp_pDRID c)) 0)"
  let ?chk = "\<not> present (cp_pDRID c) \<or> \<not> present (cp_precedence c) \<or> pi_presence (cp_pDI c) = 0 \<or>
         \<not> present (pi_sourceInterface (cp_pDI c))"
  obtain w sy where w: "UpfN4SyncSessionPacketKeysFromPdi env u p (cp_pDI c) = (w, sy)" by (metis surj_pair)
  note same = sync_same_rules [OF w]
  consider (no) "?chk \<or> UpfPDRFindByID (shared_rules (u_heap u)) (Some (the_session u p)) ?id \<noteq> None"
    | (yes) pdr where "\<not> ?chk" "UpfPDRFindByID (shared_rules (u_heap u)) (Some (the_session u p)) ?id = None"
        "ConvertCreatePDRTlvToRule zero_pdr c = Some pdr"
    using c a by (fastforce simp: UpfN4HandleCreatePdr_def bind_eq_Some_conv split: if_splits)
  then show ?thesis
  proof cases
    case no
    then have "status = STATUS_ERROR" "u' = u" using c by (auto simp: UpfN4HandleCreatePdr_def split: if_splits)
    then show ?thesis by (intro refused) (simp_all add: same_rules_def)
  next
    case yes
    then have run: "(case (w, sy) of
               (u, STATUS_OK) \<Rightarrow>
                 (case link_pdr a pdr (the_session u p) (u_heap u) of
                    None \<Rightarrow> None
                  | Some None \<Rightarrow> Some (u, STATUS_ERROR)
                  | Some (Some h) \<Rightarrow>
                      do {
                        pdr \<leftarrow> UpfPdrPrecompileSdf (n_junk env) (h_pdr h a) (n_accessPort env) (n_corePort env)
                                (n_sgiPort env);
                        let pdr = pdr \<lparr>pdr_session_index := s_index (the_session u p)\<rparr>;
                        Some (install_pdr env (u \<lparr>u_heap := h \<lparr>h_pdr := (h_pdr h)(a := pdr)\<rparr>\<rparr>) p a)
                      })
             | (u, _) \<Rightarrow> Some (u, STATUS_ERROR)) = Some (u', status)"
      using c a unfolding UpfN4HandleCreatePdr_def w by (simp split: if_splits)
    show ?thesis
    proof (cases "sy = STATUS_OK \<and> link_pdr a pdr (the_session w p) (u_heap w) \<noteq> Some None")
      case False
      then have "status = STATUS_ERROR" "u' = w" using run by (cases sy; auto)+
      then show ?thesis using same by (intro refused) simp_all
    next
      case True
      then obtain h where h: "sy = STATUS_OK" "link_pdr a pdr (the_session w p) (u_heap w) = Some (Some h)"
        using run by (auto split: option.splits)
      then obtain r where r: "UpfPdrPrecompileSdf (n_junk env) (h_pdr h a) (n_accessPort env) (n_corePort env)
          (n_sgiPort env) = Some r"
        "install_pdr env (w \<lparr>u_heap := h \<lparr>h_pdr := (h_pdr h)(a := r \<lparr>pdr_session_index := s_index (the_session w p)\<rparr>)\<rparr>\<rparr>) p a
           = (u', status)"
        using run by (auto simp: bind_eq_Some_conv Let_def)
      note l = link_pdr_effect [OF h(2)]
      then have hs: "h_far h = h_far (u_heap u)" "h_qer h = h_qer (u_heap u)" "pdr_pdrId (h_pdr h a) = pdr_pdrId pdr"
        "\<forall>b. b \<noteq> a \<longrightarrow> h_pdr h b = h_pdr (u_heap u) b"
        using same by (auto simp: relinked_def same_rules_def)
      have "pdr_pdrId r = ?id"
        using precompile_id [OF r(1)] hs(3) convert_keeps_id(1) [OF yes(3)] yes(1) by simp
      moreover have "?id \<notin> pdr_id_of u ` set l" using yes(2) find_pdr_None [OF p(1)] by simp
      moreover have "same_rules env u (w \<lparr>u_heap := u_heap u\<rparr>)" using same by (simp add: same_rules_def replay_teids_def)
      moreover have "\<exists>f. h_far_of h a = Some f \<and> UpfFARFindByID (shared_rules h) (Some (the_session w p))
           (ucast (rte_be_to_cpu_32 (oct32 (tlv_value (cp_fARID c)) 0))) = Some f" if "present (cp_fARID c)"
        using l convert_sets_far [OF yes(3) that] find_far_heap [of h "u_heap w"] by (auto simp: relinked_def)
      moreover have "UpfFARFindByID (shared_rules (h \<lparr>h_pdr := x\<rparr>)) = UpfFARFindByID (shared_rules h)" for x
        by (rule find_far_heap) simp
      ultimately show ?thesis
        using hs yes(1) by (intro installed [OF r(2)]) simp_all
    qed
  qed
qed

lemma install_pdr_consistent:
  assumes i: "install_pdr env u p a = (u', status)"
    and n: "n_node env" "n_garbage env" and p: "p < sessions u" "s_pdr_list (the_session u p) = Some l"
    and a: "a \<notin> set (all_pdrs u)" "pdr_id_of u a \<notin> pdr_id_of u ` set l"
    and ok: "rules_ok u" "in_sync env u"
  shows "rules_ok u' \<and> in_sync env u'"
proof -
  note e = install_pdr_effect [OF i n p a]
  have l: "session_pdrs u p = l" using p(2) by (simp add: session_pdrs_def)
  have bf: "built_from env u' order = built_from env u order" for order
    using e by (intro built_from_cong) simp_all
  from e consider (yes) "all_pdrs u' = all_pdrs u @ [a]"
      "the_session u' p = (the_session u p) \<lparr>s_pdr_list := Some (l @ [a])\<rparr>"
      "cls_active (u_cls u') = built_from env u (all_pdrs u @ [a])" "cls_active (u_cls u') \<noteq> None"
    | (no) "all_pdrs u' = all_pdrs u" "the_session u' p = the_session u p" "u_cls u' = u_cls u" by blast
  then show ?thesis
  proof cases
    case yes
    have "\<forall>q. session_pdrs u' q = (if q = p then session_pdrs u q @ [a] else session_pdrs u q)"
      using e yes l by (simp add: session_pdrs_def)
    then have "rules_ok u'" using rules_ok_add [OF ok(1) yes(1) _ p(1) _ a(1)] e a(2) l by blast
    moreover have "in_sync env u'" using yes bf by (auto simp: in_sync_def intro!: exI [of _ "all_pdrs u'"])
    ultimately show ?thesis by simp
  next
    case no
    have "\<forall>q. session_pdrs u' q = session_pdrs u q" using e no by (metis session_pdrs_def)
    then have "rules_ok u'" using rules_ok_cong [OF ok(1) no(1)] e by simp
    moreover have "in_sync env u'" using ok(2) no bf by (simp add: in_sync_def)
    ultimately show ?thesis by simp
  qed
qed

text \<open>A change of PDR objects outside both lists is not seen.\<close>

lemma heap_change_consistent:
  assumes ok: "rules_ok u" "in_sync env u" and s: "same_rules env u (v \<lparr>u_heap := u_heap u\<rparr>)"
    and h: "\<forall>b\<in>set (all_pdrs u). h_pdr (u_heap v) b = h_pdr (u_heap u) b"
  shows "rules_ok v \<and> in_sync env v \<and> all_pdrs v = all_pdrs u \<and> (\<forall>q. session_pdrs v q = session_pdrs u q)"
proof -
  have eq: "all_pdrs v = all_pdrs u" "session_pdrs v q = session_pdrs u q" "sessions v = sessions u"
    "u_cls v = u_cls u" "replay_teids env v = replay_teids env u" for q
    using s by (auto simp: same_rules_def all_pdrs_def session_pdrs_def same_rule_lists_def replay_teids_def)
  have "built_from env v order = built_from env u order" if "mset order = mset (all_pdrs u)" for order
    using h mset_eq_setD [OF that] eq(5) by (intro built_from_cong) auto
  then have "in_sync env v" using ok(2) eq by (auto simp: in_sync_def)
  moreover have "rules_ok v" using h eq by (intro rules_ok_cong [OF ok(1)]) auto
  ultimately show ?thesis using eq by simp
qed

lemma create_pdr_consistent:
  assumes "UpfN4HandleCreatePdr env u p c = Some (u', status)"
    and n: "n_node env" "n_garbage env" and p: "p < sessions u" "s_pdr_list (the_session u p) \<noteq> None"
    and a: "\<forall>a. n_calloc env = Some a \<longrightarrow> a \<notin> set (all_pdrs u)" and ok: "rules_ok u" "in_sync env u"
  shows "rules_ok u' \<and> in_sync env u'"
proof (cases "n_calloc env")
  case None
  then have "u' = u" using assms(1) by (auto simp: UpfN4HandleCreatePdr_def split: if_splits)
  then show ?thesis using ok by simp
next
  case (Some a)
  then have fresh: "a \<notin> set (all_pdrs u)" using a by simp
  obtain l where l: "s_pdr_list (the_session u p) = Some l" "session_pdrs u p = l" "set l \<subseteq> set (all_pdrs u)"
    using p ok(1) by (auto simp: session_pdrs_def rules_ok_def)
  show ?thesis
  proof (rule create_pdr_cases [OF assms(1) Some l(1)])
    show "a \<notin> set l" using l fresh by auto
    assume "same_rules env u u'"
    then show ?thesis using ok same_rules_keeps [of env u u'] by simp
  next
    fix v
    assume v: "install_pdr env v p a = (u', status)" "same_rules env u (v \<lparr>u_heap := u_heap u\<rparr>)"
      "pdr_id_of v a \<notin> pdr_id_of u ` set l" "\<forall>b. b \<noteq> a \<longrightarrow> h_pdr (u_heap v) b = h_pdr (u_heap u) b"
    have h: "\<forall>b\<in>set (all_pdrs u). h_pdr (u_heap v) b = h_pdr (u_heap u) b" using v(4) fresh by auto
    note okv = heap_change_consistent [OF ok v(2) h]
    have "pdr_id_of v ` set l = pdr_id_of u ` set l" using h l(3) by (intro image_cong) auto
    then show ?thesis
      using v(2,3) okv fresh n p l
      by (intro install_pdr_consistent [OF v(1) n]) (auto simp: same_rules_def same_rule_lists_def)
  qed
qed

subsection \<open>Updating and removing a PDR\<close>

text \<open>States with the same lists of PDRs, whose identifiers did not change.\<close>

definition same_ids :: "('s, 'm, 'r, 'c) upf_c \<Rightarrow> ('s, 'm, 'r, 'c) upf_c \<Rightarrow> bool" where
  "same_ids u u' \<longleftrightarrow> all_pdrs u' = all_pdrs u \<and>
     (\<forall>q. s_pdr_list (the_session u' q) = s_pdr_list (the_session u q)) \<and> sessions u' = sessions u \<and>
     (\<forall>b. pdr_id_of u' b = pdr_id_of u b)"

lemma same_ids_ok: "rules_ok u \<Longrightarrow> same_ids u u' \<Longrightarrow> rules_ok u'"
  by (auto simp: same_ids_def session_pdrs_def intro: rules_ok_cong)

lemma same_ids_trans: "same_ids u v \<Longrightarrow> same_ids v w \<Longrightarrow> same_ids u w"
  by (simp add: same_ids_def)

lemma same_rules_ids: "same_rules env u u' \<Longrightarrow> same_ids u u'"
  by (simp add: same_ids_def same_rules_keeps(3)) (simp add: same_rules_def same_rule_lists_def)

lemma heap_ids: "(\<And>b. pdr_pdrId (h_pdr h b) = pdr_id_of u b) \<Longrightarrow> same_ids u (u \<lparr>u_heap := h\<rparr>)"
  by (simp add: same_ids_def all_pdrs_def session_pdrs_def)

lemma rebuild_ids: "rebuild env u = (u', ver) \<Longrightarrow> same_ids u u'"
  by (cases ver) (auto dest!: rebuild_fails rebuild_publishes same_rules_ids simp: same_ids_def all_pdrs_def session_pdrs_def)

lemma find_pdr_id: "UpfPDRFindByID (shared_rules h) s k = Some a \<Longrightarrow> pdr_pdrId (h_pdr h a) = k"
  by (auto simp: UpfPDRFindByID_def find_Some_iff split: option.splits)

lemma update_pdr_effect:
  assumes c: "UpfN4HandleUpdatePdr env u p c = Some (u', status)"
  shows "same_ids u u' \<and> (status = STATUS_OK \<longrightarrow> in_sync env u')"
proof -
  let ?id = "rte_be_to_cpu_16 (oct16 (tlv_value (up_pDRID c)) 0)"
  consider (no) "u' = u" "status = STATUS_ERROR"
    | (yes) a pdr where "tlv_presence (up_pDRID c) = 1"
        "UpfPDRFindByID (shared_rules (u_heap u)) (Some (the_session u p)) ?id = Some a"
        "ConvertUpdatePDRTlvToRule (h_pdr (u_heap u) a) c = Some pdr"
    using c by (auto simp: UpfN4HandleUpdatePdr_def bind_eq_Some_conv split: if_splits option.splits)
  then show ?thesis
  proof cases
    case no
    then show ?thesis by (simp add: same_ids_def)
  next
    case yes
    define v where "v = u \<lparr>u_heap := (u_heap u) \<lparr>h_pdr := (h_pdr (u_heap u))(a := pdr)\<rparr>\<rparr>"
    have "pdr_pdrId pdr = pdr_id_of u a"
      using convert_keeps_id(2) [OF yes(3)] find_pdr_id [OF yes(2)] yes(1) by simp
    then have uv: "same_ids u v" unfolding v_def by (intro heap_ids) simp
    obtain w sy where w: "UpfN4SyncSessionPacketKeysFromPdi env v p (up_pDI c) = (w, sy)" by (metis surj_pair)
    have uw: "same_ids u w" by (rule same_ids_trans [OF uv same_rules_ids [OF sync_same_rules [OF w]]])
    have run: "(case (w, sy) of
               (u, STATUS_OK) \<Rightarrow>
                 (case relink_pdr a (the_session u p) (u_heap u) of
                    None \<Rightarrow> None
                  | Some (h, STATUS_OK) \<Rightarrow>
                      do {
                        pdr \<leftarrow> UpfPdrPrecompileSdf (n_junk env) (h_pdr h a) (n_accessPort env) (n_corePort env)
                                (n_sgiPort env);
                        let pdr = pdr \<lparr>pdr_session_index := s_index (the_session u p)\<rparr>;
                        (case rebuild env (u \<lparr>u_heap := h \<lparr>h_pdr := (h_pdr h)(a := pdr)\<rparr>\<rparr>) of
                           (u, ver) \<Rightarrow> Some (u, if ver = None then STATUS_ERROR else STATUS_OK))
                      }
                  | Some (h, _) \<Rightarrow> Some (u \<lparr>u_heap := h\<rparr>, STATUS_ERROR))
             | (u, _) \<Rightarrow> Some (u, STATUS_ERROR)) = Some (u', status)"
      using c yes unfolding UpfN4HandleUpdatePdr_def by (simp add: v_def [symmetric] w)
    consider (keys) "status = STATUS_ERROR" "u' = w"
      | (linked) h rl where "sy = STATUS_OK" "relink_pdr a (the_session w p) (u_heap w) = Some (h, rl)"
      using run by (cases sy) (auto split: option.splits)
    then show ?thesis
    proof cases
      case keys
      then show ?thesis using uw by simp
    next
    case linked
    note r = linked(2)
    have hi: "pdr_pdrId (h_pdr h b) = pdr_id_of w b" for b
      using relink_pdr_effect [OF r] by (auto simp: relinked_def)
    consider (refused) "status = STATUS_ERROR" "u' \<in> {w, w \<lparr>u_heap := h\<rparr>}"
      | (go) x ver where "pdr_pdrId x = pdr_pdrId (h_pdr h a)"
          "rebuild env (w \<lparr>u_heap := h \<lparr>h_pdr := (h_pdr h)(a := x)\<rparr>\<rparr>) = (u', ver)"
          "status = (if ver = None then STATUS_ERROR else STATUS_OK)"
    proof (cases "sy = STATUS_OK \<and> rl = STATUS_OK")
      case True
      then obtain y where y: "UpfPdrPrecompileSdf (n_junk env) (h_pdr h a) (n_accessPort env) (n_corePort env)
          (n_sgiPort env) = Some y"
        using run r by (auto simp: bind_eq_Some_conv)
      let ?w = "w \<lparr>u_heap := h \<lparr>h_pdr := (h_pdr h)(a := y \<lparr>pdr_session_index := s_index (the_session w p)\<rparr>)\<rparr>\<rparr>"
      obtain z ver where z: "rebuild env ?w = (z, ver)" by (metis surj_pair)
      have "z = u'" "status = (if ver = None then STATUS_ERROR else STATUS_OK)" using run r True y z by auto
      then show ?thesis using precompile_id [OF y] z by (intro go [of "y \<lparr>pdr_session_index := s_index (the_session w p)\<rparr>"]) simp_all
    next
      case False
      then show ?thesis using run r by (intro refused; cases sy; cases rl) auto
    qed
    then show ?thesis
    proof cases
      case refused
      then show ?thesis using uw heap_ids [of h w, OF hi] same_ids_trans by fastforce
    next
      case go
      have "same_ids w (w \<lparr>u_heap := h \<lparr>h_pdr := (h_pdr h)(a := x)\<rparr>\<rparr>)"
        using go(1) hi by (intro heap_ids) simp
      then have "same_ids u u'" by (rule same_ids_trans [OF same_ids_trans [OF uw] rebuild_ids [OF go(2)]])
      moreover have "in_sync env u'" if "status = STATUS_OK"
        using that go by (cases ver) (auto intro: rebuild_in_sync)
      ultimately show ?thesis by simp
    qed
    qed
  qed
qed

lemma find_index_remove1:
  assumes "find_index P l = Some i" "distinct l"
  shows "take i l @ drop (Suc i) l = remove1 (l ! i) l \<and> l ! i \<in> set l \<and> P (l ! i)"
proof -
  have i: "i < length l" "P (l ! i)" using find_index_SomeD [OF assms(1)] by auto
  then have "l ! i \<notin> set (take i l)"
    using assms(2) by (auto simp: in_set_conv_nth nth_eq_iff_index_eq)
  then have "remove1 (l ! i) (take i l @ l ! i # drop (Suc i) l) = take i l @ drop (Suc i) l"
    by (simp add: remove1_append)
  then show ?thesis using i id_take_nth_drop [OF i(1)] by simp
qed

lemma dereg_pdr_cases:
  assumes "UpfPDRDeregisterToSessionByIDEx (shared_rules h) (Some s) k = (s', status, pdr)"
    and "s_pdr_list s = Some l" "distinct l"
  obtains (no) "status = STATUS_ERROR"
  | (yes) a where "status = STATUS_OK" "pdr = Some a" "a \<in> set l" "pdr_pdrId (h_pdr h a) = k"
      "s' = Some (s \<lparr>s_pdr_list := Some (remove1 a l)\<rparr>)"
proof (cases "find_index (\<lambda>a. pdr_pdrId (h_pdr h a) = k) l")
  case None
  then show ?thesis using assms(1,2) no by (auto simp: UpfPDRDeregisterToSessionByIDEx_def)
next
  case (Some i)
  then show ?thesis
    using assms(1,2) find_index_remove1 [OF Some assms(3)] yes [of "l ! i"]
    by (auto simp: UpfPDRDeregisterToSessionByIDEx_def)
qed

lemma defer_free_keeps:
  "PdrDeferFree realloc pdr ver c = Some c' \<Longrightarrow>
     cls_active c' = cls_active c \<and> cls_version c' = cls_version c \<and> freed_pdrs c' = freed_pdrs c"
  by (auto simp: PdrDeferFree_def PdrRetireQEnsure_def Let_def bind_eq_Some_conv split: option.splits if_splits)

text \<open>
  A removed PDR leaves both lists and the new classifier, its memory is handed to the queue of retired PDRs and not
  freed; when publishing fails it is the last of both lists again.
\<close>

lemma remove_pdr_effect:
  assumes r: "UpfN4HandleRemovePdr env u p k = Some (u', status)"
    and n: "n_node env" and p: "p < sessions u" "s_pdr_list (the_session u p) = Some l" and d: "distinct l"
  shows "u' = u \<and> status = STATUS_ERROR \<or>
    (\<exists>a v. a \<in> set l \<and> pdr_id_of u a = rte_be_to_cpu_16 k \<and> u_heap v = u_heap u \<and> sessions v = sessions u \<and>
       all_pdrs v = remove1 a (all_pdrs u) \<and> replay_teids env v = replay_teids env u \<and> u_cls v = u_cls u \<and>
       (\<forall>q. the_session v q = (if q = p then (the_session u p) \<lparr>s_pdr_list := Some (remove1 a l)\<rparr> else the_session u q)) \<and>
       u_heap u' = u_heap u \<and> sessions u' = sessions u \<and> replay_teids env u' = replay_teids env u \<and>
       (status = STATUS_OK \<and> u_store u' = u_store v \<and> all_pdrs u' = all_pdrs v \<and>
          freed_pdrs (u_cls u') = freed_pdrs (u_cls u) \<and>
          cls_active (u_cls u') = built_from env v (all_pdrs v) \<and> cls_active (u_cls u') \<noteq> None \<or>
        status = STATUS_ERROR \<and> u_cls u' = u_cls u \<and> all_pdrs u' = all_pdrs v @ [a] \<and>
          (\<forall>q. the_session u' q =
             (if q = p then (the_session u p) \<lparr>s_pdr_list := Some (remove1 a l @ [a])\<rparr> else the_session u q))))"
proof -
  obtain s' st pdr where e: "UpfPDRDeregisterToSessionByIDEx (shared_rules (u_heap u)) (Some (the_session u p))
      (rte_be_to_cpu_16 k) = (s', st, pdr)" by (metis prod_cases3)
  show ?thesis
  proof (cases rule: dereg_pdr_cases [OF e p(2) d])
    case 1
    then show ?thesis using r e by (auto simp: UpfN4HandleRemovePdr_def Let_def split: if_splits)
  next
    case (2 a)
    show ?thesis
    proof (cases "rte_be_to_cpu_16 k = 0")
      case True
      then show ?thesis using r by (simp add: UpfN4HandleRemovePdr_def)
    next
      case k: False
      define v where "v = (set_session u p s') \<lparr>u_all_pdrs := UpfPDRGlobalRemove (u_all_pdrs u) pdr\<rparr>"
      have v: "u_heap v = u_heap u" "sessions v = sessions u" "all_pdrs v = remove1 a (all_pdrs u)" "u_cls v = u_cls u"
        "replay_teids env v = replay_teids env u"
        "\<And>q. the_session v q = (if q = p then (the_session u p) \<lparr>s_pdr_list := Some (remove1 a l)\<rparr> else the_session u q)"
        using 2 p(1) by (auto simp: v_def replay_teids_def all_pdrs_def UpfPDRGlobalRemove_def split: option.split)
      obtain w ver where w: "rebuild env v = (w, ver)" by (metis surj_pair)
      have run: "(case ver of
          None \<Rightarrow> Some ((set_session w p (fst (UpfPDRRegisterToSession (n_node env) (Some (the_session w p)) a)))
                    \<lparr>u_all_pdrs := UpfPDRGlobalAdd (n_node env) (u_all_pdrs w) pdr\<rparr>, STATUS_ERROR)
        | Some ver \<Rightarrow> do { cls \<leftarrow> PdrDeferFree (n_realloc env) pdr ver (u_cls w);
                          Some (w \<lparr>u_cls := cls\<rparr>, STATUS_OK) }) = Some (u', status)"
        using r e k 2 w [unfolded v_def] unfolding UpfN4HandleRemovePdr_def
        by (cases ver) (simp_all add: Let_def)
      show ?thesis
      proof (cases ver)
        case None
        then have "same_rules env v w" "u_store w = u_store v" using rebuild_fails [of env v w] w by simp_all
        then have w': "u_heap w = u_heap u" "u_all_pdrs w = u_all_pdrs v" "u_cls w = u_cls u" "sessions w = sessions u"
          "replay_teids env w = replay_teids env u" "\<And>q. the_session w q = the_session v q"
          using v by (simp_all add: same_rules_def)
        have u': "status = STATUS_ERROR" "u' = (set_session w p (Some ((the_session u p) \<lparr>s_pdr_list := Some (remove1 a l @ [a])\<rparr>)))
            \<lparr>u_all_pdrs := Some (all_pdrs v @ [a])\<rparr>"
          using run None n 2 v by (simp_all add: UpfPDRRegisterToSession_def w' UpfPDRGlobalAdd_def all_pdrs_def)
        then show ?thesis
          using 2 v w' p(1) by (intro disjI2 exI [of _ a] exI [of _ v]) (auto simp: all_pdrs_def replay_teids_def)
      next
        case (Some ver')
        then obtain cls where c: "PdrDeferFree (n_realloc env) pdr ver' (u_cls w) = Some cls" "u' = w \<lparr>u_cls := cls\<rparr>"
          "status = STATUS_OK" using run by (auto simp: bind_eq_Some_conv)
        then show ?thesis
          using 2 v w Some rebuild_publishes [of env v w ver'] defer_free_keeps [OF c(1)]
          by (intro disjI2 exI [of _ a] exI [of _ v]) (auto simp: all_pdrs_def replay_teids_def)
      qed
    qed
  qed
qed

lemma remove_pdr_consistent:
  assumes r: "UpfN4HandleRemovePdr env u p k = Some (u', status)"
    and n: "n_node env" and p: "p < sessions u" "s_pdr_list (the_session u p) \<noteq> None"
    and ok: "rules_ok u" "in_sync env u"
  shows "rules_ok u' \<and> in_sync env u'"
proof -
  obtain l where l: "s_pdr_list (the_session u p) = Some l" "session_pdrs u p = l" using p(2) by (auto simp: session_pdrs_def)
  have d: "distinct (map (pdr_id_of u) l)" "set l \<subseteq> set (all_pdrs u)" "distinct l"
    using ok(1) p(1) l(2) by (auto simp: rules_ok_def distinct_map)
  show ?thesis
  proof (cases "u' = u")
    case True
    then show ?thesis using ok by simp
  next
    case False
    then obtain a v where c: "a \<in> set l" "u_heap v = u_heap u" "sessions v = sessions u"
        "all_pdrs v = remove1 a (all_pdrs u)" "replay_teids env v = replay_teids env u"
        "\<forall>q. the_session v q = (if q = p then (the_session u p) \<lparr>s_pdr_list := Some (remove1 a l)\<rparr> else the_session u q)"
        "u_heap u' = u_heap u" "sessions u' = sessions u" "replay_teids env u' = replay_teids env u"
      and e: "u_store u' = u_store v \<and> all_pdrs u' = all_pdrs v \<and>
          cls_active (u_cls u') = built_from env v (all_pdrs v) \<and> cls_active (u_cls u') \<noteq> None \<or>
        u_cls u' = u_cls u \<and> all_pdrs u' = all_pdrs v @ [a] \<and>
          (\<forall>q. the_session u' q =
             (if q = p then (the_session u p) \<lparr>s_pdr_list := Some (remove1 a l @ [a])\<rparr> else the_session u q))"
      using remove_pdr_effect [OF r n p(1) l(1) d(3)] by blast
    have v: "rules_ok v" by (rule rules_ok_del [OF ok(1) c(4,3) p(1)]) (use c l in \<open>auto simp: session_pdrs_def\<close>)
    have a: "a \<in> set (all_pdrs u)" "distinct (all_pdrs u)" using c(1) d(2) ok(1) by (auto simp: rules_ok_def)
    have bf: "built_from env u' order = built_from env u order" "built_from env v order = built_from env u order" for order
      using c by (intro built_from_cong; simp)+
    from e show ?thesis
    proof (elim disjE conjE)
      assume g: "u_store u' = u_store v" "all_pdrs u' = all_pdrs v"
        "cls_active (u_cls u') = built_from env v (all_pdrs v)" "cls_active (u_cls u') \<noteq> None"
      have "rules_ok u'" using c g by (intro rules_ok_cong [OF v]) (auto simp: session_pdrs_def)
      then show ?thesis using g bf by (auto simp: in_sync_def intro!: exI [of _ "all_pdrs v"])
    next
      assume g: "u_cls u' = u_cls u" "all_pdrs u' = all_pdrs v @ [a]" and s: "\<forall>q. the_session u' q =
             (if q = p then (the_session u p) \<lparr>s_pdr_list := Some (remove1 a l @ [a])\<rparr> else the_session u q)"
      have "pdr_id_of v a \<notin> pdr_id_of v ` set (session_pdrs v p)"
        using c d(1,3) by (auto simp: session_pdrs_def distinct_map inj_on_def)
      then have "rules_ok u'"
        by (intro rules_ok_add [OF v g(2)]) (use c a p(1) s in \<open>auto simp: session_pdrs_def\<close>)
      moreover have "mset (all_pdrs u') = mset (all_pdrs u)" using c(4) g(2) a by simp
      moreover have "all_pdrs u \<noteq> []" using a by auto
      ultimately show ?thesis using ok(2) g(1) bf by (simp add: in_sync_def)
    qed
  qed
qed

subsection \<open>Every handler\<close>

datatype n4_call =
    Create_PDR CreatePDR | Update_PDR UpdatePDR | Remove_PDR u16
  | Create_FAR CreateFAR | Update_FAR UpdateFAR | Remove_FAR u32
  | Create_QER CreateQER | Update_QER UpdateQER | Remove_QER u32

definition n4_exec ::
  "('s, 'm, 'r, 'c) n4_env \<Rightarrow> n4_call \<Rightarrow> ('s, 'm, 'r, 'c) upf_c \<Rightarrow> nat \<Rightarrow> (('s, 'm, 'r, 'c) upf_c \<times> Status) option" where
  "n4_exec env call u p =
     (case call of
        Create_PDR c \<Rightarrow> UpfN4HandleCreatePdr env u p c
      | Update_PDR c \<Rightarrow> UpfN4HandleUpdatePdr env u p c
      | Remove_PDR k \<Rightarrow> UpfN4HandleRemovePdr env u p k
      | Create_FAR c \<Rightarrow> Some (UpfN4HandleCreateFar env u p c)
      | Update_FAR c \<Rightarrow> Some (UpfN4HandleUpdateFar env u p c)
      | Remove_FAR k \<Rightarrow> Some (UpfN4HandleRemoveFar u p k)
      | Create_QER c \<Rightarrow> UpfN4HandleCreateQer env u p c
      | Update_QER c \<Rightarrow> UpfN4HandleUpdateQer u p c
      | Remove_QER k \<Rightarrow> UpfN4HandleRemoveQer u p k)"

text \<open>The FAR and QER handlers change neither a PDR nor a list of PDRs.\<close>

definition pdrs_untouched :: "('s, 'm, 'r, 'c) upf_c \<Rightarrow> ('s, 'm, 'r, 'c) upf_c \<Rightarrow> bool" where
  "pdrs_untouched u u' \<longleftrightarrow> h_pdr (u_heap u') = h_pdr (u_heap u) \<and> u_all_pdrs u' = u_all_pdrs u \<and> u_cls u' = u_cls u \<and>
     u_replay u' = u_replay u \<and> sessions u' = sessions u \<and>
     (\<forall>q. s_pdr_list (the_session u' q) = s_pdr_list (the_session u q))"

lemma pdrs_untouched_consistent:
  assumes "pdrs_untouched u u'" "rules_ok u" "in_sync env u"
  shows "rules_ok u' \<and> in_sync env u'"
proof -
  have eq: "all_pdrs u' = all_pdrs u" "session_pdrs u' q = session_pdrs u q" "sessions u' = sessions u" for q
    using assms(1) by (simp_all add: pdrs_untouched_def all_pdrs_def session_pdrs_def)
  have "built_from env u' order = built_from env u order" for order
    using assms(1) by (intro built_from_cong) (simp_all add: pdrs_untouched_def replay_teids_def)
  then have "in_sync env u'" using assms(1,3) by (simp add: in_sync_def eq pdrs_untouched_def)
  moreover have "rules_ok u'" using eq assms(1) by (intro rules_ok_cong [OF assms(2)]) (simp_all add: pdrs_untouched_def)
  ultimately show ?thesis by simp
qed

lemma set_session_untouched:
  "s_pdr_list s = s_pdr_list (the_session u p) \<Longrightarrow> pdrs_untouched u (set_session u p (Some s))"
  by (simp add: pdrs_untouched_def)

lemma untouched_trans: "pdrs_untouched u v \<Longrightarrow> pdrs_untouched v w \<Longrightarrow> pdrs_untouched u w"
  by (simp add: pdrs_untouched_def)

lemma untouched_refl [simp]: "pdrs_untouched u u"
  by (simp add: pdrs_untouched_def)

lemma heap_untouched: "h_pdr h = h_pdr (u_heap u) \<Longrightarrow> pdrs_untouched u (u \<lparr>u_heap := h\<rparr>)"
  by (simp add: pdrs_untouched_def)

lemma register_far_untouched:
  "UpfFARRegisterToSession n (Some (the_session u p)) a = (s, r) \<Longrightarrow> pdrs_untouched u (set_session u p s)"
  by (auto simp: UpfFARRegisterToSession_def intro!: set_session_untouched split: option.splits if_splits)

lemma register_qer_untouched:
  "UpfQERRegisterToSession n (Some (the_session u p)) a = (s, r) \<Longrightarrow> pdrs_untouched u (set_session u p s)"
  by (auto simp: UpfQERRegisterToSession_def intro!: set_session_untouched split: option.splits if_splits)

lemma create_far_untouched: "UpfN4HandleCreateFar env u p c = (u', r) \<Longrightarrow> pdrs_untouched u u'"
  unfolding UpfN4HandleCreateFar_def
  by (auto intro!: untouched_trans [OF heap_untouched register_far_untouched]
      split: if_splits option.splits prod.splits Status.splits)

lemma create_qer_untouched: "UpfN4HandleCreateQer env u p c = Some (u', r) \<Longrightarrow> pdrs_untouched u u'"
  unfolding UpfN4HandleCreateQer_def
  by (auto simp: bind_eq_Some_conv intro!: untouched_trans [OF heap_untouched register_qer_untouched]
      split: if_splits option.splits prod.splits)

lemma update_qer_untouched: "UpfN4HandleUpdateQer u p c = Some (u', r) \<Longrightarrow> pdrs_untouched u u'"
  by (auto simp: UpfN4HandleUpdateQer_def bind_eq_Some_conv intro!: heap_untouched split: if_splits option.splits)

lemma remove_far_untouched: "UpfN4HandleRemoveFar u p k = (u', r) \<Longrightarrow> pdrs_untouched u u'"
  by (auto simp: UpfN4HandleRemoveFar_def UpfFARDeregisterToSessionByID_def Let_def intro!: set_session_untouched
      split: if_splits option.splits prod.splits)

lemma deregister_qer_untouched:
  "UpfQERDeregisterToSessionByID mem (Some (the_session u p)) k = Some (s, r) \<Longrightarrow> pdrs_untouched u (set_session u p s)"
  by (auto simp: UpfQERDeregisterToSessionByID_def intro!: set_session_untouched split: option.splits)

lemma remove_qer_untouched: "UpfN4HandleRemoveQer u p k = Some (u', r) \<Longrightarrow> pdrs_untouched u u'"
  by (auto simp: UpfN4HandleRemoveQer_def bind_eq_Some_conv Let_def intro: deregister_qer_untouched split: if_splits)

lemma ensure_worker_cases:
  assumes "UpfSessionEnsureWorkerServiceId st (Some p) t = (st', sid)"
  shows "st' = st \<or> st' = upd_session st p (\<lambda>s. s \<lparr>s_worker_service_id := sid\<rparr>)"
  using assms by (auto simp: UpfSessionEnsureWorkerServiceId_def Let_def split: if_splits)

text \<open>The two effects of an update beyond the rule itself.\<close>

lemma drain_session_effect:
  assumes "UpfSessionEnsureWorkerServiceId (u_store u) (Some p) (rte_be_to_cpu_32 (s_teid (the_session u p))) = (st, sid)"
  shows "drain_session env p u = u \<lparr>u_store := st, u_msgs := u_msgs u @ (if sid \<noteq> UPF_INVALID_SERVICE_ID
      then snd (UpfSendEvt1 (n_send env 0) sid UPF_EVENT_CLEAR_AND_DRAIN (of_int (s_index (the_session u p)))) else [])\<rparr>"
proof -
  have "s_index (session_data st ! p) = s_index (the_session u p)" using ensure_worker_cases [OF assms] by auto
  then show ?thesis using assms by (simp add: drain_session_def Let_def)
qed

lemma clear_srr_simps [simp]:
  "u_heap (clear_srr p u) = u_heap u" "u_msgs (clear_srr p u) = u_msgs u" "u_all_pdrs (clear_srr p u) = u_all_pdrs u"
  "u_cls (clear_srr p u) = u_cls u" "u_replay (clear_srr p u) = u_replay u" "sessions (clear_srr p u) = sessions u"
  "the_session (clear_srr p u) q =
     (if q = p \<and> p < sessions u then (the_session u p) \<lparr>s_srr_flag := False\<rparr> else the_session u q)"
  by (simp_all add: clear_srr_def)

lemma update_far_result:
  assumes "present (uf_fARID c)"
      "UpfFARFindByID (shared_rules (u_heap u)) (Some (the_session u p))
         (ucast (rte_be_to_cpu_32 (oct32 (tlv_value (uf_fARID c)) 0))) = Some a"
    and "ConvertUpdateFARTlvToRule (h_far (u_heap u) a) c = (far, STATUS_OK)"
  defines "v \<equiv> u \<lparr>u_heap := (u_heap u) \<lparr>h_far := (h_far (u_heap u))(a := far)\<rparr>\<rparr>"
    and "old \<equiv> far_applyAction (h_far (u_heap u) a)"
  shows "UpfN4HandleUpdateFar env u p c =
    ((let w = if drains old (far_applyAction far) then drain_session env p v else v
      in if ends_report old (far_applyAction far) then clear_srr p w else w), STATUS_OK)"
  using assms(1-3) by (simp add: UpfN4HandleUpdateFar_def Let_def v_def old_def)

lemma drain_session_untouched: "pdrs_untouched u (drain_session env p u)"
proof -
  obtain st sid where w: "UpfSessionEnsureWorkerServiceId (u_store u) (Some p) (rte_be_to_cpu_32 (s_teid (the_session u p))) = (st, sid)"
    by (metis surj_pair)
  show ?thesis
    using ensure_worker_cases [OF w] by (auto simp: drain_session_effect [OF w] pdrs_untouched_def)
qed

lemma clear_srr_untouched: "pdrs_untouched u (clear_srr p u)"
  by (simp add: pdrs_untouched_def)

lemma update_far_untouched: "UpfN4HandleUpdateFar env u p c = (u', r) \<Longrightarrow> pdrs_untouched u u'"
  unfolding UpfN4HandleUpdateFar_def Let_def
  by (auto intro!: heap_untouched untouched_trans [OF heap_untouched drain_session_untouched]
      untouched_trans [OF heap_untouched untouched_trans [OF drain_session_untouched clear_srr_untouched]]
      untouched_trans [OF heap_untouched clear_srr_untouched]
      split: if_splits option.splits prod.splits)

lemmas handler_untouched =
  create_far_untouched update_far_untouched remove_far_untouched
  create_qer_untouched update_qer_untouched remove_qer_untouched

text \<open>
  The rules and the classifier stay consistent. Whatever rule handler runs on a session that has a PDR list, with memory for
  list nodes and a fresh address for a new object: the PDRs of each session keep distinct identifiers, belong to no other
  session and are all in the list of all PDRs, and the published classifier is one built from exactly the PDRs
  of that list with their current contents. Only an update of a PDR that reports an error can leave the classifier
  behind. The hypothesis \<open>n_garbage\<close> is that the registrations, which end without \<^verbatim>\<open>return\<close>, appear to return a nonzero value.
\<close>

theorem n4_rules_stay_consistent:
  assumes "rules_ok u" "in_sync env u" "p < sessions u" "s_pdr_list (the_session u p) \<noteq> None"
    and "n_node env" "n_garbage env" "\<forall>a. n_calloc env = Some a \<longrightarrow> a \<notin> set (all_pdrs u)"
    and "n4_exec env call u p = Some (u', status)"
  shows "rules_ok u' \<and> (status = STATUS_OK \<or> (\<forall>c. call \<noteq> Update_PDR c) \<longrightarrow> in_sync env u')"
proof (cases "\<exists>c. call = Update_PDR c")
  case True
  then show ?thesis
    using assms(8) update_pdr_effect same_ids_ok [OF assms(1)] by (fastforce simp: n4_exec_def)
next
  case False
  have "rules_ok u' \<and> in_sync env u'"
  proof (cases call)
    case (Create_PDR c)
    then show ?thesis using create_pdr_consistent [OF _ assms(5,6,3,4,7,1,2)] assms(8) by (simp add: n4_exec_def)
  next
    case (Remove_PDR k)
    then show ?thesis using remove_pdr_consistent [OF _ assms(5,3,4,1,2)] assms(8) by (simp add: n4_exec_def)
  qed (use False assms(8) handler_untouched pdrs_untouched_consistent [OF _ assms(1,2)] in
      \<open>fastforce simp: n4_exec_def\<close>)+
  then show ?thesis by simp
qed

subsection \<open>What the handlers achieve\<close>

lemma convert_without_sdf:
  assumes "\<not> present (pi_sDFFilter (cp_pDI c))"
  obtains pdr where "ConvertCreatePDRTlvToRule zero_pdr c = Some pdr" "\<not> pdif_sdfFilter (pdi_flags (pdr_pdi pdr))"
proof -
  have keep: "pdr_pdi (set_qer_ids ts x) = pdr_pdi x" "pdr_pdi (set_urr_ids ts x) = pdr_pdi x" for ts x
    unfolding set_qer_ids_def set_urr_ids_def by (rule fold_keeps, simp)+
  have tail: "pdr_pdi (set_pdr_tail o' f ts x) = pdr_pdi x" for o' f ts x
    by (simp add: set_pdr_tail_def Let_def keep)
  have head: "pdr_pdi (set_pdr_head i q zero_pdr) = zero_pdi" for i q
    by (simp add: set_pdr_head_def Let_def zero_pdr_def)
  have "\<exists>r. set_pdr_pdi (cp_pDI c) (set_pdr_head i q zero_pdr) = Some r \<and> \<not> pdif_sdfFilter (pdi_flags (pdr_pdi r))" for i q
    using assms by (simp add: set_pdr_pdi_def convert_pdi_def head Let_def zero_pdi_def)
  then obtain r where r: "set_pdr_pdi (cp_pDI c) (set_pdr_head (cp_pDRID c) (cp_precedence c) zero_pdr) = Some r"
    "\<not> pdif_sdfFilter (pdi_flags (pdr_pdi r))" by blast
  show ?thesis by (rule that, simp add: ConvertCreatePDRTlvToRule_def r) (simp add: r keep tail)
qed

lemma create_pdr_returns:
  assumes "\<not> present (pi_sDFFilter (cp_pDI c))"
    and "\<And>pdr l. ConvertCreatePDRTlvToRule zero_pdr c = Some pdr \<Longrightarrow> pdrf_qerId (pdr_flags pdr) \<Longrightarrow>
      s_qer_list (the_session u p) = Some l \<Longrightarrow> None \<notin> set l"
  shows "UpfN4HandleCreatePdr env u p c \<noteq> None"
proof -
  obtain pdr where c: "ConvertCreatePDRTlvToRule zero_pdr c = Some pdr" "\<not> pdif_sdfFilter (pdi_flags (pdr_pdi pdr))"
    by (rule convert_without_sdf [OF assms(1)])
  have pre: "UpfPdrPrecompileSdf j (h_pdr h a) x y z \<noteq> None" if "link_pdr a pdr s h' = Some (Some h)" for a s h h' j x y z
    using link_pdr_effect [OF that] c(2) by (auto simp: relinked_def UpfPdrPrecompileSdf_def Let_def)
  have link: "link_pdr a pdr (the_session w p) h \<noteq> None"
    if "UpfN4SyncSessionPacketKeysFromPdi env u p (cp_pDI c) = (w, sy)" for a w sy h
    using link_pdr_None [of a pdr "the_session w p" h] sync_same_rules [OF that] assms(2) [OF c(1)]
    by (auto simp: same_rules_def same_rule_lists_def)
  show ?thesis
    using c(1) pre link by (auto simp: UpfN4HandleCreatePdr_def Let_def bind_eq_None_conv simp del: not_None_eq
        split: option.split prod.split Status.split)
qed

lemma install_pdr_refused:
  assumes "install_pdr env u p a = (u', status)" "n_node env" "\<not> n_garbage env"
    and "p < sessions u" "s_pdr_list (the_session u p) = Some l"
  shows "status = STATUS_ERROR \<and> u_heap u' = u_heap u \<and> all_pdrs u' = all_pdrs u \<and> u_cls u' = u_cls u \<and>
    the_session u' p = (the_session u p) \<lparr>s_pdr_list := Some (l @ [a])\<rparr>"
  using assms by (auto simp: install_pdr_def UpfPDRRegisterToSession_def reg_passes_def all_pdrs_def Let_def)

text \<open>
  C13. What creating a PDR can lead to. With memory for list nodes and a fresh object, the request has no result only if it
  carries an SDF filter or the session's list of QERs holds a null pointer. On success the identifier resolves to the
  new PDR and every other identifier as before, the PDR is in the list of all PDRs, the classifier built from that list
  is the active one, and a reader who follows the PDR finds the FAR that the request names. On an error, publishing
  included, the list of all PDRs and the classifier are what they were. The registration of a PDR in its session ends
  without \<^verbatim>\<open>return\<close>; \<open>n_garbage\<close> is whether the caller finds a nonzero value in its place. If it does, the creation is all or
  nothing: after an error the PDRs of the session are what they were too. If it does not, no creation succeeds, and one
  that gets as far as the registration leaves the object it has freed at the end of the session's list.
\<close>

theorem create_pdr_outcomes:
  fixes c :: CreatePDR
  assumes ok: "rules_ok u" and p: "p < sessions u" "s_pdr_list (the_session u p) = Some l"
    and n: "n_node env" and a: "n_calloc env = Some a" "a \<notin> set (all_pdrs u)"
  defines "k \<equiv> rte_be_to_cpu_16 (oct16 (tlv_value (cp_pDRID c)) 0)"
    and "look \<equiv> (\<lambda>u. UpfPDRFindByID (shared_rules (u_heap u)) (Some (the_session u p)))"
  shows "case UpfN4HandleCreatePdr env u p c of
      None \<Rightarrow> present (pi_sDFFilter (cp_pDI c)) \<or> (\<exists>q. s_qer_list (the_session u p) = Some q \<and> None \<in> set q)
    | Some (u', STATUS_OK) \<Rightarrow> n_garbage env \<and>
        look u' = (look u)(k \<mapsto> a) \<and> look u k = None \<and> all_pdrs u' = all_pdrs u @ [a] \<and>
        cls_active (u_cls u') = built_from env u' (all_pdrs u') \<and> cls_active (u_cls u') \<noteq> None \<and>
        (present (cp_fARID c) \<longrightarrow> (\<exists>f. UpfFARFindByID (shared_rules (u_heap u')) (Some (the_session u' p))
             (ucast (rte_be_to_cpu_32 (oct32 (tlv_value (cp_fARID c)) 0))) = Some f \<and>
           pdr_far (mem_pdr (shared_rules (u_heap u')) a) = Some (h_far (u_heap u') f)))
    | Some (u', _) \<Rightarrow> all_pdrs u' = all_pdrs u \<and> u_cls u' = u_cls u \<and>
        (s_pdr_list (the_session u' p) = Some l \<and> look u' = look u \<or>
         \<not> n_garbage env \<and> s_pdr_list (the_session u' p) = Some (l @ [a]))"
proof (cases "UpfN4HandleCreatePdr env u p c")
  case None
  then show ?thesis using create_pdr_returns [of c u p env] by auto
next
  case (Some r)
  then obtain u' status where r: "UpfN4HandleCreatePdr env u p c = Some (u', status)" by (cases r) auto
  have l: "set l \<subseteq> set (all_pdrs u)" using ok p by (force simp: rules_ok_def session_pdrs_def)
  then have al: "a \<notin> set l" using a(2) by auto
  have lookup: "look v = (\<lambda>j. find (\<lambda>b. pdr_id_of v b = j) m)" if "s_pdr_list (the_session v p) = Some m" for v m
    using that by (simp add: look_def UpfPDRFindByID_def fun_eq_iff)
  show ?thesis
  proof (rule create_pdr_cases [OF r a(1) p(2) al])
    assume e: "status = STATUS_ERROR" "same_rules env u u'"
    then have "s_pdr_list (the_session u' p) = Some l" "u_heap u' = u_heap u"
      using p(2) by (simp_all add: same_rules_def same_rule_lists_def)
    then show ?thesis using r e lookup [OF p(2)] lookup [of u' l] by (simp add: same_rules_def all_pdrs_def)
  next
    fix v
    assume v: "install_pdr env v p a = (u', status)" "same_rules env u (v \<lparr>u_heap := u_heap u\<rparr>)"
      "pdr_id_of v a = rte_be_to_cpu_16 (oct16 (tlv_value (cp_pDRID c)) 0)" "pdr_id_of v a \<notin> pdr_id_of u ` set l"
      "\<forall>b. b \<noteq> a \<longrightarrow> h_pdr (u_heap v) b = h_pdr (u_heap u) b"
      and far: "present (cp_fARID c) \<Longrightarrow> \<exists>f. h_far_of (u_heap v) a = Some f \<and>
         UpfFARFindByID (shared_rules (u_heap v)) (Some (the_session v p))
           (ucast (rte_be_to_cpu_32 (oct32 (tlv_value (cp_fARID c)) 0))) = Some f"
    have vl: "s_pdr_list (the_session v p) = Some l" "all_pdrs v = all_pdrs u" "sessions v = sessions u" "u_cls v = u_cls u"
      using v(2) p(2) by (simp_all add: same_rules_def same_rule_lists_def all_pdrs_def)
    have ids: "\<forall>b\<in>set l. pdr_id_of v b = pdr_id_of u b" using v(5) al by auto
    then have new: "pdr_id_of v a \<notin> pdr_id_of v ` set l" using v(4) by (simp add: image_iff)
    have lv: "look v = look u" using ids lookup [OF p(2)] lookup [OF vl(1)] by (simp add: fun_eq_iff cong: find_cong)
    have lk: "look u k = None" using v(3,4) lookup [OF p(2)] by (auto simp: k_def find_None_iff image_iff)
    show ?thesis
    proof (cases "n_garbage env")
      case False
      then show ?thesis using install_pdr_refused [OF v(1) n False _ vl(1)] r vl p(1) by simp
    next
      case g: True
      have e: "u_heap u' = u_heap v \<and> replay_teids env u' = replay_teids env v \<and>
        (status = STATUS_OK \<and> all_pdrs u' = all_pdrs v @ [a] \<and>
           the_session u' p = (the_session v p) \<lparr>s_pdr_list := Some (l @ [a])\<rparr> \<and>
           cls_active (u_cls u') = built_from env v (all_pdrs v @ [a]) \<and> cls_active (u_cls u') \<noteq> None \<or>
         status = STATUS_ERROR \<and> all_pdrs u' = all_pdrs v \<and> the_session u' p = the_session v p \<and> u_cls u' = u_cls v)"
        using install_pdr_effect [OF v(1) n g _ vl(1) _ new] p(1) a(2) vl(2,3) by (simp, blast)
      then have bf: "built_from env u' order = built_from env v order" for order by (intro built_from_cong) simp_all
      show ?thesis
      proof (cases "status = STATUS_OK")
        case True
        then have s: "the_session u' p = (the_session v p) \<lparr>s_pdr_list := Some (l @ [a])\<rparr>" using e by simp
        then have "look u' = (look v)(k \<mapsto> a)"
          using e lookup [OF vl(1)] lookup [of u' "l @ [a]"] rule_map_append [OF new] v(3)
          by (simp add: rule_map_def k_def)
        moreover have "UpfFARFindByID m (Some (the_session u' p)) = UpfFARFindByID m (Some (the_session v p))" for m
          by (simp add: fun_eq_iff UpfFARFindByID_def s)
        ultimately show ?thesis
          using True r e lv lk vl far bf g by auto metis
      next
        case False
        then have "status = STATUS_ERROR" "the_session u' p = the_session v p" "u_heap u' = u_heap v" "all_pdrs u' = all_pdrs v"
          "u_cls u' = u_cls v" using e by auto
        then show ?thesis using r lv vl by (simp add: look_def)
      qed
    qed
  qed
qed

text \<open>
  C14. An update of a FAR reaches every packet rule that uses it and releases the buffer exactly when it should. Every PDR that
  points to the FAR reads the new contents and no other PDR changes. If the action went from buffering to forwarding, one request
  to drain the buffer of this session is handed to the worker that owns it, and that worker is recorded in the
  session; otherwise no message is sent. The flag of an outstanding report is cleared exactly when the action to notify is
  withdrawn.
\<close>

theorem update_far_releases_buffer:
  assumes "present (uf_fARID c)" "UpfFARFindByID (shared_rules (u_heap u)) (Some (the_session u p))
         (ucast (rte_be_to_cpu_32 (oct32 (tlv_value (uf_fARID c)) 0))) = Some a"
    and "ConvertUpdateFARTlvToRule (h_far (u_heap u) a) c = (far, STATUS_OK)" "p < sessions u"
    and send: "se_calloc (n_send env 0)" "\<forall>sid e. se_send (n_send env 0) sid e \<ge> 0"
  defines "old \<equiv> far_applyAction (h_far (u_heap u) a)" and "new \<equiv> far_applyAction far"
    and "sid \<equiv> snd (UpfSessionEnsureWorkerServiceId (u_store u) (Some p) (rte_be_to_cpu_32 (s_teid (the_session u p))))"
  shows "\<exists>u'. UpfN4HandleUpdateFar env u p c = (u', STATUS_OK) \<and>
    (\<forall>b. pdr_far (mem_pdr (shared_rules (u_heap u')) b) =
       (if h_far_of (u_heap u) b = Some a then Some far else pdr_far (mem_pdr (shared_rules (u_heap u)) b))) \<and>
    u_msgs u' = u_msgs u @ (if drains old new \<and> sid \<noteq> UPF_INVALID_SERVICE_ID
      then [(sid, \<lparr>ev_type = 161, ev_argc = 1, ev_arg0 = of_int (s_index (the_session u p)), ev_arg1 = 0\<rparr>)] else []) \<and>
    (drains old new \<and> sid \<noteq> UPF_INVALID_SERVICE_ID \<longrightarrow> s_worker_service_id (the_session u' p) = sid) \<and>
    s_srr_flag (the_session u' p) = (s_srr_flag (the_session u p) \<and> \<not> ends_report old new)"
proof -
  let ?v = "u \<lparr>u_heap := (u_heap u) \<lparr>h_far := (h_far (u_heap u))(a := far)\<rparr>\<rparr>"
  obtain st where w: "UpfSessionEnsureWorkerServiceId (u_store u) (Some p) (rte_be_to_cpu_32 (s_teid (the_session u p))) = (st, sid)"
    by (metis sid_def surj_pair snd_conv)
  define v where "v = (if drains old new then drain_session env p ?v else ?v)"
  have st: "length (session_data st) = sessions u" "s_srr_flag (session_data st ! p) = s_srr_flag (the_session u p)"
    "sid \<noteq> UPF_INVALID_SERVICE_ID \<Longrightarrow> s_worker_service_id (session_data st ! p) = sid"
    using w assms(4) by (auto simp: UpfSessionEnsureWorkerServiceId_def Let_def split: if_splits)
  have drain: "drain_session env p ?v = ?v \<lparr>u_store := st, u_msgs := u_msgs u @ (if sid \<noteq> UPF_INVALID_SERVICE_ID
      then [(sid, \<lparr>ev_type = 161, ev_argc = 1, ev_arg0 = of_int (s_index (the_session u p)), ev_arg1 = 0\<rparr>)] else [])\<rparr>"
    using drain_session_effect [of ?v p st sid env] w send by (simp add: UpfSendEvt1_def send_event_def Let_def not_less)
  have v: "sessions v = sessions u" "u_heap v = u_heap ?v" "s_srr_flag (the_session v p) = s_srr_flag (the_session u p)"
    "u_msgs v = u_msgs u @ (if drains old new \<and> sid \<noteq> UPF_INVALID_SERVICE_ID
      then [(sid, \<lparr>ev_type = 161, ev_argc = 1, ev_arg0 = of_int (s_index (the_session u p)), ev_arg1 = 0\<rparr>)] else [])"
    "drains old new \<and> sid \<noteq> UPF_INVALID_SERVICE_ID \<longrightarrow> s_worker_service_id (the_session v p) = sid"
    using st by (simp_all add: v_def drain)
  have "UpfN4HandleUpdateFar env u p c = (if ends_report old new then clear_srr p v else v, STATUS_OK)"
    using update_far_result [OF assms(1-3), of env] by (simp add: v_def old_def new_def Let_def)
  moreover have "pdr_far (mem_pdr (shared_rules (u_heap v)) b) =
      (if h_far_of (u_heap u) b = Some a then Some far else pdr_far (mem_pdr (shared_rules (u_heap u)) b))" for b
    by (cases "h_far_of (u_heap u) b") (simp_all add: v(2) shared_rules_def)
  ultimately show ?thesis using v assms(4) by (cases "ends_report old new") simp_all
qed

subsection \<open>A concrete control plane\<close>

text \<open>One session with FAR 1 in its list, which buffers, and no PDR yet; the request creates PDR 1 on FAR 1.\<close>

definition demo_far :: UPDK_FAR where
  "demo_far = zero_far \<lparr>far_farId := 1, far_applyAction := UPDK_FAR_APPLY_ACTION_BUFF\<rparr>"

definition demo_upf :: "(example_seids, example_map, mbuf list, pdr_t list) upf_c" where
  "demo_upf = \<lparr>u_heap = \<lparr>h_pdr = (\<lambda>_. zero_pdr), h_far = (\<lambda>_. demo_far), h_qer = (\<lambda>_. zero_qer), h_far_of = (\<lambda>_. None),
       h_qer_of = (\<lambda>_. None), h_qers_of = (\<lambda>_. [None, None])\<rparr>,
     u_store = upd_session one_store 0 (\<lambda>s. s \<lparr>s_pdr_list := Some [], s_far_list := Some [3], s_qer_list := Some []\<rparr>),
     u_all_pdrs = None, u_cls = example_server, u_replay = None, u_msgs = []\<rparr>"

definition demo_env :: "(example_seids, example_map, mbuf list, pdr_t list) n4_env" where
  "demo_env = \<lparr>n_lib = example_lib, n_cls = list_classifier, n_send = good_env, n_getenv = None, n_calloc = Some 7,
     n_node = True, n_realloc = True, n_accessPort = 0, n_corePort = 1, n_sgiPort = 2, n_garbage = True, n_junk = 0\<rparr>"

definition octet_at :: "nat \<Rightarrow> u8 \<Rightarrow> TlvOctet" where
  "octet_at i x = absent \<lparr>tlv_presence := 1, tlv_value := (\<lambda>j. if j = i then x else 0)\<rparr>"

definition demo_create :: CreatePDR where
  "demo_create = \<lparr>cp_presence = 1, cp_pDRID = octet_at 1 1, cp_precedence = octet_at 3 1,
     cp_pDI = \<lparr>pi_presence = 1, pi_sourceInterface = octet_at 0 1, pi_localFTEID = absent,
       pi_uEIPAddress = absent, pi_sDFFilter = absent\<rparr>,
     cp_outerHeaderRemoval = absent, cp_fARID = octet_at 3 1, cp_uRRID = replicate 4 absent, cp_qERID = replicate 2 absent\<rparr>"

definition demo_update :: UpdateFAR where
  "demo_update = \<lparr>uf_presence = 1, uf_fARID = octet_at 3 1, uf_applyAction = octet_at 0 UPDK_FAR_APPLY_ACTION_FORW,
     uf_updateForwardingParameters = \<lparr>fw_presence = 0, fw_destinationInterface = absent, fw_networkInstance = absent,
       fw_outerHeaderCreation = absent, fw_forwardingPolicy = absent\<rparr>\<rparr>"

lemma demo_session [simp]:
  "the_session demo_upf 0 = one_session \<lparr>s_pdr_list := Some [], s_far_list := Some [3], s_qer_list := Some []\<rparr>"
  "sessions demo_upf = 1024" "all_pdrs demo_upf = []"
  by (simp_all add: demo_upf_def one_store_def upd_session_def all_pdrs_def)

lemma octet_at_simps [simp]: "tlv_presence (octet_at i x) = 1" "tlv_value (octet_at i x) j = (if j = i then x else 0)"
  by (simp_all add: octet_at_def)

lemma absent_presence [simp]: "tlv_presence absent = 0"
  by (simp add: absent_def)

lemma demo_ok: "rules_ok demo_upf" "in_sync demo_env demo_upf"
proof -
  have "session_pdrs demo_upf p = []" if "p < 1024" for p
  proof (cases "p = 0")
    case False
    then have "the_session demo_upf p = zero_session" using that by (simp add: demo_upf_def one_store_def)
    then show ?thesis by (simp add: session_pdrs_def zero_session_def)
  qed (simp add: session_pdrs_def)
  then show "rules_ok demo_upf" by (simp add: rules_ok_def)
  show "in_sync demo_env demo_upf"
    by (simp add: in_sync_def built_from_def demo_env_def list_classifier_def)
      (simp add: demo_upf_def example_server_def)
qed

lemma demo_far_id [simp]: "rte_be_to_cpu_32 (oct32 (tlv_value (octet_at 3 1)) 0) = 1"
  "rte_be_to_cpu_16 (oct16 (tlv_value (octet_at (Suc 0) 1)) 0) = 1"
  by (simp_all add: oct32_def oct16_def rte_bswap32_def rte_bswap16_def)

lemma list_classifier_builds: "build_snapshot list_classifier mem [] order snap \<noteq> None"
  by (induction order arbitrary: snap) (simp_all add: list_classifier_def Let_def)

lemma demo_converts:
  obtains pdr where "ConvertCreatePDRTlvToRule zero_pdr demo_create = Some pdr" "pdrf_farId (pdr_flags pdr)" "pdr_farId pdr = 1"
    "\<not> pdrf_qerId (pdr_flags pdr)" "\<not> pdif_sdfFilter (pdi_flags (pdr_pdi pdr))"
proof -
  obtain pdr where c: "ConvertCreatePDRTlvToRule zero_pdr demo_create = Some pdr" "\<not> pdif_sdfFilter (pdi_flags (pdr_pdi pdr))"
    by (rule convert_without_sdf [of demo_create]) (simp add: demo_create_def)
  have "[0..<2] = [0, Suc 0]" "[0..<4] = [0, Suc 0, 2, 3]" by (simp_all add: upt_rec)
  then have "\<not> pdrf_qerId (pdr_flags pdr)"
    using c(1) by (auto simp: ConvertCreatePDRTlvToRule_def demo_create_def set_qer_ids_def set_pdr_tail_def set_urr_ids_def
        set_pdr_pdi_def set_pdr_head_def zero_pdr_def bind_eq_Some_conv Let_def)
  then show ?thesis
    using c convert_sets_far [OF c(1)] by (intro that) (simp_all add: demo_create_def)
qed

lemma demo_find_far: "UpfFARFindByID (shared_rules (u_heap demo_upf)) (Some (the_session demo_upf 0)) 1 = Some 3"
  by (simp add: UpfFARFindByID_def) (simp add: demo_upf_def demo_far_def)

lemma demo_create_ok: "\<exists>u'. UpfN4HandleCreatePdr demo_env demo_upf 0 demo_create = Some (u', STATUS_OK)"
proof -
  obtain pdr where c: "ConvertCreatePDRTlvToRule zero_pdr demo_create = Some pdr" "pdrf_farId (pdr_flags pdr)" "pdr_farId pdr = 1"
    "\<not> pdrf_qerId (pdr_flags pdr)" "\<not> pdif_sdfFilter (pdi_flags (pdr_pdi pdr))" by (rule demo_converts)
  have s: "UpfN4SyncSessionPacketKeysFromPdi demo_env demo_upf 0 (cp_pDI demo_create) = (demo_upf, STATUS_OK)"
    by (simp add: UpfN4SyncSessionPacketKeysFromPdi_def demo_create_def)
  obtain h where h: "link_pdr 7 pdr (the_session demo_upf 0) (u_heap demo_upf) = Some (Some h)"
    using c demo_find_far unfolding link_pdr_def Let_def by simp
  have hp: "pdr_pdi (h_pdr h 7) = pdr_pdi pdr" using link_pdr_effect [OF h] by (auto simp: relinked_def)
  obtain r where r: "UpfPdrPrecompileSdf (n_junk demo_env) (h_pdr h 7) (n_accessPort demo_env) (n_corePort demo_env)
      (n_sgiPort demo_env) = Some r"
    using c(5) hp by (simp add: UpfPdrPrecompileSdf_def Let_def)
  define v where "v = demo_upf \<lparr>u_heap := h \<lparr>h_pdr := (h_pdr h)(7 := r \<lparr>pdr_session_index := s_index (the_session demo_upf 0)\<rparr>)\<rparr>\<rparr>"
  obtain u' status where i: "install_pdr demo_env v 0 7 = (u', status)" by (metis surj_pair)
  have run: "UpfN4HandleCreatePdr demo_env demo_upf 0 demo_create = Some (u', status)"
    unfolding i [symmetric] v_def UpfN4HandleCreatePdr_def c(1) s
    using h r by (simp add: demo_env_def) (simp add: demo_create_def UpfPDRFindByID_def)
  have "the_session v 0 = the_session demo_upf 0" "sessions v = 1024" "all_pdrs v = []"
    using demo_session by (simp_all add: v_def all_pdrs_def)
  moreover have "built_from demo_env v [7] \<noteq> None"
  proof -
    have "replay_teids demo_env v = []" "cls_create (n_cls demo_env) = Some []" "n_cls demo_env = list_classifier"
      by (simp_all add: demo_env_def replay_teids_def UpfParsePcapReplayTeids_def v_def demo_upf_def list_classifier_def)
    then show ?thesis using list_classifier_builds by (simp add: built_from_def del: build_snapshot.simps)
  qed
  moreover have "n_node demo_env" "n_garbage demo_env" by (simp_all add: demo_env_def)
  ultimately have "status = STATUS_OK"
    using install_pdr_effect [OF i, of "[]"] by auto
  then show ?thesis using run by simp
qed

theorem n4_rules_stay_consistent_witness:
  "\<exists>u'. n4_exec demo_env (Create_PDR demo_create) demo_upf 0 = Some (u', STATUS_OK) \<and> rules_ok u' \<and> in_sync demo_env u'"
proof -
  obtain u' where u: "UpfN4HandleCreatePdr demo_env demo_upf 0 demo_create = Some (u', STATUS_OK)" using demo_create_ok by blast
  have "n_node demo_env" "n_garbage demo_env" by (simp_all add: demo_env_def)
  then show ?thesis
    using n4_rules_stay_consistent [OF demo_ok, of 0 "Create_PDR demo_create" u' STATUS_OK] u by (simp add: n4_exec_def)
qed

theorem create_pdr_outcomes_witness:
  "\<exists>u'. UpfN4HandleCreatePdr demo_env demo_upf 0 demo_create = Some (u', STATUS_OK) \<and>
     UpfPDRFindByID (shared_rules (u_heap u')) (Some (the_session u' 0)) 1 = Some 7 \<and>
     pdr_far (mem_pdr (shared_rules (u_heap u')) 7) \<noteq> None"
proof -
  obtain u' where u: "UpfN4HandleCreatePdr demo_env demo_upf 0 demo_create = Some (u', STATUS_OK)" using demo_create_ok by blast
  have "n_node demo_env" "n_calloc demo_env = Some 7" by (simp_all add: demo_env_def)
  then show ?thesis
    using create_pdr_outcomes [OF demo_ok(1), of 0 "[]" demo_env 7 demo_create] u by (auto simp: demo_create_def)
qed

theorem update_far_releases_buffer_witness:
  "\<exists>u'. UpfN4HandleUpdateFar demo_env demo_upf 0 demo_update = (u', STATUS_OK) \<and>
     u_msgs u' = [(10, \<lparr>ev_type = 161, ev_argc = 1, ev_arg0 = 0, ev_arg1 = 0\<rparr>)]"
proof -
  note f = demo_find_far
  have h: "h_far (u_heap demo_upf) 3 = demo_far" "u_msgs demo_upf = []" by (simp_all add: demo_upf_def)
  obtain far where c: "ConvertUpdateFARTlvToRule demo_far demo_update = (far, STATUS_OK)"
      "far_applyAction far = UPDK_FAR_APPLY_ACTION_FORW"
    by (simp add: ConvertUpdateFARTlvToRule_def convert_far_def demo_update_def Let_def)
  have w: "s_worker_service_id (the_session demo_upf 0) = 10" "s_index (the_session demo_upf 0) = 0"
    by (simp_all add: one_session_def zero_session_def)
  have "snd (UpfSessionEnsureWorkerServiceId (u_store demo_upf) (Some 0) t) = 10" for t
    using w(1) by (simp add: UpfSessionEnsureWorkerServiceId_def)
  moreover have "drains (far_applyAction demo_far) (far_applyAction far)" by (simp add: drains_def demo_far_def c(2))
  ultimately show ?thesis
    using update_far_releases_buffer [where u = demo_upf and p = 0 and a = 3 and c = demo_update and far = far and env = demo_env]
      f h c w by (auto simp: demo_update_def demo_env_def good_env_def)
qed

end
