(* ===== verification/Pfcp_Tlv.thy ===== *)
theory Pfcp_Tlv
  imports Pfcp_Convert
begin

text \<open>
  The encoding of PFCP messages (\<^verbatim>\<open>onvm/pfcp/pfcp_message.c\<close>): the table that describes the information elements of
  every message, the parser and the builder that walk over it, and the growing buffers (\<^verbatim>\<open>onvm/utlt/utlt_buff.c\<close>) the builder writes
  to. The parser reads the memory of the received buffer without looking at the end of the message or of a group, so
  memory is a function of the position; the builder keeps a pointer to the length field of a group while its buffer may move. A
  message structure is the list of its elements in the order of the table. The buffer pools are taken not to be exhausted.
\<close>

subsection \<open>Descriptions\<close>

record IeDescription =
  msgType :: nat
  isTlvObj :: bool
  ie_next :: "nat list"

text \<open>
  The table: the first 156 entries are the elements, each at the index of its type. The groups among them have the successors given here, of
  which the loops visit these; every other element is a TLV object. The entries of the messages follow, with their own successors.
\<close>

definition group_elements :: "(nat \<times> nat list) list" where
  "group_elements =
     [(1, [56, 29, 2, 95, 108, 81, 81, 81, 81, 109, 109, 106]), (2, [20, 21, 22, 93, 131, 23, 24, 142, 132, 124, 153, 154, 155]),
      (3, [108, 44, 4, 5, 88]), (4, [42, 22, 38, 84, 30, 41, 98, 131, 137]), (5, [42, 84, 30, 41]),
      (6, [81, 62, 37, 64, 31, 73, 32, 74, 71, 72, 33, 148, 34, 35, 121, 122, 36, 82, 100, 115, 118, 108, 146, 147]),
      (7, [109, 28, 25, 26, 27, 94, 97, 124, 123]), (8, [56, 21]), (9, [56, 95, 29, 2, 108, 81, 81, 81, 81, 109, 106, 107]),
      (10, [108, 44, 11, 105, 88]), (11, [42, 22, 38, 84, 30, 41, 98, 49, 131]), (12, [88, 46, 47, 48, 140]),
      (13, [81, 62, 37, 64, 31, 73, 32, 74, 71, 72, 33, 148, 34, 35, 121, 122, 36, 82, 100, 115, 118, 108, 146, 147]),
      (14, [109, 28, 25, 26, 27, 94, 97, 124, 123]), (15, [56]), (16, [108]), (17, [81]), (18, [109]), (51, [52, 53]),
      (54, [52, 53, 55, 110]), (58, [24, 59]), (59, [61]), (68, [24, 91, 92]), (77, [81]),
      (78, [81, 104, 63, 75, 76, 66, 67, 69, 70, 90, 125, 143]), (79, [81, 104, 63, 75, 76, 66, 67, 69, 70, 90, 143]),
      (80, [81, 104, 63, 75, 76, 66, 67, 68, 93, 22, 69, 70, 90, 125, 149, 143]), (83, [56, 45]), (85, [88, 46, 140]),
      (86, [88, 46, 140]), (87, [88]), (99, [21]), (102, [103]), (105, [42, 84, 30, 41]), (111, [60]), (118, [120, 119]),
      (127, [131, 21, 22, 93, 142, 153, 154, 155]), (128, [131, 21]), (129, [131, 21, 22, 93, 153, 154, 155]), (130, [131]),
      (132, [138, 139, 133, 136, 134, 135, 23]), (143, [144, 145]), (147, [33, 34, 35, 121, 122]), (148, [150, 151]), (149, [150])]"

definition message_entries :: "nat list list" where
  "message_entries =
     [[96], [96], [58], [19, 40], [60, 96, 43, 89, 116], [60, 19, 96, 43, 89, 116], [60, 43, 89, 111, 112, 116], [60, 19, 43, 89],
      [60, 19], [60, 101, 102], [60, 19, 40], [60, 65, 65, 65, 65, 65, 65, 65], [60, 19, 40],
      [60, 57, 1, 1, 1, 1, 3, 3, 3, 3, 6, 6, 6, 6, 7, 7, 7, 7, 85, 127, 113, 65, 65, 65, 65, 65, 117, 141, 152],
      [60, 19, 40, 57, 8, 51, 54, 65, 65, 114, 128],
      [57, 15, 16, 17, 18, 87, 130, 1, 1, 3, 3, 6, 7, 85, 127, 9, 9, 9, 9, 10, 10, 13, 14, 86, 129, 49, 77, 65, 65, 65, 65],
      [19, 40, 8, 51, 54, 78, 114, 126, 128], [], [19, 40, 51, 54, 79], [39, 83, 80, 99, 51, 54, 126], [19, 40, 12, 50]]"

definition ieDescriptionTable :: "nat \<Rightarrow> IeDescription" where
  "ieDescriptionTable i =
     (if i < 156 then
        (case map_of group_elements i of
           Some next \<Rightarrow> \<lparr>msgType = i, isTlvObj = False, ie_next = next\<rparr>
         | None \<Rightarrow> \<lparr>msgType = i, isTlvObj = True, ie_next = []\<rparr>)
      else \<lparr>msgType = 0, isTlvObj = False, ie_next = message_entries ! (i - 156)\<rparr>)"

text \<open>The entry a message type is looked up with; the arithmetic is that of the source.\<close>

definition message_index :: "u8 \<Rightarrow> nat option" where
  "message_index ty =
     (if 1 \<le> ty \<and> ty \<le> 10 then Some (unat ty + 155)
      else if 12 \<le> ty \<and> ty \<le> 15 then Some (unat ty + 155 - 1)
      else if 50 \<le> ty \<and> ty \<le> 57 then Some (unat ty + 155 - (50 - 15) - 1)
      else None)"

text \<open>The tree of elements below an entry, to a given depth.\<close>

datatype ie_des = Tlv nat | Grp nat "ie_des list"

primrec describe :: "nat \<Rightarrow> nat \<Rightarrow> ie_des option" where
  "describe 0 i = None"
| "describe (Suc n) i =
     (let e = ieDescriptionTable i
      in if isTlvObj e then Some (Tlv (msgType e)) else map_option (Grp (msgType e)) (those (map (describe n) (ie_next e))))"

definition message_ies :: "u8 \<Rightarrow> ie_des list option" where
  "message_ies ty =
     (case message_index ty of None \<Rightarrow> None | Some i \<Rightarrow> those (map (describe 4) (ie_next (ieDescriptionTable i))))"

primrec ie_type :: "ie_des \<Rightarrow> nat" where
  "ie_type (Tlv t) = t"
| "ie_type (Grp t ds) = t"

subsection \<open>Parsing\<close>

datatype ie_value = Absent | Octets "u8 list" | Group "ie_value list"

definition read16 :: "octets \<Rightarrow> nat \<Rightarrow> nat" where
  "read16 m i = unat (rte_be_to_cpu_16 (oct16 m i))"

text \<open>
  The largest allocation is 65536 octets, of which four keep its size: an element that claims more than 65532 octets is copied to
  a null pointer.
\<close>

fun TlvParseMessage :: "octets \<Rightarrow> ie_des list \<Rightarrow> nat \<Rightarrow> (ie_value list \<times> nat) option"
  and TlvParseElement :: "octets \<Rightarrow> ie_des \<Rightarrow> nat \<Rightarrow> (ie_value \<times> nat) option" where
  "TlvParseMessage m [] i = Some ([], i)"
| "TlvParseMessage m (d # ds) i =
     do { (v, j) \<leftarrow> TlvParseElement m d i; (vs, k) \<leftarrow> TlvParseMessage m ds j; Some (v # vs, k) }"
| "TlvParseElement m (Tlv t) i =
     (if read16 m i \<noteq> t then Some (Absent, i)
      else let n = read16 m (i + 2)
           in if n + 4 > 65536 then None else Some (Octets (map (\<lambda>k. m (i + 4 + k)) [0..<n]), i + 4 + n))"
| "TlvParseElement m (Grp t ds) i =
     (if read16 m i \<noteq> t then Some (Absent, i)
      else do { (vs, e) \<leftarrow> TlvParseMessage m ds (i + 4); Some (Group vs, i + 4 + read16 m (i + 2)) })"

record PfcpHeader =
  ph_version :: u8
  ph_seidP :: bool
  ph_type :: u8
  ph_length :: u16
  ph_seid :: u64
  ph_sqn :: u32

text \<open>
  The header of a message in memory; without a SEID the sequence number is in its place, and is moved. The length of the body is
  kept in 16 bits and only compared with zero.
\<close>

definition parse_header :: "octets \<Rightarrow> PfcpHeader" where
  "parse_header m =
     (let seidP = bit (m 0) 0
      in \<lparr>ph_version = drop_bit 5 (m 0), ph_seidP = seidP, ph_type = m 1, ph_length = oct16 m 2,
          ph_seid = (if seidP then be64toh (oct_word 8 m 4) else ucast (oct32 m 4)),
          ph_sqn = (if seidP then oct32 m 12 else oct32 m 4)\<rparr>)"

definition PfcpParseMessage :: "octets \<Rightarrow> nat \<Rightarrow> (PfcpHeader \<times> ie_value list) option" where
  "PfcpParseMessage m len =
     (let h = parse_header m; hlen = (if ph_seidP h then 16 else 8); bodyLen = of_nat len - (of_nat hlen :: u16)
      in if bodyLen = 0 then Some (h, [])
         else case message_ies (ph_type h) of
           None \<Rightarrow> Some (h, [])
         | Some ds \<Rightarrow> map_option (\<lambda>(vs, e). (h, vs)) (TlvParseMessage m ds hlen))"

subsection \<open>Buffers\<close>

text \<open>
  A block has a buffer of one of eleven sizes. \<open>bb_moves\<close> counts how often the buffer has been replaced, so that a pointer
  into an earlier buffer can be told from one into the present buffer.
\<close>

record Bufblk =
  bb_bytes :: "u8 list"
  bb_size :: nat
  bb_moves :: nat

definition pool_size :: "nat \<Rightarrow> nat option" where
  "pool_size n = List.find (\<lambda>s. n \<le> s) [64, 128, 256, 512, 1024, 2048, 4096, 8192, 16384, 32768, 65536]"

definition BufblkAlloc :: "nat \<Rightarrow> Bufblk option" where
  "BufblkAlloc sz = map_option (\<lambda>s. \<lparr>bb_bytes = [], bb_size = s, bb_moves = 0\<rparr>) (pool_size sz)"

definition BufblkResize :: "Bufblk \<Rightarrow> nat \<Rightarrow> Bufblk \<times> Status" where
  "BufblkResize b sz =
     (case pool_size sz of
        None \<Rightarrow> (b, STATUS_ERROR)
      | Some s \<Rightarrow> (\<lparr>bb_bytes = take s (bb_bytes b), bb_size = s, bb_moves = bb_moves b + 1\<rparr>, STATUS_OK))"

definition BufblkBytes :: "Bufblk \<Rightarrow> u8 list \<Rightarrow> Bufblk \<times> Status" where
  "BufblkBytes b str =
     (let (b, status) = (if bb_size b - length (bb_bytes b) \<ge> length str then (b, STATUS_OK)
                         else BufblkResize b (bb_size b + length str))
      in if status = STATUS_OK then (b \<lparr>bb_bytes := bb_bytes b @ str\<rparr>, STATUS_OK) else (b, STATUS_ERROR))"

subsection \<open>Building\<close>

definition be16 :: "nat \<Rightarrow> u8 list" where
  "be16 n = [of_nat (n div 256), of_nat n]"

text \<open>The write through the pointer to the length field, which reaches the block only when its buffer has not moved.\<close>

definition set_length :: "Bufblk \<Rightarrow> nat \<Rightarrow> Bufblk" where
  "set_length b n =
     (if bb_moves b = 0 then b \<lparr>bb_bytes := take 2 (bb_bytes b) @ be16 n @ drop 4 (bb_bytes b)\<rparr> else b)"

text \<open>
  An element that is not present gives no block, the inner \<open>None\<close>; the outer one is a null pointer that is followed. A failure to
  append is not noticed.
\<close>

fun TlvBuildMessage :: "ie_des \<Rightarrow> ie_value \<Rightarrow> Bufblk option option"
  and build_children :: "ie_des list \<Rightarrow> ie_value list \<Rightarrow> Bufblk \<Rightarrow> nat \<Rightarrow> (Bufblk \<times> nat) option" where
  "TlvBuildMessage d Absent = Some None"
| "TlvBuildMessage (Tlv t) (Octets bs) =
     do { b \<leftarrow> BufblkAlloc (4 + length bs);
          Some (Some (b \<lparr>bb_bytes := be16 t @ be16 (length bs) @ bs\<rparr>)) }"
| "TlvBuildMessage (Grp t ds) (Group vs) =
     do { b \<leftarrow> BufblkAlloc 4;
          (b, n) \<leftarrow> build_children ds vs (b \<lparr>bb_bytes := be16 t @ be16 0\<rparr>) 0;
          Some (Some (set_length b n)) }"
| "TlvBuildMessage _ _ = None"
| "build_children (d # ds) (v # vs) b n =
     do { t \<leftarrow> TlvBuildMessage d v;
          (case t of
             None \<Rightarrow> build_children ds vs b n
           | Some c \<Rightarrow> build_children ds vs (fst (BufblkBytes b (bb_bytes c))) (n + length (bb_bytes c))) }"
| "build_children _ _ b n = Some (b, n)"

definition PfcpBuildBody :: "ie_des list \<Rightarrow> ie_value list \<Rightarrow> Bufblk option" where
  "PfcpBuildBody ds vs = do { b \<leftarrow> BufblkAlloc 0; (b, n) \<leftarrow> build_children ds vs b 0; Some b }"

definition PfcpBuildMessage :: "u8 \<Rightarrow> ie_value list \<Rightarrow> Bufblk option" where
  "PfcpBuildMessage ty vs = do { ds \<leftarrow> message_ies ty; PfcpBuildBody ds vs }"

subsection \<open>The encoding of TS 29.244\<close>

fun encode_ie :: "ie_des \<Rightarrow> ie_value \<Rightarrow> u8 list"
  and encode_ies :: "ie_des list \<Rightarrow> ie_value list \<Rightarrow> u8 list" where
  "encode_ie (Tlv t) (Octets bs) = be16 t @ be16 (length bs) @ bs"
| "encode_ie (Grp t ds) (Group vs) = be16 t @ be16 (length (encode_ies ds vs)) @ encode_ies ds vs"
| "encode_ie _ _ = []"
| "encode_ies (d # ds) (v # vs) = encode_ie d v @ encode_ies ds vs"
| "encode_ies _ _ = []"

text \<open>What can be encoded: octets where the table has a TLV object, a group where it has a group, with lengths of 16 bits.\<close>

fun ie_ok :: "ie_des \<Rightarrow> ie_value \<Rightarrow> bool" and ies_ok :: "ie_des list \<Rightarrow> ie_value list \<Rightarrow> bool" where
  "ie_ok d Absent \<longleftrightarrow> True"
| "ie_ok (Tlv t) (Octets bs) \<longleftrightarrow> t < 65536 \<and> length bs \<le> 65532"
| "ie_ok (Grp t ds) (Group vs) \<longleftrightarrow> t < 65536 \<and> ies_ok ds vs \<and> length (encode_ies ds vs) < 65536"
| "ie_ok _ _ \<longleftrightarrow> False"
| "ies_ok [] [] \<longleftrightarrow> True"
| "ies_ok (d # ds) (v # vs) \<longleftrightarrow> ie_ok d v \<and> ies_ok ds vs"
| "ies_ok _ _ \<longleftrightarrow> False"

text \<open>The type that comes next when the elements of a list are followed by type \<open>f\<close>.\<close>

fun next_type :: "ie_des list \<Rightarrow> ie_value list \<Rightarrow> nat \<Rightarrow> nat" where
  "next_type (d # ds) (v # vs) f = (if v = Absent then next_type ds vs f else ie_type d)"
| "next_type _ _ f = f"

text \<open>No element that is left out has the type of the one that comes next.\<close>

fun plain_ie :: "ie_des \<Rightarrow> ie_value \<Rightarrow> nat \<Rightarrow> bool" and plain_ies :: "ie_des list \<Rightarrow> ie_value list \<Rightarrow> nat \<Rightarrow> bool" where
  "plain_ie d Absent f \<longleftrightarrow> ie_type d \<noteq> f"
| "plain_ie (Grp t ds) (Group vs) f \<longleftrightarrow> plain_ies ds vs f"
| "plain_ie _ _ f \<longleftrightarrow> True"
| "plain_ies (d # ds) (v # vs) f \<longleftrightarrow> plain_ie d v (next_type ds vs f) \<and> plain_ies ds vs f"
| "plain_ies _ _ f \<longleftrightarrow> True"

text \<open>Octets in memory.\<close>

definition holds :: "octets \<Rightarrow> nat \<Rightarrow> u8 list \<Rightarrow> bool" where
  "holds m i bs \<longleftrightarrow> (\<forall>k<length bs. m (i + k) = bs ! k)"

lemma holds_Nil [simp]: "holds m i []" by (simp add: holds_def)

lemma holds_Cons [simp]: "holds m i (b # bs) \<longleftrightarrow> m i = b \<and> holds m (Suc i) bs"
  by (simp add: holds_def All_less_Suc2)

lemma holds_append [simp]: "holds m i (xs @ ys) \<longleftrightarrow> holds m i xs \<and> holds m (i + length xs) ys"
proof (induction xs arbitrary: i)
  case (Cons x xs)
  then show ?case by simp
qed simp

lemma holds_octets: "holds m i bs \<Longrightarrow> map (\<lambda>k. m (i + k)) [0..<length bs] = bs"
  by (intro nth_equalityI) (simp_all add: holds_def)

lemma length_be16 [simp]: "length (be16 n) = 2" by (simp add: be16_def)

lemma read16_octets: "read16 m i = 256 * unat (m i) + unat (m (i + 1))"
proof -
  have "rte_be_to_cpu_16 (oct16 m i) = push_bit 8 (ucast (m i)) OR ucast (m (i + 1))"
    by (rule bit_eqI) (auto simp: rte_bswap16_def oct16_def bit_or_iff bit_push_bit_iff bit_drop_bit_eq bit_ucast_iff dest: bit_imp_le_length)
  also have "\<dots> = push_bit 8 (ucast (m i)) + ucast (m (i + 1))"
    by (rule disjunctive_add [symmetric]) (auto simp: bit_push_bit_iff bit_ucast_iff dest: bit_imp_le_length)
  also have "unat \<dots> = 256 * unat (m i) + unat (m (i + 1))"
    using u8_less [of "m i"] u8_less [of "m (i + 1)"] by (simp add: push_bit_eq_mult unat_word_ariths)
  finally show ?thesis by (simp add: read16_def)
qed

lemma read16_be16: "holds m i (be16 n) \<Longrightarrow> n < 65536 \<Longrightarrow> read16 m i = n"
  by (simp add: read16_octets be16_def unat_of_nat)

subsection \<open>The parser\<close>

lemma read16_next:
  assumes "ies_ok ds vs" "holds m i (encode_ies ds vs)" "read16 m (i + length (encode_ies ds vs)) = f"
  shows "read16 m i = next_type ds vs f"
  using assms
proof (induction ds vs f rule: next_type.induct)
  case (1 d ds v vs f)
  show ?case
  proof (cases "v = Absent")
    case False
    then obtain rest where "encode_ie d v = be16 (ie_type d) @ rest" "ie_type d < 65536"
      using 1(2) by (cases d; cases v) auto
    then show ?thesis using 1(3) False read16_be16 by simp
  qed (use 1 in simp)
qed auto

lemma parse_element_end:
  assumes "ie_ok d v" "holds m i (encode_ie d v)" "TlvParseElement m d i = Some (v, e)"
  shows "e = i + length (encode_ie d v)"
proof (cases v)
  case Absent
  then show ?thesis using assms(3) by (cases d) (auto simp: bind_eq_Some_conv Let_def split: if_splits)
next
  case (Octets bs)
  then obtain t where d: "d = Tlv t" using assms(1) by (cases d) auto
  have "read16 m (i + 2) = length bs" using assms(1,2) Octets d by (intro read16_be16) auto
  then show ?thesis using assms(3) Octets d by (auto simp: Let_def split: if_splits)
next
  case (Group vs)
  then obtain t ds where d: "d = Grp t ds" using assms(1) by (cases d) auto
  have "read16 m (i + 2) = length (encode_ies ds vs)" using assms(1,2) Group d by (intro read16_be16) auto
  then show ?thesis using assms(3) Group d by (auto simp: bind_eq_Some_conv split: if_splits)
qed

lemma parse_exact:
  "ie_ok d v \<Longrightarrow> holds m i (encode_ie d v) \<Longrightarrow> read16 m (i + length (encode_ie d v)) = f \<Longrightarrow>
     TlvParseElement m d i = Some (v, i + length (encode_ie d v)) \<longleftrightarrow> plain_ie d v f"
  "ies_ok ds vs \<Longrightarrow> holds m i (encode_ies ds vs) \<Longrightarrow> read16 m (i + length (encode_ies ds vs)) = f \<Longrightarrow>
     (\<exists>e. TlvParseMessage m ds i = Some (vs, e)) \<longleftrightarrow> plain_ies ds vs f"
  supply add_2_eq_Suc [simp del] add_2_eq_Suc' [simp del]
proof (induction d v and ds vs arbitrary: i f and i f rule: ie_ok_ies_ok.induct)
  case (1 d)
  then show ?case by (cases d) (auto simp: bind_eq_Some_conv Let_def split: if_splits)
next
  case (2 t bs)
  then have "read16 m i = t" "read16 m (i + 2) = length bs" by (auto intro!: read16_be16)
  moreover have "map (\<lambda>k. m (i + 4 + k)) [0..<length bs] = bs"
    using 2 by (intro holds_octets) (simp add: ac_simps)
  ultimately show ?case using 2 by (simp add: Let_def)
next
  case (3 t ds vs)
  have r: "read16 m i = t" "read16 m (i + 2) = length (encode_ies ds vs)" using 3(2,3) by (auto intro!: read16_be16)
  have "(\<exists>e. TlvParseMessage m ds (i + 4) = Some (vs, e)) \<longleftrightarrow> plain_ies ds vs f"
    using 3(2-4) by (intro 3(1)) (simp_all add: ac_simps)
  moreover have "TlvParseElement m (Grp t ds) i = Some (Group vs, i + 4 + length (encode_ies ds vs)) \<longleftrightarrow>
      (\<exists>e. TlvParseMessage m ds (i + 4) = Some (vs, e))"
    by (auto simp: r bind_eq_Some_conv)
  ultimately show ?case by (simp add: ac_simps)
next
  case (6 d ds v vs)
  let ?j = "i + length (encode_ie d v)"
  have ok: "ie_ok d v" "ies_ok ds vs" "holds m i (encode_ie d v)" "holds m ?j (encode_ies ds vs)"
    "read16 m (?j + length (encode_ies ds vs)) = f" using 6(3-5) by (simp_all add: ac_simps)
  have "TlvParseElement m d i = Some (v, ?j) \<longleftrightarrow> plain_ie d v (next_type ds vs f)"
    using 6(1) ok read16_next by blast
  moreover have "(\<exists>e. TlvParseMessage m ds ?j = Some (vs, e)) \<longleftrightarrow> plain_ies ds vs f" using 6(2) ok by blast
  moreover have "(\<exists>e. TlvParseMessage m (d # ds) i = Some (v # vs, e)) \<longleftrightarrow>
      TlvParseElement m d i = Some (v, ?j) \<and> (\<exists>e. TlvParseMessage m ds ?j = Some (vs, e))"
    using parse_element_end [OF ok(1,3)] by (fastforce simp: bind_eq_Some_conv)
  ultimately show ?case by simp
qed auto


lemma parse_header_fields [simp]: "ph_seidP (parse_header m) = bit (m 0) 0" "ph_type (parse_header m) = m 1"
  by (simp_all add: parse_header_def Let_def)

subsection \<open>The table is unambiguous\<close>

lemma those_map: "those (map f xs) = Some ys \<longleftrightarrow> map f xs = map Some ys"
proof (induction xs arbitrary: ys)
  case (Cons x xs)
  then show ?case by (cases "f x"; cases ys) auto
qed auto

lemma those_defined: "those (map f xs) \<noteq> None \<longleftrightarrow> (\<forall>x\<in>set xs. f x \<noteq> None)"
proof (induction xs)
  case (Cons x xs)
  then show ?case by (cases "f x") auto
qed auto

definition levels :: "nat \<Rightarrow> nat" where
  "levels i = (if i \<in> set [1, 9] then 3 else if i \<in> set [2, 3, 6, 10, 13, 58, 78, 79, 80] then 2
     else if i \<in> set [4, 5, 7, 8, 11, 12, 14, 15, 16, 17, 18, 51, 54, 59, 68, 77, 83, 85, 86, 87, 99, 102, 105, 111, 118, 127, 128,
       129, 130, 132, 143, 147, 148, 149] then 1 else 0)"

lemma group_levels: "list_all (\<lambda>(i, js). list_all (\<lambda>j. j < 156 \<and> levels j < levels i) js) group_elements"
  by (simp add: group_elements_def levels_def)

lemma describe_defined: "i < 156 \<Longrightarrow> levels i < n \<Longrightarrow> describe n i \<noteq> None"
proof (induction n arbitrary: i)
  case (Suc n)
  show ?case
  proof (cases "map_of group_elements i")
    case None
    then show ?thesis using Suc by (simp add: ieDescriptionTable_def)
  next
    case (Some js)
    then have "\<forall>j\<in>set js. j < 156 \<and> levels j < levels i"
      using group_levels map_of_SomeD [OF Some] by (fastforce simp: list_all_iff)
    then have "those (map (describe n) js) \<noteq> None" using Suc unfolding those_defined by fastforce
    then show ?thesis using Some Suc(2) by (simp add: ieDescriptionTable_def)
  qed
qed simp

lemma message_elements: "list_all (list_all (\<lambda>j. j < 156)) message_entries" by code_simp

lemma levels_less [simp]: "levels i < 4" by (simp add: levels_def)

lemma message_index_bounds: "message_index ty = Some i \<Longrightarrow> 156 \<le> i \<and> i < 177"
  by (auto simp: message_index_def word_le_nat_alt split: if_splits)

lemma message_ies_defined: "message_ies ty \<noteq> None \<longleftrightarrow> message_index ty \<noteq> None"
proof (cases "message_index ty")
  case (Some i)
  have "length message_entries = 21" by (simp add: message_entries_def)
  then have "message_entries ! (i - 156) \<in> set message_entries"
    using message_index_bounds [OF Some] by (intro nth_mem) linarith
  then have "\<forall>j\<in>set (message_entries ! (i - 156)). j < 156" using message_elements by (simp add: list_all_iff)
  then have "\<forall>j\<in>set (ie_next (ieDescriptionTable i)). describe 4 j \<noteq> None"
    using message_index_bounds [OF Some] describe_defined [of _ 4] by (auto simp: ieDescriptionTable_def)
  then show ?thesis using Some unfolding message_ies_def by (simp add: those_defined [unfolded not_None_eq])
qed (simp add: message_ies_def)

lemma describe_steps: "describe 4 = describe (Suc (Suc (Suc (Suc 0))))" by (simp only: numeral_eq_Suc pred_numeral_simps BitM.simps)


text \<open>No element has a type that may come behind its group; \<open>F\<close> are the types that may come behind the list.\<close>

fun ie_types :: "ie_des \<Rightarrow> nat set" where
  "ie_types (Tlv t) = {t}"
| "ie_types (Grp t ds) = insert t (\<Union>d\<in>set ds. ie_types d)"

fun separated_ie :: "nat set \<Rightarrow> ie_des \<Rightarrow> bool" and separated_ies :: "nat set \<Rightarrow> ie_des list \<Rightarrow> bool" where
  "separated_ie F (Tlv t) \<longleftrightarrow> True"
| "separated_ie F (Grp t ds) \<longleftrightarrow> separated_ies F ds"
| "separated_ies F [] \<longleftrightarrow> True"
| "separated_ies F (d # ds) \<longleftrightarrow> ie_type d \<notin> F \<and> separated_ie (F \<union> ie_type ` set ds) d \<and> separated_ies F ds"

text \<open>An element that is left out has no later element of its type.\<close>

fun in_order_ie :: "ie_des \<Rightarrow> ie_value \<Rightarrow> bool" and in_order :: "ie_des list \<Rightarrow> ie_value list \<Rightarrow> bool" where
  "in_order_ie (Grp t ds) (Group vs) \<longleftrightarrow> in_order ds vs"
| "in_order_ie _ _ \<longleftrightarrow> True"
| "in_order (d # ds) (v # vs) \<longleftrightarrow>
     (v = Absent \<longrightarrow> (\<forall>(e, w)\<in>set (zip ds vs). w \<noteq> Absent \<longrightarrow> ie_type e \<noteq> ie_type d)) \<and> in_order_ie d v \<and> in_order ds vs"
| "in_order _ _ \<longleftrightarrow> True"

lemma ie_type_in: "ie_type d \<in> ie_types d" by (cases d) auto

lemma next_type_in: "next_type ds vs f = f \<or> (\<exists>(d, v)\<in>set (zip ds vs). v \<noteq> Absent \<and> next_type ds vs f = ie_type d)"
  by (induction ds vs f rule: next_type.induct) auto

lemma separated_insert:
  "separated_ie F d \<Longrightarrow> f \<notin> ie_types d \<Longrightarrow> separated_ie (insert f F) d"
  "separated_ies F ds \<Longrightarrow> f \<notin> (\<Union>d\<in>set ds. ie_types d) \<Longrightarrow> separated_ies (insert f F) ds"
  by (induction F d and F ds rule: separated_ie_separated_ies.induct) (auto simp: ie_type_in)

lemma separated_plain:
  "separated_ie F d \<Longrightarrow> in_order_ie d v \<Longrightarrow> f \<in> F \<Longrightarrow> v \<noteq> Absent \<Longrightarrow> plain_ie d v f"
  "separated_ies F ds \<Longrightarrow> in_order ds vs \<Longrightarrow> f \<in> F \<Longrightarrow> plain_ies ds vs f"
proof (induction d v f and ds vs f arbitrary: F and F rule: plain_ie_plain_ies.induct)
  case (4 d ds v vs f)
  have n: "next_type ds vs f \<in> F \<union> ie_type ` set ds"
    using next_type_in [of ds vs f] 4(5) by (auto dest: set_zip_leftD)
  have "plain_ie d v (next_type ds vs f)"
  proof (cases "v = Absent")
    case True
    then show ?thesis using next_type_in [of ds vs f] 4(3,4,5) by auto
  next
    case False
    then show ?thesis using 4(1) [of "F \<union> ie_type ` set ds"] 4(3,4) n by simp
  qed
  moreover have "plain_ies ds vs f" using 4(2) [of F] 4(3-5) by simp
  ultimately show ?case by simp
qed auto

lemma trees_1 [simp]:
  "describe (Suc (Suc n)) 132 = Some (Grp 132 [Tlv 138, Tlv 139, Tlv 133, Tlv 136, Tlv 134, Tlv 135, Tlv 23])"
  "describe (Suc (Suc n)) 4 = Some (Grp 4 [Tlv 42, Tlv 22, Tlv 38, Tlv 84, Tlv 30, Tlv 41, Tlv 98, Tlv 131, Tlv 137])"
  "describe (Suc (Suc n)) 5 = Some (Grp 5 [Tlv 42, Tlv 84, Tlv 30, Tlv 41])"
  "describe (Suc (Suc n)) 148 = Some (Grp 148 [Tlv 150, Tlv 151])"
  "describe (Suc (Suc n)) 118 = Some (Grp 118 [Tlv 120, Tlv 119])"
  "describe (Suc (Suc n)) 147 = Some (Grp 147 [Tlv 33, Tlv 34, Tlv 35, Tlv 121, Tlv 122])"
  "describe (Suc (Suc n)) 7 = Some (Grp 7 [Tlv 109, Tlv 28, Tlv 25, Tlv 26, Tlv 27, Tlv 94, Tlv 97, Tlv 124, Tlv 123])"
  "describe (Suc (Suc n)) 85 = Some (Grp 85 [Tlv 88, Tlv 46, Tlv 140])"
  "describe (Suc (Suc n)) 127 = Some (Grp 127 [Tlv 131, Tlv 21, Tlv 22, Tlv 93, Tlv 142, Tlv 153, Tlv 154, Tlv 155])"
  by (simp_all add: ieDescriptionTable_def group_elements_def)

lemma trees_2 [simp]:
  "describe (Suc (Suc (Suc n))) 2 = Some (Grp 2 [Tlv 20, Tlv 21, Tlv 22, Tlv 93, Tlv 131, Tlv 23, Tlv 24, Tlv 142, Grp 132 [Tlv
     138, Tlv 139, Tlv 133, Tlv 136, Tlv 134, Tlv 135, Tlv 23], Tlv 124, Tlv 153, Tlv 154, Tlv 155])"
  "describe (Suc (Suc (Suc n))) 3 = Some (Grp 3 [Tlv 108, Tlv 44, Grp 4 [Tlv 42, Tlv 22, Tlv 38, Tlv 84, Tlv 30, Tlv 41, Tlv 98,
     Tlv 131, Tlv 137], Grp 5 [Tlv 42, Tlv 84, Tlv 30, Tlv 41], Tlv 88])"
  "describe (Suc (Suc (Suc n))) 6 = Some (Grp 6 [Tlv 81, Tlv 62, Tlv 37, Tlv 64, Tlv 31, Tlv 73, Tlv 32, Tlv 74, Tlv 71, Tlv 72,
     Tlv 33, Grp 148 [Tlv 150, Tlv 151], Tlv 34, Tlv 35, Tlv 121, Tlv 122, Tlv 36, Tlv 82, Tlv 100, Tlv 115, Grp 118 [Tlv 120, Tlv
     119], Tlv 108, Tlv 146, Grp 147 [Tlv 33, Tlv 34, Tlv 35, Tlv 121, Tlv 122]])"
  by (simp_all add: ieDescriptionTable_def group_elements_def)

lemma trees_3 [simp]:
  "describe (Suc (Suc (Suc (Suc n)))) 1 = Some (Grp 1 [Tlv 56, Tlv 29, Grp 2 [Tlv 20, Tlv 21, Tlv 22, Tlv 93, Tlv 131, Tlv 23, Tlv
     24, Tlv 142, Grp 132 [Tlv 138, Tlv 139, Tlv 133, Tlv 136, Tlv 134, Tlv 135, Tlv 23], Tlv 124, Tlv 153, Tlv 154, Tlv 155], Tlv
     95, Tlv 108, Tlv 81, Tlv 81, Tlv 81, Tlv 81, Tlv 109, Tlv 109, Tlv 106])"
  by (simp_all add: ieDescriptionTable_def group_elements_def)


lemmas message_rules = message_ies_def message_index_def message_entries_def describe_steps


lemma establishment_entries:
  "ie_next (ieDescriptionTable 169) = [60, 57, 1, 1, 1, 1, 3, 3, 3, 3, 6, 6, 6, 6, 7, 7, 7, 7, 85, 127, 113, 65, 65, 65, 65, 65, 117, 141, 152]"
  by (simp add: ieDescriptionTable_def message_entries_def)
lemma establishment_leaves [simp]:
  "describe (Suc n) 60 = Some (Tlv 60)" "describe (Suc n) 57 = Some (Tlv 57)" "describe (Suc n) 113 = Some (Tlv 113)"
  "describe (Suc n) 65 = Some (Tlv 65)" "describe (Suc n) 117 = Some (Tlv 117)" "describe (Suc n) 141 = Some (Tlv 141)"
  "describe (Suc n) 152 = Some (Tlv 152)"
  by (simp_all add: ieDescriptionTable_def group_elements_def)


definition well_separated :: "u8 \<Rightarrow> bool" where
  "well_separated ty \<longleftrightarrow> (case message_ies ty of None \<Rightarrow> False | Some ds \<Rightarrow> separated_ies {} ds)"

lemma establishment_separated: "well_separated 50"
  by (simp del: describe.simps One_nat_def add: well_separated_def message_ies_def message_index_def establishment_entries describe_steps)

lemma messages_separated:
  "well_separated 1" "well_separated 2" "well_separated 5" "well_separated 6" "well_separated 9" "well_separated 54" "well_separated 55"
  by (simp_all add: well_separated_def message_rules ieDescriptionTable_def group_elements_def)

lemma responses_separated: "well_separated 51" "well_separated 53" "well_separated 56" "well_separated 57"
  by (simp_all add: well_separated_def message_rules ieDescriptionTable_def group_elements_def)
text \<open>
  C8. Parsing a message. For a message in memory that carries, in the order of the table, the encoding of some elements, the parser returns
  these elements exactly when no element that is left out has the type of the one that comes next, groups included; what lies behind
  the message counts as the next element of the last ones. So every message of the listed types is parsed as it was sent when
  repeated elements fill their places from the front and no element type of the message happens to lie behind it. The modification request, type 52, is not
  listed: its element 49 is also the last but one of a group.
\<close>

theorem pfcp_parse_exact:
  assumes "message_ies (m 1) = Some ds" "ies_ok ds vs" "len = (if bit (m 0) 0 then 16 else 8) + length (encode_ies ds vs)"
    and "holds m (if bit (m 0) 0 then 16 else 8) (encode_ies ds vs)" "encode_ies ds vs \<noteq> []" "len < 65536"
  shows "(PfcpParseMessage m len = Some (parse_header m, vs) \<longleftrightarrow> plain_ies ds vs (read16 m len)) \<and>
    (m 1 \<in> {1, 2, 5, 6, 9, 50, 51, 53, 54, 55, 56, 57} \<and> in_order ds vs \<and> read16 m len \<notin> (\<Union>d\<in>set ds. ie_types d) \<longrightarrow>
       PfcpParseMessage m len = Some (parse_header m, vs))"
proof -
  let ?h = "if bit (m 0) 0 then 16 else 8 :: nat"
  have "(of_nat len :: u16) - of_nat ?h = of_nat (length (encode_ies ds vs))" using assms(3) by simp
  moreover have "(of_nat (length (encode_ies ds vs)) :: u16) \<noteq> 0"
    using assms(3,5,6) by (simp add: word_of_nat_eq_0_iff nat_dvd_not_less)
  ultimately have "PfcpParseMessage m len = map_option (\<lambda>(vs, e). (parse_header m, vs)) (TlvParseMessage m ds ?h)"
    using assms(1) unfolding PfcpParseMessage_def Let_def parse_header_fields by simp
  then have exact: "PfcpParseMessage m len = Some (parse_header m, vs) \<longleftrightarrow> plain_ies ds vs (read16 m len)"
    using parse_exact(2) [OF assms(2,4) refl] assms(3) by auto
  have "plain_ies ds vs f" if "well_separated (m 1)" "in_order ds vs" "f \<notin> (\<Union>d\<in>set ds. ie_types d)" for f
    using that assms(1) separated_insert(2) [of "{}" ds f] separated_plain(2) [of "{f}" ds vs f] by (simp add: well_separated_def)
  moreover have "well_separated (m 1)" if "m 1 \<in> {1, 2, 5, 6, 9, 50, 51, 53, 54, 55, 56, 57}"
    using that messages_separated responses_separated establishment_separated by fastforce
  ultimately show ?thesis using exact by blast
qed

subsection \<open>The builder\<close>

text \<open>What the builder makes: the length of a group is lost when the group outgrows the first buffer.\<close>

fun built_ie :: "ie_des \<Rightarrow> ie_value \<Rightarrow> u8 list" and built_ies :: "ie_des list \<Rightarrow> ie_value list \<Rightarrow> u8 list" where
  "built_ie (Tlv t) (Octets bs) = be16 t @ be16 (length bs) @ bs"
| "built_ie (Grp t ds) (Group vs) =
     be16 t @ be16 (if 4 + length (built_ies ds vs) \<le> 64 then length (built_ies ds vs) else 0) @ built_ies ds vs"
| "built_ie _ _ = []"
| "built_ies (d # ds) (v # vs) = built_ie d v @ built_ies ds vs"
| "built_ies _ _ = []"

fun compact_ie :: "ie_des \<Rightarrow> ie_value \<Rightarrow> bool" and compact_ies :: "ie_des list \<Rightarrow> ie_value list \<Rightarrow> bool" where
  "compact_ie (Grp t ds) (Group vs) \<longleftrightarrow> length (encode_ies ds vs) \<le> 60 \<and> compact_ies ds vs"
| "compact_ie _ _ \<longleftrightarrow> True"
| "compact_ies (d # ds) (v # vs) \<longleftrightarrow> compact_ie d v \<and> compact_ies ds vs"
| "compact_ies _ _ \<longleftrightarrow> True"

lemma built_length:
  "length (built_ie d v) = length (encode_ie d v)" "length (built_ies ds vs) = length (encode_ies ds vs)"
  by (induction d v and ds vs rule: encode_ie_encode_ies.induct) simp_all

lemma be16_zero: "be16 n = be16 0 \<Longrightarrow> n < 65536 \<Longrightarrow> n = 0"
proof -
  assume "be16 n = be16 0" "n < 65536"
  then have "256 dvd n div 256" "256 dvd n" "n div 256 < 256" by (auto simp: be16_def word_of_nat_eq_0_iff)
  then show "n = 0" by (metis dvd_div_eq_0_iff nat_dvd_not_less neq0_conv)
qed

lemma built_exact:
  "ie_ok d v \<Longrightarrow> built_ie d v = encode_ie d v \<longleftrightarrow> compact_ie d v"
  "ies_ok ds vs \<Longrightarrow> built_ies ds vs = encode_ies ds vs \<longleftrightarrow> compact_ies ds vs"
proof (induction d v and ds vs rule: encode_ie_encode_ies.induct)
  case (2 t ds vs)
  have "be16 (if length (encode_ies ds vs) \<le> 60 then length (encode_ies ds vs) else 0) = be16 (length (encode_ies ds vs)) \<longleftrightarrow>
      length (encode_ies ds vs) \<le> 60"
    using 2(3) be16_zero [of "length (encode_ies ds vs)"] by auto
  then show ?case using 2 by (cases "length (encode_ies ds vs) \<le> 60") (simp_all add: built_length)
next
  case (4 d ds v vs)
  then show ?case by (simp add: built_length append_eq_append_conv)
qed auto

lemma pool_size_bounds: "pool_size n = Some s \<Longrightarrow> n \<le> s \<and> 64 \<le> s \<and> (s = 64 \<or> s \<le> 2 * n)"
  unfolding pool_size_def by (simp split: if_splits)

lemma pool_size_fits: "n \<le> 65536 \<Longrightarrow> \<exists>s. pool_size n = Some s"
  unfolding pool_size_def by simp

definition block_ok :: "Bufblk \<Rightarrow> bool" where
  "block_ok b \<longleftrightarrow> length (bb_bytes b) \<le> bb_size b \<and> 64 \<le> bb_size b"

lemma BufblkBytes_appends:
  assumes "block_ok b" "length (bb_bytes b) + length str \<le> 32768"
  shows "\<exists>b'. BufblkBytes b str = (b', STATUS_OK) \<and> block_ok b' \<and> bb_bytes b' = bb_bytes b @ str \<and>
     (if length (bb_bytes b @ str) \<le> bb_size b then bb_size b' = bb_size b \<and> bb_moves b' = bb_moves b
      else bb_moves b < bb_moves b')"
proof (cases "length (bb_bytes b @ str) \<le> bb_size b")
  case True
  then show ?thesis using assms by (auto simp: BufblkBytes_def block_ok_def)
next
  case False
  then have "bb_size b + length str \<le> 65536" using assms by simp
  then obtain s where s: "pool_size (bb_size b + length str) = Some s" using pool_size_fits by blast
  note pool_size_bounds [OF s]
  moreover have "length (bb_bytes b) \<le> s" using calculation assms(1) by (simp add: block_ok_def)
  ultimately show ?thesis using False s assms(1) by (auto simp: BufblkBytes_def BufblkResize_def block_ok_def Let_def)
qed


lemma build_exact:
  "ie_ok d v \<Longrightarrow> length (encode_ie d v) \<le> 32768 \<Longrightarrow>
     (v = Absent \<longrightarrow> TlvBuildMessage d v = Some None) \<and>
     (v \<noteq> Absent \<longrightarrow> (\<exists>b. TlvBuildMessage d v = Some (Some b) \<and> bb_bytes b = built_ie d v))"
  "ies_ok ds vs \<Longrightarrow> block_ok b \<Longrightarrow> length (bb_bytes b) + length (encode_ies ds vs) \<le> 32768 \<Longrightarrow>
     \<exists>b'. build_children ds vs b n = Some (b', n + length (encode_ies ds vs)) \<and> block_ok b' \<and>
       bb_bytes b' = bb_bytes b @ built_ies ds vs \<and>
       (if length (bb_bytes b') \<le> bb_size b then bb_size b' = bb_size b \<and> bb_moves b' = bb_moves b else bb_moves b < bb_moves b')"
proof (induction d v and ds vs arbitrary: and b n rule: ie_ok_ies_ok.induct)
  case (2 t bs)
  then obtain s where "pool_size (4 + length bs) = Some s" using pool_size_fits [of "4 + length bs"] by auto
  then show ?case by (simp add: BufblkAlloc_def)
next
  case (3 t ds vs)
  let ?b = "\<lparr>bb_bytes = be16 t @ be16 0, bb_size = 64, bb_moves = 0\<rparr>"
  have "pool_size 4 = Some 64" by (simp add: pool_size_def)
  moreover have "block_ok ?b" by (simp add: block_ok_def)
  moreover obtain b' where "build_children ds vs ?b 0 = Some (b', length (encode_ies ds vs))"
     "bb_bytes b' = be16 t @ be16 0 @ built_ies ds vs"
     "if 4 + length (encode_ies ds vs) \<le> 64 then bb_moves b' = 0 else 0 < bb_moves b'"
    using 3(1) [of ?b 0] 3(2,3) calculation by (auto simp: built_length split: if_splits)
  ultimately show ?case by (auto simp: BufblkAlloc_def set_length_def built_length split: if_splits)
next
  case (6 d ds v vs)
  show ?case
  proof (cases "v = Absent")
    case True
    then show ?thesis using 6 by (cases d) auto
  next
    case False
    obtain c where c: "TlvBuildMessage d v = Some (Some c)" "bb_bytes c = built_ie d v" using 6(1,3,5) False by auto
    have "length (bb_bytes b) + length (built_ie d v) \<le> 32768" using 6(5) by (simp add: built_length)
    then obtain b1 where b1: "BufblkBytes b (built_ie d v) = (b1, STATUS_OK)" "block_ok b1" "bb_bytes b1 = bb_bytes b @ built_ie d v"
      "if length (bb_bytes b @ built_ie d v) \<le> bb_size b then bb_size b1 = bb_size b \<and> bb_moves b1 = bb_moves b
       else bb_moves b < bb_moves b1"
      using BufblkBytes_appends [OF 6(4)] by blast
    have "length (bb_bytes b1) + length (encode_ies ds vs) \<le> 32768" "ies_ok ds vs"
      using 6(3,5) b1(3) by (simp_all add: built_length)
    then obtain b2 where b2: "build_children ds vs b1 (n + length (built_ie d v)) =
        Some (b2, n + length (built_ie d v) + length (encode_ies ds vs))" "block_ok b2" "bb_bytes b2 = bb_bytes b1 @ built_ies ds vs"
      "if length (bb_bytes b2) \<le> bb_size b1 then bb_size b2 = bb_size b1 \<and> bb_moves b2 = bb_moves b1 else bb_moves b1 < bb_moves b2"
      using 6(2) [of b1 "n + length (built_ie d v)"] b1(2) by blast
    have run: "build_children (d # ds) (v # vs) b n = Some (b2, n + length (encode_ies (d # ds) (v # vs)))"
      using c b1(1) b2(1) by (simp add: built_length ac_simps)
    have bytes: "bb_bytes b2 = bb_bytes b @ built_ies (d # ds) (v # vs)" using b1(3) b2(3) by simp
    have "length (bb_bytes b @ built_ie d v) \<le> length (bb_bytes b2)" by (simp add: b1(3) b2(3))
    then have "if length (bb_bytes b2) \<le> bb_size b then bb_size b2 = bb_size b \<and> bb_moves b2 = bb_moves b
        else bb_moves b < bb_moves b2"
      using b1(4) b2(4) by (auto split: if_splits)
    then show ?thesis using run bytes b2(2) by blast
  qed
qed (auto simp: block_ok_def)

text \<open>
  C33. Building a message. A message of at most 32768 octets of elements that can be encoded is built with the right length, and its octets are
  those of the encoding exactly when no group in it, at any depth, is longer than 60 octets: the length of a longer group is written to a buffer
  that has been given back, and the message carries zero instead.
\<close>

theorem pfcp_build_exact:
  assumes "message_ies ty = Some ds" "ies_ok ds vs" "length (encode_ies ds vs) \<le> 32768"
  shows "\<exists>b. PfcpBuildMessage ty vs = Some b \<and> length (bb_bytes b) = length (encode_ies ds vs) \<and>
     (bb_bytes b = encode_ies ds vs \<longleftrightarrow> compact_ies ds vs)"
proof -
  let ?b = "\<lparr>bb_bytes = [], bb_size = 64, bb_moves = 0\<rparr>"
  have "BufblkAlloc 0 = Some ?b" by (simp add: BufblkAlloc_def pool_size_def)
  moreover obtain b where "build_children ds vs ?b 0 = Some (b, length (encode_ies ds vs))" "bb_bytes b = built_ies ds vs"
    using build_exact(2) [OF assms(2), of ?b 0] assms(3) by (auto simp: block_ok_def)
  ultimately show ?thesis
    using assms(1) built_exact(2) [OF assms(2)] by (simp add: PfcpBuildMessage_def PfcpBuildBody_def built_length)
qed

subsection \<open>A concrete message\<close>

definition memory :: "u8 list \<Rightarrow> octets" where
  "memory bs = (\<lambda>i. if i < length bs then bs ! i else 0)"

text \<open>A session report request for PDR 7 of the session with SEID 5.\<close>

definition report_packet :: "u8 list" where
  "report_packet = [0x21, 56, 0, 27, 0, 0, 0, 0, 0, 0, 0, 5, 0, 0, 1, 0, 0, 39, 0, 1, 1, 0, 83, 0, 6, 0, 56, 0, 2, 0, 7]"

definition report_values :: "ie_value list" where
  "report_values = [Octets [1], Group [Octets [0, 7], Absent], Absent, Absent, Absent, Absent, Absent]"

definition report_des :: "ie_des list" where
  "report_des =
     [Tlv 39, Grp 83 [Tlv 56, Tlv 45],
      Grp 80 [Tlv 81, Tlv 104, Tlv 63, Tlv 75, Tlv 76, Tlv 66, Tlv 67, Grp 68 [Tlv 24, Tlv 91, Tlv 92], Tlv 93, Tlv 22, Tlv 69, Tlv 70,
        Tlv 90, Tlv 125, Grp 149 [Tlv 150], Grp 143 [Tlv 144, Tlv 145]],
      Grp 99 [Tlv 21], Grp 51 [Tlv 52, Tlv 53], Grp 54 [Tlv 52, Tlv 53, Tlv 55, Tlv 110], Tlv 126]"

lemma report_ies: "message_ies 56 = Some report_des"
  by (simp add: report_des_def message_rules ieDescriptionTable_def group_elements_def)

lemma report_encoding: "encode_ies report_des report_values = drop 16 report_packet"
  by (simp add: report_des_def report_values_def report_packet_def be16_def)

lemma report_ok: "ies_ok report_des report_values" "compact_ies report_des report_values" "in_order report_des report_values"
  by (simp_all add: report_des_def report_values_def be16_def)

theorem pfcp_parse_exact_witness:
  "PfcpParseMessage (memory report_packet) 31 = Some (parse_header (memory report_packet), report_values)"
proof -
  have m: "memory report_packet 0 = 0x21" "memory report_packet 1 = 56" "read16 (memory report_packet) 31 = 0"
    by (simp_all add: memory_def report_packet_def read16_octets)
  have "holds (memory report_packet) 16 (drop 16 report_packet)" by (simp add: holds_def memory_def report_packet_def)
  moreover have "0 \<notin> (\<Union>d\<in>set report_des. ie_types d)" by (simp add: report_des_def)
  moreover have "length report_packet = 31" "drop 16 report_packet \<noteq> []" by (simp_all add: report_packet_def)
  moreover have "bit (0x21 :: u8) 0" by simp
  ultimately show ?thesis
    using pfcp_parse_exact [of "memory report_packet" report_des report_values 31] report_ies report_encoding report_ok m by simp
qed

theorem pfcp_build_exact_witness:
  "\<exists>b. PfcpBuildMessage 56 report_values = Some b \<and> bb_bytes b = drop 16 report_packet"
proof -
  have "length (drop 16 report_packet) \<le> 32768" by (simp add: report_packet_def)
  then show ?thesis using pfcp_build_exact [OF report_ies report_ok(1)] report_encoding report_ok(2) by auto
qed

end
