(* ===== verification/Pfcp_Xact.thy ===== *)
theory Pfcp_Xact
  imports Pfcp_Tlv
begin

text \<open>
  The transactions of PFCP (\<^verbatim>\<open>onvm/pfcp/pfcp_xact.c\<close>): a request and its response, retransmissions, and the pool the
  transactions live in (\<^verbatim>\<open>onvm/utlt/utlt_index.h\<close>). One peer is modelled. Every insertion into a list of transactions of the peer first empties the
  list, so that a list is the last transaction put into it. An operation has no result where it follows a null pointer or
  reads outside an array.
\<close>

subsection \<open>Transactions\<close>

abbreviation (input) PFCP_LOCAL_ORIGINATOR :: u8 where "PFCP_LOCAL_ORIGINATOR \<equiv> 0"
abbreviation (input) PFCP_REMOTE_ORIGINATOR :: u8 where "PFCP_REMOTE_ORIGINATOR \<equiv> 1"

text \<open>A timer is absent, or stopped or running.\<close>

record PfcpXact =
  x_origin :: u8
  x_transactionId :: u32
  x_step :: nat
  x_types :: "u8 list"
  x_bufs :: "u8 list option list"
  x_timerResponse :: "bool option"
  x_responseReCount :: u8
  x_timerHolding :: "bool option"
  x_holdingReCount :: u8
  x_linked :: bool

definition zero_xact :: PfcpXact where
  "zero_xact = \<lparr>x_origin = 0, x_transactionId = 0, x_step = 0, x_types = [0, 0, 0], x_bufs = [None, None, None],
     x_timerResponse = None, x_responseReCount = 0, x_timerHolding = None, x_holdingReCount = 0, x_linked = False\<rparr>"

datatype PfcpXactStage = Unknown_Stage | Initial_Stage | Intermediate_Stage | Final_Stage

definition PfcpXactGetStage :: "u8 \<Rightarrow> PfcpXactStage" where
  "PfcpXactGetStage ty =
     (if ty \<in> {1, 5, 7, 9, 50, 52, 54, 56} then Initial_Stage
      else if ty \<in> {2, 6, 8, 10, 11, 51, 53, 55, 57} then Final_Stage
      else Unknown_Stage)"

subsection \<open>Sending\<close>

definition be_bytes :: "nat \<Rightarrow> 'a::len word \<Rightarrow> u8 list" where
  "be_bytes n x = map (be_octets n x) [0..<n]"

text \<open>The header: version 1, with a SEID from type 50 on; the sequence number is the transaction identifier in the first three of four octets.\<close>

definition tx_header :: "u8 \<Rightarrow> u64 \<Rightarrow> u32 \<Rightarrow> nat \<Rightarrow> u8 list" where
  "tx_header ty seid tid bodyLen =
     (if ty \<ge> 50
      then [0x21, ty] @ be16 (bodyLen + 16 - 4) @ be_bytes 8 seid @ be_bytes 4 (push_bit 8 tid)
      else [0x20, ty] @ be16 (bodyLen + 8 - 4) @ be_bytes 4 (push_bit 8 tid))"

definition full_packet :: "u8 list \<Rightarrow> u8 list \<Rightarrow> u8 list option" where
  "full_packet hdr body =
     map_option (\<lambda>b. bb_bytes (fst (BufblkBytes (b \<lparr>bb_bytes := hdr\<rparr>) body))) (BufblkAlloc (length hdr))"

definition tx_allowed :: "PfcpXact \<Rightarrow> PfcpXactStage \<Rightarrow> bool" where
  "tx_allowed x stage \<longleftrightarrow>
     (if x_origin x = PFCP_LOCAL_ORIGINATOR then
        (case stage of Initial_Stage \<Rightarrow> x_step x = 0 | Final_Stage \<Rightarrow> x_step x = 2 | _ \<Rightarrow> False)
      else if x_origin x = PFCP_REMOTE_ORIGINATOR then
        (case stage of Intermediate_Stage \<Rightarrow> x_step x = 1 | Final_Stage \<Rightarrow> x_step x = 1 | _ \<Rightarrow> False)
      else False)"

definition PfcpXactUpdateTx :: "PfcpXact \<Rightarrow> u8 \<Rightarrow> u64 \<Rightarrow> u8 list \<Rightarrow> (PfcpXact \<times> Status) option" where
  "PfcpXactUpdateTx x ty seid body =
     (if \<not> tx_allowed x (PfcpXactGetStage ty) then Some (x, STATUS_ERROR)
      else do {
        p \<leftarrow> full_packet (tx_header ty seid (x_transactionId x) (length body)) body;
        (if x_step x < 3
         then Some (x \<lparr>x_types := (x_types x)[x_step x := ty], x_bufs := (x_bufs x)[x_step x := Some p], x_step := x_step x + 1\<rparr>, STATUS_OK)
         else None)
      })"

subsection \<open>Receiving\<close>

text \<open>A request that has been seen: what was sent for it is sent again. \<open>send\<close> is the result of \<^verbatim>\<open>PfcpSend\<close>.\<close>

definition retransmit :: "bool \<Rightarrow> PfcpXact \<Rightarrow> nat \<Rightarrow> PfcpXact \<times> Status \<times> u8 list list" where
  "retransmit send x k =
     (case x_bufs x ! k of
        None \<Rightarrow> (x, STATUS_EAGAIN, [])
      | Some p \<Rightarrow>
          let x = x \<lparr>x_timerHolding := map_option (\<lambda>_. True) (x_timerHolding x)\<rparr>
          in if send then (x, STATUS_EAGAIN, [p]) else (x, STATUS_ERROR, []))"

definition rx_next :: "PfcpXact \<Rightarrow> u8 \<Rightarrow> (PfcpXact \<times> Status \<times> u8 list list) option" where
  "rx_next x ty =
     (if x_step x < 3
      then Some (x \<lparr>x_timerResponse := map_option (\<lambda>_. False) (x_timerResponse x), x_types := (x_types x)[x_step x := ty],
             x_step := x_step x + 1\<rparr>, STATUS_OK, [])
      else None)"

abbreviation start_holding :: "PfcpXact \<Rightarrow> PfcpXact" where
  "start_holding x \<equiv> x \<lparr>x_timerHolding := map_option (\<lambda>_. True) (x_timerHolding x)\<rparr>"

definition PfcpXactUpdateRx :: "bool \<Rightarrow> PfcpXact \<Rightarrow> u8 \<Rightarrow> (PfcpXact \<times> Status \<times> u8 list list) option" where
  "PfcpXactUpdateRx send x ty =
     (let fail = Some (x, STATUS_ERROR, []) in
      if x_origin x = PFCP_LOCAL_ORIGINATOR then
        (case PfcpXactGetStage ty of
           Intermediate_Stage \<Rightarrow>
             if x_types x ! 1 = ty then
               if x_step x \<noteq> 2 \<and> x_step x \<noteq> 3 then fail else Some (retransmit send x 2)
             else if x_step x \<noteq> 1 then fail
             else rx_next (start_holding x) ty
         | Final_Stage \<Rightarrow> if x_step x \<noteq> 1 then fail else rx_next x ty
         | _ \<Rightarrow> fail)
      else if x_origin x = PFCP_REMOTE_ORIGINATOR then
        (case PfcpXactGetStage ty of
           Initial_Stage \<Rightarrow>
             if x_types x ! 0 = ty then
               if x_step x \<noteq> 1 \<and> x_step x \<noteq> 2 then fail else Some (retransmit send x 1)
             else if x_step x \<noteq> 0 then fail
             else rx_next (start_holding x) ty
         | Final_Stage \<Rightarrow> if x_step x \<noteq> 2 then fail else rx_next x ty
         | _ \<Rightarrow> fail)
      else fail)"

subsection \<open>The pool and the lists\<close>

text \<open>The free slots in the order they are handed out, and of each list the transaction that is in it.\<close>

record xact_pool =
  xp_xacts :: "nat \<Rightarrow> PfcpXact"
  xp_avail :: "nat list"
  xp_globalXactId :: u32
  xp_local :: "nat option"
  xp_remote :: "nat option"

abbreviation (input) SIZE_OF_PFCP_XACT_POOL :: nat where "SIZE_OF_PFCP_XACT_POOL \<equiv> 64"
abbreviation (input) PFCP_MIN_XACT_ID :: u32 where "PFCP_MIN_XACT_ID \<equiv> 1"
abbreviation (input) PFCP_MAX_XACT_ID :: u32 where "PFCP_MAX_XACT_ID \<equiv> 0x800000"

definition PfcpXactInit :: "xact_pool" where
  "PfcpXactInit = \<lparr>xp_xacts = (\<lambda>_. zero_xact), xp_avail = [0..<SIZE_OF_PFCP_XACT_POOL], xp_globalXactId = 0, xp_local = None, xp_remote = None\<rparr>"

abbreviation set_xact :: "xact_pool \<Rightarrow> nat \<Rightarrow> PfcpXact \<Rightarrow> xact_pool" where
  "set_xact s i x \<equiv> s \<lparr>xp_xacts := (xp_xacts s)(i := x)\<rparr>"

definition IndexAlloc :: "xact_pool \<Rightarrow> xact_pool \<times> nat option" where
  "IndexAlloc s = (case xp_avail s of [] \<Rightarrow> (s, None) | i # q \<Rightarrow> (set_xact (s \<lparr>xp_avail := q\<rparr>) i zero_xact, Some i))"

definition IndexFree :: "xact_pool \<Rightarrow> nat \<Rightarrow> xact_pool" where
  "IndexFree s i = (if length (xp_avail s) < SIZE_OF_PFCP_XACT_POOL then s \<lparr>xp_avail := xp_avail s @ [i]\<rparr> else s)"

definition xact_list_insert :: "xact_pool \<Rightarrow> nat \<Rightarrow> xact_pool" where
  "xact_list_insert s i =
     (let x = xp_xacts s i; s = set_xact s i (x \<lparr>x_linked := True\<rparr>)
      in if x_origin x = PFCP_LOCAL_ORIGINATOR then s \<lparr>xp_local := Some i\<rparr> else s \<lparr>xp_remote := Some i\<rparr>)"

text \<open>Removal makes the neighbours of the transaction point to each other. They are the head of its list, which is empty then.\<close>

definition xact_list_remove :: "xact_pool \<Rightarrow> nat \<Rightarrow> xact_pool option" where
  "xact_list_remove s i =
     (let x = xp_xacts s i; s' = set_xact s i (x \<lparr>x_linked := False\<rparr>)
      in if \<not> x_linked x then None
         else if x_origin x = PFCP_LOCAL_ORIGINATOR then Some (s' \<lparr>xp_local := None\<rparr>) else Some (s' \<lparr>xp_remote := None\<rparr>))"

text \<open>
  The search goes on from a transaction that does not match to the next, which is the head again when the transaction is still the one that was
  put into this list.
\<close>

definition find_in :: "xact_pool \<Rightarrow> nat option \<Rightarrow> u8 \<Rightarrow> u32 \<Rightarrow> nat option option" where
  "find_in s l origin tid =
     (case l of
        None \<Rightarrow> Some None
      | Some i \<Rightarrow>
          let x = xp_xacts s i
          in if x_transactionId x = tid then Some (Some i)
             else if x_linked x \<and> x_origin x = origin then Some None else None)"

definition PfcpXactFindByTransactionId :: "xact_pool \<Rightarrow> u8 \<Rightarrow> u32 \<Rightarrow> nat option option" where
  "PfcpXactFindByTransactionId s ty tid =
     (case PfcpXactGetStage ty of
        Initial_Stage \<Rightarrow> find_in s (xp_remote s) PFCP_REMOTE_ORIGINATOR tid
      | Intermediate_Stage \<Rightarrow> find_in s (xp_local s) PFCP_LOCAL_ORIGINATOR tid
      | Final_Stage \<Rightarrow>
          if tid AND PFCP_MAX_XACT_ID \<noteq> 0 then find_in s (xp_remote s) PFCP_REMOTE_ORIGINATOR tid
          else find_in s (xp_local s) PFCP_LOCAL_ORIGINATOR tid
      | Unknown_Stage \<Rightarrow> Some None)"

subsection \<open>Transactions of the pool\<close>

text \<open>\<open>response\<close> and \<open>holding\<close> are the results of the creation of the two timers.\<close>

record timer_env =
  te_response :: bool
  te_holding :: bool

definition PfcpSqn2TransactionId :: "u32 \<Rightarrow> u32" where
  "PfcpSqn2TransactionId sqn = drop_bit 8 (rte_be_to_cpu_32 sqn)"

definition PfcpXactRemoteCreate :: "timer_env \<Rightarrow> xact_pool \<Rightarrow> u32 \<Rightarrow> xact_pool \<times> nat option" where
  "PfcpXactRemoteCreate te s sqn =
     (case IndexAlloc s of
        (s, None) \<Rightarrow> (s, None)
      | (s, Some i) \<Rightarrow>
          let x = zero_xact \<lparr>x_origin := PFCP_REMOTE_ORIGINATOR, x_transactionId := PfcpSqn2TransactionId sqn\<rparr>
          in if \<not> te_response te then (IndexFree (set_xact s i x) i, None)
             else
               let x = x \<lparr>x_timerResponse := Some False, x_responseReCount := 3\<rparr>
               in if \<not> te_holding te then (IndexFree (set_xact s i x) i, None)
                  else (xact_list_insert (set_xact s i (x \<lparr>x_timerHolding := Some False, x_holdingReCount := 1\<rparr>)) i, Some i))"

definition next_xact_id :: "u32 \<Rightarrow> u32" where
  "next_xact_id k = (if k = PFCP_MAX_XACT_ID then PFCP_MIN_XACT_ID else k + 1)"

text \<open>When the message cannot be attached, the slot is given back with the transaction still in the list.\<close>

definition PfcpXactLocalCreate :: "xact_pool \<Rightarrow> u8 \<Rightarrow> u64 \<Rightarrow> u8 list \<Rightarrow> (xact_pool \<times> nat option) option" where
  "PfcpXactLocalCreate s ty seid body =
     (case IndexAlloc s of
        (s, None) \<Rightarrow> Some (s, None)
      | (s, Some i) \<Rightarrow>
          let s = s \<lparr>xp_globalXactId := next_xact_id (xp_globalXactId s)\<rparr>;
              s = xact_list_insert (set_xact s i (zero_xact \<lparr>x_origin := PFCP_LOCAL_ORIGINATOR, x_transactionId := xp_globalXactId s\<rparr>)) i
          in do {
               (x, status) \<leftarrow> PfcpXactUpdateTx (xp_xacts s i) ty seid body;
               let s = set_xact s i x;
               Some (if status = STATUS_OK then (s, Some i) else (IndexFree s i, None))
             })"

definition PfcpXactDelete :: "xact_pool \<Rightarrow> nat \<Rightarrow> xact_pool option" where
  "PfcpXactDelete s i =
     do {
       s \<leftarrow> (if x_origin (xp_xacts s i) \<in> {PFCP_LOCAL_ORIGINATOR, PFCP_REMOTE_ORIGINATOR} then xact_list_remove s i else Some s);
       let x = (xp_xacts s i) \<lparr>x_origin := 0, x_transactionId := 0, x_step := 0, x_types := [0, 0, 0]\<rparr>;
       Some (IndexFree (set_xact s i x) i)
     }"

text \<open>A transaction that is deleted keeps its pointers to buffers and timers that have been freed; they are cleared when the slot is used again.\<close>

definition PfcpXactCommit :: "bool \<Rightarrow> xact_pool \<Rightarrow> nat \<Rightarrow> (xact_pool \<times> Status \<times> u8 list list) option" where
  "PfcpXactCommit send s i =
     (let x = xp_xacts s i; fail = Some (s, STATUS_ERROR, []);
          transmit = (\<lambda>s. case x_bufs x ! (x_step x - 1) of
             None \<Rightarrow> Some (s, STATUS_ERROR, [])
           | Some p \<Rightarrow> if send then Some (s, STATUS_OK, [p]) else Some (s, STATUS_ERROR, []));
          started = set_xact s i (x \<lparr>x_timerResponse := map_option (\<lambda>_. True) (x_timerResponse x)\<rparr>)
      in if x_step x = 0 then None
         else if x_origin x = PFCP_LOCAL_ORIGINATOR then
           (case PfcpXactGetStage (x_types x ! (x_step x - 1)) of
              Initial_Stage \<Rightarrow> if x_step x \<noteq> 1 then fail else transmit started
            | Final_Stage \<Rightarrow>
                if x_step x \<noteq> 2 \<and> x_step x \<noteq> 3 then fail
                else if x_step x = 2 then map_option (\<lambda>s. (s, STATUS_OK, [])) (PfcpXactDelete s i)
                else transmit s
            | _ \<Rightarrow> fail)
         else if x_origin x = PFCP_REMOTE_ORIGINATOR then
           (case PfcpXactGetStage (x_types x ! (x_step x - 1)) of
              Intermediate_Stage \<Rightarrow> if x_step x \<noteq> 2 then fail else transmit started
            | Final_Stage \<Rightarrow>
                if x_step x \<noteq> 2 \<and> x_step x \<noteq> 3 then fail
                else if x_step x = 3 then map_option (\<lambda>s. (s, STATUS_OK, [])) (PfcpXactDelete s i)
                else transmit s
            | _ \<Rightarrow> fail)
         else fail)"

datatype t3_event = T3_RESPONSE | T3_HOLDING

definition PfcpXactTimeout :: "bool \<Rightarrow> xact_pool \<Rightarrow> nat \<Rightarrow> t3_event \<Rightarrow> (xact_pool \<times> Status \<times> u8 list list) option" where
  "PfcpXactTimeout send s i event =
     (let x = xp_xacts s i in
      if x_step x = 0 then None
      else case event of
        T3_RESPONSE \<Rightarrow>
          let x = x \<lparr>x_responseReCount := x_responseReCount x - 1\<rparr>
          in if x_responseReCount x > 0 then
               let s = set_xact s i (x \<lparr>x_timerResponse := map_option (\<lambda>_. True) (x_timerResponse x)\<rparr>)
               in (case x_bufs x ! (x_step x - 1) of
                     None \<Rightarrow> Some (s, STATUS_ERROR, [])
                   | Some p \<Rightarrow> if send then Some (s, STATUS_OK, [p])
                       else map_option (\<lambda>s. (s, STATUS_ERROR, [])) (PfcpXactDelete s i))
             else map_option (\<lambda>s. (s, STATUS_ERROR, [])) (PfcpXactDelete (set_xact s i x) i)
      | T3_HOLDING \<Rightarrow>
          let x = x \<lparr>x_holdingReCount := x_holdingReCount x - 1\<rparr>
          in if x_holdingReCount x > 0 then
               Some (set_xact s i (x \<lparr>x_timerHolding := map_option (\<lambda>_. True) (x_timerHolding x)\<rparr>), STATUS_OK, [])
             else map_option (\<lambda>s. (s, STATUS_OK, [])) (PfcpXactDelete (set_xact s i x) i))"

definition PfcpXactReceive ::
  "timer_env \<Rightarrow> bool \<Rightarrow> xact_pool \<Rightarrow> u8 \<Rightarrow> u32 \<Rightarrow> (xact_pool \<times> Status \<times> nat option \<times> u8 list list) option" where
  "PfcpXactReceive te send s ty sqn =
     do {
       found \<leftarrow> PfcpXactFindByTransactionId s ty (PfcpSqn2TransactionId sqn);
       let (s, xact) = (case found of Some i \<Rightarrow> (s, Some i) | None \<Rightarrow> PfcpXactRemoteCreate te s sqn);
       (case xact of
          None \<Rightarrow> Some (s, STATUS_ERROR, None, [])
        | Some i \<Rightarrow>
            do {
              (x, status, out) \<leftarrow> PfcpXactUpdateRx send (xp_xacts s i) ty;
              let s = set_xact s i x;
              Some (if status = STATUS_OK then (s, STATUS_OK, Some i, out) else (IndexFree s i, status, None, out))
            })
     }"


subsection \<open>Headers\<close>

lemma length_be_bytes [simp]: "length (be_bytes n x) = n" by (simp add: be_bytes_def)

lemma holds_be_bytes: "holds m i (be_bytes n x) \<longleftrightarrow> (\<forall>k<n. m (i + k) = be_octets n x k)"
  by (simp add: holds_def be_bytes_def)

lemma length_tx_header: "length (tx_header ty seid tid n) = (if ty \<ge> 50 then 16 else 8)"
  by (simp add: tx_header_def)

lemma oct32_holds:
  assumes "holds m i (be_bytes 4 (x :: u32))" shows "rte_be_to_cpu_32 (oct32 m i) = x"
proof -
  have "m (i + k) = be_octets 4 x k" if "k < 4" for k using assms that by (simp add: holds_be_bytes)
  from this [of 0] this [of 1] this [of 2] this [of 3] have "oct32 m i = oct32 (be_octets 4 x) 0" by (simp add: oct32_def numeral_2_eq_2)
  then show ?thesis by (simp add: oct32_be)
qed

lemma be64toh_holds:
  assumes "holds m i (be_bytes 8 (x :: u64))" shows "be64toh (oct_word 8 m i) = x"
proof (rule bit_eqI)
  fix j assume "possible_bit TYPE(u64) j"
  then have j: "j < 64" by simp
  have d: "(8 * (7 - j div 8) + j mod 8) div 8 = 7 - j div 8" "(8 * (7 - j div 8) + j mod 8) mod 8 = j mod 8" by simp_all
  have lt: "8 * (7 - j div 8) + j mod 8 < 64" "7 - j div 8 < 8" using mod_less_divisor [of 8 j] by linarith+
  have "m (i + (7 - j div 8)) = be_octets 8 x (7 - j div 8)" using assms lt(2) unfolding holds_be_bytes by blast
  then show "bit (be64toh (oct_word 8 m i)) j = bit x j"
    using j lt by (simp add: bit_be64toh bit_oct_word d be_octets_def bit_ucast_iff bit_drop_bit_eq)
qed

lemma holds_split: "holds m i zs \<Longrightarrow> zs = xs @ ys \<Longrightarrow> length xs = n \<Longrightarrow> holds m (i + n) ys" by simp

lemma tx_header_octets:
  assumes "holds m 0 (tx_header ty seid tid n)"
  shows "m 0 = (if ty \<ge> 50 then 0x21 else 0x20)" "m 1 = ty" "ty \<ge> 50 \<Longrightarrow> holds m 4 (be_bytes 8 seid)"
    "holds m (if ty \<ge> 50 then 12 else 4) (be_bytes 4 (push_bit 8 tid))"
proof -
  have long: "holds m 4 (be_bytes 8 seid @ be_bytes 4 (push_bit 8 tid))" if "ty \<ge> 50"
    using holds_split [OF assms, of "[0x21, ty] @ be16 (n + 16 - 4)" "be_bytes 8 seid @ be_bytes 4 (push_bit 8 tid)" 4] that
    by (simp add: tx_header_def)
  have short: "holds m 4 (be_bytes 4 (push_bit 8 tid))" if "\<not> ty \<ge> 50"
    using holds_split [OF assms, of "[0x20, ty] @ be16 (n + 8 - 4)" "be_bytes 4 (push_bit 8 tid)" 4] that
    by (simp add: tx_header_def)
  show "m 0 = (if ty \<ge> 50 then 0x21 else 0x20)" "m 1 = ty" using assms by (auto simp: tx_header_def split: if_splits)
  show "ty \<ge> 50 \<Longrightarrow> holds m 4 (be_bytes 8 seid)" using long by simp
  show "holds m (if ty \<ge> 50 then 12 else 4) (be_bytes 4 (push_bit 8 tid))" using long short by simp
qed

lemma sent_header:
  assumes "holds m 0 (tx_header ty seid tid n)"
  shows "ph_type (parse_header m) = ty" "ph_seidP (parse_header m) \<longleftrightarrow> ty \<ge> 50"
    "ty \<ge> 50 \<Longrightarrow> ph_seid (parse_header m) = seid"
    "PfcpSqn2TransactionId (ph_sqn (parse_header m)) = take_bit 24 tid"
proof -
  note h = tx_header_octets [OF assms]
  have t: "drop_bit 8 (push_bit 8 tid) = take_bit 24 tid"
    by (rule bit_eqI) (auto simp: bit_drop_bit_eq bit_push_bit_iff bit_take_bit_iff dest: bit_imp_le_length)
  show "ph_type (parse_header m) = ty" "ph_seidP (parse_header m) \<longleftrightarrow> ty \<ge> 50" using h(1,2) by simp_all
  show "ty \<ge> 50 \<Longrightarrow> ph_seid (parse_header m) = seid"
    using h(1,3) be64toh_holds [of m 4 seid] by (simp add: parse_header_def Let_def)
  show "PfcpSqn2TransactionId (ph_sqn (parse_header m)) = take_bit 24 tid"
    using h(1,4) oct32_holds [of m _ "push_bit 8 tid"] by (simp add: parse_header_def Let_def PfcpSqn2TransactionId_def t split: if_splits)
qed

lemma full_packet_append:
  assumes "length hdr \<le> 64" "length hdr + length body \<le> 32768" shows "full_packet hdr body = Some (hdr @ body)"
proof -
  have "pool_size (length hdr) = Some 64" using assms(1) by (simp add: pool_size_def)
  then have b: "BufblkAlloc (length hdr) = Some \<lparr>bb_bytes = [], bb_size = 64, bb_moves = 0\<rparr>" by (simp add: BufblkAlloc_def)
  show ?thesis
    using BufblkBytes_appends [of "\<lparr>bb_bytes = hdr, bb_size = 64, bb_moves = 0\<rparr>" body] assms
    by (auto simp: full_packet_def b block_ok_def)
qed


subsection \<open>Answering a request\<close>

text \<open>The end of every handler: the response is attached to the transaction and sent.\<close>

definition commit_response ::
  "bool \<Rightarrow> xact_pool \<Rightarrow> nat \<Rightarrow> u8 \<Rightarrow> u64 \<Rightarrow> u8 list \<Rightarrow> (xact_pool \<times> Status \<times> u8 list list) option" where
  "commit_response send s i ty seid body =
     do {
       (x, status) \<leftarrow> PfcpXactUpdateTx (xp_xacts s i) ty seid body;
       let s = set_xact s i x;
       if status \<noteq> STATUS_OK then Some (s, STATUS_ERROR, []) else PfcpXactCommit send s i
     }"

text \<open>A transaction that has received a request and not yet answered it.\<close>

definition received :: "xact_pool \<Rightarrow> nat \<Rightarrow> bool" where
  "received s i \<longleftrightarrow> x_origin (xp_xacts s i) = PFCP_REMOTE_ORIGINATOR \<and> x_step (xp_xacts s i) = 1 \<and>
     length (x_types (xp_xacts s i)) = 3 \<and> length (x_bufs (xp_xacts s i)) = 3"

lemma commit_response_sends:
  fixes seid :: u64
  assumes "received s i" "PfcpXactGetStage ty = Final_Stage" "length body \<le> 32752"
  defines "p \<equiv> tx_header ty seid (x_transactionId (xp_xacts s i)) (length body) @ body"
  shows "commit_response True s i ty seid body = Some (set_xact s i ((xp_xacts s i)
      \<lparr>x_types := (x_types (xp_xacts s i))[1 := ty], x_bufs := (x_bufs (xp_xacts s i))[1 := Some p], x_step := 2\<rparr>), STATUS_OK, [p])"
proof -
  have "full_packet (tx_header ty seid (x_transactionId (xp_xacts s i)) (length body)) body = Some p"
    unfolding p_def by (rule full_packet_append) (use assms(3) in \<open>simp_all add: length_tx_header\<close>)
  then have "PfcpXactUpdateTx (xp_xacts s i) ty seid body = Some ((xp_xacts s i)
      \<lparr>x_types := (x_types (xp_xacts s i))[1 := ty], x_bufs := (x_bufs (xp_xacts s i))[1 := Some p], x_step := 2\<rparr>, STATUS_OK)"
    using assms(1,2) by (simp add: PfcpXactUpdateTx_def tx_allowed_def received_def)
  then show ?thesis
    using assms(1,2) by (simp add: commit_response_def PfcpXactCommit_def received_def Let_def)
qed

lemma receive_fresh:
  assumes "PfcpXactGetStage ty = Initial_Stage" "PfcpXactFindByTransactionId s ty (PfcpSqn2TransactionId sqn) = Some None"
    and "xp_avail s = i # q" "te_response te" "te_holding te"
  shows "\<exists>s'. PfcpXactReceive te send s ty sqn = Some (s', STATUS_OK, Some i, []) \<and> xp_avail s' = q \<and> xp_remote s' = Some i \<and>
    xp_local s' = xp_local s \<and> xp_xacts s' i = zero_xact
      \<lparr>x_origin := PFCP_REMOTE_ORIGINATOR, x_transactionId := PfcpSqn2TransactionId sqn, x_step := 1, x_types := [ty, 0, 0],
       x_timerResponse := Some False, x_responseReCount := 3, x_timerHolding := Some True, x_holdingReCount := 1, x_linked := True\<rparr>"
proof -
  have "ty \<noteq> 0" using assms(1) by (auto simp: PfcpXactGetStage_def)
  then show ?thesis
    using assms
    by (simp add: PfcpXactReceive_def PfcpXactRemoteCreate_def IndexAlloc_def xact_list_insert_def PfcpXactUpdateRx_def rx_next_def
        zero_xact_def Let_def)
qed

lemma find_other:
  assumes "PfcpXactGetStage ty = Initial_Stage" "xp_remote s = Some i" "x_transactionId (xp_xacts s i) \<noteq> tid"
    and "x_linked (xp_xacts s i)" "x_origin (xp_xacts s i) = PFCP_REMOTE_ORIGINATOR"
  shows "PfcpXactFindByTransactionId s ty tid = Some None"
  using assms by (simp add: PfcpXactFindByTransactionId_def find_in_def Let_def)

text \<open>
  C7. A response is repeated until the next request. A request that is not known gets a transaction and is handed to its
  handler. The response goes out as one packet, whose header carries the type and the SEID of the response and the sequence
  number of the request. When the same request comes again, any number of times, while its transaction is still the one in
  the list, it is not handed to a handler: the packet is sent again as it was. (The slot is then free while the
  transaction is still in the list.) But the transaction of another request replaces it in the list: after a request with a
  different sequence number, the first one is taken as new, gets a new transaction and is handed to its handler a second
  time.
\<close>

theorem response_repeated_until_next_request:
  assumes "PfcpXactGetStage ty = Initial_Stage" "PfcpXactFindByTransactionId s ty (PfcpSqn2TransactionId sqn) = Some None"
    and "xp_avail s = i # q" "te_response te" "te_holding te"
    and "PfcpXactGetStage rty = Final_Stage" "length body \<le> 32752"
  shows "\<exists>s1 s2 p. PfcpXactReceive te True s ty sqn = Some (s1, STATUS_OK, Some i, []) \<and> received s1 i \<and>
    commit_response True s1 i rty seid body = Some (s2, STATUS_OK, [p]) \<and> xp_remote s2 = Some i \<and> xp_avail s2 = q \<and>
    (\<forall>m. holds m 0 p \<longrightarrow> ph_type (parse_header m) = rty \<and> (rty \<ge> 50 \<longrightarrow> ph_seid (parse_header m) = seid) \<and>
       PfcpSqn2TransactionId (ph_sqn (parse_header m)) = PfcpSqn2TransactionId sqn \<and>
       holds m (if rty \<ge> 50 then 16 else 8) body) \<and>
    (\<forall>s2' te'. xp_remote s2' = Some i \<and> xp_xacts s2' i = xp_xacts s2 i \<longrightarrow>
       (\<exists>s3. PfcpXactReceive te' True s2' ty sqn = Some (s3, STATUS_EAGAIN, None, [p]) \<and>
          xp_remote s3 = Some i \<and> xp_xacts s3 i = xp_xacts s2 i \<and>
          (length (xp_avail s2') < 64 \<longrightarrow> xp_avail s3 = xp_avail s2' @ [i]))) \<and>
    (\<forall>ty' sqn' j k r. PfcpXactGetStage ty' = Initial_Stage \<and> PfcpSqn2TransactionId sqn' \<noteq> PfcpSqn2TransactionId sqn \<and>
         q = j # k # r \<longrightarrow>
       (\<exists>s4 s5. PfcpXactReceive te True s2 ty' sqn' = Some (s4, STATUS_OK, Some j, []) \<and>
          PfcpXactReceive te True s4 ty sqn = Some (s5, STATUS_OK, Some k, []) \<and> received s5 k))"
proof -
  let ?tid = "PfcpSqn2TransactionId sqn"
  let ?p = "tx_header rty seid ?tid (length body) @ body"
  let ?x = "\<lambda>ty tid. zero_xact \<lparr>x_origin := PFCP_REMOTE_ORIGINATOR, x_transactionId := tid, x_step := 1, x_types := [ty, 0, 0],
       x_timerResponse := Some False, x_responseReCount := 3, x_timerHolding := Some True, x_holdingReCount := 1, x_linked := True\<rparr>"
  obtain s1 where r: "PfcpXactReceive te True s ty sqn = Some (s1, STATUS_OK, Some i, [])" "xp_avail s1 = q" "xp_remote s1 = Some i"
    "xp_xacts s1 i = ?x ty ?tid"
    using receive_fresh [OF assms(1,2,3,4,5)] by blast
  have x: "received s1 i" "x_transactionId (xp_xacts s1 i) = ?tid" by (simp_all add: r(4) received_def zero_xact_def)
  define s2 where "s2 = set_xact s1 i ((xp_xacts s1 i)
      \<lparr>x_types := (x_types (xp_xacts s1 i))[1 := rty], x_bufs := (x_bufs (xp_xacts s1 i))[1 := Some ?p], x_step := 2\<rparr>)"
  have c: "commit_response True s1 i rty seid body = Some (s2, STATUS_OK, [?p])"
    using commit_response_sends [OF x(1) assms(6,7), of seid] x(2) by (simp add: s2_def)
  have s2: "xp_remote s2 = Some i" "xp_avail s2 = q" by (simp_all add: s2_def r(2,3))
  have h: "ph_type (parse_header m) = rty \<and> (rty \<ge> 50 \<longrightarrow> ph_seid (parse_header m) = seid) \<and>
      PfcpSqn2TransactionId (ph_sqn (parse_header m)) = ?tid \<and> holds m (if rty \<ge> 50 then 16 else 8) body" if "holds m 0 ?p" for m
  proof -
    have "take_bit 24 ?tid = ?tid"
      by (rule bit_eqI) (auto simp: PfcpSqn2TransactionId_def bit_take_bit_iff bit_drop_bit_eq dest: bit_imp_le_length)
    then show ?thesis using that sent_header [of m rty seid ?tid "length body"] by (simp add: length_tx_header)
  qed
  have again: "\<exists>s3. PfcpXactReceive te' True s2' ty sqn = Some (s3, STATUS_EAGAIN, None, [?p]) \<and>
      xp_remote s3 = Some i \<and> xp_xacts s3 i = xp_xacts s2 i \<and> (length (xp_avail s2') < 64 \<longrightarrow> xp_avail s3 = xp_avail s2' @ [i])"
    if "xp_remote s2' = Some i" "xp_xacts s2' i = xp_xacts s2 i" for s2' te'
    using that assms(1)
    by (simp add: PfcpXactReceive_def PfcpXactFindByTransactionId_def find_in_def s2_def r(4)
        PfcpXactUpdateRx_def retransmit_def zero_xact_def IndexFree_def Let_def)
  have second: "\<exists>s4 s5. PfcpXactReceive te True s2 ty' sqn' = Some (s4, STATUS_OK, Some j, []) \<and>
      PfcpXactReceive te True s4 ty sqn = Some (s5, STATUS_OK, Some k, []) \<and> received s5 k"
    if o: "PfcpXactGetStage ty' = Initial_Stage" "PfcpSqn2TransactionId sqn' \<noteq> ?tid" "q = j # k # u" for ty' sqn' j k u
  proof -
    have "PfcpXactFindByTransactionId s2 ty' (PfcpSqn2TransactionId sqn') = Some None"
      by (rule find_other [OF o(1) s2(1)]) (use o(2) in \<open>simp_all add: s2_def r(4)\<close>)
    then obtain s4 where s4: "PfcpXactReceive te True s2 ty' sqn' = Some (s4, STATUS_OK, Some j, [])" "xp_avail s4 = k # u"
        "xp_remote s4 = Some j" "xp_xacts s4 j = ?x ty' (PfcpSqn2TransactionId sqn')"
      using receive_fresh [OF o(1) _ _ assms(4,5)] s2(2) o(3) by blast
    have "PfcpXactFindByTransactionId s4 ty ?tid = Some None"
      by (rule find_other [OF assms(1) s4(3)]) (use o(2) in \<open>simp_all add: s4(4)\<close>)
    then obtain s5 where "PfcpXactReceive te True s4 ty sqn = Some (s5, STATUS_OK, Some k, [])" "xp_xacts s5 k = ?x ty ?tid"
      using receive_fresh [OF assms(1) _ s4(2) assms(4,5)] by blast
    then show ?thesis using s4(1) by (auto simp: received_def zero_xact_def)
  qed
  show ?thesis using r(1) x(1) c s2 h again second by blast
qed

theorem response_repeated_until_next_request_witness:
  "\<exists>s1 s2 p. PfcpXactReceive \<lparr>te_response = True, te_holding = True\<rparr> True PfcpXactInit 54 0x00010000 = Some (s1, STATUS_OK, Some 0, []) \<and>
     commit_response True s1 0 55 9 [0, 19, 0, 1, 1] = Some (s2, STATUS_OK, [p]) \<and>
     (\<exists>s3. PfcpXactReceive \<lparr>te_response = True, te_holding = True\<rparr> True s2 54 0x00010000 = Some (s3, STATUS_EAGAIN, None, [p])) \<and>
     (\<exists>s4 s5. PfcpXactReceive \<lparr>te_response = True, te_holding = True\<rparr> True s2 54 0x00020000 = Some (s4, STATUS_OK, Some 1, []) \<and>
        PfcpXactReceive \<lparr>te_response = True, te_holding = True\<rparr> True s4 54 0x00010000 = Some (s5, STATUS_OK, Some 2, []))"
proof -
  have a: "xp_avail PfcpXactInit = 0 # 1 # 2 # [3..<64]" by (simp add: PfcpXactInit_def upt_rec)
  have f: "PfcpXactFindByTransactionId PfcpXactInit 54 (PfcpSqn2TransactionId 0x00010000) = Some None"
    by (simp add: PfcpXactFindByTransactionId_def PfcpXactGetStage_def find_in_def PfcpXactInit_def)
  have n: "PfcpSqn2TransactionId 0x00020000 \<noteq> PfcpSqn2TransactionId 0x00010000"
    by (simp add: PfcpSqn2TransactionId_def rte_bswap32_def)
  have st: "PfcpXactGetStage 54 = Initial_Stage" "PfcpXactGetStage 55 = Final_Stage" by (simp_all add: PfcpXactGetStage_def)
  let ?te = "\<lparr>te_response = True, te_holding = True\<rparr>"
  have te: "te_response ?te" "te_holding ?te" "length [0, 19, 0, 1, 1 :: u8] \<le> 32752" by simp_all
  obtain s1 s2 p where r: "PfcpXactReceive ?te True PfcpXactInit 54 0x00010000 = Some (s1, STATUS_OK, Some 0, [])"
      "commit_response True s1 0 55 9 [0, 19, 0, 1, 1] = Some (s2, STATUS_OK, [p])" "xp_remote s2 = Some 0"
    and again: "\<forall>s2' te'. xp_remote s2' = Some 0 \<and> xp_xacts s2' 0 = xp_xacts s2 0 \<longrightarrow>
       (\<exists>s3. PfcpXactReceive te' True s2' 54 0x00010000 = Some (s3, STATUS_EAGAIN, None, [p]) \<and>
          xp_remote s3 = Some 0 \<and> xp_xacts s3 0 = xp_xacts s2 0 \<and>
          (length (xp_avail s2') < 64 \<longrightarrow> xp_avail s3 = xp_avail s2' @ [0]))"
    and other: "\<forall>ty' sqn' j k r. PfcpXactGetStage ty' = Initial_Stage \<and>
         PfcpSqn2TransactionId sqn' \<noteq> PfcpSqn2TransactionId 0x00010000 \<and> 1 # 2 # [3..<64] = j # k # r \<longrightarrow>
       (\<exists>s4 s5. PfcpXactReceive ?te True s2 ty' sqn' = Some (s4, STATUS_OK, Some j, []) \<and>
          PfcpXactReceive ?te True s4 54 0x00010000 = Some (s5, STATUS_OK, Some k, []) \<and> received s5 k)"
    using response_repeated_until_next_request [OF st(1) f a te(1,2) st(2) te(3), of 9] by (elim exE conjE)
  have "\<exists>s3. PfcpXactReceive ?te True s2 54 0x00010000 = Some (s3, STATUS_EAGAIN, None, [p])"
    using again r(3) by blast
  moreover have "\<exists>s4 s5. PfcpXactReceive ?te True s2 54 0x00020000 = Some (s4, STATUS_OK, Some 1, []) \<and>
      PfcpXactReceive ?te True s4 54 0x00010000 = Some (s5, STATUS_OK, Some 2, [])"
    using other [rule_format, of 54 "0x00020000" 1 2 "[3..<64]"] st(1) n by blast
  ultimately show ?thesis using r(1,2) by blast
qed


subsection \<open>A request of the user plane\<close>

lemma local_create_sends:
  fixes seid :: u64
  assumes "xp_avail s = i # q" "length body \<le> 32752"
  defines "p \<equiv> tx_header 56 seid (next_xact_id (xp_globalXactId s)) (length body) @ body"
  shows "\<exists>s1 s2. PfcpXactLocalCreate s 56 seid body = Some (s1, Some i) \<and> PfcpXactCommit True s1 i = Some (s2, STATUS_OK, [p]) \<and>
    xp_local s2 = Some i \<and> xp_xacts s2 i = zero_xact \<lparr>x_transactionId := next_xact_id (xp_globalXactId s), x_step := 1,
      x_types := [56, 0, 0], x_bufs := [Some p, None, None], x_linked := True\<rparr>"
proof -
  let ?x = "zero_xact \<lparr>x_transactionId := next_xact_id (xp_globalXactId s), x_step := 1, x_types := [56, 0, 0],
    x_bufs := [Some p, None, None], x_linked := True\<rparr>"
  have "full_packet (tx_header 56 seid (next_xact_id (xp_globalXactId s)) (length body)) body = Some p"
    unfolding p_def by (rule full_packet_append) (use assms(2) in \<open>simp_all add: length_tx_header\<close>)
  then obtain s1 where c: "PfcpXactLocalCreate s 56 seid body = Some (s1, Some i)" "xp_xacts s1 i = ?x" "xp_local s1 = Some i"
    using assms(1) by (simp add: PfcpXactLocalCreate_def IndexAlloc_def xact_list_insert_def PfcpXactUpdateTx_def tx_allowed_def
        PfcpXactGetStage_def zero_xact_def Let_def)
  then have "\<exists>s2. PfcpXactCommit True s1 i = Some (s2, STATUS_OK, [p]) \<and> xp_xacts s2 i = ?x \<and> xp_local s2 = Some i"
    by (simp add: PfcpXactCommit_def PfcpXactGetStage_def zero_xact_def Let_def)
  then show ?thesis using c(1) by blast
qed

text \<open>
  C31. A session report runs to its end. The request gets the next transaction identifier and goes out as one packet that carries it. A
  response with that identifier, received while the transaction is still the one in the list, finds it and ends it: the list is empty and the slot is free again.
\<close>

theorem report_transaction_completes:
  assumes "xp_avail s = i # q" "length q < 64" "length body \<le> 32752"
    and "next_xact_id (xp_globalXactId s) AND 0x800000 = 0" "PfcpSqn2TransactionId sqn = next_xact_id (xp_globalXactId s)"
  shows "\<exists>s1 s2 p. PfcpXactLocalCreate s 56 seid body = Some (s1, Some i) \<and> PfcpXactCommit True s1 i = Some (s2, STATUS_OK, [p]) \<and>
    (\<forall>m. holds m 0 p \<longrightarrow> ph_type (parse_header m) = 56 \<and> ph_seid (parse_header m) = seid \<and>
       PfcpSqn2TransactionId (ph_sqn (parse_header m)) = PfcpSqn2TransactionId sqn \<and> holds m 16 body) \<and>
    (\<forall>s2'. xp_local s2' = xp_local s2 \<and> xp_xacts s2' i = xp_xacts s2 i \<longrightarrow>
       (\<exists>s3 s4. PfcpXactReceive te True s2' 57 sqn = Some (s3, STATUS_OK, Some i, []) \<and>
          PfcpXactCommit send s3 i = Some (s4, STATUS_OK, []) \<and> xp_local s4 = None \<and>
          (length (xp_avail s2') < 64 \<longrightarrow> xp_avail s4 = xp_avail s2' @ [i])))"
proof -
  let ?tid = "next_xact_id (xp_globalXactId s)"
  let ?p = "tx_header 56 seid ?tid (length body) @ body"
  define x where "x = zero_xact \<lparr>x_transactionId := ?tid, x_step := 1, x_types := [56, 0, 0], x_bufs := [Some ?p, None, None], x_linked := True\<rparr>"
  obtain s1 s2 where c: "PfcpXactLocalCreate s 56 seid body = Some (s1, Some i)" "PfcpXactCommit True s1 i = Some (s2, STATUS_OK, [?p])"
    "xp_local s2 = Some i" "xp_xacts s2 i = x"
    using local_create_sends [OF assms(1,3)] unfolding x_def by blast
  have h: "ph_type (parse_header m) = 56 \<and> ph_seid (parse_header m) = seid \<and>
      PfcpSqn2TransactionId (ph_sqn (parse_header m)) = PfcpSqn2TransactionId sqn \<and> holds m 16 body" if "holds m 0 ?p" for m
  proof -
    have "take_bit 24 ?tid = ?tid" unfolding assms(5) [symmetric]
      by (rule bit_eqI) (auto simp: PfcpSqn2TransactionId_def bit_take_bit_iff bit_drop_bit_eq dest: bit_imp_le_length)
    then show ?thesis using that sent_header [of m 56 seid ?tid "length body"] assms(5) by (simp add: length_tx_header)
  qed
  have "\<exists>s3 s4. PfcpXactReceive te True s' 57 sqn = Some (s3, STATUS_OK, Some i, []) \<and>
      PfcpXactCommit send s3 i = Some (s4, STATUS_OK, []) \<and> xp_local s4 = None \<and>
      (length (xp_avail s') < 64 \<longrightarrow> xp_avail s4 = xp_avail s' @ [i])" if "xp_local s' = Some i" "xp_xacts s' i = x" for s'
    using that assms(4,5) by (simp add: PfcpXactReceive_def PfcpXactFindByTransactionId_def find_in_def PfcpXactUpdateRx_def
        PfcpXactGetStage_def rx_next_def PfcpXactCommit_def PfcpXactDelete_def xact_list_remove_def IndexFree_def x_def zero_xact_def Let_def)
  then show ?thesis using c h by metis
qed

theorem report_transaction_completes_witness:
  "\<exists>s1 s2 p. PfcpXactLocalCreate PfcpXactInit 56 5 [0, 39, 0, 1, 1] = Some (s1, Some 0) \<and> PfcpXactCommit True s1 0 = Some (s2, STATUS_OK, [p]) \<and>
     (\<exists>s3 s4. PfcpXactReceive \<lparr>te_response = True, te_holding = True\<rparr> True s2 57 0x00010000 = Some (s3, STATUS_OK, Some 0, []) \<and>
        PfcpXactCommit True s3 0 = Some (s4, STATUS_OK, []) \<and> xp_local s4 = None)"
proof -
  have "xp_avail PfcpXactInit = 0 # [1..<64]" "xp_globalXactId PfcpXactInit = 0" by (simp_all add: PfcpXactInit_def upt_rec)
  moreover have "PfcpSqn2TransactionId 0x00010000 = 1" by (simp add: PfcpSqn2TransactionId_def rte_bswap32_def)
  ultimately show ?thesis
    using report_transaction_completes [where s = PfcpXactInit and i = 0 and q = "[1..<64]" and body = "[0, 39, 0, 1, 1]" and sqn = "0x00010000"
        and seid = 5 and te = "\<lparr>te_response = True, te_holding = True\<rparr>" and send = True]
    by (simp add: next_xact_id_def) blast
qed

subsection \<open>Reachable states\<close>

inductive xacts_reachable :: "xact_pool \<Rightarrow> bool" where
  init: "xacts_reachable PfcpXactInit"
| local: "xacts_reachable s \<Longrightarrow> PfcpXactLocalCreate s ty seid body = Some (s', r) \<Longrightarrow> xacts_reachable s'"
| receive: "xacts_reachable s \<Longrightarrow> PfcpXactReceive te send s ty sqn = Some (s', status, r, out) \<Longrightarrow> xacts_reachable s'"
| respond: "xacts_reachable s \<Longrightarrow> i < 64 \<Longrightarrow> commit_response send s i ty seid body = Some (s', status, out) \<Longrightarrow> xacts_reachable s'"
| commit: "xacts_reachable s \<Longrightarrow> i < 64 \<Longrightarrow> PfcpXactCommit send s i = Some (s', status, out) \<Longrightarrow> xacts_reachable s'"
| timeout: "xacts_reachable s \<Longrightarrow> i < 64 \<Longrightarrow> PfcpXactTimeout send s i event = Some (s', status, out) \<Longrightarrow> xacts_reachable s'"

definition xact_ok :: "PfcpXact \<Rightarrow> bool" where
  "xact_ok x \<longleftrightarrow> length (x_types x) = 3 \<and> length (x_bufs x) = 3 \<and> x_step x \<le> 3 \<and> x_origin x \<le> 1"

definition xacts_ok :: "xact_pool \<Rightarrow> bool" where
  "xacts_ok s \<longleftrightarrow> (\<forall>i. xact_ok (xp_xacts s i)) \<and> length (xp_avail s) \<le> 64 \<and> set (xp_avail s) \<subseteq> {..<64} \<and>
     set_option (xp_local s) \<subseteq> {..<64} \<and> set_option (xp_remote s) \<subseteq> {..<64}"

lemma zero_xact_ok [simp]: "xact_ok zero_xact" by (simp add: xact_ok_def zero_xact_def)

lemma IndexAlloc_ok: "xacts_ok s \<Longrightarrow> IndexAlloc s = (s', r) \<Longrightarrow> xacts_ok s' \<and> set_option r \<subseteq> {..<64}"
  by (auto simp: IndexAlloc_def xacts_ok_def split: list.splits)

lemma IndexFree_ok: "xacts_ok s \<Longrightarrow> i < 64 \<Longrightarrow> xacts_ok (IndexFree s i)"
  by (auto simp: IndexFree_def xacts_ok_def)

lemma set_xact_ok: "xacts_ok s \<Longrightarrow> xact_ok x \<Longrightarrow> xacts_ok (set_xact s i x)"
  by (simp add: xacts_ok_def)

lemma xact_list_insert_ok: "xacts_ok s \<Longrightarrow> i < 64 \<Longrightarrow> xacts_ok (xact_list_insert s i)"
  by (auto simp: xact_list_insert_def xacts_ok_def xact_ok_def Let_def)

lemma xact_list_remove_ok: "xacts_ok s \<Longrightarrow> xact_list_remove s i = Some s' \<Longrightarrow> xacts_ok s'"
  by (auto simp: xact_list_remove_def xacts_ok_def xact_ok_def Let_def split: if_splits)

lemma delete_ok:
  assumes "xacts_ok s" "i < 64" "PfcpXactDelete s i = Some s'" shows "xacts_ok s'"
proof -
  obtain s1 where s1: "s1 = s \<or> xact_list_remove s i = Some s1"
    "s' = IndexFree (set_xact s1 i ((xp_xacts s1 i) \<lparr>x_origin := 0, x_transactionId := 0, x_step := 0, x_types := [0, 0, 0]\<rparr>)) i"
    using assms(3) by (auto simp: PfcpXactDelete_def bind_eq_Some_conv Let_def split: if_splits)
  have "xacts_ok s1" using s1(1) assms(1) xact_list_remove_ok by blast
  moreover have "xact_ok ((xp_xacts s1 i) \<lparr>x_origin := 0, x_transactionId := 0, x_step := 0, x_types := [0, 0, 0]\<rparr>)"
    using calculation by (simp add: xacts_ok_def xact_ok_def)
  ultimately show ?thesis unfolding s1(2) using assms(2) by (intro IndexFree_ok set_xact_ok)
qed

lemma full_packet_defined: "length hdr \<le> 64 \<Longrightarrow> full_packet hdr body \<noteq> None"
  by (simp add: full_packet_def BufblkAlloc_def pool_size_def)

lemma update_tx_ok:
  assumes "xact_ok x" shows "\<exists>x' status. PfcpXactUpdateTx x ty seid body = Some (x', status) \<and> xact_ok x'"
proof (cases "tx_allowed x (PfcpXactGetStage ty)")
  case True
  then have "x_step x < 3" by (auto simp: tx_allowed_def split: if_splits PfcpXactStage.splits)
  moreover have "length (tx_header ty seid (x_transactionId x) (length body)) \<le> 64" by (simp add: length_tx_header)
  then obtain p where "full_packet (tx_header ty seid (x_transactionId x) (length body)) body = Some p"
    using full_packet_defined by blast
  ultimately show ?thesis using True assms by (simp add: PfcpXactUpdateTx_def xact_ok_def)
qed (use assms in \<open>simp add: PfcpXactUpdateTx_def\<close>)

lemma rx_next_ok: "xact_ok x \<Longrightarrow> x_step x < 3 \<Longrightarrow> \<exists>x' status out. rx_next x ty = Some (x', status, out) \<and> xact_ok x'"
  by (simp add: rx_next_def xact_ok_def)

lemma retransmit_ok: "xact_ok x \<Longrightarrow> \<exists>x' status out. retransmit send x k = (x', status, out) \<and> xact_ok x'"
  by (simp add: retransmit_def xact_ok_def Let_def split: option.splits)

lemma update_rx_ok:
  assumes "xact_ok x" shows "\<exists>x' status out. PfcpXactUpdateRx send x ty = Some (x', status, out) \<and> xact_ok x'"
proof -
  have "xact_ok (start_holding x)" using assms by (simp add: xact_ok_def)
  note rx_next_ok [OF assms, of ty] rx_next_ok [OF this, of ty] retransmit_ok [OF assms, of send 1] retransmit_ok [OF assms, of send 2]
  then show ?thesis
    using assms unfolding PfcpXactUpdateRx_def Let_def by (auto split: PfcpXactStage.splits)
qed

lemma commit_ok:
  assumes "xacts_ok s" "i < 64" "PfcpXactCommit send s i = Some (s', status, out)" shows "xacts_ok s'"
proof -
  let ?started = "set_xact s i ((xp_xacts s i) \<lparr>x_timerResponse := map_option (\<lambda>_. True) (x_timerResponse (xp_xacts s i))\<rparr>)"
  have "xacts_ok ?started" using assms(1) by (intro set_xact_ok) (simp_all add: xacts_ok_def xact_ok_def)
  moreover have "s' = s \<or> s' = ?started \<or> PfcpXactDelete s i = Some s'"
    using assms(3) unfolding PfcpXactCommit_def Let_def
    by (auto split: if_splits PfcpXactStage.splits option.splits)
  ultimately show ?thesis using assms(1,2) delete_ok by blast
qed

lemma timeout_ok:
  assumes "xacts_ok s" "i < 64" "PfcpXactTimeout send s i event = Some (s', status, out)" shows "xacts_ok s'"
proof -
  let ?x = "xp_xacts s i"
  define r where "r = ?x \<lparr>x_responseReCount := x_responseReCount ?x - 1\<rparr>"
  define h where "h = ?x \<lparr>x_holdingReCount := x_holdingReCount ?x - 1\<rparr>"
  let ?r = "r \<lparr>x_timerResponse := map_option (\<lambda>_. True) (x_timerResponse r)\<rparr>"
  let ?h = "h \<lparr>x_timerHolding := map_option (\<lambda>_. True) (x_timerHolding h)\<rparr>"
  have "\<exists>x \<in> {r, ?r, h, ?h}. s' = set_xact s i x \<or> PfcpXactDelete (set_xact s i x) i = Some s'"
    using assms(3) unfolding PfcpXactTimeout_def Let_def r_def [symmetric] h_def [symmetric]
    by (auto split: if_splits t3_event.splits option.splits)
  moreover have "xact_ok x" if "x \<in> {r, ?r, h, ?h}" for x
    using that assms(1) by (auto simp: xacts_ok_def xact_ok_def r_def h_def)
  ultimately show ?thesis using set_xact_ok [OF assms(1)] assms(2) delete_ok by metis
qed

lemma commit_response_ok:
  assumes "xacts_ok s" "i < 64" "commit_response send s i ty seid body = Some (s', status, out)" shows "xacts_ok s'"
proof -
  have "xact_ok (xp_xacts s i)" using assms(1) by (simp add: xacts_ok_def)
  then obtain x st where x: "PfcpXactUpdateTx (xp_xacts s i) ty seid body = Some (x, st)" "xact_ok x" using update_tx_ok by blast
  then show ?thesis
    using assms(3) set_xact_ok [OF assms(1) x(2), of i] commit_ok [OF set_xact_ok [OF assms(1) x(2), of i] assms(2)]
    by (auto simp: commit_response_def Let_def split: if_splits)
qed

lemma local_create_ok:
  assumes "xacts_ok s" "PfcpXactLocalCreate s ty seid body = Some (s', r)" shows "xacts_ok s'"
proof -
  obtain s1 k where a: "IndexAlloc s = (s1, k)" by (metis surj_pair)
  note s1 = IndexAlloc_ok [OF assms(1) a]
  show ?thesis
  proof (cases k)
    case (Some i)
    define s2 where "s2 = xact_list_insert (set_xact (s1 \<lparr>xp_globalXactId := next_xact_id (xp_globalXactId s1)\<rparr>) i
      (zero_xact \<lparr>x_origin := PFCP_LOCAL_ORIGINATOR, x_transactionId := next_xact_id (xp_globalXactId s1)\<rparr>)) i"
    have i: "i < 64" using s1 Some by simp
    have "xacts_ok (s1 \<lparr>xp_globalXactId := next_xact_id (xp_globalXactId s1)\<rparr>)" using s1 by (simp add: xacts_ok_def)
    then have s2: "xacts_ok s2" unfolding s2_def by (intro xact_list_insert_ok set_xact_ok i) (simp_all add: xact_ok_def zero_xact_def)
    then have "xact_ok (xp_xacts s2 i)" by (simp add: xacts_ok_def)
    then obtain x st where x: "PfcpXactUpdateTx (xp_xacts s2 i) ty seid body = Some (x, st)" "xact_ok x" using update_tx_ok by blast
    have "s' = set_xact s2 i x \<or> s' = IndexFree (set_xact s2 i x) i"
      using assms(2) x(1) unfolding PfcpXactLocalCreate_def a Some Let_def by (auto simp: s2_def split: if_splits)
    then show ?thesis using set_xact_ok [OF s2 x(2)] IndexFree_ok [OF _ i] by blast
  qed (use assms(2) a s1 in \<open>simp add: PfcpXactLocalCreate_def\<close>)
qed

lemma remote_create_ok:
  assumes "xacts_ok s" "PfcpXactRemoteCreate te s sqn = (s', r)" shows "xacts_ok s' \<and> set_option r \<subseteq> {..<64}"
proof -
  obtain s1 k where a: "IndexAlloc s = (s1, k)" by (metis surj_pair)
  note s1 = IndexAlloc_ok [OF assms(1) a]
  show ?thesis
  proof (cases k)
    case (Some i)
    have i: "i < 64" using s1 Some by simp
    define x0 where "x0 = zero_xact \<lparr>x_origin := PFCP_REMOTE_ORIGINATOR, x_transactionId := PfcpSqn2TransactionId sqn\<rparr>"
    define x1 where "x1 = x0 \<lparr>x_timerResponse := Some False, x_responseReCount := 3\<rparr>"
    define x2 where "x2 = x1 \<lparr>x_timerHolding := Some False, x_holdingReCount := 1\<rparr>"
    have "xact_ok x0" "xact_ok x1" "xact_ok x2" by (simp_all add: x0_def x1_def x2_def xact_ok_def zero_xact_def)
    moreover have "s' = IndexFree (set_xact s1 i x0) i \<and> r = None \<or> s' = IndexFree (set_xact s1 i x1) i \<and> r = None \<or>
        s' = xact_list_insert (set_xact s1 i x2) i \<and> r = Some i"
      using assms(2) unfolding PfcpXactRemoteCreate_def a Some Let_def prod.case option.case
        x0_def [symmetric] x1_def [symmetric] x2_def [symmetric] by (simp split: if_splits)
    ultimately show ?thesis using s1 i by (auto intro!: IndexFree_ok xact_list_insert_ok set_xact_ok)
  qed (use assms(2) a s1 in \<open>simp add: PfcpXactRemoteCreate_def\<close>)
qed

lemma find_ok: "xacts_ok s \<Longrightarrow> PfcpXactFindByTransactionId s ty tid = Some r \<Longrightarrow> set_option r \<subseteq> {..<64}"
  by (auto simp: PfcpXactFindByTransactionId_def find_in_def xacts_ok_def Let_def split: PfcpXactStage.splits option.splits if_splits)

lemma receive_ok:
  assumes "xacts_ok s" "PfcpXactReceive te send s ty sqn = Some (s', status, r, out)" shows "xacts_ok s'"
proof -
  obtain f where f: "PfcpXactFindByTransactionId s ty (PfcpSqn2TransactionId sqn) = Some f"
    using assms(2) by (auto simp: PfcpXactReceive_def bind_eq_Some_conv)
  obtain s1 k where k: "(case f of Some i \<Rightarrow> (s, Some i) | None \<Rightarrow> PfcpXactRemoteCreate te s sqn) = (s1, k)" by (metis surj_pair)
  have s1: "xacts_ok s1 \<and> set_option k \<subseteq> {..<64}"
    using k find_ok [OF assms(1) f] assms(1) remote_create_ok by (auto split: option.splits)
  show ?thesis
  proof (cases k)
    case (Some i)
    have "xact_ok (xp_xacts s1 i)" using s1 by (simp add: xacts_ok_def)
    then obtain x st o' where x: "PfcpXactUpdateRx send (xp_xacts s1 i) ty = Some (x, st, o')" "xact_ok x" using update_rx_ok by blast
    then have "s' = set_xact s1 i x \<or> s' = IndexFree (set_xact s1 i x) i"
      using assms(2) unfolding PfcpXactReceive_def f by (auto simp: k Some Let_def split: if_splits)
    then show ?thesis using s1 Some x(2) by (auto intro!: IndexFree_ok set_xact_ok)
  qed (use assms(2) f k s1 in \<open>simp add: PfcpXactReceive_def\<close>)
qed

text \<open>
  C30. Well-formed transactions. In every state that creation, reception, responses, commits and timeouts can lead to, each transaction has its three places for
  messages and has used at most three, the free slots and the lists name slots of the pool only, and
  attaching a message to a transaction or taking one into it is always defined, so no place outside the three is
  ever written.
\<close>

theorem transactions_well_formed:
  assumes "xacts_reachable s"
  shows "xacts_ok s \<and> PfcpXactUpdateTx (xp_xacts s i) ty seid body \<noteq> None \<and> PfcpXactUpdateRx send (xp_xacts s i) ty \<noteq> None"
proof -
  have ok: "xacts_ok s"
    using assms
  proof (induction rule: xacts_reachable.induct)
    case init
    then show ?case by (auto simp: PfcpXactInit_def xacts_ok_def)
  next
    case (local s ty seid body s' r)
    show ?case by (rule local_create_ok [OF local.IH local.hyps(2)])
  next
    case (receive s te send ty sqn s' status r out)
    show ?case by (rule receive_ok [OF receive.IH receive.hyps(2)])
  next
    case (respond s i send ty seid body s' status out)
    show ?case by (rule commit_response_ok [OF respond.IH respond.hyps(2,3)])
  next
    case (commit s i send s' status out)
    show ?case by (rule commit_ok [OF commit.IH commit.hyps(2,3)])
  next
    case (timeout s i send event s' status out)
    show ?case by (rule timeout_ok [OF timeout.IH timeout.hyps(2,3)])
  qed
  then have "xact_ok (xp_xacts s i)" by (simp add: xacts_ok_def)
  then show ?thesis using ok update_tx_ok update_rx_ok by blast
qed

theorem transactions_well_formed_witness:
  "xacts_ok PfcpXactInit \<and> PfcpXactUpdateTx (xp_xacts PfcpXactInit 3) 56 5 [] \<noteq> None"
  using transactions_well_formed [OF xacts_reachable.init] by blast

text \<open>
  A request that arrives three times frees its slot twice: the slot is then handed out to two transactions.
\<close>

theorem retransmission_frees_twice: "\<exists>s. xacts_reachable s \<and> \<not> distinct (xp_avail s)"
proof -
  let ?te = "\<lparr>te_response = True, te_holding = True\<rparr>"
  have a: "xp_avail PfcpXactInit = 0 # [1..<64]" by (simp add: PfcpXactInit_def upt_rec)
  have "PfcpXactFindByTransactionId PfcpXactInit 54 (PfcpSqn2TransactionId 0x00010000) = Some None"
    by (simp add: PfcpXactFindByTransactionId_def PfcpXactGetStage_def find_in_def PfcpXactInit_def)
  then obtain s1 where s1: "PfcpXactReceive ?te True PfcpXactInit 54 0x00010000 = Some (s1, STATUS_OK, Some 0, [])"
      "xp_avail s1 = [1..<64]" "xp_remote s1 = Some 0" "x_transactionId (xp_xacts s1 0) = PfcpSqn2TransactionId 0x00010000"
      "x_origin (xp_xacts s1 0) = 1" "x_step (xp_xacts s1 0) = 1" "x_types (xp_xacts s1 0) = [54, 0, 0]" "x_bufs (xp_xacts s1 0) = [None, None, None]"
    using receive_fresh [OF _ _ a, of 54 "0x00010000" ?te True] by (auto simp: PfcpXactGetStage_def zero_xact_def)
  have again: "PfcpXactReceive ?te True s 54 0x00010000 = Some (IndexFree (set_xact s 0 (xp_xacts s 0)) 0, STATUS_EAGAIN, None, [])"
    if "xp_remote s = Some 0" "xp_xacts s 0 = xp_xacts s1 0" for s
    using that s1 by (simp add: PfcpXactReceive_def PfcpXactFindByTransactionId_def PfcpXactGetStage_def find_in_def
        PfcpXactUpdateRx_def retransmit_def Let_def)
  define s2 where "s2 = IndexFree (set_xact s1 0 (xp_xacts s1 0)) 0"
  have r1: "xacts_reachable s1" by (rule xacts_reachable.receive [OF xacts_reachable.init s1(1)])
  have r2: "xacts_reachable s2" unfolding s2_def by (rule xacts_reachable.receive [OF r1 again [OF s1(3) refl]])
  have s2: "xp_remote s2 = Some 0" "xp_xacts s2 0 = xp_xacts s1 0" "xp_avail s2 = 1 # [2..<64] @ [0]"
    using s1(2,3) by (simp_all add: s2_def IndexFree_def upt_rec)
  have "full_packet (tx_header 56 0 t 0) [] = Some (tx_header 56 0 t 0)" for t
    using full_packet_append [of "tx_header 56 0 t 0" "[]"] by (simp add: length_tx_header)
  then obtain s3 where s3: "PfcpXactLocalCreate s2 56 0 [] = Some (s3, Some 1)" "xp_remote s3 = Some 0" "xp_xacts s3 0 = xp_xacts s1 0"
      "xp_avail s3 = [2..<64] @ [0]"
    using s2 by (simp add: PfcpXactLocalCreate_def IndexAlloc_def xact_list_insert_def PfcpXactUpdateTx_def tx_allowed_def
        PfcpXactGetStage_def zero_xact_def Let_def)
  have "xacts_reachable (IndexFree (set_xact s3 0 (xp_xacts s3 0)) 0)"
    by (rule xacts_reachable.receive [OF xacts_reachable.local [OF r2 s3(1)] again [OF s3(2,3)]])
  moreover have "xp_avail (IndexFree (set_xact s3 0 (xp_xacts s3 0)) 0) = [2..<64] @ [0, 0]" using s3(4) by (simp add: IndexFree_def)
  moreover have "\<not> distinct ([2..<64] @ [0, 0 :: nat])" by simp
  ultimately show ?thesis by metis
qed

end
