(* ===== verification/N4_Session.thy ===== *)
theory N4_Session
  imports N4_Consistency Pfcp_Xact
begin

text \<open>
  The handlers of whole PFCP messages (\<^verbatim>\<open>5gc/upf_c/n4_onvm_pfcp_handler.c\<close>), the responses they build
  (\<^verbatim>\<open>n4_onvm_pfcp_build.c\<close>) and the dispatcher that calls them (\<^verbatim>\<open>n4_dispatcher.c\<close>). What is sent is the octets that
  leave the builder of \<open>Pfcp_Tlv\<close> and the transactions of \<open>Pfcp_Xact\<close>. A handler has no result when C leaves its behaviour
  undefined or it does not return.
\<close>

subsection \<open>Responses\<close>

abbreviation (input) PFCP_HEARTBEAT_RESPONSE :: u8 where "PFCP_HEARTBEAT_RESPONSE \<equiv> 2"
abbreviation (input) PFCP_ASSOCIATION_SETUP_RESPONSE :: u8 where "PFCP_ASSOCIATION_SETUP_RESPONSE \<equiv> 6"
abbreviation (input) PFCP_ASSOCIATION_RELEASE_RESPONSE :: u8 where "PFCP_ASSOCIATION_RELEASE_RESPONSE \<equiv> 10"
abbreviation (input) PFCP_SESSION_ESTABLISHMENT_RESPONSE :: u8 where "PFCP_SESSION_ESTABLISHMENT_RESPONSE \<equiv> 51"
abbreviation (input) PFCP_SESSION_MODIFICATION_RESPONSE :: u8 where "PFCP_SESSION_MODIFICATION_RESPONSE \<equiv> 53"
abbreviation (input) PFCP_SESSION_DELETION_RESPONSE :: u8 where "PFCP_SESSION_DELETION_RESPONSE \<equiv> 55"
abbreviation (input) PFCP_SESSION_REPORT_REQUEST :: u8 where "PFCP_SESSION_REPORT_REQUEST \<equiv> 56"

abbreviation (input) PFCP_CAUSE_REQUEST_ACCEPTED :: u8 where "PFCP_CAUSE_REQUEST_ACCEPTED \<equiv> 1"
abbreviation (input) PFCP_CAUSE_REQUEST_REJECTED :: u8 where "PFCP_CAUSE_REQUEST_REJECTED \<equiv> 64"

text \<open>
  What the builders read of the UPF: its address and start time as they lie in memory, the sixteen octets that lie where an IPv6 socket address has its
  address, and the names of the data networks and the addresses of the ports of its environment. \<open>tx_send\<close> is the result of \<^verbatim>\<open>PfcpSend\<close>, and
  \<open>tx_junk\<close> stands for bits of structures that are not initialised.
\<close>

record tx_env =
  tx_pfcpAddr :: u32
  tx_addr6 :: "u8 list"
  tx_recoveryTime :: u32
  tx_dnns :: "string list"
  tx_ports :: "string list"
  tx_send :: bool
  tx_junk :: u8

definition mem_octets :: "nat \<Rightarrow> 'a::len word \<Rightarrow> u8 list" where
  "mem_octets n w = map (\<lambda>k. ucast (drop_bit (8 * k) w)) [0..<n]"

definition node_id :: "tx_env \<Rightarrow> u8 \<Rightarrow> u8 list" where
  "node_id x spare = push_bit 4 spare # mem_octets 4 (tx_pfcpAddr x)"

definition PfcpSockaddrToFSeid :: "tx_env \<Rightarrow> u64 \<Rightarrow> u8 list" where
  "PfcpSockaddrToFSeid x seid = (push_bit 2 (tx_junk x) OR 3) # mem_octets 8 seid @ mem_octets 4 (tx_pfcpAddr x) @ tx_addr6 x"

definition UpfN4BuildSessionEstablishmentResponse :: "tx_env \<Rightarrow> UpfSession \<Rightarrow> u8 \<Rightarrow> ie_value list" where
  "UpfN4BuildSessionEstablishmentResponse x s cause =
     [Octets (node_id x (tx_junk x)), Octets [cause], Absent,
      if cause = PFCP_CAUSE_REQUEST_ACCEPTED then Octets (PfcpSockaddrToFSeid x (be64toh (s_upfSeid s))) else Absent]"

definition UpfN4BuildSessionModificationResponse :: "ie_value list" where
  "UpfN4BuildSessionModificationResponse = [Octets [PFCP_CAUSE_REQUEST_ACCEPTED]]"

definition UpfN4BuildSessionDeletionResponse :: "ie_value list" where
  "UpfN4BuildSessionDeletionResponse = [Octets [PFCP_CAUSE_REQUEST_ACCEPTED]]"

definition UpfN4BuildSessionReportRequestDownlinkDataReport :: "u16 \<Rightarrow> ie_value list" where
  "UpfN4BuildSessionReportRequestDownlinkDataReport pdrId = [Octets [1], Group [Octets (mem_octets 2 (rte_cpu_to_be_16 pdrId)), Absent]]"

text \<open>
  The resource information of the user plane: the flags, an empty TEID range, the address of the first port whose text is an IPv4 address,
  and the first data network.
\<close>

definition port_address :: "string list \<Rightarrow> u32 option" where
  "port_address ports =
     (case List.find (\<lambda>p. CHR '':'' \<notin> set p \<and> inet_pton4 p \<noteq> None) ports of None \<Rightarrow> None | Some p \<Rightarrow> inet_pton4 p)"

definition user_plane_resources :: "tx_env \<Rightarrow> u8 list" where
  "user_plane_resources x =
     (let name = (case tx_dnns x of [] \<Rightarrow> [] | n # _ \<Rightarrow> take (length n mod 256) n); a = port_address (tx_ports x)
      in [0x24 OR (if a = None then 0 else 1), 0] @ mem_octets 4 (case a of None \<Rightarrow> 0 | Some a \<Rightarrow> a) @
         [of_nat (length name)] @ map (\<lambda>c. of_nat (of_char c)) name)"

definition UpfN4BuildAssociationSetupResponse :: "tx_env \<Rightarrow> ie_value list" where
  "UpfN4BuildAssociationSetupResponse x =
     [Octets (node_id x 0), Octets [PFCP_CAUSE_REQUEST_ACCEPTED], Octets (mem_octets 4 (tx_recoveryTime x)), Absent,
      Octets (user_plane_resources x)]"

definition UpfN4BuildAssociationReleaseResponse :: "tx_env \<Rightarrow> ie_value list" where
  "UpfN4BuildAssociationReleaseResponse x = [Octets (node_id x (tx_junk x)), Octets [PFCP_CAUSE_REQUEST_ACCEPTED]]"

definition UpfN4BuildHeartbeatResponse :: "tx_env \<Rightarrow> ie_value list" where
  "UpfN4BuildHeartbeatResponse x = [Octets (mem_octets 4 (tx_recoveryTime x))]"

text \<open>The end of every handler: the response is built, attached to transaction \<open>i\<close> and sent.\<close>

definition send_response ::
  "tx_env \<Rightarrow> xact_pool \<Rightarrow> nat \<Rightarrow> u8 \<Rightarrow> u64 \<Rightarrow> ie_value list \<Rightarrow> (xact_pool \<times> Status \<times> u8 list list) option" where
  "send_response x xs i ty seid ies = do { b \<leftarrow> PfcpBuildMessage ty ies; commit_response (tx_send x) xs i ty seid (bb_bytes b) }"

subsection \<open>Session establishment\<close>

record PFCPSessionEstablishmentRequest =
  er_createFAR :: "CreateFAR list"
  er_createQER :: "CreateQER list"
  er_createPDR :: "CreatePDR list"
  er_cPFSEID :: TlvOctet

text \<open>
  The steps of the request in order; the places of an array behind the end of the list are not present. A place for a QER that is not used shares QER 1 of the session with SEID 1. The environment of
  the \<open>i\<close>-th step is the \<open>i\<close>-th of a sequence.
\<close>

datatype est_step = Rule n4_call | Share_QER

definition establishment_steps :: "PFCPSessionEstablishmentRequest \<Rightarrow> est_step list" where
  "establishment_steps r =
     map (Rule \<circ> Create_FAR) (filter (\<lambda>c. cf_presence c \<noteq> 0) (take 4 (er_createFAR r))) @
     map (\<lambda>k. if k < length (er_createQER r) \<and> qi_presence (er_createQER r ! k) \<noteq> 0 then Rule (Create_QER (er_createQER r ! k))
               else Share_QER) [0..<4] @
     map (Rule \<circ> Create_PDR) (filter (\<lambda>c. cp_presence c \<noteq> 0) (take 4 (er_createPDR r)))"

text \<open>
  When the session with SEID 1 or its QER 1 does not exist, the null pointer the search returns is registered like a QER,
  and the handler goes on. There is no result only when the search itself comes to such a null pointer in the list of
  session 1.
\<close>

definition share_qer ::
  "('s, 'm, 'r, 'c) n4_env \<Rightarrow> ('s, 'm, 'r, 'c) upf_c \<Rightarrow> nat \<Rightarrow> (('s, 'm, 'r, 'c) upf_c \<times> bool) option" where
  "share_qer env u p =
     (if s_upfSeid (the_session u p) \<le> 1 then Some (u, True)
      else
        let s1 = map_option (the_session u) (UpfSessionFindBySeid (n_lib env) (u_store u) 1)
        in do {
             q \<leftarrow> UpfQERFindByID (shared_rules (u_heap u)) s1 1;
             (case UpfQERRegisterToSession (n_node env) (Some (the_session u p)) q of
                (s, r) \<Rightarrow> Some (set_session u p s, reg_passes (n_garbage env) r))
           })"

text \<open>An error of a rule is remembered in the cause, an error of the sharing ends the handler.\<close>

primrec run_establishment ::
  "(nat \<Rightarrow> ('s, 'm, 'r, 'c) n4_env) \<Rightarrow> nat \<Rightarrow> est_step list \<Rightarrow> nat \<Rightarrow> u8 \<Rightarrow> ('s, 'm, 'r, 'c) upf_c \<Rightarrow>
     (('s, 'm, 'r, 'c) upf_c \<times> u8 option) option" where
  "run_establishment envs p [] i cause u = Some (u, Some cause)"
| "run_establishment envs p (st # sts) i cause u =
     (case st of
        Rule call \<Rightarrow>
          do { (u, status) \<leftarrow> n4_exec (envs i) call u p;
               run_establishment envs p sts (Suc i) (if status = STATUS_OK then cause else PFCP_CAUSE_REQUEST_REJECTED) u }
      | Share_QER \<Rightarrow>
          do { (u, ok) \<leftarrow> share_qer (envs i) u p;
               if ok then run_establishment envs p sts (Suc i) cause u else Some (u, None) })"

text \<open>Without a CP F-SEID the pointer to its value is null and followed all the same.\<close>

definition UpfN4HandleSessionEstablishmentRequest ::
  "(nat \<Rightarrow> ('s, 'm, 'r, 'c) n4_env) \<Rightarrow> tx_env \<Rightarrow> xact_pool \<Rightarrow> nat \<Rightarrow> ('s, 'm, 'r, 'c) upf_c \<Rightarrow> nat \<Rightarrow> PFCPSessionEstablishmentRequest \<Rightarrow>
     (('s, 'm, 'r, 'c) upf_c \<times> xact_pool \<times> Status \<times> u8 list list) option" where
  "UpfN4HandleSessionEstablishmentRequest envs x xs i u p r =
     do {
       (u, cause) \<leftarrow> run_establishment envs p (establishment_steps r) 0 PFCP_CAUSE_REQUEST_ACCEPTED u;
       (case cause of
          None \<Rightarrow> Some (u, xs, STATUS_ERROR, [])
        | Some cause \<Rightarrow>
            if \<not> present (er_cPFSEID r) then None
            else
              let u = set_session u p (Some ((the_session u p)
                        \<lparr>s_smfSeid := be64toh (oct_word 8 (tlv_value (er_cPFSEID r)) 1)\<rparr>))
              in do { (xs, status, out) \<leftarrow> send_response x xs i PFCP_SESSION_ESTABLISHMENT_RESPONSE (s_smfSeid (the_session u p))
                        (UpfN4BuildSessionEstablishmentResponse x (the_session u p) cause);
                      Some (u, xs, status, out) })
     }"

subsection \<open>Session modification\<close>

text \<open>
  The elements of the request; a removal carries an identifier, and one without it is a null pointer that is followed,
  the entry \<open>None\<close> of the list of calls. The handler of a PDR update is given the array, that is its
  first element, for every element that is present.
\<close>

record PFCPSessionModificationRequest =
  mr_createFAR :: "CreateFAR list"
  mr_createQER :: CreateQER
  mr_createPDR :: "CreatePDR list"
  mr_updateFAR :: "UpdateFAR list"
  mr_updateQER :: UpdateQER
  mr_updatePDR :: "UpdatePDR list"
  mr_removeFAR :: "TlvOctet option"
  mr_removeQER :: "TlvOctet option"
  mr_removePDR :: "TlvOctet option"

definition modification_calls :: "PFCPSessionModificationRequest \<Rightarrow> n4_call option list" where
  "modification_calls r =
     map Some (map Create_FAR (filter (\<lambda>c. cf_presence c \<noteq> 0) (take 2 (mr_createFAR r))) @
     (if qi_presence (mr_createQER r) \<noteq> 0 then [Create_QER (mr_createQER r)] else []) @
     map Create_PDR (filter (\<lambda>c. cp_presence c \<noteq> 0) (take 2 (mr_createPDR r))) @
     map Update_FAR (filter (\<lambda>c. uf_presence c \<noteq> 0) (take 2 (mr_updateFAR r))) @
     (if qi_presence (mr_updateQER r) \<noteq> 0 then [Update_QER (mr_updateQER r)] else []) @
     map (\<lambda>_. Update_PDR (mr_updatePDR r ! 0)) (filter (\<lambda>c. up_presence c \<noteq> 0) (take 4 (mr_updatePDR r)))) @
     (case mr_removeFAR r of None \<Rightarrow> []
      | Some t \<Rightarrow> [if present t then Some (Remove_FAR (oct32 (tlv_value t) 0)) else None]) @
     (case mr_removeQER r of None \<Rightarrow> []
      | Some t \<Rightarrow> [if present t then Some (Remove_QER (oct32 (tlv_value t) 0)) else None]) @
     (case mr_removePDR r of None \<Rightarrow> []
      | Some t \<Rightarrow> [if present t then Some (Remove_PDR (oct16 (tlv_value t) 0)) else None])"

text \<open>The first error ends the handler.\<close>

primrec run_calls ::
  "(nat \<Rightarrow> ('s, 'm, 'r, 'c) n4_env) \<Rightarrow> nat \<Rightarrow> n4_call option list \<Rightarrow> nat \<Rightarrow> ('s, 'm, 'r, 'c) upf_c \<Rightarrow>
     (('s, 'm, 'r, 'c) upf_c \<times> Status) option" where
  "run_calls envs p [] i u = Some (u, STATUS_OK)"
| "run_calls envs p (c # cs) i u =
     do { call \<leftarrow> c;
          (u, status) \<leftarrow> n4_exec (envs i) call u p;
          if status = STATUS_OK then run_calls envs p cs (Suc i) u else Some (u, STATUS_ERROR) }"

definition UpfN4HandleSessionModificationRequest ::
  "(nat \<Rightarrow> ('s, 'm, 'r, 'c) n4_env) \<Rightarrow> tx_env \<Rightarrow> xact_pool \<Rightarrow> nat \<Rightarrow> ('s, 'm, 'r, 'c) upf_c \<Rightarrow> nat \<Rightarrow> PFCPSessionModificationRequest \<Rightarrow>
     (('s, 'm, 'r, 'c) upf_c \<times> xact_pool \<times> Status \<times> u8 list list) option" where
  "UpfN4HandleSessionModificationRequest envs x xs i u p r =
     do {
       (u, status) \<leftarrow> run_calls envs p (modification_calls r) 0 u;
       if status \<noteq> STATUS_OK then Some (u, xs, STATUS_ERROR, [])
       else do {
         (xs, status, out) \<leftarrow> send_response x xs i PFCP_SESSION_MODIFICATION_RESPONSE (s_smfSeid (the_session u p))
           UpfN4BuildSessionModificationResponse;
         Some (u, xs, status, out)
       }
     }"

subsection \<open>Session deletion and report\<close>

definition notify_removal ::
  "('s, 'm, 'r, 'c) n4_env \<Rightarrow> worker_config \<Rightarrow> u16 \<Rightarrow> u32 \<Rightarrow> (u16 \<times> Event) list" where
  "notify_removal env w sid ue_ip =
     (let (notified, msgs) =
            (if sid = UPF_INVALID_SERVICE_ID then (False, [])
             else case UpfSendEvt1 (n_send env 0) sid UPF_EVENT_SHAPER_SESSION_REMOVE (ucast ue_ip) of
               (rc, msgs) \<Rightarrow> (rc = 0, msgs))
      in if notified then msgs
         else msgs @ snd (UpfBroadcastEvt1ToWorkers (\<lambda>i. n_send env (Suc i)) w UPF_EVENT_SHAPER_SESSION_REMOVE (ucast ue_ip)))"

definition UpfN4HandleSessionDeletionRequest ::
  "('s, 'm, 'r, 'c) n4_env \<Rightarrow> tx_env \<Rightarrow> xact_pool \<Rightarrow> nat \<Rightarrow> ('s, 'm, 'r, 'c) upf_c \<Rightarrow> nat \<Rightarrow>
     (('s, 'm, 'r, 'c) upf_c \<times> xact_pool \<times> Status \<times> u8 list list) option" where
  "UpfN4HandleSessionDeletionRequest env x xs i u p =
     (let smf_seid = s_smfSeid (the_session u p);
          shaper_ue_ip = rte_be_to_cpu_32 (s_ueIpv4 (the_session u p));
          sid = s_worker_service_id (the_session u p)
      in do {
           b \<leftarrow> PfcpBuildMessage PFCP_SESSION_DELETION_RESPONSE UpfN4BuildSessionDeletionResponse;
           (st, r) \<leftarrow> UpfSessionRemove (n_lib env) (u_store u) (Some p);
           let u = u \<lparr>u_store := st\<rparr>;
           if r \<noteq> STATUS_OK then Some (u, xs, STATUS_ERROR, [])
           else do {
             (xs, status, out) \<leftarrow> commit_response (tx_send x) xs i PFCP_SESSION_DELETION_RESPONSE smf_seid (bb_bytes b);
             Some (u \<lparr>u_msgs := u_msgs u @ notify_removal env (worker_cfg st) sid shaper_ue_ip\<rparr>, xs, status, out)
           }
         })"

definition UpfN4HandleSessionReportResponse ::
  "tx_env \<Rightarrow> xact_pool \<Rightarrow> nat \<Rightarrow> TlvOctet \<Rightarrow> (xact_pool \<times> Status \<times> u8 list list) option" where
  "UpfN4HandleSessionReportResponse x xs i cause =
     (if \<not> present cause then Some (xs, STATUS_ERROR, [])
      else do { (xs, status, out) \<leftarrow> PfcpXactCommit (tx_send x) xs i; Some (xs, if status = STATUS_OK then STATUS_OK else STATUS_ERROR, out) })"

subsection \<open>Associations\<close>

record PfcpNodeId =
  nid_type :: u8
  nid_addr :: "128 word"

record PfcpNode =
  pn_nodeId :: PfcpNodeId
  pn_state :: u8

abbreviation (input) PFCP_NODE_ST_ASSOCIATED :: u8 where "PFCP_NODE_ST_ASSOCIATED \<equiv> 1"

text \<open>The two kinds of address share their storage, of which an IPv4 address overwrites the first four octets; a name is refused with the type already stored.\<close>

definition UpfN4HandleAssociationSetupRequest ::
  "tx_env \<Rightarrow> xact_pool \<Rightarrow> nat \<Rightarrow> PfcpNode \<Rightarrow> TlvOctet \<Rightarrow> (PfcpNode \<times> xact_pool \<times> Status \<times> u8 list list) option" where
  "UpfN4HandleAssociationSetupRequest x xs i n nodeID =
     (if \<not> present nodeID then Some (n, xs, STATUS_ERROR, [])
      else
        let v = tlv_value nodeID; ty = v 0 AND 0x0F;
            n = n \<lparr>pn_nodeId := (pn_nodeId n) \<lparr>nid_type := ty\<rparr>\<rparr>
        in if ty = 0 \<or> ty = 1 then
             let a = (if ty = 0 then push_bit 32 (drop_bit 32 (nid_addr (pn_nodeId n))) OR ucast (oct32 v 1) else oct_word 16 v 1);
                 n = n \<lparr>pn_nodeId := (pn_nodeId n) \<lparr>nid_addr := a\<rparr>, pn_state := PFCP_NODE_ST_ASSOCIATED\<rparr>
             in do { (xs, status, out) \<leftarrow> send_response x xs i PFCP_ASSOCIATION_SETUP_RESPONSE 0 (UpfN4BuildAssociationSetupResponse x);
                     Some (n, xs, status, out) }
           else Some (n, xs, STATUS_ERROR, []))"

definition UpfN4HandleAssociationReleaseRequest ::
  "tx_env \<Rightarrow> xact_pool \<Rightarrow> nat \<Rightarrow> TlvOctet \<Rightarrow> (xact_pool \<times> Status \<times> u8 list list) option" where
  "UpfN4HandleAssociationReleaseRequest x xs i nodeID =
     (if \<not> present nodeID then Some (xs, STATUS_ERROR, [])
      else send_response x xs i PFCP_ASSOCIATION_RELEASE_RESPONSE 0 (UpfN4BuildAssociationReleaseResponse x))"

definition UpfN4HandleHeartbeatRequest :: "tx_env \<Rightarrow> xact_pool \<Rightarrow> nat \<Rightarrow> (xact_pool \<times> Status \<times> u8 list list) option" where
  "UpfN4HandleHeartbeatRequest x xs i = send_response x xs i PFCP_HEARTBEAT_RESPONSE 0 (UpfN4BuildHeartbeatResponse x)"

subsection \<open>The dispatcher\<close>

text \<open>
  A report of a worker names a session and a PDR; the flag of the session holds back further requests.
\<close>

definition session_report ::
  "('s, 'm, 'r) store_lib \<Rightarrow> tx_env \<Rightarrow> xact_pool \<Rightarrow> ('s, 'm, 'r, 'c) upf_c \<Rightarrow> u64 \<Rightarrow> u16 \<Rightarrow>
     (('s, 'm, 'r, 'c) upf_c \<times> xact_pool \<times> u8 list list) option" where
  "session_report L x xs u seid pid =
     (case UpfSessionFindBySeid L (u_store u) seid of
        None \<Rightarrow> Some (u, xs, [])
      | Some p \<Rightarrow>
          if s_srr_flag (the_session u p) then Some (u, xs, [])
          else
            let u = set_session u p (Some ((the_session u p) \<lparr>s_srr_flag := True\<rparr>))
            in do {
                 b \<leftarrow> PfcpBuildMessage PFCP_SESSION_REPORT_REQUEST (UpfN4BuildSessionReportRequestDownlinkDataReport pid);
                 (xs, xact) \<leftarrow> PfcpXactLocalCreate xs PFCP_SESSION_REPORT_REQUEST seid (bb_bytes b);
                 (case xact of
                    None \<Rightarrow> Some (u, xs, [])
                  | Some i \<Rightarrow> do { (xs, status, out) \<leftarrow> PfcpXactCommit (tx_send x) xs i; Some (u, xs, out) })
               })"

text \<open>
  The messages the dispatcher tells apart. Its case for the release of an association is that of the response, type 10; a
  release request, type 9, is one of the other messages.
\<close>

datatype pfcp_body =
    Heartbeat_Request | Heartbeat_Response
  | Association_Setup_Request TlvOctet | Association_Update_Request | Association_Release_Response TlvOctet
  | Session_Establishment_Request establishment_request PFCPSessionEstablishmentRequest
  | Session_Modification_Request PFCPSessionModificationRequest
  | Session_Deletion_Request
  | Session_Report_Response TlvOctet
  | Other_Message u8

primrec message_type :: "pfcp_body \<Rightarrow> u8" where
  "message_type Heartbeat_Request = 1"
| "message_type Heartbeat_Response = 2"
| "message_type (Association_Setup_Request _) = 5"
| "message_type Association_Update_Request = 7"
| "message_type (Association_Release_Response _) = 10"
| "message_type (Session_Establishment_Request _ _) = 50"
| "message_type (Session_Modification_Request _) = 52"
| "message_type Session_Deletion_Request = 54"
| "message_type (Session_Report_Response _) = 57"
| "message_type (Other_Message ty) = ty"

text \<open>
  The session of a message: the outer \<open>None\<close> when the creation of a session does not return, the inner one when the message
  has no session part, and no session in it when there is none to be found.
\<close>

definition message_session ::
  "('s, 'm, 'r) store_lib \<Rightarrow> (nat \<Rightarrow> bool) \<Rightarrow> ('s, 'm, 'r, 'c) upf_c \<Rightarrow> bool \<Rightarrow> u64 \<Rightarrow> pfcp_body \<Rightarrow>
     (('s, 'm, 'r, 'c) upf_c \<times> nat option option) option" where
  "message_session L mem u seidP seid b =
     (if \<not> seidP then Some (u, None)
      else if seid \<noteq> 0 then Some (u, Some (UpfSessionFindBySeid L (u_store u) seid))
      else case b of
        Session_Establishment_Request request _ \<Rightarrow>
          do { (st, p) \<leftarrow> UpfSessionAddByMessage L mem (u_store u) request; Some (u \<lparr>u_store := st\<rparr>, Some p) }
      | _ \<Rightarrow> Some (u, Some None))"

text \<open>
  The handler of a message, run with transaction \<open>i\<close>. A session message without a session part is handed a null session, which its handler refuses.
\<close>

definition run_handler ::
  "(nat \<Rightarrow> ('s, 'm, 'r, 'c) n4_env) \<Rightarrow> tx_env \<Rightarrow> xact_pool \<Rightarrow> nat \<Rightarrow> PfcpNode \<Rightarrow> ('s, 'm, 'r, 'c) upf_c \<Rightarrow> nat option \<Rightarrow> pfcp_body \<Rightarrow>
     (('s, 'm, 'r, 'c) upf_c \<times> PfcpNode \<times> xact_pool \<times> u8 list list) option" where
  "run_handler envs x xs i gnode u session b =
     (case (b, session) of
        (Heartbeat_Request, _) \<Rightarrow> do { (xs, _, out) \<leftarrow> UpfN4HandleHeartbeatRequest x xs i; Some (u, gnode, xs, out) }
      | (Association_Setup_Request nodeID, _) \<Rightarrow>
          do { (gnode, xs, _, out) \<leftarrow> UpfN4HandleAssociationSetupRequest x xs i gnode nodeID; Some (u, gnode, xs, out) }
      | (Association_Release_Response nodeID, _) \<Rightarrow>
          do { (xs, _, out) \<leftarrow> UpfN4HandleAssociationReleaseRequest x xs i nodeID; Some (u, gnode, xs, out) }
      | (Session_Establishment_Request _ r, Some p) \<Rightarrow>
          do { (u, xs, _, out) \<leftarrow> UpfN4HandleSessionEstablishmentRequest envs x xs i u p r; Some (u, gnode, xs, out) }
      | (Session_Modification_Request r, Some p) \<Rightarrow>
          do { (u, xs, _, out) \<leftarrow> UpfN4HandleSessionModificationRequest envs x xs i u p r; Some (u, gnode, xs, out) }
      | (Session_Deletion_Request, Some p) \<Rightarrow>
          do { (u, xs, _, out) \<leftarrow> UpfN4HandleSessionDeletionRequest (envs 0) x xs i u p; Some (u, gnode, xs, out) }
      | (Session_Report_Response cause, Some p) \<Rightarrow>
          do { (xs, _, out) \<leftarrow> UpfN4HandleSessionReportResponse x xs i cause; Some (u, gnode, xs, out) }
      | _ \<Rightarrow> Some (u, gnode, xs, []))"

text \<open>A message with its sequence number; the parser has made the structures of \<open>b\<close> of it.\<close>

definition n4_message ::
  "(nat \<Rightarrow> ('s, 'm, 'r, 'c) n4_env) \<Rightarrow> (nat \<Rightarrow> bool) \<Rightarrow> tx_env \<Rightarrow> timer_env \<Rightarrow> xact_pool \<Rightarrow> PfcpNode \<Rightarrow> ('s, 'm, 'r, 'c) upf_c \<Rightarrow>
     bool \<Rightarrow> u64 \<Rightarrow> u32 \<Rightarrow> pfcp_body \<Rightarrow> (('s, 'm, 'r, 'c) upf_c \<times> PfcpNode \<times> xact_pool \<times> u8 list list) option" where
  "n4_message envs mem x te xs gnode u seidP seid sqn b =
     do {
       (u, session) \<leftarrow> message_session (n_lib (envs 0)) mem u seidP seid b;
       (if session = Some None then Some (u, gnode, xs, [])
        else do {
          (xs, status, xact, out) \<leftarrow> PfcpXactReceive te (tx_send x) xs (message_type b) sqn;
          (case xact of
             None \<Rightarrow> Some (u, gnode, xs, out)
           | Some i \<Rightarrow> do {
               (u, gnode, xs, more) \<leftarrow> run_handler envs x xs i gnode u (case session of None \<Rightarrow> None | Some p \<Rightarrow> p) b;
               Some (u, gnode, xs, out @ more)
             })
        })
     }"

subsection \<open>Rules stay consistent over whole messages\<close>

definition envs_ok :: "(nat \<Rightarrow> ('s, 'm, 'r, 'c) n4_env) \<Rightarrow> nat \<Rightarrow> ('s, 'm, 'r, 'c) upf_c \<Rightarrow> bool" where
  "envs_ok envs i u \<longleftrightarrow>
     (\<forall>j. n_node (envs j) \<and> n_garbage (envs j) \<and> n_cls (envs j) = n_cls (envs 0) \<and> n_getenv (envs j) = n_getenv (envs 0)) \<and>
     (\<forall>j k a. n_calloc (envs j) = Some a \<and> n_calloc (envs k) = Some a \<longrightarrow> j = k) \<and>
     (\<forall>j\<ge>i. \<forall>a. n_calloc (envs j) = Some a \<longrightarrow> a \<notin> set (all_pdrs u))"

lemma in_sync_env:
  assumes "n_cls env = n_cls env'" "n_getenv env = n_getenv env'" shows "in_sync env u = in_sync env' u"
proof -
  have "replay_teids env u = replay_teids env' u" by (simp add: replay_teids_def assms(2))
  then have "built_from env u = built_from env' u" by (intro ext) (simp add: built_from_def assms(1))
  then show ?thesis by (simp add: in_sync_def)
qed

text \<open>What one call leaves of the hypotheses of the next.\<close>

definition call_frame :: "('s, 'm, 'r, 'c) n4_env \<Rightarrow> nat \<Rightarrow> ('s, 'm, 'r, 'c) upf_c \<Rightarrow> ('s, 'm, 'r, 'c) upf_c \<Rightarrow> bool" where
  "call_frame env p u u' \<longleftrightarrow> sessions u' = sessions u \<and> s_pdr_list (the_session u' p) \<noteq> None \<and>
     set (all_pdrs u') \<subseteq> set (all_pdrs u) \<union> set_option (n_calloc env)"

lemma untouched_frame: "pdrs_untouched u u' \<Longrightarrow> s_pdr_list (the_session u p) \<noteq> None \<Longrightarrow> call_frame env p u u'"
  by (auto simp: call_frame_def pdrs_untouched_def all_pdrs_def)

lemma create_pdr_frame:
  assumes c: "UpfN4HandleCreatePdr env u p c = Some (u', status)"
    and n: "n_node env" "n_garbage env" and p: "p < sessions u" "s_pdr_list (the_session u p) \<noteq> None"
    and a: "\<forall>a. n_calloc env = Some a \<longrightarrow> a \<notin> set (all_pdrs u)" and ok: "rules_ok u"
  shows "call_frame env p u u'"
proof (cases "n_calloc env")
  case None
  then have "u' = u" using c by (auto simp: UpfN4HandleCreatePdr_def split: if_splits)
  then show ?thesis using p(2) by (simp add: call_frame_def)
next
  case (Some a)
  then have fresh: "a \<notin> set (all_pdrs u)" using a by simp
  obtain l where l: "s_pdr_list (the_session u p) = Some l" "set l \<subseteq> set (all_pdrs u)"
    using p ok by (auto simp: session_pdrs_def rules_ok_def)
  have al: "a \<notin> set l" using l(2) fresh by auto
  show ?thesis
  proof (rule create_pdr_cases [OF c Some l(1) al])
    assume "same_rules env u u'"
    then show ?thesis using same_rules_ids [of env u u'] p(2) by (simp add: same_ids_def call_frame_def)
  next
    fix v
    assume v: "install_pdr env v p a = (u', status)" "same_rules env u (v \<lparr>u_heap := u_heap u\<rparr>)"
      "pdr_id_of v a \<notin> pdr_id_of u ` set l" "\<forall>b. b \<noteq> a \<longrightarrow> h_pdr (u_heap v) b = h_pdr (u_heap u) b"
    have eq: "s_pdr_list (the_session v p) = Some l" "all_pdrs v = all_pdrs u" "sessions v = sessions u"
      using v(2) l(1) by (simp_all add: same_rules_def same_rule_lists_def all_pdrs_def)
    have "pdr_id_of v ` set l = pdr_id_of u ` set l" using v(4) al by (intro image_cong) auto
    then show ?thesis
      using install_pdr_effect [OF v(1) n _ eq(1)] v(3) eq p(1) fresh Some by (auto simp: call_frame_def)
  qed
qed

lemma remove_pdr_frame:
  assumes "UpfN4HandleRemovePdr env u p k = Some (u', status)"
    and n: "n_node env" and p: "p < sessions u" "s_pdr_list (the_session u p) \<noteq> None" and ok: "rules_ok u"
  shows "call_frame env p u u'"
proof -
  obtain l where l: "s_pdr_list (the_session u p) = Some l" "set l \<subseteq> set (all_pdrs u)" "distinct l"
    using p ok by (auto simp: session_pdrs_def rules_ok_def distinct_map split: option.splits)
  have sub: "set (remove1 a (all_pdrs u)) \<subseteq> set (all_pdrs u)" for a by (rule set_remove1_subset)
  from remove_pdr_effect [OF assms(1) n p(1) l(1) l(3)] show ?thesis
    using p(2) l(2) sub unfolding call_frame_def by (elim disjE exE conjE) (simp, fastforce, fastforce)
qed

lemma exec_frame:
  assumes ok: "rules_ok u" and p: "p < sessions u" "s_pdr_list (the_session u p) \<noteq> None"
    and n: "n_node env" "n_garbage env" and a: "\<forall>a. n_calloc env = Some a \<longrightarrow> a \<notin> set (all_pdrs u)"
    and r: "n4_exec env call u p = Some (u', status)"
  shows "call_frame env p u u'"
proof (cases call)
  case (Create_PDR c)
  then show ?thesis using r by (intro create_pdr_frame [OF _ n p a ok]) (simp add: n4_exec_def)
next
  case (Update_PDR c)
  then have "same_ids u u'" using r update_pdr_effect [of env u p c u' status] by (simp add: n4_exec_def)
  then show ?thesis using p(2) by (simp add: same_ids_def call_frame_def)
next
  case (Remove_PDR k)
  then show ?thesis using r by (intro remove_pdr_frame [OF _ n(1) p ok]) (simp add: n4_exec_def)
qed (use r handler_untouched untouched_frame [OF _ p(2)] in \<open>fastforce simp: n4_exec_def\<close>)+

lemma exec_step:
  assumes ok: "rules_ok u" "in_sync (envs 0) u" and p: "p < sessions u" "s_pdr_list (the_session u p) \<noteq> None"
    and e: "envs_ok envs i u" and r: "n4_exec (envs i) call u p = Some (u', status)"
  shows "rules_ok u' \<and> (status = STATUS_OK \<or> (\<forall>c. call \<noteq> Update_PDR c) \<longrightarrow> in_sync (envs 0) u') \<and>
    p < sessions u' \<and> s_pdr_list (the_session u' p) \<noteq> None \<and> envs_ok envs (Suc i) u'"
proof -
  have n: "n_node (envs i)" "n_garbage (envs i)" "\<forall>a. n_calloc (envs i) = Some a \<longrightarrow> a \<notin> set (all_pdrs u)"
    and same: "in_sync (envs i) v = in_sync (envs 0) v" for v
    using e by (auto simp: envs_ok_def intro!: in_sync_env)
  have f: "call_frame (envs i) p u u'" by (rule exec_frame [OF ok(1) p n r])
  have "a \<notin> set (all_pdrs u')" if "Suc i \<le> j" "n_calloc (envs j) = Some a" for j a
  proof -
    have "a \<notin> set (all_pdrs u)" using e that by (auto simp: envs_ok_def dest: Suc_leD)
    moreover have "n_calloc (envs i) \<noteq> Some a" using e that by (force simp: envs_ok_def)
    ultimately show ?thesis using f by (auto simp: call_frame_def)
  qed
  then have "envs_ok envs (Suc i) u'" using e by (auto simp: envs_ok_def)
  moreover have "rules_ok u' \<and> (status = STATUS_OK \<or> (\<forall>c. call \<noteq> Update_PDR c) \<longrightarrow> in_sync (envs 0) u')"
    using n4_rules_stay_consistent [OF ok(1) _ p n r] ok(2) same by simp
  ultimately show ?thesis using f p by (simp add: call_frame_def)
qed

lemma run_calls_consistent:
  assumes "run_calls envs p calls i u = Some (u', status)" "rules_ok u" "in_sync (envs 0) u"
    and "p < sessions u" "s_pdr_list (the_session u p) \<noteq> None" "envs_ok envs i u"
  shows "rules_ok u' \<and> (status = STATUS_OK \<longrightarrow> in_sync (envs 0) u')"
  using assms
proof (induction calls arbitrary: i u)
  case (Cons c calls)
  then obtain call v st where c: "c = Some call" and e: "n4_exec (envs i) call u p = Some (v, st)"
    and rest: "(if st = STATUS_OK then run_calls envs p calls (Suc i) v else Some (v, STATUS_ERROR)) = Some (u', status)"
    by (auto simp: bind_eq_Some_conv)
  note s = exec_step [OF Cons.prems(2-6) e]
  show ?case
  proof (cases "st = STATUS_OK")
    case True
    then show ?thesis using Cons.IH [of "Suc i" v] rest s by simp
  next
    case False
    then show ?thesis using rest s by auto
  qed
qed simp

lemma share_qer_untouched: "share_qer env u p = Some (u', ok) \<Longrightarrow> pdrs_untouched u u'"
  by (auto simp: share_qer_def Let_def bind_eq_Some_conv split_beta
      intro: register_qer_untouched [OF prod.collapse [symmetric]] split: if_splits)

lemma share_step:
  assumes "share_qer (envs i) u p = Some (u', ok)" "rules_ok u" "in_sync (envs 0) u"
    and "p < sessions u" "s_pdr_list (the_session u p) \<noteq> None" "envs_ok envs i u"
  shows "rules_ok u' \<and> in_sync (envs 0) u' \<and> p < sessions u' \<and> s_pdr_list (the_session u' p) \<noteq> None \<and> envs_ok envs (Suc i) u'"
proof -
  note t = share_qer_untouched [OF assms(1)]
  then have "sessions u' = sessions u" "all_pdrs u' = all_pdrs u" "s_pdr_list (the_session u' p) = s_pdr_list (the_session u p)"
    by (simp_all add: pdrs_untouched_def all_pdrs_def)
  then show ?thesis
    using pdrs_untouched_consistent [OF t assms(2,3)] assms(4-6) by (auto simp: envs_ok_def dest: Suc_leD)
qed

lemma run_establishment_consistent:
  assumes "run_establishment envs p steps i cause u = Some (u', cause')" "rules_ok u" "in_sync (envs 0) u"
    and "p < sessions u" "s_pdr_list (the_session u p) \<noteq> None" "envs_ok envs i u"
    and "\<forall>st\<in>set steps. \<forall>c. st \<noteq> Rule (Update_PDR c)"
  shows "rules_ok u' \<and> in_sync (envs 0) u'"
  using assms
proof (induction steps arbitrary: i u cause)
  case (Cons st steps)
  show ?case
  proof (cases st)
    case (Rule call)
    then obtain v r where e: "n4_exec (envs i) call u p = Some (v, r)"
      and rest: "run_establishment envs p steps (Suc i) (if r = STATUS_OK then cause else PFCP_CAUSE_REQUEST_REJECTED) v = Some (u', cause')"
      using Cons.prems(1) by (auto simp: bind_eq_Some_conv)
    show ?thesis using Cons.IH [OF rest] exec_step [OF Cons.prems(2-6) e] Cons.prems(7) Rule by auto
  next
    case Share_QER
    then obtain v ok where e: "share_qer (envs i) u p = Some (v, ok)"
      and rest: "(if ok then run_establishment envs p steps (Suc i) cause v else Some (v, None)) = Some (u', cause')"
      using Cons.prems(1) by (auto simp: bind_eq_Some_conv)
    show ?thesis
    proof (cases ok)
      case True
      then show ?thesis using Cons.IH [of "Suc i" cause v] rest share_step [OF e Cons.prems(2-6)] Cons.prems(7) by simp
    next
      case False
      then show ?thesis using rest share_step [OF e Cons.prems(2-6)] by simp
    qed
  qed
qed simp

text \<open>
  C2. Whole messages keep rules and classifier consistent. Take a control plane whose rules are consistent, memory for list
  nodes, fresh and distinct addresses for new objects, and registrations, which end without \<^verbatim>\<open>return\<close>, that appear to succeed.
  After an establishment request that is processed to its end, whatever it contains, whether it is accepted or not and
  whether or not null pointers were registered as QERs on the way, the PDRs of all sessions have distinct identifiers, are
  listed and belong to one session, and the published classifier is built from exactly the listed PDRs. After a
  modification request the same holds of the rules, and if a response is sent it holds of the classifier: the peer is
  never told that a modification was accepted which the workers do not see. (A request is not processed to its end when an
  SDF filter makes the conversion loop or a null pointer is followed: one of the list of QERs, a missing CP F-SEID, or a
  removal without an identifier.)
\<close>

theorem pfcp_messages_keep_rules_consistent:
  assumes "rules_ok u" "in_sync (envs 0) u" "p < sessions u" "s_pdr_list (the_session u p) \<noteq> None" "envs_ok envs 0 u"
  shows "(\<forall>r u' xs' status out. UpfN4HandleSessionEstablishmentRequest envs x xs i u p r = Some (u', xs', status, out) \<longrightarrow>
      rules_ok u' \<and> in_sync (envs 0) u') \<and>
    (\<forall>r u' xs' status out. UpfN4HandleSessionModificationRequest envs x xs i u p r = Some (u', xs', status, out) \<longrightarrow>
      rules_ok u' \<and> (out \<noteq> [] \<longrightarrow> in_sync (envs 0) u'))"
proof (intro conjI allI impI)
  fix r u' xs' status out
  assume "UpfN4HandleSessionEstablishmentRequest envs x xs i u p r = Some (u', xs', status, out)"
  then obtain v cause where run: "run_establishment envs p (establishment_steps r) 0 PFCP_CAUSE_REQUEST_ACCEPTED u = Some (v, cause)"
    and u': "u' = v \<or> (\<exists>k. u' = set_session v p (Some ((the_session v p) \<lparr>s_smfSeid := k\<rparr>)))"
    by (auto simp: UpfN4HandleSessionEstablishmentRequest_def bind_eq_Some_conv Let_def split: option.splits if_splits)
  have "\<forall>st\<in>set (establishment_steps r). \<forall>c. st \<noteq> Rule (Update_PDR c)"
    by (auto simp: establishment_steps_def split: if_splits)
  note v = run_establishment_consistent [OF run assms this]
  have "pdrs_untouched v u'" using u' by (auto intro!: set_session_untouched)
  then show "rules_ok u'" "in_sync (envs 0) u'" using pdrs_untouched_consistent v by blast+
next
  fix r u' xs' status out
  assume "UpfN4HandleSessionModificationRequest envs x xs i u p r = Some (u', xs', status, out)"
  then obtain st where run: "run_calls envs p (modification_calls r) 0 u = Some (u', st)" and "out = [] \<or> st = STATUS_OK"
    by (auto simp: UpfN4HandleSessionModificationRequest_def bind_eq_Some_conv split: if_splits)
  then show "rules_ok u'" "out \<noteq> [] \<Longrightarrow> in_sync (envs 0) u'" using run_calls_consistent [OF run assms] by auto
qed

subsection \<open>The octets of the responses\<close>

lemmas build_rules = PfcpBuildMessage_def PfcpBuildBody_def BufblkAlloc_def BufblkBytes_def pool_size_def set_length_def be16_def
  message_rules ieDescriptionTable_def group_elements_def

lemma deletion_response_octets: "\<exists>b. PfcpBuildMessage 55 UpfN4BuildSessionDeletionResponse = Some b \<and> bb_bytes b = [0, 19, 0, 1, 1]"
  by (simp add: UpfN4BuildSessionDeletionResponse_def build_rules)

lemma modification_response_octets:
  "\<exists>b. PfcpBuildMessage 53 UpfN4BuildSessionModificationResponse = Some b \<and> bb_bytes b = [0, 19, 0, 1, 1]"
  by (simp add: UpfN4BuildSessionModificationResponse_def build_rules)

lemma cause_length: "length [0, 19, 0, 1, 1 :: u8] = 5" by simp

lemma final_stages: "PfcpXactGetStage 53 = Final_Stage" "PfcpXactGetStage 55 = Final_Stage"
  by (simp_all add: PfcpXactGetStage_def)

lemma pdr_octets: "mem_octets 2 (rte_cpu_to_be_16 w) = be16 (unat w)"
proof -
  have "(ucast (rte_cpu_to_be_16 w) :: u8) = ucast (drop_bit 8 w)" "(ucast (drop_bit 8 (rte_cpu_to_be_16 w)) :: u8) = ucast w"
    by (rule bit_eqI; auto simp: rte_bswap16_def bit_ucast_iff bit_or_iff bit_push_bit_iff bit_drop_bit_eq dest: bit_imp_le_length)+
  moreover have "unat (drop_bit 8 w) = unat w div 256" by (simp add: drop_bit_eq_div unat_div_distrib)
  then have "(of_nat (unat w div 256) :: u8) = ucast (drop_bit 8 w)" by (metis of_nat_unat)
  ultimately show ?thesis by (simp add: mem_octets_def be16_def numeral_2_eq_2)
qed

lemma report_request_octets:
  "\<exists>b. PfcpBuildMessage 56 (UpfN4BuildSessionReportRequestDownlinkDataReport pid) = Some b \<and>
     bb_bytes b = [0, 39, 0, 1, 1, 0, 83, 0, 6, 0, 56, 0, 2] @ be16 (unat pid)"
  by (simp add: UpfN4BuildSessionReportRequestDownlinkDataReport_def pdr_octets build_rules)

text \<open>The release of an association is answered with the element 101 where the cause, element 19, should be.\<close>

theorem release_response_without_cause:
  "\<exists>b. PfcpBuildMessage 10 (UpfN4BuildAssociationReleaseResponse x) = Some b \<and>
     bb_bytes b = [0, 60, 0, 5] @ node_id x (tx_junk x) @ [0, 101, 0, 1, 1]"
  by (simp add: UpfN4BuildAssociationReleaseResponse_def node_id_def mem_octets_def build_rules)

subsection \<open>Deletion\<close>

text \<open>
  C4. Deleting a session. In a consistent store, with a response that can be encoded and sent and a worker that takes messages, the
  handler returns, the session is gone from the store and no key leads to it any more, every other session is where it was, its
  worker and nobody else is told once to drop the queue of the UE, and the peer gets one accepting response under the SEID
  it had given.
\<close>

theorem session_deletion_complete:
  assumes "store_laws (n_lib env) V" "store_inv (n_lib env) V (u_store u)" "p \<in> live_sessions V (u_store u)"
    and "received xs i" "tx_send x"
    and "s_worker_service_id (the_session u p) \<noteq> UPF_INVALID_SERVICE_ID"
    and "se_calloc (n_send env 0)" "\<forall>sid e. se_send (n_send env 0) sid e = 0"
  shows "\<exists>u' xs'. UpfN4HandleSessionDeletionRequest env x xs i u p = Some (u', xs', STATUS_OK,
      [tx_header 55 (s_smfSeid (the_session u p)) (x_transactionId (xp_xacts xs i)) 5 @ [0, 19, 0, 1, 1]]) \<and>
    store_inv (n_lib env) V (u_store u') \<and> live_sessions V (u_store u') = live_sessions V (u_store u) - {p} \<and>
    session_data (u_store u') = session_data (u_store u) \<and>
    UpfSessionFindBySeid (n_lib env) (u_store u') seid \<noteq> Some p \<and>
    UpfSessionFindByTeid (n_lib env) (u_store u') teid \<noteq> Some p \<and>
    UpfSessionFindByUeIP (n_lib env) (u_store u') ip \<noteq> Some p \<and>
    u_msgs u' = u_msgs u @ [(s_worker_service_id (the_session u p),
      \<lparr>ev_type = 162, ev_argc = 1, ev_arg0 = ucast (rte_be_to_cpu_32 (s_ueIpv4 (the_session u p))), ev_arg1 = 0\<rparr>)]"
proof -
  obtain st where st: "UpfSessionRemove (n_lib env) (u_store u) (Some p) = Some (st, STATUS_OK)"
    "store_inv (n_lib env) V st" "live_sessions V st = live_sessions V (u_store u) - {p}"
    "session_data st = session_data (u_store u)"
    using session_remove_exact [OF assms(1-3)] by blast
  have n: "notify_removal env (worker_cfg st) (s_worker_service_id (the_session u p)) ue =
      [(s_worker_service_id (the_session u p), \<lparr>ev_type = 162, ev_argc = 1, ev_arg0 = ucast ue, ev_arg1 = 0\<rparr>)]" for ue
    using assms(6-8) by (simp add: notify_removal_def UpfSendEvt1_def send_event_def Let_def)
  obtain b where b: "PfcpBuildMessage 55 UpfN4BuildSessionDeletionResponse = Some b" "bb_bytes b = [0, 19, 0, 1, 1]"
    using deletion_response_octets by blast
  obtain xs' where "commit_response True xs i 55 (s_smfSeid (the_session u p)) [0, 19, 0, 1, 1] = Some (xs', STATUS_OK,
      [tx_header 55 (s_smfSeid (the_session u p)) (x_transactionId (xp_xacts xs i)) 5 @ [0, 19, 0, 1, 1]])"
    using commit_response_sends [OF assms(4) final_stages(2), of "[0, 19, 0, 1, 1]", unfolded cause_length] by auto
  then show ?thesis
    using st n b assms(5) session_lookups [OF assms(1) st(2)]
    by (simp add: UpfN4HandleSessionDeletionRequest_def Let_def)
qed

subsection \<open>Reports\<close>

text \<open>
  C32. Reporting buffered downlink data. When a session that has no report pending gets a report, one request goes out that names the
  session and the PDR, the report is pending, and until the flag is cleared further reports of its packets send nothing.
\<close>

theorem downlink_report_sent_once:
  assumes "UpfSessionFindBySeid L (u_store u) seid = Some p" "p < sessions u" "\<not> s_srr_flag (the_session u p)"
    and "xp_avail xs = i # q" "tx_send x"
  shows "\<exists>u' xs'. session_report L x xs u seid pid = Some (u', xs',
      [tx_header 56 seid (next_xact_id (xp_globalXactId xs)) 15 @
        [0, 39, 0, 1, 1, 0, 83, 0, 6, 0, 56, 0, 2] @ be16 (unat pid)]) \<and>
    s_srr_flag (the_session u' p) \<and> session_report L x' xs'' u' seid pid' = Some (u', xs'', [])"
proof -
  let ?body = "[0, 39, 0, 1, 1, 0, 83, 0, 6, 0, 56, 0, 2] @ be16 (unat pid)"
  let ?u = "set_session u p (Some ((the_session u p) \<lparr>s_srr_flag := True\<rparr>))"
  have len: "length ?body = 15" by simp
  have find: "UpfSessionFindBySeid L (u_store ?u) seid = Some p"
    using assms(1) by (simp add: UpfSessionFindBySeid_def set_session_def upd_session_def Let_def)
  obtain b where b: "PfcpBuildMessage 56 (UpfN4BuildSessionReportRequestDownlinkDataReport pid) = Some b" "bb_bytes b = ?body"
    using report_request_octets by blast
  obtain xs1 xs2 where "PfcpXactLocalCreate xs 56 seid ?body = Some (xs1, Some i)"
      "PfcpXactCommit True xs1 i = Some (xs2, STATUS_OK, [tx_header 56 seid (next_xact_id (xp_globalXactId xs)) 15 @ ?body])"
    using local_create_sends [OF assms(4), of ?body seid, unfolded len] by auto
  then show ?thesis using assms b find by (simp add: session_report_def Let_def)
qed

subsection \<open>Concrete messages\<close>

definition demo_envs :: "nat \<Rightarrow> (example_seids, example_map, mbuf list, pdr_t list) n4_env" where
  "demo_envs i = demo_env \<lparr>n_calloc := Some (7 + i)\<rparr>"

definition demo_tx :: tx_env where
  "demo_tx = \<lparr>tx_pfcpAddr = 0x0100007F, tx_addr6 = replicate 16 0, tx_recoveryTime = 7, tx_dnns = [''internet''], tx_ports = [''10.0.0.1''],
     tx_send = True, tx_junk = 0\<rparr>"

text \<open>A transaction that has received a deletion request with the identifier 1.\<close>

definition demo_xacts :: xact_pool where
  "demo_xacts = set_xact PfcpXactInit 0 (zero_xact \<lparr>x_origin := 1, x_transactionId := 1, x_step := 1, x_types := [54, 0, 0]\<rparr>)"

lemma demo_received: "received demo_xacts 0"
  by (simp add: received_def demo_xacts_def zero_xact_def)

definition no_qer :: QER_IEs where
  "no_qer = \<lparr>qi_presence = 0, qi_qERID = absent, qi_qERCorrelationID = absent, qi_gateStatus = absent, qi_maximumBitrate = absent,
     qi_guaranteedBitrate = absent, qi_packetRate = absent, qi_dLFlowLevelMarking = absent, qi_qoSFlowIdentifier = absent,
     qi_reflectiveQoS = absent\<rparr>"

definition demo_modification :: PFCPSessionModificationRequest where
  "demo_modification = \<lparr>mr_createFAR = [], mr_createQER = no_qer, mr_createPDR = [demo_create], mr_updateFAR = [],
     mr_updateQER = no_qer, mr_updatePDR = [], mr_removeFAR = None, mr_removeQER = None, mr_removePDR = None\<rparr>"

lemma demo_envs_ok: "envs_ok demo_envs 0 demo_upf"
  by (auto simp: envs_ok_def demo_envs_def demo_env_def)

text \<open>
  An establishment without QERs for the session with SEID 5, when there is no session with SEID 1: four null pointers are
  registered as QERs, the PDR is created and the response is sent.
\<close>

definition demo_establishment :: PFCPSessionEstablishmentRequest where
  "demo_establishment = \<lparr>er_createFAR = [], er_createQER = [], er_createPDR = [demo_create], er_cPFSEID = octet_at 8 9\<rparr>"

abbreviation null_qers :: "nat \<Rightarrow> (example_seids, example_map, mbuf list, pdr_t list) upf_c" where
  "null_qers k \<equiv> set_session demo_upf 0 (Some ((the_session demo_upf 0) \<lparr>s_qer_list := Some (replicate k None)\<rparr>))"

lemma null_qers_0: "null_qers 0 = demo_upf"
proof -
  have "(the_session demo_upf 0) \<lparr>s_qer_list := Some []\<rparr> = the_session demo_upf 0" by (simp only: demo_session) simp
  moreover have "u \<lparr>u_store := upd_session (u_store u) p (\<lambda>_. the_session u p)\<rparr> = u"
    for u :: "(example_seids, example_map, mbuf list, pdr_t list) upf_c" and p by (simp add: upd_session_def)
  ultimately show ?thesis by (simp only: replicate_0 set_session_def option.case)
qed

lemma share_null_qer: "share_qer (demo_envs i) (null_qers k) 0 = Some (null_qers (Suc k), True)"
proof -
  have env: "n_lib (demo_envs i) = example_lib" "n_node (demo_envs i)" "n_garbage (demo_envs i)"
    by (simp_all add: demo_envs_def demo_env_def)
  have s: "the_session (null_qers k) 0 = one_session
      \<lparr>s_pdr_list := Some [], s_far_list := Some [3], s_qer_list := Some (replicate k None)\<rparr>"
    using demo_session(1,2) by simp
  have one: "UpfSessionFindBySeid example_lib (u_store (null_qers k)) 1 = None"
    by (simp add: UpfSessionFindBySeid_def set_session_def upd_session_def demo_upf_def one_store_def example_lib_def
        alist_hash_def Let_def)
  have "set_session (null_qers k) 0 (Some x) = set_session demo_upf 0 (Some x)" for x
    by (simp add: set_session_def upd_session_def)
  moreover have "\<not> (5 :: u64) \<le> 1" by (simp add: word_le_nat_alt)
  ultimately show ?thesis
    using s one env demo_session(1)
    by (simp add: share_qer_def UpfQERFindByID_def UpfQERRegisterToSession_def reg_passes_def replicate_append_same [symmetric])
qed

lemma demo_establishment_response:
  "\<exists>b. PfcpBuildMessage 51 (UpfN4BuildSessionEstablishmentResponse demo_tx s cause) = Some b \<and>
     length (bb_bytes b) \<le> 32752"
  by (simp add: UpfN4BuildSessionEstablishmentResponse_def build_rules node_id_def PfcpSockaddrToFSeid_def demo_tx_def mem_octets_def)

lemma demo_establishment_runs:
  "\<exists>u' xs' m. UpfN4HandleSessionEstablishmentRequest demo_envs demo_tx demo_xacts 0 demo_upf 0 demo_establishment =
     Some (u', xs', STATUS_OK, [m])"
proof -
  obtain pdr where pdr: "ConvertCreatePDRTlvToRule zero_pdr demo_create = Some pdr" "\<not> pdrf_qerId (pdr_flags pdr)"
    by (rule demo_converts)
  have "UpfN4HandleCreatePdr (demo_envs 4) (null_qers 4) 0 demo_create \<noteq> None"
    by (rule create_pdr_returns) (use pdr in \<open>simp_all add: demo_create_def\<close>)
  then obtain v st where c: "UpfN4HandleCreatePdr (demo_envs 4) (null_qers 4) 0 demo_create = Some (v, st)" by fastforce
  define cause where "cause = (if st = STATUS_OK then PFCP_CAUSE_REQUEST_ACCEPTED else PFCP_CAUSE_REQUEST_REJECTED)"
  have "[0..<4] = [0, Suc 0, 2, 3]" by (simp add: upt_rec)
  then have steps: "establishment_steps demo_establishment = [Share_QER, Share_QER, Share_QER, Share_QER, Rule (Create_PDR demo_create)]"
    by (simp add: establishment_steps_def demo_establishment_def) (simp add: demo_create_def)
  have four: "4 = Suc (Suc (Suc (Suc 0)))" by simp
  have "run_establishment demo_envs 0 (establishment_steps demo_establishment) 0 PFCP_CAUSE_REQUEST_ACCEPTED (null_qers 0) = Some (v, Some cause)"
    unfolding steps run_establishment.simps est_step.case share_null_qer bind.bind_lunit prod.case if_True n4_exec_def n4_call.case
    using c unfolding four by (simp add: cause_def)
  then have run: "run_establishment demo_envs 0 (establishment_steps demo_establishment) 0 PFCP_CAUSE_REQUEST_ACCEPTED demo_upf = Some (v, Some cause)"
    by (simp only: null_qers_0)
  define w where "w = set_session v 0 (Some ((the_session v 0)
      \<lparr>s_smfSeid := be64toh (oct_word 8 (tlv_value (er_cPFSEID demo_establishment)) 1)\<rparr>))"
  obtain b where b: "PfcpBuildMessage 51 (UpfN4BuildSessionEstablishmentResponse demo_tx (the_session w 0) cause) = Some b"
      "length (bb_bytes b) \<le> 32752"
    using demo_establishment_response by blast
  obtain xs' m where "commit_response True demo_xacts 0 51 (s_smfSeid (the_session w 0)) (bb_bytes b) = Some (xs', STATUS_OK, [m])"
    using commit_response_sends [OF demo_received _ b(2), of 51] by (auto simp: PfcpXactGetStage_def)
  then have "send_response demo_tx demo_xacts 0 51 (s_smfSeid (the_session w 0))
      (UpfN4BuildSessionEstablishmentResponse demo_tx (the_session w 0) cause) = Some (xs', STATUS_OK, [m])"
    using b(1) by (simp add: send_response_def) (simp add: demo_tx_def)
  moreover have "present (er_cPFSEID demo_establishment)" by (simp add: demo_establishment_def)
  ultimately have "UpfN4HandleSessionEstablishmentRequest demo_envs demo_tx demo_xacts 0 demo_upf 0 demo_establishment =
      Some (w, xs', STATUS_OK, [m])"
    using run by (simp add: UpfN4HandleSessionEstablishmentRequest_def Let_def w_def [symmetric, simplified])
  then show ?thesis by blast
qed

theorem pfcp_messages_keep_rules_consistent_witness:
  "(\<exists>u' xs' m. UpfN4HandleSessionEstablishmentRequest demo_envs demo_tx demo_xacts 0 demo_upf 0 demo_establishment =
       Some (u', xs', STATUS_OK, [m]) \<and> rules_ok u' \<and> in_sync (demo_envs 0) u') \<and>
   (\<exists>u' xs' m. UpfN4HandleSessionModificationRequest demo_envs demo_tx demo_xacts 0 demo_upf 0 demo_modification =
       Some (u', xs', STATUS_OK, [m]) \<and> rules_ok u' \<and> in_sync (demo_envs 0) u')"
proof -
  have e: "demo_envs 0 = demo_env" by (simp add: demo_envs_def demo_env_def)
  obtain u' where c: "UpfN4HandleCreatePdr demo_env demo_upf 0 demo_create = Some (u', STATUS_OK)" using demo_create_ok by blast
  obtain b where b: "PfcpBuildMessage 53 UpfN4BuildSessionModificationResponse = Some b" "bb_bytes b = [0, 19, 0, 1, 1]"
    using modification_response_octets by blast
  obtain xs' m where "commit_response True demo_xacts 0 53 (s_smfSeid (the_session u' 0)) [0, 19, 0, 1, 1] = Some (xs', STATUS_OK, [m])"
    using commit_response_sends [OF demo_received final_stages(1), of "[0, 19, 0, 1, 1]", unfolded cause_length] by auto
  then have run: "UpfN4HandleSessionModificationRequest demo_envs demo_tx demo_xacts 0 demo_upf 0 demo_modification = Some (u', xs', STATUS_OK, [m])"
    using e b c by (simp add: UpfN4HandleSessionModificationRequest_def demo_modification_def modification_calls_def no_qer_def
        n4_exec_def send_response_def demo_tx_def demo_create_def)
  have "0 < sessions demo_upf" "s_pdr_list (the_session demo_upf 0) \<noteq> None" "in_sync (demo_envs 0) demo_upf"
    using e demo_ok(2) by (simp_all only: demo_session, simp_all)
  note P = pfcp_messages_keep_rules_consistent [OF demo_ok(1) this(3,1,2) demo_envs_ok, of demo_tx demo_xacts 0]
  obtain v ys k where est: "UpfN4HandleSessionEstablishmentRequest demo_envs demo_tx demo_xacts 0 demo_upf 0 demo_establishment =
      Some (v, ys, STATUS_OK, [k])" using demo_establishment_runs by blast
  have "rules_ok v \<and> in_sync (demo_envs 0) v" using conjunct1 [OF P] est by blast
  moreover have "rules_ok u' \<and> in_sync (demo_envs 0) u'" using conjunct2 [OF P] run by blast
  ultimately show ?thesis using est run by blast
qed

theorem session_deletion_complete_witness:
  "\<exists>u' xs' m. UpfN4HandleSessionDeletionRequest demo_env demo_tx demo_xacts 0 (demo_upf \<lparr>u_store := one_store\<rparr>) 0 = Some (u', xs', STATUS_OK, [m]) \<and>
     UpfSessionFindBySeid example_lib (u_store u') 5 = None"
proof -
  let ?u = "demo_upf \<lparr>u_store := one_store\<rparr>"
  have s: "s_worker_service_id (session_data one_store ! 0) = 10" by (simp add: one_store_slot one_session_def)
  have l: "n_lib demo_env = example_lib" "n_send demo_env = good_env" by (simp_all add: demo_env_def)
  obtain u' xs' m where u': "UpfN4HandleSessionDeletionRequest demo_env demo_tx demo_xacts 0 ?u 0 = Some (u', xs', STATUS_OK, [m])"
      "store_inv example_lib example_view (u_store u')" "live_sessions example_view (u_store u') = {}"
    using session_deletion_complete [of demo_env example_view ?u 0 demo_xacts 0 demo_tx 0 0 0] example_laws one_store_inv s demo_received
    by (force simp: l one_store_live demo_tx_def good_env_def)
  have "UpfSessionFindBySeid example_lib (u_store u') 5 \<noteq> Some q" for q
    using session_lookups [OF example_laws u'(2), of 5 q] u'(3) by simp
  then show ?thesis using u'(1) by (meson not_Some_eq)
qed

theorem downlink_report_sent_once_witness:
  "\<exists>u' xs' m. session_report example_lib demo_tx PfcpXactInit (demo_upf \<lparr>u_store := one_store\<rparr>) 5 7 = Some (u', xs', [m]) \<and>
     s_srr_flag (the_session u' 0)"
proof -
  let ?u = "demo_upf \<lparr>u_store := one_store\<rparr>"
  have "UpfSessionFindBySeid example_lib (u_store ?u) 5 = Some 0" "0 < sessions ?u" "\<not> s_srr_flag (the_session ?u 0)"
    using session_lookups [OF example_laws one_store_inv, of 5 0]
    by (simp_all add: one_store_live one_store_slot) (simp_all add: one_store_def one_session_def zero_session_def)
  moreover have "xp_avail PfcpXactInit = 0 # [1..<64]" by (simp add: PfcpXactInit_def upt_rec)
  moreover have "tx_send demo_tx" by (simp add: demo_tx_def)
  ultimately show ?thesis using downlink_report_sent_once by blast
qed

end
