(* ===== verification/Upf_Lb.thy ===== *)
theory Upf_Lb
  imports Packet_Handler
begin

text \<open>
  The load balancer of \<^verbatim>\<open>5gc/upf_lb/upf_lb.c\<close>: the network function that receives the packets of
  the access and the core side and hands each one to a UPF-U worker. Uplink packets are GTP-U
  packets for the access address and belong to the session with their TEID; any other IPv4 packet
  is a downlink packet and belongs to the session with its destination address. The worker of a
  session is stored in the session, which lies in memory shared with the control plane and the
  workers. ARP requests for the local addresses are answered here, other ARP packets are copied to
  all workers.

  The mbuf pool, the MAC addresses and the allocation of packets are those of \<open>arp_env\<close>; the
  result of the \<open>i\<close>-th \<^verbatim>\<open>rte_pktmbuf_clone\<close> is the parameter \<open>clone i\<close>, a packet and its metadata.
\<close>

subsection \<open>Data\<close>

record upf_lb_stats_t =
  non_ipv4_drop :: u64
  malformed_gtpu_drop :: u64
  ul_worker_miss_drop :: u64
  dl_session_miss_drop :: u64
  worker_packets :: "u64 list"

record upf_lb_config =
  g_upf_lb_access_ip_be :: u32
  g_upf_lb_core_ip_be :: u32
  g_upf_lb_bench_drop :: bool

record lb_env =
  lb_arp_env :: arp_env
  lb_clone :: "nat \<Rightarrow> (rte_mbuf \<times> onvm_pkt_meta) option"

text \<open>\<open>lb_sent\<close> are the packets handed to \<^verbatim>\<open>onvm_nflib_return_pkt\<close>, oldest first.\<close>

record ('s, 'm, 'r) upf_lb =
  g_upf_lb_stats :: upf_lb_stats_t
  g_pktmbuf_pool :: bool
  lb_store :: "('s, 'm, 'r) session_store"
  lb_sent :: "(rte_mbuf \<times> onvm_pkt_meta) list"

subsection \<open>ARP\<close>

definition is_local_dataplane_ip :: "upf_lb_config \<Rightarrow> u32 \<Rightarrow> bool" where
  "is_local_dataplane_ip cfg ip_be \<longleftrightarrow>
     ip_be = g_upf_lb_access_ip_be cfg \<or> (g_upf_lb_core_ip_be cfg \<noteq> 0 \<and> ip_be = g_upf_lb_core_ip_be cfg)"

definition ensure_pktmbuf_pool :: "lb_env \<Rightarrow> ('s, 'm, 'r) upf_lb \<Rightarrow> ('s, 'm, 'r) upf_lb" where
  "ensure_pktmbuf_pool env lb =
     (if g_pktmbuf_pool lb then lb else lb \<lparr>g_pktmbuf_pool := env_pool_lookup (lb_arp_env env)\<rparr>)"

definition lb_send_arp_reply ::
  "upf_lb_config \<Rightarrow> lb_env \<Rightarrow> ('s, 'm, 'r) upf_lb \<Rightarrow> rte_mbuf \<Rightarrow> onvm_pkt_meta \<Rightarrow> bool \<Rightarrow>
     ('s, 'm, 'r) upf_lb \<times> onvm_pkt_meta" where
  "lb_send_arp_reply cfg env lb pkt meta has_nf =
     (let dropped = meta \<lparr>m_action := ONVM_NF_ACTION_DROP\<rparr> in
      if \<not> has_nf then (lb, dropped)
      else if unat (mb_pkt_len pkt) < ETHER_HDR + ARP_HDR then (lb, dropped)
      else if rte_be_to_cpu_16 (arp_hardware pkt) \<noteq> RTE_ARP_HRD_ETHER \<or>
              rte_be_to_cpu_16 (arp_protocol pkt) \<noteq> RTE_ETHER_TYPE_IPV4 \<or>
              arp_hlen pkt \<noteq> 6 \<or> arp_plen pkt \<noteq> 4 then (lb, dropped)
      else if rte_be_to_cpu_16 (arp_opcode pkt) \<noteq> RTE_ARP_OP_REQUEST \<or>
              \<not> is_local_dataplane_ip cfg (arp_tip pkt) then (lb, dropped)
      else
        let lb = ensure_pktmbuf_pool env lb in
        if \<not> g_pktmbuf_pool lb then (lb, dropped)
        else case env_macaddr_get (lb_arp_env env) (mb_port pkt) of
               None \<Rightarrow> (lb, dropped)
             | Some local_mac \<Rightarrow>
                 (case env_alloc (lb_arp_env env) of
                    None \<Rightarrow> (lb, dropped)
                  | Some reply \<Rightarrow>
                      (case rte_pktmbuf_append reply 42 of
                         None \<Rightarrow> (lb, dropped)
                       | Some reply \<Rightarrow>
                           (let reply = fill_arp local_mac (arp_sha pkt) RTE_ARP_OP_REPLY
                                          local_mac (arp_tip pkt) (arp_sha pkt) (arp_sip pkt) reply;
                                reply_meta = (env_meta (lb_arp_env env))
                                  \<lparr>m_destination := mb_port pkt, m_action := ONVM_NF_ACTION_OUT\<rparr>
                            in (lb \<lparr>lb_sent := lb_sent lb @ [(reply, reply_meta)]\<rparr>, dropped)))))"

definition worker_index_for_service :: "worker_config \<Rightarrow> u16 \<Rightarrow> nat option" where
  "worker_index_for_service w service_id =
     find (\<lambda>i. UpfWorkerServiceIdAt w (of_nat i) = service_id) [0..<unat (UpfWorkerCount w)]"

definition count_worker_packet :: "nat option \<Rightarrow> ('s, 'm, 'r) upf_lb \<Rightarrow> ('s, 'm, 'r) upf_lb" where
  "count_worker_packet worker_index lb =
     (case worker_index of
        None \<Rightarrow> lb
      | Some i \<Rightarrow>
          lb \<lparr>g_upf_lb_stats := (g_upf_lb_stats lb)
                \<lparr>worker_packets := (worker_packets (g_upf_lb_stats lb))
                   [i := worker_packets (g_upf_lb_stats lb) ! i + 1]\<rparr>\<rparr>)"

definition forward_arp_copy :: "lb_env \<Rightarrow> nat \<Rightarrow> ('s, 'm, 'r) upf_lb \<Rightarrow> ('s, 'm, 'r) upf_lb" where
  "forward_arp_copy env i lb =
     (let w = worker_cfg (lb_store lb); worker_service_id = UpfWorkerServiceIdAt w (of_nat i) in
      if worker_service_id = UPF_INVALID_SERVICE_ID \<or> \<not> g_pktmbuf_pool lb then lb
      else case lb_clone env i of
             None \<Rightarrow> lb
           | Some (copy, clone_meta) \<Rightarrow>
               (let clone_meta = clone_meta
                      \<lparr>m_action := ONVM_NF_ACTION_TONF, m_destination := worker_service_id\<rparr>;
                    lb = count_worker_packet (worker_index_for_service w worker_service_id) lb
                in lb \<lparr>lb_sent := lb_sent lb @ [(copy, clone_meta)]\<rparr>))"

definition forward_arp_to_workers ::
  "lb_env \<Rightarrow> ('s, 'm, 'r) upf_lb \<Rightarrow> onvm_pkt_meta \<Rightarrow> bool \<Rightarrow> ('s, 'm, 'r) upf_lb \<times> onvm_pkt_meta" where
  "forward_arp_to_workers env lb meta has_nf =
     (let worker_count = UpfWorkerCount (worker_cfg (lb_store lb)) in
      if \<not> has_nf \<or> worker_count = 0 then (lb, meta \<lparr>m_action := ONVM_NF_ACTION_DROP\<rparr>)
      else
        let lb = fold (forward_arp_copy env) [1..<unat worker_count] (ensure_pktmbuf_pool env lb);
            w = worker_cfg (lb_store lb);
            first_worker_service_id = UpfWorkerServiceIdAt w 0;
            lb = count_worker_packet (worker_index_for_service w first_worker_service_id) lb
        in (lb, meta \<lparr>m_action := ONVM_NF_ACTION_TONF, m_destination := first_worker_service_id\<rparr>))"

subsection \<open>The worker of a packet\<close>

definition select_ul_worker ::
  "('s, 'm, 'r) store_lib \<Rightarrow> ('s, 'm, 'r) session_store \<Rightarrow> gtp_parse_result_t \<Rightarrow>
     ('s, 'm, 'r) session_store \<times> u16" where
  "select_ul_worker L st gtp_info =
     (case UpfSessionFindByTeidHost L st (gtp_teid gtp_info) of
        Some p \<Rightarrow> UpfSessionEnsureWorkerServiceId st (Some p) (gtp_teid gtp_info)
      | None \<Rightarrow> (st, UpfSelectWorkerServiceIdByTeid (worker_cfg st) (gtp_teid gtp_info)))"

definition select_dl_worker ::
  "('s, 'm, 'r) store_lib \<Rightarrow> ('s, 'm, 'r) session_store \<Rightarrow> u32 \<Rightarrow> ('s, 'm, 'r) session_store \<times> u16" where
  "select_dl_worker L st dst_addr =
     (case UpfSessionFindByUeIP L st dst_addr of
        None \<Rightarrow> (st, UPF_INVALID_SERVICE_ID)
      | Some p \<Rightarrow> UpfSessionEnsureWorkerServiceId st (Some p) (rte_be_to_cpu_32 (s_teid (session_data st ! p))))"

definition lb_drop ::
  "(upf_lb_stats_t \<Rightarrow> upf_lb_stats_t) \<Rightarrow> ('s, 'm, 'r) upf_lb \<Rightarrow> ('s, 'm, 'r) upf_lb" where
  "lb_drop inc lb = lb \<lparr>g_upf_lb_stats := inc (g_upf_lb_stats lb)\<rparr>"

abbreviation (input) count_non_ipv4 :: "upf_lb_stats_t \<Rightarrow> upf_lb_stats_t" where
  "count_non_ipv4 s \<equiv> s \<lparr>non_ipv4_drop := non_ipv4_drop s + 1\<rparr>"

abbreviation (input) count_malformed :: "upf_lb_stats_t \<Rightarrow> upf_lb_stats_t" where
  "count_malformed s \<equiv> s \<lparr>malformed_gtpu_drop := malformed_gtpu_drop s + 1\<rparr>"

abbreviation (input) count_ul_miss :: "upf_lb_stats_t \<Rightarrow> upf_lb_stats_t" where
  "count_ul_miss s \<equiv> s \<lparr>ul_worker_miss_drop := ul_worker_miss_drop s + 1\<rparr>"

abbreviation (input) count_dl_miss :: "upf_lb_stats_t \<Rightarrow> upf_lb_stats_t" where
  "count_dl_miss s \<equiv> s \<lparr>dl_session_miss_drop := dl_session_miss_drop s + 1\<rparr>"

text \<open>The last part of the handler, for the worker that was chosen.\<close>

definition deliver_to_worker ::
  "upf_lb_config \<Rightarrow> u16 \<Rightarrow> ('s, 'm, 'r) upf_lb \<Rightarrow> onvm_pkt_meta \<Rightarrow> ('s, 'm, 'r) upf_lb \<times> onvm_pkt_meta" where
  "deliver_to_worker cfg owner_service_id lb meta =
     (case worker_index_for_service (worker_cfg (lb_store lb)) owner_service_id of
        None \<Rightarrow> (lb_drop count_ul_miss lb, meta)
      | Some i \<Rightarrow>
          (let lb = count_worker_packet (Some i) lb in
           if g_upf_lb_bench_drop cfg then (lb, meta \<lparr>m_action := ONVM_NF_ACTION_DROP\<rparr>)
           else (lb, meta \<lparr>m_action := ONVM_NF_ACTION_TONF, m_destination := owner_service_id\<rparr>)))"

definition lb_packet_handler ::
  "upf_lb_config \<Rightarrow> ('s, 'm, 'r) store_lib \<Rightarrow> lb_env \<Rightarrow> ('s, 'm, 'r) upf_lb \<Rightarrow> rte_mbuf option \<Rightarrow>
     onvm_pkt_meta \<Rightarrow> bool \<Rightarrow> ('s, 'm, 'r) upf_lb \<times> onvm_pkt_meta" where
  "lb_packet_handler cfg L env lb pkt_ptr meta has_nf =
     (let meta = meta \<lparr>m_action := ONVM_NF_ACTION_DROP\<rparr> in
      case pkt_ptr of
        None \<Rightarrow> (lb_drop count_non_ipv4 lb, meta)
      | Some pkt \<Rightarrow>
          if rte_be_to_cpu_16 (ether_type pkt) = RTE_ETHER_TYPE_ARP then
            (if unat (mb_pkt_len pkt) \<ge> ETHER_HDR + ARP_HDR \<and>
                rte_be_to_cpu_16 (arp_opcode pkt) = RTE_ARP_OP_REQUEST \<and>
                is_local_dataplane_ip cfg (arp_tip pkt)
             then lb_send_arp_reply cfg env lb pkt meta has_nf
             else forward_arp_to_workers env lb meta has_nf)
          else if rte_be_to_cpu_16 (ether_type pkt) \<noteq> RTE_ETHER_TYPE_IPV4
          then (lb_drop count_non_ipv4 lb, meta)
          else
            (case onvm_pkt_ipv4_hdr pkt of
               None \<Rightarrow> (lb_drop count_non_ipv4 lb, meta)
             | Some iph \<Rightarrow>
                 if ip_dst_addr pkt iph = g_upf_lb_access_ip_be cfg then
                   (case parse_gtpu_once pkt of
                      None \<Rightarrow> (lb_drop count_malformed lb, meta)
                    | Some gtp_info \<Rightarrow>
                        if \<not> gtp_valid gtp_info then (lb_drop count_malformed lb, meta)
                        else
                          let (st, owner) = select_ul_worker L (lb_store lb) gtp_info;
                              lb = lb \<lparr>lb_store := st\<rparr>
                          in if owner = UPF_INVALID_SERVICE_ID then (lb_drop count_ul_miss lb, meta)
                             else deliver_to_worker cfg owner lb meta)
                 else
                   let (st, owner) = select_dl_worker L (lb_store lb) (ip_dst_addr pkt iph);
                       lb = lb \<lparr>lb_store := st\<rparr>
                   in if owner = UPF_INVALID_SERVICE_ID then (lb_drop count_dl_miss lb, meta)
                      else deliver_to_worker cfg owner lb meta))"

subsection \<open>Runs of the load balancer\<close>

text \<open>The session an IPv4 packet belongs to.\<close>

definition packet_session ::
  "upf_lb_config \<Rightarrow> ('s, 'm, 'r) store_lib \<Rightarrow> ('s, 'm, 'r) session_store \<Rightarrow> rte_mbuf option \<Rightarrow> nat option" where
  "packet_session cfg L st pkt_ptr =
     (case pkt_ptr of
        None \<Rightarrow> None
      | Some pkt \<Rightarrow>
          if rte_be_to_cpu_16 (ether_type pkt) \<noteq> RTE_ETHER_TYPE_IPV4 \<or> onvm_pkt_ipv4_hdr pkt = None then None
          else if ip_dst_addr pkt ETHER_HDR = g_upf_lb_access_ip_be cfg
          then (case parse_gtpu_once pkt of
                  None \<Rightarrow> None | Some gtp_info \<Rightarrow> UpfSessionFindByTeidHost L st (gtp_teid gtp_info))
          else UpfSessionFindByUeIP L st (ip_dst_addr pkt ETHER_HDR))"

text \<open>The packets of a run, each with the environment of its call, its metadata and whether there is a context.\<close>

type_synonym lb_input = "lb_env \<times> rte_mbuf option \<times> onvm_pkt_meta \<times> bool"

abbreviation input_pkt :: "lb_input \<Rightarrow> rte_mbuf option" where
  "input_pkt x \<equiv> fst (snd x)"

definition lb_step ::
  "upf_lb_config \<Rightarrow> ('s, 'm, 'r) store_lib \<Rightarrow> lb_input \<Rightarrow> ('s, 'm, 'r) upf_lb \<Rightarrow>
     ('s, 'm, 'r) upf_lb \<times> onvm_pkt_meta" where
  "lb_step cfg L x lb = (case x of (env, pkt, meta, has_nf) \<Rightarrow> lb_packet_handler cfg L env lb pkt meta has_nf)"

primrec run_steps :: "('x \<Rightarrow> 's \<Rightarrow> 's \<times> 'o) \<Rightarrow> 'x list \<Rightarrow> 's \<Rightarrow> 's \<times> 'o list" where
  "run_steps step [] s = (s, [])"
| "run_steps step (x # xs) s =
     (let (s, out) = step x s; (s, outs) = run_steps step xs s in (s, out # outs))"

abbreviation lb_run ::
  "upf_lb_config \<Rightarrow> ('s, 'm, 'r) store_lib \<Rightarrow> lb_input list \<Rightarrow> ('s, 'm, 'r) upf_lb \<Rightarrow>
     ('s, 'm, 'r) upf_lb \<times> onvm_pkt_meta list" where
  "lb_run cfg L \<equiv> run_steps (lb_step cfg L)"

abbreviation worker_of :: "('s, 'm, 'r) upf_lb \<Rightarrow> nat \<Rightarrow> u16" where
  "worker_of lb p \<equiv> s_worker_service_id (session_data (lb_store lb) ! p)"

subsection \<open>Sticky assignment\<close>

text \<open>
  The contract between a dispatcher and the inputs of one client. The client may have an owner;
  a step never changes an owner, and an input of the client is served by its owner, who is chosen
  among the targets when there is none yet. Then all inputs of the client in a run are served by one target.
\<close>

locale sticky_assignment =
  fixes step :: "'x \<Rightarrow> 's \<Rightarrow> 's \<times> 'o"
    and mine :: "'s \<Rightarrow> 'x \<Rightarrow> bool"
    and served_by :: "'o \<Rightarrow> 'd \<Rightarrow> bool"
    and owner :: "'s \<Rightarrow> 'd"
    and targets :: "'s \<Rightarrow> 'd set"
    and nobody :: 'd
    and good :: "'s \<Rightarrow> bool"
  assumes good_step: "good s \<Longrightarrow> good (fst (step x s))"
    and mine_step: "good s \<Longrightarrow> mine (fst (step x s)) y = mine s y"
    and targets_step: "good s \<Longrightarrow> targets (fst (step x s)) = targets s"
    and owner_kept: "good s \<Longrightarrow> owner s \<noteq> nobody \<Longrightarrow> owner (fst (step x s)) = owner s"
    and served: "good s \<Longrightarrow> mine s x \<Longrightarrow> served_by (snd (step x s)) (owner (fst (step x s)))"
    and owner_target: "good s \<Longrightarrow> mine s x \<Longrightarrow> owner (fst (step x s)) \<in> targets s"
    and nobody_no_target: "good s \<Longrightarrow> nobody \<notin> targets s"
    and some_target: "good s \<Longrightarrow> targets s \<noteq> {}"
begin

lemma run_cases:
  assumes "run_steps step (x # xs) s = (s', outs)"
  obtains outs' where "run_steps step xs (fst (step x s)) = (s', outs')" "outs = snd (step x s) # outs'"
  using assms that [of "snd (run_steps step xs (fst (step x s)))"] by (auto simp: Let_def split_beta)

lemma run_keeps_owner:
  assumes "good s" "owner s \<noteq> nobody" "run_steps step xs s = (s', outs)"
  shows "owner s' = owner s \<and> (\<forall>i < length xs. mine s (xs ! i) \<longrightarrow> served_by (outs ! i) (owner s))"
  using assms
proof (induction xs arbitrary: s outs)
  case (Cons x xs)
  obtain outs' where r: "run_steps step xs (fst (step x s)) = (s', outs')" "outs = snd (step x s) # outs'"
    using run_cases [OF Cons.prems(3)] .
  note w = owner_kept [OF Cons.prems(1,2), of x]
  have "owner (fst (step x s)) \<noteq> nobody" using w Cons.prems(2) by simp
  from Cons.IH [OF good_step [OF Cons.prems(1)] this r(1)] show ?case
    using served [OF Cons.prems(1), of x] mine_step [OF Cons.prems(1)] w
    by (auto simp: r(2) less_Suc_eq_0_disj)
qed simp

lemma run_one_owner:
  assumes "good s" "run_steps step xs s = (s', outs)"
  shows "\<exists>d \<in> targets s. \<forall>i < length xs. mine s (xs ! i) \<longrightarrow> served_by (outs ! i) d \<and> owner s' = d"
  using assms
proof (induction xs arbitrary: s outs)
  case Nil
  then show ?case using some_target by auto
next
  case (Cons x xs)
  obtain outs' where r: "run_steps step xs (fst (step x s)) = (s', outs')" "outs = snd (step x s) # outs'"
    using run_cases [OF Cons.prems(2)] .
  note g = good_step [OF Cons.prems(1), of x] and m = mine_step [OF Cons.prems(1)]
  show ?case
  proof (cases "mine s x")
    case True
    note t = owner_target [OF Cons.prems(1) True]
    have "owner (fst (step x s)) \<noteq> nobody" using t nobody_no_target [OF Cons.prems(1)] by metis
    from run_keeps_owner [OF g this r(1)] show ?thesis
      using served [OF Cons.prems(1) True] m by (intro bexI [OF _ t]) (auto simp: r(2) less_Suc_eq_0_disj)
  next
    case False
    obtain d where "d \<in> targets s"
        "\<forall>i < length xs. mine s (xs ! i) \<longrightarrow> served_by (outs' ! i) d \<and> owner s' = d"
      using Cons.IH [OF g r(1)] m targets_step [OF Cons.prems(1), of x] by auto
    then show ?thesis using False by (intro bexI [of _ d]) (auto simp: r(2) less_Suc_eq_0_disj)
  qed
qed

end

subsection \<open>What a packet changes\<close>

text \<open>The indices and the registry stay; a session without a worker may get a configured one.\<close>

definition assigns :: "('s, 'm, 'r) session_store \<Rightarrow> ('s, 'm, 'r) session_store \<Rightarrow> bool" where
  "assigns st st' \<longleftrightarrow> teid_hash st' = teid_hash st \<and> ueip_hash st' = ueip_hash st \<and>
     worker_cfg st' = worker_cfg st \<and> length (session_data st') = length (session_data st) \<and>
     (\<forall>p. let old = s_worker_service_id (session_data st ! p); new = s_worker_service_id (session_data st' ! p)
          in new = old \<or> old = UPF_INVALID_SERVICE_ID \<and> new \<in> set (workers (worker_cfg st)))"

lemma assigns_refl [simp]: "assigns st st"
  by (simp add: assigns_def)

lemma worker_index_iff:
  assumes "worker_inv w"
  shows "worker_index_for_service w sid = None \<longleftrightarrow> sid \<notin> set (workers w)"
proof -
  have "UpfWorkerServiceIdAt w (of_nat i) = workers w ! i" if "i < unat (g_upf_worker_count w)" for i
  proof -
    have "unat (of_nat i :: u16) = i"
      using that assms by (simp add: unat_of_nat worker_inv_def)
    then show ?thesis
      using that worker_nth [OF assms that] by (simp add: UpfWorkerServiceIdAt_def word_le_nat_alt)
  qed
  then show ?thesis
    using length_workers [OF assms]
    by (auto simp: worker_index_for_service_def UpfWorkerCount_def find_None_iff in_set_conv_nth)
qed

lemma select_in_workers:
  assumes "worker_inv w" "g_upf_worker_count w \<noteq> 0"
  shows "UpfSelectWorkerServiceIdByTeid w teid \<in> set (workers w)"
proof -
  have "unat (UpfMixTeid teid) mod unat (g_upf_worker_count w) < unat (g_upf_worker_count w)"
    using assms(2) by (simp add: unat_gt_0)
  then show ?thesis
    using assms(2) worker_nth [OF assms(1)] length_workers [OF assms(1)]
    by (simp add: UpfSelectWorkerServiceIdByTeid_def)
qed

lemma update_nth: "xs[p := v] ! q = (if q = p \<and> p < length xs then v else xs ! q)"
  by (cases "p < length xs") (auto simp: list_update_beyond)

lemma ensure_assigns:
  assumes "worker_inv (worker_cfg st)" "UpfSessionEnsureWorkerServiceId st (Some p) teid = (st', sid)"
  shows "assigns st st'"
proof (cases "g_upf_worker_count (worker_cfg st) = 0")
  case True
  then have "st' = st" using assms(2)
    by (auto simp: UpfSessionEnsureWorkerServiceId_def UpfSelectWorkerServiceIdByTeid_def split: if_splits)
  then show ?thesis by simp
next
  case False
  then show ?thesis
    using assms select_in_workers [OF assms(1) False, of teid]
    by (auto simp: UpfSessionEnsureWorkerServiceId_def assigns_def upd_session_def Let_def update_nth
        split: if_splits)
qed

lemma ensure_worker:
  assumes "worker_inv (worker_cfg st)" "g_upf_worker_count (worker_cfg st) \<noteq> 0" "p < length (session_data st)"
    "s_worker_service_id (session_data st ! p) \<in> insert UPF_INVALID_SERVICE_ID (set (workers (worker_cfg st)))"
    "UpfSessionEnsureWorkerServiceId st (Some p) teid = (st', sid)"
  shows "s_worker_service_id (session_data st' ! p) = sid \<and> sid \<in> set (workers (worker_cfg st)) \<and>
    sid \<noteq> UPF_INVALID_SERVICE_ID"
  using assms select_in_workers [OF assms(1,2), of teid]
  by (auto simp: UpfSessionEnsureWorkerServiceId_def upd_session_def worker_inv_def Let_def split: if_splits)

lemma select_assigns:
  assumes "worker_inv (worker_cfg st)"
  shows "assigns st (fst (select_ul_worker L st g)) \<and> assigns st (fst (select_dl_worker L st ip))"
  using ensure_assigns [OF assms]
  by (auto simp: select_ul_worker_def select_dl_worker_def split: option.split) (metis prod.collapse)+

lemma counted_store [simp]:
  "lb_store (count_worker_packet i lb) = lb_store lb" "lb_store (lb_drop inc lb) = lb_store lb"
  "lb_store (ensure_pktmbuf_pool env lb) = lb_store lb" "lb_store (forward_arp_copy env k lb) = lb_store lb"
  by (auto simp: count_worker_packet_def lb_drop_def ensure_pktmbuf_pool_def forward_arp_copy_def Let_def
      split: option.split prod.split)

lemma arp_copies_store [simp]: "lb_store (fold (forward_arp_copy env) ks lb) = lb_store lb"
  by (induction ks arbitrary: lb) simp_all

lemma arp_store [simp]:
  "lb_store (fst (lb_send_arp_reply cfg env lb pkt meta has_nf)) = lb_store lb"
  "lb_store (fst (forward_arp_to_workers env lb meta has_nf)) = lb_store lb"
  by (auto simp: lb_send_arp_reply_def forward_arp_to_workers_def Let_def split: option.split)

lemma deliver_store [simp]: "lb_store (fst (deliver_to_worker cfg owner lb meta)) = lb_store lb"
  by (auto simp: deliver_to_worker_def Let_def split: option.split)

lemma step_assigns:
  assumes "worker_inv (worker_cfg (lb_store lb))"
  shows "assigns (lb_store lb) (lb_store (fst (lb_step cfg L x lb)))"
  using select_assigns [OF assms]
  by (auto simp: lb_step_def lb_packet_handler_def Let_def split_beta split: option.split prod.split)

lemma assigns_session:
  assumes "assigns st st'"
  shows "packet_session cfg L st' pkt = packet_session cfg L st pkt"
proof -
  have "UpfSessionFindByTeidHost L st' = UpfSessionFindByTeidHost L st"
    "UpfSessionFindByUeIP L st' = UpfSessionFindByUeIP L st"
    using assms by (simp_all add: assigns_def fun_eq_iff UpfSessionFindByTeidHost_def
        UpfSessionFindByTeid_def UpfSessionFindByUeIP_def)
  then show ?thesis by (simp add: packet_session_def split: option.split)
qed

lemma assigned_worker_kept:
  "assigns (lb_store lb) (lb_store lb') \<Longrightarrow> worker_of lb p \<noteq> UPF_INVALID_SERVICE_ID \<Longrightarrow>
     worker_of lb' p = worker_of lb p"
  by (auto simp: assigns_def Let_def)

text \<open>A balancer that can serve the session in slot \<open>p\<close>: it has no worker yet, or a configured one.\<close>

definition serves :: "upf_lb_config \<Rightarrow> ('s, 'm, 'r) upf_lb \<Rightarrow> nat \<Rightarrow> bool" where
  "serves cfg lb p \<longleftrightarrow> worker_inv (worker_cfg (lb_store lb)) \<and> UpfWorkerCount (worker_cfg (lb_store lb)) \<noteq> 0 \<and>
     \<not> g_upf_lb_bench_drop cfg \<and> p < length (session_data (lb_store lb)) \<and>
     worker_of lb p \<in> insert UPF_INVALID_SERVICE_ID (set (workers (worker_cfg (lb_store lb))))"

lemma serves_step:
  assumes "serves cfg lb p"
  shows "serves cfg (fst (lb_step cfg L x lb)) p"
proof -
  have a: "assigns (lb_store lb) (lb_store (fst (lb_step cfg L x lb)))"
    using assms step_assigns [of lb cfg L x] by (simp add: serves_def)
  then have "worker_of (fst (lb_step cfg L x lb)) p = worker_of lb p \<or>
      worker_of (fst (lb_step cfg L x lb)) p \<in> set (workers (worker_cfg (lb_store lb)))"
    by (auto simp: assigns_def Let_def)
  with a show ?thesis using assms by (auto simp: serves_def assigns_def)
qed

lemma deliver_result:
  assumes "worker_inv (worker_cfg (lb_store lb))" "\<not> g_upf_lb_bench_drop cfg"
    "sid \<in> set (workers (worker_cfg (lb_store lb)))"
  shows "m_action (snd (deliver_to_worker cfg sid lb meta)) = ONVM_NF_ACTION_TONF \<and>
    m_destination (snd (deliver_to_worker cfg sid lb meta)) = sid"
  using assms worker_index_iff [OF assms(1), of sid]
  by (auto simp: deliver_to_worker_def Let_def split: option.split)

lemma parsed_valid: "parse_gtpu_once m = Some r \<Longrightarrow> gtp_valid r"
  by (auto simp: parse_gtpu_once_def Let_def split: if_splits)

lemma step_delivers:
  assumes "serves cfg lb p" "packet_session cfg L (lb_store lb) (input_pkt x) = Some p"
  defines "r \<equiv> lb_step cfg L x lb"
  shows "m_action (snd r) = ONVM_NF_ACTION_TONF \<and> m_destination (snd r) = worker_of (fst r) p \<and>
    worker_of (fst r) p \<in> set (workers (worker_cfg (lb_store lb)))"
proof -
  obtain env pkt meta nf where x: "x = (env, Some pkt, meta, nf)"
    using assms(2) by (cases x) (auto simp: packet_session_def split: option.splits)
  have s: "worker_inv (worker_cfg (lb_store lb))" "g_upf_worker_count (worker_cfg (lb_store lb)) \<noteq> 0"
    "p < length (session_data (lb_store lb))" "\<not> g_upf_lb_bench_drop cfg"
    "worker_of lb p \<in> insert UPF_INVALID_SERVICE_ID (set (workers (worker_cfg (lb_store lb))))"
    using assms(1) by (auto simp: serves_def UpfWorkerCount_def)
  have ip: "rte_be_to_cpu_16 (ether_type pkt) = RTE_ETHER_TYPE_IPV4" "onvm_pkt_ipv4_hdr pkt = Some ETHER_HDR"
    using assms(2) by (auto simp: x packet_session_def onvm_pkt_ipv4_hdr_def split: if_splits)
  let ?ul = "ip_dst_addr pkt ETHER_HDR = g_upf_lb_access_ip_be cfg"
  define t where "t = (if ?ul then gtp_teid (the (parse_gtpu_once pkt))
    else rte_be_to_cpu_32 (s_teid (session_data (lb_store lb) ! p)))"
  obtain st sid where e: "UpfSessionEnsureWorkerServiceId (lb_store lb) (Some p) t = (st, sid)"
    by fastforce
  note w = ensure_worker [OF s(1-3,5) e] and a = ensure_assigns [OF s(1) e]
  have "r = deliver_to_worker cfg sid (lb \<lparr>lb_store := st\<rparr>) (meta \<lparr>m_action := ONVM_NF_ACTION_DROP\<rparr>)"
    using assms(2) e w parsed_valid [of pkt]
    by (auto simp: r_def lb_step_def x lb_packet_handler_def ip packet_session_def t_def select_ul_worker_def
        select_dl_worker_def Let_def split: if_splits option.splits)
  then show ?thesis
    using w a s deliver_result [of "lb \<lparr>lb_store := st\<rparr>" cfg sid] by (simp add: assigns_def)
qed

subsection \<open>One worker for each session\<close>

text \<open>The balancer, for the session in slot \<open>p\<close>.\<close>

interpretation lb: sticky_assignment "lb_step cfg L" "\<lambda>lb x. packet_session cfg L (lb_store lb) (input_pkt x) = Some p"
  "\<lambda>meta d. m_action meta = ONVM_NF_ACTION_TONF \<and> m_destination meta = d" "\<lambda>lb. worker_of lb p"
  "\<lambda>lb. set (workers (worker_cfg (lb_store lb)))" UPF_INVALID_SERVICE_ID "\<lambda>lb. serves cfg lb p" for cfg L p
proof (unfold_locales, goal_cases)
  case (1 lb x) then show ?case by (rule serves_step)
next
  case (2 lb x y)
  then have "assigns (lb_store lb) (lb_store (fst (lb_step cfg L x lb)))" by (intro step_assigns) (simp add: serves_def)
  then show ?case using assigns_session by metis
next
  case (3 lb x) then show ?case using step_assigns [of lb cfg L x] by (simp add: serves_def assigns_def)
next
  case (4 lb x) then show ?case by (intro assigned_worker_kept step_assigns) (simp_all add: serves_def)
next
  case (5 lb x) then show ?case using step_delivers by metis
next
  case (6 lb x) then show ?case using step_delivers by metis
next
  case (7 lb) then show ?case by (simp add: serves_def worker_inv_def)
next
  case (8 lb)
  then have "UpfSelectWorkerServiceIdByTeid (worker_cfg (lb_store lb)) 0 \<in> set (workers (worker_cfg (lb_store lb)))"
    by (intro select_in_workers) (simp_all add: serves_def UpfWorkerCount_def)
  then show ?case by auto
qed

text \<open>
  C6. All packets of a session go to one worker. Take a consistent store, a registry with workers, and
  a session that has no worker yet or one that is configured. Whatever packets the balancer
  handles, in whatever order, there is one configured worker to which it forwards every packet of
  the session: the uplink packets with the TEID of the session and the downlink packets to its
  address alike, none of them dropped. The worker itself, looking at the session afterwards, keeps such a
  packet and does not redirect it.
\<close>

theorem lb_session_affinity:
  fixes L :: "('s, 'm, 'r) store_lib"
  assumes "store_laws L V" "store_inv L V (lb_store lb)" "p \<in> live_sessions V (lb_store lb)"
    "worker_inv (worker_cfg (lb_store lb))" "UpfWorkerCount (worker_cfg (lb_store lb)) \<noteq> 0"
    "\<not> g_upf_lb_bench_drop cfg"
    "UpfSessionGetWorkerServiceId (lb_store lb) (Some p)
       \<in> insert UPF_INVALID_SERVICE_ID (set (workers (worker_cfg (lb_store lb))))"
    "lb_run cfg L inputs lb = (lb', metas)"
  shows "\<exists>d \<in> set (workers (worker_cfg (lb_store lb))). \<forall>i < length inputs.
    packet_session cfg L (lb_store lb) (input_pkt (inputs ! i)) = Some p \<longrightarrow>
    m_action (metas ! i) = ONVM_NF_ACTION_TONF \<and> m_destination (metas ! i) = d \<and>
    (\<forall>teid. redirect_to_owner_if_needed (Some d) (lb_store lb') (Some p) teid (metas ! i)
       = (lb_store lb', metas ! i, False))"
proof -
  obtain seid e where "seid_view V (session_hash (lb_store lb)) seid = Some (p, e)"
    using assms(3) by (auto simp: live_sessions_def)
  then have "p < length (session_data (lb_store lb))"
    using assms(1,2) hash_lookup_Some(3) [of "seid_lib L" "seid_wf V" "seid_view V"]
    by (auto simp: store_laws_def store_inv_def pool_ok_def)
  then have "serves cfg lb p"
    using assms(4-7) by (simp add: serves_def UpfSessionGetWorkerServiceId_def)
  from lb.run_one_owner [OF this assms(8)] obtain d where
    d: "d \<in> set (workers (worker_cfg (lb_store lb)))" "\<And>i. i < length inputs \<Longrightarrow>
      packet_session cfg L (lb_store lb) (input_pkt (inputs ! i)) = Some p \<Longrightarrow>
      m_action (metas ! i) = ONVM_NF_ACTION_TONF \<and> m_destination (metas ! i) = d \<and> worker_of lb' p = d"
    by blast
  have "d \<noteq> UPF_INVALID_SERVICE_ID" using d(1) assms(4) by (auto simp: worker_inv_def)
  then have "redirect_to_owner_if_needed (Some d) (lb_store lb') (Some p) teid m = (lb_store lb', m, False)"
    if "worker_of lb' p = d" for teid m
    using that by (simp add: redirect_to_owner_if_needed_def UpfSessionEnsureWorkerServiceId_def)
  then show ?thesis using d by (intro bexI [OF _ d(1)]) auto
qed

text \<open>The session of \<open>one_store\<close>, not yet given to one of two workers; an uplink and a downlink packet of it.\<close>

definition lb_example :: "(example_seids, example_map, mbuf list) upf_lb" where
  "lb_example = \<lparr>g_upf_lb_stats = \<lparr>non_ipv4_drop = 0, malformed_gtpu_drop = 0, ul_worker_miss_drop = 0,
     dl_session_miss_drop = 0, worker_packets = replicate UPF_MAX_WORKERS 0\<rparr>, g_pktmbuf_pool = True,
     lb_store = one_store \<lparr>session_data := (session_data one_store)
       [0 := one_session \<lparr>s_worker_service_id := UPF_INVALID_SERVICE_ID\<rparr>], worker_cfg := two_workers\<rparr>,
     lb_sent = []\<rparr>"

definition lb_example_cfg :: upf_lb_config where
  "lb_example_cfg = \<lparr>g_upf_lb_access_ip_be = 1, g_upf_lb_core_ip_be = 2, g_upf_lb_bench_drop = False\<rparr>"

definition lb_downlink :: rte_mbuf where
  "lb_downlink = st32 30 9 (st16 12 (rte_bswap16 0x0800) (st8 14 69 example_mbuf))"

definition lb_uplink :: rte_mbuf where
  "lb_uplink = st32 46 7 (st16 36 (rte_bswap16 2152) (st32 30 1 (st16 12 (rte_bswap16 0x0800) (st8 14 69 example_mbuf))))"

lemma lb_packet_fields:
  "ld16 lb_downlink 12 = rte_bswap16 0x0800" "ld8 lb_downlink 14 = 69" "ld32 lb_downlink 30 = 9"
  "ld16 lb_uplink 12 = rte_bswap16 0x0800" "ld8 lb_uplink 14 = 69" "ld32 lb_uplink 30 = 1"
  "ld16 lb_uplink 36 = rte_bswap16 2152" "ld32 lb_uplink 46 = 7" "ld8 lb_uplink 42 = 0"
  by (simp_all add: lb_downlink_def lb_uplink_def ld_other) (simp add: ld8_def example_mbuf_def)

lemma lb_uplink_parsed:
  "parse_gtpu_once lb_uplink = Some \<lparr>gtp_teid = rte_bswap32 7, gtp_qfi = 0, gtp_hdr_len = 8,
     gtp_outer_hdr_len = 36, gtp_valid = True\<rparr>"
  using lb_packet_fields
  by (simp add: parse_gtpu_once_def Let_def ihl_len_def) (simp add: lb_uplink_def example_mbuf_def)

lemma lb_example_store:
  "session_hash (lb_store lb_example) = session_hash one_store" "teid_hash (lb_store lb_example) = teid_hash one_store"
  "ueip_hash (lb_store lb_example) = ueip_hash one_store" "worker_cfg (lb_store lb_example) = two_workers"
  "sess_bufs (lb_store lb_example) = sess_bufs one_store" "session_id_pool (lb_store lb_example) = session_id_pool one_store"
  "length (session_data (lb_store lb_example)) = length (session_data one_store)"
  "session_data (lb_store lb_example) ! 0 = one_session \<lparr>s_worker_service_id := UPF_INVALID_SERVICE_ID\<rparr>"
  by (simp_all add: lb_example_def one_store_def)

lemma lb_example_live: "live_sessions example_view (lb_store lb_example) = {0}"
  using one_store_live by (simp add: live_sessions_def lb_example_store)

lemma lb_example_inv: "store_inv example_lib example_view (lb_store lb_example)"
proof -
  have s: "seid_view example_view (session_hash one_store) k = Some (q, d) \<Longrightarrow> q = 0" for k q d
    using one_store_live by (auto simp: live_sessions_def)
  have "pool_ok example_lib example_view (lb_store lb_example)"
    using one_store_inv s by (fastforce simp: store_inv_def pool_ok_def lb_example_store one_store_slot)
  moreover have "index_ok ix {0} (teid_of (lb_store lb_example)) = index_ok ix {0} (teid_of one_store)"
    "index_ok ix {0} (ueip_of (lb_store lb_example)) = index_ok ix {0} (ueip_of one_store)" for ix
    by (simp_all add: index_ok_def lb_example_store one_store_slot conj_commute cong: conj_cong)
  ultimately show ?thesis
    using one_store_inv by (simp add: store_inv_def lb_example_store lb_example_live one_store_live)
qed

lemma lb_example_sessions:
  "packet_session lb_example_cfg example_lib (lb_store lb_example) (Some lb_downlink) = Some 0"
  "packet_session lb_example_cfg example_lib (lb_store lb_example) (Some lb_uplink) = Some 0"
proof -
  have f: "UpfSessionFindByTeid example_lib (lb_store lb_example) 7 = Some 0"
    "UpfSessionFindByUeIP example_lib (lb_store lb_example) 9 = Some 0"
    using session_lookups [OF example_laws lb_example_inv, of 5 0 7 9]
    by (simp_all add: lb_example_live lb_example_store)
  show "packet_session lb_example_cfg example_lib (lb_store lb_example) (Some lb_downlink) = Some 0"
    "packet_session lb_example_cfg example_lib (lb_store lb_example) (Some lb_uplink) = Some 0"
    using f lb_packet_fields lb_uplink_parsed
    by (simp_all add: packet_session_def lb_example_cfg_def onvm_pkt_ipv4_hdr_def UpfSessionFindByTeidHost_def)
qed

definition lb_example_inputs :: "lb_input list" where
  "lb_example_inputs =
     map (\<lambda>pkt. (\<lparr>lb_arp_env = example_env broadcast_mac, lb_clone = (\<lambda>_. None)\<rparr>, Some pkt,
       \<lparr>m_action = 0, m_destination = 0, m_src = 0, m_chain_index = 0, m_flags = 0\<rparr>, True))
       [lb_downlink, lb_uplink]"

theorem lb_session_affinity_witness:
  "let ms = snd (lb_run lb_example_cfg example_lib lb_example_inputs lb_example)
   in m_destination (ms ! 0) \<in> {10, 11} \<and> m_destination (ms ! 1) = m_destination (ms ! 0)"
proof -
  let ?r = "lb_run lb_example_cfg example_lib lb_example_inputs lb_example"
  have w: "worker_inv two_workers" "workers two_workers = [10, 11]" "UpfWorkerCount two_workers \<noteq> 0"
    by (simp_all add: worker_inv_def workers_def two_workers_def UpfWorkerCount_def)
  obtain d where d: "d \<in> set (workers two_workers)" "\<And>i. i < length lb_example_inputs \<Longrightarrow>
      packet_session lb_example_cfg example_lib (lb_store lb_example) (input_pkt (lb_example_inputs ! i)) = Some 0 \<Longrightarrow>
      m_destination (snd ?r ! i) = d"
    using lb_session_affinity [OF example_laws lb_example_inv, of 0 lb_example_cfg lb_example_inputs "fst ?r" "snd ?r"] w
    by (auto simp: lb_example_live lb_example_store UpfSessionGetWorkerServiceId_def lb_example_cfg_def)
  show ?thesis
    using d(1) w d(2) [of 0] d(2) [of 1] by (simp add: lb_example_sessions lb_example_inputs_def)
qed

end
