(* ===== verification/Spec2Isabelle.thy ===== *)
theory Spec2Isabelle
  imports Worker_Inv Linked_List N4_Session Upf_Lb
begin

text \<open>
  A verification development for the user plane function (UPF) of a 5G core on openNetVM and
  DPDK. File names are relative to the source directory of the repository.

  \<^bold>\<open>The program.\<close> Three network functions share memory. The control plane \<^verbatim>\<open>5gc/upf_c\<close> speaks PFCP
  with the SMF: its dispatcher (\<^verbatim>\<open>n4_dispatcher.c\<close>) takes N4 messages and reports from the workers,
  the transaction layer (\<^verbatim>\<open>onvm/pfcp/pfcp_xact.c\<close>) recognises new and repeated messages, the codec
  (\<^verbatim>\<open>onvm/pfcp/pfcp_message.c\<close>) turns octets into elements and back, and the handlers
  (\<^verbatim>\<open>n4_onvm_pfcp_handler.c\<close>) create, change and remove sessions and their packet detection (PDR),
  forwarding (FAR) and QoS (QER) rules. Sessions live in a store (\<^verbatim>\<open>onvm/upf\<close>) indexed by SEID,
  TEID and UE address; after every change of a PDR a new classifier is built and published to the
  workers under a sequence lock, and the old one is freed when all of them have acknowledged. The
  load balancer \<^verbatim>\<open>5gc/upf_lb\<close> gives every packet to the worker of its session. A worker \<^verbatim>\<open>5gc/upf_u\<close>
  answers ARP and ICMP, looks up the rule of a packet, polices, shapes, buffers or forwards it, and
  adds or removes the GTP-U header.

  \<^bold>\<open>Theories, from the bottom.\<close>

  \<^item> \<open>Upf_Prelude\<close>: machine types, constants, byte order, packet metadata, shared lemmas and the
    fact collections. \<open>C_Strings\<close>: the C library functions on strings that the source calls.
    \<open>Probe_Table\<close>: linear probing, with the locale \<open>probe_table\<close> for a table whose probe sequences
    have no gaps. \<open>Linked_List\<close>: \<^verbatim>\<open>onvm/list\<close> on an explicit heap of nodes.
  \<^item> \<open>Token_Bucket\<close>, \<open>Ue_Table\<close>: \<^verbatim>\<open>upf_u_trtcm.c\<close>, the token buckets and the table of UEs with their
    session AMBR and GBR buckets. The locale \<open>rate_limiter\<close> bounds what any run of a bucket lets
    through; it is interpreted on the session AMBR, the MFBR and the GFBR bucket of a UE.
    \<open>Flow_Meter\<close>: the three-colour meters of the flows. \<open>Active_Ue\<close>, \<open>Shaper\<close>, \<open>Shaper_Enqueue\<close>,
    \<open>Shaper_Drain\<close>: the downlink shaper of \<^verbatim>\<open>upf_u.c\<close>, its bitmap of active UEs, its queues, and the
    two directions of its operation.
  \<^item> \<open>Upf_Rules\<close>, \<open>Session_Rules\<close>, \<open>Sess_Buf\<close>, \<open>Worker_Events\<close>, \<open>Session_Store\<close>: the rule records of
    \<^verbatim>\<open>onvm/updk\<close>, the rules of a session, its buffer, the registry of workers and the messages to
    them, and the store of sessions with its indices.
  \<^item> \<open>Mbuf\<close>, \<open>Gtp\<close>, \<open>Neigh\<close>, \<open>Icmp\<close>: packets as octets with the helpers of \<^verbatim>\<open>onvm_pkt_helper.c\<close>, GTP-U
    headers (\<^verbatim>\<open>gtp.h\<close>, \<^verbatim>\<open>Encap\<close>), the neighbour table (\<^verbatim>\<open>upf_u_arp.c\<close>) and echo replies
    (\<^verbatim>\<open>upf_u_icmp.c\<close>).
  \<^item> \<open>Cls_Publish\<close>, \<open>Cls_Adapter\<close>, \<open>Sdf_Compile\<close>: rebuilding and publishing the classifier, the
    translation of a PDR into a classifier rule (\<^verbatim>\<open>upf_cls_adapter.cpp\<close>), and the precompiled SDF
    filter. \<open>Dl_Config\<close>: classification keys and the configuration of the shaper from the QERs.
  \<^item> \<open>Packet_Handler\<close>, \<open>Worker_Inv\<close>: the handlers of a worker, composed of the components above, and
    their invariant. The locale \<open>token_invariant\<close> carries an invariant of the token table through
    every operation of the shaper. \<open>Upf_Lb\<close>: the packet handler of the load balancer; the locale
    \<open>sticky_assignment\<close> states how it keeps the packets of a session together.
  \<^item> \<open>Pfcp_Convert\<close>, \<open>N4_Rules\<close>, \<open>N4_Consistency\<close>: from information elements to rules, the nine rule
    handlers, and the consistency of rules and published classifier they keep.
  \<^item> \<open>Pfcp_Tlv\<close>, \<open>Pfcp_Xact\<close>, \<open>N4_Session\<close>: the codec with its description table, the transactions,
    and the session and association handlers with the dispatcher.

  \<^bold>\<open>State and operations.\<close> A C structure is a record with the fields of the source, an array a list
  whose length is part of the invariant, an unsigned integer a word of its width, so that
  wrap-around is that of C; \<^verbatim>\<open>int\<close> is \<open>int\<close>. A null pointer is \<open>None\<close>. Memory that is addressed
  octet by octet (packets, PFCP messages) is a function from offsets to octets. Global variables are
  the state records \<open>shaper_state\<close>, \<open>worker\<close>, \<open>session_store\<close>, \<open>upf_c\<close>, \<open>xact_pool\<close> and \<open>upf_lb\<close>, passed
  to an operation and returned by it together with the packets and messages it sends. An operation
  under a lock is one step; the sequence lock, where readers and writer interleave, is the step relations
  \<open>publish_step\<close> and \<open>flip_step\<close>. Readings of the cycle counter are arguments, one for each reading.
  A result \<open>None\<close> of an operation that returns a state means that the C code follows a null pointer
  or does not return. A function that ends without \<^verbatim>\<open>return\<close> leaves its caller a value that is not
  defined; whether it is nonzero is the field \<open>n_garbage\<close> of the environment.

  \<^bold>\<open>Loops.\<close> Loops with a bound are recursions or have a termination proof. Loops that can run
  forever are partial functions to \<open>option\<close>; theorems say when they return, for
  the SDF filter and the GTP-U header length exactly, and that the handlers of a worker do for every
  packet that is not addressed to 0.0.0.0.
  The only fuel is the depth 4 of \<open>describe\<close>, which unfolds the description table of the codec;
  \<open>message_ies_defined\<close> shows that every message is described within it.

  \<^bold>\<open>Code outside the repository.\<close> DPDK's hash tables, rings, meters, mbuf pool and checksums, the
  openNetVM send calls and the C++ packet classifier are arguments of the definitions, records of
  functions such as \<open>store_lib\<close>, \<open>rte_meter_lib\<close> and \<open>arp_env\<close>. Theorems that need their documented
  behaviour assume it by name: \<open>rte_hash_ok\<close> (a hash table is a finite map with stable positions),
  \<open>ring_fifo\<close> (a ring is a bounded queue), together \<open>store_laws\<close>; each has an instance on which the
  theorem is used. Pools of transmit buffers for PFCP messages are taken as not exhausted, and there
  is one PFCP peer.

  \<^bold>\<open>What is shown.\<close>

  \<^item> Packets: a worker transmits a packet only for an echo request or a rule that allows it, does not
    get stuck on packets for real addresses, removes only headers that are there and adds headers that
    are parsed back; buffered packets come out once and in order. All packets of a session reach one
    worker. Echo requests for a local address are answered exactly when their lengths admit it, and ARP
    requests for a neighbour leave at most once a second as long as no neighbour has to be evicted.
  \<^item> Rates: over any run a UE gets at most its session AMBR and a GBR flow at most its MFBR, up to a
    burst, and waiting is enough to be served; the shaper keeps flows in order and loses nothing it
    has accepted; the bitmap scan finds the next active UE; flows without a guarantee are never green.
  \<^item> Tables: the UE table, the flow table and the neighbour table refine maps; the linked list
    refines a sequence.
  \<^item> Sessions: creation either adds a session with all its keys or changes nothing, except that a
    duplicate TEID unlinks its owner; deletion removes everything and tells the
    worker.
  \<^item> Rules: whole PFCP messages keep the lists of PDRs and the published classifier consistent; a
    PDR is created completely or not at all, as long as the registration that ends without \<^verbatim>\<open>return\<close>
    appears to succeed; an update of a FAR releases the buffer exactly when it has to; flow
    descriptions become the classifier rules and filters they describe, and an SDF filter is converted
    to its reference value or makes the conversion loop, exactly as stated.
  \<^item> Classifier snapshots: no worker reads a torn pair of pointer and generation, and until the next
    publication a snapshot is freed exactly when as many different identifiers have acknowledged its
    successor as workers were notified, which is when all workers have if nobody else acknowledges.
  \<^item> PFCP: exact conditions under which parsing inverts encoding and building makes the encoding,
    both of which the code meets for messages in order and groups of at most 60 octets; a repeated
    request gets the same answer until another request comes, after which it is carried out again;
    transactions stay well formed.

  \<^bold>\<open>Not modelled.\<close> Start-up, configuration files, sockets and the table of PFCP peers
  (\<^verbatim>\<open>upf_init.c\<close>, \<^verbatim>\<open>*_config.c\<close>, \<^verbatim>\<open>pfcp_node.c\<close>, \<^verbatim>\<open>pfcp_path.c\<close>, \<^verbatim>\<open>onvm/utlt\<close> without buffers, lists, indices and
  events): calls of the operating system whose results are the configuration records here. The
  classification engines under \<^verbatim>\<open>5gc/classifiers\<close> and \<^verbatim>\<open>cJSON.c\<close>: third-party code. The framework
  (\<^verbatim>\<open>onvm_mgr\<close>, \<^verbatim>\<open>onvm_nflib.c\<close>) and its example functions: they call the handlers or have nothing to do
  with them. Logging and statistics printing. The step from parsed elements to the structures of
  a message is the layout of C structures and appears as the conversion functions read it.
\<close>

end
